(* ===== verification/Qos_Prelude.thy ===== *)
theory Qos_Prelude
  imports Main "HOL-Library.Word"
begin

text \<open>
  Shared vocabulary of the development: the machine integers of the code, the result type of
  its fallible operations, checked access to raw memory, and the generic lemmas on lists and
  results that the components share.

  An operation of the code that returns \<open>std::unique_ptr<Result>\<close> has one of three outcomes in
  the model: \<open>Ok\<close> (the result is \<open>ok()\<close>, with the new state), \<open>Failed\<close> (the code returned
  \<open>Result::Create(-1, ...)\<close>, with the reason), or \<open>Crash\<close> (the code has no defined behaviour
  there: a null dereference, an access outside an allocation, \<open>front()\<close> of an empty vector).
\<close>

section \<open>Machine integers\<close>

type_synonym u8 = "8 word"
type_synonym u16 = "16 word"
type_synonym u32 = "32 word"
type_synonym u64 = "64 word"
type_synonym s32 = "32 word"
type_synonym bytes = "u8 list"

named_theorems memory_simps \<open>reads and writes of raw memory\<close>
named_theorems outcome_simps \<open>sequencing of outcomes\<close>

lemma u8_bound: "unat (a :: u8) < 256"
  using unsigned_less [of a, where 'a=nat] by simp

lemma u16_bound: "unat (a :: u16) < 65536"
  using unsigned_less [of a, where 'a=nat] by simp

lemma u32_bound: "unat (a :: u32) < 4294967296"
  using unsigned_less [of a, where 'a=nat] by simp

lemma unat_ucast_u8 [simp]:
  "unat (ucast (a :: u8) :: u16) = unat a" "unat (ucast (a :: u8) :: u32) = unat a"
  using u8_bound [of a] by (simp_all add: unsigned_ucast_eq take_bit_nat_eq_self)

lemma unat_ucast_u16 [simp]: "unat (ucast (a :: u16) :: u32) = unat a"
  using u16_bound [of a] by (simp add: unsigned_ucast_eq take_bit_nat_eq_self)

text \<open>A value below half the range reads the same signed and unsigned.\<close>

lemma sint_small:
  fixes w :: "'a::len word"
  assumes "unat w < 2 ^ (LENGTH('a) - 1)"
  shows "sint w = int (unat w)"
proof -
  have "int (unat w) < 2 ^ (LENGTH('a) - 1)"
    using assms by (metis of_nat_less_iff of_nat_numeral of_nat_power)
  moreover have "- (2 ^ (LENGTH('a) - 1)) \<le> int (unat w)" by (rule order_trans [of _ 0]) simp_all
  ultimately have "signed_take_bit (LENGTH('a) - 1) (int (unat w)) = int (unat w)"
    by (intro signed_take_bit_int_eq_self)
  then show ?thesis by (simp add: sint_uint)
qed

section \<open>Outcomes of fallible operations\<close>

datatype crash = Null_Dereference | Out_Of_Bounds | Empty_Container | Integer_Overflow

datatype ('e, 'a) outcome = Ok 'a | Failed 'e | Crash crash

fun obind :: "('e, 'a) outcome \<Rightarrow> ('a \<Rightarrow> ('e, 'b) outcome) \<Rightarrow> ('e, 'b) outcome" where
  "obind (Ok a) f = f a"
| "obind (Failed e) f = Failed e"
| "obind (Crash c) f = Crash c"

fun omap :: "('a \<Rightarrow> 'b) \<Rightarrow> ('e, 'a) outcome \<Rightarrow> ('e, 'b) outcome" where
  "omap f (Ok a) = Ok (f a)"
| "omap f (Failed e) = Failed e"
| "omap f (Crash c) = Crash c"

text \<open>The use of a pointer that may be null.\<close>

definition deref :: "'a option \<Rightarrow> ('a \<Rightarrow> ('e, 'b) outcome) \<Rightarrow> ('e, 'b) outcome" where
  "deref p f = (case p of None \<Rightarrow> Crash Null_Dereference | Some a \<Rightarrow> f a)"

definition is_ok :: "('e, 'a) outcome \<Rightarrow> bool" where
  "is_ok r = (case r of Ok _ \<Rightarrow> True | _ \<Rightarrow> False)"

definition crashes :: "('e, 'a) outcome \<Rightarrow> bool" where
  "crashes r = (case r of Crash _ \<Rightarrow> True | _ \<Rightarrow> False)"

lemma is_ok_simps [simp]:
  "is_ok (Ok a)" "\<not> is_ok (Failed e)" "\<not> is_ok (Crash c)"
  by (simp_all add: is_ok_def)

lemma crashes_simps [simp]:
  "\<not> crashes (Ok a)" "\<not> crashes (Failed e)" "crashes (Crash c)"
  by (simp_all add: crashes_def)

lemma obind_assoc [outcome_simps]: "obind (obind m f) g = obind m (\<lambda>x. obind (f x) g)"
  by (cases m) auto

lemma obind_Ok_right [simp]: "obind m Ok = m"
  by (cases m) auto

lemma obind_eq_Ok_conv: "obind m f = Ok b \<longleftrightarrow> (\<exists>a. m = Ok a \<and> f a = Ok b)"
  by (cases m) auto

lemma obind_eq_Failed_conv: "obind m f = Failed e \<longleftrightarrow> m = Failed e \<or> (\<exists>a. m = Ok a \<and> f a = Failed e)"
  by (cases m) auto

lemma obind_cong [fundef_cong]:
  "m = m' \<Longrightarrow> (\<And>a. m' = Ok a \<Longrightarrow> f a = g a) \<Longrightarrow> obind m f = obind m' g"
  by (cases m') auto

lemma obind_if [outcome_simps]:
  "obind (if c then a else b) f = (if c then obind a f else obind b f)"
  by simp

named_theorems no_crash \<open>operations that never leave defined behaviour\<close>

lemma no_crash_simps [no_crash]: "\<not> crashes (Ok a)" "\<not> crashes (Failed e)"
  by simp_all

lemma no_crash_obind [no_crash]:
  "\<not> crashes m \<Longrightarrow> (\<And>a. m = Ok a \<Longrightarrow> \<not> crashes (f a)) \<Longrightarrow> \<not> crashes (obind m f)"
  by (cases m) auto

lemma no_crash_omap [no_crash]: "\<not> crashes m \<Longrightarrow> \<not> crashes (omap f m)"
  by (cases m) auto

lemma no_crash_if [no_crash]:
  "(c \<Longrightarrow> \<not> crashes a) \<Longrightarrow> (\<not> c \<Longrightarrow> \<not> crashes b) \<Longrightarrow> \<not> crashes (if c then a else b)"
  by simp

text \<open>Running an operation over a list, left to right, stopping at the first failure.\<close>

fun ofold :: "('a \<Rightarrow> 's \<Rightarrow> ('e, 's) outcome) \<Rightarrow> 'a list \<Rightarrow> 's \<Rightarrow> ('e, 's) outcome" where
  "ofold f [] s = Ok s"
| "ofold f (x # xs) s = obind (f x s) (ofold f xs)"

fun omapM :: "('a \<Rightarrow> ('e, 'b) outcome) \<Rightarrow> 'a list \<Rightarrow> ('e, 'b list) outcome" where
  "omapM f [] = Ok []"
| "omapM f (x # xs) = obind (f x) (\<lambda>y. omap (Cons y) (omapM f xs))"

lemma omapM_all_Ok: "(\<And>x. x \<in> set xs \<Longrightarrow> f x = Ok (g x)) \<Longrightarrow> omapM f xs = Ok (map g xs)"
  by (induction xs) auto

lemma no_crash_omapM [no_crash]:
  "(\<And>x. x \<in> set xs \<Longrightarrow> \<not> crashes (f x)) \<Longrightarrow> \<not> crashes (omapM f xs)"
proof (induction xs)
  case (Cons x xs)
  then have "\<not> crashes (f x)" "\<not> crashes (omapM f xs)" by auto
  then show ?case by (cases "f x") (simp_all add: no_crash_omap)
qed simp

lemma ofold_single [simp]: "ofold f [x] = f x"
proof (rule ext)
  show "ofold f [x] s = f x s" for s by (cases "f x s") simp_all
qed

lemma ofold_append: "ofold f (xs @ ys) s = obind (ofold f xs s) (ofold f ys)"
  by (induction xs arbitrary: s) (auto simp: obind_assoc intro!: arg_cong [where f = "obind _"])

text \<open>An invariant that every step establishes again holds after the run, which then succeeds.\<close>

lemma ofold_invariant:
  assumes "\<And>x s. x \<in> set xs \<Longrightarrow> P s \<Longrightarrow> \<exists>s'. f x s = Ok s' \<and> P s'" and "P s"
  shows "\<exists>s'. ofold f xs s = Ok s' \<and> P s'"
  using assms
proof (induction xs arbitrary: s)
  case (Cons x xs)
  obtain s1 where "f x s = Ok s1" "P s1" using Cons.prems by force
  then show ?case using Cons.IH [of s1] Cons.prems(1) by simp
qed simp

section \<open>Raw memory\<close>

text \<open>
  A byte array is a list of bytes. \<open>get_bytes\<close> is a read of \<open>n\<close> bytes at an offset,
  \<open>put_bytes\<close> a \<open>memcpy\<close> into it; both crash outside the array.
\<close>

definition get_bytes :: "bytes \<Rightarrow> nat \<Rightarrow> nat \<Rightarrow> ('e, bytes) outcome" where
  "get_bytes m off n = (if off + n \<le> length m then Ok (take n (drop off m)) else Crash Out_Of_Bounds)"

definition get_byte :: "bytes \<Rightarrow> nat \<Rightarrow> ('e, u8) outcome" where
  "get_byte m off = (if off < length m then Ok (m ! off) else Crash Out_Of_Bounds)"

definition put_bytes :: "nat \<Rightarrow> bytes \<Rightarrow> bytes \<Rightarrow> ('e, bytes) outcome" where
  "put_bytes off bs m =
     (if off + length bs \<le> length m
      then Ok (take off m @ bs @ drop (off + length bs) m)
      else Crash Out_Of_Bounds)"

lemma get_bytes_Ok [memory_simps]: "off + n \<le> length m \<Longrightarrow> get_bytes m off n = Ok (take n (drop off m))"
  by (simp add: get_bytes_def)

lemma get_byte_Ok [memory_simps]: "off < length m \<Longrightarrow> get_byte m off = Ok (m ! off)"
  by (simp add: get_byte_def)

lemma no_crash_get_byte [no_crash]: "off < length m \<Longrightarrow> \<not> crashes (get_byte m off)"
  by (simp add: get_byte_def)

lemma no_crash_get_bytes [no_crash]: "off + n \<le> length m \<Longrightarrow> \<not> crashes (get_bytes m off n)"
  by (simp add: get_bytes_def)

lemma put_bytes_Ok [memory_simps]:
  "off + length bs \<le> length m \<Longrightarrow>
   put_bytes off bs m = Ok (take off m @ bs @ drop (off + length bs) m)"
  by (simp add: put_bytes_def)

lemma put_bytes_length: "put_bytes off bs m = Ok m' \<Longrightarrow> length m' = length m"
  by (auto simp: put_bytes_def split: if_splits)

text \<open>Two adjacent writes are one write of the concatenation; every encoder rests on this.\<close>

lemma put_bytes_append:
  "obind (put_bytes off a m) (put_bytes (off + length a) b) = put_bytes off (a @ b) m"
  by (auto simp: put_bytes_def ac_simps)

named_theorems put_merge \<open>adjacent writes collapse into one\<close>

lemma put_bytes_append_last [put_merge]:
  "off' = off + length a \<Longrightarrow> obind (put_bytes off a m) (put_bytes off' b) = put_bytes off (a @ b) m"
  by (simp add: put_bytes_append)

lemma put_bytes_append_next [put_merge]:
  "off' = off + length a \<Longrightarrow>
   obind (put_bytes off a m) (\<lambda>m1. obind (put_bytes off' b m1) f) = obind (put_bytes off (a @ b) m) f"
  by (simp flip: put_bytes_append add: obind_assoc)

lemma put_bytes_append_omap [put_merge]:
  "off' = off + length a \<Longrightarrow>
   obind (put_bytes off a m) (\<lambda>m1. omap f (put_bytes off' b m1)) = omap f (put_bytes off (a @ b) m)"
  by (auto simp: put_bytes_def ac_simps)

lemma obind_omap [outcome_simps]: "obind (omap f m) g = obind m (\<lambda>x. g (f x))"
  by (cases m) auto

lemma omap_obind [outcome_simps]: "omap f (obind m g) = obind m (\<lambda>x. omap f (g x))"
  by (cases m) auto

lemma omap_omap [outcome_simps]: "omap f (omap g m) = omap (\<lambda>x. f (g x)) m"
  by (cases m) auto

text \<open>Reading a fixed field out of a concatenation.\<close>

lemma get_bytes_at:
  "length a = off \<Longrightarrow> length b = n \<Longrightarrow> get_bytes (a @ b @ c) off n = Ok b"
  by (simp add: get_bytes_def)

lemma get_bytes_shift: "length a \<le> off \<Longrightarrow> get_bytes (a @ b) off n = get_bytes b (off - length a) n"
  by (auto simp: get_bytes_def)

lemma get_byte_shift: "length a \<le> off \<Longrightarrow> get_byte (a @ b) off = get_byte b (off - length a)"
  by (auto simp: get_byte_def nth_append)

lemma get_bytes_prefix: "length a = n \<Longrightarrow> get_bytes (a @ b) 0 n = Ok a"
  by (simp add: get_bytes_def)

lemma get_byte_head: "get_byte (a # b) 0 = Ok a"
  by (simp add: get_byte_def)

lemma get_bytes_suffix: "length pre = base \<Longrightarrow> get_bytes (pre @ b) (base + k) n = get_bytes b k n"
  by (simp add: get_bytes_def)

lemma get_byte_suffix: "length pre = base \<Longrightarrow> get_byte (pre @ b) (base + k) = get_byte b k"
  by (auto simp: get_byte_def nth_append)

lemma put_bytes_frame:
  assumes "put_bytes off bs m = Ok m'"
  shows "take off m' = take off m \<and> take (length bs) (drop off m') = bs
    \<and> drop (off + length bs) m' = drop (off + length bs) m"
  using assms by (auto simp: put_bytes_def split: if_splits)

section \<open>Lists\<close>

lemma take_drop_append: "length a = off \<Longrightarrow> length b = n \<Longrightarrow> take n (drop off (a @ b @ c)) = b"
  by simp

lemma nth_append_off: "length a = off \<Longrightarrow> (a @ b) ! (off + i) = b ! i"
  by (auto simp: nth_append)

lemma length_concat_const:
  "(\<And>x. x \<in> set xs \<Longrightarrow> length (f x) = n) \<Longrightarrow> length (concat (map f xs)) = n * length xs"
  by (induction xs) auto

lemma nth_concat_const:
  assumes "\<And>x. x \<in> set xs \<Longrightarrow> length (f x) = n" and "i < length xs" and "j < n"
  shows "concat (map f xs) ! (i * n + j) = f (xs ! i) ! j"
  using assms
proof (induction xs arbitrary: i)
  case Nil
  then show ?case by simp
next
  case (Cons x xs)
  show ?case
  proof (cases i)
    case 0
    with Cons.prems show ?thesis by (simp add: nth_append)
  next
    case (Suc k)
    with Cons show ?thesis by (simp add: nth_append add.assoc)
  qed
qed

lemma drop_concat_const:
  "(\<And>x. x \<in> set xs \<Longrightarrow> length (f x) = n) \<Longrightarrow>
   drop (n * i) (concat (map f xs)) = concat (map f (drop i xs))"
proof (induction xs arbitrary: i)
  case Nil
  then show ?case by simp
next
  case (Cons x xs)
  then show ?case by (cases i) (auto simp: algebra_simps)
qed

lemma replicate_numeral [simp]: "replicate (numeral k) x = x # replicate (pred_numeral k) x"
  by (simp add: numeral_eq_Suc)

lemma unat_of_nat_mod: "unat (of_nat n :: 'a::len word) = n mod 2 ^ LENGTH('a)"
  by (simp add: unat_of_nat)

end
