(* ===== verification/Fec_Tables.thy ===== *)
theory Fec_Tables
  imports Qos_Prelude
begin

text \<open>
  \<open>src/rtp_rtcp/fec_private_tables_bursty.cc\<close> and \<open>fec_private_tables_random.cc\<close>: the packet
  masks for up to twelve media packets. The macros \<open>kMaskBursty<n>_1 .. kMaskBursty<n>_<n>\<close> of one
  \<open>n\<close> are one definition here, a list whose \<open>k\<close>-th element (from 1) is the mask for \<open>k\<close> FEC packets:
  \<open>k\<close> rows of two bytes, whose bit \<open>i\<close> from the left says that the row protects media packet \<open>i\<close>.
  \<open>kPacketMaskBursty<n>\<close> is the count followed by these masks, and the table is the number of
  blocks followed by the blocks, one flat array of bytes.
\<close>

section \<open>Bursty masks\<close>

definition kMaskBursty1 :: "bytes list" where
  "kMaskBursty1 =
    [[0x80, 0x00]]"

definition kMaskBursty2 :: "bytes list" where
  "kMaskBursty2 =
    [[0xc0, 0x00],
     [0x80, 0x00, 0xc0, 0x00]]"

definition kMaskBursty3 :: "bytes list" where
  "kMaskBursty3 =
    [[0xe0, 0x00],
     [0xc0, 0x00, 0xa0, 0x00],
     [0x80, 0x00, 0xc0, 0x00, 0x60, 0x00]]"

definition kMaskBursty4 :: "bytes list" where
  "kMaskBursty4 =
    [[0xf0, 0x00],
     [0xa0, 0x00, 0xd0, 0x00],
     [0xc0, 0x00, 0x60, 0x00, 0x90, 0x00],
     [0x80, 0x00, 0xc0, 0x00, 0x60, 0x00, 0x30, 0x00]]"

definition kMaskBursty5 :: "bytes list" where
  "kMaskBursty5 =
    [[0xf8, 0x00],
     [0xd0, 0x00, 0xa8, 0x00],
     [0x70, 0x00, 0x90, 0x00, 0xc8, 0x00],
     [0xc0, 0x00, 0x60, 0x00, 0x30, 0x00, 0x88, 0x00],
     [0x80, 0x00, 0xc0, 0x00, 0x60, 0x00, 0x30, 0x00, 0x18, 0x00]]"

definition kMaskBursty6 :: "bytes list" where
  "kMaskBursty6 =
    [[0xfc, 0x00],
     [0xa8, 0x00, 0xd4, 0x00],
     [0x94, 0x00, 0xc8, 0x00, 0x64, 0x00],
     [0x60, 0x00, 0x38, 0x00, 0x88, 0x00, 0xc4, 0x00],
     [0xc0, 0x00, 0x60, 0x00, 0x30, 0x00, 0x18, 0x00, 0x84, 0x00],
     [0x80, 0x00, 0xc0, 0x00, 0x60, 0x00, 0x30, 0x00, 0x18, 0x00, 0x0c, 0x00]]"

definition kMaskBursty7 :: "bytes list" where
  "kMaskBursty7 =
    [[0xfe, 0x00],
     [0xd4, 0x00, 0xaa, 0x00],
     [0xc8, 0x00, 0x74, 0x00, 0x92, 0x00],
     [0x38, 0x00, 0x8a, 0x00, 0xc4, 0x00, 0x62, 0x00],
     [0x60, 0x00, 0x30, 0x00, 0x1c, 0x00, 0x84, 0x00, 0xc2, 0x00],
     [0xc0, 0x00, 0x60, 0x00, 0x30, 0x00, 0x18, 0x00, 0x0c, 0x00, 0x82, 0x00],
     [0x80, 0x00, 0xc0, 0x00, 0x60, 0x00, 0x30, 0x00, 0x18, 0x00, 0x0c, 0x00, 0x06, 0x00]]"

definition kMaskBursty8 :: "bytes list" where
  "kMaskBursty8 =
    [[0xff, 0x00],
     [0xaa, 0x00, 0xd5, 0x00],
     [0x74, 0x00, 0x92, 0x00, 0xc9, 0x00],
     [0x8a, 0x00, 0xc5, 0x00, 0x62, 0x00, 0x31, 0x00],
     [0x30, 0x00, 0x1c, 0x00, 0x85, 0x00, 0xc2, 0x00, 0x61, 0x00],
     [0x60, 0x00, 0x30, 0x00, 0x18, 0x00, 0x0e, 0x00, 0x82, 0x00, 0xc1, 0x00],
     [0xc0, 0x00, 0x60, 0x00, 0x30, 0x00, 0x18, 0x00, 0x0c, 0x00, 0x06, 0x00, 0x81, 0x00],
     [0x80, 0x00, 0xc0, 0x00, 0x60, 0x00, 0x30, 0x00, 0x18, 0x00, 0x0c, 0x00, 0x06, 0x00, 0x03, 0x00]]"

definition kMaskBursty9 :: "bytes list" where
  "kMaskBursty9 =
    [[0xff, 0x80],
     [0xd5, 0x00, 0xaa, 0x80],
     [0x92, 0x00, 0xc9, 0x00, 0x74, 0x80],
     [0xc5, 0x00, 0x62, 0x00, 0x39, 0x00, 0x8a, 0x80],
     [0x1c, 0x00, 0x85, 0x00, 0xc2, 0x80, 0x61, 0x00, 0x30, 0x80],
     [0x30, 0x00, 0x18, 0x00, 0x0e, 0x00, 0x82, 0x80, 0xc1, 0x00, 0x60, 0x80],
     [0x60, 0x00, 0x30, 0x00, 0x18, 0x00, 0x0c, 0x00, 0x07, 0x00, 0x81, 0x00, 0xc0, 0x80],
     [0xc0, 0x00, 0x60, 0x00, 0x30, 0x00, 0x18, 0x00, 0x0c, 0x00, 0x06, 0x00, 0x03, 0x00, 0x80, 0x80],
     [0x80, 0x00, 0xc0, 0x00, 0x60, 0x00, 0x30, 0x00, 0x18, 0x00, 0x0c, 0x00, 0x06, 0x00, 0x03, 0x00, 0x01, 0x80]]"

definition kMaskBursty10 :: "bytes list" where
  "kMaskBursty10 =
    [[0xff, 0xc0],
     [0xaa, 0x80, 0xd5, 0x40],
     [0xc9, 0x00, 0x74, 0x80, 0x92, 0x40],
     [0x62, 0x00, 0x39, 0x00, 0x8a, 0x80, 0xc5, 0x40],
     [0x85, 0x00, 0xc2, 0x80, 0x61, 0x40, 0x30, 0x80, 0x18, 0x40],
     [0x18, 0x00, 0x0e, 0x00, 0x82, 0x80, 0xc1, 0x40, 0x60, 0x80, 0x30, 0x40],
     [0x30, 0x00, 0x18, 0x00, 0x0c, 0x00, 0x07, 0x00, 0x81, 0x40, 0xc0, 0x80, 0x60, 0x40],
     [0x60, 0x00, 0x30, 0x00, 0x18, 0x00, 0x0c, 0x00, 0x06, 0x00, 0x03, 0x00, 0x80, 0x80, 0xc0, 0x40],
     [0xc0, 0x00, 0x60, 0x00, 0x30, 0x00, 0x18, 0x00, 0x0c, 0x00, 0x06, 0x00, 0x03, 0x00, 0x01, 0x80, 0x80, 0x40],
     [0x80, 0x00, 0xc0, 0x00, 0x60, 0x00, 0x30, 0x00, 0x18, 0x00, 0x0c, 0x00, 0x06, 0x00, 0x03, 0x00, 0x01, 0x80, 0x00, 0xc0]]"

definition kMaskBursty11 :: "bytes list" where
  "kMaskBursty11 =
    [[0xff, 0xe0],
     [0xd5, 0x40, 0xaa, 0xa0],
     [0x74, 0x80, 0x92, 0x40, 0xc9, 0x20],
     [0x39, 0x00, 0x8a, 0x80, 0xc5, 0x40, 0x62, 0x20],
     [0xc2, 0xc0, 0x61, 0x00, 0x30, 0xa0, 0x1c, 0x40, 0x85, 0x20],
     [0x0e, 0x00, 0x82, 0x80, 0xc1, 0x40, 0x60, 0xa0, 0x30, 0x40, 0x18, 0x20],
     [0x18, 0x00, 0x0c, 0x00, 0x07, 0x00, 0x81, 0x40, 0xc0, 0xa0, 0x60, 0x40, 0x30, 0x20],
     [0x30, 0x00, 0x18, 0x00, 0x0c, 0x00, 0x06, 0x00, 0x03, 0x40, 0x80, 0xa0, 0xc0, 0x40, 0x60, 0x20],
     [0x60, 0x00, 0x30, 0x00, 0x18, 0x00, 0x0c, 0x00, 0x06, 0x00, 0x03, 0x00, 0x01, 0x80, 0x80, 0x40, 0xc0, 0x20],
     [0xc0, 0x00, 0x60, 0x00, 0x30, 0x00, 0x18, 0x00, 0x0c, 0x00, 0x06, 0x00, 0x03, 0x00, 0x01, 0x80, 0x00, 0xc0, 0x80, 0x20],
     [0x80, 0x00, 0xc0, 0x00, 0x60, 0x00, 0x30, 0x00, 0x18, 0x00, 0x0c, 0x00, 0x06, 0x00, 0x03, 0x00, 0x01, 0x80, 0x00, 0xc0, 0x00, 0x60]]"

definition kMaskBursty12 :: "bytes list" where
  "kMaskBursty12 =
    [[0xff, 0xf0],
     [0xaa, 0xa0, 0xd5, 0x50],
     [0x92, 0x40, 0xc9, 0x20, 0x74, 0x90],
     [0x8a, 0x80, 0xc5, 0x40, 0x62, 0x20, 0x39, 0x10],
     [0x61, 0x00, 0x30, 0xa0, 0x1c, 0x50, 0x85, 0x20, 0xc2, 0x90],
     [0x82, 0x90, 0xc1, 0x40, 0x60, 0xa0, 0x30, 0x50, 0x18, 0x20, 0x0c, 0x10],
     [0x0c, 0x00, 0x07, 0x00, 0x81, 0x40, 0xc0, 0xa0, 0x60, 0x50, 0x30, 0x20, 0x18, 0x10],
     [0x18, 0x00, 0x0c, 0x00, 0x06, 0x00, 0x03, 0x00, 0x80, 0xa0, 0xc0, 0x50, 0x60, 0x20, 0x30, 0x10],
     [0x30, 0x00, 0x18, 0x00, 0x0c, 0x00, 0x06, 0x00, 0x03, 0x00, 0x01, 0x80, 0x80, 0x50, 0xc0, 0x20, 0x60, 0x10],
     [0x60, 0x00, 0x30, 0x00, 0x18, 0x00, 0x0c, 0x00, 0x06, 0x00, 0x03, 0x00, 0x01, 0x80, 0x00, 0xc0, 0x80, 0x20, 0xc0, 0x10],
     [0xc0, 0x00, 0x60, 0x00, 0x30, 0x00, 0x18, 0x00, 0x0c, 0x00, 0x06, 0x00, 0x03, 0x00, 0x01, 0x80, 0x00, 0xc0, 0x00, 0x60, 0x80, 0x10],
     [0x80, 0x00, 0xc0, 0x00, 0x60, 0x00, 0x30, 0x00, 0x18, 0x00, 0x0c, 0x00, 0x06, 0x00, 0x03, 0x00, 0x01, 0x80, 0x00, 0xc0, 0x00, 0x60, 0x00, 0x30]]"

definition kPacketMaskBursty1 :: bytes where "kPacketMaskBursty1 = 1 # concat kMaskBursty1"

definition kPacketMaskBursty2 :: bytes where "kPacketMaskBursty2 = 2 # concat kMaskBursty2"

definition kPacketMaskBursty3 :: bytes where "kPacketMaskBursty3 = 3 # concat kMaskBursty3"

definition kPacketMaskBursty4 :: bytes where "kPacketMaskBursty4 = 4 # concat kMaskBursty4"

definition kPacketMaskBursty5 :: bytes where "kPacketMaskBursty5 = 5 # concat kMaskBursty5"

definition kPacketMaskBursty6 :: bytes where "kPacketMaskBursty6 = 6 # concat kMaskBursty6"

definition kPacketMaskBursty7 :: bytes where "kPacketMaskBursty7 = 7 # concat kMaskBursty7"

definition kPacketMaskBursty8 :: bytes where "kPacketMaskBursty8 = 8 # concat kMaskBursty8"

definition kPacketMaskBursty9 :: bytes where "kPacketMaskBursty9 = 9 # concat kMaskBursty9"

definition kPacketMaskBursty10 :: bytes where "kPacketMaskBursty10 = 10 # concat kMaskBursty10"

definition kPacketMaskBursty11 :: bytes where "kPacketMaskBursty11 = 11 # concat kMaskBursty11"

definition kPacketMaskBursty12 :: bytes where "kPacketMaskBursty12 = 12 # concat kMaskBursty12"

definition kPacketMaskBurstyTbl :: bytes where
  "kPacketMaskBurstyTbl = 12 # concat
     [kPacketMaskBursty1, kPacketMaskBursty2, kPacketMaskBursty3, kPacketMaskBursty4,
      kPacketMaskBursty5, kPacketMaskBursty6, kPacketMaskBursty7, kPacketMaskBursty8,
      kPacketMaskBursty9, kPacketMaskBursty10, kPacketMaskBursty11, kPacketMaskBursty12]"

section \<open>Random masks\<close>

definition kMaskRandom1 :: "bytes list" where
  "kMaskRandom1 =
    [[0x80, 0x00]]"

definition kMaskRandom2 :: "bytes list" where
  "kMaskRandom2 =
    [[0xc0, 0x00],
     [0xc0, 0x00, 0x80, 0x00]]"

definition kMaskRandom3 :: "bytes list" where
  "kMaskRandom3 =
    [[0xe0, 0x00],
     [0xc0, 0x00, 0xa0, 0x00],
     [0xc0, 0x00, 0xa0, 0x00, 0x60, 0x00]]"

definition kMaskRandom4 :: "bytes list" where
  "kMaskRandom4 =
    [[0xf0, 0x00],
     [0xc0, 0x00, 0xb0, 0x00],
     [0xc0, 0x00, 0xb0, 0x00, 0x60, 0x00],
     [0xc0, 0x00, 0xa0, 0x00, 0x30, 0x00, 0x50, 0x00]]"

definition kMaskRandom5 :: "bytes list" where
  "kMaskRandom5 =
    [[0xf8, 0x00],
     [0xa8, 0x00, 0xd0, 0x00],
     [0xb0, 0x00, 0xc8, 0x00, 0x50, 0x00],
     [0xc8, 0x00, 0xb0, 0x00, 0x50, 0x00, 0x28, 0x00],
     [0xc0, 0x00, 0x30, 0x00, 0x18, 0x00, 0xa0, 0x00, 0x48, 0x00]]"

definition kMaskRandom6 :: "bytes list" where
  "kMaskRandom6 =
    [[0xfc, 0x00],
     [0xa8, 0x00, 0xd4, 0x00],
     [0xd0, 0x00, 0x68, 0x00, 0xa4, 0x00],
     [0xa8, 0x00, 0x58, 0x00, 0x64, 0x00, 0x94, 0x00],
     [0xa8, 0x00, 0x84, 0x00, 0x64, 0x00, 0x90, 0x00, 0x58, 0x00],
     [0x98, 0x00, 0x64, 0x00, 0x50, 0x00, 0x14, 0x00, 0xa8, 0x00, 0xe0, 0x00]]"

definition kMaskRandom7 :: "bytes list" where
  "kMaskRandom7 =
    [[0xfe, 0x00],
     [0xd4, 0x00, 0xaa, 0x00],
     [0xd0, 0x00, 0xaa, 0x00, 0x64, 0x00],
     [0xd0, 0x00, 0xaa, 0x00, 0x64, 0x00, 0x1c, 0x00],
     [0x0c, 0x00, 0xb0, 0x00, 0x1a, 0x00, 0xc4, 0x00, 0x62, 0x00],
     [0x8c, 0x00, 0x4a, 0x00, 0x64, 0x00, 0xd0, 0x00, 0xa0, 0x00, 0x32, 0x00],
     [0x4a, 0x00, 0x94, 0x00, 0x1a, 0x00, 0xc4, 0x00, 0x28, 0x00, 0xc2, 0x00, 0x34, 0x00]]"

definition kMaskRandom8 :: "bytes list" where
  "kMaskRandom8 =
    [[0xff, 0x00],
     [0xaa, 0x00, 0xd5, 0x00],
     [0xc5, 0x00, 0x92, 0x00, 0x6a, 0x00],
     [0x45, 0x00, 0xb4, 0x00, 0x6a, 0x00, 0x89, 0x00],
     [0x8c, 0x00, 0x92, 0x00, 0x2b, 0x00, 0x51, 0x00, 0x64, 0x00],
     [0xa1, 0x00, 0x52, 0x00, 0x91, 0x00, 0x2a, 0x00, 0xc4, 0x00, 0x4c, 0x00],
     [0x15, 0x00, 0xc2, 0x00, 0x25, 0x00, 0x62, 0x00, 0x58, 0x00, 0x8c, 0x00, 0xa3, 0x00],
     [0x25, 0x00, 0x8a, 0x00, 0x91, 0x00, 0x68, 0x00, 0x32, 0x00, 0x43, 0x00, 0xc4, 0x00, 0x1c, 0x00]]"

definition kMaskRandom9 :: "bytes list" where
  "kMaskRandom9 =
    [[0xff, 0x80],
     [0xaa, 0x80, 0xd5, 0x00],
     [0xa5, 0x00, 0xc8, 0x00, 0x52, 0x80],
     [0xa2, 0x00, 0xc9, 0x00, 0x52, 0x80, 0x24, 0x80],
     [0x8c, 0x00, 0x25, 0x00, 0x92, 0x80, 0x41, 0x80, 0x58, 0x00],
     [0x84, 0x80, 0x27, 0x00, 0x51, 0x80, 0x1a, 0x00, 0x68, 0x00, 0x89, 0x00],
     [0x8c, 0x00, 0x47, 0x00, 0x81, 0x80, 0x12, 0x80, 0x58, 0x00, 0x28, 0x80, 0xb4, 0x00],
     [0x2c, 0x00, 0x91, 0x00, 0x40, 0x80, 0x06, 0x80, 0xc8, 0x00, 0x45, 0x00, 0x30, 0x80, 0xa2, 0x00],
     [0x4c, 0x00, 0x62, 0x00, 0x91, 0x00, 0x42, 0x80, 0xa4, 0x00, 0x13, 0x00, 0x30, 0x80, 0x88, 0x80, 0x09, 0x00]]"

definition kMaskRandom10 :: "bytes list" where
  "kMaskRandom10 =
    [[0xff, 0xc0],
     [0xaa, 0x80, 0xd5, 0x40],
     [0xa4, 0x40, 0xc9, 0x00, 0x52, 0x80],
     [0xca, 0x00, 0x32, 0x80, 0xa1, 0x40, 0x55, 0x00],
     [0xca, 0x00, 0x32, 0x80, 0xa1, 0x40, 0x55, 0x00, 0x08, 0xc0],
     [0x0e, 0x00, 0x33, 0x00, 0x10, 0xc0, 0x45, 0x40, 0x88, 0x80, 0xe0, 0x00],
     [0x46, 0x00, 0x33, 0x00, 0x80, 0xc0, 0x0c, 0x40, 0x28, 0x80, 0x94, 0x00, 0xc1, 0x00],
     [0x2c, 0x00, 0x81, 0x80, 0xa0, 0x40, 0x05, 0x40, 0x18, 0x80, 0xc2, 0x00, 0x22, 0x80, 0x50, 0x40],
     [0x4c, 0x00, 0x23, 0x00, 0x88, 0xc0, 0x21, 0x40, 0x52, 0x80, 0x94, 0x00, 0x26, 0x00, 0x48, 0x40, 0x91, 0x80],
     [0x4c, 0x00, 0x51, 0x00, 0xa0, 0x40, 0x04, 0xc0, 0x03, 0x80, 0x86, 0x00, 0x29, 0x00, 0x42, 0x40, 0x98, 0x00, 0x30, 0x80]]"

definition kMaskRandom11 :: "bytes list" where
  "kMaskRandom11 =
    [[0xff, 0xe0],
     [0xec, 0xc0, 0x9b, 0xa0],
     [0xca, 0xc0, 0xf1, 0x40, 0xb6, 0x20],
     [0xc4, 0xc0, 0x31, 0x60, 0x4b, 0x20, 0x2c, 0xa0],
     [0x86, 0x80, 0x23, 0x20, 0x16, 0x20, 0x4c, 0x20, 0x41, 0xc0],
     [0x64, 0x40, 0x51, 0x40, 0x0c, 0xa0, 0xa1, 0x20, 0x12, 0xa0, 0x8a, 0x40],
     [0x46, 0x40, 0x33, 0x20, 0x91, 0x80, 0xa4, 0x20, 0x50, 0xa0, 0x84, 0xc0, 0x09, 0x60],
     [0x0c, 0x80, 0x80, 0x60, 0xa0, 0x80, 0x05, 0x40, 0x43, 0x00, 0x1a, 0x00, 0x60, 0x20, 0x14, 0x20],
     [0x46, 0x40, 0x62, 0x60, 0x8c, 0x00, 0x01, 0x60, 0x07, 0x80, 0xa0, 0x80, 0x18, 0xa0, 0x91, 0x00, 0x78, 0x00],
     [0x64, 0x40, 0x51, 0x40, 0xa9, 0x00, 0x04, 0xc0, 0xd0, 0x00, 0x82, 0x40, 0x21, 0x20, 0x0c, 0x20, 0x4a, 0x00, 0x12, 0xa0],
     [0x46, 0x40, 0x33, 0x20, 0x99, 0x00, 0x05, 0x80, 0x80, 0xa0, 0x84, 0x40, 0x40, 0x60, 0x0a, 0x80, 0x68, 0x00, 0x10, 0x20, 0x30, 0x40]]"

definition kMaskRandom12 :: "bytes list" where
  "kMaskRandom12 =
    [[0xff, 0xf0],
     [0xec, 0xc0, 0x93, 0xb0],
     [0x9b, 0x80, 0x4f, 0x10, 0x3c, 0x60],
     [0x8b, 0x20, 0x14, 0xb0, 0x22, 0xd0, 0x45, 0x50],
     [0x53, 0x60, 0x64, 0x20, 0x0c, 0xc0, 0x82, 0xa0, 0x09, 0x30],
     [0x51, 0x40, 0xc5, 0x10, 0x21, 0x80, 0x12, 0x30, 0x08, 0xe0, 0x2e, 0x00],
     [0x53, 0x60, 0x21, 0x30, 0x90, 0x90, 0x02, 0x50, 0x06, 0xa0, 0x2c, 0x00, 0x88, 0x60],
     [0x20, 0x60, 0x80, 0x30, 0x42, 0x40, 0x01, 0x90, 0x14, 0x10, 0x0a, 0x80, 0x38, 0x00, 0xc5, 0x00],
     [0x53, 0x60, 0xe4, 0x20, 0x24, 0x40, 0xa1, 0x10, 0x18, 0x30, 0x03, 0x90, 0x8a, 0x10, 0x04, 0x90, 0x00, 0xe0],
     [0x51, 0x40, 0x45, 0x10, 0x80, 0xd0, 0x24, 0x20, 0x0a, 0x20, 0x00, 0xe0, 0xb8, 0x00, 0x09, 0x10, 0x56, 0x00, 0xa2, 0x80],
     [0x53, 0x60, 0x21, 0x30, 0x10, 0x90, 0x00, 0x70, 0x0c, 0x10, 0x40, 0xc0, 0x6a, 0x00, 0x86, 0x00, 0x24, 0x80, 0x89, 0x00, 0xc0, 0x20],
     [0x10, 0x60, 0x02, 0x30, 0x40, 0x50, 0x21, 0x80, 0x81, 0x10, 0x14, 0x80, 0x98, 0x00, 0x08, 0x90, 0x62, 0x00, 0x24, 0x20, 0x8a, 0x00, 0x84, 0x40]]"

definition kPacketMaskRandom1 :: bytes where "kPacketMaskRandom1 = 1 # concat kMaskRandom1"

definition kPacketMaskRandom2 :: bytes where "kPacketMaskRandom2 = 2 # concat kMaskRandom2"

definition kPacketMaskRandom3 :: bytes where "kPacketMaskRandom3 = 3 # concat kMaskRandom3"

definition kPacketMaskRandom4 :: bytes where "kPacketMaskRandom4 = 4 # concat kMaskRandom4"

definition kPacketMaskRandom5 :: bytes where "kPacketMaskRandom5 = 5 # concat kMaskRandom5"

definition kPacketMaskRandom6 :: bytes where "kPacketMaskRandom6 = 6 # concat kMaskRandom6"

definition kPacketMaskRandom7 :: bytes where "kPacketMaskRandom7 = 7 # concat kMaskRandom7"

definition kPacketMaskRandom8 :: bytes where "kPacketMaskRandom8 = 8 # concat kMaskRandom8"

definition kPacketMaskRandom9 :: bytes where "kPacketMaskRandom9 = 9 # concat kMaskRandom9"

definition kPacketMaskRandom10 :: bytes where "kPacketMaskRandom10 = 10 # concat kMaskRandom10"

definition kPacketMaskRandom11 :: bytes where "kPacketMaskRandom11 = 11 # concat kMaskRandom11"

definition kPacketMaskRandom12 :: bytes where "kPacketMaskRandom12 = 12 # concat kMaskRandom12"

definition kPacketMaskRandomTbl :: bytes where
  "kPacketMaskRandomTbl = 12 # concat
     [kPacketMaskRandom1, kPacketMaskRandom2, kPacketMaskRandom3, kPacketMaskRandom4,
      kPacketMaskRandom5, kPacketMaskRandom6, kPacketMaskRandom7, kPacketMaskRandom8,
      kPacketMaskRandom9, kPacketMaskRandom10, kPacketMaskRandom11, kPacketMaskRandom12]"

end
