(* ===== verification/Byte_Io.thy ===== *)
theory Byte_Io
  imports Qos_Prelude
begin

text \<open>
  \<open>src/utils/byte_io.h\<close>: the templates \<open>ByteWriter\<close> and \<open>ByteReader\<close>. The code works on the
  object representation of the integer (\<open>reinterpret_cast<uint8_t*>\<close>); the only platform it
  supports is little-endian, so byte \<open>i\<close> of the representation holds bits \<open>8i .. 8i+7\<close>.
  The lemmas show that the big-endian pair and the little-endian pair are inverse to each
  other at every width the code uses.
\<close>

unbundle bit_operations_syntax

text \<open>Byte \<open>i\<close> of the object representation, and the integer with a given representation.\<close>

definition object_byte :: "'a::len word \<Rightarrow> nat \<Rightarrow> u8" where
  "object_byte w i = ucast (drop_bit (8 * i) w)"

fun from_object_bytes :: "bytes \<Rightarrow> 'a::len word" where
  "from_object_bytes [] = 0"
| "from_object_bytes (b # bs) = ucast b OR push_bit 8 (from_object_bytes bs)"

text \<open>\<open>buffer[(B - 1) - i] = data_byte[i]\<close> and \<open>buffer[i] = data_byte[i]\<close> for \<open>i < B\<close>.\<close>

definition WriteBigEndian :: "nat \<Rightarrow> 'a::len word \<Rightarrow> bytes" where
  "WriteBigEndian B w = map (\<lambda>k. object_byte w (B - 1 - k)) [0..<B]"

definition WriteLittleEndian :: "nat \<Rightarrow> 'a::len word \<Rightarrow> bytes" where
  "WriteLittleEndian B w = map (object_byte w) [0..<B]"

text \<open>
  The readers fill \<open>data_byte[i] = buffer[(B - 1) - i]\<close>, resp. \<open>buffer[i]\<close>. For an unsigned
  type of exactly \<open>B\<close> bytes this is the whole integer.
\<close>

definition ReadBigEndian :: "bytes \<Rightarrow> 'a::len word" where
  "ReadBigEndian bs = from_object_bytes (rev bs)"

definition ReadLittleEndian :: "bytes \<Rightarrow> 'a::len word" where
  "ReadLittleEndian bs = from_object_bytes bs"

text \<open>
  The signed case, \<open>B < sizeof(T)\<close>: the remaining bytes \<open>data_byte[i]\<close>, \<open>i \<ge> B\<close>, are set from the
  top bit of \<open>data_byte[B]\<close>, which the loop has not written yet. \<open>stale\<close> is the indeterminate
  value of that byte of the uninitialised \<open>out_data\<close>. After the first round
  \<open>data_byte[B]\<close> is \<open>0xff\<close> or \<open>0x00\<close>, so all \<open>n\<close> remaining bytes get the same value.
\<close>

definition sign_fill :: "u8 \<Rightarrow> u8" where
  "sign_fill stale = (if stale AND 0x80 \<noteq> 0 then 0xff else 0x00)"

definition ReadBigEndianSigned :: "nat \<Rightarrow> u8 \<Rightarrow> bytes \<Rightarrow> 'a::len word" where
  "ReadBigEndianSigned sizeof_T stale bs =
     from_object_bytes (rev bs @ replicate (sizeof_T - length bs) (sign_fill stale))"

text \<open>The readers applied at an offset of a byte array.\<close>

definition read_be16 :: "bytes \<Rightarrow> nat \<Rightarrow> ('e, u16) outcome" where
  "read_be16 packet off = omap ReadBigEndian (get_bytes packet off 2)"

definition read_be32 :: "bytes \<Rightarrow> nat \<Rightarrow> ('e, u32) outcome" where
  "read_be32 packet off = omap ReadBigEndian (get_bytes packet off 4)"

section \<open>Lengths and bits\<close>

lemma length_WriteBigEndian [simp]: "length (WriteBigEndian B w) = B"
  by (simp add: WriteBigEndian_def)

lemma length_WriteLittleEndian [simp]: "length (WriteLittleEndian B w) = B"
  by (simp add: WriteLittleEndian_def)

lemma WriteBigEndian_rev: "WriteBigEndian B w = rev (WriteLittleEndian B w)"
  by (rule nth_equalityI) (auto simp: WriteBigEndian_def WriteLittleEndian_def rev_nth)

lemma bit_object_byte: "bit (object_byte w i) n \<longleftrightarrow> n < 8 \<and> bit w (8 * i + n)"
  by (auto simp: object_byte_def bit_ucast_iff bit_drop_bit_eq)

lemma bit_from_object_bytes:
  "bit (from_object_bytes bs :: 'a::len word) n \<longleftrightarrow>
     n < LENGTH('a) \<and> n div 8 < length bs \<and> bit (bs ! (n div 8)) (n mod 8)"
proof (induction bs arbitrary: n)
  case Nil
  then show ?case by simp
next
  case (Cons b bs)
  show ?case
  proof (cases "n < 8")
    case True
    then show ?thesis by (auto simp: bit_or_iff bit_ucast_iff bit_push_bit_iff)
  next
    case False
    have "\<not> bit b n" using False by (auto dest: bit_imp_le_length)
    moreover have "n div 8 = Suc ((n - 8) div 8)" and "(n - 8) mod 8 = n mod 8"
      using False by (simp_all add: le_div_geq le_mod_geq)
    ultimately show ?thesis using False Cons [of "n - 8"]
      by (auto simp: bit_or_iff bit_ucast_iff bit_push_bit_iff)
  qed
qed

section \<open>Round trips\<close>

lemma from_object_bytes_WriteLittleEndian:
  assumes "LENGTH('a) \<le> 8 * B"
  shows "from_object_bytes (WriteLittleEndian B w) = (w :: 'a::len word)"
proof (rule bit_word_eqI)
  fix n assume n: "n < LENGTH('a)"
  then have "n div 8 < B" using assms by auto
  then show "bit (from_object_bytes (WriteLittleEndian B w) :: 'a word) n \<longleftrightarrow> bit w n"
    using n by (simp add: bit_from_object_bytes WriteLittleEndian_def bit_object_byte)
qed

lemma ReadBigEndian_WriteBigEndian:
  "LENGTH('a) \<le> 8 * B \<Longrightarrow> ReadBigEndian (WriteBigEndian B w) = (w :: 'a::len word)"
  by (simp add: ReadBigEndian_def WriteBigEndian_rev from_object_bytes_WriteLittleEndian)

lemma Read_Write_BE [simp]:
  "ReadBigEndian (WriteBigEndian 2 (a :: u16)) = a"
  "ReadBigEndian (WriteBigEndian 4 (b :: u32)) = b"
  "ReadBigEndian (WriteBigEndian 8 (c :: u64)) = c"
  by (simp_all add: ReadBigEndian_WriteBigEndian)

lemma WriteLittleEndian_from_object_bytes:
  assumes "8 * length bs = LENGTH('a)"
  shows "WriteLittleEndian (length bs) (from_object_bytes bs :: 'a::len word) = bs"
proof (rule nth_equalityI)
  fix i assume i: "i < length (WriteLittleEndian (length bs) (from_object_bytes bs :: 'a word))"
  then have i: "i < length bs" by simp
  have "object_byte (from_object_bytes bs :: 'a word) i = bs ! i"
  proof (rule bit_word_eqI)
    fix n assume "n < LENGTH(8)"
    then have n: "n < 8" by simp
    have "(8 * i + n) div 8 = i" and "(8 * i + n) mod 8 = n" using n by simp_all
    moreover have "8 * i + n < LENGTH('a)" using i n assms by linarith
    ultimately show "bit (object_byte (from_object_bytes bs :: 'a word) i) n \<longleftrightarrow> bit (bs ! i) n"
      using n i by (simp add: bit_object_byte bit_from_object_bytes)
  qed
  then show "WriteLittleEndian (length bs) (from_object_bytes bs :: 'a word) ! i = bs ! i"
    using i by (simp add: WriteLittleEndian_def)
qed simp

lemma WriteBigEndian_ReadBigEndian:
  assumes "8 * length bs = LENGTH('a)"
  shows "WriteBigEndian (length bs) (ReadBigEndian bs :: 'a::len word) = bs"
  using WriteLittleEndian_from_object_bytes [of "rev bs", where 'a='a] assms
  by (simp add: ReadBigEndian_def WriteBigEndian_rev)

lemma Write_Read_BE:
  "length bs = 2 \<Longrightarrow> WriteBigEndian 2 (ReadBigEndian bs :: u16) = bs"
  "length bs = 4 \<Longrightarrow> WriteBigEndian 4 (ReadBigEndian bs :: u32) = bs"
  using WriteBigEndian_ReadBigEndian [of bs, where 'a=16] WriteBigEndian_ReadBigEndian [of bs, where 'a=32]
  by simp_all

lemma WriteBigEndian_inj:
  "LENGTH('a) \<le> 8 * B \<Longrightarrow> WriteBigEndian B v = WriteBigEndian B w \<longleftrightarrow> v = (w :: 'a::len word)"
  by (metis ReadBigEndian_WriteBigEndian)

lemma WriteBigEndian_inj_4 [simp]: "WriteBigEndian 4 v = WriteBigEndian 4 w \<longleftrightarrow> v = (w :: u32)"
  by (rule WriteBigEndian_inj) simp

text \<open>Writing big-endian and reading the bytes in host order reverses the bytes.\<close>

definition byte_swap :: "u32 \<Rightarrow> u32" where
  "byte_swap w = ReadLittleEndian (WriteBigEndian 4 w)"

lemma byte_swap_swap: "byte_swap (byte_swap w) = w"
proof -
  have "WriteLittleEndian 4 (byte_swap w) = WriteBigEndian 4 w"
    using WriteLittleEndian_from_object_bytes [of "WriteBigEndian 4 w", where 'a=32]
    by (simp add: byte_swap_def ReadLittleEndian_def)
  then have "WriteBigEndian 4 (byte_swap w) = WriteLittleEndian 4 w"
    by (simp add: WriteBigEndian_rev)
  then show ?thesis
    by (subst byte_swap_def)
      (simp add: ReadLittleEndian_def from_object_bytes_WriteLittleEndian)
qed

section \<open>Explicit bytes\<close>

lemma WriteBigEndian_2: "WriteBigEndian 2 w = [object_byte w 1, object_byte w 0]"
  by (simp add: WriteBigEndian_def upt_rec)

lemma WriteBigEndian_4:
  "WriteBigEndian 4 w = [object_byte w 3, object_byte w 2, object_byte w 1, object_byte w 0]"
  by (simp add: WriteBigEndian_def upt_rec numeral_eq_Suc)

end
