(* ===== verification/Ulp_Fec_Mask.thy ===== *)
theory Ulp_Fec_Mask
  imports Fec_Tables Byte_Io
begin

text \<open>
  \<open>src/rtp_rtcp/ulp_fec.cc\<close>, first half of \<open>UlpFecEncoder\<close>: how many FEC packets a group of media
  packets gets and which media packets each of them protects. The mask is computed into the
  member array \<open>fec_packet_mask_\<close> of 288 bytes, \<open>packet_mask_size\<close> bytes per FEC packet. \<open>Mask\<close>
  uses the same array as scratch space, so the array is the state of every operation here and the
  \<open>packet_mask\<close> parameter, which always points into it, is an offset. The \<open>int\<close> parameters are
  below 49 and never overflow; they are natural numbers, except the indices that can be \<open>-1\<close>.
\<close>

datatype fec_mask_type = kFecMaskRandom | kFecMaskBursty

datatype protection_method = kNone | kModeNoOverlap | kModeOverlap | kModeBiasFirstPacket

definition kUlpfecMaxMediaPackets :: nat where "kUlpfecMaxMediaPackets = 48"
definition kUlpfecPacketMaskSizeLBitClear :: nat where "kUlpfecPacketMaskSizeLBitClear = 2"
definition kUlpfecPacketMaskSizeLBitSet :: nat where "kUlpfecPacketMaskSizeLBitSet = 6"
definition kFECPacketMaskMaxSize :: nat where "kFECPacketMaskMaxSize = 288"

lemmas ulpfec_constants = kUlpfecMaxMediaPackets_def kUlpfecPacketMaskSizeLBitClear_def
  kUlpfecPacketMaskSizeLBitSet_def kFECPacketMaskMaxSize_def

type_synonym mask_array = bytes
type_synonym 'e mask_op = "mask_array \<Rightarrow> ('e, mask_array) outcome"

section \<open>Sizes\<close>

definition PacketMaskSize :: "nat \<Rightarrow> nat" where
  "PacketMaskSize num_sequence_numbers =
     (if num_sequence_numbers > kUlpfecPacketMaskSizeLBitClear * 8 then kUlpfecPacketMaskSizeLBitSet
      else kUlpfecPacketMaskSizeLBitClear)"

text \<open>The product and the shift are in \<open>uint32_t\<close>.\<close>

definition NumFecPackets :: "u32 \<Rightarrow> u8 \<Rightarrow> u32" where
  "NumFecPackets num_media_packets protection_factor =
     (let num_fec_packets = drop_bit 8 (num_media_packets * ucast protection_factor + push_bit 7 1)
      in if protection_factor > 0 \<and> num_fec_packets = 0 then 1 else num_fec_packets)"

section \<open>Table lookup\<close>

definition PickTable :: "fec_mask_type \<Rightarrow> nat \<Rightarrow> bytes" where
  "PickTable fec_mask_type num_media_packets =
     (if fec_mask_type \<noteq> kFecMaskRandom \<and> num_media_packets \<le> unat (kPacketMaskBurstyTbl ! 0)
      then kPacketMaskBurstyTbl else kPacketMaskRandomTbl)"

text \<open>\<open>for (int j = 0; j < count; ++j) entry += entry_size_increment * (j + 1);\<close>\<close>

definition skip_masks :: "nat \<Rightarrow> nat \<Rightarrow> nat \<Rightarrow> nat" where
  "skip_masks inc count entry = fold (\<lambda>j e. e + inc * (j + 1)) [0..<count] entry"

text \<open>One round of the outer loop; the pointer \<open>entry\<close> is an offset into the table.\<close>

definition skip_block :: "bytes \<Rightarrow> nat \<Rightarrow> nat \<times> nat \<Rightarrow> ('e, nat \<times> nat) outcome" where
  "skip_block table i s = (case s of (inc, entry) \<Rightarrow>
     let inc = (if i = 16 then 6 else inc) in
     obind (get_byte table entry) (\<lambda>count. Ok (inc, skip_masks inc (unat count) (entry + 1))))"

definition LookUpInFecTable :: "bytes \<Rightarrow> int \<Rightarrow> int \<Rightarrow> ('e, bytes) outcome" where
  "LookUpInFecTable table media_packet_index fec_index =
     obind (ofold (skip_block table) [0..<nat media_packet_index] (2, 1)) (\<lambda>(inc, entry).
       let inc = (if media_packet_index = 16 then 6 else inc);
           entry = skip_masks inc (nat fec_index) (entry + 1) in
       get_bytes table entry (inc * nat (fec_index + 1)))"

section \<open>Mask\<close>

text \<open>One conditional of the expression that builds a byte of the interleaved mask.\<close>

definition interleaved_bit :: "nat \<Rightarrow> nat \<Rightarrow> nat \<Rightarrow> nat \<Rightarrow> u8 \<Rightarrow> u8" where
  "interleaved_bit num_media_packets num_fec_packets row pos v =
     (if pos mod num_fec_packets = row \<and> pos < num_media_packets then v else 0x00)"

definition interleaved_byte :: "nat \<Rightarrow> nat \<Rightarrow> nat \<Rightarrow> nat \<Rightarrow> u8" where
  "interleaved_byte m f row col =
     interleaved_bit m f row (col * 8) 0x80 OR interleaved_bit m f row (col * 8 + 1) 0x40 OR
     interleaved_bit m f row (col * 8 + 2) 0x20 OR interleaved_bit m f row (col * 8 + 3) 0x10 OR
     interleaved_bit m f row (col * 8 + 4) 0x08 OR interleaved_bit m f row (col * 8 + 5) 0x04 OR
     interleaved_bit m f row (col * 8 + 6) 0x02 OR interleaved_bit m f row (col * 8 + 7) 0x01"

definition write_interleaved :: "nat \<Rightarrow> nat \<Rightarrow> nat \<Rightarrow> 'e mask_op" where
  "write_interleaved m f width =
     ofold (\<lambda>row. ofold (\<lambda>col. put_bytes (row * width + col) [interleaved_byte m f row col]) [0..<width]) [0..<f]"

text \<open>Above twelve packets the mask is built in \<open>fec_packet_mask_\<close> and a copy of it returned. The
  code's parameter \<open>fec_mask_type\<close> is not used by the body; nor is it by the callers that only pass it on.\<close>

definition Mask :: "nat \<Rightarrow> nat \<Rightarrow> nat \<Rightarrow> bytes \<Rightarrow> mask_array \<Rightarrow> ('e, bytes \<times> mask_array) outcome" where
  "Mask num_media_packets num_fec_packets packet_mask_size mask_table fec_packet_mask =
     (if num_media_packets \<le> 12
      then omap (\<lambda>r. (r, fec_packet_mask))
             (LookUpInFecTable mask_table (int num_media_packets - 1) (int num_fec_packets - 1))
      else obind (write_interleaved num_media_packets num_fec_packets packet_mask_size fec_packet_mask) (\<lambda>m.
           omap (\<lambda>r. (r, m)) (get_bytes m 0 (num_fec_packets * packet_mask_size))))"

section \<open>Unequal protection\<close>

text \<open>\<open>0.5 * num_fec_packets\<close>, converted back to \<open>uint8_t\<close>, rounds down.\<close>

definition SetProtectionAllocation :: "nat \<Rightarrow> nat \<Rightarrow> nat \<Rightarrow> nat" where
  "SetProtectionAllocation num_media_packets num_fec_packets num_imp_packets =
     (let max_num_fec_for_imp = num_fec_packets div 2 in
      if num_fec_packets = 1 \<and> num_media_packets > 2 * num_imp_packets then 0
      else if num_imp_packets < max_num_fec_for_imp then num_imp_packets else max_num_fec_for_imp)"

definition FitSubMask :: "nat \<Rightarrow> nat \<Rightarrow> nat \<Rightarrow> bytes \<Rightarrow> nat \<Rightarrow> 'e mask_op" where
  "FitSubMask num_mask_bytes num_sub_mask_bytes num_rows sub_mask packet_mask m =
     (if num_mask_bytes = num_sub_mask_bytes
      then obind (get_bytes sub_mask 0 (num_rows * num_sub_mask_bytes)) (\<lambda>bs. put_bytes packet_mask bs m)
      else ofold (\<lambda>i. ofold (\<lambda>j m.
             obind (get_byte sub_mask (i * num_sub_mask_bytes + j)) (\<lambda>b.
               put_bytes (packet_mask + i * num_mask_bytes + j) [b] m)) [0..<num_sub_mask_bytes])
             [0..<num_rows] m)"

text \<open>
  One row of \<open>ShiftFitSubMask\<close>. \<open>j\<close> counts the inner loop down, so in round \<open>j\<close> both indices have
  moved left by \<open>res_mask_bytes - 1 - j\<close> from their initial values.
\<close>

definition shift_row_byte :: "nat \<Rightarrow> bytes \<Rightarrow> nat \<Rightarrow> nat \<Rightarrow> 'e mask_op" where
  "shift_row_byte num_bit_shifts sub_mask idx idx2 m =
     obind (get_byte sub_mask idx2) (\<lambda>cur. obind (get_byte sub_mask (idx2 - 1)) (\<lambda>prev.
       put_bytes idx [drop_bit num_bit_shifts cur OR push_bit (8 - num_bit_shifts) prev] m))"

definition shift_fit_row :: "nat \<Rightarrow> nat \<Rightarrow> nat \<Rightarrow> bytes \<Rightarrow> nat \<Rightarrow> nat \<Rightarrow> 'e mask_op" where
  "shift_fit_row num_mask_bytes res_mask_bytes num_column_shift sub_mask packet_mask i m =
     (let num_bit_shifts = num_column_shift mod 8; num_byte_shifts = num_column_shift div 8;
          first = packet_mask + i * num_mask_bytes + num_byte_shifts;
          first2 = (i - num_column_shift) * res_mask_bytes in
      obind (if num_mask_bytes > res_mask_bytes
             then obind (get_byte sub_mask (first2 + res_mask_bytes - 1)) (\<lambda>b.
               put_bytes (first + res_mask_bytes) [push_bit (8 - num_bit_shifts) b] m)
             else Ok m) (\<lambda>m.
      obind (ofold (\<lambda>j. shift_row_byte num_bit_shifts sub_mask (first + j) (first2 + j))
               (rev [1..<res_mask_bytes]) m) (\<lambda>m.
      obind (get_byte sub_mask first2) (\<lambda>b. put_bytes first [drop_bit num_bit_shifts b] m))))"

definition ShiftFitSubMask :: "nat \<Rightarrow> nat \<Rightarrow> nat \<Rightarrow> nat \<Rightarrow> bytes \<Rightarrow> nat \<Rightarrow> 'e mask_op" where
  "ShiftFitSubMask num_mask_bytes res_mask_bytes num_column_shift end_row sub_mask packet_mask =
     ofold (shift_fit_row num_mask_bytes res_mask_bytes num_column_shift sub_mask packet_mask)
       [num_column_shift..<end_row]"

definition ImportantPacketProtection :: "nat \<Rightarrow> nat \<Rightarrow> nat \<Rightarrow> nat \<Rightarrow> bytes \<Rightarrow> 'e mask_op" where
  "ImportantPacketProtection num_fec_for_imp_packets num_imp_packets num_mask_bytes packet_mask mask_table m =
     obind (Mask num_imp_packets num_fec_for_imp_packets num_mask_bytes mask_table m) (\<lambda>(sub, m).
       FitSubMask num_mask_bytes (PacketMaskSize num_imp_packets) num_fec_for_imp_packets sub packet_mask m)"

definition set_first_packet :: "nat \<Rightarrow> nat \<Rightarrow> nat \<Rightarrow> 'e mask_op" where
  "set_first_packet num_mask_bytes packet_mask i m =
     obind (get_byte m (packet_mask + i * num_mask_bytes)) (\<lambda>b.
       put_bytes (packet_mask + i * num_mask_bytes) [b OR push_bit 7 1] m)"

definition RemainingPacketProtection ::
  "nat \<Rightarrow> nat \<Rightarrow> nat \<Rightarrow> nat \<Rightarrow> protection_method \<Rightarrow> nat \<Rightarrow> bytes \<Rightarrow> 'e mask_op" where
  "RemainingPacketProtection num_media_packets num_fec_remaining num_fec_for_imp_packets num_mask_bytes
       mode packet_mask mask_table m =
     (if mode = kModeNoOverlap then
        (let rest = num_media_packets - num_fec_for_imp_packets; res_mask_bytes = PacketMaskSize rest in
         obind (Mask rest num_fec_remaining res_mask_bytes mask_table m) (\<lambda>(sub, m).
           ShiftFitSubMask num_mask_bytes res_mask_bytes num_fec_for_imp_packets
             (num_fec_for_imp_packets + num_fec_remaining) sub packet_mask m))
      else if mode = kModeOverlap \<or> mode = kModeBiasFirstPacket then
        obind (Mask num_media_packets num_fec_remaining num_mask_bytes mask_table m) (\<lambda>(sub, m).
        obind (FitSubMask num_mask_bytes num_mask_bytes num_fec_remaining sub
                 (packet_mask + num_fec_for_imp_packets * num_mask_bytes) m) (\<lambda>m.
          if mode = kModeBiasFirstPacket
          then ofold (set_first_packet num_mask_bytes packet_mask) [0..<num_fec_remaining] m
          else Ok m))
      else Ok m)"

definition UnequalProtectionMask ::
  "nat \<Rightarrow> nat \<Rightarrow> nat \<Rightarrow> protection_method \<Rightarrow> bytes \<Rightarrow> nat \<Rightarrow> nat \<Rightarrow> 'e mask_op" where
  "UnequalProtectionMask num_media_packets num_fec_packets num_imp_packets meth mask_table
       packet_mask_size packet_mask m =
     (let num_fec_for_imp_packets = (if meth \<noteq> kModeBiasFirstPacket
            then SetProtectionAllocation num_media_packets num_fec_packets num_imp_packets else 0);
          num_fec_remaining = num_fec_packets - num_fec_for_imp_packets in
      obind (if num_fec_for_imp_packets > 0
             then ImportantPacketProtection num_fec_for_imp_packets num_imp_packets packet_mask_size
                    packet_mask mask_table m
             else Ok m) (\<lambda>m.
        if num_fec_remaining > 0
        then RemainingPacketProtection num_media_packets num_fec_remaining num_fec_for_imp_packets
               packet_mask_size meth packet_mask mask_table m
        else Ok m))"

definition GeneratePacketMasks ::
  "nat \<Rightarrow> nat \<Rightarrow> nat \<Rightarrow> protection_method \<Rightarrow> fec_mask_type \<Rightarrow> nat \<Rightarrow> nat \<Rightarrow> 'e mask_op" where
  "GeneratePacketMasks num_media_packets num_fec_packets num_imp_packets meth fec_mask_type
       packet_mask_size packet_mask m =
     (let mask_table = PickTable fec_mask_type num_media_packets in
      if num_imp_packets = 0
      then obind (Mask num_media_packets num_fec_packets packet_mask_size mask_table m) (\<lambda>(mask, m).
             put_bytes packet_mask mask m)
      else UnequalProtectionMask num_media_packets num_fec_packets num_imp_packets
             (if meth = kNone then kModeOverlap else meth) mask_table packet_mask_size packet_mask m)"

end
