(* ===== verification/Data_Buffer.thy ===== *)
theory Data_Buffer
  imports Qos_Prelude
begin

text \<open>
  \<open>src/utils/data_buffer_impl.h/.cc\<close>: the class \<open>DataBufferImpl\<close>, a fixed allocation with a
  used size. All sizes are \<open>uint32_t\<close> and wrap, so they are 32-bit words here. The bytes of
  \<open>new uint8_t[capacity]\<close> are indeterminate: \<open>Create\<close> takes their value as the parameter \<open>fill\<close>,
  and a result that must not depend on uninitialised memory is proved for every \<open>fill\<close>.
\<close>

record data_buffer =
  db_size :: u32
  db_capacity :: u32
  db_mem :: bytes

definition db_create :: "u8 \<Rightarrow> u32 \<Rightarrow> data_buffer" where
  "db_create fill capacity =
     \<lparr>db_size = 0, db_capacity = capacity, db_mem = replicate (unat capacity) fill\<rparr>"

definition db_append :: "u32 \<Rightarrow> data_buffer \<Rightarrow> u32 \<times> data_buffer" where
  "db_append size_appended b =
     (let size_appended_real =
        (if db_size b + size_appended > db_capacity b then db_capacity b - db_size b
         else size_appended)
      in (size_appended_real, b\<lparr>db_size := db_size b + size_appended_real\<rparr>))"

text \<open>The test \<open>(size_ - size_cut) < 0\<close> is on an unsigned difference.\<close>

definition db_cut_tail :: "u32 \<Rightarrow> data_buffer \<Rightarrow> u32 \<times> data_buffer" where
  "db_cut_tail size_cut b =
     (let size_cut_real = (if db_size b - size_cut < 0 then db_size b else size_cut)
      in (size_cut_real, b\<lparr>db_size := db_size b - size_cut_real\<rparr>))"

definition db_set_size :: "u32 \<Rightarrow> data_buffer \<Rightarrow> data_buffer" where
  "db_set_size new_size b =
     b\<lparr>db_size := (if new_size > db_capacity b then db_capacity b else new_size)\<rparr>"

text \<open>
  \<open>ModifyAt\<close> and \<open>MemSet\<close>: the guard, then \<open>memcpy\<close> resp. \<open>memset\<close> at \<open>buffer_.get() + pos\<close>. The
  guard adds in 32 bits; a write outside the allocation is a crash. \<open>data\<close> is the
  \<open>size_modified\<close> source bytes.
\<close>

definition db_modify_at :: "u32 \<Rightarrow> bytes \<Rightarrow> data_buffer \<Rightarrow> ('e, bool \<times> data_buffer) outcome" where
  "db_modify_at pos data b =
     (if pos > db_size b \<or> pos + of_nat (length data) > db_size b then Ok (False, b)
      else omap (\<lambda>m. (True, b\<lparr>db_mem := m\<rparr>)) (put_bytes (unat pos) data (db_mem b)))"

definition db_mem_set :: "u32 \<Rightarrow> u8 \<Rightarrow> u32 \<Rightarrow> data_buffer \<Rightarrow> ('e, bool \<times> data_buffer) outcome" where
  "db_mem_set pos value size_set b =
     (if pos > db_size b \<or> pos + size_set > db_size b then Ok (False, b)
      else omap (\<lambda>m. (True, b\<lparr>db_mem := m\<rparr>))
             (put_bytes (unat pos) (replicate (unat size_set) value) (db_mem b)))"

text \<open>\<open>At\<close> returns a pointer into the buffer: its offset, or \<open>None\<close> for \<open>nullptr\<close>.\<close>

definition db_at :: "u32 \<Rightarrow> data_buffer \<Rightarrow> nat option" where
  "db_at pos b = (if pos > db_size b then None else Some (unat pos))"

text \<open>What a reader of \<open>Get()\<close> and \<open>size()\<close> sees.\<close>

definition db_contents :: "data_buffer \<Rightarrow> bytes" where
  "db_contents b = take (unat (db_size b)) (db_mem b)"

definition db_ok :: "data_buffer \<Rightarrow> bool" where
  "db_ok b \<longleftrightarrow> db_size b \<le> db_capacity b \<and> length (db_mem b) = unat (db_capacity b)"

lemma length_db_contents: "db_ok b \<Longrightarrow> length (db_contents b) = unat (db_size b)"
  by (auto simp: db_ok_def db_contents_def word_le_nat_alt)

lemma db_create_ok: "db_ok (db_create fill c)"
  by (simp add: db_ok_def db_create_def)

lemma db_append_ok: "db_ok b \<Longrightarrow> db_ok (snd (db_append n b))"
  by (auto simp: db_ok_def db_append_def Let_def)

lemma db_set_size_ok: "db_ok b \<Longrightarrow> db_ok (db_set_size n b)"
  by (auto simp: db_ok_def db_set_size_def)

lemma db_modify_at_ok: "db_ok b \<Longrightarrow> db_modify_at pos data b = Ok (r, b') \<Longrightarrow> db_ok b'"
  by (auto simp: db_ok_def db_modify_at_def put_bytes_def split: if_splits)

lemma db_mem_set_ok: "db_ok b \<Longrightarrow> db_mem_set pos v n b = Ok (r, b') \<Longrightarrow> db_ok b'"
  by (auto simp: db_ok_def db_mem_set_def put_bytes_def split: if_splits)

section \<open>The invariant under any sequence of calls\<close>

datatype db_op = Append u32 | Cut_Tail u32 | Set_Size u32 | Modify_At u32 bytes | Mem_Set u32 u8 u32

fun db_step :: "db_op \<Rightarrow> data_buffer \<Rightarrow> ('e, data_buffer) outcome" where
  "db_step (Append n) b = Ok (snd (db_append n b))"
| "db_step (Cut_Tail n) b = Ok (snd (db_cut_tail n b))"
| "db_step (Set_Size n) b = Ok (db_set_size n b)"
| "db_step (Modify_At pos data) b = omap snd (db_modify_at pos data b)"
| "db_step (Mem_Set pos v n) b = omap snd (db_mem_set pos v n b)"

text \<open>\<open>CutTail\<close> is within its contract when it cuts no more than there is; a write when its end does not wrap.\<close>

fun db_fits :: "db_op \<Rightarrow> data_buffer \<Rightarrow> bool" where
  "db_fits (Cut_Tail n) b = (n \<le> db_size b)"
| "db_fits (Modify_At pos data) b = (unat pos + length data < 2 ^ 32)"
| "db_fits (Mem_Set pos v n) b = (unat pos + unat n < 2 ^ 32)"
| "db_fits _ b = True"

fun db_fits_all :: "db_op list \<Rightarrow> data_buffer \<Rightarrow> bool" where
  "db_fits_all [] b = True"
| "db_fits_all (x # xs) b =
     (db_fits x b \<and> (case db_step x b :: (unit, data_buffer) outcome of Ok b' \<Rightarrow> db_fits_all xs b' | _ \<Rightarrow> True))"

lemma db_cut_tail_ok: "db_ok b \<Longrightarrow> n \<le> db_size b \<Longrightarrow> db_ok (snd (db_cut_tail n b))"
proof -
  assume "db_ok b" and "n \<le> db_size b"
  then have "db_size b - n \<le> db_size b" by (simp add: word_le_nat_alt unat_sub)
  with \<open>db_ok b\<close> show ?thesis by (auto simp: db_ok_def db_cut_tail_def Let_def)
qed

lemma db_modify_at_safe:
  assumes "db_ok b" and "unat pos + length data < 2 ^ 32"
  shows "\<exists>r b'. db_modify_at pos data b = Ok (r, b')"
proof -
  have n: "length data < 2 ^ 32" using assms(2) by simp
  have "unat (pos + of_nat (length data)) = unat pos + length data"
    using assms(2) n by (simp add: unat_word_ariths unat_of_nat)
  then show ?thesis using assms(1)
    by (auto simp: db_modify_at_def put_bytes_def db_ok_def word_le_nat_alt not_less)
qed

lemma db_mem_set_safe:
  assumes "db_ok b" and "unat pos + unat n < 2 ^ 32"
  shows "\<exists>r b'. db_mem_set pos v n b = Ok (r, b')"
proof -
  have "unat (pos + n) = unat pos + unat n"
    using assms(2) by (simp add: unat_word_ariths)
  then show ?thesis using assms(1)
    by (auto simp: db_mem_set_def put_bytes_def db_ok_def word_le_nat_alt not_less)
qed

lemma db_step_safe:
  assumes "db_ok b" and "db_fits x b"
  shows "\<exists>b'. db_step x b = Ok b' \<and> db_ok b'"
proof (cases x)
  case (Modify_At pos data)
  then obtain r b' where "db_modify_at pos data b = (Ok (r, b') :: ('a, bool \<times> data_buffer) outcome)"
    using assms db_modify_at_safe [of b pos data] by auto
  then show ?thesis using Modify_At db_modify_at_ok [OF assms(1)] by auto
next
  case (Mem_Set pos v n)
  then obtain r b' where "db_mem_set pos v n b = (Ok (r, b') :: ('a, bool \<times> data_buffer) outcome)"
    using assms db_mem_set_safe [of b pos n v] by auto
  then show ?thesis using Mem_Set db_mem_set_ok [OF assms(1)] by auto
qed (use assms in \<open>auto simp: db_append_ok db_cut_tail_ok db_set_size_ok\<close>)

lemma db_run_safe:
  "db_ok b \<Longrightarrow> db_fits_all xs b \<Longrightarrow> \<exists>b'. ofold db_step xs b = (Ok b' :: (unit, data_buffer) outcome) \<and> db_ok b'"
proof (induction xs arbitrary: b)
  case Nil
  then show ?case by simp
next
  case (Cons x xs)
  then obtain b' where b': "db_step x b = (Ok b' :: (unit, data_buffer) outcome)" "db_ok b'"
    using db_step_safe by fastforce
  with Cons show ?case by auto
qed

section \<open>Writing a freshly created buffer\<close>

text \<open>
  The pattern of the code: \<open>Create(n)\<close>, \<open>SetSize(n)\<close>, then \<open>ModifyAt(0, data, n)\<close>. The contents
  are exactly the data, whatever the allocation held.
\<close>

definition db_of_bytes :: "u8 \<Rightarrow> bytes \<Rightarrow> ('e, data_buffer) outcome" where
  "db_of_bytes fill data =
     (let n = of_nat (length data) in
      omap snd (db_modify_at 0 data (db_set_size n (db_create fill n))))"

lemma db_of_bytes_contents:
  assumes "length data < 2 ^ 32"
  shows "\<exists>b. db_of_bytes fill data = (Ok b :: ('e, data_buffer) outcome) \<and> db_ok b \<and> db_contents b = data
    \<and> unat (db_size b) = length data"
proof -
  have n: "unat (of_nat (length data) :: u32) = length data"
    using assms by (simp add: unat_of_nat)
  have "db_of_bytes fill data =
      (Ok \<lparr>db_size = of_nat (length data), db_capacity = of_nat (length data), db_mem = data\<rparr>
        :: ('e, data_buffer) outcome)"
    by (simp add: db_of_bytes_def Let_def db_modify_at_def db_set_size_def db_create_def
        put_bytes_def n)
  then show ?thesis by (simp add: db_ok_def db_contents_def n)
qed

text \<open>
  Filling a buffer from the front: \<open>written b p bs\<close> says that the buffer has its full size in
  use and that its first bytes, up to the write position \<open>p\<close>, are \<open>bs\<close>.
\<close>

definition written :: "data_buffer \<Rightarrow> u32 \<Rightarrow> bytes \<Rightarrow> bool" where
  "written b p bs \<longleftrightarrow> db_ok b \<and> db_size b = db_capacity b \<and> unat p = length bs
     \<and> length bs \<le> length (db_mem b) \<and> take (length bs) (db_mem b) = bs"

lemma written_create: "written (db_set_size n (db_create fill n)) 0 []"
  by (simp add: written_def db_create_def db_set_size_def db_ok_def)

lemma written_modify_at:
  assumes "written b p bs" and "length bs + length data \<le> unat (db_size b)"
  shows "\<exists>b'. db_modify_at p data b = Ok (True, b')
    \<and> written b' (p + of_nat (length data)) (bs @ data) \<and> db_size b' = db_size b"
proof -
  have len: "length bs + length data < 2 ^ 32"
    using assms(2) u32_bound [of "db_size b"] by simp
  have p: "unat (p + of_nat (length data)) = length bs + length data"
    using assms(1) len by (simp add: written_def unat_word_ariths unat_of_nat)
  have guard: "\<not> (p > db_size b \<or> p + of_nat (length data) > db_size b)"
    using assms p by (auto simp: written_def word_less_nat_alt)
  have "length (db_mem b) = unat (db_size b)" using assms(1) by (auto simp: written_def db_ok_def)
  then show ?thesis using guard assms p
    by (auto simp: db_modify_at_def put_bytes_def written_def db_ok_def)
qed

lemma written_mem_set:
  assumes "written b p bs" and "length bs + unat n \<le> unat (db_size b)"
  shows "\<exists>b'. db_mem_set p v n b = (Ok (True, b') :: ('e, bool \<times> data_buffer) outcome)
    \<and> written b' (p + n) (bs @ replicate (unat n) v) \<and> db_size b' = db_size b"
proof -
  have "of_nat (length (replicate (unat n) v)) = n" by simp
  then have "db_mem_set p v n b
      = (db_modify_at p (replicate (unat n) v) b :: ('e, bool \<times> data_buffer) outcome)"
    by (simp add: db_mem_set_def db_modify_at_def)
  then show ?thesis using written_modify_at [of b p bs "replicate (unat n) v"] assms by simp
qed

lemma written_full: "written b p bs \<Longrightarrow> length bs = unat (db_size b) \<Longrightarrow> db_contents b = bs"
  by (auto simp: written_def db_contents_def)

section \<open>Properties\<close>

text \<open>C35: (invariant, safety) every sequence of DataBuffer calls in which \<open>CutTail\<close> cuts at most
  the current size and no write range wraps around 32 bits runs without an access outside the
  allocation and keeps \<open>size <= capacity\<close>.\<close>

theorem data_buffer_calls_safe:
  assumes "db_fits_all xs (db_create fill capacity)"
  shows "\<exists>b. ofold db_step xs (db_create fill capacity) = (Ok b :: (unit, data_buffer) outcome) \<and> db_ok b"
  using db_run_safe [OF db_create_ok assms] .

theorem data_buffer_calls_safe_witness:
  "\<exists>b. ofold db_step [Set_Size 4, Modify_At 1 [7, 8], Cut_Tail 2, Append 1] (db_create 205 4)
     = (Ok b :: (unit, data_buffer) outcome) \<and> db_ok b"
  by (rule data_buffer_calls_safe)
    (simp add: db_create_def db_set_size_def db_modify_at_def db_cut_tail_def put_bytes_def Let_def)

text \<open>The clamp of \<open>CutTail\<close> never takes effect: cutting more than the size leaves
  the buffer with a size above its capacity, for every buffer that satisfies the invariant.\<close>

lemma cut_tail_underflow:
  assumes "db_ok b" and "n > db_size b" and "unat n - unat (db_size b) < 2 ^ 32 - unat (db_capacity b)"
  shows "fst (db_cut_tail n b) = n \<and> db_size (snd (db_cut_tail n b)) > db_capacity b
    \<and> \<not> db_ok (snd (db_cut_tail n b))"
proof -
  have "unat (db_size b - n) = 2 ^ 32 - unat n + unat (db_size b)"
    using assms(2) u32_bound [of n]
    by (simp add: unat_sub_if_size word_size word_le_nat_alt word_less_nat_alt)
  then have "db_size b - n > db_capacity b"
    using assms(2,3) u32_bound [of n] by (simp add: word_less_nat_alt)
  then show ?thesis by (auto simp: db_cut_tail_def Let_def db_ok_def)
qed

lemma cut_tail_underflow_witness:
  "db_size (snd (db_cut_tail 5 (db_set_size 3 (db_create 0 8)))) > 8"
  using cut_tail_underflow [of "db_set_size 3 (db_create 0 8)" 5]
  by (simp add: db_ok_def db_set_size_def db_create_def)

end
