(* ===== verification/Rtp_Packet.thy ===== *)
theory Rtp_Packet
  imports Byte_Io Data_Buffer
begin

text \<open>
  \<open>src/include/rtp_packet.h\<close>, \<open>src/rtp_rtcp/rtp_packet_impl.h/.cc\<close> and \<open>rtp_packet.cc\<close>: the RTP
  packet, its parser (\<open>StorePacket\<close> from bytes), its constructor from fields (the other
  \<open>StorePacket\<close>), its serialiser \<open>LoadPacket\<close>, its accessors and the copy made by
  \<open>RtpPacket::Create(other)\<close>. A \<open>DataBuffer\<close> owned by a packet is modelled by the bytes a reader
  of \<open>Get()\<close> and \<open>size()\<close> sees; the buffer \<open>LoadPacket\<close> writes is the full \<open>data_buffer\<close>.
  Lengths are \<open>uint32_t\<close> in the code; the parser adds at most 262204 to 12 and never wraps, so
  they are natural numbers here. The one difference of lengths wraps around below zero as in the
  code, and \<open>LoadPacket\<close> truncates where the code does.
\<close>

section \<open>Data\<close>

record rtp_extension =
  ext_name :: "u8 \<times> u8"
  ext_length :: u16
  ext_content :: bytes

record rtp_packet =
  octet_m_pt :: u8
  sequence_number :: u16
  timestamp :: u32
  ssrc :: u32
  csrcs :: "u32 list"
  extension :: "rtp_extension option"
  payload_buffer :: "bytes option"
  pad_size :: u8

datatype rtp_error =
    Length_Less_Than_Fixed_Head
  | Wrong_Rtp_Version
  | Length_Less_Than_Csrcs
  | Length_Less_Than_Extension_Head
  | Length_Less_Than_Extension
  | Length_Less_Than_Pad_Octet
  | P_Does_Not_Match_Pad_Size
  | Length_Less_Than_Padding
  | Length_Exceeds_Uint32
  | Csrc_Index_Exceeds_Length

text \<open>The default constructor of \<open>RtpPacketImpl\<close>.\<close>

definition rtp_empty :: rtp_packet where
  "rtp_empty = \<lparr>octet_m_pt = 0, sequence_number = 0, timestamp = 0, ssrc = 0, csrcs = [],
     extension = None, payload_buffer = None, pad_size = 0\<rparr>"

definition payload_bytes :: "rtp_packet \<Rightarrow> bytes" where
  "payload_bytes p = (case payload_buffer p of None \<Rightarrow> [] | Some b \<Rightarrow> b)"

section \<open>Accessors\<close>

definition rtp_p :: "rtp_packet \<Rightarrow> bool" where "rtp_p p = (pad_size p > 0)"

definition rtp_x :: "rtp_packet \<Rightarrow> bool" where "rtp_x p = (extension p \<noteq> None)"

definition count_csrcs :: "rtp_packet \<Rightarrow> u8" where "count_csrcs p = of_nat (length (csrcs p))"

definition rtp_m :: "rtp_packet \<Rightarrow> u8" where "rtp_m p = drop_bit 7 (octet_m_pt p)"

definition payload_type :: "rtp_packet \<Rightarrow> u8" where "payload_type p = drop_bit 1 0xff AND octet_m_pt p"

text \<open>\<open>csrc(uint8_t& csrc, uint8_t index)\<close>: the out parameter is a single byte, and the bound test
  lets \<open>index == csrcs_.size()\<close> through to \<open>*(csrcs_.begin() + index)\<close>.\<close>

definition rtp_csrc :: "rtp_packet \<Rightarrow> u8 \<Rightarrow> (rtp_error, u8) outcome" where
  "rtp_csrc p index =
     (if unat index > length (csrcs p) then Failed Csrc_Index_Exceeds_Length
      else if unat index = length (csrcs p) then Crash Out_Of_Bounds
      else Ok (ucast (csrcs p ! unat index)))"

definition SetTimestamp :: "u32 \<Rightarrow> rtp_packet \<Rightarrow> rtp_packet" where
  "SetTimestamp ts p = p\<lparr>timestamp := ts\<rparr>"

definition SetSequenceNumber :: "u16 \<Rightarrow> rtp_packet \<Rightarrow> rtp_packet" where
  "SetSequenceNumber seq p = p\<lparr>sequence_number := seq\<rparr>"

section \<open>StorePacket from bytes\<close>

text \<open>
  The parser reads the fixed header, the CSRC list, the extension and the padding length in this
  order; \<open>length_parsed\<close> is the offset reached. Each stage returns the new offset.
\<close>

definition parse_csrc_length :: "nat \<Rightarrow> nat \<Rightarrow> (rtp_error, nat) outcome" where
  "parse_csrc_length cc len =
     (if cc > 0 then if 12 + cc * 4 > len then Failed Length_Less_Than_Csrcs else Ok (12 + cc * 4)
      else Ok 12)"

definition parse_extension ::
  "bool \<Rightarrow> bytes \<Rightarrow> nat \<Rightarrow> (rtp_error, rtp_extension option \<times> nat) outcome" where
  "parse_extension x packet length_parsed =
     (if \<not> x then Ok (None, length_parsed)
      else if length_parsed + 4 > length packet then Failed Length_Less_Than_Extension_Head
      else obind (get_bytes packet (length_parsed + 2) 2) (\<lambda>len_bytes.
        let length_dw = ReadBigEndian len_bytes :: u16; length_byte = unat length_dw * 4 in
        if length_parsed + 4 + length_byte > length packet then Failed Length_Less_Than_Extension
        else obind (get_byte packet length_parsed) (\<lambda>n0.
             obind (get_byte packet (length_parsed + 1)) (\<lambda>n1.
             obind (get_bytes packet (length_parsed + 4) length_byte) (\<lambda>content.
               Ok (Some \<lparr>ext_name = (n0, n1), ext_length = length_dw, ext_content = content\<rparr>,
                   length_parsed + (4 + length_byte)))))))"

definition parse_padding :: "bool \<Rightarrow> bytes \<Rightarrow> nat \<Rightarrow> (rtp_error, u8) outcome" where
  "parse_padding p packet length_parsed =
     (if \<not> p then Ok 0
      else if length_parsed + 1 > length packet then Failed Length_Less_Than_Pad_Octet
      else obind (get_byte packet (length packet - 1)) (\<lambda>pad.
        if p \<noteq> (pad > 0) then Failed P_Does_Not_Match_Pad_Size
        else if length_parsed + unat pad > length packet then Failed Length_Less_Than_Padding
        else Ok pad))"

text \<open>The CSRC entries are read through \<open>reinterpret_cast<const uint32_t*>\<close>, in host order.\<close>

definition read_csrcs :: "bytes \<Rightarrow> nat \<Rightarrow> (rtp_error, u32 list) outcome" where
  "read_csrcs packet cc =
     omapM (\<lambda>i. omap ReadLittleEndian (get_bytes packet (12 + i * 4) 4)) [0..<cc]"

text \<open>The difference of two lengths of type \<open>uint32_t\<close>.\<close>

definition length_difference :: "nat \<Rightarrow> nat \<Rightarrow> nat" where
  "length_difference m n = (if n \<le> m then m - n else 2 ^ 32 + m - n)"

text \<open>The assignments at the end; \<open>pad_size_\<close> is assigned only when the payload is not empty.\<close>

definition store_fields_parsed ::
  "rtp_packet \<Rightarrow> bytes \<Rightarrow> nat \<Rightarrow> rtp_extension option \<Rightarrow> u8 \<Rightarrow> nat \<Rightarrow> (rtp_error, rtp_packet) outcome" where
  "store_fields_parsed self packet cc ext pad length_parsed =
     (let length_payload = length_difference (length packet) (length_parsed + unat pad) in
      obind (get_byte packet 1) (\<lambda>octet.
      obind (read_be16 packet 2) (\<lambda>seq.
      obind (read_be32 packet 4) (\<lambda>ts.
      obind (read_be32 packet 8) (\<lambda>s.
      obind (read_csrcs packet cc) (\<lambda>cs.
      let self' = self\<lparr>octet_m_pt := octet, sequence_number := seq, timestamp := ts, ssrc := s,
                      csrcs := cs, extension := ext, payload_buffer := None\<rparr> in
      if length_payload > 0
      then omap (\<lambda>body. self'\<lparr>payload_buffer := Some body, pad_size := pad\<rparr>)
             (get_bytes packet length_parsed length_payload)
      else Ok self'))))))"

definition StorePacket :: "rtp_packet \<Rightarrow> bytes \<Rightarrow> (rtp_error, rtp_packet) outcome" where
  "StorePacket self packet =
     (if length packet < 12 then Failed Length_Less_Than_Fixed_Head
      else obind (get_byte packet 0) (\<lambda>head.
        if drop_bit 6 head \<noteq> 2 then Failed Wrong_Rtp_Version
        else let p = (head AND 0x20 \<noteq> 0); x = (head AND 0x10 \<noteq> 0); cc = unat (head AND 0x0f) in
          obind (parse_csrc_length cc (length packet)) (\<lambda>length_parsed.
          obind (parse_extension x packet length_parsed) (\<lambda>(ext, length_parsed).
          obind (parse_padding p packet length_parsed) (\<lambda>pad.
            store_fields_parsed self packet cc ext pad length_parsed)))))"

section \<open>StorePacket from fields\<close>

definition extension_size :: "rtp_extension option \<Rightarrow> nat" where
  "extension_size e = (case e of None \<Rightarrow> 0 | Some x \<Rightarrow> 4 + unat (ext_length x) * 4)"

definition StoreFields ::
  "u8 \<Rightarrow> u16 \<Rightarrow> u32 \<Rightarrow> u32 \<Rightarrow> u32 list \<Rightarrow> rtp_extension option \<Rightarrow> bytes option \<Rightarrow> u8
    \<Rightarrow> (rtp_error, rtp_packet) outcome" where
  "StoreFields octet seq ts s cs ext body pad =
     (let buffer_length = 12 + length cs * 4 + extension_size ext
            + (case body of None \<Rightarrow> 0 | Some b \<Rightarrow> length b) + unat pad in
      if buffer_length > 4294967295 then Failed Length_Exceeds_Uint32
      else Ok \<lparr>octet_m_pt = octet, sequence_number = seq, timestamp = ts, ssrc = s, csrcs = cs,
               extension = ext, payload_buffer = body, pad_size = pad\<rparr>)"

section \<open>LoadPacket\<close>

definition rtp_buffer_length :: "rtp_packet \<Rightarrow> nat" where
  "rtp_buffer_length p = 12 + length (csrcs p) * 4 + extension_size (extension p)
     + length (payload_bytes p) + unat (pad_size p)"

text \<open>
  The first octet. The version is set in the top bits; an extension sets \<open>0x20\<close> and padding
  sets \<open>0x10\<close>; the parser above, and the layout drawn in \<open>rtp_packet_impl.h\<close>, have these two bits the
  other way round.
\<close>

definition rtp_head :: "rtp_packet \<Rightarrow> u8" where
  "rtp_head p = ((0x80 OR (if extension p \<noteq> None then 0x20 else 0))
      OR (if pad_size p > 0 then 0x10 else 0)) OR of_nat (length (csrcs p))"

text \<open>
  The writer state is the write position and the buffer. \<open>emit\<close> is \<open>ModifyAt(write_pos, ...)\<close>
  followed by the increment, with the boolean result ignored as in the code; \<open>emit_each\<close> is the
  byte-by-byte loop over an integer's object representation; \<open>emit_fill\<close> is \<open>MemSet\<close>.
\<close>

type_synonym writer = "u32 \<times> data_buffer"

definition emit :: "bytes \<Rightarrow> writer \<Rightarrow> (rtp_error, writer) outcome" where
  "emit data w = (case w of (write_pos, b) \<Rightarrow>
     omap (\<lambda>r. (write_pos + of_nat (length data), snd r)) (db_modify_at write_pos data b))"

definition emit_each :: "bytes \<Rightarrow> writer \<Rightarrow> (rtp_error, writer) outcome" where
  "emit_each data = ofold (\<lambda>b. emit [b]) data"

definition emit_fill :: "u8 \<Rightarrow> u32 \<Rightarrow> writer \<Rightarrow> (rtp_error, writer) outcome" where
  "emit_fill v n w = (case w of (write_pos, b) \<Rightarrow>
     omap (\<lambda>r. (write_pos + n, snd r)) (db_mem_set write_pos v n b))"

definition emit_extension :: "rtp_extension option \<Rightarrow> writer \<Rightarrow> (rtp_error, writer) outcome" where
  "emit_extension ext w = (case ext of None \<Rightarrow> Ok w
     | Some e \<Rightarrow> obind (emit [fst (ext_name e), snd (ext_name e)] w) (\<lambda>w.
         obind (emit_each (WriteBigEndian 2 (ext_length e)) w) (emit (ext_content e))))"

definition emit_padding :: "u8 \<Rightarrow> writer \<Rightarrow> (rtp_error, writer) outcome" where
  "emit_padding pad w =
     (if pad > 0 then obind (emit_fill 0 (ucast pad - 1) w) (emit_fill pad 1) else Ok w)"

definition LoadPacket :: "u8 \<Rightarrow> rtp_packet \<Rightarrow> (rtp_error, data_buffer) outcome" where
  "LoadPacket fill p =
     (let n = of_nat (rtp_buffer_length p); buffer = db_set_size n (db_create fill n) in
      omap snd
       (obind (emit [rtp_head p] (0, buffer)) (\<lambda>w.
        obind (emit [octet_m_pt p] w) (\<lambda>w.
        obind (emit_each (WriteBigEndian 2 (sequence_number p)) w) (\<lambda>w.
        obind (emit_each (WriteBigEndian 4 (timestamp p)) w) (\<lambda>w.
        obind (emit_each (WriteBigEndian 4 (ssrc p)) w) (\<lambda>w.
        obind (ofold (\<lambda>c. emit_each (WriteBigEndian 4 c)) (csrcs p) w) (\<lambda>w.
        obind (emit_extension (extension p) w) (\<lambda>w.
        obind (case payload_buffer p of None \<Rightarrow> Ok w | Some b \<Rightarrow> emit b w) (\<lambda>w.
        emit_padding (pad_size p) w))))))))))"

section \<open>Copying a packet\<close>

text \<open>\<open>RtpPacket::Create(const RtpPacket* other)\<close>. \<open>Failed\<close> stands for the \<open>nullptr\<close> it returns when
  an accessor fails; the result of the final \<open>StorePacket\<close> is ignored.\<close>

definition m_payload_type_octet :: "rtp_packet \<Rightarrow> u8 \<Rightarrow> u8" where
  "m_payload_type_octet p pt = pt OR (if rtp_m p \<noteq> 0 then 0x80 else 0x00)"

definition copy_csrcs :: "rtp_packet \<Rightarrow> (rtp_error, u32 list) outcome" where
  "copy_csrcs p = omapM (\<lambda>i. omap ucast (rtp_csrc p (of_nat i))) [0..<unat (count_csrcs p)]"

definition copy_extension :: "rtp_packet \<Rightarrow> (rtp_error, rtp_extension option) outcome" where
  "copy_extension p = (case extension p of None \<Rightarrow> Ok None
     | Some e \<Rightarrow> omap (\<lambda>content. Some (e\<lparr>ext_content := content\<rparr>))
         (get_bytes (ext_content e) 0 (4 * unat (ext_length e))))"

definition CreateCopy :: "rtp_packet \<Rightarrow> (rtp_error, rtp_packet) outcome" where
  "CreateCopy other =
     obind (copy_csrcs other) (\<lambda>cs.
     obind (copy_extension other) (\<lambda>ext.
       case StoreFields (m_payload_type_octet other (payload_type other)) (sequence_number other)
              (timestamp other) (ssrc other) cs ext (payload_buffer other) (pad_size other) of
         Ok p \<Rightarrow> Ok p | _ \<Rightarrow> Ok rtp_empty))"

section \<open>Reference image\<close>

text \<open>What \<open>LoadPacket\<close> should produce, as one concatenation.\<close>

definition extension_image :: "rtp_extension option \<Rightarrow> bytes" where
  "extension_image ext = (case ext of None \<Rightarrow> []
     | Some e \<Rightarrow> [fst (ext_name e), snd (ext_name e)] @ WriteBigEndian 2 (ext_length e) @ ext_content e)"

definition padding_image :: "u8 \<Rightarrow> bytes" where
  "padding_image pad = (if pad > 0 then replicate (unat pad - 1) 0 @ [pad] else [])"

definition fixed_image :: "rtp_packet \<Rightarrow> bytes" where
  "fixed_image p = rtp_head p # octet_m_pt p # WriteBigEndian 2 (sequence_number p)
     @ WriteBigEndian 4 (timestamp p) @ WriteBigEndian 4 (ssrc p)"

definition rtp_image :: "rtp_packet \<Rightarrow> bytes" where
  "rtp_image p = fixed_image p @ concat (map (WriteBigEndian 4) (csrcs p))
     @ extension_image (extension p) @ payload_bytes p @ padding_image (pad_size p)"

text \<open>The extension's content has the length its header says, and the packet fits 32 bits.\<close>

definition extension_wf :: "rtp_extension option \<Rightarrow> bool" where
  "extension_wf ext = (case ext of None \<Rightarrow> True
     | Some e \<Rightarrow> length (ext_content e) = 4 * unat (ext_length e))"

definition rtp_wf :: "rtp_packet \<Rightarrow> bool" where
  "rtp_wf p \<longleftrightarrow> extension_wf (extension p) \<and> rtp_buffer_length p < 2 ^ 32"

lemma length_fixed_image [simp]: "length (fixed_image p) = 12"
  by (simp add: fixed_image_def)

lemma length_extension_image: "extension_wf ext \<Longrightarrow> length (extension_image ext) = extension_size ext"
  by (auto simp: extension_wf_def extension_image_def extension_size_def split: option.splits)

lemma length_padding_image [simp]: "length (padding_image pad) = unat pad"
  by (auto simp: padding_image_def word_less_nat_alt)

lemma length_csrcs_image [simp]: "length (concat (map (WriteBigEndian 4) cs)) = length cs * 4"
  by (simp add: length_concat_const)

lemma length_rtp_image: "extension_wf (extension p) \<Longrightarrow> length (rtp_image p) = rtp_buffer_length p"
  by (simp add: rtp_image_def rtp_buffer_length_def length_extension_image)

lemma rtp_image_nonempty [simp]: "rtp_image p \<noteq> []"
  by (simp add: rtp_image_def fixed_image_def)

lemma rtp_image_ge_12: "12 \<le> length (rtp_image p)"
  by (simp add: rtp_image_def)

end
