(* ===== verification/Seq_Comparison.thy ===== *)
theory Seq_Comparison
  imports Qos_Prelude
begin

text \<open>
  \<open>src/utils/seq_comparison.h\<close>: the circular comparison of 16-bit RTP sequence numbers. The
  code compares after promotion to \<open>int\<close>, so the definitions compute in \<open>nat\<close> and no
  intermediate value wraps. The lemmas reduce every comparison to the circular distance
  \<open>unat (b - a)\<close>, and the locale \<open>seq_order\<close> states what the caches of the sender, of the
  receiver and of the FEC decoder rely on: inside a window of less than half the circle the
  comparison is a strict linear order.
\<close>

definition IsSeqAfterInRange :: "u16 \<Rightarrow> u16 \<Rightarrow> u16 \<Rightarrow> bool" where
  "IsSeqAfterInRange a b range_num =
     (if a = b then False
      else if a < b then unat b - unat a \<le> unat range_num
      else 65535 - unat a + unat b + 1 \<le> unat range_num)"

definition IsSeqBeforeInRange :: "u16 \<Rightarrow> u16 \<Rightarrow> u16 \<Rightarrow> bool" where
  "IsSeqBeforeInRange a b range_num = IsSeqAfterInRange a b range_num"

definition IsNextSeq :: "u16 \<Rightarrow> u16 \<Rightarrow> bool" where
  "IsNextSeq a b = IsSeqAfterInRange a b 1"

definition IsSeqAfter :: "u16 \<Rightarrow> u16 \<Rightarrow> bool" where
  "IsSeqAfter a b = IsSeqAfterInRange a b (drop_bit 1 65535)"

definition IsSeqBefore :: "u16 \<Rightarrow> u16 \<Rightarrow> bool" where
  "IsSeqBefore a b = IsSeqAfter a b"

text \<open>The result is truncated to \<open>uint16_t\<close> on return.\<close>

definition DiffSeq :: "u16 \<Rightarrow> u16 \<Rightarrow> u16" where
  "DiffSeq a b =
     (if a \<le> b then b - a else of_nat (unat b + 65535 - unat a + 1))"

section \<open>Circular distance\<close>

definition seq_dist :: "u16 \<Rightarrow> u16 \<Rightarrow> nat" where
  "seq_dist base x = unat (x - base)"

lemma seq_dist_eq: "seq_dist a b = (if a \<le> b then unat b - unat a else 65536 - unat a + unat b)"
  using unat_sub_if_size [of b a] u16_bound [of a] u16_bound [of b]
  by (auto simp: seq_dist_def word_le_nat_alt word_size)

lemma seq_dist_lt: "seq_dist a b < 65536"
  using u16_bound [of "b - a"] by (simp add: seq_dist_def)

lemma seq_dist_0_iff [simp]: "seq_dist a b = 0 \<longleftrightarrow> a = b"
  by (simp add: seq_dist_def unsigned_eq_0_iff) (metis right_minus_eq)

lemma seq_dist_self [simp]: "seq_dist a a = 0"
  by simp

lemma seq_dist_inj: "seq_dist base a = seq_dist base b \<longleftrightarrow> a = b"
  by (simp add: seq_dist_def flip: word_unat_eq_iff)

lemma IsSeqAfterInRange_dist:
  "IsSeqAfterInRange a b r \<longleftrightarrow> a \<noteq> b \<and> seq_dist a b \<le> unat r"
proof (cases "a < b")
  case True
  then show ?thesis by (auto simp: IsSeqAfterInRange_def seq_dist_eq)
next
  case False
  then have "a \<noteq> b \<Longrightarrow> \<not> a \<le> b" by simp
  moreover have "65535 - unat a + unat b + 1 = 65536 - unat a + unat b"
    using u16_bound [of a] by simp
  ultimately show ?thesis using False by (auto simp: IsSeqAfterInRange_def seq_dist_eq)
qed

lemma IsSeqAfter_dist: "IsSeqAfter a b \<longleftrightarrow> 0 < seq_dist a b \<and> seq_dist a b < 32768"
  by (auto simp: IsSeqAfter_def IsSeqAfterInRange_dist simp flip: seq_dist_0_iff)

lemma IsNextSeq_iff: "IsNextSeq a b \<longleftrightarrow> b = a + 1"
proof -
  have "IsNextSeq a b \<longleftrightarrow> seq_dist a b = 1"
    by (auto simp: IsNextSeq_def IsSeqAfterInRange_dist simp flip: seq_dist_0_iff)
  also have "\<dots> \<longleftrightarrow> b - a = 1"
    by (simp add: seq_dist_def word_unat_eq_iff)
  also have "\<dots> \<longleftrightarrow> b = a + 1" by (auto simp: diff_eq_eq ac_simps)
  finally show ?thesis .
qed

lemma DiffSeq_eq: "DiffSeq a b = b - a"
proof (cases "a \<le> b")
  case True
  then show ?thesis by (simp add: DiffSeq_def)
next
  case False
  then have "unat b + 65535 - unat a + 1 = 65536 - unat a + unat b"
    using u16_bound [of a] by simp
  also have "\<dots> = unat (b - a)"
    using False seq_dist_eq [of a b] by (simp add: seq_dist_def)
  finally have le: "unat b + 65535 - unat a + 1 = unat (b - a)" .
  have "DiffSeq a b = of_nat (unat b + 65535 - unat a + 1)"
    using False by (simp add: DiffSeq_def)
  also have "\<dots> = b - a" by (simp only: le) simp
  finally show ?thesis .
qed

lemma seq_dist_trans:
  "seq_dist base a \<le> seq_dist base b \<Longrightarrow> seq_dist a b = seq_dist base b - seq_dist base a"
proof -
  assume "seq_dist base a \<le> seq_dist base b"
  then have "a - base \<le> b - base" by (simp add: seq_dist_def word_le_nat_alt)
  then have "unat ((b - base) - (a - base)) = unat (b - base) - unat (a - base)"
    by (rule unat_sub)
  then show ?thesis by (simp add: seq_dist_def)
qed

lemma seq_dist_sym: "a \<noteq> b \<Longrightarrow> seq_dist a b + seq_dist b a = 65536"
  using u16_bound [of a] u16_bound [of b] by (auto simp: seq_dist_eq word_le_nat_alt word_unat_eq_iff)

text \<open>Within a window of less than half the circle after \<open>base\<close>, after means larger distance.\<close>

lemma IsSeqAfter_window:
  assumes "seq_dist base a < 32768" and "seq_dist base b < 32768"
  shows "IsSeqAfter a b \<longleftrightarrow> seq_dist base a < seq_dist base b"
proof (cases "seq_dist base a \<le> seq_dist base b")
  case True
  then show ?thesis using assms seq_dist_trans [OF True] by (auto simp: IsSeqAfter_dist)
next
  case False
  then have ba: "seq_dist b a = seq_dist base a - seq_dist base b" and "a \<noteq> b"
    by (auto intro: seq_dist_trans)
  then have "32768 \<le> seq_dist a b" using seq_dist_sym [of a b] assms False by linarith
  then show ?thesis using False by (simp add: IsSeqAfter_dist)
qed

section \<open>The order contract\<close>

text \<open>
  What a sorted packet cache needs from the comparison: a rank of each element relative to a
  base, injective, such that below \<open>span\<close> the comparison is the order of the ranks.
\<close>

locale seq_order =
  fixes after :: "'s \<Rightarrow> 's \<Rightarrow> bool"
    and rank :: "'s \<Rightarrow> 's \<Rightarrow> nat"
    and span :: nat
  assumes after_rank:
      "rank base a < span \<Longrightarrow> rank base b < span \<Longrightarrow> after a b \<longleftrightarrow> rank base a < rank base b"
    and rank_inj: "rank base a = rank base b \<Longrightarrow> a = b"
begin

definition in_window :: "'s \<Rightarrow> 's set \<Rightarrow> bool" where
  "in_window base S \<longleftrightarrow> (\<forall>s \<in> S. rank base s < span)"

lemma in_window_insert [simp]:
  "in_window base (insert s S) \<longleftrightarrow> rank base s < span \<and> in_window base S"
  by (simp add: in_window_def)

lemma in_window_empty [simp]: "in_window base {}"
  by (simp add: in_window_def)

lemma in_window_Un [simp]: "in_window base (S \<union> T) \<longleftrightarrow> in_window base S \<and> in_window base T"
  by (auto simp: in_window_def)

lemma in_window_mono: "in_window base T \<Longrightarrow> S \<subseteq> T \<Longrightarrow> in_window base S"
  by (auto simp: in_window_def)

lemma after_irrefl: "rank base a < span \<Longrightarrow> \<not> after a a"
  by (simp add: after_rank [of base])

lemma after_total:
  "in_window base {a, b} \<Longrightarrow> after a b \<or> a = b \<or> after b a"
  using rank_inj [of base a b] by (auto simp: after_rank [of base])

lemma after_trans:
  "in_window base {a, b, c} \<Longrightarrow> after a b \<Longrightarrow> after b c \<Longrightarrow> after a c"
  by (auto simp: after_rank [of base])

lemma after_asym: "in_window base {a, b} \<Longrightarrow> after a b \<Longrightarrow> \<not> after b a"
  by (auto simp: after_rank [of base])

text \<open>
  A cache kept in ascending order (each element after the one before it) and searched from the
  front for the first element that is after the new one stays in ascending order.
\<close>

lemma sorted_ascending_insert:
  assumes "sorted_wrt after (xs @ ys)" and "in_window base (insert s (set (xs @ ys)))"
    and "\<And>x. x \<in> set xs \<Longrightarrow> \<not> after s x \<and> x \<noteq> s"
    and "ys \<noteq> [] \<Longrightarrow> after s (hd ys)"
  shows "sorted_wrt after (xs @ s # ys)"
proof -
  have xs: "after x s" if "x \<in> set xs" for x
    using after_total [of base x s] assms(2,3) that by (auto simp: in_window_def)
  have ys: "after s y" if y: "y \<in> set ys" for y
  proof -
    obtain y0 ys' where ys: "ys = y0 # ys'" using y by (cases ys) auto
    have s0: "after s y0" using assms(4) ys by simp
    have "y = y0 \<or> after y0 y" using assms(1) ys y by (auto simp: sorted_wrt_append)
    then show ?thesis
    proof
      assume "after y0 y"
      then show ?thesis
        using s0 after_trans [of base s y0 y] assms(2) ys y by (auto simp: in_window_def)
    qed (use s0 in simp)
  qed
  show ?thesis using assms(1) xs ys by (auto simp: sorted_wrt_append)
qed

text \<open>The mirror image, for a list kept in descending order.\<close>

lemma sorted_descending_insert:
  assumes "sorted_wrt (\<lambda>x y. after y x) (xs @ ys)" and "in_window base (insert s (set (xs @ ys)))"
    and "\<And>x. x \<in> set xs \<Longrightarrow> \<not> after x s \<and> x \<noteq> s"
    and "ys \<noteq> [] \<Longrightarrow> after (hd ys) s"
  shows "sorted_wrt (\<lambda>x y. after y x) (xs @ s # ys)"
proof -
  have xs: "after s x" if "x \<in> set xs" for x
    using after_total [of base x s] assms(2,3) that by (auto simp: in_window_def)
  have ys: "after y s" if y: "y \<in> set ys" for y
  proof -
    obtain y0 ys' where ys: "ys = y0 # ys'" using y by (cases ys) auto
    have s0: "after y0 s" using assms(4) ys by simp
    have "y = y0 \<or> after y y0" using assms(1) ys y by (auto simp: sorted_wrt_append)
    then show ?thesis
    proof
      assume "after y y0"
      then show ?thesis
        using s0 after_trans [of base y y0 s] assms(2) ys y by (auto simp: in_window_def)
    qed (use s0 in simp)
  qed
  show ?thesis using assms(1) xs ys by (auto simp: sorted_wrt_append)
qed

end

interpretation seq: seq_order IsSeqAfter seq_dist 32768
proof unfold_locales
  show "IsSeqAfter a b \<longleftrightarrow> seq_dist base a < seq_dist base b"
    if "seq_dist base a < 32768" "seq_dist base b < 32768" for base a b
    using that by (rule IsSeqAfter_window)
  show "a = b" if "seq_dist base a = seq_dist base b" for base a b
    using that by (simp add: seq_dist_inj)
qed

end
