(* ===== verification/Ulp_Fec_Encode.thy ===== *)
theory Ulp_Fec_Encode
  imports Ulp_Fec_Mask Rtp_Packet Seq_Comparison
begin

text \<open>
  \<open>src/rtp_rtcp/forward_error_correction.cc\<close> (the configurations) and the second half of
  \<open>UlpFecEncoder\<close> in \<open>ulp_fec.cc\<close>: checking a group of media packets, and building for each row
  of the mask the FEC packet that carries the exclusive or of the packets of the row. A
  \<open>RtpPacketData\<close> is a packet with the bytes of its \<open>LoadPacket()\<close>.
\<close>

datatype fec_error =
    Config_Null
  | Payload_Type_Invalid
  | Protected_Packets_Empty
  | Protected_Packets_Too_Many
  | Important_Packets_Too_Many
  | Ssrc_Differs
  | Sequence_Not_Continuous
  | Rtp_Error rtp_error

fun lift_rtp :: "(rtp_error, 'a) outcome \<Rightarrow> (fec_error, 'a) outcome" where
  "lift_rtp (Ok a) = Ok a"
| "lift_rtp (Failed e) = Failed (Rtp_Error e)"
| "lift_rtp (Crash c) = Crash c"

section \<open>Configuration\<close>

record fec_encoder_config =
  enc_ssrc :: u32
  enc_payload_type :: u8

record fec_encoder =
  enc_config :: "fec_encoder_config option"
  fec_packet_mask :: mask_array

definition fec_encoder_new :: fec_encoder where
  "fec_encoder_new = \<lparr>enc_config = None, fec_packet_mask = replicate kFECPacketMaskMaxSize 0\<rparr>"

datatype fec_type = kUlp

definition FecEncoder_Create :: "fec_type \<Rightarrow> fec_encoder option" where
  "FecEncoder_Create t = (if t = kUlp then Some fec_encoder_new else None)"

definition kBitsizePayloadType :: nat where "kBitsizePayloadType = 7"

definition payload_type_invalid :: "u8 \<Rightarrow> bool" where
  "payload_type_invalid pt \<longleftrightarrow> push_bit kBitsizePayloadType 1 \<le> pt"

definition FecEncoderConfig_Configure ::
  "u32 \<Rightarrow> u8 \<Rightarrow> fec_encoder_config \<Rightarrow> (fec_error, fec_encoder_config) outcome" where
  "FecEncoderConfig_Configure s pt c =
     (if payload_type_invalid pt then Failed Payload_Type_Invalid
      else Ok (c\<lparr>enc_ssrc := s, enc_payload_type := pt\<rparr>))"

definition FecEncoder_Configure ::
  "fec_encoder_config option \<Rightarrow> fec_encoder \<Rightarrow> (fec_error, fec_encoder) outcome" where
  "FecEncoder_Configure config e = (case config of
       None \<Rightarrow> Failed Config_Null
     | Some c \<Rightarrow> if payload_type_invalid (enc_payload_type c) then Failed Payload_Type_Invalid
         else Ok (e\<lparr>enc_config := Some c\<rparr>))"

section \<open>Exclusive or into a buffer\<close>

definition xor_at :: "nat \<Rightarrow> u8 \<Rightarrow> bytes \<Rightarrow> ('e, bytes) outcome" where
  "xor_at off b m = (if off < length m then Ok (m[off := m ! off XOR b]) else Crash Out_Of_Bounds)"

definition or_at :: "nat \<Rightarrow> u8 \<Rightarrow> bytes \<Rightarrow> ('e, bytes) outcome" where
  "or_at off b m = (if off < length m then Ok (m[off := m ! off OR b]) else Crash Out_Of_Bounds)"

definition and_at :: "nat \<Rightarrow> u8 \<Rightarrow> bytes \<Rightarrow> ('e, bytes) outcome" where
  "and_at off b m = (if off < length m then Ok (m[off := m ! off AND b]) else Crash Out_Of_Bounds)"

text \<open>\<open>dst[doff + k] ^= src[soff + k]\<close> for the listed \<open>k\<close>, in order.\<close>

definition xor_from :: "bytes \<Rightarrow> nat \<Rightarrow> nat \<Rightarrow> nat list \<Rightarrow> bytes \<Rightarrow> ('e, bytes) outcome" where
  "xor_from src soff doff = ofold (\<lambda>k m. obind (get_byte src (soff + k)) (\<lambda>b. xor_at (doff + k) b m))"

section \<open>BuildFecPacket\<close>

definition kUlpfecHeaderLength :: nat where "kUlpfecHeaderLength = 10"

definition kFixedBufferLength :: nat where "kFixedBufferLength = 12"

type_synonym rtp_packet_data = "rtp_packet \<times> bytes"

text \<open>\<open>uint16_t src_length = packet_buffer->size() - RtpPacket::kFixedBufferLength\<close>\<close>

definition media_length :: "bytes \<Rightarrow> u16" where
  "media_length buffer = of_nat (length buffer) - of_nat kFixedBufferLength"

text \<open>
  The payload loop counts with an \<open>int16_t\<close>: for more than 32767 bytes the counter becomes negative
  and the next round leaves the buffers.
\<close>

definition xor_payload :: "bytes \<Rightarrow> u16 \<Rightarrow> nat \<Rightarrow> bytes \<Rightarrow> ('e, bytes) outcome" where
  "xor_payload src src_length doff m =
     (if unat src_length \<le> 32767 then xor_from src kFixedBufferLength doff [0..<unat src_length] m
      else Crash Integer_Overflow)"

text \<open>The body of the loop over the group, on the FEC payload. The mask bit of the packet is set last.\<close>

definition add_to_fec :: "u16 \<Rightarrow> nat \<Rightarrow> rtp_packet_data \<Rightarrow> bytes \<Rightarrow> ('e, bytes) outcome" where
  "add_to_fec seq_base packet_mask_size packet m =
     (let src = snd packet; src_length = media_length src; len = WriteBigEndian 2 src_length;
          level_1 = kUlpfecHeaderLength; payload = level_1 + 2 + packet_mask_size;
          seq_diff = ucast (DiffSeq seq_base (sequence_number (fst packet))) :: u8 in
      obind (xor_from src 0 0 [0, 1, 4, 5, 6, 7] m) (\<lambda>m.
      obind (xor_at 8 (len ! 0) m) (\<lambda>m.
      obind (xor_at 9 (len ! 1) m) (\<lambda>m.
      obind (xor_payload src src_length payload m) (\<lambda>m.
        or_at (level_1 + 2 + unat seq_diff div 8) (drop_bit (unat seq_diff mod 8) 0x80) m)))))"

definition fec_payload_of :: "rtp_packet_data list \<Rightarrow> u16 \<Rightarrow> ('e, bytes) outcome" where
  "fec_payload_of grp max_length =
     (if grp = [] then Crash Empty_Container else
      let seq_base = sequence_number (fst (hd grp)); seq_end = sequence_number (fst (last grp));
          seq_diff = ucast (DiffSeq seq_base seq_end) :: u8;
          l = kUlpfecPacketMaskSizeLBitClear * 8 < unat seq_diff + 1;
          packet_mask_size = (if l then kUlpfecPacketMaskSizeLBitSet else kUlpfecPacketMaskSizeLBitClear);
          base_bytes = WriteBigEndian 2 seq_base in
      obind (put_bytes kUlpfecHeaderLength (WriteBigEndian 2 max_length)
               (replicate (unat max_length + kUlpfecHeaderLength + 2 + packet_mask_size) 0)) (\<lambda>m.
      obind (ofold (add_to_fec seq_base packet_mask_size) grp m) (\<lambda>m.
      obind (xor_at 2 (base_bytes ! 0) m) (\<lambda>m.
      obind (xor_at 3 (base_bytes ! 1) m) (\<lambda>m.
      obind (and_at 0 0x3f m) (\<lambda>m.
        if l then or_at 0 0x40 m else Ok m))))))"

text \<open>The result of \<open>StorePacket\<close> is ignored: a payload it refuses leaves the new packet empty.\<close>

definition BuildFecPacket ::
  "fec_encoder_config \<Rightarrow> rtp_packet_data list \<Rightarrow> u16 \<Rightarrow> ('e, rtp_packet) outcome" where
  "BuildFecPacket config grp max_length =
     obind (fec_payload_of grp max_length) (\<lambda>payload.
       case StoreFields (enc_payload_type config) 0 0 (enc_ssrc config) [] None (Some payload) 0 of
         Ok p \<Rightarrow> Ok p | _ \<Rightarrow> Ok rtp_empty)"

section \<open>GenerateFecPackets\<close>

definition row_bit :: "mask_array \<Rightarrow> nat \<Rightarrow> nat \<Rightarrow> ('e, bool) outcome" where
  "row_bit mask_bytes mask_this i_mask =
     omap (\<lambda>b. drop_bit (i_mask mod 8) 0x80 AND b \<noteq> 0) (get_byte mask_bytes (mask_this + i_mask div 8))"

definition add_to_group ::
  "rtp_packet_data list \<Rightarrow> mask_array \<Rightarrow> nat \<Rightarrow> nat \<Rightarrow> rtp_packet_data list \<Rightarrow> ('e, rtp_packet_data list) outcome" where
  "add_to_group media_packets mask_bytes mask_this i_mask grp =
     obind (row_bit mask_bytes mask_this i_mask) (\<lambda>b.
       if \<not> b then Ok grp
       else if i_mask < length media_packets then Ok (grp @ [media_packets ! i_mask])
       else Crash Out_Of_Bounds)"

definition max_media_length :: "rtp_packet_data list \<Rightarrow> u16" where
  "max_media_length grp = fold (\<lambda>p n. max n (media_length (snd p))) grp 0"

definition generate_row ::
  "fec_encoder_config \<Rightarrow> rtp_packet_data list \<Rightarrow> mask_array \<Rightarrow> nat \<Rightarrow> nat \<Rightarrow> ('e, rtp_packet) outcome" where
  "generate_row config media_packets mask_bytes packet_mask_size i_fec =
     obind (ofold (add_to_group media_packets mask_bytes (i_fec * packet_mask_size)) [0..<packet_mask_size * 8] [])
       (\<lambda>grp. BuildFecPacket config grp (max_media_length grp))"

definition GenerateFecPackets ::
  "fec_encoder_config \<Rightarrow> rtp_packet_data list \<Rightarrow> mask_array \<Rightarrow> u8 \<Rightarrow> nat \<Rightarrow> ('e, rtp_packet list) outcome" where
  "GenerateFecPackets config media_packets mask_bytes num_fec_packets packet_mask_size =
     omapM (generate_row config media_packets mask_bytes packet_mask_size) [0..<unat num_fec_packets]"

section \<open>Encode\<close>

text \<open>The loop over the protected packets. \<open>config_\<close> is dereferenced without a check.\<close>

fun check_packets ::
  "u8 \<Rightarrow> fec_encoder_config option \<Rightarrow> u16 option \<Rightarrow> rtp_packet list \<Rightarrow> (fec_error, rtp_packet_data list) outcome" where
  "check_packets fill config last_seq [] = Ok []"
| "check_packets fill config last_seq (p # ps) = (case config of
       None \<Rightarrow> Crash Null_Dereference
     | Some c \<Rightarrow>
         if enc_ssrc c \<noteq> ssrc p then Failed Ssrc_Differs
         else if (case last_seq of None \<Rightarrow> False | Some s \<Rightarrow> \<not> IsNextSeq s (sequence_number p))
         then Failed Sequence_Not_Continuous
         else obind (lift_rtp (LoadPacket fill p)) (\<lambda>b.
           omap (Cons (p, db_contents b)) (check_packets fill config (Some (sequence_number p)) ps)))"

definition FecEncode ::
  "u8 \<Rightarrow> rtp_packet list \<Rightarrow> u32 \<Rightarrow> protection_method \<Rightarrow> u8 \<Rightarrow> fec_mask_type \<Rightarrow> fec_encoder
    \<Rightarrow> (fec_error, rtp_packet list \<times> fec_encoder) outcome" where
  "FecEncode fill protected_packets num_important_packets meth protection_factor fec_mask_type e =
     (let n = length protected_packets in
      if n = 0 then Failed Protected_Packets_Empty
      else if kUlpfecMaxMediaPackets < n then Failed Protected_Packets_Too_Many
      else if unat num_important_packets > n then Failed Important_Packets_Too_Many
      else obind (check_packets fill (enc_config e) None protected_packets) (\<lambda>input_packets.
        case enc_config e of None \<Rightarrow> Crash Null_Dereference | Some c \<Rightarrow>
        let packet_mask_size = PacketMaskSize n;
            num_fec_packets = NumFecPackets (of_nat n) protection_factor in
        obind (put_bytes 0 (replicate (unat num_fec_packets * packet_mask_size) 0) (fec_packet_mask e)) (\<lambda>mask_bytes.
        obind (GeneratePacketMasks n (unat num_fec_packets) (unat num_important_packets) meth fec_mask_type
                 packet_mask_size 0 mask_bytes) (\<lambda>mask_bytes.
          omap (\<lambda>fec_packets. (fec_packets, e\<lparr>fec_packet_mask := mask_bytes\<rparr>))
            (GenerateFecPackets c input_packets mask_bytes (ucast num_fec_packets) packet_mask_size)))))"

end
