(* ===== verification/Ulp_Fec_Decode.thy ===== *)
theory Ulp_Fec_Decode
  imports Ulp_Fec_Encode
begin

text \<open>
  \<open>UlpFecDecoder\<close> of \<open>src/rtp_rtcp/ulp_fec.cc\<close>: a cache of received packets in sequence order, in
  which FEC packets carry the map of the numbers they protect and pointers to the media packets
  already seen. A \<open>CachedPacket\<close> has an identity (its address), so that the pointers \<open>media_packets\<close>
  are identities looked up in the cache, and following a pointer to an erased packet is a crash.
  The \<open>std::map<uint16_t, bool>\<close> is an association list in ascending key order.
\<close>

record fec_decoder_config =
  dec_max_cache_seq_difference :: u16
  dec_ssrc :: u32
  dec_payload_type :: u8

record fec_cached =
  fc_id :: nat
  fc_rtp_struct :: rtp_packet
  fc_rtp_buffer :: bytes
  fc_is_fec :: bool
  fc_protected :: "(u16 \<times> bool) list"
  fc_media_packets :: "nat list"
  fc_invalid_fec :: bool

record fec_decoder =
  fd_config :: "fec_decoder_config option"
  fd_cached_packets :: "fec_cached list"
  fd_has_output :: bool
  fd_seq_last_output :: u16
  fd_next_id :: nat

definition fec_decoder_new :: fec_decoder where
  "fec_decoder_new = \<lparr>fd_config = None, fd_cached_packets = [], fd_has_output = False,
     fd_seq_last_output = 0, fd_next_id = 0\<rparr>"

definition FecDecoder_Create :: "fec_type \<Rightarrow> fec_decoder option" where
  "FecDecoder_Create t = (if t = kUlp then Some fec_decoder_new else None)"

definition fc_seq :: "fec_cached \<Rightarrow> u16" where "fc_seq c = sequence_number (fc_rtp_struct c)"

definition FecDecoderConfig_Configure ::
  "u16 \<Rightarrow> u32 \<Rightarrow> u8 \<Rightarrow> fec_decoder_config \<Rightarrow> (fec_error, fec_decoder_config) outcome" where
  "FecDecoderConfig_Configure d s pt c =
     (if payload_type_invalid pt then Failed Payload_Type_Invalid
      else Ok (c\<lparr>dec_max_cache_seq_difference := d, dec_ssrc := s, dec_payload_type := pt\<rparr>))"

definition FecDecoder_Configure ::
  "fec_decoder_config option \<Rightarrow> fec_decoder \<Rightarrow> (fec_error, fec_decoder) outcome" where
  "FecDecoder_Configure config d = (case config of
       None \<Rightarrow> Failed Config_Null
     | Some c \<Rightarrow> if payload_type_invalid (dec_payload_type c) then Failed Payload_Type_Invalid
         else Ok (d\<lparr>fd_config := Some c\<rparr>))"

section \<open>DecodeFecInfo\<close>

text \<open>\<open>emplace(key, false)\<close> keeps an entry that is already there.\<close>

fun emplace_false :: "u16 \<Rightarrow> (u16 \<times> bool) list \<Rightarrow> (u16 \<times> bool) list" where
  "emplace_false k [] = [(k, False)]"
| "emplace_false k ((k', v) # m) =
     (if k = k' then (k', v) # m else if k < k' then (k, False) # (k', v) # m
      else (k', v) # emplace_false k m)"

text \<open>The two loops over the mask, as one loop over the bits in order; \<open>i\<close> is
  \<open>8 * index_mask_byte + index_mask_bit\<close>.\<close>

definition decode_mask_bit :: "bytes \<Rightarrow> u16 \<Rightarrow> nat \<Rightarrow> (u16 \<times> bool) list \<Rightarrow> ('e, (u16 \<times> bool) list) outcome" where
  "decode_mask_bit buffer seq_base i m =
     obind (get_byte buffer (kFixedBufferLength + kUlpfecHeaderLength + 2 + i div 8)) (\<lambda>b.
       Ok (if drop_bit (i mod 8) 0x80 AND b \<noteq> 0 then emplace_false (seq_base + of_nat i) m else m))"

definition DecodeFecInfo :: "u8 \<Rightarrow> fec_cached \<Rightarrow> ('e, fec_cached) outcome" where
  "DecodeFecInfo fec_pt c =
     (if payload_type (fc_rtp_struct c) \<noteq> fec_pt then Ok (c\<lparr>fc_is_fec := False\<rparr>)
      else obind (get_byte (fc_rtp_buffer c) kFixedBufferLength) (\<lambda>b0.
        let mask_length = (if b0 AND 0x40 \<noteq> 0 then kUlpfecPacketMaskSizeLBitSet
                           else kUlpfecPacketMaskSizeLBitClear) in
        obind (read_be16 (fc_rtp_buffer c) (kFixedBufferLength + 2)) (\<lambda>seq_base.
        obind (ofold (decode_mask_bit (fc_rtp_buffer c) seq_base) [0..<8 * mask_length] (fc_protected c)) (\<lambda>m.
          Ok (c\<lparr>fc_is_fec := True, fc_protected := m\<rparr>)))))"

definition new_cached :: "nat \<Rightarrow> rtp_packet \<Rightarrow> bytes \<Rightarrow> fec_cached" where
  "new_cached i p b = \<lparr>fc_id = i, fc_rtp_struct = p, fc_rtp_buffer = b, fc_is_fec = False,
     fc_protected = [], fc_media_packets = [], fc_invalid_fec = False\<rparr>"

section \<open>CachePackets\<close>

text \<open>The search from the front; \<open>None\<close> when the number is already cached.\<close>

fun find_position :: "u16 \<Rightarrow> fec_cached list \<Rightarrow> nat option" where
  "find_position s [] = Some 0"
| "find_position s (c # cs) =
     (if fc_seq c = s then None else if IsSeqBefore s (fc_seq c) then Some 0
      else map_option Suc (find_position s cs))"

definition insert_at :: "nat \<Rightarrow> 'a \<Rightarrow> 'a list \<Rightarrow> 'a list" where
  "insert_at i x xs = take i xs @ x # drop i xs"

definition cache_packet :: "u8 \<Rightarrow> rtp_packet \<Rightarrow> fec_decoder \<Rightarrow> (fec_error, fec_decoder) outcome" where
  "cache_packet fill p d = (case fd_config d of None \<Rightarrow> Crash Null_Dereference | Some c \<Rightarrow>
     if dec_ssrc c \<noteq> ssrc p then Ok d
     else if fd_has_output d \<and> IsSeqBefore (sequence_number p) (fd_seq_last_output d) then Ok d
     else case find_position (sequence_number p) (fd_cached_packets d) of None \<Rightarrow> Ok d | Some i \<Rightarrow>
       obind (lift_rtp (LoadPacket fill p)) (\<lambda>b.
       obind (DecodeFecInfo (dec_payload_type c) (new_cached (fd_next_id d) p (db_contents b))) (\<lambda>new.
         Ok (d\<lparr>fd_cached_packets := insert_at i new (fd_cached_packets d), fd_next_id := fd_next_id d + 1\<rparr>))))"

definition CachePackets :: "u8 \<Rightarrow> rtp_packet list \<Rightarrow> fec_decoder \<Rightarrow> (fec_error, fec_decoder) outcome" where
  "CachePackets fill received_packets = ofold (cache_packet fill) received_packets"

section \<open>FecRecoverPacket\<close>

text \<open>One round of the loop over the media packets, on the recovered buffer and length.\<close>

definition xor_media :: "u16 \<Rightarrow> bytes \<Rightarrow> bytes \<times> bytes \<Rightarrow> ('e, bytes \<times> bytes) outcome" where
  "xor_media protection_length media s = (case s of (recovered, recovery_length) \<Rightarrow>
     obind (xor_from media 0 0 [0, 1, 4, 5, 6, 7] recovered) (\<lambda>recovered.
       let payload_size = media_length media; len = WriteBigEndian 2 payload_size;
           xor_length = unat (min payload_size protection_length) in
       if payload_size = 0 then Ok (recovered, recovery_length)
       else obind (xor_at 0 (len ! 0) recovery_length) (\<lambda>rl.
            obind (xor_at 1 (len ! 1) rl) (\<lambda>rl.
            omap (\<lambda>r. (r, rl)) (xor_from media kFixedBufferLength kFixedBufferLength [0..<xor_length] recovered)))))"

text \<open>The bytes of the recovered packet; \<open>None\<close> when the FEC packet is too short. A
  \<open>Protection_Length\<close> larger than the rest of the FEC packet is not refused.\<close>

definition recover_bytes ::
  "fec_decoder_config option \<Rightarrow> bytes \<Rightarrow> u16 \<Rightarrow> bytes list \<Rightarrow> ('e, bytes option) outcome" where
  "recover_bytes config fec recovered_seq media_packets =
     obind (get_byte fec kFixedBufferLength) (\<lambda>b0.
       let fec_packet_payload_length = media_length fec;
           header_length = kUlpfecHeaderLength + 2 + (if b0 AND 0x40 \<noteq> 0 then kUlpfecPacketMaskSizeLBitSet
                             else kUlpfecPacketMaskSizeLBitClear) in
       if unat fec_packet_payload_length \<le> header_length then Ok None else
       obind (read_be16 fec (kFixedBufferLength + kUlpfecHeaderLength)) (\<lambda>protection_length.
       if unat protection_length < unat fec_packet_payload_length - header_length then Ok None else
       obind (get_bytes fec kFixedBufferLength 8) (\<lambda>head.
       obind (get_bytes fec (kFixedBufferLength + header_length) (unat protection_length)) (\<lambda>payload.
       obind (get_bytes fec (kFixedBufferLength + 8) 2) (\<lambda>recovery_length.
       obind (ofold (xor_media protection_length) media_packets (head @ replicate 4 0 @ payload, recovery_length))
         (\<lambda>(recovered, recovery_length).
       case config of None \<Rightarrow> Crash Null_Dereference | Some c \<Rightarrow>
       obind (put_bytes 8 (WriteBigEndian 4 (dec_ssrc c)) recovered) (\<lambda>recovered.
       obind (put_bytes 2 (WriteBigEndian 2 recovered_seq) recovered) (\<lambda>recovered.
       obind (and_at 0 0x3f recovered) (\<lambda>recovered.
       obind (or_at 0 0x80 recovered) (\<lambda>recovered.
         Ok (Some (take (unat (ReadBigEndian recovery_length :: u16) + kFixedBufferLength) recovered))))))))))))"

definition FecRecoverPacket ::
  "fec_decoder_config option \<Rightarrow> nat \<Rightarrow> bytes \<Rightarrow> u16 \<Rightarrow> bytes list \<Rightarrow> ('e, fec_cached option) outcome" where
  "FecRecoverPacket config fresh fec recovered_seq media_packets =
     obind (recover_bytes config fec recovered_seq media_packets) (\<lambda>r. case r of None \<Rightarrow> Ok None | Some data \<Rightarrow>
       (case StorePacket rtp_empty data of
          Crash x \<Rightarrow> Crash x
        | Failed _ \<Rightarrow> Ok None
        | Ok p \<Rightarrow> if payload_buffer p = None then Ok None
            else case config of None \<Rightarrow> Crash Null_Dereference | Some c \<Rightarrow>
              omap Some (DecodeFecInfo (dec_payload_type c) (new_cached fresh p data))))"

section \<open>RcoverPackets\<close>

text \<open>
  The loop over the numbers a FEC packet protects: entries already received are skipped, the others
  are looked up in the cache. It stops at a number that has been put out already, which makes the FEC
  packet invalid for good, and at a number after the last cached one.
\<close>

record scan_result =
  sr_protected :: "(u16 \<times> bool) list"
  sr_media :: "nat list"
  sr_missing :: "u16 list"
  sr_valid :: bool
  sr_invalid_fec :: bool

definition scan_stop :: "(u16 \<times> bool) list \<Rightarrow> nat list \<Rightarrow> bool \<Rightarrow> scan_result" where
  "scan_stop es media invalid =
     \<lparr>sr_protected = es, sr_media = media, sr_missing = [], sr_valid = False, sr_invalid_fec = invalid\<rparr>"

fun scan_protected ::
  "bool \<Rightarrow> u16 \<Rightarrow> u16 \<Rightarrow> fec_cached list \<Rightarrow> (u16 \<times> bool) list \<Rightarrow> nat list \<Rightarrow> scan_result" where
  "scan_protected has_output seq_last_output last_seq cache [] media =
     \<lparr>sr_protected = [], sr_media = media, sr_missing = [], sr_valid = True, sr_invalid_fec = False\<rparr>"
| "scan_protected has_output seq_last_output last_seq cache ((s, r) # es) media =
     (if has_output \<and> \<not> IsSeqAfter seq_last_output s then scan_stop ((s, r) # es) media True
      else if IsSeqAfter last_seq s then scan_stop ((s, r) # es) media False
      else case (if r then None else find (\<lambda>c. fc_seq c = s) cache) of
        Some c \<Rightarrow>
          (let rest = scan_protected has_output seq_last_output last_seq cache es (media @ [fc_id c])
           in rest\<lparr>sr_protected := (s, True) # sr_protected rest\<rparr>)
      | None \<Rightarrow>
          (let rest = scan_protected has_output seq_last_output last_seq cache es media
           in rest\<lparr>sr_protected := (s, r) # sr_protected rest,
                   sr_missing := (if r then sr_missing rest else s # sr_missing rest)\<rparr>))"

text \<open>Access to a cached packet through a pointer.\<close>

definition fc_deref :: "fec_decoder \<Rightarrow> nat \<Rightarrow> ('e, fec_cached) outcome" where
  "fc_deref d i = (case find (\<lambda>c. fc_id c = i) (fd_cached_packets d) of
     None \<Rightarrow> Crash Null_Dereference | Some c \<Rightarrow> Ok c)"

definition fc_update :: "nat \<Rightarrow> (fec_cached \<Rightarrow> fec_cached) \<Rightarrow> fec_decoder \<Rightarrow> fec_decoder" where
  "fc_update i f d = d\<lparr>fd_cached_packets := map (\<lambda>c. if fc_id c = i then f c else c) (fd_cached_packets d)\<rparr>"

definition latest_cached_seq :: "fec_decoder \<Rightarrow> ('e, u16) outcome" where
  "latest_cached_seq d = (if fd_cached_packets d = [] then Crash Empty_Container
     else Ok (fc_seq (last (fd_cached_packets d))))"

definition insert_recovered :: "nat \<Rightarrow> fec_cached \<Rightarrow> fec_decoder \<Rightarrow> fec_decoder" where
  "insert_recovered fec new d = (case find_position (fc_seq new) (fd_cached_packets d) of
       None \<Rightarrow> d
     | Some i \<Rightarrow> fc_update fec (\<lambda>c. c\<lparr>fc_invalid_fec := True\<rparr>)
         (d\<lparr>fd_cached_packets := insert_at i new (fd_cached_packets d), fd_next_id := fd_next_id d + 1\<rparr>))"

text \<open>One round of the loop over the FEC packets. The test on \<open>seq_last_output_\<close> before recovering does
  not ask \<open>has_output_\<close>.\<close>

definition recover_from :: "u16 \<Rightarrow> nat \<Rightarrow> fec_decoder \<Rightarrow> ('e, fec_decoder) outcome" where
  "recover_from last_seq i d =
     obind (fc_deref d i) (\<lambda>fec.
       if fc_invalid_fec fec then Ok d else
       let r = scan_protected (fd_has_output d) (fd_seq_last_output d) last_seq (fd_cached_packets d)
                 (fc_protected fec) (fc_media_packets fec);
           d = fc_update i (\<lambda>c. c\<lparr>fc_protected := sr_protected r, fc_media_packets := sr_media r,
                 fc_invalid_fec := fc_invalid_fec c \<or> sr_invalid_fec r\<rparr>) d in
       if \<not> sr_valid r \<or> length (sr_missing r) \<noteq> 1 then Ok d else
       let seq_will_recover = hd (sr_missing r) in
       obind (latest_cached_seq d) (\<lambda>latest.
       if IsSeqBefore seq_will_recover (fd_seq_last_output d) \<or> IsSeqAfter latest seq_will_recover then Ok d else
       obind (omapM (fc_deref d) (sr_media r)) (\<lambda>media.
       obind (FecRecoverPacket (fd_config d) (fd_next_id d) (fc_rtp_buffer fec) seq_will_recover
                (map fc_rtp_buffer media)) (\<lambda>recovered.
         case recovered of None \<Rightarrow> Ok d | Some new \<Rightarrow>
           if fc_seq new \<noteq> seq_will_recover then Ok d else Ok (insert_recovered i new d)))))"

definition RcoverPackets :: "fec_decoder \<Rightarrow> ('e, fec_decoder) outcome" where
  "RcoverPackets d =
     obind (latest_cached_seq d) (\<lambda>last_seq.
       ofold (recover_from last_seq) (map fc_id (filter fc_is_fec (fd_cached_packets d))) d)"

section \<open>Decode and Flush\<close>

text \<open>The first loop: packets that have left the range are erased, and put out if they are new.\<close>

fun drain :: "u16 \<Rightarrow> u16 \<Rightarrow> bool \<Rightarrow> u16 \<Rightarrow> fec_cached list \<Rightarrow> rtp_packet list \<times> fec_cached list" where
  "drain latest max_diff has_output seq_last_output [] = ([], [])"
| "drain latest max_diff has_output seq_last_output (c # cs) =
     (if IsSeqBeforeInRange (fc_seq c) latest max_diff then ([], c # cs)
      else let (out, rest) = drain latest max_diff has_output seq_last_output cs in
        ((if \<not> has_output \<or> IsSeqAfter seq_last_output (fc_seq c) then [fc_rtp_struct c] else []) @ out, rest))"

text \<open>The second loop: copies of the packets that continue the output. A copy that fails is a null
  pointer, whose sequence number is read next.\<close>

fun continue_output ::
  "bool \<Rightarrow> u16 \<Rightarrow> fec_cached list \<Rightarrow> rtp_packet list \<Rightarrow> ('e, rtp_packet list) outcome" where
  "continue_output has_output seq_last_output [] recovered = Ok recovered"
| "continue_output has_output seq_last_output (c # cs) recovered =
     (if (if recovered = [] then has_output \<and> \<not> IsSeqAfter seq_last_output (fc_seq c)
          else \<not> IsNextSeq (sequence_number (last recovered)) (fc_seq c))
      then Ok recovered
      else case CreateCopy (fc_rtp_struct c) of
        Ok p \<Rightarrow> continue_output has_output seq_last_output cs (recovered @ [p])
      | Failed _ \<Rightarrow> Crash Null_Dereference
      | Crash x \<Rightarrow> Crash x)"

definition note_output :: "rtp_packet list \<Rightarrow> fec_decoder \<Rightarrow> fec_decoder" where
  "note_output out d = (if out = [] then d
     else d\<lparr>fd_has_output := True, fd_seq_last_output := sequence_number (last out)\<rparr>)"

definition output_packets :: "fec_decoder \<Rightarrow> rtp_packet list \<Rightarrow> ('e, rtp_packet list \<times> fec_decoder) outcome" where
  "output_packets d recovered =
     obind (latest_cached_seq d) (\<lambda>latest. case fd_config d of None \<Rightarrow> Crash Null_Dereference | Some c \<Rightarrow>
       let (old, rest) = drain latest (dec_max_cache_seq_difference c) (fd_has_output d)
             (fd_seq_last_output d) (fd_cached_packets d) in
       obind (continue_output (fd_has_output d) (fd_seq_last_output d) rest (recovered @ old)) (\<lambda>out.
         Ok (out, note_output out (d\<lparr>fd_cached_packets := rest\<rparr>))))"

text \<open>\<open>recovered_packets\<close> is the caller's list, to which the output is appended.\<close>

definition FecDecode ::
  "u8 \<Rightarrow> rtp_packet list \<Rightarrow> rtp_packet list \<Rightarrow> fec_decoder
    \<Rightarrow> (fec_error, rtp_packet list \<times> fec_decoder) outcome" where
  "FecDecode fill received_packets recovered_packets d =
     obind (CachePackets fill received_packets d) (\<lambda>d.
     obind (RcoverPackets d) (\<lambda>d. output_packets d recovered_packets))"

definition FecFlush :: "rtp_packet list \<Rightarrow> fec_decoder \<Rightarrow> rtp_packet list \<times> fec_decoder" where
  "FecFlush out d =
     (let out' = out @ map fc_rtp_struct (fd_cached_packets d)
      in (out', note_output out' (d\<lparr>fd_cached_packets := []\<rparr>)))"

end
