(* ===== verification/Fec_Parity.thy ===== *)
theory Fec_Parity
  imports Ulp_Fec_Decode "HOL-Library.Multiset"
begin

text \<open>
  Parity: the exclusive or of all packets of a group, and of all but one of them, give that one.
  The locale \<open>xor_group\<close> states the laws this rests on; the rest of the theory computes what the
  encoder's and the decoder's loops leave in each byte of their buffers in terms of its sum.
\<close>

locale xor_group =
  fixes add :: "'a \<Rightarrow> 'a \<Rightarrow> 'a" and zero :: 'a
  assumes add_assoc: "add (add a b) c = add a (add b c)"
    and add_commute: "add a b = add b a"
    and add_zero: "add a zero = a"
    and add_self: "add a a = zero"
begin

definition xsum :: "'a list \<Rightarrow> 'a" where "xsum xs = foldr add xs zero"

lemma xsum_simps [simp]: "xsum [] = zero" "xsum (x # xs) = add x (xsum xs)"
  by (simp_all add: xsum_def)

lemma add_left_commute: "add a (add b c) = add b (add a c)"
  by (metis add_assoc add_commute)

lemma xsum_remove1: "x \<in> set xs \<Longrightarrow> xsum xs = add x (xsum (remove1 x xs))"
  by (induction xs) (auto simp: add_left_commute)

lemma xsum_mset: "mset xs = mset ys \<Longrightarrow> xsum xs = xsum ys"
proof (induction xs arbitrary: ys)
  case Nil
  then show ?case by simp
next
  case (Cons x xs)
  have "x \<in> set ys" using Cons.prems by (metis list.set_intros(1) set_mset_mset)
  moreover have "mset xs = mset (remove1 x ys)" using Cons.prems by (metis add_mset_remove_trivial mset.simps(2) mset_remove1)
  ultimately have "xsum xs = xsum (remove1 x ys)" and "x \<in> set ys" by (auto intro: Cons.IH)
  then show ?case by (simp add: xsum_remove1 [of x ys])
qed

lemma add_cancel: "add (add a b) b = a"
  by (simp add: add_assoc add_self add_zero)

text \<open>The sum of all, plus the sum of all but \<open>x\<close>, is \<open>x\<close>.\<close>

lemma recover: "mset all = mset (x # others) \<Longrightarrow> add (xsum all) (xsum others) = x"
  using xsum_mset [of all "x # others"] by (simp add: add_cancel)

end

interpretation par: xor_group "(XOR) :: u8 \<Rightarrow> u8 \<Rightarrow> u8" 0
  by unfold_locales (auto simp: bit_eq_iff bit_xor_iff)

section \<open>Bytes after a write\<close>

lemma put_bytes_nth:
  assumes "put_bytes off bs m = Ok m'" and "i < length m"
  shows "m' ! i = (if off \<le> i \<and> i < off + length bs then bs ! (i - off) else m ! i)"
  using assms by (auto simp: put_bytes_def nth_append split: if_splits)

lemma xor_from_nth:
  assumes "\<forall>k \<in> set ks. soff + k < length src \<and> doff + k < length m" and "distinct ks"
  shows "\<exists>m'. xor_from src soff doff ks m = (Ok m' :: ('e, bytes) outcome) \<and> length m' = length m
    \<and> (\<forall>i < length m. m' ! i = m ! i XOR (if doff \<le> i \<and> i - doff \<in> set ks then src ! (soff + (i - doff)) else 0))"
  using assms
proof (induction ks arbitrary: m)
  case Nil
  then show ?case by (simp add: xor_from_def)
next
  case (Cons k ks)
  let ?m1 = "m[doff + k := m ! (doff + k) XOR src ! (soff + k)]"
  obtain m' where m': "xor_from src soff doff ks ?m1 = (Ok m' :: ('e, bytes) outcome)" "length m' = length m"
    "\<forall>i < length m. m' ! i = ?m1 ! i XOR (if doff \<le> i \<and> i - doff \<in> set ks then src ! (soff + (i - doff)) else 0)"
    using Cons.IH [of ?m1] Cons.prems by auto
  have "xor_from src soff doff (k # ks) m = (Ok m' :: ('e, bytes) outcome)"
    using m'(1) Cons.prems by (simp add: xor_from_def get_byte_def xor_at_def)
  moreover have "m' ! i = m ! i XOR (if doff \<le> i \<and> i - doff \<in> set (k # ks) then src ! (soff + (i - doff)) else 0)"
    if "i < length m" for i
    using m'(3) that Cons.prems by (auto simp: nth_list_update)
  ultimately show ?case using m'(2) by blast
qed

section \<open>What one packet contributes to byte \<open>i\<close>\<close>

definition xor_val :: "nat \<Rightarrow> bytes \<Rightarrow> nat \<Rightarrow> u8" where
  "xor_val base b i =
     (if i \<in> {0, 1, 4, 5, 6, 7} then b ! i
      else if i = 8 then WriteBigEndian 2 (media_length b) ! 0
      else if i = 9 then WriteBigEndian 2 (media_length b) ! 1
      else if base \<le> i \<and> i - base < length b - 12 then b ! (12 + (i - base)) else 0)"

lemma media_length_unat: "12 \<le> length b \<Longrightarrow> length b - 12 < 65536 \<Longrightarrow> unat (media_length b) = length b - 12"
proof -
  assume b: "12 \<le> length b" "length b - 12 < 65536"
  have "(of_nat (length b) :: u16) - of_nat 12 = of_nat (length b - 12)" using b(1) by (simp only: of_nat_diff)
  then have "media_length b = of_nat (length b - 12)" by (simp add: media_length_def kFixedBufferLength_def)
  then show ?thesis using b(2) by (simp add: unat_of_nat del: of_nat_diff)
qed

lemma xor_val_shift: "10 \<le> base \<Longrightarrow> 12 \<le> i \<Longrightarrow> xor_val base b (base + (i - 12)) = xor_val 12 b i"
  by (auto simp: xor_val_def)

text \<open>A packet the encoder accepts: a whole fixed header, and at most 32767 bytes after it.\<close>

definition fec_size_ok :: "bytes \<Rightarrow> bool" where
  "fec_size_ok b \<longleftrightarrow> 12 \<le> length b \<and> length b - 12 \<le> 32767"

section \<open>The encoder's buffer\<close>

text \<open>The buffer after one packet: parity everywhere but in the mask, where the packet's bit is set.\<close>

definition mask_val :: "nat \<Rightarrow> nat \<Rightarrow> u8" where
  "mask_val d i = (if i = 12 + d div 8 then drop_bit (d mod 8) 0x80 else 0)"

lemma xor_header:
  assumes "12 \<le> length b" and "12 \<le> length m"
  shows "\<exists>m'. xor_from b 0 0 [0, 1, 4, 5, 6, 7] m = (Ok m' :: ('e, bytes) outcome) \<and> length m' = length m
    \<and> (\<forall>i < length m. m' ! i = m ! i XOR (if i \<in> {0, 1, 4, 5, 6, 7} then b ! i else 0))"
proof -
  have "\<forall>k \<in> set [0, 1, 4, 5, 6, 7]. 0 + k < length b \<and> 0 + k < length m" using assms by auto
  moreover have "distinct [0, 1, 4, 5, 6, 7 :: nat]" by simp
  ultimately show ?thesis
    using xor_from_nth [of "[0, 1, 4, 5, 6, 7]" 0 b 0 m, where 'e = 'e]
    by (simp only: le0 add_0 minus_nat.diff_0 list.set simp_thms)
qed

lemma xor_at_nth:
  "off < length m \<Longrightarrow> \<exists>m'. xor_at off v m = (Ok m' :: ('e, bytes) outcome) \<and> length m' = length m
    \<and> (\<forall>i < length m. m' ! i = m ! i XOR (if i = off then v else 0))"
  by (auto simp: xor_at_def nth_list_update)

lemma xor_payload_nth:
  assumes "fec_size_ok b" and "base + (length b - 12) \<le> length m"
  shows "\<exists>m'. xor_payload b (media_length b) base m = (Ok m' :: ('e, bytes) outcome) \<and> length m' = length m
    \<and> (\<forall>i < length m. m' ! i = m ! i XOR (if base \<le> i \<and> i - base < length b - 12 then b ! (12 + (i - base)) else 0))"
proof -
  have len: "unat (media_length b) = length b - 12" using assms(1) by (simp add: fec_size_ok_def media_length_unat)
  have "\<forall>k \<in> set [0..<length b - 12]. 12 + k < length b \<and> base + k < length m" using assms(2) by auto
  then show ?thesis
    using xor_from_nth [of "[0..<length b - 12]" 12 b base m, where 'e = 'e] assms(1)
    by (simp add: xor_payload_def len fec_size_ok_def kFixedBufferLength_def)
qed

lemma add_to_fec_nth:
  assumes "fec_size_ok b" and "base = 12 + pms" and "base + (length b - 12) \<le> length m"
    and d: "d = unat (ucast (DiffSeq seq_base (sequence_number p)) :: u8)" and "d div 8 < pms"
  shows "\<exists>m'. add_to_fec seq_base pms (p, b) m = (Ok m' :: ('e, bytes) outcome) \<and> length m' = length m
    \<and> (\<forall>i < length m. m' ! i = (m ! i XOR xor_val base b i) OR mask_val d i)"
proof -
  have b: "12 \<le> length b" and m: "12 \<le> length m" "8 < length m" "9 < length m" "base \<le> length m"
    using assms by (auto simp: fec_size_ok_def)
  let ?len = "WriteBigEndian 2 (media_length b)"
  obtain m1 where 1: "xor_from b 0 0 [0, 1, 4, 5, 6, 7] m = (Ok m1 :: ('e, bytes) outcome)" "length m1 = length m"
    "\<forall>i < length m. m1 ! i = m ! i XOR (if i \<in> {0, 1, 4, 5, 6, 7} then b ! i else 0)"
    using xor_header [OF b m(1)] by blast
  obtain m2 where 2: "xor_at 8 (?len ! 0) m1 = (Ok m2 :: ('e, bytes) outcome)" "length m2 = length m"
    "\<forall>i < length m. m2 ! i = m1 ! i XOR (if i = 8 then ?len ! 0 else 0)"
    using xor_at_nth [of 8 m1 "?len ! 0"] 1(2) m by auto
  obtain m3 where 3: "xor_at 9 (?len ! 1) m2 = (Ok m3 :: ('e, bytes) outcome)" "length m3 = length m"
    "\<forall>i < length m. m3 ! i = m2 ! i XOR (if i = 9 then ?len ! 1 else 0)"
    using xor_at_nth [of 9 m2 "?len ! 1"] 2(2) m by auto
  obtain m4 where 4: "xor_payload b (media_length b) base m3 = (Ok m4 :: ('e, bytes) outcome)" "length m4 = length m"
    "\<forall>i < length m. m4 ! i = m3 ! i XOR (if base \<le> i \<and> i - base < length b - 12 then b ! (12 + (i - base)) else 0)"
    using xor_payload_nth [OF assms(1), of base m3] 3(2) assms(3) by auto
  define m5 where "m5 = m4[12 + d div 8 := m4 ! (12 + d div 8) OR drop_bit (d mod 8) 0x80]"
  have 5: "or_at (12 + d div 8) (drop_bit (d mod 8) 0x80) m4 = (Ok m5 :: ('e, bytes) outcome)" "length m5 = length m"
    using assms(2,5) m(4) 4(2) by (auto simp: or_at_def m5_def)
  have "add_to_fec seq_base pms (p, b) m = (Ok m5 :: ('e, bytes) outcome)"
    using 1(1) 2(1) 3(1) 4(1) 5(1) assms(2) d by (simp add: add_to_fec_def Let_def kUlpfecHeaderLength_def)
  moreover have "m4 ! i = m ! i XOR xor_val base b i" if "i < length m" for i
    using that 1(3) 2(3) 3(3) 4(3) assms(2) by (auto simp: xor_val_def)
  moreover have "m5 ! i = m4 ! i OR mask_val d i" if "i < length m" for i
    using that 4(2) by (auto simp: m5_def mask_val_def nth_list_update)
  ultimately show ?thesis using 5(2) by metis
qed

text \<open>The distance of a packet from the base number, and what the loop over the group leaves.\<close>

definition fec_dist :: "u16 \<Rightarrow> rtp_packet_data \<Rightarrow> nat" where
  "fec_dist seq_base x = unat (ucast (DiffSeq seq_base (sequence_number (fst x))) :: u8)"

definition group_xor :: "nat \<Rightarrow> bytes list \<Rightarrow> nat \<Rightarrow> u8" where
  "group_xor base bs i = par.xsum (map (\<lambda>b. xor_val base b i) bs)"

lemma group_xor_simps [simp]:
  "group_xor base [] i = 0" "group_xor base (b # bs) i = xor_val base b i XOR group_xor base bs i"
  by (simp_all add: group_xor_def)

lemma group_xor_unused: "i \<in> {2, 3, 10, 11} \<Longrightarrow> 12 \<le> base \<Longrightarrow> group_xor base bs i = 0"
  by (induction bs) (auto simp: xor_val_def)

lemma xor_val_mask: "12 \<le> i \<Longrightarrow> i < base \<Longrightarrow> xor_val base b i = 0"
  by (auto simp: xor_val_def)

lemma mask_val_outside: "i < 12 \<or> 12 + pms \<le> i \<Longrightarrow> d div 8 < pms \<Longrightarrow> mask_val d i = 0"
  by (auto simp: mask_val_def)

definition group_fits :: "nat \<Rightarrow> u16 \<Rightarrow> rtp_packet_data list \<Rightarrow> nat \<Rightarrow> bool" where
  "group_fits pms seq_base grp n \<longleftrightarrow> (\<forall>x \<in> set grp. fec_size_ok (snd x)
     \<and> 12 + pms + (length (snd x) - 12) \<le> n \<and> fec_dist seq_base x div 8 < pms)"

text \<open>\<open>m'\<close> is \<open>m\<close> after the loop over \<open>grp\<close>: parity outside the mask, and in the mask the bits of the group.\<close>

definition fec_filled :: "nat \<Rightarrow> u16 \<Rightarrow> rtp_packet_data list \<Rightarrow> bytes \<Rightarrow> bytes \<Rightarrow> bool" where
  "fec_filled pms seq_base grp m m' \<longleftrightarrow> length m' = length m
     \<and> (\<forall>i < length m. (i < 12 \<or> 12 + pms \<le> i) \<longrightarrow> m' ! i = m ! i XOR group_xor (12 + pms) (map snd grp) i)
     \<and> (\<forall>i < length m. 12 \<le> i \<and> i < 12 + pms \<longrightarrow>
          (\<forall>k. bit (m' ! i) k \<longleftrightarrow> bit (m ! i) k \<or> (\<exists>x \<in> set grp. bit (mask_val (fec_dist seq_base x) i) k)))"

lemma fec_filledD:
  assumes "fec_filled pms seq_base grp m m'"
  shows "length m' = length m"
    and "i < length m \<Longrightarrow> i < 12 \<or> 12 + pms \<le> i \<Longrightarrow> m' ! i = m ! i XOR group_xor (12 + pms) (map snd grp) i"
    and "i < length m \<Longrightarrow> 12 \<le> i \<Longrightarrow> i < 12 + pms \<Longrightarrow>
      bit (m' ! i) k \<longleftrightarrow> bit (m ! i) k \<or> (\<exists>x \<in> set grp. bit (mask_val (fec_dist seq_base x) i) k)"
  using assms unfolding fec_filled_def by blast+

lemma add_all_nth:
  assumes "group_fits pms seq_base grp (length m)"
  shows "\<exists>m'. ofold (add_to_fec seq_base pms) grp m = (Ok m' :: ('e, bytes) outcome) \<and> fec_filled pms seq_base grp m m'"
  using assms
proof (induction grp arbitrary: m)
  case Nil
  then show ?case by (simp add: fec_filled_def)
next
  case (Cons x grp)
  obtain p b where x: "x = (p, b)" by (cases x)
  have fits: "fec_size_ok b" "12 + pms + (length b - 12) \<le> length m" "fec_dist seq_base x div 8 < pms"
    using Cons.prems x by (auto simp: group_fits_def)
  obtain m1 where 1: "add_to_fec seq_base pms (p, b) m = (Ok m1 :: ('e, bytes) outcome)" "length m1 = length m"
    "\<forall>i < length m. m1 ! i = (m ! i XOR xor_val (12 + pms) b i) OR mask_val (fec_dist seq_base x) i"
    using add_to_fec_nth [OF fits(1) refl fits(2) _ fits(3), where p = p and seq_base = seq_base] x
    by (auto simp: fec_dist_def)
  have "group_fits pms seq_base grp (length m1)" using Cons.prems 1(2) by (simp add: group_fits_def)
  then obtain m' where m': "ofold (add_to_fec seq_base pms) grp m1 = (Ok m' :: ('e, bytes) outcome)"
    and filled: "fec_filled pms seq_base grp m1 m'"
    using Cons.IH by blast
  note D = fec_filledD [OF filled, unfolded 1(2)]
  have "m' ! i = m ! i XOR group_xor (12 + pms) (map snd (x # grp)) i"
    if "i < length m" "i < 12 \<or> 12 + pms \<le> i" for i
    using D(2) [OF that] 1(3) that mask_val_outside [OF that(2) fits(3)] x by (simp add: xor.assoc)
  moreover have "bit (m' ! i) k \<longleftrightarrow> bit (m ! i) k \<or> (\<exists>y \<in> set (x # grp). bit (mask_val (fec_dist seq_base y) i) k)"
    if "i < length m" "12 \<le> i" "i < 12 + pms" for i k
    using D(3) [OF that] 1(3) that xor_val_mask [of i "12 + pms" b] by (auto simp: bit_or_iff)
  ultimately have "fec_filled pms seq_base (x # grp) m m'" using D(1) unfolding fec_filled_def by blast
  then show ?case using 1(1) m' x by simp
qed

section \<open>The finished FEC payload\<close>

definition fec_long :: "rtp_packet_data list \<Rightarrow> bool" where
  "fec_long grp \<longleftrightarrow> 16 < fec_dist (sequence_number (fst (hd grp))) (last grp) + 1"

definition fec_mask_bytes :: "rtp_packet_data list \<Rightarrow> nat" where
  "fec_mask_bytes grp = (if fec_long grp then 6 else 2)"

text \<open>A group the encoder builds: not empty, in the order of the numbers, over less than 48 numbers.\<close>

definition fec_group :: "rtp_packet_data list \<Rightarrow> bool" where
  "fec_group grp \<longleftrightarrow> grp \<noteq> [] \<and> (\<forall>x \<in> set grp. fec_size_ok (snd x)
     \<and> fec_dist (sequence_number (fst (hd grp))) x \<le> fec_dist (sequence_number (fst (hd grp))) (last grp))
     \<and> fec_dist (sequence_number (fst (hd grp))) (last grp) < 48"

lemma fec_group_fits:
  assumes "fec_group grp" and "\<forall>x \<in> set grp. length (snd x) - 12 \<le> n"
  shows "group_fits (fec_mask_bytes grp) (sequence_number (fst (hd grp))) grp (12 + fec_mask_bytes grp + n)"
proof -
  let ?d = "fec_dist (sequence_number (fst (hd grp)))"
  have "?d x div 8 < fec_mask_bytes grp" if "x \<in> set grp" for x
  proof -
    have "?d x \<le> ?d (last grp)" "?d (last grp) < 48" using assms(1) that by (auto simp: fec_group_def)
    then show ?thesis by (auto simp: fec_mask_bytes_def fec_long_def)
  qed
  then show ?thesis using assms by (auto simp: group_fits_def fec_group_def)
qed

text \<open>Every byte of the payload of the FEC packet: the header with the parity of the media headers and
  lengths, the base number and the length, the mask of the group, and the parity of the payloads.\<close>

definition fec_image :: "rtp_packet_data list \<Rightarrow> u16 \<Rightarrow> bytes \<Rightarrow> bool" where
  "fec_image grp n m \<longleftrightarrow>
     (let pms = fec_mask_bytes grp; parity = group_xor (12 + pms) (map snd grp);
          seq_base = sequence_number (fst (hd grp)) in
      length m = 12 + pms + unat n
      \<and> m ! 0 = parity 0 AND 0x3f OR (if fec_long grp then 0x40 else 0)
      \<and> take 2 (drop 2 m) = WriteBigEndian 2 seq_base \<and> take 2 (drop 10 m) = WriteBigEndian 2 n
      \<and> (\<forall>i < length m. i \<in> {1, 4, 5, 6, 7, 8, 9} \<or> 12 + pms \<le> i \<longrightarrow> m ! i = parity i)
      \<and> (\<forall>i < length m. 12 \<le> i \<and> i < 12 + pms \<longrightarrow>
           (\<forall>k. bit (m ! i) k \<longleftrightarrow> (\<exists>x \<in> set grp. bit (mask_val (fec_dist seq_base x) i) k))))"

lemma take_2_drop: "i + 1 < length m \<Longrightarrow> take 2 (drop i m) = [m ! i, m ! (i + 1)]"
  by (simp add: numeral_2_eq_2 take_Suc_conv_app_nth)

lemma WriteBigEndian_2_nth: "[WriteBigEndian 2 w ! 0, WriteBigEndian 2 w ! 1] = WriteBigEndian 2 w"
  by (simp add: WriteBigEndian_2)

text \<open>The zeroed payload with its protection length, and what the encoder does to it once the protected
packets are added: the base sequence number and the size bit of the mask.\<close>

definition blank_payload :: "nat \<Rightarrow> u16 \<Rightarrow> bytes" where
  "blank_payload pms n = replicate 10 (0::u8) @ WriteBigEndian 2 n @ replicate (pms + unat n) 0"

definition finish_payload :: "bytes \<Rightarrow> bool \<Rightarrow> bytes \<Rightarrow> bytes" where
  "finish_payload sn long m = m[2 := m ! 2 XOR sn ! 0, 3 := m ! 3 XOR sn ! 1,
     0 := m ! 0 AND 0x3f OR (if long then 0x40 else 0)]"

lemma fec_image_of_filled:
  assumes filled: "fec_filled (fec_mask_bytes grp) (sequence_number (fst (hd grp))) grp (blank_payload (fec_mask_bytes grp) n) m1"
  shows "fec_image grp n (finish_payload (WriteBigEndian 2 (sequence_number (fst (hd grp)))) (fec_long grp) m1)"
proof -
  define pms where "pms = fec_mask_bytes grp"
  define sb where "sb = sequence_number (fst (hd grp))"
  define sn where "sn = WriteBigEndian 2 sb"
  define par where "par = group_xor (12 + pms) (map snd grp)"
  define m0 where "m0 = blank_payload pms n"
  define m where "m = finish_payload sn (fec_long grp) m1"
  have len0: "length m0 = 12 + pms + unat n" by (simp add: m0_def blank_payload_def)
  note D = fec_filledD [OF filled, folded pms_def, folded m0_def, folded sb_def]
  have zero: "m0 ! i = 0" if "i < length m0" "i \<notin> {10, 11}" for i
    using that by (auto simp: m0_def blank_payload_def nth_append simp del: replicate_numeral)
  have m: "length m = length m0" using D(1) by (simp add: m_def finish_payload_def)
  have same: "m ! i = m1 ! i" if "i \<notin> {0, 2, 3}" for i using that by (simp add: m_def finish_payload_def)
  have par0: "par i = 0" if "i \<in> {2, 3, 10, 11}" for i
    using that group_xor_unused [of i "12 + pms"] by (simp add: par_def)
  have at: "m1 ! i = par i" if "i < length m0" "i \<notin> {10, 11}" "i < 12 \<or> 12 + pms \<le> i" for i
    using D(2) [OF that(1,3)] zero [OF that(1,2)] by (simp add: par_def)
  have "m0 ! 10 = WriteBigEndian 2 n ! 0" "m0 ! 11 = WriteBigEndian 2 n ! 1"
    by (simp_all add: m0_def blank_payload_def nth_append del: replicate_numeral)
  then have "m ! 10 = WriteBigEndian 2 n ! 0" "m ! 11 = WriteBigEndian 2 n ! 1"
    using D(2) [of 10] D(2) [of 11] par0 len0 same by (simp_all add: par_def)
  then have lens: "take 2 (drop 10 m) = WriteBigEndian 2 n"
    using take_2_drop [of 10 m] m len0 by (simp add: WriteBigEndian_2)
  have "m ! 2 = sn ! 0" "m ! 3 = sn ! 1"
    using at [of 2] at [of 3] par0 len0 D(1) by (simp_all add: m_def finish_payload_def)
  then have base: "take 2 (drop 2 m) = WriteBigEndian 2 sb"
    using take_2_drop [of 2 m] m len0 by (simp add: sn_def WriteBigEndian_2)
  have head: "m ! 0 = par 0 AND 0x3f OR (if fec_long grp then 0x40 else 0)"
    using at [of 0] len0 D(1) by (simp add: m_def finish_payload_def)
  have body: "m ! i = par i" if "i < length m" "i \<in> {1, 4, 5, 6, 7, 8, 9} \<or> 12 + pms \<le> i" for i
    using at [of i] same [of i] that m by auto
  have "bit (m ! i) k \<longleftrightarrow> (\<exists>x \<in> set grp. bit (mask_val (fec_dist sb x) i) k)"
    if i: "i < length m" "12 \<le> i" "i < 12 + pms" for i k
    using D(3) [of i k] zero [of i] same [of i] i m by auto
  moreover have "length m = 12 + pms + unat n" using m len0 by simp
  ultimately have "fec_image grp n m"
    using head base lens body
    unfolding fec_image_def Let_def sb_def [symmetric] pms_def [symmetric] par_def [symmetric] by blast
  then show ?thesis by (simp add: m_def sn_def sb_def)
qed

lemma fec_payload_of_image:
  assumes g: "fec_group grp" and n: "\<forall>x \<in> set grp. length (snd x) - 12 \<le> unat n"
  shows "\<exists>m. fec_payload_of grp n = (Ok m :: ('e, bytes) outcome) \<and> fec_image grp n m"
proof -
  define pms where "pms = fec_mask_bytes grp"
  define sb where "sb = sequence_number (fst (hd grp))"
  define sn where "sn = WriteBigEndian 2 sb"
  define m0 where "m0 = blank_payload pms n"
  have pms: "pms = (if fec_long grp then 6 else 2)" by (simp add: pms_def fec_mask_bytes_def)
  have len0: "length m0 = 12 + pms + unat n" by (simp add: m0_def blank_payload_def)
  have start: "put_bytes 10 (WriteBigEndian 2 n) (replicate (unat n + 10 + 2 + pms) 0) = (Ok m0 :: ('e, bytes) outcome)"
    by (simp add: put_bytes_def m0_def blank_payload_def ac_simps del: replicate_numeral)
  have "group_fits pms sb grp (length m0)"
    using fec_group_fits [OF g n] len0 by (simp add: pms_def sb_def)
  then obtain m1 where 1: "ofold (add_to_fec sb pms) grp m0 = (Ok m1 :: ('e, bytes) outcome)"
    and filled: "fec_filled pms sb grp m0 m1"
    using add_all_nth by blast
  have long: "(2 * 8 < unat (ucast (DiffSeq sb (sequence_number (fst (last grp)))) :: u8) + 1) = fec_long grp"
    by (simp add: fec_long_def fec_dist_def sb_def)
  define T :: "bytes \<Rightarrow> ('e, bytes) outcome" where
    "T = (\<lambda>m. obind (xor_at 2 (sn ! 0) m) (\<lambda>m. obind (xor_at 3 (sn ! 1) m) (\<lambda>m.
       obind (and_at 0 0x3f m) (\<lambda>m. if fec_long grp then or_at 0 0x40 m else Ok m))))"
  have "12 \<le> length m1" using fec_filledD(1) [OF filled] len0 by simp
  then have "0 < length m1" "2 < length m1" "3 < length m1" by linarith+
  then have "T m1 = Ok (finish_payload sn (fec_long grp) m1)"
    by (simp add: T_def xor_at_def and_at_def or_at_def finish_payload_def)
  moreover have "grp \<noteq> []" using g by (simp add: fec_group_def)
  then have "fec_payload_of grp n = obind (put_bytes 10 (WriteBigEndian 2 n) (replicate (unat n + 10 + 2 + pms) 0))
      (\<lambda>m. obind (ofold (add_to_fec sb pms) grp m) T)"
    unfolding fec_payload_of_def Let_def ulpfec_constants kUlpfecHeaderLength_def sb_def [symmetric] long
      pms [symmetric] T_def sn_def by simp
  ultimately show ?thesis
    using start 1 fec_image_of_filled [of grp n m1] filled by (simp add: pms_def sb_def sn_def m0_def)
qed

end
