(* ===== verification/Rtp_Codec.thy ===== *)
theory Rtp_Codec
  imports Rtp_Packet
begin

text \<open>
  Correctness of the RTP packet: \<open>LoadPacket\<close> produces the reference image and initialises
  every byte of it, the parser never reads outside the datagram and accounts for every byte it
  accepts, and the round trips (and the two defects that limit them).
\<close>

section \<open>LoadPacket refines the reference image\<close>

text \<open>
  \<open>emits m bs\<close>: run from any writer that has written \<open>pre\<close> and has room for \<open>bs\<close>, the write
  operation \<open>m\<close> succeeds and appends exactly \<open>bs\<close>. The rule for sequencing composes writers.
\<close>

definition emits :: "(writer \<Rightarrow> (rtp_error, writer) outcome) \<Rightarrow> bytes \<Rightarrow> bool" where
  "emits m bs \<longleftrightarrow> (\<forall>p b pre. written b p pre \<and> length pre + length bs \<le> unat (db_size b) \<longrightarrow>
     (\<exists>p' b'. m (p, b) = Ok (p', b') \<and> written b' p' (pre @ bs) \<and> db_size b' = db_size b))"

named_theorems emits_intros \<open>what each write operation appends\<close>

lemma emits_emit [emits_intros]: "emits (emit data) data"
proof -
  have "\<exists>p' b'. emit data (p, b) = Ok (p', b') \<and> written b' p' (pre @ data) \<and> db_size b' = db_size b"
    if w: "written b p pre" "length pre + length data \<le> unat (db_size b)" for p b pre
  proof -
    obtain b' where "db_modify_at p data b = (Ok (True, b') :: (rtp_error, bool \<times> data_buffer) outcome)"
      and "written b' (p + of_nat (length data)) (pre @ data)" and "db_size b' = db_size b"
      using written_modify_at [OF w] by blast
    then show ?thesis by (simp add: emit_def)
  qed
  then show ?thesis by (auto simp: emits_def)
qed

lemma emits_fill [emits_intros]: "emits (emit_fill v n) (replicate (unat n) v)"
proof -
  have "\<exists>p' b'. emit_fill v n (p, b) = Ok (p', b') \<and> written b' p' (pre @ replicate (unat n) v)
      \<and> db_size b' = db_size b"
    if w: "written b p pre" "length pre + unat n \<le> unat (db_size b)" for p b pre
  proof -
    obtain b' where "db_mem_set p v n b = (Ok (True, b') :: (rtp_error, bool \<times> data_buffer) outcome)"
      and "written b' (p + n) (pre @ replicate (unat n) v)" and "db_size b' = db_size b"
      using written_mem_set [OF w] by blast
    then show ?thesis by (simp add: emit_fill_def)
  qed
  then show ?thesis by (auto simp: emits_def)
qed

lemma emits_Ok [emits_intros]: "emits Ok []"
  by (auto simp: emits_def)

lemma emits_obind [emits_intros]:
  assumes "emits m xs" and "emits k ys"
  shows "emits (\<lambda>w. obind (m w) k) (xs @ ys)"
  unfolding emits_def
proof (intro allI impI)
  fix p b pre
  assume w: "written b p pre \<and> length pre + length (xs @ ys) \<le> unat (db_size b)"
  then obtain p1 b1 where 1: "m (p, b) = Ok (p1, b1)" "written b1 p1 (pre @ xs)" "db_size b1 = db_size b"
    using assms(1) unfolding emits_def by fastforce
  moreover have "length (pre @ xs) + length ys \<le> unat (db_size b1)" using w 1 by simp
  ultimately obtain p2 b2 where "k (p1, b1) = Ok (p2, b2)" "written b2 p2 ((pre @ xs) @ ys)"
    "db_size b2 = db_size b1"
    using assms(2) unfolding emits_def by blast
  with 1 show "\<exists>p' b'. obind (m (p, b)) k = Ok (p', b') \<and> written b' p' (pre @ xs @ ys)
      \<and> db_size b' = db_size b"
    by auto
qed

lemma emits_ofold [emits_intros]: "(\<And>x. emits (f x) (g x)) \<Longrightarrow> emits (ofold f xs) (concat (map g xs))"
proof (induction xs)
  case Nil
  have "ofold f [] = Ok" by (rule ext) simp
  then show ?case by (simp add: emits_Ok)
next
  case (Cons x xs)
  have "ofold f (x # xs) = (\<lambda>w. obind (f x w) (ofold f xs))" by (rule ext) simp
  then show ?case using emits_obind [OF Cons.prems Cons.IH] Cons.prems by simp
qed

lemma emits_each [emits_intros]: "emits (emit_each data) data"
proof -
  have "emits (ofold (\<lambda>b. emit [b]) data) (concat (map (\<lambda>b. [b]) data))"
    by (intro emits_intros)
  then show ?thesis by (simp add: emit_each_def)
qed

lemma emits_extension [emits_intros]: "emits (emit_extension ext) (extension_image ext)"
proof (cases ext)
  case None
  then have "emit_extension ext = Ok" by (intro HOL.ext) (simp add: emit_extension_def)
  then show ?thesis using None by (simp add: extension_image_def emits_Ok)
next
  case (Some e)
  then have "emit_extension ext = (\<lambda>w. obind (emit [fst (ext_name e), snd (ext_name e)] w) (\<lambda>w.
      obind (emit_each (WriteBigEndian 2 (ext_length e)) w) (emit (ext_content e))))"
    by (intro HOL.ext) (simp add: emit_extension_def)
  moreover have "emits \<dots> ([fst (ext_name e), snd (ext_name e)] @ WriteBigEndian 2 (ext_length e)
      @ ext_content e)"
    by (intro emits_intros)
  ultimately show ?thesis using Some by (simp add: extension_image_def)
qed

lemma emits_payload [emits_intros]:
  "emits (\<lambda>w. case body of None \<Rightarrow> Ok w | Some b \<Rightarrow> emit b w) (case body of None \<Rightarrow> [] | Some b \<Rightarrow> b)"
  by (cases body) (simp_all add: emits_intros)

lemma emits_padding [emits_intros]: "emits (emit_padding pad) (padding_image pad)"
proof (cases "pad > 0")
  case True
  then have "1 \<le> unat pad" by (simp add: word_less_nat_alt)
  then have "unat (ucast pad - 1 :: u32) = unat pad - 1"
    by (simp add: unat_sub_if_size word_size word_le_nat_alt)
  then have "padding_image pad = replicate (unat (ucast pad - 1 :: u32)) 0 @ replicate (unat (1::u32)) pad"
    using True by (simp add: padding_image_def)
  moreover have "emit_padding pad = (\<lambda>w. obind (emit_fill 0 (ucast pad - 1) w) (emit_fill pad 1))"
    using True by (intro HOL.ext) (simp add: emit_padding_def)
  ultimately show ?thesis by (simp only:) (intro emits_intros)
next
  case False
  then have "emit_padding pad = Ok" by (intro HOL.ext) (simp add: emit_padding_def)
  then show ?thesis using False by (simp add: padding_image_def emits_Ok)
qed

lemma LoadPacket_image:
  assumes "rtp_wf p"
  shows "\<exists>b. LoadPacket fill p = Ok b \<and> db_ok b \<and> db_contents b = rtp_image p"
proof -
  define n :: u32 where "n = of_nat (rtp_buffer_length p)"
  have n: "unat n = length (rtp_image p)"
    using assms by (simp add: rtp_wf_def n_def length_rtp_image unat_of_nat)
  define m where "m = (\<lambda>w. obind (emit [rtp_head p] w) (\<lambda>w. obind (emit [octet_m_pt p] w) (\<lambda>w.
        obind (emit_each (WriteBigEndian 2 (sequence_number p)) w) (\<lambda>w.
        obind (emit_each (WriteBigEndian 4 (timestamp p)) w) (\<lambda>w.
        obind (emit_each (WriteBigEndian 4 (ssrc p)) w) (\<lambda>w.
        obind (ofold (\<lambda>c. emit_each (WriteBigEndian 4 c)) (csrcs p) w) (\<lambda>w.
        obind (emit_extension (extension p) w) (\<lambda>w.
        obind (case payload_buffer p of None \<Rightarrow> Ok w | Some b \<Rightarrow> emit b w) (emit_padding (pad_size p))))))))))"
  have "emits m ([rtp_head p] @ [octet_m_pt p] @ WriteBigEndian 2 (sequence_number p)
      @ WriteBigEndian 4 (timestamp p) @ WriteBigEndian 4 (ssrc p)
      @ concat (map (WriteBigEndian 4) (csrcs p)) @ extension_image (extension p)
      @ (case payload_buffer p of None \<Rightarrow> [] | Some b \<Rightarrow> b) @ padding_image (pad_size p))"
    unfolding m_def by (intro emits_intros)
  then have "emits m (rtp_image p)"
    by (simp add: rtp_image_def fixed_image_def payload_bytes_def)
  moreover have "written (db_set_size n (db_create fill n)) 0 []" by (rule written_create)
  moreover have "db_size (db_set_size n (db_create fill n)) = n"
    by (simp add: db_set_size_def db_create_def)
  ultimately obtain p' b' where "m (0, db_set_size n (db_create fill n)) = Ok (p', b')"
    and w: "written b' p' (rtp_image p)" and "db_size b' = n"
    using n unfolding emits_def by fastforce
  then have "LoadPacket fill p = Ok b'"
    by (simp add: LoadPacket_def Let_def m_def n_def)
  moreover have "db_contents b' = rtp_image p"
    using written_full [OF w] n \<open>db_size b' = n\<close> by simp
  ultimately show ?thesis using w by (auto simp: written_def)
qed

section \<open>The parser\<close>

lemma parse_csrc_length_OkD:
  "parse_csrc_length cc len = Ok n \<Longrightarrow> 12 \<le> len \<Longrightarrow> n = 12 + cc * 4 \<and> n \<le> len"
  by (auto simp: parse_csrc_length_def split: if_splits)

lemma parse_csrc_length_Ok: "12 + cc * 4 \<le> len \<Longrightarrow> parse_csrc_length cc len = Ok (12 + cc * 4)"
  by (auto simp: parse_csrc_length_def)

lemma parse_csrc_length_no_crash: "\<not> crashes (parse_csrc_length cc len)"
  by (simp add: parse_csrc_length_def)

lemma parse_extension_OkD:
  assumes "parse_extension x packet n = Ok (ext, n')" and "n \<le> length packet"
  shows "n' = n + extension_size ext \<and> n' \<le> length packet \<and> extension_wf ext \<and> (ext \<noteq> None \<longleftrightarrow> x)"
  using assms
  by (auto simp: parse_extension_def Let_def memory_simps extension_size_def extension_wf_def
      split: if_splits)

lemma parse_extension_no_crash: "n \<le> length packet \<Longrightarrow> \<not> crashes (parse_extension x packet n)"
  by (auto simp: parse_extension_def Let_def memory_simps)

lemma parse_padding_OkD:
  "parse_padding p packet n = Ok pad \<Longrightarrow> n \<le> length packet \<Longrightarrow>
   n + unat pad \<le> length packet \<and> (p \<longleftrightarrow> pad > 0) \<and> (p \<longrightarrow> pad = last packet)"
  by (cases "packet = []")
    (auto simp: parse_padding_def memory_simps last_conv_nth split: if_splits)

lemma parse_padding_no_crash: "n \<le> length packet \<Longrightarrow> \<not> crashes (parse_padding p packet n)"
  by (auto simp: parse_padding_def memory_simps)

text \<open>What the final assignments store, once the stages have established the offsets.\<close>

definition stored :: "rtp_packet \<Rightarrow> bytes \<Rightarrow> nat \<Rightarrow> rtp_extension option \<Rightarrow> u8 \<Rightarrow> nat \<Rightarrow> rtp_packet" where
  "stored self packet cc ext pad n =
     self\<lparr>octet_m_pt := packet ! 1, sequence_number := ReadBigEndian (take 2 (drop 2 packet)),
       timestamp := ReadBigEndian (take 4 (drop 4 packet)), ssrc := ReadBigEndian (take 4 (drop 8 packet)),
       csrcs := map (\<lambda>i. ReadLittleEndian (take 4 (drop (12 + i * 4) packet))) [0..<cc],
       extension := ext,
       payload_buffer := (if n + unat pad < length packet
         then Some (take (length packet - (n + unat pad)) (drop n packet)) else None),
       pad_size := (if n + unat pad < length packet then pad else pad_size self)\<rparr>"

lemma read_csrcs_Ok:
  "12 + cc * 4 \<le> length packet \<Longrightarrow>
   read_csrcs packet cc = Ok (map (\<lambda>i. ReadLittleEndian (take 4 (drop (12 + i * 4) packet))) [0..<cc])"
  unfolding read_csrcs_def by (rule omapM_all_Ok) (simp add: memory_simps)

lemma store_fields_parsed_Ok:
  assumes "12 + cc * 4 \<le> n" and "n + unat pad \<le> length packet"
  shows "store_fields_parsed self packet cc ext pad n = Ok (stored self packet cc ext pad n)"
  using assms
  by (auto simp: store_fields_parsed_def length_difference_def stored_def Let_def memory_simps read_be16_def read_be32_def
      read_csrcs_Ok)

lemma StorePacket_cases:
  assumes "StorePacket self packet = Ok r"
  obtains cc ext pad n where "12 \<le> length packet" and "drop_bit 6 (packet ! 0) = 2"
    and "cc = unat (packet ! 0 AND 0x0f)" and "n = 12 + cc * 4 + extension_size ext"
    and "extension_wf ext" and "ext \<noteq> None \<longleftrightarrow> packet ! 0 AND 0x10 \<noteq> 0"
    and "pad > 0 \<longleftrightarrow> packet ! 0 AND 0x20 \<noteq> 0" and "n + unat pad \<le> length packet"
    and "pad > 0 \<longrightarrow> pad = last packet" and "r = stored self packet cc ext pad n"
proof -
  from assms have len: "12 \<le> length packet" by (auto simp: StorePacket_def split: if_splits)
  let ?h = "packet ! 0"
  have h: "get_byte packet 0 = (Ok ?h :: (rtp_error, u8) outcome)"
    using len by (intro get_byte_Ok) linarith
  from assms len obtain n0 n ext pad where v: "drop_bit 6 ?h = 2"
    and c: "parse_csrc_length (unat (?h AND 0x0f)) (length packet) = Ok n0"
    and e: "parse_extension (?h AND 0x10 \<noteq> 0) packet n0 = Ok (ext, n)"
    and p: "parse_padding (?h AND 0x20 \<noteq> 0) packet n = Ok pad"
    and s: "store_fields_parsed self packet (unat (?h AND 0x0f)) ext pad n = Ok r"
    by (auto simp: StorePacket_def h Let_def obind_eq_Ok_conv split: if_splits)
  from parse_csrc_length_OkD [OF c len] have n0: "n0 = 12 + unat (?h AND 0x0f) * 4" "n0 \<le> length packet"
    by auto
  from parse_extension_OkD [OF e n0(2)] have n: "n = n0 + extension_size ext" "n \<le> length packet"
    "extension_wf ext" "ext \<noteq> None \<longleftrightarrow> ?h AND 0x10 \<noteq> 0" by auto
  from parse_padding_OkD [OF p n(2)] have pad: "n + unat pad \<le> length packet"
    "pad > 0 \<longleftrightarrow> ?h AND 0x20 \<noteq> 0" "pad > 0 \<longrightarrow> pad = last packet" by auto
  have "r = stored self packet (unat (?h AND 0x0f)) ext pad n"
    using s store_fields_parsed_Ok [of "unat (?h AND 0x0f)" n pad packet self ext] n0 n pad by simp
  then show thesis using that len v n0 n pad by blast
qed

lemma StorePacket_no_crash: "\<not> crashes (StorePacket self packet)"
proof -
  have "\<not> crashes (obind (parse_csrc_length cc (length packet)) (\<lambda>n.
          obind (parse_extension x packet n) (\<lambda>(ext, n).
          obind (parse_padding p packet n) (\<lambda>pad. store_fields_parsed self packet cc ext pad n))))"
    if len: "12 \<le> length packet" for cc x p
  proof (rule no_crash_obind [OF parse_csrc_length_no_crash])
    fix n assume c: "parse_csrc_length cc (length packet) = Ok n"
    note c = parse_csrc_length_OkD [OF c len]
    show "\<not> crashes (obind (parse_extension x packet n) (\<lambda>(ext, n).
          obind (parse_padding p packet n) (\<lambda>pad. store_fields_parsed self packet cc ext pad n)))"
    proof (rule no_crash_obind [OF parse_extension_no_crash], use c in simp, clarify)
      fix ext n' assume e: "parse_extension x packet n = Ok (ext, n')"
      note e = parse_extension_OkD [OF e] c
      show "crashes (obind (parse_padding p packet n')
          (\<lambda>pad. store_fields_parsed self packet cc ext pad n')) \<Longrightarrow> False"
        using e parse_padding_no_crash [of n' packet p] parse_padding_OkD [of p packet n']
        by (cases "parse_padding p packet n'") (auto simp: store_fields_parsed_Ok)
    qed
  qed
  note stages = this
  show ?thesis
  proof (cases "length packet < 12")
    case False
    then have len: "12 \<le> length packet" and "0 < length packet" by linarith+
    then have h: "get_byte packet 0 = (Ok (packet ! 0) :: (rtp_error, u8) outcome)"
      by (intro get_byte_Ok)
    show ?thesis using False stages [OF len] by (simp add: StorePacket_def h Let_def)
  qed (simp add: StorePacket_def)
qed

section \<open>Round trips\<close>

lemma head_bits:
  assumes "n \<le> 15"
  defines "h \<equiv> 0x80 OR (of_nat n :: u8)"
  shows "drop_bit 6 h = 2 \<and> h AND 0x20 = 0 \<and> h AND 0x10 = 0 \<and> unat (h AND 0x0f) = n"
proof -
  have "n \<in> set [0..<16]" using assms(1) by simp
  then show ?thesis unfolding h_def by (simp add: upt_rec) (elim disjE; simp)
qed

lemma rtp_image_parts:
  "rtp_image p ! 0 = rtp_head p" "rtp_image p ! 1 = octet_m_pt p"
  "take 2 (drop 2 (rtp_image p)) = WriteBigEndian 2 (sequence_number p)"
  "take 4 (drop 4 (rtp_image p)) = WriteBigEndian 4 (timestamp p)"
  "take 4 (drop 8 (rtp_image p)) = WriteBigEndian 4 (ssrc p)"
  by (simp_all add: rtp_image_def fixed_image_def numeral_eq_Suc [of "num.Bit0 num.One"]
      drop_Cons')

lemma rtp_image_csrcs:
  assumes "i < length (csrcs p)"
  shows "take 4 (drop (12 + i * 4) (rtp_image p)) = WriteBigEndian 4 (csrcs p ! i)"
proof -
  let ?cs = "concat (map (WriteBigEndian 4) (csrcs p))"
  have "drop (4 * i) ?cs = concat (map (WriteBigEndian 4) (drop i (csrcs p)))"
    by (rule drop_concat_const) simp
  then have "drop (i * 4) ?cs = WriteBigEndian 4 (csrcs p ! i) @ concat (map (WriteBigEndian 4) (drop (Suc i) (csrcs p)))"
    using assms by (simp add: mult.commute Cons_nth_drop_Suc [symmetric])
  then show ?thesis
    using assms by (simp add: rtp_image_def)
qed

text \<open>A packet without extension and padding is the fixed header, the CSRC list and the payload.\<close>

lemma rtp_image_plain:
  "extension p = None \<Longrightarrow> pad_size p = 0 \<Longrightarrow>
   rtp_image p = fixed_image p @ concat (map (WriteBigEndian 4) (csrcs p)) @ payload_bytes p"
  by (simp add: rtp_image_def extension_image_def padding_image_def)

definition reparsed :: "rtp_packet \<Rightarrow> rtp_packet \<Rightarrow> rtp_packet" where
  "reparsed q p = q\<lparr>octet_m_pt := octet_m_pt p, sequence_number := sequence_number p,
     timestamp := timestamp p, ssrc := ssrc p, csrcs := map byte_swap (csrcs p), extension := None,
     payload_buffer := (if payload_bytes p = [] then None else Some (payload_bytes p)),
     pad_size := (if payload_bytes p = [] then pad_size q else 0)\<rparr>"

lemma stored_image:
  assumes "extension p = None" and "pad_size p = 0"
  shows "stored q (rtp_image p) (length (csrcs p)) None 0 (12 + length (csrcs p) * 4) = reparsed q p"
proof -
  have "map (\<lambda>i. ReadLittleEndian (take 4 (drop (12 + i * 4) (rtp_image p)))) [0..<length (csrcs p)]
      = map byte_swap (csrcs p)"
    by (rule nth_equalityI) (simp_all add: rtp_image_csrcs byte_swap_def)
  moreover have "drop (12 + length (csrcs p) * 4) (rtp_image p) = payload_bytes p"
    and "length (rtp_image p) = 12 + length (csrcs p) * 4 + length (payload_bytes p)"
    using rtp_image_plain [OF assms] by simp_all
  ultimately show ?thesis by (simp add: stored_def reparsed_def rtp_image_parts rtp_image_parts [unfolded One_nat_def])
qed

lemma StorePacket_image:
  assumes "extension p = None" and "pad_size p = 0" and "length (csrcs p) \<le> 15"
  shows "StorePacket q (rtp_image p) = Ok (reparsed q p)"
proof -
  define k where "k = length (csrcs p)"
  have head: "rtp_head p = 0x80 OR of_nat k"
    using assms(1,2) by (simp add: rtp_head_def k_def)
  have len: "12 + k * 4 \<le> length (rtp_image p)"
    by (simp add: rtp_image_def k_def)
  have h: "get_byte (rtp_image p) 0 = (Ok (rtp_head p) :: (rtp_error, u8) outcome)"
    using rtp_image_ge_12 [of p] rtp_image_parts(1) [of p] by (simp add: get_byte_def)
  have "StorePacket q (rtp_image p) = Ok (stored q (rtp_image p) k None 0 (12 + k * 4))"
    using head_bits [OF assms(3)] len rtp_image_ge_12 [of p] unfolding k_def [symmetric]
    by (simp add: StorePacket_def h head Let_def parse_csrc_length_Ok parse_extension_def
        parse_padding_def store_fields_parsed_Ok)
  then show ?thesis using stored_image [OF assms(1,2), of q] by (simp add: k_def)
qed

section \<open>Copies\<close>

lemma m_payload_type_octet_eq: "m_payload_type_octet p (payload_type p) = octet_m_pt p"
proof (rule bit_word_eqI)
  fix n assume "n < LENGTH(8)"
  then have n: "n \<in> set [0..<8]" by simp
  have m: "rtp_m p \<noteq> 0 \<longleftrightarrow> bit (octet_m_pt p) 7"
  proof -
    have "rtp_m p = (if bit (octet_m_pt p) 7 then 1 else 0)"
    proof (rule bit_word_eqI)
      fix k assume k: "k < LENGTH(8)"
      have "bit (octet_m_pt p) (7 + k) \<Longrightarrow> 7 + k < 8"
        using bit_imp_le_length [of "octet_m_pt p" "7 + k"] by simp
      then show "bit (rtp_m p) k \<longleftrightarrow> bit (if bit (octet_m_pt p) 7 then 1 else 0 :: u8) k"
        by (auto simp: rtp_m_def bit_drop_bit_eq bit_1_iff)
    qed
    then show ?thesis by simp
  qed
  show "bit (m_payload_type_octet p (payload_type p)) n \<longleftrightarrow> bit (octet_m_pt p) n"
    using n unfolding m_payload_type_octet_def m payload_type_def
    by (simp add: upt_rec) (elim disjE; simp add: bit_or_iff bit_and_iff numeral_eq_Suc)
qed

lemma copy_csrcs_Ok:
  assumes "length (csrcs p) \<le> 255"
  shows "copy_csrcs p = Ok (map (\<lambda>c. ucast (ucast c :: u8)) (csrcs p))"
proof -
  have n: "unat (of_nat i :: u8) = i" if "i \<le> length (csrcs p)" for i
    using that assms by (simp add: unat_of_nat)
  have "copy_csrcs p = Ok (map (\<lambda>i. ucast (ucast (csrcs p ! i) :: u8)) [0..<length (csrcs p)])"
    unfolding copy_csrcs_def count_csrcs_def n [OF order_refl]
    by (rule omapM_all_Ok) (simp add: rtp_csrc_def n)
  also have "map (\<lambda>i. ucast (ucast (csrcs p ! i) :: u8) :: u32) [0..<length (csrcs p)]
      = map (\<lambda>c. ucast (ucast c :: u8)) (csrcs p)"
    by (rule nth_equalityI) simp_all
  finally show ?thesis .
qed

lemma copy_extension_Ok: "extension_wf (extension p) \<Longrightarrow> copy_extension p = Ok (extension p)"
  by (auto simp: copy_extension_def extension_wf_def get_bytes_def split: option.splits)

lemma StoreFields_Ok:
  "rtp_buffer_length p < 2 ^ 32 \<Longrightarrow>
   StoreFields (octet_m_pt p) (sequence_number p) (timestamp p) (ssrc p) (csrcs p) (extension p)
     (payload_buffer p) (pad_size p) = Ok p"
  by (auto simp: StoreFields_def rtp_buffer_length_def payload_bytes_def Let_def split: option.splits)

lemma CreateCopy_not_null: "CreateCopy p \<noteq> Failed e"
proof -
  have "unat (of_nat i :: u8) < length (csrcs p)" if "i < unat (count_csrcs p)" for i
  proof -
    have "unat (count_csrcs p) \<le> length (csrcs p)" "i < 256"
      using that u8_bound [of "count_csrcs p"] by (simp_all add: count_csrcs_def unsigned_of_nat take_bit_eq_mod)
    then show ?thesis using that by (simp add: unsigned_of_nat take_bit_eq_mod)
  qed
  then have "copy_csrcs p = Ok (map (\<lambda>i. ucast (ucast (csrcs p ! unat (of_nat i :: u8)) :: u8)) [0..<unat (count_csrcs p)])"
    unfolding copy_csrcs_def by (intro omapM_all_Ok) (force simp: rtp_csrc_def)
  then show ?thesis
    by (auto simp: CreateCopy_def copy_extension_def get_bytes_def split: option.splits outcome.splits)
qed

lemma CreateCopy_Ok:
  assumes "rtp_wf p" and "length (csrcs p) \<le> 255"
  shows "CreateCopy p = Ok (p\<lparr>csrcs := map (\<lambda>c. ucast (ucast c :: u8)) (csrcs p)\<rparr>)"
proof -
  let ?p = "p\<lparr>csrcs := map (\<lambda>c. ucast (ucast c :: u8)) (csrcs p)\<rparr>"
  have "rtp_buffer_length ?p < 2 ^ 32"
    using assms(1) by (simp add: rtp_wf_def rtp_buffer_length_def payload_bytes_def)
  from StoreFields_Ok [OF this] show ?thesis
    using assms
    by (simp add: CreateCopy_def copy_csrcs_Ok copy_extension_Ok rtp_wf_def m_payload_type_octet_eq)
qed

section \<open>Properties\<close>

text \<open>The layout of a packet as it is drawn in \<open>rtp_packet_impl.h\<close>, with the bits P and X as parameters and every
  field given by its value, not by the operations of the writer.\<close>

definition be16 :: "u16 \<Rightarrow> bytes" where
  "be16 w = [of_nat (unat w div 256), of_nat (unat w)]"

definition be32 :: "u32 \<Rightarrow> bytes" where
  "be32 w = [of_nat (unat w div 2 ^ 24), of_nat (unat w div 2 ^ 16), of_nat (unat w div 2 ^ 8), of_nat (unat w)]"

definition layout_image :: "bool \<Rightarrow> bool \<Rightarrow> rtp_packet \<Rightarrow> bytes" where
  "layout_image P X p =
     [of_nat (2 * 64 + (if P then 32 else 0) + (if X then 16 else 0) + length (csrcs p)),
      of_nat (128 * unat (rtp_m p) + unat (payload_type p))]
     @ be16 (sequence_number p) @ be32 (timestamp p) @ be32 (ssrc p) @ concat (map be32 (csrcs p))
     @ (case extension p of None \<Rightarrow> []
        | Some e \<Rightarrow> [fst (ext_name e), snd (ext_name e)] @ be16 (ext_length e) @ ext_content e)
     @ (case payload_buffer p of None \<Rightarrow> [] | Some body \<Rightarrow> body)
     @ (if pad_size p = 0 then [] else replicate (unat (pad_size p) - 1) 0 @ [pad_size p])"

lemma object_byte_value: "object_byte w i = of_nat (unat w div 2 ^ (8 * i))"
  by (simp add: object_byte_def word_unat_eq_iff unsigned_ucast_eq unsigned_of_nat unat_drop_bit_eq)
    (simp add: drop_bit_eq_div)

lemma WriteBigEndian_value: "WriteBigEndian 2 w = be16 w" "WriteBigEndian 4 x = be32 x"
  by (simp_all add: WriteBigEndian_2 WriteBigEndian_4 object_byte_value be16_def be32_def)

lemma octet_value: "of_nat (128 * unat (rtp_m p) + unat (payload_type p)) = octet_m_pt p"
proof -
  have "unat (rtp_m p) = unat (octet_m_pt p) div 128" and "unat (payload_type p) = unat (octet_m_pt p) mod 128"
  proof -
    show "unat (rtp_m p) = unat (octet_m_pt p) div 128" by (simp add: rtp_m_def unat_drop_bit_eq) (simp add: drop_bit_eq_div)
    have "payload_type p = take_bit 7 (octet_m_pt p)"
      by (simp add: payload_type_def take_bit_eq_mask mask_eq_exp_minus_1 and.commute drop_bit_eq_div)
    then show "unat (payload_type p) = unat (octet_m_pt p) mod 128"
      by (simp add: take_bit_eq_mod unat_mod)
  qed
  then show ?thesis by simp
qed

lemma head_value:
  assumes "length (csrcs p) \<le> 15"
  shows "rtp_head p = of_nat (2 * 64 + (if extension p \<noteq> None then 32 else 0) + (if pad_size p > 0 then 16 else 0) + length (csrcs p))"
proof -
  have "length (csrcs p) \<in> set [0..<16]" using assms by simp
  then show ?thesis unfolding rtp_head_def by (simp add: upt_rec) (elim disjE; simp)
qed

lemma rtp_image_layout:
  assumes "length (csrcs p) \<le> 15"
  shows "rtp_image p = layout_image (rtp_x p) (rtp_p p) p"
  unfolding rtp_image_def fixed_image_def layout_image_def head_value [OF assms] octet_value WriteBigEndian_value rtp_x_def rtp_p_def
    extension_image_def padding_image_def payload_bytes_def
  by (simp add: word_gt_0)

lemma layout_image_crossed: "layout_image X P p = layout_image P X p \<longleftrightarrow> P = X"
proof
  assume "layout_image X P p = layout_image P X p"
  then have "hd (layout_image X P p) = hd (layout_image P X p)" by simp
  then show "P = X" by (auto simp: layout_image_def split: if_splits)
qed simp

text \<open>C23: (refinement) \<open>LoadPacket\<close> succeeds on every well-formed packet, fills the whole buffer whatever the
  allocation held, and writes the layout drawn in \<open>rtp_packet_impl.h\<close>, every field at its place and in network order,
  but for two bits: it sets P when there is an extension and X when there is padding. So the buffer is the documented
  one exactly when the packet has both or neither.\<close>

theorem load_packet_refines_image:
  assumes "rtp_wf p" and "length (csrcs p) \<le> 15"
  shows "\<exists>b. LoadPacket fill p = Ok b \<and> unat (db_size b) = rtp_buffer_length p
    \<and> db_contents b = layout_image (extension p \<noteq> None) (pad_size p > 0) p
    \<and> (db_contents b = layout_image (pad_size p > 0) (extension p \<noteq> None) p \<longleftrightarrow> (extension p \<noteq> None) = (pad_size p > 0))"
proof -
  obtain b where b: "LoadPacket fill p = Ok b" "db_ok b" "db_contents b = rtp_image p"
    using LoadPacket_image [OF assms(1)] by blast
  moreover from b have "unat (db_size b) = length (rtp_image p)"
    using length_db_contents by fastforce
  moreover have "length (rtp_image p) = rtp_buffer_length p" using assms(1) by (simp add: rtp_wf_def length_rtp_image)
  moreover have "rtp_image p = layout_image (extension p \<noteq> None) (pad_size p > 0) p"
    using rtp_image_layout [OF assms(2)] by (simp only: rtp_x_def rtp_p_def)
  ultimately show ?thesis using layout_image_crossed [of "extension p \<noteq> None" "pad_size p > 0" p] by auto
qed

theorem load_packet_refines_image_witness:
  "\<exists>b. LoadPacket 205 (rtp_empty\<lparr>sequence_number := 7, csrcs := [9], payload_buffer := Some [1, 2], pad_size := 3\<rparr>) = Ok b
    \<and> db_contents b = [0x91, 0, 0, 7, 0, 0, 0, 0, 0, 0, 0, 0, 0, 0, 0, 9, 1, 2, 0, 0, 3]
    \<and> unat (db_size b) = 21"
proof -
  let ?p = "rtp_empty\<lparr>sequence_number := 7, csrcs := [9], payload_buffer := Some [1, 2], pad_size := 3\<rparr>"
  have p: "rtp_wf ?p" "length (csrcs ?p) \<le> 15" "rtp_buffer_length ?p = 21"
    by (simp_all add: rtp_wf_def rtp_empty_def rtp_buffer_length_def payload_bytes_def extension_size_def extension_wf_def)
  have "layout_image (extension ?p \<noteq> None) (pad_size ?p > 0) ?p
      = [0x91, 0, 0, 7, 0, 0, 0, 0, 0, 0, 0, 0, 0, 0, 0, 9, 1, 2, 0, 0, 3]"
    by (simp add: layout_image_def be16_def be32_def rtp_m_def payload_type_def rtp_empty_def)
  then show ?thesis using load_packet_refines_image [OF p(1,2), of 205] p(3) by auto
qed

text \<open>C24: (safety, error) the RTP parser reads only inside the datagram, whatever its length and
  contents: it returns a packet or one of its errors, never an undefined access.\<close>

theorem store_packet_memory_safe: "\<not> crashes (StorePacket self packet)"
  by (rule StorePacket_no_crash)

text \<open>An accepted datagram is accounted for byte by byte: version 2, and the
  fixed header, CSRC list, extension, payload and padding together are exactly its length when
  there is a payload; the result is well formed.\<close>

lemma store_packet_accounts_for_bytes:
  assumes "StorePacket self packet = Ok r" and "length packet < 2 ^ 32"
  shows "drop_bit 6 (packet ! 0) = 2 \<and> extension_wf (extension r)
    \<and> (payload_buffer r \<noteq> None \<longrightarrow> rtp_buffer_length r = length packet \<and> rtp_wf r)
    \<and> (payload_buffer r = None \<longrightarrow> pad_size r = pad_size self)"
proof -
  obtain cc ext pad n where v: "drop_bit 6 (packet ! 0) = 2"
    and n: "n = 12 + cc * 4 + extension_size ext" "n + unat pad \<le> length packet"
    and e: "extension_wf ext" and r: "r = stored self packet cc ext pad n"
    using StorePacket_cases [OF assms(1)] by metis
  have "rtp_buffer_length r = length packet" if "payload_buffer r \<noteq> None"
    using that n r by (auto simp: stored_def rtp_buffer_length_def payload_bytes_def split: if_splits)
  then show ?thesis using v e r assms(2) by (auto simp: rtp_wf_def stored_def)
qed

lemma store_packet_accounts_for_bytes_witness:
  "\<exists>r. StorePacket rtp_empty [0x80, 96, 0, 7, 0, 0, 0, 1, 0, 0, 0, 2, 42] = Ok r
     \<and> rtp_buffer_length r = 13"
proof -
  let ?d = "[0x80, 96, 0, 7, 0, 0, 0, 1, 0, 0, 0, 2, 42] :: bytes"
  obtain r where r: "StorePacket rtp_empty ?d = Ok r" and "payload_buffer r = Some [42]"
    by (simp add: StorePacket_def get_byte_def Let_def parse_csrc_length_def parse_extension_def
        parse_padding_def store_fields_parsed_def length_difference_def read_be16_def read_be32_def get_bytes_def
        read_csrcs_def)
  then show ?thesis using store_packet_accounts_for_bytes [OF r] by simp
qed

lemma rtp_roundtrip:
  assumes "extension p = None" and "pad_size p = 0" and "length (csrcs p) \<le> 15"
    and "payload_buffer p \<noteq> Some []"
  shows "StorePacket rtp_empty (rtp_image p) = Ok (p\<lparr>csrcs := map byte_swap (csrcs p)\<rparr>)"
  using StorePacket_image [OF assms(1-3), of rtp_empty] assms
  by (auto simp: reparsed_def rtp_empty_def payload_bytes_def split: option.splits)

text \<open>C31: (roundtrip) a packet without extension and padding that \<open>LoadPacket\<close> serialises and \<open>StorePacket\<close>
  parses again comes back field by field, except that every CSRC has its four bytes reversed: the
  serialiser writes them big-endian, the parser reads them in host order.\<close>

theorem rtp_roundtrip_plain:
  assumes "extension p = None" and "pad_size p = 0" and "length (csrcs p) \<le> 15"
    and "payload_buffer p \<noteq> Some []" and "rtp_buffer_length p < 2 ^ 32"
  shows "obind (LoadPacket fill p) (\<lambda>b. StorePacket rtp_empty (db_contents b)) = Ok (p\<lparr>csrcs := map byte_swap (csrcs p)\<rparr>)"
proof -
  have "rtp_wf p" using assms(1,5) by (simp add: rtp_wf_def extension_wf_def)
  from LoadPacket_image [OF this] obtain b where "LoadPacket fill p = Ok b" "db_contents b = rtp_image p" by blast
  then show ?thesis using rtp_roundtrip [OF assms(1-4)] by simp
qed

theorem rtp_roundtrip_plain_witness:
  "obind (LoadPacket 205 (rtp_empty\<lparr>csrcs := [0x01020304], payload_buffer := Some [5]\<rparr>)) (\<lambda>b. StorePacket rtp_empty (db_contents b))
     = Ok (rtp_empty\<lparr>csrcs := [0x04030201], payload_buffer := Some [5]\<rparr>)"
  using rtp_roundtrip_plain [of "rtp_empty\<lparr>csrcs := [0x01020304], payload_buffer := Some [5]\<rparr>" 205]
  by (simp add: rtp_empty_def byte_swap_def ReadLittleEndian_def WriteBigEndian_4 object_byte_def
      rtp_buffer_length_def payload_bytes_def extension_size_def)

text \<open>The header bits are crossed: a packet with an extension and no padding is
  written with the padding bit, so that whenever its datagram is accepted at all it is read as
  padded and its extension is gone.\<close>

lemma extension_read_as_padding:
  assumes "extension p = Some e" and "pad_size p = 0" and "length (csrcs p) \<le> 15"
    and "StorePacket q (rtp_image p) = Ok r"
  shows "extension r = None \<and> last (rtp_image p) > 0 \<and> extension r \<noteq> extension p"
proof -
  have head: "rtp_image p ! 0 = (0x80 OR 0x20) OR of_nat (length (csrcs p))"
    using assms(1,2) rtp_image_parts(1) [of p] by (simp add: rtp_head_def)
  have "length (csrcs p) \<in> set [0..<16]" using assms(3) by simp
  then have "rtp_image p ! 0 AND 0x10 = 0" and "rtp_image p ! 0 AND 0x20 \<noteq> 0"
    unfolding head by (simp_all add: upt_rec) (elim disjE; simp)+
  moreover obtain cc ext pad n where "ext \<noteq> None \<longleftrightarrow> rtp_image p ! 0 AND 0x10 \<noteq> 0"
    and "pad > 0 \<longleftrightarrow> rtp_image p ! 0 AND 0x20 \<noteq> 0" and "pad > 0 \<longrightarrow> pad = last (rtp_image p)"
    and "r = stored q (rtp_image p) cc ext pad n"
    using StorePacket_cases [OF assms(4)] by metis
  ultimately show ?thesis using assms(1) by (auto simp: stored_def)
qed

lemma extension_read_as_padding_witness:
  "\<exists>r. StorePacket rtp_empty (rtp_image (rtp_empty\<lparr>extension :=
      Some \<lparr>ext_name = (190, 222), ext_length = 0, ext_content = []\<rparr>, payload_buffer := Some [9, 1]\<rparr>)) = Ok r
     \<and> extension r = None"
proof -
  let ?p = "rtp_empty\<lparr>extension := Some \<lparr>ext_name = (190, 222), ext_length = 0, ext_content = []\<rparr>,
      payload_buffer := Some [9, 1]\<rparr>"
  have im: "rtp_image ?p = [0xa0, 0, 0, 0, 0, 0, 0, 0, 0, 0, 0, 0, 190, 222, 0, 0, 9, 1]"
    by (simp add: rtp_empty_def rtp_image_def fixed_image_def rtp_head_def extension_image_def
        payload_bytes_def padding_image_def WriteBigEndian_2 WriteBigEndian_4 object_byte_def)
  obtain r where r: "StorePacket rtp_empty (rtp_image ?p) = Ok r"
    unfolding im
    by (simp add: StorePacket_def get_byte_def Let_def parse_csrc_length_def parse_extension_def
        parse_padding_def store_fields_parsed_def length_difference_def read_be16_def read_be32_def get_bytes_def
        read_csrcs_def)
  then show ?thesis using extension_read_as_padding [OF _ _ _ r] by (simp add: rtp_empty_def)
qed

text \<open>C36: (functional) \<open>RtpPacket::Create(other)\<close> copies a well-formed packet with up to 255 CSRCs
  without leaving defined behaviour, and the copy equals the original exactly when every CSRC
  fits one byte: the accessor it copies them through returns a \<open>uint8_t\<close>.\<close>

theorem create_copy_exact_iff:
  assumes "rtp_wf p" and "length (csrcs p) \<le> 255"
  shows "\<exists>c. CreateCopy p = Ok c \<and> c\<lparr>csrcs := csrcs p\<rparr> = p
    \<and> (c = p \<longleftrightarrow> (\<forall>x \<in> set (csrcs p). unat x < 256))"
proof -
  let ?t = "\<lambda>c. ucast (ucast c :: u8) :: u32"
  have t: "?t x = x \<longleftrightarrow> unat x < 256" for x :: u32
    by (simp add: word_unat_eq_iff unsigned_ucast_eq unsigned_take_bit_eq take_bit_nat_eq_self_iff)
  have "p\<lparr>csrcs := map ?t (csrcs p)\<rparr> = p \<longleftrightarrow> map ?t (csrcs p) = csrcs p"
    by (cases p) simp
  also have "\<dots> \<longleftrightarrow> (\<forall>x \<in> set (csrcs p). ?t x = x)"
    by (simp add: map_idI list_eq_iff_nth_eq all_set_conv_all_nth)
  finally show ?thesis using CreateCopy_Ok [OF assms] t by simp
qed

theorem create_copy_exact_iff_witness:
  "\<exists>c. CreateCopy (rtp_empty\<lparr>csrcs := [256]\<rparr>) = Ok c \<and> c \<noteq> rtp_empty\<lparr>csrcs := [256]\<rparr>"
  using create_copy_exact_iff [of "rtp_empty\<lparr>csrcs := [256]\<rparr>"]
  by (auto simp: rtp_empty_def rtp_wf_def rtp_buffer_length_def extension_size_def extension_wf_def
      payload_bytes_def)

end
