(* ===== verification/Fec_Recovery.thy ===== *)
theory Fec_Recovery
  imports Fec_Parity Rtp_Codec
begin

text \<open>
  FEC recovery: from the FEC packet of a group and all packets of the group but one, the decoder
  computes the bytes of the missing packet; and the encoder's output protects every packet.
\<close>

section \<open>The decoder's loop\<close>

definition media_filled :: "bytes list \<Rightarrow> bytes \<times> bytes \<Rightarrow> bytes \<times> bytes \<Rightarrow> bool" where
  "media_filled bs s s' \<longleftrightarrow> (case (s, s') of ((r, l), (r', l')) \<Rightarrow> length r' = length r \<and> length l' = 2
     \<and> l' ! 0 = l ! 0 XOR group_xor 12 bs 8 \<and> l' ! 1 = l ! 1 XOR group_xor 12 bs 9
     \<and> (\<forall>i < length r. i \<notin> {8, 9} \<longrightarrow> r' ! i = r ! i XOR group_xor 12 bs i))"

lemma xor_media_empty:
  assumes "length b = 12"
  shows "xor_val 12 b i = (if i \<in> {0, 1, 4, 5, 6, 7} then b ! i else 0)"
proof -
  have "media_length b = 0" using assms by (simp add: media_length_def kFixedBufferLength_def)
  then show ?thesis using assms by (auto simp: xor_val_def WriteBigEndian_2 object_byte_def)
qed

lemma xor_media_step:
  assumes b: "fec_size_ok b" and r: "length b \<le> length r" and pl: "length b - 12 \<le> unat pl" and l: "length l = 2"
  shows "\<exists>s'. xor_media pl b (r, l) = (Ok s' :: ('e, bytes \<times> bytes) outcome) \<and> media_filled [b] (r, l) s'"
proof -
  have len: "unat (media_length b) = length b - 12" "12 \<le> length b"
    using b by (auto simp: fec_size_ok_def media_length_unat)
  obtain r1 where 1: "xor_from b 0 0 [0, 1, 4, 5, 6, 7] r = (Ok r1 :: ('e, bytes) outcome)" "length r1 = length r"
    "\<forall>i < length r. r1 ! i = r ! i XOR (if i \<in> {0, 1, 4, 5, 6, 7} then b ! i else 0)"
    using xor_header [of b r, where 'e = 'e] len(2) r by auto
  show ?thesis
  proof (cases "media_length b = 0")
    case True
    then have "length b = 12" using len by simp
    then have "media_filled [b] (r, l) (r1, l)"
      using 1 l by (simp add: media_filled_def xor_media_empty)
    then show ?thesis using True 1(1) by (simp add: xor_media_def)
  next
    case False
    let ?len = "WriteBigEndian 2 (media_length b)"
    have n: "unat (min (media_length b) pl) = length b - 12"
      using pl len by (simp add: min_def word_le_nat_alt)
    have "\<forall>k \<in> set [0..<length b - 12]. 12 + k < length b \<and> 12 + k < length r1" using r 1(2) by auto
    then obtain r2 where 2: "xor_from b 12 12 [0..<length b - 12] r1 = (Ok r2 :: ('e, bytes) outcome)" "length r2 = length r1"
      "\<forall>i < length r1. r2 ! i = r1 ! i XOR (if 12 \<le> i \<and> i - 12 \<in> set [0..<length b - 12] then b ! (12 + (i - 12)) else 0)"
      using xor_from_nth [of "[0..<length b - 12]" 12 b 12 r1, where 'e = 'e] by auto
    define l' where "l' = [l ! 0 XOR ?len ! 0, l ! 1 XOR ?len ! 1]"
    have l': "l[0 := l ! 0 XOR ?len ! 0, 1 := l ! 1 XOR ?len ! 1] = l'"
      using l by (cases l; cases "tl l") (auto simp: l'_def)
    have "l \<noteq> []" using l by auto
    then have "xor_media pl b (r, l) = (Ok (r2, l') :: ('e, bytes \<times> bytes) outcome)"
      using False 1(1) 2(1) l l' n \<open>l \<noteq> []\<close> by (simp add: xor_media_def Let_def xor_at_def kFixedBufferLength_def)
    moreover have "r2 ! i = r ! i XOR xor_val 12 b i" if "i < length r" "i \<notin> {8, 9}" for i
      using that 1(2,3) 2(3) by (auto simp: xor_val_def)
    moreover have "xor_val 12 b 8 = ?len ! 0" "xor_val 12 b 9 = ?len ! 1" by (simp_all add: xor_val_def)
    ultimately show ?thesis using 1(2) 2(2) by (simp add: media_filled_def l'_def)
  qed
qed

lemma media_filled_trans:
  "media_filled [b] s s1 \<Longrightarrow> media_filled bs s1 s2 \<Longrightarrow> media_filled (b # bs) s s2"
  by (cases s; cases s1; cases s2) (auto simp: media_filled_def xor.assoc)

lemma xor_media_all:
  assumes "\<forall>b \<in> set bs. fec_size_ok b \<and> length b \<le> length (fst s) \<and> length b - 12 \<le> unat pl" and "length (snd s) = 2"
  shows "\<exists>s'. ofold (xor_media pl) bs s = (Ok s' :: ('e, bytes \<times> bytes) outcome) \<and> media_filled bs s s'"
  using assms
proof (induction bs arbitrary: s)
  case Nil
  then show ?case by (cases s) (auto simp: media_filled_def)
next
  case (Cons b bs)
  obtain s1 where 1: "xor_media pl b s = (Ok s1 :: ('e, bytes \<times> bytes) outcome)" "media_filled [b] s s1"
    using xor_media_step [of b "fst s" pl "snd s", where 'e = 'e] Cons.prems by auto
  then have "length (fst s1) = length (fst s)" "length (snd s1) = 2" by (auto simp: media_filled_def split: prod.splits)
  then obtain s2 where "ofold (xor_media pl) bs s1 = (Ok s2 :: ('e, bytes \<times> bytes) outcome)" "media_filled bs s1 s2"
    using Cons.IH [of s1] Cons.prems by auto
  then show ?case using 1 media_filled_trans [OF 1(2)] by simp
qed

section \<open>Bits of the first octet\<close>

lemma long_bit: "((x AND 0x3f) OR (if l then 0x40 else 0 :: u8)) AND 0x40 \<noteq> 0 \<longleftrightarrow> l"
proof -
  have "((x AND 0x3f) OR v) AND 0x40 = v AND 0x40" for v :: u8
    by (simp add: bit.conj_disj_distrib2 and.assoc)
  then show ?thesis by simp
qed

lemma version_bits:
  assumes "drop_bit 6 (b :: u8) = 2"
  shows "(b AND 0x3f) OR 0x80 = b"
proof (rule bit_word_eqI)
  fix n assume "n < LENGTH(8)"
  then have n: "n \<in> {0, 1, 2, 3, 4, 5, 6, 7}" by auto
  have "bit (drop_bit 6 b) 1 = bit (2 :: u8) 1" "bit (drop_bit 6 b) 0 = bit (2 :: u8) 0"
    using assms by simp_all
  then have "bit b 7" "\<not> bit b 6" by (simp_all add: bit_drop_bit_eq)
  then show "bit ((b AND 0x3f) OR 0x80) n = bit b n"
    using n by (elim insertE emptyE; simp add: bit_or_iff bit_and_iff)
qed

lemma first_octet:
  assumes "drop_bit 6 (b :: u8) = 2" and "v AND 0x3f = 0" and "x XOR y = b"
  shows "((((x AND 0x3f) OR v) XOR y) AND 0x3f) OR 0x80 = b"
proof -
  have "\<not> (bit v n \<and> bit (0x3f :: u8) n)" for n
    using arg_cong [OF assms(2), of "\<lambda>w. bit w n"] unfolding bit_and_iff by simp
  then have "(((x AND 0x3f) OR v) XOR y) AND 0x3f = (x XOR y) AND 0x3f"
    by (auto simp: bit_eq_iff bit_and_iff bit_or_iff bit_xor_iff)
  then show ?thesis using version_bits [OF assms(1)] assms(3) by simp
qed

section \<open>The recovered bytes\<close>

text \<open>What the decoder puts into the header itself: version 2, the number and the source.\<close>

definition media_header :: "u16 \<Rightarrow> u32 \<Rightarrow> bytes \<Rightarrow> bool" where
  "media_header seq s b \<longleftrightarrow> drop_bit 6 (b ! 0) = 2 \<and> take 2 (drop 2 b) = WriteBigEndian 2 seq
     \<and> take 4 (drop 8 b) = WriteBigEndian 4 s"

lemma media_header_nth:
  assumes "media_header seq s b" and "12 \<le> length b"
  shows "i \<in> {2, 3} \<Longrightarrow> WriteBigEndian 2 seq ! (i - 2) = b ! i"
    and "i \<in> {8, 9, 10, 11} \<Longrightarrow> WriteBigEndian 4 s ! (i - 8) = b ! i"
proof -
  show "i \<in> {2, 3} \<Longrightarrow> WriteBigEndian 2 seq ! (i - 2) = b ! i"
    using assms nth_take [of "i - 2" 2 "drop 2 b"]
    by (auto simp: media_header_def numeral_2_eq_2 numeral_3_eq_3)
  show "i \<in> {8, 9, 10, 11} \<Longrightarrow> WriteBigEndian 4 s ! (i - 8) = b ! i"
    using assms nth_take [of "i - 8" 4 "drop 8 b"] by (auto simp: media_header_def)
qed

text \<open>Before the last writes: bytes 1 and 4 to 7 are those of the missing packet, the rest its payload
  padded with zeros, and the length is its length.\<close>

definition nearly_recovered :: "bool \<Rightarrow> bytes list \<Rightarrow> bytes \<Rightarrow> bytes \<times> bytes \<Rightarrow> bool" where
  "nearly_recovered l bs b s \<longleftrightarrow>
     fst s ! 0 = (((b ! 0 XOR group_xor 12 bs 0) AND 0x3f) OR (if l then 0x40 else 0)) XOR group_xor 12 bs 0
     \<and> (\<forall>i < length (fst s). i \<in> {1, 4, 5, 6, 7} \<longrightarrow> fst s ! i = b ! i)
     \<and> (\<forall>i < length (fst s). 12 \<le> i \<longrightarrow> fst s ! i = (if i < length b then b ! i else 0))
     \<and> snd s = WriteBigEndian 2 (media_length b)"

lemma group_xor_recover:
  assumes "mset all = mset (b # bs)"
  shows "group_xor base all i XOR group_xor base bs i = xor_val base b i"
    and "group_xor base all i = xor_val base b i XOR group_xor base bs i"
proof -
  have m: "mset (map (\<lambda>b. xor_val base b i) all) = mset (xor_val base b i # map (\<lambda>b. xor_val base b i) bs)"
    using assms by (metis list.simps(9) mset_map)
  show "group_xor base all i XOR group_xor base bs i = xor_val base b i"
    using par.recover [OF m] by (simp add: group_xor_def)
  show "group_xor base all i = xor_val base b i XOR group_xor base bs i"
    using par.xsum_mset [OF m] by (simp add: group_xor_def)
qed

lemma group_xor_base: "i < 10 \<Longrightarrow> 10 \<le> base \<Longrightarrow> group_xor base bs i = group_xor 12 bs i"
  by (induction bs) (auto simp: xor_val_def)

lemma group_xor_shift: "10 \<le> base \<Longrightarrow> 12 \<le> i \<Longrightarrow> group_xor base bs (base + (i - 12)) = group_xor 12 bs i"
  by (induction bs) (simp, simp only: group_xor_simps xor_val_shift)

lemma nearly_recovered_after:
  assumes img: "fec_image grp n m" and all: "mset (map snd grp) = mset (b # bs)"
    and b: "fec_size_ok b" and start: "s = (take 8 m @ replicate 4 0 @ drop (12 + fec_mask_bytes grp) m, take 2 (drop 8 m))"
    and filled: "media_filled bs s s'"
  shows "nearly_recovered (fec_long grp) bs b s' \<and> length (fst s') = 12 + unat n"
proof -
  define base where "base = 12 + fec_mask_bytes grp"
  have base: "10 \<le> base" by (simp add: base_def)
  have len: "length m = base + unat n" and m0: "m ! 0 = (group_xor base (map snd grp) 0 AND 0x3f) OR (if fec_long grp then 0x40 else 0)"
    and body: "\<And>i. i < length m \<Longrightarrow> i \<in> {1, 4, 5, 6, 7, 8, 9} \<or> base \<le> i \<Longrightarrow> m ! i = group_xor base (map snd grp) i"
    using img unfolding fec_image_def Let_def base_def by blast+
  have l: "length (fst s') = 12 + unat n" and l2: "length (snd s') = 2"
    and r: "\<And>i. i < 12 + unat n \<Longrightarrow> i \<notin> {8, 9} \<Longrightarrow> fst s' ! i = fst s ! i XOR group_xor 12 bs i"
    and r2: "snd s' ! 0 = m ! 8 XOR group_xor 12 bs 8" "snd s' ! 1 = m ! 9 XOR group_xor 12 bs 9"
    using filled len base unfolding start media_filled_def base_def [symmetric]
    by (auto simp: min_def split: prod.splits)
  have low: "fst s' ! i = group_xor 12 (map snd grp) i XOR group_xor 12 bs i" if "i \<in> {1, 4, 5, 6, 7}" for i
    using r [of i] body [of i] that group_xor_base [of i base] base len by (auto simp: start nth_append)
  have high: "fst s' ! i = group_xor 12 (map snd grp) i XOR group_xor 12 bs i" if "12 \<le> i" "i < 12 + unat n" for i
  proof -
    have "fst s ! i = m ! (base + (i - 12))"
      using that len by (auto simp: start nth_append base_def simp del: replicate_numeral)
    moreover have "m ! (base + (i - 12)) = group_xor base (map snd grp) (base + (i - 12))"
      by (rule body) (use that len in auto)
    moreover have "fst s' ! i = fst s ! i XOR group_xor 12 bs i" using that by (intro r) auto
    ultimately show ?thesis by (simp only: group_xor_shift [OF base that(1)])
  qed
  note rec = group_xor_recover [OF all, of 12]
  have "fst s' ! 0 = m ! 0 XOR group_xor 12 bs 0"
    using r [of 0] len base by (simp add: start nth_append)
  then have 0: "fst s' ! 0 = (((b ! 0 XOR group_xor 12 bs 0) AND 0x3f) OR (if fec_long grp then 0x40 else 0)) XOR group_xor 12 bs 0"
    using m0 rec(2) [of 0] group_xor_base [of 0 base] base by (simp add: xor_val_def)
  have 1: "fst s' ! i = b ! i" if "i \<in> {1, 4, 5, 6, 7}" for i
    using low [OF that] rec(1) [of i] that by (auto simp: xor_val_def)
  have 2: "fst s' ! i = (if i < length b then b ! i else 0)" if "12 \<le> i" "i < 12 + unat n" for i
    using high [OF that] rec(1) [of i] that(1) b by (auto simp: xor_val_def fec_size_ok_def)
  have "snd s' ! 0 = WriteBigEndian 2 (media_length b) ! 0" "snd s' ! 1 = WriteBigEndian 2 (media_length b) ! 1"
    using r2 body [of 8] body [of 9] len base rec(1) [of 8] rec(1) [of 9]
      group_xor_base [of 8 base] group_xor_base [of 9 base] by (simp_all add: xor_val_def)
  then have 3: "snd s' = WriteBigEndian 2 (media_length b)"
    using l2 by (intro nth_equalityI) (auto simp: less_2_cases_iff)
  show ?thesis using 0 1 2 3 l unfolding nearly_recovered_def by auto
qed

lemma recover_bytes_unfold:
  assumes img: "fec_image grp n m" and hdr: "length hdr = 12" and n: "0 < unat n" "unat n \<le> 32767"
    and run: "ofold (xor_media n) bs (take 8 m @ replicate 4 0 @ drop (12 + fec_mask_bytes grp) m, take 2 (drop 8 m))
      = (Ok (r, l) :: ('e, bytes \<times> bytes) outcome)"
  shows "recover_bytes (Some c) (hdr @ m) seq bs =
     obind (put_bytes 8 (WriteBigEndian 4 (dec_ssrc c)) r) (\<lambda>r.
     obind (put_bytes 2 (WriteBigEndian 2 seq) r) (\<lambda>r.
     obind (and_at 0 0x3f r) (\<lambda>r. obind (or_at 0 0x80 r) (\<lambda>r.
       Ok (Some (take (unat (ReadBigEndian l :: u16) + 12) r)) :: ('e, bytes option) outcome))))"
proof -
  define base where "base = 12 + fec_mask_bytes grp"
  have base: "base = 12 + (if fec_long grp then 6 else 2)" by (simp add: base_def fec_mask_bytes_def)
  have len: "length m = base + unat n" and m0: "m ! 0 AND 0x40 \<noteq> 0 \<longleftrightarrow> fec_long grp"
    and lens: "take 2 (drop 10 m) = WriteBigEndian 2 n"
    using img long_bit unfolding fec_image_def Let_def base_def by simp_all
  have b0: "get_byte (hdr @ m) 12 = (Ok (m ! 0) :: ('e, u8) outcome)"
    using hdr len base by (auto simp: get_byte_def nth_append)
  have ml: "unat (media_length (hdr @ m)) = base + unat n"
    using media_length_unat [of "hdr @ m"] hdr len n base by (auto split: if_splits)
  have pl: "read_be16 (hdr @ m) (12 + 10) = (Ok n :: ('e, u16) outcome)"
    using lens len base hdr by (simp add: read_be16_def get_bytes_def)
  have head: "get_bytes (hdr @ m) 12 8 = (Ok (take 8 m) :: ('e, bytes) outcome)"
    using hdr len base by (simp add: get_bytes_def)
  have rl: "get_bytes (hdr @ m) (12 + 8) 2 = (Ok (take 2 (drop 8 m)) :: ('e, bytes) outcome)"
    using hdr len base by (simp add: get_bytes_def)
  have body: "get_bytes (hdr @ m) (12 + base) (unat n) = (Ok (drop base m) :: ('e, bytes) outcome)"
    using hdr len by (simp add: get_bytes_def)
  have hl: "10 + 2 + (if m ! 0 AND 64 \<noteq> 0 then 6 else 2) = base" using m0 base by simp
  have c: "(base + unat n \<le> base) = False" "(unat n < base + unat n - base) = False" using n by simp_all
  show ?thesis
    unfolding recover_bytes_def kFixedBufferLength_def kUlpfecHeaderLength_def ulpfec_constants Let_def
    by (simp only: b0 obind.simps hl ml c if_False pl head body rl run [folded base_def] prod.case option.case)
qed

lemma recover_bytes_missing:
  assumes img: "fec_image grp n m" and hdr: "length hdr = 12" and n: "unat n \<le> 32767"
    and all: "mset (map snd grp) = mset (b # bs)" and ok: "\<forall>x \<in> set (b # bs). fec_size_ok x \<and> length x - 12 \<le> unat n"
    and payload: "12 < length b" and mh: "media_header seq (dec_ssrc c) b"
  shows "recover_bytes (Some c) (hdr @ m) seq bs = (Ok (Some b) :: ('e, bytes option) outcome)"
proof -
  define s where "s = (take 8 m @ replicate 4 0 @ drop (12 + fec_mask_bytes grp) m, take 2 (drop 8 m))"
  have b: "fec_size_ok b" "12 \<le> length b" "length b - 12 \<le> unat n" using ok payload by auto
  have len: "length m = 12 + fec_mask_bytes grp + unat n" using img unfolding fec_image_def Let_def by blast
  have "length (fst s) = 12 + unat n" "length (snd s) = 2" using len by (simp_all add: s_def)
  moreover have "\<forall>x \<in> set bs. fec_size_ok x \<and> length x \<le> 12 + unat n \<and> length x - 12 \<le> unat n"
    using ok by auto
  ultimately obtain s' where run: "ofold (xor_media n) bs s = (Ok s' :: ('e, bytes \<times> bytes) outcome)"
    and filled: "media_filled bs s s'"
    using xor_media_all [of bs s n, where 'e = 'e] by auto
  obtain r l where s': "s' = (r, l)" by (cases s')
  from nearly_recovered_after [OF img all b(1) s_def filled]
  have near: "nearly_recovered (fec_long grp) bs b (r, l)" and lr: "length r = 12 + unat n" by (simp_all add: s')
  obtain r1 where 1: "put_bytes 8 (WriteBigEndian 4 (dec_ssrc c)) r = (Ok r1 :: ('e, bytes) outcome)" "length r1 = length r"
    using lr b payload by (auto simp: put_bytes_def)
  obtain r2 where 2: "put_bytes 2 (WriteBigEndian 2 seq) r1 = (Ok r2 :: ('e, bytes) outcome)" "length r2 = length r"
    using lr 1(2) by (auto simp: put_bytes_def)
  have "r2 \<noteq> []" using 2(2) lr by auto
  define r3 where "r3 = r2[0 := ((r2 ! 0) AND 0x3f) OR 0x80]"
  have result: "recover_bytes (Some c) (hdr @ m) seq bs
      = (Ok (Some (take (unat (ReadBigEndian l :: u16) + 12) r3)) :: ('e, bytes option) outcome)"
    using recover_bytes_unfold [OF img hdr _ n run [unfolded s_def s']] payload b(3) 1 2 lr \<open>r2 \<noteq> []\<close>
    by (simp add: and_at_def or_at_def r3_def)
  have "unat (ReadBigEndian l :: u16) + 12 = length b"
    using near b payload by (simp add: nearly_recovered_def media_length_unat fec_size_ok_def)
  moreover have "take (length b) r3 = b"
  proof (rule nth_equalityI)
    show "length (take (length b) r3) = length b" using lr 2(2) b by (simp add: r3_def)
    fix i assume "i < length (take (length b) r3)"
    then have i: "i < length b" "i < length r" using lr b by auto
    have "i = 0 \<or> i \<in> {2, 3} \<or> i \<in> {8, 9, 10, 11} \<or> i \<in> {1, 4, 5, 6, 7} \<or> 12 \<le> i"
      by (simp only: insert_iff empty_iff) presburger
    moreover have r2: "r2 ! i = (if i \<in> {2, 3} then WriteBigEndian 2 seq ! (i - 2)
        else if i \<in> {8, 9, 10, 11} then WriteBigEndian 4 (dec_ssrc c) ! (i - 8) else r ! i)"
      using put_bytes_nth [OF 1(1), of i] put_bytes_nth [OF 2(1), of i] i 1(2) by auto
    moreover have "((r ! 0) AND 0x3f) OR 0x80 = b ! 0"
      using near first_octet [of "b ! 0" "if fec_long grp then 0x40 else 0" "b ! 0 XOR group_xor 12 bs 0"
          "group_xor 12 bs 0"] mh
      by (simp add: nearly_recovered_def media_header_def xor.assoc)
    ultimately have "r3 ! i = b ! i"
      using i near media_header_nth [OF mh b(2), of i] 2(2) unfolding r3_def nearly_recovered_def
      by (auto simp: nth_list_update)
    then show "take (length b) r3 ! i = b ! i" using i by simp
  qed
  ultimately show ?thesis using result by simp
qed

section \<open>The FEC packet on the wire\<close>

text \<open>A media packet FEC can carry: no extension and padding, which the parser confuses, and at most
  32767 bytes after the fixed header.\<close>

definition fec_media_ok :: "rtp_packet \<Rightarrow> bool" where
  "fec_media_ok p \<longleftrightarrow> extension p = None \<and> pad_size p = 0 \<and> length (csrcs p) \<le> 15 \<and> fec_size_ok (rtp_image p)"

definition media_data :: "rtp_packet \<Rightarrow> rtp_packet_data" where "media_data p = (p, rtp_image p)"

lemma media_data_simps [simp]: "fst (media_data p) = p" "snd (media_data p) = rtp_image p"
  by (simp_all add: media_data_def)

lemma rtp_image_media_header:
  assumes "fec_media_ok p"
  shows "media_header (sequence_number p) (ssrc p) (rtp_image p)"
proof -
  have "rtp_head p = 0x80 OR of_nat (length (csrcs p))"
    using assms by (simp add: rtp_head_def fec_media_ok_def)
  then show ?thesis
    using head_bits [of "length (csrcs p)"] assms
    by (simp add: media_header_def rtp_image_parts fec_media_ok_def)
qed

text \<open>A FEC packet as the receiver gets it, after the caller has set its time stamp and number.\<close>

definition sent_fec :: "fec_encoder_config \<Rightarrow> bytes \<Rightarrow> u32 \<Rightarrow> u16 \<Rightarrow> rtp_packet" where
  "sent_fec c m ts seq = SetSequenceNumber seq (SetTimestamp ts (rtp_empty\<lparr>octet_m_pt := enc_payload_type c,
     ssrc := enc_ssrc c, payload_buffer := Some m\<rparr>))"

lemma sent_fec_image: "\<exists>hdr. rtp_image (sent_fec c m ts seq) = hdr @ m \<and> length hdr = 12"
proof -
  have "rtp_image (sent_fec c m ts seq) = fixed_image (sent_fec c m ts seq) @ m"
    by (subst rtp_image_plain)
      (simp_all add: sent_fec_def SetSequenceNumber_def SetTimestamp_def rtp_empty_def payload_bytes_def)
  then show ?thesis by (intro exI [of _ "fixed_image (sent_fec c m ts seq)"]) simp
qed

lemma BuildFecPacket_image:
  assumes "fec_group grp" and "\<forall>x \<in> set grp. length (snd x) - 12 \<le> unat n"
  shows "\<exists>m. BuildFecPacket c grp n = (Ok (sent_fec c m 0 0) :: ('e, rtp_packet) outcome) \<and> fec_image grp n m"
proof -
  obtain m where m: "fec_payload_of grp n = (Ok m :: ('e, bytes) outcome)" "fec_image grp n m"
    using fec_payload_of_image [OF assms] by blast
  have "length m \<le> 18 + unat n" using m(2) by (auto simp: fec_image_def Let_def fec_mask_bytes_def)
  then have "length m + 12 \<le> 4294967295" using u16_bound [of n] by simp
  then show ?thesis using m
    by (simp add: BuildFecPacket_def StoreFields_def Let_def extension_size_def sent_fec_def
        SetSequenceNumber_def SetTimestamp_def rtp_empty_def)
qed

lemma max_media_length_ge:
  assumes "\<forall>x \<in> set grp. fec_size_ok (snd x)"
  shows "x \<in> set grp \<Longrightarrow> length (snd x) - 12 \<le> unat (max_media_length grp)" and "unat (max_media_length grp) \<le> 32767"
proof -
  have len: "unat (media_length (snd x)) = length (snd x) - 12" if "x \<in> set grp" for x
    using assms that by (auto simp: fec_size_ok_def media_length_unat)
  have fold: "v \<le> fold (\<lambda>p n. max n (media_length (snd p))) xs v
      \<and> (\<forall>x \<in> set xs. media_length (snd x) \<le> fold (\<lambda>p n. max n (media_length (snd p))) xs v)" for v xs
  proof (induction xs arbitrary: v)
    case (Cons x xs)
    have "v \<le> max v (media_length (snd x))" "media_length (snd x) \<le> max v (media_length (snd x))" by simp_all
    then show ?case using Cons.IH [of "max v (media_length (snd x))"] by (auto intro: order_trans)
  qed simp
  show "length (snd x) - 12 \<le> unat (max_media_length grp)" if "x \<in> set grp"
    using fold [of 0 grp] that unfolding len [OF that, symmetric]
    by (auto simp: max_media_length_def word_le_nat_alt)
  have "fold (\<lambda>p n. max n (media_length (snd p))) xs v \<le> 32767"
    if "v \<le> 32767" "\<forall>x \<in> set xs. media_length (snd x) \<le> 32767" for v and xs :: "rtp_packet_data list"
    using that by (induction xs arbitrary: v) auto
  moreover have "\<forall>x \<in> set grp. media_length (snd x) \<le> 32767"
    using assms len by (auto simp: word_le_nat_alt fec_size_ok_def)
  ultimately show "unat (max_media_length grp) \<le> 32767"
    by (simp add: max_media_length_def word_le_nat_alt)
qed

lemma recover_lost:
  assumes grp: "fec_group (map media_data ps)" and img: "fec_image (map media_data ps) (max_media_length (map media_data ps)) m"
    and perm: "mset ps = mset (p # others)" and ok: "\<forall>q \<in> set ps. fec_media_ok q"
    and payload: "payload_bytes p \<noteq> []" and cfg: "dec_ssrc d = ssrc p" "dec_payload_type d \<noteq> payload_type p"
  shows "FecRecoverPacket (Some d) fresh (rtp_image (sent_fec c m ts seq)) (sequence_number p) (map rtp_image others)
    = (Ok (Some (new_cached fresh (p\<lparr>csrcs := map byte_swap (csrcs p)\<rparr>) (rtp_image p))) :: ('e, fec_cached option) outcome)"
proof -
  let ?n = "max_media_length (map media_data ps)"
  have mem: "p \<in> set ps" "set others \<subseteq> set ps"
    using mset_eq_setD [OF perm] by auto
  have sizes: "\<forall>x \<in> set (map media_data ps). fec_size_ok (snd x)" using ok by (auto simp: fec_media_ok_def)
  have p: "fec_media_ok p" using ok mem by blast
  obtain hdr where hdr: "rtp_image (sent_fec c m ts seq) = hdr @ m" "length hdr = 12"
    using sent_fec_image by blast
  have "12 < length (rtp_image p)"
    using p payload rtp_image_plain [of p] by (simp add: fec_media_ok_def)
  moreover have "mset (map snd (map media_data ps)) = mset (rtp_image p # map rtp_image others)"
    using arg_cong [OF perm, of "image_mset rtp_image"] by (simp add: comp_def)
  moreover have "fec_size_ok x \<and> length x - 12 \<le> unat ?n" if x: "x \<in> set (rtp_image p # map rtp_image others)" for x
  proof -
    obtain q where "q \<in> set ps" "x = rtp_image q" using x mem by auto
    then show ?thesis using max_media_length_ge(1) [OF sizes, of "media_data q"] ok by (auto simp: fec_media_ok_def)
  qed
  moreover have "unat ?n \<le> 32767" using max_media_length_ge(2) [OF sizes] .
  moreover have "media_header (sequence_number p) (dec_ssrc d) (rtp_image p)"
    using rtp_image_media_header [OF p] cfg(1) by simp
  ultimately have "recover_bytes (Some d) (hdr @ m) (sequence_number p) (map rtp_image others)
      = (Ok (Some (rtp_image p)) :: ('e, bytes option) outcome)"
    using img hdr(2) by (intro recover_bytes_missing [of "map media_data ps" ?n m]) auto
  moreover have "payload_buffer p \<noteq> Some []" and some: "payload_buffer p \<noteq> None"
    using payload by (auto simp: payload_bytes_def split: option.splits)
  then have "StorePacket rtp_empty (rtp_image p) = Ok (p\<lparr>csrcs := map byte_swap (csrcs p)\<rparr>)"
    using p by (intro rtp_roundtrip) (auto simp: fec_media_ok_def)
  ultimately show ?thesis using cfg(2) some
    by (simp add: FecRecoverPacket_def hdr(1) DecodeFecInfo_def new_cached_def payload_type_def)
qed

end
