(* ===== verification/Ulp_Fec_Mask_Correct.thy ===== *)
theory Ulp_Fec_Mask_Correct
  imports Ulp_Fec_Mask
begin

text \<open>
  What the masks of \<open>Ulp_Fec_Mask\<close> guarantee: a lookup returns the row block of the table it is
  meant to; the generated mask protects every media packet, has no empty row (the encoder takes
  \<open>front()\<close> of each row's packets) and names no packet that does not exist (the encoder indexes
  the packets with it). This holds for equal protection and for two of the three unequal methods;
  the third writes outside the array.
\<close>

section \<open>What a mask must be\<close>

text \<open>Bit \<open>i\<close> from the left of row \<open>r\<close>, for rows of \<open>width\<close> bytes.\<close>

definition mask_bit :: "bytes \<Rightarrow> nat \<Rightarrow> nat \<Rightarrow> nat \<Rightarrow> bool" where
  "mask_bit m width r i = bit (m ! (r * width + i div 8)) (7 - i mod 8)"

text \<open>Row \<open>r\<close> is a mask of some of the first \<open>n\<close> packets, and all rows together of all of them.\<close>

definition row_ok :: "nat \<Rightarrow> bytes \<Rightarrow> nat \<Rightarrow> nat \<Rightarrow> bool" where
  "row_ok n m width r \<longleftrightarrow> list_ex (mask_bit m width r) [0..<n]
     \<and> list_all (\<lambda>i. \<not> mask_bit m width r i) [n..<8 * width]"

definition protects :: "nat \<Rightarrow> bytes \<Rightarrow> nat \<Rightarrow> nat \<Rightarrow> bool" where
  "protects n m width f \<longleftrightarrow> list_all (row_ok n m width) [0..<f]
     \<and> list_all (\<lambda>i. list_ex (\<lambda>r. mask_bit m width r i) [0..<f]) [0..<n]"

lemma protects_iff:
  "protects n m width f \<longleftrightarrow> (\<forall>r < f. row_ok n m width r) \<and> (\<forall>i < n. \<exists>r < f. mask_bit m width r i)"
  by (simp add: protects_def list_all_iff list_ex_iff Bex_def Ball_def)

lemma row_ok_iff:
  "row_ok n m width r \<longleftrightarrow> (\<exists>i < n. mask_bit m width r i) \<and> (\<forall>i. n \<le> i \<longrightarrow> i < 8 * width \<longrightarrow> \<not> mask_bit m width r i)"
  by (auto simp: row_ok_def list_all_iff list_ex_iff)

lemma mask_bit_cong:
  "(\<And>j. j < width \<Longrightarrow> m ! (r * width + j) = m' ! (r' * width + j)) \<Longrightarrow> i < 8 * width \<Longrightarrow>
   mask_bit m width r i = mask_bit m' width r' i"
  unfolding mask_bit_def by (simp add: less_mult_imp_div_less mult.commute)

lemma row_ok_cong:
  assumes "\<And>j. j < width \<Longrightarrow> m ! (r * width + j) = m' ! (r' * width + j)" and "n \<le> 8 * width"
  shows "row_ok n m width r = row_ok n m' width r'"
  using mask_bit_cong [OF assms(1)] assms(2) unfolding row_ok_iff by (metis order_less_le_trans)

section \<open>The tables\<close>

text \<open>A table is a count followed by blocks; a block is a count \<open>n\<close> followed by the masks for
  \<open>1 .. n\<close> FEC packets.\<close>

definition mask_block_image :: "bytes list \<Rightarrow> bytes" where
  "mask_block_image ms = of_nat (length ms) # concat ms"

definition table_image :: "bytes list list \<Rightarrow> bytes" where
  "table_image blocks = of_nat (length blocks) # concat (map mask_block_image blocks)"

definition block_ok :: "nat \<Rightarrow> bytes list \<Rightarrow> bool" where
  "block_ok n ms \<longleftrightarrow> length ms = n
     \<and> list_all (\<lambda>f. length (ms ! f) = 2 * Suc f \<and> protects n (ms ! f) 2 (Suc f)) [0..<n]"

definition blocks_ok :: "bytes list list \<Rightarrow> bool" where
  "blocks_ok blocks \<longleftrightarrow> length blocks = 12 \<and> list_all (\<lambda>n. block_ok (Suc n) (blocks ! n)) [0..<12]"

definition bursty_blocks :: "bytes list list" where
  "bursty_blocks = [kMaskBursty1, kMaskBursty2, kMaskBursty3, kMaskBursty4, kMaskBursty5, kMaskBursty6,
     kMaskBursty7, kMaskBursty8, kMaskBursty9, kMaskBursty10, kMaskBursty11, kMaskBursty12]"

definition random_blocks :: "bytes list list" where
  "random_blocks = [kMaskRandom1, kMaskRandom2, kMaskRandom3, kMaskRandom4, kMaskRandom5, kMaskRandom6,
     kMaskRandom7, kMaskRandom8, kMaskRandom9, kMaskRandom10, kMaskRandom11, kMaskRandom12]"

lemma bursty_blocks_ok: "blocks_ok bursty_blocks"
  by code_simp

lemma random_blocks_ok: "blocks_ok random_blocks"
  by code_simp

lemma block_okD:
  assumes "blocks_ok blocks" and "1 \<le> n" and "n \<le> 12"
  shows "length (blocks ! (n - 1)) = n"
    and "1 \<le> f \<Longrightarrow> f \<le> n \<Longrightarrow> length (blocks ! (n - 1) ! (f - 1)) = 2 * f \<and> protects n (blocks ! (n - 1) ! (f - 1)) 2 f"
proof -
  have b: "block_ok (Suc (n - 1)) (blocks ! (n - 1))"
  proof -
    have "n - 1 \<in> set [0..<12]" using assms(2,3) by simp
    then show ?thesis using assms(1) unfolding blocks_ok_def list_all_iff by blast
  qed
  then show "length (blocks ! (n - 1)) = n" using assms(2) by (simp add: block_ok_def)
  show "length (blocks ! (n - 1) ! (f - 1)) = 2 * f \<and> protects n (blocks ! (n - 1) ! (f - 1)) 2 f"
    if "1 \<le> f" "f \<le> n"
  proof -
    have "f - 1 \<in> set [0..<Suc (n - 1)]" "Suc (f - 1) = f" "Suc (n - 1) = n" using that assms(2) by auto
    then show ?thesis using b unfolding block_ok_def list_all_iff by metis
  qed
qed

lemma bursty_table: "kPacketMaskBurstyTbl = table_image bursty_blocks"
  by code_simp

lemma random_table: "kPacketMaskRandomTbl = table_image random_blocks"
  by code_simp

section \<open>Lookup\<close>

definition masks_wf :: "bytes list \<Rightarrow> bool" where
  "masks_wf ms \<longleftrightarrow> length ms < 256 \<and> (\<forall>k < length ms. length (ms ! k) = 2 * Suc k)"

text \<open>Skipping \<open>k\<close> masks of a block moves past exactly their bytes.\<close>

lemma skip_masks_take:
  "masks_wf ms \<Longrightarrow> k \<le> length ms \<Longrightarrow> skip_masks 2 k entry = entry + length (concat (take k ms))"
proof (induction k)
  case 0
  then show ?case by (simp add: skip_masks_def)
next
  case (Suc k)
  then have "length (ms ! k) = 2 * Suc k" by (simp add: masks_wf_def)
  then show ?case using Suc by (simp add: skip_masks_def take_Suc_conv_app_nth)
qed

lemma skip_block_at:
  assumes "masks_wf ms" and "i \<noteq> 16" and "length pre = entry"
  shows "skip_block (pre @ mask_block_image ms @ post) i (2, entry)
    = (Ok (2, entry + length (mask_block_image ms)) :: ('e, nat \<times> nat) outcome)"
proof -
  have "unat (of_nat (length ms) :: u8) = length ms"
    using assms(1) by (simp add: masks_wf_def unat_of_nat)
  moreover have "skip_masks 2 (length ms) (entry + 1) = entry + 1 + length (concat ms)"
    using skip_masks_take [OF assms(1)] by simp
  ultimately show ?thesis using assms(2,3)
    by (simp add: skip_block_def mask_block_image_def get_byte_def nth_append)
qed

lemma skip_blocks_at:
  assumes "\<forall>ms \<in> set blocks. masks_wf ms" and "i \<le> length blocks" and "i \<le> 16"
  shows "ofold (skip_block (table_image blocks)) [0..<i] (2, 1)
    = (Ok (2, 1 + length (concat (map mask_block_image (take i blocks)))) :: ('e, nat \<times> nat) outcome)"
  using assms(2,3)
proof (induction i)
  case 0
  then show ?case by simp
next
  case (Suc i)
  let ?pre = "of_nat (length blocks) # concat (map mask_block_image (take i blocks))"
  have split: "table_image blocks = ?pre @ mask_block_image (blocks ! i) @ concat (map mask_block_image (drop (Suc i) blocks))"
    using Suc.prems id_take_nth_drop [of i blocks]
    by (simp add: table_image_def) (metis concat_append list.simps(9) map_append concat.simps(2) Suc_le_eq)
  have "masks_wf (blocks ! i)" using assms(1) Suc.prems by simp
  then have "skip_block (table_image blocks) i (2, length ?pre)
      = (Ok (2, length ?pre + length (mask_block_image (blocks ! i))) :: ('e, nat \<times> nat) outcome)"
    unfolding split using Suc.prems by (intro skip_block_at) auto
  moreover have "take (Suc i) blocks = take i blocks @ [blocks ! i]"
    using Suc.prems by (simp add: take_Suc_conv_app_nth)
  ultimately show ?case using Suc by (simp add: ofold_append)
qed

lemma lookup_table:
  assumes "\<forall>ms \<in> set blocks. masks_wf ms" and "i < length blocks" and "i < 16" and "k < length (blocks ! i)"
  shows "LookUpInFecTable (table_image blocks) (int i) (int k) = (Ok (blocks ! i ! k) :: ('e, bytes) outcome)"
proof -
  let ?ms = "blocks ! i"
  let ?pre = "of_nat (length blocks) # concat (map mask_block_image (take i blocks)) @ [of_nat (length ?ms)] @ concat (take k ?ms)"
  have wf: "masks_wf ?ms" using assms(1,2) by simp
  have "concat ?ms = concat (take k ?ms) @ ?ms ! k @ concat (drop (Suc k) ?ms)"
    using id_take_nth_drop [OF assms(4)] by (metis concat.simps(2) concat_append)
  moreover have "concat (map mask_block_image blocks) = concat (map mask_block_image (take i blocks)) @ mask_block_image ?ms
      @ concat (map mask_block_image (drop (Suc i) blocks))"
    using id_take_nth_drop [OF assms(2)] by (metis concat.simps(2) concat_append list.simps(9) map_append)
  ultimately have split: "table_image blocks = ?pre @ ?ms ! k @ (concat (drop (Suc k) ?ms)
      @ concat (map mask_block_image (drop (Suc i) blocks)))"
    by (simp add: table_image_def mask_block_image_def)
  have "length (?ms ! k) = 2 * Suc k" using wf assms(4) by (simp add: masks_wf_def)
  then have "get_bytes (table_image blocks) (length ?pre) (2 * Suc k) = (Ok (?ms ! k) :: ('e, bytes) outcome)"
    unfolding split by (intro get_bytes_at) auto
  moreover have "skip_masks 2 k (1 + length (concat (map mask_block_image (take i blocks))) + 1) = length ?pre"
    using skip_masks_take [OF wf, of k] assms(4) by simp
  moreover have "nat (int k + 1) = Suc k" by simp
  ultimately show ?thesis
    using assms(2,3) by (simp add: LookUpInFecTable_def skip_blocks_at [OF assms(1), simplified])
qed

section \<open>Contiguous writes\<close>

text \<open>A loop that writes consecutive items of a fixed width writes their concatenation.\<close>

lemma write_run:
  assumes "\<And>i. i < n \<Longrightarrow> length (g i) = w"
  shows "ofold (\<lambda>i. put_bytes (base + i * w) (g i)) [0..<n] m
    = (if n = 0 then Ok m else put_bytes base (concat (map g [0..<n])) m)"
  using assms
proof (induction n)
  case 0
  then show ?case by simp
next
  case (Suc n)
  have len: "length (concat (map g [0..<n])) = n * w"
    using length_concat_const [of "[0..<n]" g w] Suc.prems by (simp add: mult.commute)
  have step: "obind (put_bytes base (concat (map g [0..<n])) m) (put_bytes (base + n * w) (g n))
      = put_bytes base (concat (map g [0..<Suc n])) m"
    using put_bytes_append_last [of "base + n * w" base "concat (map g [0..<n])" m "g n"] len by simp
  show ?case
  proof (cases "n = 0")
    case False
    then show ?thesis using Suc step by (simp add: ofold_append del: upt_Suc) (simp add: ofold_append)
  qed simp
qed

definition interleaved_image :: "nat \<Rightarrow> nat \<Rightarrow> nat \<Rightarrow> bytes" where
  "interleaved_image m f width = concat (map (\<lambda>row. map (interleaved_byte m f row) [0..<width]) [0..<f])"

lemma length_interleaved_image [simp]: "length (interleaved_image m f width) = f * width"
  unfolding interleaved_image_def by (subst length_concat_const [where n = width]) auto

lemma write_interleaved_row:
  assumes "0 < width"
  shows "ofold (\<lambda>col. put_bytes (row * width + col) [interleaved_byte n f row col]) [0..<width]
    = put_bytes (0 + row * width) (map (interleaved_byte n f row) [0..<width])"
  using write_run [of width "\<lambda>col. [interleaved_byte n f row col]" 1 "row * width"] assms
  by (intro ext) (simp add: concat_map_singleton)

lemma write_interleaved_eq:
  assumes "0 < width"
  shows "write_interleaved n f width m = (if f = 0 then Ok m else put_bytes 0 (interleaved_image n f width) m)"
  unfolding write_interleaved_def write_interleaved_row [OF assms] interleaved_image_def
  by (rule write_run) simp

lemma bit_interleaved_byte:
  assumes "b < 8"
  shows "bit (interleaved_byte n f row col) (7 - b) \<longleftrightarrow> (col * 8 + b) mod f = row \<and> col * 8 + b < n"
proof -
  have "b \<in> {0, 1, 2, 3, 4, 5, 6, 7}" using assms by auto
  then show ?thesis
    by (elim insertE emptyE; simp add: interleaved_byte_def interleaved_bit_def bit_or_iff)
qed

lemma mask_bit_interleaved:
  assumes "r < f" and "i < 8 * width"
  shows "mask_bit (interleaved_image n f width @ rest) width r i \<longleftrightarrow> i mod f = r \<and> i < n"
proof -
  have i: "i div 8 < width" using assms(2) by (simp add: less_mult_imp_div_less mult.commute)
  have "r * width + i div 8 < f * width"
    using assms(1) i by (metis add.commute add_less_cancel_right less_le_trans mult_Suc mult_le_mono1 Suc_leI)
  moreover have "interleaved_image n f width ! (r * width + i div 8) = interleaved_byte n f r (i div 8)"
    unfolding interleaved_image_def
    by (subst nth_concat_const [where n = width]) (use assms(1) i in auto)
  moreover have "i div 8 * 8 + i mod 8 = i" by simp
  ultimately show ?thesis
    using bit_interleaved_byte [of "i mod 8" n f r "i div 8"] by (simp add: mask_bit_def nth_append)
qed

lemma interleaved_protects:
  assumes "1 \<le> f" and "f \<le> n" and "n \<le> 8 * width"
  shows "protects n (interleaved_image n f width @ rest) width f"
proof -
  have "row_ok n (interleaved_image n f width @ rest) width r" if "r < f" for r
  proof -
    have "mask_bit (interleaved_image n f width @ rest) width r r"
      using that assms by (subst mask_bit_interleaved) auto
    moreover have "r < n" using that assms by simp
    moreover have "\<not> mask_bit (interleaved_image n f width @ rest) width r i" if "n \<le> i" "i < 8 * width" for i
      using that mask_bit_interleaved [OF \<open>r < f\<close>, of i width] by simp
    ultimately show ?thesis unfolding row_ok_iff by blast
  qed
  moreover have "mask_bit (interleaved_image n f width @ rest) width (i mod f) i" if "i < n" for i
    using that assms by (subst mask_bit_interleaved) auto
  moreover have "i mod f < f" for i using assms by simp
  ultimately show ?thesis unfolding protects_iff by blast
qed

section \<open>Mask\<close>

text \<open>The blocks of the table \<open>PickTable\<close> returns.\<close>

definition blocks_of :: "fec_mask_type \<Rightarrow> nat \<Rightarrow> bytes list list" where
  "blocks_of t n = (if t \<noteq> kFecMaskRandom \<and> n \<le> 12 then bursty_blocks else random_blocks)"

lemma blocks_of_ok: "blocks_ok (blocks_of t n)"
  by (simp add: blocks_of_def bursty_blocks_ok random_blocks_ok)

lemma PickTable_image: "PickTable t n = table_image (blocks_of t n)"
proof -
  have "unat (kPacketMaskBurstyTbl ! 0) = 12" by (simp add: kPacketMaskBurstyTbl_def)
  then show ?thesis by (simp add: PickTable_def blocks_of_def bursty_table random_table)
qed

lemma blocks_wf:
  assumes "blocks_ok blocks" and "ms \<in> set blocks"
  shows "masks_wf ms"
proof -
  have len: "length blocks = 12" using assms(1) by (simp add: blocks_ok_def)
  then obtain i where i: "i < 12" and ms: "ms = blocks ! i" using assms(2) by (auto simp: in_set_conv_nth)
  have "block_ok (Suc i) ms" using assms(1) i unfolding blocks_ok_def list_all_iff ms by simp
  then show ?thesis using i unfolding block_ok_def list_all_iff masks_wf_def
    by (auto simp: less_Suc_eq)
qed

lemma Mask_table:
  assumes "1 \<le> n" and "n \<le> 12" and "1 \<le> f" and "f \<le> n"
  shows "\<exists>sub. Mask n f width (PickTable t k) m = (Ok (sub, m) :: ('e, bytes \<times> mask_array) outcome)
    \<and> length sub = 2 * f \<and> protects n sub 2 f"
proof -
  let ?bs = "blocks_of t k"
  have wf: "\<forall>ms \<in> set ?bs. masks_wf ms" using blocks_wf [OF blocks_of_ok] by blast
  have len: "n - 1 < length ?bs" using blocks_of_ok [of t k] assms(1,2) by (simp add: blocks_ok_def)
  note ok = block_okD [OF blocks_of_ok [of t k] assms(1,2)]
  have "LookUpInFecTable (table_image ?bs) (int (n - 1)) (int (f - 1)) = (Ok (?bs ! (n - 1) ! (f - 1)) :: ('e, bytes) outcome)"
    using assms ok(1) len by (intro lookup_table [OF wf]) auto
  moreover have "int (n - 1) = int n - 1" "int (f - 1) = int f - 1" using assms by auto
  ultimately have "Mask n f width (PickTable t k) m = (Ok (?bs ! (n - 1) ! (f - 1), m) :: ('e, bytes \<times> mask_array) outcome)"
    using assms(2) by (simp add: Mask_def PickTable_image)
  then show ?thesis using ok(2) [of f] assms by auto
qed

lemma Mask_interleaved:
  assumes "12 < n" and "1 \<le> f" and "0 < width" and "f * width \<le> length m"
  shows "Mask n f width table m = Ok (interleaved_image n f width, interleaved_image n f width @ drop (f * width) m)"
  using assms by (simp add: Mask_def write_interleaved_eq put_bytes_def get_bytes_def)

lemma PacketMaskSize_cases: "PacketMaskSize n = (if n \<le> 16 then 2 else 6)"
  by (simp add: PacketMaskSize_def ulpfec_constants)

lemma mask_fits:
  assumes "n \<le> 48" and "f \<le> n"
  shows "f * PacketMaskSize n \<le> 288" and "n \<le> 8 * PacketMaskSize n" and "0 < PacketMaskSize n"
  using assms by (auto simp: PacketMaskSize_cases)

text \<open>Whatever the source of the mask, it protects the packets and comes in rows of \<open>PacketMaskSize n\<close>.\<close>

lemma Mask_protects:
  assumes "1 \<le> n" and "n \<le> 48" and "1 \<le> f" and "f \<le> n" and "length m = 288"
  shows "\<exists>sub m'. Mask n f (PacketMaskSize n) (PickTable t k) m = (Ok (sub, m') :: ('e, bytes \<times> mask_array) outcome)
    \<and> length sub = f * PacketMaskSize n \<and> length m' = 288 \<and> protects n sub (PacketMaskSize n) f"
proof (cases "n \<le> 12")
  case True
  then have "PacketMaskSize n = 2" by (simp add: PacketMaskSize_cases)
  then show ?thesis
    using Mask_table [OF assms(1) True assms(3,4), of 2 t k m] assms(5) by (auto simp: mult.commute)
next
  case False
  note fit = mask_fits [OF assms(2,4)]
  have "protects n (interleaved_image n f (PacketMaskSize n)) (PacketMaskSize n) f"
    using interleaved_protects [of f n "PacketMaskSize n" "[]"] assms fit by simp
  then show ?thesis using False assms fit by (simp add: Mask_interleaved)
qed

section \<open>Stacking rows\<close>

lemma row_ok_append: "n \<le> 8 * w \<Longrightarrow> Suc r * w \<le> length a \<Longrightarrow> row_ok n (a @ b) w r = row_ok n a w r"
  by (rule row_ok_cong) (auto simp: nth_append)

lemma row_ok_shift: "n \<le> 8 * w \<Longrightarrow> length a = k * w \<Longrightarrow> row_ok n (a @ b) w (k + r) = row_ok n b w r"
  by (rule row_ok_cong) (auto simp: nth_append add_mult_distrib)

lemma row_ok_mono: "row_ok k m w r \<Longrightarrow> k \<le> n \<Longrightarrow> row_ok n m w r"
  unfolding row_ok_iff by (meson order_less_le_trans order_trans)

lemma mask_bit_append:
  assumes "length a = k * w" and "i < 8 * w"
  shows "mask_bit (a @ b) w (k + r) i = mask_bit b w r i"
  by (rule mask_bit_cong) (use assms in \<open>auto simp: nth_append add_mult_distrib\<close>)

lemma protects_stack:
  assumes "n \<le> 8 * w" and "length a = k * w" and "\<And>r. r < k \<Longrightarrow> row_ok n a w r"
    and "protects n b w f"
  shows "protects n (a @ b) w (k + f)"
proof -
  have "row_ok n (a @ b) w r" if "r < k + f" for r
  proof (cases "r < k")
    case True
    then have "Suc r * w \<le> length a" using assms(2) by (metis Suc_leI mult_le_mono1)
    then show ?thesis using assms(1,3) True row_ok_append by blast
  next
    case False
    then have "row_ok n (a @ b) w (k + (r - k))"
      using assms that row_ok_shift [OF assms(1,2), of b "r - k"] by (auto simp: protects_iff)
    then show ?thesis using False by simp
  qed
  moreover have "\<exists>r < k + f. mask_bit (a @ b) w r i" if i: "i < n" for i
  proof -
    obtain r where "r < f" "mask_bit b w r i" using assms(4) i by (auto simp: protects_iff)
    then have "mask_bit (a @ b) w (k + r) i" using mask_bit_append [OF assms(2)] assms(1) i by simp
    then show ?thesis using \<open>r < f\<close> by (intro exI [of _ "k + r"]) simp
  qed
  ultimately show ?thesis by (auto simp: protects_iff)
qed

lemma protects_append:
  assumes "n \<le> 8 * w" and "length a = f * w" and "protects n a w f"
  shows "protects n (a @ b) w f"
proof -
  have row: "Suc r * w \<le> length a" if "r < f" for r
    using that assms(2) by (metis Suc_leI mult_le_mono1)
  have "mask_bit (a @ b) w r i = mask_bit a w r i" if "r < f" "i < n" for r i
    using row [OF that(1)] assms(1) that(2) by (intro mask_bit_cong) (auto simp: nth_append)
  moreover have "row_ok n (a @ b) w r = row_ok n a w r" if "r < f" for r
    using row_ok_append [OF assms(1) row [OF that]] .
  ultimately show ?thesis using assms(3) unfolding protects_iff by (metis (no_types))
qed

section \<open>Fitting sub-masks\<close>

lemma FitSubMask_same:
  "length sub = f * w \<Longrightarrow> pos + f * w \<le> length m \<Longrightarrow>
   FitSubMask w w f sub pos m = Ok (take pos m @ sub @ drop (pos + f * w) m)"
  by (simp add: FitSubMask_def get_bytes_def put_bytes_def)

lemma row_end_le: "i < f \<Longrightarrow> j < w \<Longrightarrow> i * w + j < f * (w :: nat)"
  by (metis add.commute add_less_cancel_right less_le_trans mult_Suc mult_le_mono1 Suc_leI)

lemma FitSubMask_length:
  assumes "f * sw \<le> length sub" and "pos + f * w \<le> length m" and "sw \<le> w"
  shows "\<exists>m'. FitSubMask w sw f sub pos m = (Ok m' :: ('e, bytes) outcome) \<and> length m' = length m"
proof (cases "w = sw")
  case True
  then show ?thesis using assms by (simp add: FitSubMask_def get_bytes_def put_bytes_def)
next
  case False
  define P :: "bytes \<Rightarrow> bool" where "P = (\<lambda>m'. length m' = length m)"
  have "\<exists>m2. obind (get_byte sub (i * sw + j)) (\<lambda>b. put_bytes (pos + i * w + j) [b] m1) = (Ok m2 :: ('e, bytes) outcome) \<and> P m2"
    if "i < f" "j < sw" "P m1" for i j m1
    using row_end_le [OF that(1,2)] row_end_le [of i f j w] that assms
    by (simp add: get_byte_def put_bytes_def P_def)
  then have "\<exists>m'. ofold (\<lambda>i. ofold (\<lambda>j m. obind (get_byte sub (i * sw + j)) (\<lambda>b.
      put_bytes (pos + i * w + j) [b] m)) [0..<sw]) [0..<f] m = (Ok m' :: ('e, bytes) outcome) \<and> P m'"
    by (intro ofold_invariant) (auto simp: P_def)
  then show ?thesis using False by (simp add: FitSubMask_def P_def)
qed

section \<open>Unequal protection\<close>

lemma PacketMaskSize_le: "PacketMaskSize k \<le> PacketMaskSize n" if "k \<le> n"
  using that by (auto simp: PacketMaskSize_cases)

lemma rows_le: "a \<le> b \<Longrightarrow> a * w \<le> b * (w :: nat)"
  by (rule mult_le_mono1)

text \<open>The rows of the important packets. Up to twelve media packets they are proper mask rows.\<close>

lemma ImportantPacketProtection_ok:
  assumes "1 \<le> a" and "a \<le> k" and "k \<le> n" and "n \<le> 48" and "length m = 288"
  shows "\<exists>m'. ImportantPacketProtection a k (PacketMaskSize n) 0 (PickTable t n) m = (Ok m' :: ('e, bytes) outcome)
    \<and> length m' = 288 \<and> (n \<le> 12 \<longrightarrow> (\<forall>r < a. row_ok n m' 2 r))"
proof (cases "k \<le> 12")
  case True
  obtain sub where sub: "Mask k a (PacketMaskSize n) (PickTable t n) m = (Ok (sub, m) :: ('e, bytes \<times> mask_array) outcome)"
    "length sub = 2 * a" "protects k sub 2 a"
    using Mask_table [of k a "PacketMaskSize n" t n m] True assms by auto
  have 2: "PacketMaskSize k = 2" using True by (simp add: PacketMaskSize_cases)
  have len: "0 + a * PacketMaskSize n \<le> length m"
    using mask_fits(1) [of n a] assms by simp
  obtain m' where m': "FitSubMask (PacketMaskSize n) 2 a sub 0 m = (Ok m' :: ('e, bytes) outcome)" "length m' = length m"
    using FitSubMask_length [of a 2 sub 0 "PacketMaskSize n" m] PacketMaskSize_le [OF assms(3)] 2 len sub(2)
    by auto
  have "row_ok n m' 2 r" if "n \<le> 12" "r < a" for r
  proof -
    have "PacketMaskSize n = 2" using that by (simp add: PacketMaskSize_cases)
    then have "m' = sub @ drop (a * 2) m" using m' sub(2) len by (simp add: FitSubMask_same)
    moreover have "protects k (sub @ drop (a * 2) m) 2 a"
      using protects_append [of k 2 sub a] True sub by simp
    ultimately show ?thesis using that row_ok_mono assms(3) by (auto simp: protects_iff)
  qed
  then show ?thesis using sub m' assms(5) 2 by (auto simp: ImportantPacketProtection_def)
next
  case False
  let ?w = "PacketMaskSize n"
  have len: "a * ?w \<le> length m" using mask_fits(1) [of n a] assms by simp
  have M: "Mask k a ?w (PickTable t n) m
      = (Ok (interleaved_image k a ?w, interleaved_image k a ?w @ drop (a * ?w) m) :: ('e, bytes \<times> mask_array) outcome)"
    using False assms len by (intro Mask_interleaved) (auto simp: PacketMaskSize_cases)
  obtain m' where "FitSubMask ?w (PacketMaskSize k) a (interleaved_image k a ?w) 0
      (interleaved_image k a ?w @ drop (a * ?w) m) = (Ok m' :: ('e, bytes) outcome)" "length m' = length m"
    using FitSubMask_length [of a "PacketMaskSize k" "interleaved_image k a ?w" 0 ?w
        "interleaved_image k a ?w @ drop (a * ?w) m"] PacketMaskSize_le [OF assms(3)] len
    by auto
  then show ?thesis using M False assms by (auto simp: ImportantPacketProtection_def)
qed

text \<open>The rows of the remaining FEC packets, below the rows of the important ones.\<close>

lemma RemainingPacketProtection_overlap:
  assumes "1 \<le> rem" and "a \<le> rem" and "a + rem \<le> n" and "n \<le> 48" and "length m = 288"
    and "n \<le> 12 \<longrightarrow> (\<forall>r < a. row_ok n m 2 r)"
  shows "\<exists>m'. RemainingPacketProtection n rem a (PacketMaskSize n) kModeOverlap 0 (PickTable t n) m
      = (Ok m' :: ('e, bytes) outcome) \<and> length m' = 288 \<and> protects n m' (PacketMaskSize n) (a + rem)"
proof -
  let ?w = "PacketMaskSize n"
  have fit: "a * ?w + rem * ?w \<le> 288" "n \<le> 8 * ?w"
    using mask_fits [of n "a + rem"] assms by (auto simp: add_mult_distrib)
  obtain sub m2 where M: "Mask n rem ?w (PickTable t n) m = (Ok (sub, m2) :: ('e, bytes \<times> mask_array) outcome)"
    and sub: "length sub = rem * ?w" "length m2 = 288" "protects n sub ?w rem"
    and rows: "\<forall>r < a. row_ok n m2 ?w r"
  proof (cases "n \<le> 12")
    case True
    then have "?w = 2" by (simp add: PacketMaskSize_cases)
    then show thesis using that Mask_table [of n rem ?w t n m] True assms by (auto simp: mult.commute)
  next
    case False
    let ?I = "interleaved_image n rem ?w"
    have "protects n (?I @ drop (rem * ?w) m) ?w rem" "protects n (?I @ []) ?w rem"
      using assms fit by (intro interleaved_protects; simp)+
    then show thesis
      using that [of ?I "?I @ drop (rem * ?w) m"] False assms fit
      by (auto simp: Mask_interleaved protects_iff)
  qed
  let ?m' = "take (a * ?w) m2 @ sub @ drop (a * ?w + rem * ?w) m2"
  have top: "length (take (a * ?w) m2) = a * ?w" using fit sub by simp
  have "row_ok n (take (a * ?w) m2) ?w r" if r: "r < a" for r
  proof -
    have "Suc r * ?w \<le> length (take (a * ?w) m2)" using r top by (metis Suc_leI mult_le_mono1)
    then have "row_ok n (take (a * ?w) m2 @ drop (a * ?w) m2) ?w r = row_ok n (take (a * ?w) m2) ?w r"
      by (intro row_ok_append fit)
    then show ?thesis using rows r by simp
  qed
  then have "protects n ?m' ?w (a + rem)"
    using top fit sub by (intro protects_stack protects_append)
  moreover have "RemainingPacketProtection n rem a ?w kModeOverlap 0 (PickTable t n) m = (Ok ?m' :: ('e, bytes) outcome)"
    using M fit sub by (simp add: RemainingPacketProtection_def FitSubMask_same)
  ultimately show ?thesis using sub fit by auto
qed

lemma set_first_packet_ok:
  assumes "protects n m w f" and "i < f" and "0 < w" and "0 < n" and "f * w \<le> length m"
  shows "\<exists>m'. set_first_packet w 0 i m = (Ok m' :: ('e, bytes) outcome) \<and> length m' = length m \<and> protects n m' w f"
proof -
  have "i * w < f * w" using assms(2,3) by simp
  then have lt: "i * w < length m" using assms(5) by (rule order_less_le_trans)
  let ?m' = "m[i * w := m ! (i * w) OR push_bit 7 1]"
  have Ok: "set_first_packet w 0 i m = (Ok ?m' :: ('e, bytes) outcome)"
    using lt by (simp add: set_first_packet_def get_byte_def put_bytes_def upd_conv_take_nth_drop)
  have bits: "mask_bit ?m' w r j \<longleftrightarrow> mask_bit m w r j \<or> (r * w + j div 8 = i * w \<and> j mod 8 = 0)" for r j
  proof -
    have "bit (push_bit 7 1 :: u8) (7 - j mod 8) \<longleftrightarrow> j mod 8 = 0"
      by (subst bit_push_bit_iff) (auto simp: bit_1_iff)
    then show ?thesis using lt by (auto simp: mask_bit_def nth_list_update bit_or_iff)
  qed
  have first: "r = i \<and> j = 0" if "r * w + j div 8 = i * w" "j mod 8 = 0" "j < 8 * w" for r j
  proof -
    have "j div 8 < w" using that(3) by (simp add: less_mult_imp_div_less mult.commute)
    then have "(r * w + j div 8) div w = r" "(r * w + j div 8) mod w = j div 8" by simp_all
    then show ?thesis using that assms(3) by auto
  qed
  have "row_ok n ?m' w r" if "r < f" for r
    using that assms(1,4) bits first unfolding protects_iff row_ok_iff by (metis (no_types, lifting) not_le)
  then have "protects n ?m' w f" using assms(1) bits unfolding protects_iff by blast
  then show ?thesis using Ok by simp
qed

lemma RemainingPacketProtection_bias:
  assumes "1 \<le> f" and "f \<le> n" and "n \<le> 48" and "length m = 288"
  shows "\<exists>m'. RemainingPacketProtection n f 0 (PacketMaskSize n) kModeBiasFirstPacket 0 (PickTable t n) m
      = (Ok m' :: ('e, bytes) outcome) \<and> length m' = 288 \<and> protects n m' (PacketMaskSize n) f"
proof -
  let ?w = "PacketMaskSize n"
  note fit = mask_fits [OF assms(3,2)]
  obtain sub m2 where M: "Mask n f ?w (PickTable t n) m = (Ok (sub, m2) :: ('e, bytes \<times> mask_array) outcome)"
    and sub: "length sub = f * ?w" "length m2 = 288" "protects n sub ?w f"
    using Mask_protects [of n f m t n] assms by auto
  define P where "P = (\<lambda>m'. length m' = (288 :: nat) \<and> protects n m' ?w f)"
  have "P (sub @ drop (f * ?w) m2)"
    using protects_append [OF fit(2) sub(1,3)] sub fit by (simp add: P_def)
  moreover have "\<exists>s'. set_first_packet ?w 0 i s = (Ok s' :: ('e, bytes) outcome) \<and> P s'" if "i < f" "P s" for i s
    using set_first_packet_ok [of n s ?w f i] that fit assms by (auto simp: P_def)
  ultimately obtain m' where "ofold (set_first_packet ?w 0) [0..<f] (sub @ drop (f * ?w) m2) = (Ok m' :: ('e, bytes) outcome)" "P m'"
    using ofold_invariant [of "[0..<f]" P "set_first_packet ?w 0" "sub @ drop (f * ?w) m2"] by auto
  then show ?thesis
    using M fit sub by (simp add: RemainingPacketProtection_def P_def FitSubMask_same)
qed

section \<open>Properties\<close>

lemma GeneratePacketMasks_equal:
  assumes "1 \<le> f" and "f \<le> n" and "n \<le> 48" and "length m = 288"
  shows "\<exists>m'. GeneratePacketMasks n f 0 meth t (PacketMaskSize n) 0 m = (Ok m' :: ('e, bytes) outcome)
    \<and> length m' = 288 \<and> protects n m' (PacketMaskSize n) f"
proof -
  let ?w = "PacketMaskSize n"
  note fit = mask_fits [OF assms(3,2)]
  obtain sub m2 where M: "Mask n f ?w (PickTable t n) m = (Ok (sub, m2) :: ('e, bytes \<times> mask_array) outcome)"
    and sub: "length sub = f * ?w" "length m2 = 288" "protects n sub ?w f"
    using Mask_protects [of n f m t n] assms by auto
  then show ?thesis using protects_append [OF fit(2) sub(1,3)] fit
    by (auto simp: GeneratePacketMasks_def put_bytes_def)
qed

lemma GeneratePacketMasks_unequal:
  assumes "1 \<le> f" and "f \<le> n" and "n \<le> 48" and "1 \<le> k" and "k \<le> n" and "meth \<noteq> kModeNoOverlap"
    and "length m = 288"
  shows "\<exists>m'. GeneratePacketMasks n f k meth t (PacketMaskSize n) 0 m = (Ok m' :: ('e, bytes) outcome)
    \<and> length m' = 288 \<and> protects n m' (PacketMaskSize n) f"
proof (cases "meth = kModeBiasFirstPacket")
  case True
  then show ?thesis using RemainingPacketProtection_bias [of f n m t] assms
    by (simp add: GeneratePacketMasks_def UnequalProtectionMask_def)
next
  case False
  define a where "a = SetProtectionAllocation n f k"
  have a: "a \<le> f - a" "a \<le> k" "1 \<le> f - a" "a + (f - a) = f" "a < f"
    using assms(1) by (auto simp: a_def SetProtectionAllocation_def Let_def)
  have meth: "(if meth = kNone then kModeOverlap else meth) = kModeOverlap"
    using False assms(6) by (cases meth) auto
  define step where "step = (if a > 0 then ImportantPacketProtection a k (PacketMaskSize n) 0 (PickTable t n) m else Ok m
    :: ('e, bytes) outcome)"
  obtain m1 where m1: "step = (Ok m1 :: ('e, bytes) outcome)" "length m1 = 288" "n \<le> 12 \<longrightarrow> (\<forall>r < a. row_ok n m1 2 r)"
    using ImportantPacketProtection_ok [of a k n m t] a assms unfolding step_def by (cases "a = 0") auto
  have "GeneratePacketMasks n f k meth t (PacketMaskSize n) 0 m
      = obind step (RemainingPacketProtection n (f - a) a (PacketMaskSize n) kModeOverlap 0 (PickTable t n))"
    using assms(4) a meth
    by (simp add: GeneratePacketMasks_def UnequalProtectionMask_def step_def Let_def flip: a_def)
  then show ?thesis
    using RemainingPacketProtection_overlap [of "f - a" a n m1 t] a m1 assms by auto
qed

text \<open>C20: (safety, invariant) for up to 48 media packets, any number of FEC packets up to theirs, and every
  protection method except \<open>kModeNoOverlap\<close>, the masks are generated inside the array, each FEC
  packet protects at least one packet and only existing ones, and every packet is protected.\<close>

theorem masks_protect_all_packets:
  assumes "1 \<le> f" and "f \<le> n" and "n \<le> 48" and "k \<le> n" and "k = 0 \<or> meth \<noteq> kModeNoOverlap"
    and "length m = kFECPacketMaskMaxSize"
  shows "\<exists>m'. GeneratePacketMasks n f k meth t (PacketMaskSize n) 0 m = (Ok m' :: (unit, bytes) outcome)
    \<and> length m' = kFECPacketMaskMaxSize \<and> protects n m' (PacketMaskSize n) f"
  using GeneratePacketMasks_equal [of f n m meth t] GeneratePacketMasks_unequal [of f n k meth m t] assms
  by (cases "k = 0") (auto simp: ulpfec_constants)

theorem masks_protect_all_packets_witness:
  "\<exists>m'. GeneratePacketMasks 13 4 3 kNone kFecMaskBursty (PacketMaskSize 13) 0 (replicate 288 0) = (Ok m' :: (unit, bytes) outcome)
    \<and> length m' = kFECPacketMaskMaxSize \<and> protects 13 m' (PacketMaskSize 13) 4"
  by (rule masks_protect_all_packets) (simp_all add: ulpfec_constants del: replicate_numeral)

text \<open>An operation on the array that either leaves defined behaviour or keeps the array's length.\<close>

definition in_place :: "'e mask_op \<Rightarrow> bool" where
  "in_place op \<longleftrightarrow> (\<forall>m. crashes (op m) \<or> (\<exists>m'. op m = Ok m' \<and> length m' = length m))"

lemma in_place_put_bytes: "in_place (put_bytes off bs)"
  by (auto simp: in_place_def put_bytes_def)

lemma in_place_get_byte: "(\<And>b. in_place (op b)) \<Longrightarrow> in_place (\<lambda>m. obind (get_byte src off) (\<lambda>b. op b m))"
  by (auto simp: in_place_def get_byte_def)

lemma in_place_obind: "in_place op \<Longrightarrow> in_place op' \<Longrightarrow> in_place (\<lambda>m. obind (op m) op')"
  unfolding in_place_def
proof (intro allI)
  fix m
  assume op: "\<forall>m. crashes (op m) \<or> (\<exists>m'. op m = Ok m' \<and> length m' = length m)"
    and op': "\<forall>m. crashes (op' m) \<or> (\<exists>m'. op' m = Ok m' \<and> length m' = length m)"
  show "crashes (obind (op m) op') \<or> (\<exists>m'. obind (op m) op' = Ok m' \<and> length m' = length m)"
    using op [rule_format, of m] op' by (cases "op m") fastforce+
qed

lemma in_place_ofold: "(\<And>x. in_place (f x)) \<Longrightarrow> in_place (ofold f xs)"
proof (induction xs)
  case Nil
  then show ?case by (simp add: in_place_def)
next
  case (Cons x xs)
  have "ofold f (x # xs) = (\<lambda>m. obind (f x m) (ofold f xs))" by (rule ext) simp
  then show ?case using Cons by (simp add: in_place_obind)
qed

lemma crashes_obind: "crashes m \<Longrightarrow> crashes (obind m f)"
  by (cases m) auto

lemma crashes_obind_in_place:
  "in_place op \<Longrightarrow> length m = n \<Longrightarrow> (\<And>m'. length m' = n \<Longrightarrow> crashes (f m')) \<Longrightarrow> crashes (obind (op m) f)"
  unfolding in_place_def by (metis crashes_obind obind.simps(1))

lemma shift_fit_row_in_place: "in_place (shift_fit_row 6 6 c sub 0 i)"
proof -
  have "in_place (\<lambda>m. obind (ofold (\<lambda>j. shift_row_byte s sub (x + j) (y + j)) js m)
      (\<lambda>m. obind (get_byte sub y) (\<lambda>b. put_bytes x [drop_bit s b] m)))" for s x y js
    unfolding shift_row_byte_def
    by (intro in_place_obind in_place_ofold in_place_get_byte in_place_put_bytes)
  then show ?thesis by (simp add: shift_fit_row_def Let_def in_place_def)
qed

lemma last_row_crashes:
  assumes "8 \<le> c" and "length m = 288"
  shows "crashes (shift_fit_row 6 6 c sub 0 47 m :: ('e, bytes) outcome)"
proof -
  have "1 \<le> c div 8" using assms(1) by simp
  then have "crashes (shift_row_byte (c mod 8) sub (282 + c div 8 + 5) y m :: ('e, bytes) outcome)" for y
    using assms(2) by (simp add: shift_row_byte_def get_byte_def put_bytes_def)
  moreover have "rev [1..<6] = [5, 4, 3, 2, 1 :: nat]" by code_simp
  ultimately show ?thesis
    by (simp only: shift_fit_row_def Let_def ofold.simps) (simp add: crashes_obind add.assoc)
qed

text \<open>Above twelve packets the overlapping method loses the rows of the important packets:
  \<open>Mask\<close> builds the mask of the remaining FEC packets in the array itself, so the first rows are
  copies of those and the mask depends on the important packets only through their number of rows.\<close>

lemma overlap_loses_important_rows:
  assumes "12 < n" and "n \<le> 48" and "1 \<le> f" and "f \<le> n" and "1 \<le> k" and "k \<le> n"
    and "length m = kFECPacketMaskMaxSize" and "a = SetProtectionAllocation n f k"
  shows "\<exists>m'. GeneratePacketMasks n f k kModeOverlap t (PacketMaskSize n) 0 m = (Ok m' :: (unit, bytes) outcome)
    \<and> take (f * PacketMaskSize n) m' = take (a * PacketMaskSize n) (interleaved_image n (f - a) (PacketMaskSize n))
        @ interleaved_image n (f - a) (PacketMaskSize n)"
proof -
  let ?w = "PacketMaskSize n" and ?I = "interleaved_image n (f - a) (PacketMaskSize n)"
  have a: "a \<le> f - a" "a \<le> k" "1 \<le> f - a" "a + (f - a) = f" "a < f"
    using assms(3) by (auto simp: assms(8) SetProtectionAllocation_def Let_def)
  have m: "length m = 288" using assms(7) by (simp add: ulpfec_constants)
  have fit: "a * ?w + (f - a) * ?w \<le> 288" "f * ?w = a * ?w + (f - a) * ?w" "a * ?w \<le> (f - a) * ?w" "0 < ?w"
    using mask_fits [OF assms(2,4)] a rows_le [OF a(1)] by (metis add_mult_distrib)+
  define step where "step = (if a > 0 then ImportantPacketProtection a k ?w 0 (PickTable t n) m else Ok m
    :: (unit, bytes) outcome)"
  obtain m1 where m1: "step = Ok m1" "length m1 = 288"
    using ImportantPacketProtection_ok [of a k n m t] a assms m unfolding step_def by (cases "a = 0") auto
  have "RemainingPacketProtection n (f - a) a ?w kModeOverlap 0 (PickTable t n) m1
      = (Ok (take (a * ?w) ?I @ ?I @ drop (a * ?w + (f - a) * ?w) (?I @ drop ((f - a) * ?w) m1)) :: (unit, bytes) outcome)"
    using assms(1) a(3) fit m1(2)
    by (simp add: RemainingPacketProtection_def Mask_interleaved FitSubMask_same del: drop_append)
  moreover have "GeneratePacketMasks n f k kModeOverlap t ?w 0 m
      = obind step (RemainingPacketProtection n (f - a) a ?w kModeOverlap 0 (PickTable t n))"
    using assms(5) a
    by (simp add: GeneratePacketMasks_def UnequalProtectionMask_def step_def Let_def flip: assms(8))
  ultimately show ?thesis using m1(1) fit by simp
qed

lemma overlap_loses_important_rows_witness:
  "\<exists>m'. GeneratePacketMasks 13 4 2 kModeOverlap kFecMaskRandom (PacketMaskSize 13) 0 (replicate 288 0) = (Ok m' :: (unit, bytes) outcome)
    \<and> take (4 * PacketMaskSize 13) m' = take (2 * PacketMaskSize 13) (interleaved_image 13 (4 - 2) (PacketMaskSize 13))
        @ interleaved_image 13 (4 - 2) (PacketMaskSize 13)"
  by (rule overlap_loses_important_rows)
    (simp_all add: ulpfec_constants SetProtectionAllocation_def del: replicate_numeral)

text \<open>The method \<open>kModeNoOverlap\<close> writes past the end of \<open>fec_packet_mask_\<close> when 48 packets
  get 48 FEC packets and at least 8 of them are important.\<close>

lemma no_overlap_writes_out_of_bounds:
  assumes "8 \<le> k" and "k \<le> 48" and "length m = kFECPacketMaskMaxSize"
  shows "crashes (GeneratePacketMasks 48 48 k kModeNoOverlap t (PacketMaskSize 48) 0 m :: (unit, bytes) outcome)"
proof -
  define a where "a = SetProtectionAllocation 48 48 k"
  have a: "8 \<le> a" "a \<le> 24" "a \<le> k" using assms(1) by (auto simp: a_def SetProtectionAllocation_def Let_def)
  have m: "length m = 288" using assms(3) by (simp add: ulpfec_constants)
  have w: "PacketMaskSize 48 = 6" "PacketMaskSize (48 - a) = 6" using a by (auto simp: PacketMaskSize_cases)
  have rows: "[a..<48] = [a..<47] @ [47]" using a upt_Suc_append [of a 47] by simp
  have shift: "crashes (ShiftFitSubMask 6 6 a 48 sub 0 m' :: (unit, bytes) outcome)" if "length m' = 288" for sub m'
    unfolding ShiftFitSubMask_def rows ofold_append ofold_single
    using that a(1) last_row_crashes
    by (intro crashes_obind_in_place [where n = 288] in_place_ofold shift_fit_row_in_place)
  have "Mask (48 - a) (48 - a) 6 (PickTable t 48) m' = (Ok (interleaved_image (48 - a) (48 - a) 6,
      interleaved_image (48 - a) (48 - a) 6 @ drop ((48 - a) * 6) m') :: (unit, bytes \<times> mask_array) outcome)"
    if "length m' = 288" for m'
    using that a by (intro Mask_interleaved) auto
  then have rest: "crashes (RemainingPacketProtection 48 (48 - a) a 6 kModeNoOverlap 0 (PickTable t 48) m' :: (unit, bytes) outcome)"
    if "length m' = 288" for m'
    using that shift a by (simp add: RemainingPacketProtection_def Let_def w)
  obtain m1 where "ImportantPacketProtection a k 6 0 (PickTable t 48) m = (Ok m1 :: (unit, bytes) outcome)" "length m1 = 288"
    using ImportantPacketProtection_ok [of a k 48 m t] a assms(2) m w by auto
  then show ?thesis
    using rest a assms(1) by (simp add: GeneratePacketMasks_def UnequalProtectionMask_def Let_def w flip: a_def)
qed

lemma no_overlap_writes_out_of_bounds_witness:
  "crashes (GeneratePacketMasks 48 48 12 kModeNoOverlap kFecMaskRandom (PacketMaskSize 48) 0 (replicate 288 0) :: (unit, bytes) outcome)"
  by (rule no_overlap_writes_out_of_bounds) (simp_all add: ulpfec_constants del: replicate_numeral)

end
