(* ===== verification/Fec_Coverage.thy ===== *)
theory Fec_Coverage
  imports Fec_Recovery Ulp_Fec_Mask_Correct
begin

text \<open>
  The encoder as a whole: from the mask of a row to the group of packets it protects, from the FEC
  packet back to the numbers of the group, and the main property, that what \<open>FecEncode\<close> puts out
  restores any one lost packet.
\<close>

section \<open>From a mask row to a group\<close>

lemma byte_test: "k < 8 \<Longrightarrow> (drop_bit k 0x80 AND (b :: u8) \<noteq> 0) = bit b (7 - k)"
proof -
  assume "k < 8"
  then have "k \<in> {0, 1, 2, 3, 4, 5, 6, 7}" by auto
  then have "drop_bit k (0x80 :: u8) = push_bit (7 - k) 1" by (elim insertE emptyE; simp)
  then show ?thesis by (simp add: bit_iff_and_push_bit_not_eq_0 and.commute)
qed

lemma row_bit_mask:
  assumes "i < 8 * w" and "r * w + w \<le> length m"
  shows "row_bit m (r * w) i = (Ok (mask_bit m w r i) :: ('e, bool) outcome)"
proof -
  have "i div 8 < w" using assms(1) by (simp add: less_mult_imp_div_less mult.commute)
  then have "r * w + i div 8 < length m" using assms(2) by linarith
  moreover have "(drop_bit (i mod 8) 0x80 AND m ! (r * w + i div 8) \<noteq> 0) = mask_bit m w r i"
    unfolding mask_bit_def by (rule byte_test) simp
  ultimately show ?thesis by (simp add: row_bit_def get_byte_Ok)
qed

lemma group_of_row:
  assumes "row_ok n m w r" and "length media = n" and "r * w + w \<le> length m" and "k \<le> 8 * w"
  shows "ofold (add_to_group media m (r * w)) [0..<k] []
    = (Ok (map ((!) media) (filter (mask_bit m w r) [0..<k])) :: ('e, rtp_packet_data list) outcome)"
  using assms(4)
proof (induction k)
  case 0
  then show ?case by simp
next
  case (Suc k)
  have "row_bit m (r * w) k = (Ok (mask_bit m w r k) :: ('e, bool) outcome)"
    using Suc.prems assms(3) by (intro row_bit_mask) auto
  moreover have "k < n" if "mask_bit m w r k"
    using that assms(1) Suc.prems by (cases "k < n") (auto simp: row_ok_iff)
  ultimately have "add_to_group media m (r * w) k grp = (Ok (if mask_bit m w r k then grp @ [media ! k] else grp)
      :: ('e, rtp_packet_data list) outcome)" for grp
    using assms(2) by (simp add: add_to_group_def)
  then show ?case using Suc by (simp add: ofold_append)
qed

definition row_indices :: "nat \<Rightarrow> bytes \<Rightarrow> nat \<Rightarrow> nat \<Rightarrow> nat list" where
  "row_indices n m w r = filter (mask_bit m w r) [0..<n]"

lemma row_indices_full:
  assumes "row_ok n m w r" and "n \<le> 8 * w"
  shows "filter (mask_bit m w r) [0..<8 * w] = row_indices n m w r"
proof -
  have "[0..<8 * w] = [0..<n] @ [n..<8 * w]" using assms(2) upt_add_eq_append [of 0 n "8 * w - n"] by simp
  moreover have "filter (mask_bit m w r) [n..<8 * w] = []"
    using assms(1) by (auto simp: row_ok_iff filter_empty_conv)
  ultimately show ?thesis by (simp add: row_indices_def)
qed

text \<open>The packets of a frame, numbered without a gap.\<close>

definition frame :: "rtp_packet list \<Rightarrow> bool" where
  "frame ps \<longleftrightarrow> (\<forall>i < length ps. sequence_number (ps ! i) = sequence_number (ps ! 0) + of_nat i)"

definition ascending :: "nat list \<Rightarrow> bool" where "ascending idx \<longleftrightarrow> sorted_wrt (<) idx"

lemma ascending_bounds:
  "ascending idx \<Longrightarrow> i \<in> set idx \<Longrightarrow> hd idx \<le> i \<and> i \<le> last idx"
proof -
  assume "ascending idx" and i: "i \<in> set idx"
  then have s: "sorted idx" by (auto simp: ascending_def strict_sorted_iff)
  have "idx \<noteq> []" using i by auto
  then have "hd idx = idx ! 0" "last idx = idx ! (length idx - 1)" by (simp_all add: hd_conv_nth last_conv_nth)
  moreover obtain j where "j < length idx" "i = idx ! j" using i by (auto simp: in_set_conv_nth)
  ultimately show ?thesis using sorted_nth_mono [OF s, of 0 j] sorted_nth_mono [OF s, of j "length idx - 1"] by simp
qed

lemma frame_dist:
  assumes "frame ps" and "i \<le> j" and "j < length ps" and "j < 48"
  shows "fec_dist (sequence_number (ps ! i)) (media_data (ps ! j)) = j - i"
proof -
  have "sequence_number (ps ! j) - sequence_number (ps ! i) = (of_nat (j - i) :: u16)"
    using assms unfolding frame_def by (simp add: of_nat_diff)
  then have "DiffSeq (sequence_number (ps ! i)) (sequence_number (ps ! j)) = of_nat (j - i)" by (simp add: DiffSeq_eq)
  then show ?thesis using assms(4)
    by (simp add: fec_dist_def unat_of_nat unsigned_ucast_eq take_bit_eq_mod del: of_nat_diff)
qed

lemma frame_group:
  assumes "frame ps" and "length ps \<le> 48" and "idx \<noteq> []" and "ascending idx" and "\<forall>i \<in> set idx. i < length ps"
    and "\<forall>p \<in> set ps. fec_media_ok p"
  shows "fec_group (map media_data (map ((!) ps) idx))"
proof -
  have mem: "hd idx \<in> set idx" "last idx \<in> set idx" using assms(3) by simp_all
  have dist: "fec_dist (sequence_number (ps ! hd idx)) (media_data (ps ! i)) = i - hd idx" if "i \<in> set idx" for i
    using ascending_bounds [OF assms(4) that] assms(2,5) that
    by (intro frame_dist [OF assms(1)]) (auto intro: order_less_le_trans)
  have "fec_dist (sequence_number (ps ! hd idx)) (media_data (ps ! i))
      \<le> fec_dist (sequence_number (ps ! hd idx)) (media_data (ps ! last idx))" if "i \<in> set idx" for i
    using dist [OF that] dist [OF mem(2)] ascending_bounds [OF assms(4) that] by (simp add: diff_le_mono)
  moreover have "last idx < 48" using assms(2,5) mem(2) by fastforce
  moreover have "\<forall>i \<in> set idx. fec_size_ok (rtp_image (ps ! i))"
    using assms(5,6) by (auto simp: fec_media_ok_def)
  ultimately show ?thesis
    using assms(3) dist [OF mem(2)] by (auto simp: fec_group_def hd_map last_map)
qed

section \<open>From the FEC packet back to the numbers\<close>

lemma emplace_false_keys: "fst ` set (emplace_false k m) = insert k (fst ` set m)"
  by (induction k m rule: emplace_false.induct) auto

lemma emplace_false_values: "\<forall>e \<in> set m. \<not> snd e \<Longrightarrow> \<forall>e \<in> set (emplace_false k m). \<not> snd e"
  by (induction k m rule: emplace_false.induct) auto

lemma emplace_false_sorted:
  "sorted_wrt (<) (map fst m) \<Longrightarrow> sorted_wrt (<) (map fst (emplace_false k m))"
  by (induction k m rule: emplace_false.induct) (auto simp: emplace_false_keys)

definition fec_bit :: "bytes \<Rightarrow> nat \<Rightarrow> bool" where
  "fec_bit m i = bit (m ! (12 + i div 8)) (7 - i mod 8)"

lemma decode_mask_run:
  assumes "length hdr = 12" and "12 + w \<le> length m" and "k \<le> 8 * w"
  shows "\<exists>es. ofold (decode_mask_bit (hdr @ m) sb) [0..<k] [] = (Ok es :: ('e, (u16 \<times> bool) list) outcome)
    \<and> fst ` set es = {sb + of_nat i | i. i < k \<and> fec_bit m i} \<and> (\<forall>e \<in> set es. \<not> snd e)
    \<and> sorted_wrt (<) (map fst es)"
  using assms(3)
proof (induction k)
  case 0
  then show ?case by simp
next
  case (Suc k)
  then obtain es where es: "ofold (decode_mask_bit (hdr @ m) sb) [0..<k] [] = (Ok es :: ('e, (u16 \<times> bool) list) outcome)"
    "fst ` set es = {sb + of_nat i | i. i < k \<and> fec_bit m i}" "\<forall>e \<in> set es. \<not> snd e" "sorted_wrt (<) (map fst es)" by auto
  define es' where "es' = (if fec_bit m k then emplace_false (sb + of_nat k) es else es)"
  have "k div 8 < w" using Suc.prems by (simp add: less_mult_imp_div_less mult.commute)
  then have "get_byte (hdr @ m) (24 + k div 8) = (Ok (m ! (12 + k div 8)) :: ('e, u8) outcome)"
    using assms(1,2) by (simp add: get_byte_def nth_append)
  moreover have "(drop_bit (k mod 8) 0x80 AND m ! (12 + k div 8) \<noteq> 0) = fec_bit m k"
    unfolding fec_bit_def by (rule byte_test) simp
  ultimately have "decode_mask_bit (hdr @ m) sb k es = (Ok es' :: ('e, (u16 \<times> bool) list) outcome)"
    by (simp add: decode_mask_bit_def kFixedBufferLength_def kUlpfecHeaderLength_def es'_def)
  then have "ofold (decode_mask_bit (hdr @ m) sb) [0..<Suc k] [] = (Ok es' :: ('e, (u16 \<times> bool) list) outcome)"
    using es(1) by (simp add: ofold_append)
  moreover have "fst ` set es' = {sb + of_nat i | i. i < Suc k \<and> fec_bit m i}"
    using es(2) by (auto simp: es'_def emplace_false_keys less_Suc_eq)
  moreover have "\<forall>e \<in> set es'. \<not> snd e" "sorted_wrt (<) (map fst es')"
    using es(3,4) by (simp_all add: es'_def emplace_false_values emplace_false_sorted)
  ultimately show ?case by blast
qed

lemma mask_val_bit:
  assumes "i < 8 * w"
  shows "bit (mask_val d (12 + i div 8)) (7 - i mod 8) \<longleftrightarrow> d = i"
proof -
  have top: "bit (0x80 :: u8) n \<longleftrightarrow> n = 7" for n
    using bit_exp_iff [of 7 n, where 'a = "8 word"] by (auto simp: possible_bit_word)
  have "bit (drop_bit (d mod 8) (0x80 :: u8)) (7 - i mod 8) \<longleftrightarrow> d mod 8 + (7 - i mod 8) = 7"
    by (simp only: bit_drop_bit_eq comp_apply top)
  also have "\<dots> \<longleftrightarrow> d mod 8 = i mod 8"
  proof -
    have le: "a + (7 - b) = 7 \<longleftrightarrow> a = b" if "b < 8" for a b :: nat using that by auto
    show ?thesis by (rule le) simp
  qed
  finally have "bit (drop_bit (d mod 8) (0x80 :: u8)) (7 - i mod 8) \<longleftrightarrow> d mod 8 = i mod 8" .
  note bit = this
  show ?thesis
  proof (cases "d div 8 = i div 8")
    case True
    then have "d mod 8 = i mod 8 \<longleftrightarrow> d = i" using div_mult_mod_eq [of d 8] div_mult_mod_eq [of i 8] by auto
    then show ?thesis using True bit by (simp only: mask_val_def simp_thms if_True)
  next
    case False
    then have "12 + i div 8 \<noteq> 12 + d div 8" "d \<noteq> i" by auto
    then show ?thesis by (simp only: mask_val_def if_False bit_0_eq bot_apply simp_thms) simp
  qed
qed

lemma fec_image_bit:
  assumes "fec_image grp n m" and "i < 8 * fec_mask_bytes grp"
  shows "fec_bit m i \<longleftrightarrow> (\<exists>x \<in> set grp. fec_dist (sequence_number (fst (hd grp))) x = i)"
proof -
  have "i div 8 < fec_mask_bytes grp" using assms(2) by (simp add: less_mult_imp_div_less mult.commute)
  moreover have len: "length m = 12 + fec_mask_bytes grp + unat n"
    and bits: "\<forall>i < length m. 12 \<le> i \<and> i < 12 + fec_mask_bytes grp \<longrightarrow> (\<forall>k. bit (m ! i) k \<longleftrightarrow>
      (\<exists>x \<in> set grp. bit (mask_val (fec_dist (sequence_number (fst (hd grp))) x) i) k))"
    using assms(1) unfolding fec_image_def Let_def by blast+
  ultimately have "bit (m ! (12 + i div 8)) k \<longleftrightarrow>
      (\<exists>x \<in> set grp. bit (mask_val (fec_dist (sequence_number (fst (hd grp))) x) (12 + i div 8)) k)" for k
    by simp
  then show ?thesis unfolding fec_bit_def using mask_val_bit [OF assms(2)] by simp
qed

lemma fec_dist_number:
  assumes "seq_dist sb (sequence_number (fst x)) < 256"
  shows "sb + of_nat (fec_dist sb x) = sequence_number (fst x)"
proof -
  have "fec_dist sb x = unat (sequence_number (fst x) - sb)"
    using assms by (simp add: fec_dist_def DiffSeq_eq seq_dist_def unsigned_ucast_eq take_bit_eq_mod)
  then show ?thesis by simp
qed

text \<open>The decoder reads the numbers of exactly the packets of the group out of the FEC packet.\<close>

lemma decode_fec_info:
  assumes img: "fec_image grp n m" and grp: "fec_group grp" and pt: "payload_type q = fec_pt" and hdr: "length hdr = 12"
    and near: "\<forall>x \<in> set grp. seq_dist (sequence_number (fst (hd grp))) (sequence_number (fst x)) < 256"
  shows "\<exists>es. DecodeFecInfo fec_pt (new_cached j q (hdr @ m))
      = (Ok ((new_cached j q (hdr @ m))\<lparr>fc_is_fec := True, fc_protected := es\<rparr>) :: ('e, fec_cached) outcome)
    \<and> fst ` set es = (\<lambda>x. sequence_number (fst x)) ` set grp \<and> (\<forall>e \<in> set es. \<not> snd e) \<and> distinct (map fst es)"
proof -
  define w where "w = fec_mask_bytes grp"
  define sb where "sb = sequence_number (fst (hd grp))"
  have len: "length m = 12 + w + unat n" and base: "take 2 (drop 2 m) = WriteBigEndian 2 sb"
    and m0: "m ! 0 AND 0x40 \<noteq> 0 \<longleftrightarrow> fec_long grp"
    using img long_bit unfolding fec_image_def Let_def w_def sb_def by simp_all
  have w: "(if m ! 0 AND 64 \<noteq> 0 then 6 else 2) = w" using m0 by (simp add: w_def fec_mask_bytes_def)
  have in_mask: "fec_dist sb x < 8 * w" if "x \<in> set grp" for x
    using grp that by (auto simp: fec_group_def w_def sb_def fec_mask_bytes_def fec_long_def)
  obtain es where es: "ofold (decode_mask_bit (hdr @ m) sb) [0..<8 * w] [] = (Ok es :: ('e, (u16 \<times> bool) list) outcome)"
    "fst ` set es = {sb + of_nat i | i. i < 8 * w \<and> fec_bit m i}" "\<forall>e \<in> set es. \<not> snd e" "distinct (map fst es)"
    using strict_sorted_iff decode_mask_run [OF hdr, of w m "8 * w" sb, where 'e = 'e] len by auto
  have "fst ` set es = (\<lambda>x. sequence_number (fst x)) ` set grp"
  proof -
    have bit: "fec_bit m i \<longleftrightarrow> (\<exists>x \<in> set grp. fec_dist sb x = i)" if "i < 8 * w" for i
      using fec_image_bit [OF img, of i] that by (simp add: w_def sb_def)
    have "sb + of_nat (fec_dist sb x) = sequence_number (fst x)" if "x \<in> set grp" for x
      using near that by (intro fec_dist_number) (simp add: sb_def)
    note number = this
    show ?thesis unfolding es(2)
    proof (intro equalityI subsetI)
      fix s assume "s \<in> {sb + of_nat i | i. i < 8 * w \<and> fec_bit m i}"
      then obtain i where "i < 8 * w" "fec_bit m i" "s = sb + of_nat i" by blast
      then show "s \<in> (\<lambda>x. sequence_number (fst x)) ` set grp" using bit number by auto
    next
      fix s assume "s \<in> (\<lambda>x. sequence_number (fst x)) ` set grp"
      then obtain x where x: "x \<in> set grp" "s = sequence_number (fst x)" by blast
      then have "s = sb + of_nat (fec_dist sb x)" "fec_bit m (fec_dist sb x)" using number bit in_mask by auto
      then show "s \<in> {sb + of_nat i | i. i < 8 * w \<and> fec_bit m i}" using in_mask [OF x(1)] by blast
    qed
  qed
  moreover have "get_byte (hdr @ m) 12 = (Ok (m ! 0) :: ('e, u8) outcome)"
    using hdr len by (auto simp: get_byte_def nth_append)
  moreover have "read_be16 (hdr @ m) (12 + 2) = (Ok sb :: ('e, u16) outcome)"
    using hdr len base by (simp add: read_be16_def get_bytes_def)
  ultimately show ?thesis
    using es pt w by (auto simp: DecodeFecInfo_def new_cached_def Let_def kFixedBufferLength_def ulpfec_constants)
qed

section \<open>Encode\<close>

lemma fec_media_wf: "fec_media_ok p \<Longrightarrow> rtp_wf p"
  using length_rtp_image [of p] by (auto simp: fec_media_ok_def rtp_wf_def extension_wf_def fec_size_ok_def)

lemma check_packets_ok:
  assumes "\<forall>p \<in> set ps. fec_media_ok p \<and> ssrc p = enc_ssrc c"
    and "successively (\<lambda>p q. IsNextSeq (sequence_number p) (sequence_number q)) ps"
    and "\<And>s. last_seq = Some s \<Longrightarrow> ps \<noteq> [] \<Longrightarrow> IsNextSeq s (sequence_number (hd ps))"
  shows "check_packets fill (Some c) last_seq ps = Ok (map media_data ps)"
  using assms
proof (induction ps arbitrary: last_seq)
  case Nil
  then show ?case by simp
next
  case (Cons p ps)
  have "rtp_wf p" using Cons.prems(1) fec_media_wf by simp
  then obtain b where b: "LoadPacket fill p = Ok b" "db_contents b = rtp_image p" using LoadPacket_image by blast
  have "successively (\<lambda>p q. IsNextSeq (sequence_number p) (sequence_number q)) ps"
    using Cons.prems(2) by (cases ps) auto
  moreover have "IsNextSeq (sequence_number p) (sequence_number (hd ps))" if "ps \<noteq> []"
    using Cons.prems(2) that by (cases ps) auto
  ultimately have "check_packets fill (Some c) (Some (sequence_number p)) ps = Ok (map media_data ps)"
    using Cons.prems(1) by (intro Cons.IH) auto
  then show ?case using Cons.prems(1,3) b by (auto simp: media_data_def split: option.splits)
qed

lemma frame_successive:
  assumes "frame ps"
  shows "successively (\<lambda>p q. IsNextSeq (sequence_number p) (sequence_number q)) ps"
proof -
  have "IsNextSeq (sequence_number (ps ! i)) (sequence_number (ps ! Suc i))" if "Suc i < length ps" for i
  proof -
    have "sequence_number (ps ! Suc i) = sequence_number (ps ! 0) + of_nat (Suc i)"
      and "sequence_number (ps ! i) = sequence_number (ps ! 0) + of_nat i"
      using assms that unfolding frame_def by (meson Suc_lessD)+
    then show ?thesis by (simp add: IsNextSeq_iff add_ac)
  qed
  then show ?thesis by (auto simp: successively_conv_nth)
qed

lemma NumFecPackets_bounds:
  assumes "1 \<le> n" and "n \<le> 48" and "factor > 0"
  shows "1 \<le> unat (NumFecPackets (of_nat n) factor)" and "unat (NumFecPackets (of_nat n) factor) \<le> n"
proof -
  have f: "unat factor \<le> 255" using u8_bound [of factor] by simp
  have p: "n * unat factor \<le> n * 255" using f by simp
  have small: "n * unat factor \<le> 12240" using mult_le_mono [OF assms(2) f] by simp
  define x :: u32 where "x = of_nat n * ucast factor + push_bit 7 1"
  have "unat x = n * unat factor + 128" unfolding x_def
    using small assms(2) by (simp add: unat_word_ariths unat_of_nat)
  then have v: "unat (drop_bit 8 x) = (n * unat factor + 128) div 256"
    by (subst unat_drop_bit_eq) (simp add: drop_bit_eq_div)
  have "n * unat factor + 128 < Suc n * 256" using p unfolding mult_Suc by linarith
  then have "(n * unat factor + 128) div 256 < Suc n" by (rule less_mult_imp_div_less)
  then show "1 \<le> unat (NumFecPackets (of_nat n) factor)" "unat (NumFecPackets (of_nat n) factor) \<le> n"
    unfolding NumFecPackets_def Let_def x_def [symmetric]
    using v assms(1,3) by (auto simp: Suc_le_eq unat_gt_0)
qed

text \<open>What the FEC packet of one row restores: the decoder reads from it the numbers of its group, and
  with the other packets of the group it recovers \<open>p\<close> (whose CSRCs its parser reverses).\<close>

definition fec_restores :: "fec_decoder_config \<Rightarrow> rtp_packet \<Rightarrow> rtp_packet \<Rightarrow> rtp_packet list \<Rightarrow> bool" where
  "fec_restores d fec p others \<longleftrightarrow> (\<forall>ts seq j. let q = SetSequenceNumber seq (SetTimestamp ts fec) in
     (\<exists>cf. DecodeFecInfo (dec_payload_type d) (new_cached j q (rtp_image q)) = (Ok cf :: (unit, fec_cached) outcome)
        \<and> fc_is_fec cf \<and> fst ` set (fc_protected cf) = sequence_number ` set (p # others))
     \<and> FecRecoverPacket (Some d) j (rtp_image q) (sequence_number p) (map rtp_image others)
        = (Ok (Some (new_cached j (p\<lparr>csrcs := map byte_swap (csrcs p)\<rparr>) (rtp_image p))) :: (unit, fec_cached option) outcome))"

lemma sent_fec_set: "SetSequenceNumber seq (SetTimestamp ts (sent_fec c m 0 0)) = sent_fec c m ts seq"
  by (simp add: sent_fec_def SetSequenceNumber_def SetTimestamp_def)

lemma sent_fec_type: "enc_payload_type c < 128 \<Longrightarrow> payload_type (sent_fec c m ts seq) = enc_payload_type c"
proof -
  assume a: "enc_payload_type c < 128"
  have "drop_bit 1 0xff = (mask 7 :: u8)" by (simp add: mask_eq_exp_minus_1)
  then have "payload_type (sent_fec c m ts seq) = take_bit 7 (enc_payload_type c)"
    by (simp add: payload_type_def sent_fec_def SetSequenceNumber_def SetTimestamp_def take_bit_eq_mask and.commute)
  then show ?thesis using a by (simp add: take_bit_eq_mod word_arith_nat_mod word_less_nat_alt)
qed

lemma group_restores:
  assumes grp: "fec_group (map media_data ps)" and img: "fec_image (map media_data ps) (max_media_length (map media_data ps)) m"
    and near: "\<forall>q \<in> set ps. seq_dist (sequence_number (hd ps)) (sequence_number q) < 256"
    and perm: "mset ps = mset (p # others)" and ok: "\<forall>q \<in> set ps. fec_media_ok q" and payload: "payload_bytes p \<noteq> []"
    and cfg: "dec_ssrc d = ssrc p" "dec_payload_type d = enc_payload_type c" "enc_payload_type c \<noteq> payload_type p"
      "enc_payload_type c < 128"
  shows "fec_restores d (sent_fec c m 0 0) p others"
proof -
  have "ps \<noteq> []" using perm by auto
  then have hd: "sequence_number (fst (hd (map media_data ps))) = sequence_number (hd ps)" by (simp add: hd_map)
  have keys: "(\<lambda>x. sequence_number (fst x)) ` set (map media_data ps) = sequence_number ` set (p # others)"
    using mset_eq_setD [OF perm] by (simp add: image_image)
  have "\<exists>cf. DecodeFecInfo (dec_payload_type d) (new_cached j (sent_fec c m ts seq) (rtp_image (sent_fec c m ts seq)))
        = (Ok cf :: (unit, fec_cached) outcome) \<and> fc_is_fec cf \<and> fst ` set (fc_protected cf) = sequence_number ` set (p # others)"
    for j ts seq
  proof -
    obtain hdr where hdr: "rtp_image (sent_fec c m ts seq) = hdr @ m" "length hdr = 12" using sent_fec_image by blast
    have "\<forall>x \<in> set (map media_data ps). seq_dist (sequence_number (hd ps)) (sequence_number (fst x)) < 256"
      using near by simp
    then obtain es where "DecodeFecInfo (enc_payload_type c) (new_cached j (sent_fec c m ts seq) (hdr @ m))
        = (Ok ((new_cached j (sent_fec c m ts seq) (hdr @ m))\<lparr>fc_is_fec := True, fc_protected := es\<rparr>) :: (unit, fec_cached) outcome)"
      "fst ` set es = sequence_number ` set (p # others)"
      using decode_fec_info [OF img grp sent_fec_type [OF cfg(4), of m ts seq] hdr(2), where 'e = unit]
      unfolding hd keys by blast
    then show ?thesis unfolding cfg(2) hdr(1) by (intro exI conjI) (assumption | simp)+
  qed
  then show ?thesis
    using recover_lost [OF grp img perm ok payload cfg(1)] cfg
    unfolding fec_restores_def sent_fec_set Let_def by auto
qed

lemma row_indices_facts:
  assumes "row_ok n m w r"
  shows "row_indices n m w r \<noteq> []" and "ascending (row_indices n m w r)" and "\<forall>i \<in> set (row_indices n m w r). i < n"
  using assms by (auto simp: row_indices_def row_ok_iff ascending_def filter_empty_conv intro: sorted_wrt_filter)

lemma generate_row_ok:
  assumes row: "row_ok (length ps) arr w r" and arr: "r * w + w \<le> length arr" "length ps \<le> 8 * w" "length ps \<le> 48"
    and ps: "frame ps" "\<forall>p \<in> set ps. fec_media_ok p"
  defines "grp \<equiv> map ((!) ps) (row_indices (length ps) arr w r)"
  shows "\<exists>m. generate_row c (map media_data ps) arr w r = (Ok (sent_fec c m 0 0) :: ('e, rtp_packet) outcome)
    \<and> fec_group (map media_data grp) \<and> fec_image (map media_data grp) (max_media_length (map media_data grp)) m"
proof -
  let ?idx = "row_indices (length ps) arr w r"
  note idx = row_indices_facts [OF row]
  have g: "fec_group (map media_data grp)"
    unfolding grp_def by (rule frame_group [OF ps(1) arr(3) idx(1,2,3) ps(2)])
  have sizes: "\<forall>x \<in> set (map media_data grp). fec_size_ok (snd x)" using g by (auto simp: fec_group_def)
  obtain m where m: "BuildFecPacket c (map media_data grp) (max_media_length (map media_data grp))
      = (Ok (sent_fec c m 0 0) :: ('e, rtp_packet) outcome)"
    "fec_image (map media_data grp) (max_media_length (map media_data grp)) m"
    using BuildFecPacket_image [OF g, of "max_media_length (map media_data grp)" c, where 'e = 'e] max_media_length_ge(1) [OF sizes]
    by blast
  have "map ((!) (map media_data ps)) ?idx = map media_data grp" using idx(3) by (simp add: grp_def)
  moreover have "ofold (add_to_group (map media_data ps) arr (r * w)) [0..<w * 8] []
      = (Ok (map ((!) (map media_data ps)) ?idx) :: ('e, rtp_packet_data list) outcome)"
    using group_of_row [OF row, of "map media_data ps" "8 * w", where 'e = 'e] arr row_indices_full [OF row arr(2)]
    by (simp add: mult.commute)
  ultimately show ?thesis using m g by (auto simp: generate_row_def)
qed

lemma frame_near:
  assumes "frame ps" and "length ps \<le> 48" and "i \<le> j" and "j < length ps"
  shows "seq_dist (sequence_number (ps ! i)) (sequence_number (ps ! j)) < 256"
proof -
  have "sequence_number (ps ! j) - sequence_number (ps ! i) = (of_nat (j - i) :: u16)"
    using assms unfolding frame_def by (simp add: of_nat_diff)
  then show ?thesis using assms by (simp add: seq_dist_def unat_of_nat del: of_nat_diff)
qed

lemma frame_distinct:
  assumes "frame ps" and "length ps \<le> 48" and "i < length ps" and "j < length ps" and "ps ! i = ps ! j"
  shows "i = j"
proof -
  have "(of_nat i :: u16) = of_nat j" using assms unfolding frame_def by (metis add_left_cancel)
  then show ?thesis using assms(2-4) by (simp add: word_unat_eq_iff unat_of_nat)
qed

text \<open>The group of a row: what is needed of it to recover a packet.\<close>

lemma row_group:
  assumes row: "row_ok (length ps) arr w r" and len: "length ps \<le> 48" and ps: "frame ps"
  defines "grp \<equiv> map ((!) ps) (row_indices (length ps) arr w r)"
  shows "distinct grp" and "set grp \<subseteq> set ps"
    and "\<forall>q \<in> set grp. seq_dist (sequence_number (hd grp)) (sequence_number q) < 256"
proof -
  let ?idx = "row_indices (length ps) arr w r"
  note idx = row_indices_facts [OF row]
  have "distinct ?idx" using idx(2) by (simp add: ascending_def strict_sorted_iff)
  then show "distinct grp" using frame_distinct [OF ps len] idx(3) by (auto simp: grp_def distinct_map inj_on_def)
  show "set grp \<subseteq> set ps" using idx(3) by (auto simp: grp_def)
  show "\<forall>q \<in> set grp. seq_dist (sequence_number (hd grp)) (sequence_number q) < 256"
    using idx ascending_bounds [OF idx(2)] frame_near [OF ps len] by (auto simp: grp_def hd_map)
qed

lemma row_restores:
  assumes row: "row_ok (length ps) arr w r" and arr: "r * w + w \<le> length arr" "length ps \<le> 8 * w" "length ps \<le> 48"
    and ps: "frame ps" "\<forall>p \<in> set ps. fec_media_ok p" and i: "i < length ps" "mask_bit arr w r i"
    and payload: "payload_bytes (ps ! i) \<noteq> []"
    and cfg: "dec_ssrc d = ssrc (ps ! i)" "dec_payload_type d = enc_payload_type c"
      "enc_payload_type c \<noteq> payload_type (ps ! i)" "enc_payload_type c < 128"
  shows "\<exists>fec others. generate_row c (map media_data ps) arr w r = (Ok fec :: ('e, rtp_packet) outcome)
    \<and> set others \<subseteq> set ps - {ps ! i} \<and> fec_restores d fec (ps ! i) others"
proof -
  let ?idx = "row_indices (length ps) arr w r"
  define grp where "grp = map ((!) ps) ?idx"
  define others where "others = map ((!) ps) (remove1 i ?idx)"
  note idx = row_indices_facts [OF row]
  have mem: "i \<in> set ?idx" using i by (simp add: row_indices_def)
  have dist: "distinct ?idx" using idx(2) by (simp add: ascending_def strict_sorted_iff)
  have "mset ?idx = mset (i # remove1 i ?idx)" using mem by simp
  then have perm: "mset grp = mset (ps ! i # others)"
    unfolding grp_def others_def mset_map mset.simps by (metis image_mset_add_mset mset.simps(2))
  obtain m where m: "generate_row c (map media_data ps) arr w r = (Ok (sent_fec c m 0 0) :: ('e, rtp_packet) outcome)"
    "fec_group (map media_data grp)" "fec_image (map media_data grp) (max_media_length (map media_data grp)) m"
    using generate_row_ok [OF row arr ps, of c, where 'e = 'e] unfolding grp_def by blast
  have near: "\<forall>q \<in> set grp. seq_dist (sequence_number (hd grp)) (sequence_number q) < 256"
    unfolding grp_def by (rule row_group(3) [OF row arr(3) ps(1)])
  have "ps ! j \<noteq> ps ! i" if "j < length ps" "j \<noteq> i" for j
    using frame_distinct [OF ps(1) arr(3) that(1) i(1)] that(2) by blast
  then have "set others \<subseteq> set ps - {ps ! i}" using idx(3) dist by (auto simp: others_def)
  moreover have "\<forall>q \<in> set grp. fec_media_ok q" using ps(2) idx(3) by (auto simp: grp_def)
  then have "fec_restores d (sent_fec c m 0 0) (ps ! i) others"
    by (intro group_restores [OF m(2,3) near perm _ payload cfg])
  ultimately show ?thesis using m(1) by blast
qed

text \<open>The rows of the mask that \<open>Encode\<close> clears and then fills.\<close>

lemma protected_rows:
  assumes "protects n arr w f" and "f * w \<le> length arr" and "r < f"
  shows "row_ok n arr w r" and "r * w + w \<le> length arr"
proof -
  show "row_ok n arr w r" using assms(1,3) by (simp add: protects_iff)
  have "Suc r * w \<le> f * w" using assms(3) by (intro mult_le_mono1) simp
  then show "r * w + w \<le> length arr" using assms(2) by simp
qed

lemma frame_masks:
  assumes "1 \<le> n" "n \<le> 48" and "1 \<le> f" "f \<le> n" and "length old = 288" and "k \<le> n" and "k = 0 \<or> meth \<noteq> kModeNoOverlap"
  defines "w \<equiv> PacketMaskSize n"
  obtains arr0 arr where "put_bytes 0 (replicate (f * w) 0) old = (Ok arr0 :: (fec_error, bytes) outcome)"
    and "GeneratePacketMasks n f k meth t w 0 arr0 = (Ok arr :: (fec_error, bytes) outcome)"
    and "length arr = 288" and "protects n arr w f"
proof -
  define arr0 where "arr0 = replicate (f * w) 0 @ drop (f * w) old"
  have fit: "f * w \<le> 288" using mask_fits [OF assms(2,4)] by (simp add: w_def)
  have "put_bytes 0 (replicate (f * w) 0) old = (Ok arr0 :: (fec_error, bytes) outcome)"
    using fit assms(5) by (simp add: put_bytes_def arr0_def)
  moreover have "length arr0 = 288" using fit assms(5) by (simp add: arr0_def)
  then obtain arr where "GeneratePacketMasks n f k meth t w 0 arr0 = (Ok arr :: (fec_error, bytes) outcome)"
    "length arr = 288" "protects n arr w f"
    using GeneratePacketMasks_equal [of f n arr0 meth t] GeneratePacketMasks_unequal [of f n k meth arr0 t] assms
    by (cases "k = 0") (auto simp: w_def)
  ultimately show ?thesis by (rule that)
qed

text \<open>\<open>Encode\<close> of a frame makes one FEC packet of each row.\<close>

lemma encode_rows:
  assumes "enc_config e = Some c" and "length (fec_packet_mask e) = kFECPacketMaskMaxSize"
    and "ps \<noteq> []" and "length ps \<le> kUlpfecMaxMediaPackets" and "frame ps"
    and media: "\<forall>p \<in> set ps. fec_media_ok p \<and> ssrc p = enc_ssrc c \<and> payload_type p \<noteq> enc_payload_type c"
    and "k \<le> length ps" and "k = 0 \<or> meth \<noteq> kModeNoOverlap" and "factor > 0"
  defines "n \<equiv> length ps" and "w \<equiv> PacketMaskSize (length ps)" and "f \<equiv> unat (NumFecPackets (of_nat (length ps)) factor)"
  obtains arr fecs e' where "FecEncode fill ps (of_nat k) meth factor t e = Ok (fecs, e')" and "length fecs = f"
    and "\<And>r. r < f \<Longrightarrow> generate_row c (map media_data ps) arr w r = (Ok (fecs ! r) :: (fec_error, rtp_packet) outcome)"
    and "protects n arr w f" and "f * w \<le> length arr" and "n \<le> 8 * w"
    and "enc_config e' = Some c" and "length (fec_packet_mask e') = kFECPacketMaskMaxSize"
proof -
  have n: "1 \<le> n" "n \<le> 48" using assms(3,4) by (auto simp: n_def ulpfec_constants Suc_le_eq)
  have f: "1 \<le> f" "f \<le> n" using NumFecPackets_bounds [OF n assms(9)] by (simp_all add: f_def n_def)
  have fit: "f * w \<le> 288" "n \<le> 8 * w" using mask_fits [OF n(2) f(2)] by (simp_all add: w_def n_def)
  have "length (fec_packet_mask e) = 288" "k \<le> n" using assms(2,7) by (simp_all add: ulpfec_constants n_def)
  then obtain arr0 arr where clear: "put_bytes 0 (replicate (f * w) 0) (fec_packet_mask e) = (Ok arr0 :: (fec_error, bytes) outcome)"
    and arr: "GeneratePacketMasks n f k meth t w 0 arr0 = (Ok arr :: (fec_error, bytes) outcome)" "length arr = 288" "protects n arr w f"
    using frame_masks [OF n f _ _ assms(8), of "fec_packet_mask e" t] unfolding w_def n_def by blast
  have f_arr: "f * w \<le> length arr" using fit(1) arr(2) by simp
  have ok: "\<forall>p \<in> set ps. fec_media_ok p" and l48: "length ps \<le> 48" using media n by (auto simp: n_def)
  define gen where "gen = (\<lambda>r. case generate_row c (map media_data ps) arr w r :: (fec_error, rtp_packet) outcome of Ok p \<Rightarrow> p | _ \<Rightarrow> rtp_empty)"
  have gen: "generate_row c (map media_data ps) arr w r = (Ok (gen r) :: (fec_error, rtp_packet) outcome)" if "r < f" for r
    using generate_row_ok [OF protected_rows [OF arr(3) f_arr that, unfolded n_def] fit(2) [unfolded n_def] l48 assms(5) ok,
        of c, where 'e = fec_error]
    by (auto simp: gen_def)
  have k: "unat (of_nat k :: u32) = k" using assms(7) n by (simp add: n_def unat_of_nat)
  have num: "unat (ucast (NumFecPackets (of_nat n) factor) :: u8) = f"
    using f n by (simp add: f_def n_def unsigned_ucast_eq take_bit_nat_eq_self)
  have "check_packets fill (Some c) None ps = Ok (map media_data ps)"
    using media frame_successive [OF assms(5)] by (intro check_packets_ok) auto
  moreover have "omapM (generate_row c (map media_data ps) arr w) [0..<f] = (Ok (map gen [0..<f]) :: (fec_error, rtp_packet list) outcome)"
    by (rule omapM_all_Ok) (simp add: gen)
  ultimately have "FecEncode fill ps (of_nat k) meth factor t e = Ok (map gen [0..<f], e\<lparr>fec_packet_mask := arr\<rparr>)"
    using assms(1,3,7) n clear arr(1) num k
    unfolding FecEncode_def Let_def n_def [symmetric] w_def [folded n_def, symmetric] GenerateFecPackets_def
    by (simp add: ulpfec_constants n_def flip: f_def)
  then show ?thesis by (rule that [OF _ _ _ arr(3) f_arr fit(2)]) (simp_all add: gen assms(1) arr(2) ulpfec_constants)
qed

text \<open>C8: (functional, roundtrip) for a frame of up to 48 packets, any number of important packets and
  every protection method but \<open>kModeNoOverlap\<close>, \<open>Encode\<close> succeeds, gives the number of FEC packets the
  protection factor asks for, and every packet with a payload is restored, byte for byte and as a
  parsed packet, by the decoder from one of the FEC packets and the other packets of its group.\<close>

theorem encode_restores_lost_packets:
  assumes "enc_config e = Some c" and "enc_payload_type c < 128" and "length (fec_packet_mask e) = kFECPacketMaskMaxSize"
    and "ps \<noteq> []" and "length ps \<le> kUlpfecMaxMediaPackets" and "frame ps"
    and "\<forall>p \<in> set ps. fec_media_ok p \<and> ssrc p = enc_ssrc c \<and> payload_type p \<noteq> enc_payload_type c"
    and "k \<le> length ps" and "k = 0 \<or> meth \<noteq> kModeNoOverlap" and "factor > 0"
    and "dec_ssrc d = enc_ssrc c" and "dec_payload_type d = enc_payload_type c"
  shows "\<exists>fecs e'. FecEncode fill ps (of_nat k) meth factor t e = Ok (fecs, e')
    \<and> length fecs = unat (NumFecPackets (of_nat (length ps)) factor)
    \<and> (\<forall>p \<in> set ps. payload_bytes p \<noteq> [] \<longrightarrow>
         (\<exists>fec \<in> set fecs. \<exists>others. set others \<subseteq> set ps - {p} \<and> fec_restores d fec p others))"
proof -
  let ?w = "PacketMaskSize (length ps)" and ?f = "unat (NumFecPackets (of_nat (length ps)) factor)"
  obtain arr fecs e' where enc: "FecEncode fill ps (of_nat k) meth factor t e = Ok (fecs, e')" "length fecs = ?f"
    and row: "\<And>r. r < ?f \<Longrightarrow> generate_row c (map media_data ps) arr ?w r = (Ok (fecs ! r) :: (fec_error, rtp_packet) outcome)"
    and arr: "protects (length ps) arr ?w ?f" "?f * ?w \<le> length arr" "length ps \<le> 8 * ?w"
    by (rule encode_rows [OF assms(1,3-10), where fill = fill and t = t]) (rule that)
  have media: "\<forall>p \<in> set ps. fec_media_ok p" and l48: "length ps \<le> 48" using assms(5,7) by (auto simp: ulpfec_constants)
  have "\<exists>fec \<in> set fecs. \<exists>others. set others \<subseteq> set ps - {p} \<and> fec_restores d fec p others"
    if p: "p \<in> set ps" "payload_bytes p \<noteq> []" for p
  proof -
    obtain i where i: "i < length ps" "p = ps ! i" using p(1) by (auto simp: in_set_conv_nth)
    obtain r where r: "r < ?f" "mask_bit arr ?w r i" using arr(1) i(1) by (auto simp: protects_iff)
    obtain fec others where "generate_row c (map media_data ps) arr ?w r = (Ok fec :: (fec_error, rtp_packet) outcome)"
      "set others \<subseteq> set ps - {ps ! i}" "fec_restores d fec (ps ! i) others"
      using row_restores [OF protected_rows [OF arr(1,2) r(1)] arr(3) l48 assms(6) media i(1) r(2), of d c, where 'e = fec_error]
        p i assms(2,7,11,12) by fastforce
    moreover from this have "fec = fecs ! r" using row [OF r(1)] by simp
    moreover have "fecs ! r \<in> set fecs" using r(1) enc(2) by simp
    ultimately show ?thesis using i(2) by blast
  qed
  then show ?thesis using enc by blast
qed

text \<open>A frame of three packets around the wrap of the sequence number, and its FEC configuration.\<close>

definition fec_media :: "u16 \<Rightarrow> bytes \<Rightarrow> rtp_packet" where
  "fec_media n body = rtp_empty\<lparr>octet_m_pt := 96, ssrc := 7, sequence_number := n, payload_buffer := Some body\<rparr>"

definition fec_frame :: "rtp_packet list" where
  "fec_frame = [fec_media 65535 [1, 2], fec_media 0 [3], fec_media 1 [4, 5, 6]]"

definition fec_sample :: fec_encoder where
  "fec_sample = fec_encoder_new\<lparr>enc_config := Some \<lparr>enc_ssrc = 7, enc_payload_type = 100\<rparr>\<rparr>"

definition fec_sample_decoder :: fec_decoder_config where
  "fec_sample_decoder = \<lparr>dec_max_cache_seq_difference = 10, dec_ssrc = 7, dec_payload_type = 100\<rparr>"

lemma fec_media_props:
  assumes "length body \<le> 100"
  shows "fec_media_ok (fec_media n body)" and "ssrc (fec_media n body) = 7" and "payload_type (fec_media n body) = 96"
    and "sequence_number (fec_media n body) = n" and "payload_bytes (fec_media n body) = body"
  using assms
  by (simp_all add: fec_media_ok_def fec_media_def rtp_empty_def fec_size_ok_def rtp_image_plain payload_bytes_def
      payload_type_def)

theorem encode_restores_lost_packets_witness:
  "\<exists>fecs e'. FecEncode 0 fec_frame 0 kNone 85 kFecMaskBursty fec_sample = Ok (fecs, e')
    \<and> (\<exists>fec \<in> set fecs. \<exists>others. set others \<subseteq> set fec_frame - {fec_media 0 [3]}
         \<and> fec_restores fec_sample_decoder fec (fec_media 0 [3]) others)"
proof -
  let ?c = "\<lparr>enc_ssrc = 7, enc_payload_type = 100\<rparr>"
  have cfg: "enc_config fec_sample = Some ?c" "enc_payload_type ?c < 128"
    "length (fec_packet_mask fec_sample) = kFECPacketMaskMaxSize"
    by (simp_all add: fec_sample_def fec_encoder_new_def)
  have ps: "fec_frame \<noteq> []" "length fec_frame \<le> kUlpfecMaxMediaPackets" "frame fec_frame"
    "\<forall>p \<in> set fec_frame. fec_media_ok p \<and> ssrc p = enc_ssrc ?c \<and> payload_type p \<noteq> enc_payload_type ?c"
    by (auto simp: frame_def fec_frame_def fec_media_props less_Suc_eq numeral_3_eq_3 kUlpfecMaxMediaPackets_def)
  have dec: "dec_ssrc fec_sample_decoder = enc_ssrc ?c" "dec_payload_type fec_sample_decoder = enc_payload_type ?c"
    by (simp_all add: fec_sample_decoder_def)
  have lost: "fec_media 0 [3] \<in> set fec_frame" "payload_bytes (fec_media 0 [3]) \<noteq> []"
    by (simp_all add: fec_frame_def fec_media_props)
  have "(0 :: u8) < 85" by simp
  note main = encode_restores_lost_packets [OF cfg ps le0 disjI1 [OF refl] this dec, of 0 kNone kFecMaskBursty]
  have "(of_nat (0 :: nat) :: u32) = 0" by simp
  then show ?thesis using main lost by metis
qed

end
