(* ===== verification/Fec_Decode_Order.thy ===== *)
theory Fec_Decode_Order
  imports Ulp_Fec_Decode Rtp_Codec
begin

text \<open>
  What \<open>UlpFecDecoder::Decode\<close> puts out: numbers in ascending order, all after the last output. Two
  limits of the code: a late packet that meets an empty cache leaves defined behaviour, and a packet
  that has been put out but is still cached holds back everything behind it.
\<close>

section \<open>Order\<close>

lemma drain_split:
  "drain latest diff ho sl cs = (out, rest) \<Longrightarrow>
   \<exists>old. cs = old @ rest \<and> out = map fc_rtp_struct (filter (\<lambda>c. \<not> ho \<or> IsSeqAfter sl (fc_seq c)) old)"
proof (induction cs arbitrary: out)
  case Nil
  then show ?case by simp
next
  case (Cons c cs)
  show ?case
  proof (cases "IsSeqBeforeInRange (fc_seq c) latest diff")
    case True
    then show ?thesis using Cons.prems by auto
  next
    case False
    then obtain out1 where "drain latest diff ho sl cs = (out1, rest)"
      "out = (if \<not> ho \<or> IsSeqAfter sl (fc_seq c) then [fc_rtp_struct c] else []) @ out1"
      using Cons.prems by (auto split: prod.splits)
    moreover from this obtain old where "cs = old @ rest"
      "out1 = map fc_rtp_struct (filter (\<lambda>c. \<not> ho \<or> IsSeqAfter sl (fc_seq c)) old)"
      using Cons.IH by blast
    ultimately show ?thesis by (intro exI [of _ "c # old"]) simp
  qed
qed

lemma CreateCopy_sequence: "CreateCopy p = Ok q \<Longrightarrow> sequence_number q = sequence_number p \<or> q = rtp_empty"
  by (auto simp: CreateCopy_def StoreFields_def obind_eq_Ok_conv Let_def split: outcome.splits if_splits)

text \<open>The packets an output hands on are the new ones it drains and a run of those that remain: when
the first of them is after a sequence number, all are, as long as "after" is transitive on them.\<close>

lemma fresh_then_rest_after:
  assumes s: "sorted_wrt (\<lambda>x y. IsSeqAfter (fc_seq x) (fc_seq y)) (gone @ rest)"
    and fresh: "\<forall>x \<in> set fresh. x \<in> set gone \<and> IsSeqAfter sl (fc_seq x)"
    and trans: "\<And>x y. IsSeqAfter sl (fc_seq x) \<Longrightarrow> IsSeqAfter (fc_seq x) (fc_seq y) \<Longrightarrow>
      x \<in> set cs \<Longrightarrow> y \<in> set cs \<Longrightarrow> IsSeqAfter sl (fc_seq y)"
    and cs: "cs = gone @ rest"
    and hd: "k > 0 \<longrightarrow> fresh = [] \<longrightarrow> IsSeqAfter sl (fc_seq (hd rest))"
    and x: "x \<in> set (fresh @ take k rest)"
  shows "IsSeqAfter sl (fc_seq x)"
proof (cases "x \<in> set fresh")
  case True
  then show ?thesis using fresh by simp
next
  case False
  then have ne: "k > 0" "rest \<noteq> []" and x_in: "x \<in> set rest" using x by (cases k; auto dest: in_set_takeD)+
  show ?thesis
  proof (cases "fresh = []")
    case True
    then have first: "IsSeqAfter sl (fc_seq (hd rest))" using hd ne by simp
    have "x = hd rest \<or> IsSeqAfter (fc_seq (hd rest)) (fc_seq x)"
      using s x_in ne(2) by (cases rest) (auto simp: sorted_wrt_append)
    then show ?thesis using first trans [OF first] x_in ne(2) cs by auto
  next
    case False
    then obtain f where f: "f \<in> set fresh" by (cases fresh) auto
    then have "IsSeqAfter (fc_seq f) (fc_seq x)" using s x_in fresh by (simp add: sorted_wrt_append)
    then show ?thesis using trans [of f x] f x_in cs fresh by simp
  qed
qed

text \<open>The second loop appends copies of a prefix of the remaining packets.\<close>

lemma continue_output_prefix:
  assumes "continue_output ho sl cs recovered = (Ok out :: ('e, rtp_packet list) outcome)"
    and "\<forall>c \<in> set cs. rtp_wf (fc_rtp_struct c) \<and> length (csrcs (fc_rtp_struct c)) \<le> 255"
  shows "\<exists>k. map sequence_number out = map sequence_number recovered @ map fc_seq (take k cs)
    \<and> (k > 0 \<longrightarrow> recovered = [] \<longrightarrow> ho \<longrightarrow> IsSeqAfter sl (fc_seq (hd cs)))"
  using assms
proof (induction cs arbitrary: recovered)
  case Nil
  then show ?case by (intro exI [of _ "0 :: nat"]) simp
next
  case (Cons c cs)
  define stop where "stop = (if recovered = [] then ho \<and> \<not> IsSeqAfter sl (fc_seq c)
      else \<not> IsNextSeq (sequence_number (last recovered)) (fc_seq c))"
  have copy: "CreateCopy (fc_rtp_struct c) = Ok ((fc_rtp_struct c)\<lparr>csrcs := map (\<lambda>x. ucast (ucast x :: u8)) (csrcs (fc_rtp_struct c))\<rparr>)"
    using Cons.prems(2) by (intro CreateCopy_Ok) (auto simp: rtp_wf_def)
  let ?q = "(fc_rtp_struct c)\<lparr>csrcs := map (\<lambda>x. ucast (ucast x :: u8)) (csrcs (fc_rtp_struct c))\<rparr>"
  have step: "continue_output ho sl (c # cs) recovered
      = (if stop then Ok recovered else continue_output ho sl cs (recovered @ [?q]) :: ('e, rtp_packet list) outcome)"
    by (simp only: continue_output.simps stop_def copy outcome.case)
  show ?case
  proof (cases stop)
    case True
    then have "out = recovered" using Cons.prems(1) step by (simp del: continue_output.simps)
    then show ?thesis by (intro exI [of _ "0 :: nat"]) simp
  next
    case False
    then have "continue_output ho sl cs (recovered @ [?q]) = (Ok out :: ('e, rtp_packet list) outcome)"
      using Cons.prems(1) step by (simp del: continue_output.simps)
    then obtain k where "map sequence_number out = map sequence_number (recovered @ [?q]) @ map fc_seq (take k cs)"
      using Cons.IH [of "recovered @ [?q]"] Cons.prems(2) by auto
    then show ?thesis using False by (intro exI [of _ "Suc k"]) (auto simp: fc_seq_def stop_def)
  qed
qed

lemma output_in_order:
  assumes sorted: "sorted_wrt IsSeqAfter (map fc_seq (fd_cached_packets d))"
    and window: "seq.in_window base (insert (fd_seq_last_output d) (fc_seq ` set (fd_cached_packets d)))"
    and wf: "\<forall>c \<in> set (fd_cached_packets d). rtp_wf (fc_rtp_struct c) \<and> length (csrcs (fc_rtp_struct c)) \<le> 255"
    and out: "output_packets d [] = (Ok (out, d') :: ('e, rtp_packet list \<times> fec_decoder) outcome)"
  shows "sorted_wrt IsSeqAfter (map sequence_number out)
    \<and> (fd_has_output d \<longrightarrow> (\<forall>p \<in> set out. IsSeqAfter (fd_seq_last_output d) (sequence_number p)))"
proof -
  let ?ho = "fd_has_output d" and ?sl = "fd_seq_last_output d" and ?cs = "fd_cached_packets d"
  obtain latest c where c: "fd_config d = Some c" and latest: "latest_cached_seq d = (Ok latest :: ('e, u16) outcome)"
    using out by (auto simp: output_packets_def obind_eq_Ok_conv split: option.splits)
  obtain old rest where drain: "drain latest (dec_max_cache_seq_difference c) ?ho ?sl ?cs = (old, rest)"
    by fastforce
  have cont: "continue_output ?ho ?sl rest old = (Ok out :: ('e, rtp_packet list) outcome)"
    using out c latest drain by (auto simp: output_packets_def obind_eq_Ok_conv)
  obtain gone where cs: "?cs = gone @ rest"
    and old: "old = map fc_rtp_struct (filter (\<lambda>c. \<not> ?ho \<or> IsSeqAfter ?sl (fc_seq c)) gone)"
    using drain_split [OF drain] by blast
  define fresh where "fresh = filter (\<lambda>c. \<not> ?ho \<or> IsSeqAfter ?sl (fc_seq c)) gone"
  have "\<forall>c \<in> set rest. rtp_wf (fc_rtp_struct c) \<and> length (csrcs (fc_rtp_struct c)) \<le> 255"
    using wf cs by simp
  from continue_output_prefix [OF cont this]
  obtain k where k0: "map sequence_number out = map sequence_number old @ map fc_seq (take k rest)"
    "k > 0 \<longrightarrow> old = [] \<longrightarrow> ?ho \<longrightarrow> IsSeqAfter ?sl (fc_seq (hd rest))" by blast
  have "old = map fc_rtp_struct fresh" by (simp add: old fresh_def)
  then have k: "map sequence_number out = map fc_seq (fresh @ take k rest)"
    "k > 0 \<longrightarrow> fresh = [] \<longrightarrow> ?ho \<longrightarrow> IsSeqAfter ?sl (fc_seq (hd rest))"
    using k0 by (simp_all add: fc_seq_def)
  have s: "sorted_wrt (\<lambda>x y. IsSeqAfter (fc_seq x) (fc_seq y)) (gone @ rest)"
    using sorted unfolding cs sorted_wrt_map .
  have rest: "IsSeqAfter (fc_seq x) (fc_seq y)" if "x \<in> set gone" "y \<in> set rest" for x y
    using s that by (simp add: sorted_wrt_append)
  have "sorted_wrt (\<lambda>x y. IsSeqAfter (fc_seq x) (fc_seq y)) (fresh @ take k rest)"
    using s rest by (auto simp: sorted_wrt_append fresh_def sorted_wrt_filter sorted_wrt_take dest: in_set_takeD)
  then have order: "sorted_wrt IsSeqAfter (map sequence_number out)" unfolding k(1) sorted_wrt_map .
  have trans: "IsSeqAfter ?sl (fc_seq y)" if "IsSeqAfter ?sl (fc_seq x)" "IsSeqAfter (fc_seq x) (fc_seq y)" "x \<in> set ?cs" "y \<in> set ?cs" for x y
    using seq.after_trans [OF _ that(1,2), of base] window that(3,4) by (auto simp: seq.in_window_def)
  have "IsSeqAfter ?sl (fc_seq x)" if ho: "?ho" and x: "x \<in> set (fresh @ take k rest)" for x
    by (rule fresh_then_rest_after [OF s _ trans _ _ x]) (use ho k(2) cs in \<open>auto simp: fresh_def\<close>)
  moreover have "sequence_number ` set out = fc_seq ` set (fresh @ take k rest)"
    using arg_cong [OF k(1), of set] by (simp add: image_Un)
  ultimately have "\<forall>p \<in> set out. IsSeqAfter ?sl (sequence_number p)" if ?ho
    using that by (metis (no_types, lifting) imageE imageI)
  then show ?thesis using order by blast
qed

section \<open>Properties\<close>

text \<open>From a cache in ascending order, inside less than half of the number circle, the decoder
  puts out packets in ascending order, and once something has been put out only packets after it.\<close>

lemma fec_output_in_order:
  assumes "sorted_wrt IsSeqAfter (map fc_seq (fd_cached_packets d))"
    and "seq.in_window base (insert (fd_seq_last_output d) (fc_seq ` set (fd_cached_packets d)))"
    and "\<forall>c \<in> set (fd_cached_packets d). rtp_wf (fc_rtp_struct c) \<and> length (csrcs (fc_rtp_struct c)) \<le> 255"
    and "output_packets d [] = (Ok (out, d') :: (unit, rtp_packet list \<times> fec_decoder) outcome)"
  shows "sorted_wrt IsSeqAfter (map sequence_number out)
    \<and> (fd_has_output d \<longrightarrow> (\<forall>p \<in> set out. IsSeqAfter (fd_seq_last_output d) (sequence_number p)))"
  using assms by (rule output_in_order)

text \<open>A cached media packet, and a decoder with a cache range of ten numbers.\<close>

definition cached_media :: "u16 \<Rightarrow> fec_cached" where
  "cached_media n = new_cached (unat n) (rtp_empty\<lparr>sequence_number := n, payload_buffer := Some [1]\<rparr>) []"

definition decoder_with :: "u16 list \<Rightarrow> bool \<Rightarrow> u16 \<Rightarrow> fec_decoder" where
  "decoder_with ns ho sl = fec_decoder_new\<lparr>fd_config := Some \<lparr>dec_max_cache_seq_difference = 10, dec_ssrc = 0, dec_payload_type = 100\<rparr>,
     fd_cached_packets := map cached_media ns, fd_has_output := ho, fd_seq_last_output := sl\<rparr>"

lemma cached_media_simps [simp]:
  "fc_seq (cached_media n) = n" "sequence_number (fc_rtp_struct (cached_media n)) = n" "rtp_wf (fc_rtp_struct (cached_media n))" "csrcs (fc_rtp_struct (cached_media n)) = []"
  by (simp_all add: cached_media_def new_cached_def fc_seq_def rtp_wf_def extension_wf_def rtp_buffer_length_def
      rtp_empty_def extension_size_def payload_bytes_def)

lemma CreateCopy_media: "CreateCopy (fc_rtp_struct (cached_media n)) = Ok (fc_rtp_struct (cached_media n))"
  using CreateCopy_Ok [of "fc_rtp_struct (cached_media n)"] by simp

lemma decoder_with_outputs:
  "output_packets (decoder_with [5, 6, 8] True 4) [] = (Ok (map (\<lambda>n. fc_rtp_struct (cached_media n)) [5, 6],
     (decoder_with [5, 6, 8] True 6)) :: (unit, rtp_packet list \<times> fec_decoder) outcome)"
  by (simp add: output_packets_def decoder_with_def latest_cached_seq_def CreateCopy_media IsSeqBeforeInRange_def
      IsSeqAfterInRange_def IsSeqAfter_def IsNextSeq_def note_output_def)

lemma fec_output_in_order_witness:
  "sorted_wrt IsSeqAfter (map sequence_number (map (\<lambda>n. fc_rtp_struct (cached_media n)) [5, 6]))"
  using fec_output_in_order [of "decoder_with [5, 6, 8] True 4" 4, OF _ _ _ decoder_with_outputs]
  by (simp add: decoder_with_def seq.in_window_def seq_dist_def IsSeqAfter_def IsSeqAfterInRange_def)

text \<open>After a single media packet the cache is empty again, because the latest number does not
  count as being in range of itself; if the next call brings only packets from before it, \<open>back()\<close> is
  taken of the empty cache.\<close>

lemma late_packet_crashes_decoder:
  assumes "fd_config d = Some c" and "fd_cached_packets d = []" and "\<not> fd_has_output d"
    and "rtp_wf p" and "ssrc p = dec_ssrc c" and "payload_type p \<noteq> dec_payload_type c"
    and "\<forall>q \<in> set late. IsSeqBefore (sequence_number q) (sequence_number p)"
  shows "\<exists>d'. FecDecode fill [p] [] d = Ok ([p], d') \<and> fd_cached_packets d' = [] \<and> crashes (FecDecode fill late [] d')"
proof -
  obtain b where b: "LoadPacket fill p = Ok b" using LoadPacket_image [OF assms(4)] by blast
  define new where "new = (new_cached (fd_next_id d) p (db_contents b))\<lparr>fc_is_fec := False\<rparr>"
  define d1 where "d1 = d\<lparr>fd_cached_packets := [new], fd_next_id := fd_next_id d + 1\<rparr>"
  define d' where "d' = d1\<lparr>fd_cached_packets := [], fd_has_output := True, fd_seq_last_output := sequence_number p\<rparr>"
  have new: "fc_seq new = sequence_number p" "fc_rtp_struct new = p" "\<not> fc_is_fec new"
    by (simp_all add: new_def new_cached_def fc_seq_def)
  have "CachePackets fill [p] d = Ok d1"
    using assms b by (simp add: CachePackets_def cache_packet_def DecodeFecInfo_def insert_at_def d1_def new_def new_cached_def)
  moreover have "RcoverPackets d1 = (Ok d1 :: (fec_error, fec_decoder) outcome)"
    using new by (simp add: RcoverPackets_def latest_cached_seq_def d1_def)
  moreover have "output_packets d1 [] = (Ok ([p], d') :: (fec_error, rtp_packet list \<times> fec_decoder) outcome)"
    using new assms(1,3)
    by (simp add: output_packets_def latest_cached_seq_def d1_def d'_def IsSeqBeforeInRange_def IsSeqAfterInRange_def note_output_def)
  ultimately have "FecDecode fill [p] [] d = Ok ([p], d')" by (simp add: FecDecode_def)
  moreover have "CachePackets fill late d' = Ok d'"
    using assms(1,7) by (induction late) (auto simp: CachePackets_def cache_packet_def d'_def d1_def)
  then have "crashes (FecDecode fill late [] d')"
    by (simp add: FecDecode_def RcoverPackets_def latest_cached_seq_def d'_def)
  ultimately show ?thesis by (auto simp: d'_def)
qed

lemma late_packet_crashes_decoder_witness:
  "\<exists>d'. FecDecode 0 [rtp_empty\<lparr>sequence_number := 10\<rparr>] [] (decoder_with [] False 0) = Ok ([rtp_empty\<lparr>sequence_number := 10\<rparr>], d')
    \<and> crashes (FecDecode 0 [rtp_empty\<lparr>sequence_number := 9\<rparr>] [] d')"
  using late_packet_crashes_decoder [of "decoder_with [] False 0" "\<lparr>dec_max_cache_seq_difference = 10, dec_ssrc = 0, dec_payload_type = 100\<rparr>"
      "rtp_empty\<lparr>sequence_number := 10\<rparr>" "[rtp_empty\<lparr>sequence_number := 9\<rparr>]" 0]
  by (force simp: decoder_with_def fec_decoder_new_def rtp_wf_def extension_wf_def rtp_buffer_length_def rtp_empty_def
      extension_size_def payload_bytes_def payload_type_def IsSeqBefore_def IsSeqAfter_def IsSeqAfterInRange_def)

text \<open>A packet that has been put out but is still in range stays at the front of the cache
  and holds back every packet behind it, even the next in sequence: \<open>Decode\<close> puts out nothing.\<close>

lemma output_stalls_behind_cached_output:
  assumes "fd_config d = Some c" and "fd_cached_packets d = x # xs" and "fd_has_output d"
    and "\<not> IsSeqAfter (fd_seq_last_output d) (fc_seq x)"
    and "IsSeqBeforeInRange (fc_seq x) (fc_seq (last (x # xs))) (dec_max_cache_seq_difference c)"
  shows "output_packets d [] = (Ok ([], d) :: (unit, rtp_packet list \<times> fec_decoder) outcome)"
  using assms by (simp add: output_packets_def latest_cached_seq_def note_output_def)

lemma output_stalls_behind_cached_output_witness:
  "output_packets (decoder_with [3, 4, 5] True 4) [] = (Ok ([], decoder_with [3, 4, 5] True 4)
     :: (unit, rtp_packet list \<times> fec_decoder) outcome)"
  by (rule output_stalls_behind_cached_output [of _ "\<lparr>dec_max_cache_seq_difference = 10, dec_ssrc = 0, dec_payload_type = 100\<rparr>"
      "cached_media 3" "[cached_media 4, cached_media 5]"])
    (simp_all add: decoder_with_def IsSeqAfter_def IsSeqAfterInRange_def IsSeqBeforeInRange_def)

end
