(* ===== verification/Rtcp_Common.thy ===== *)
theory Rtcp_Common
  imports Byte_Io
begin

text \<open>
  \<open>src/rtp_rtcp/common_header.h/.cc\<close> and \<open>rtcp_packet.h\<close>: the parsed header of an RTCP packet,
  \<open>RtcpPacket::CreateHeader\<close>, and the interface every RTCP packet class offers to the code that
  builds a compound packet (\<open>BlockLength\<close>, \<open>LoadPacket\<close>), as the locale \<open>rtcp_packet_class\<close>.
  Positions and lengths of \<open>LoadPacket\<close> are natural numbers: a compound packet of this program
  has at most five parts of at most \<open>2 ^ 18\<close> bytes each, so the 32-bit sums do not wrap.
\<close>

datatype rtcp_error =
    Header_Too_Short
  | Wrong_Rtcp_Version
  | Size_Less_Than_Parsed_Length
  | Padding_Without_Payload
  | Zero_Padding_Size
  | Padding_Exceeds_Payload
  | Count_Or_Format_Too_Big
  | Buffer_Too_Small
  | Wrong_Packet_Type
  | Null_Payload
  | Packet_Too_Small
  | Extension_Not_Aligned
  | Cumulative_Lost_Too_Big
  | Max_Report_Blocks_Reached
  | Payload_Not_Aligned
  | No_Space_For_Chunk
  | No_Space_For_Item_Length
  | No_Space_For_Item_Text
  | Extra_Cname
  | Cname_Too_Long
  | Max_Chunks_Reached
  | Reason_Too_Long
  | Too_Many_Csrcs
  | Invalid_Reason_Length
  | Subtype_Too_Big
  | Data_Empty
  | Data_Not_Aligned
  | Data_Too_Big
  | Empty_Fci

section \<open>CommonHeader\<close>

text \<open>
  \<open>payload_\<close> points into the datagram being parsed: it is the offset there, \<open>None\<close> for
  \<open>nullptr\<close>. The accessors of the class are the field selectors (\<open>count()\<close> and \<open>fmt()\<close> are
  the same field).
\<close>

record common_header =
  packet_type :: u8
  count_or_format :: u8
  padding_size :: u8
  payload_size :: u32
  payload :: "nat option"

definition header_empty :: common_header where
  "header_empty = \<lparr>packet_type = 0, count_or_format = 0, padding_size = 0, payload_size = 0,
     payload = None\<rparr>"

text \<open>
  \<open>StorePacket(buffer, size_bytes)\<close>, where \<open>buffer\<close> is the datagram \<open>d\<close> at offset \<open>off\<close>. The
  padding octet is read through the member \<open>payload_\<close> and the payload size is reduced by the
  member \<open>padding_size_\<close>, both still those of the header parsed before (or of the constructor).
\<close>

definition parse_header_padding ::
  "common_header \<Rightarrow> bytes \<Rightarrow> bool \<Rightarrow> u32 \<Rightarrow> (rtcp_error, u8 \<times> u32) outcome" where
  "parse_header_padding self d has_padding payload_size_parsed =
     (if \<not> has_padding then Ok (0, payload_size_parsed)
      else if payload_size_parsed = 0 then Failed Padding_Without_Payload
      else obind (case payload self of None \<Rightarrow> Crash Null_Dereference
                  | Some base \<Rightarrow> get_byte d (base + unat (payload_size_parsed - 1))) (\<lambda>pad.
        if pad = 0 then Failed Zero_Padding_Size
        else if unat pad > unat payload_size_parsed then Failed Padding_Exceeds_Payload
        else Ok (pad, payload_size_parsed - ucast (padding_size self))))"

definition header_store ::
  "common_header \<Rightarrow> bytes \<Rightarrow> nat \<Rightarrow> nat \<Rightarrow> (rtcp_error, common_header) outcome" where
  "header_store self d off size_bytes =
     (if size_bytes < 4 then Failed Header_Too_Short
      else obind (get_byte d off) (\<lambda>b0.
        if drop_bit 6 b0 \<noteq> 2 then Failed Wrong_Rtcp_Version
        else obind (get_byte d (off + 1)) (\<lambda>pt.
          obind (read_be16 d (off + 2)) (\<lambda>len.
          let payload_size_parsed = ucast len * 4 :: u32 in
          if size_bytes < 4 + unat payload_size_parsed then Failed Size_Less_Than_Parsed_Length
          else obind (parse_header_padding self d (b0 AND 0x20 \<noteq> 0) payload_size_parsed) (\<lambda>(pad, n).
            Ok \<lparr>packet_type = pt, count_or_format = b0 AND 0x1f, padding_size = pad, payload_size = n,
                payload = (if n > 0 then Some (off + 4) else None)\<rparr>)))))"

text \<open>\<open>NextPacket()\<close>: \<open>payload_ + payload_size_ + padding_size_\<close>; there is no such position when
  \<open>payload_\<close> is null.\<close>

definition next_packet :: "common_header \<Rightarrow> nat option" where
  "next_packet h =
     map_option (\<lambda>base. base + unat (payload_size h) + unat (padding_size h)) (payload h)"

definition packet_size_bytes :: "common_header \<Rightarrow> u32" where
  "packet_size_bytes h = 4 + payload_size h + ucast (padding_size h)"

section \<open>CreateHeader\<close>

text \<open>The four header bytes at \<open>*pos\<close>, then \<open>*pos += 4\<close>. Every caller ignores the result, so a
  rejected count leaves the buffer and the position unchanged: \<open>create_header\<close> returns them.\<close>

definition header_image :: "u8 \<Rightarrow> u8 \<Rightarrow> u16 \<Rightarrow> bytes" where
  "header_image count pt len =
     [0x80 OR count, pt, ucast (drop_bit 8 len AND 0xff), ucast (len AND 0xff)]"

definition create_header ::
  "u8 \<Rightarrow> u8 \<Rightarrow> u16 \<Rightarrow> bytes \<Rightarrow> nat \<Rightarrow> (rtcp_error, nat \<times> bytes) outcome" where
  "create_header count pt len buf pos =
     (if count > 0x1f then Ok (pos, buf)
      else omap (\<lambda>b. (pos + 4, b)) (put_bytes pos (header_image count pt len) buf))"

lemma length_header_image [simp]: "length (header_image c t l) = 4"
  by (simp add: header_image_def)

text \<open>The length field is written byte by byte; it is the big-endian image.\<close>

lemma header_image_eq: "header_image c t l = [0x80 OR c, t] @ WriteBigEndian 2 l"
proof -
  have ff: "(0xff :: u16) = mask 8" by (simp add: mask_eq_exp_minus_1)
  have "ucast (drop_bit 8 l AND 0xff) = object_byte l 1"
    unfolding ff by (rule bit_word_eqI)
      (auto simp: object_byte_def bit_ucast_iff bit_and_iff bit_drop_bit_eq bit_mask_iff)
  moreover have "ucast (l AND 0xff) = object_byte l 0"
    unfolding ff by (rule bit_word_eqI)
      (auto simp: object_byte_def bit_ucast_iff bit_and_iff bit_mask_iff)
  ultimately show ?thesis by (simp add: header_image_def WriteBigEndian_2)
qed

text \<open>Parsing a header this program wrote (it never sets the padding bit).\<close>

lemma count_bits:
  assumes "c \<le> (0x1f :: u8)"
  shows "drop_bit 6 (0x80 OR c) = 2 \<and> (0x80 OR c) AND 0x20 = 0 \<and> (0x80 OR c) AND 0x1f = c"
proof -
  have "unat c \<in> set [0..<32]" using assms by (simp add: word_le_nat_alt)
  moreover have "c = of_nat (unat c)" by simp
  ultimately show ?thesis by (simp add: upt_rec del: of_nat_unat ucast_id) (elim disjE; simp)
qed

lemma header_store_image:
  assumes "c \<le> 0x1f" and "length pre = off" and "4 + 4 * unat l \<le> size_bytes"
  shows "header_store self (pre @ header_image c t l @ body) off size_bytes =
    Ok \<lparr>packet_type = t, count_or_format = c, padding_size = 0, payload_size = ucast l * 4,
        payload = (if l \<noteq> 0 then Some (off + 4) else None)\<rparr>"
proof -
  define d where "d = pre @ header_image c t l @ body"
  have 0: "get_byte d off = (Ok (0x80 OR c) :: (rtcp_error, u8) outcome)"
    and 1: "get_byte d (off + 1) = (Ok t :: (rtcp_error, u8) outcome)"
    and 2: "get_bytes d (off + 2) 2 = (Ok (WriteBigEndian 2 l) :: (rtcp_error, bytes) outcome)"
    using assms(2) unfolding d_def by (simp_all add: header_image_eq get_byte_def get_bytes_def nth_append)
  have n: "unat (ucast l * 4 :: u32) = 4 * unat l"
    using u16_bound [of l] by (simp add: unat_word_ariths)
  then have nz: "(0 < (ucast l * 4 :: u32)) = (l \<noteq> 0)"
    by (simp add: word_less_nat_alt) (metis neq0_conv unsigned_eq_0_iff)
  show ?thesis using assms(3) count_bits [OF assms(1)] unfolding d_def [symmetric]
    by (simp add: header_store_def 0 1 [simplified] 2 [simplified] read_be16_def parse_header_padding_def n nz)
qed

lemma create_header_Ok:
  "c \<le> 0x1f \<Longrightarrow> create_header c t l buf pos = omap (Pair (pos + 4)) (put_bytes pos (header_image c t l) buf)"
  by (simp add: create_header_def not_less [symmetric])

lemma count_le_31: "n \<le> 31 \<Longrightarrow> (of_nat n :: u8) \<le> 0x1f"
  by (simp add: word_le_nat_alt unat_of_nat)

lemma reads_of_parts:
  assumes "length pre = off" and "length a = 4"
  shows "read_be32 (pre @ a @ post) off = Ok (ReadBigEndian a)"
  using assms by (simp add: read_be32_def get_bytes_def)

lemma unat_length: "m < 65536 \<Longrightarrow> unat (of_nat m :: u16) = m"
  by (simp add: unat_of_nat)

lemma unat_count: "n \<le> 31 \<Longrightarrow> unat (of_nat n :: u8) = n"
  by (simp add: unat_of_nat)

lemma unat_payload: "unat (ucast (l :: u16) * 4 :: u32) = 4 * unat l"
  using u16_bound [of l] by (simp add: unat_word_ariths)

section \<open>Writing a list of items\<close>

text \<open>
  Every writer ends in a loop over a vector: each item is written at \<open>*pos\<close>, which moves on by its
  length. The contract of one round of the loop, and what the whole loop then writes.
\<close>

locale sequential_writer =
  fixes write_item :: "'a \<Rightarrow> nat \<times> bytes \<Rightarrow> ('e, nat \<times> bytes) outcome"
    and item_image :: "'a \<Rightarrow> bytes"
    and item_ok :: "'a \<Rightarrow> bool"
  assumes write_item: "item_ok x \<Longrightarrow> pos + length (item_image x) \<le> length buf \<Longrightarrow>
    write_item x (pos, buf) = omap (Pair (pos + length (item_image x))) (put_bytes pos (item_image x) buf)"
begin

definition items_image :: "'a list \<Rightarrow> bytes" where
  "items_image xs = concat (map item_image xs)"

lemma items_image_simps [simp]:
  "items_image [] = []" "items_image (x # xs) = item_image x @ items_image xs"
  by (simp_all add: items_image_def)

lemma write_items:
  assumes "\<forall>x \<in> set xs. item_ok x" and "pos + length (items_image xs) \<le> length buf"
  shows "ofold write_item xs (pos, buf) =
    omap (Pair (pos + length (items_image xs))) (put_bytes pos (items_image xs) buf)"
  using assms
proof (induction xs arbitrary: pos buf)
  case Nil
  then show ?case by (simp add: put_bytes_def)
next
  case (Cons x xs)
  let ?pos = "pos + length (item_image x)"
  obtain m where m: "put_bytes pos (item_image x) buf = (Ok m :: ('e, bytes) outcome)"
    using Cons.prems(2) by (auto simp: put_bytes_def)
  have "ofold write_item xs (?pos, m) =
      omap (Pair (?pos + length (items_image xs))) (put_bytes ?pos (items_image xs) m)"
    using Cons.prems put_bytes_length [OF m] by (intro Cons.IH) auto
  with m put_bytes_append [of pos "item_image x" buf "items_image xs", where 'a='e] Cons.prems
  show ?case by (simp add: write_item add.assoc)
qed

lemma write_items_after:
  assumes "off' = off + length a" and "\<forall>x \<in> set xs. item_ok x"
    and "off' + length (items_image xs) \<le> length buf"
  shows "obind (put_bytes off a buf) (\<lambda>m. ofold write_item xs (off', m)) =
    omap (Pair (off' + length (items_image xs))) (put_bytes off (a @ items_image xs) buf)"
proof -
  obtain m where m: "put_bytes off a buf = (Ok m :: ('e, bytes) outcome)"
    using assms by (auto simp: put_bytes_def)
  then have "ofold write_item xs (off', m) =
      omap (Pair (off' + length (items_image xs))) (put_bytes off' (items_image xs) m)"
    using assms put_bytes_length [OF m] by (intro write_items) auto
  with m assms(1) put_bytes_append [of off a buf "items_image xs", where 'a='e]
  show ?thesis by simp
qed

end

section \<open>The interface of the RTCP packet classes\<close>

text \<open>
  \<open>load p buf pos max\<close> is \<open>p->LoadPacket(buf, &pos, max)\<close>. A packet class promises: with room for
  \<open>BlockLength()\<close> bytes it writes exactly its image there, advances the position by exactly that
  much and touches nothing else; without room it reports so and writes nothing. The compound
  packet builder relies on nothing more.
\<close>

type_synonym 'p loader = "'p \<Rightarrow> bytes \<Rightarrow> nat \<Rightarrow> nat \<Rightarrow> (rtcp_error, nat \<times> bytes) outcome"

locale rtcp_packet_class =
  fixes block_length :: "'p \<Rightarrow> nat"
    and load :: "'p loader"
    and wf :: "'p \<Rightarrow> bool"
    and image :: "'p \<Rightarrow> bytes"
  assumes image_length: "wf p \<Longrightarrow> length (image p) = block_length p"
    and load_fits: "wf p \<Longrightarrow> pos + block_length p \<le> max_length \<Longrightarrow> max_length \<le> length buf \<Longrightarrow>
      load p buf pos max_length = omap (Pair (pos + block_length p)) (put_bytes pos (image p) buf)"
    and load_too_long: "wf p \<Longrightarrow> pos + block_length p > max_length \<Longrightarrow>
      load p buf pos max_length = Failed Buffer_Too_Small"
begin

definition load_next :: "nat \<Rightarrow> 'p \<Rightarrow> nat \<times> bytes \<Rightarrow> (rtcp_error, nat \<times> bytes) outcome" where
  "load_next max_length p st = load p (snd st) (fst st) max_length"

lemma length_images: "\<forall>p \<in> set ps. wf p \<Longrightarrow> length (concat (map image ps)) = (\<Sum>p\<leftarrow>ps. block_length p)"
  by (induction ps) (auto simp: image_length)

text \<open>Loading packets one after the other is one write of the concatenated images.\<close>

lemma load_all:
  assumes "\<forall>p \<in> set ps. wf p" and "pos + (\<Sum>p\<leftarrow>ps. block_length p) \<le> max_length"
    and "max_length \<le> length buf"
  shows "ofold (load_next max_length) ps (pos, buf) =
    omap (Pair (pos + (\<Sum>p\<leftarrow>ps. block_length p))) (put_bytes pos (concat (map image ps)) buf)"
  using assms
proof (induction ps arbitrary: pos buf)
  case Nil
  then show ?case by (simp add: put_bytes_def)
next
  case (Cons p ps)
  let ?n = "block_length p"
  have p: "wf p" "length (image p) = ?n" "pos + ?n \<le> max_length"
    using Cons.prems image_length by auto
  obtain buf1 where b1: "put_bytes pos (image p) buf = (Ok buf1 :: (rtcp_error, bytes) outcome)"
    using p Cons.prems(3) by (auto simp: put_bytes_def)
  then have len: "length buf1 = length buf" by (rule put_bytes_length)
  have "ofold (load_next max_length) (p # ps) (pos, buf) = ofold (load_next max_length) ps (pos + ?n, buf1)"
    using load_fits [OF p(1,3) Cons.prems(3)] b1 by (simp add: load_next_def)
  also have "\<dots> = omap (Pair (pos + ?n + (\<Sum>p\<leftarrow>ps. block_length p)))
      (put_bytes (pos + ?n) (concat (map image ps)) buf1)"
    using Cons.prems len by (intro Cons.IH) auto
  also have "put_bytes (pos + ?n) (concat (map image ps)) buf1
      = (put_bytes pos (concat (map image (p # ps))) buf :: (rtcp_error, bytes) outcome)"
    using put_bytes_append [of pos "image p" buf "concat (map image ps)", where 'a=rtcp_error] b1 p(2)
    by simp
  finally show ?case by (simp add: add.assoc)
qed

end

end
