(* ===== verification/Rtcp_Reports.thy ===== *)
theory Rtcp_Reports
  imports Rtcp_Common
begin

text \<open>
  \<open>src/rtp_rtcp/report_block.h/.cc\<close>, \<open>receiver_report.h/.cc\<close> and \<open>sender_report.h/.cc\<close>: the RTCP
  report block and the two report packets, their writers and parsers. \<open>report_blocks_\<close> is a
  vector of \<open>unique_ptr\<close>: an entry is \<open>None\<close> when it is null.
\<close>

section \<open>ReportBlock\<close>

record report_block =
  source_ssrc :: u32
  fraction_lost :: u8
  cumulative_lost :: s32
  extended_high_seq_num :: u32
  jitter :: u32
  last_sr :: u32
  delay_since_last_sr :: u32

definition block_empty :: report_block where
  "block_empty = \<lparr>source_ssrc = 0, fraction_lost = 0, cumulative_lost = 0,
     extended_high_seq_num = 0, jitter = 0, last_sr = 0, delay_since_last_sr = 0\<rparr>"

definition SetCumulativeLost :: "s32 \<Rightarrow> report_block \<Rightarrow> (rtcp_error, report_block) outcome" where
  "SetCumulativeLost lost b =
     (if sint lost \<ge> 2 ^ 23 \<or> sint lost < - (2 ^ 23) then Failed Cumulative_Lost_Too_Big
      else Ok (b\<lparr>cumulative_lost := lost\<rparr>))"

text \<open>\<open>LoadPacket(buffer)\<close>: seven writes at fixed offsets.\<close>

definition block_load :: "report_block \<Rightarrow> bytes \<Rightarrow> nat \<Rightarrow> (rtcp_error, bytes) outcome" where
  "block_load b buf pos =
     obind (put_bytes pos (WriteBigEndian 4 (source_ssrc b)) buf) (\<lambda>buf.
     obind (put_bytes (pos + 4) [fraction_lost b] buf) (\<lambda>buf.
     obind (put_bytes (pos + 5) (WriteBigEndian 3 (cumulative_lost b)) buf) (\<lambda>buf.
     obind (put_bytes (pos + 8) (WriteBigEndian 4 (extended_high_seq_num b)) buf) (\<lambda>buf.
     obind (put_bytes (pos + 12) (WriteBigEndian 4 (jitter b)) buf) (\<lambda>buf.
     obind (put_bytes (pos + 16) (WriteBigEndian 4 (last_sr b)) buf) (\<lambda>buf.
     put_bytes (pos + 20) (WriteBigEndian 4 (delay_since_last_sr b)) buf))))))"

text \<open>\<open>StorePacket(buffer)\<close>; \<open>stale\<close> is the uninitialised byte the signed read of three bytes
  takes its sign from (theory \<open>Byte_Io\<close>).\<close>

definition block_store :: "u8 \<Rightarrow> bytes \<Rightarrow> nat \<Rightarrow> (rtcp_error, report_block) outcome" where
  "block_store stale d off =
     obind (read_be32 d off) (\<lambda>s.
     obind (get_byte d (off + 4)) (\<lambda>f.
     obind (get_bytes d (off + 5) 3) (\<lambda>c.
     obind (read_be32 d (off + 8)) (\<lambda>e.
     obind (read_be32 d (off + 12)) (\<lambda>j.
     obind (read_be32 d (off + 16)) (\<lambda>l.
     obind (read_be32 d (off + 20)) (\<lambda>dl.
       Ok \<lparr>source_ssrc = s, fraction_lost = f, cumulative_lost = ReadBigEndianSigned 4 stale c,
           extended_high_seq_num = e, jitter = j, last_sr = l, delay_since_last_sr = dl\<rparr>)))))))"

definition block_image :: "report_block \<Rightarrow> bytes" where
  "block_image b = WriteBigEndian 4 (source_ssrc b) @ [fraction_lost b]
     @ WriteBigEndian 3 (cumulative_lost b) @ WriteBigEndian 4 (extended_high_seq_num b)
     @ WriteBigEndian 4 (jitter b) @ WriteBigEndian 4 (last_sr b)
     @ WriteBigEndian 4 (delay_since_last_sr b)"

lemma length_block_image [simp]: "length (block_image b) = 24"
  by (simp add: block_image_def)

lemma block_load_eq: "block_load b buf pos = put_bytes pos (block_image b) buf"
  unfolding block_load_def by (simp add: put_merge block_image_def)

text \<open>Reading back: everything returns except the sign of the cumulative loss, which comes from
  the stale byte.\<close>

definition reread_cumulative :: "u8 \<Rightarrow> s32 \<Rightarrow> s32" where
  "reread_cumulative stale c = ReadBigEndianSigned 4 stale (WriteBigEndian 3 c)"

lemma block_store_image:
  assumes "length pre = off"
  shows "block_store stale (pre @ block_image b @ post) off =
    Ok (b\<lparr>cumulative_lost := reread_cumulative stale (cumulative_lost b)\<rparr>)"
proof -
  let ?d = "pre @ block_image b @ post"
  have 0: "get_bytes ?d off 4 = (Ok (WriteBigEndian 4 (source_ssrc b)) :: (rtcp_error, bytes) outcome)"
    using assms by (simp add: block_image_def get_bytes_def)
  have 4: "get_byte ?d (off + 4) = (Ok (fraction_lost b) :: (rtcp_error, u8) outcome)"
    using assms by (simp add: block_image_def get_byte_def nth_append)
  have 5: "get_bytes ?d (off + 5) 3 = (Ok (WriteBigEndian 3 (cumulative_lost b)) :: (rtcp_error, bytes) outcome)"
    using assms by (simp add: block_image_def get_bytes_def)
  have 8: "get_bytes ?d (off + 8) 4 = (Ok (WriteBigEndian 4 (extended_high_seq_num b)) :: (rtcp_error, bytes) outcome)"
    using assms by (simp add: block_image_def get_bytes_def)
  have 12: "get_bytes ?d (off + 12) 4 = (Ok (WriteBigEndian 4 (jitter b)) :: (rtcp_error, bytes) outcome)"
    using assms by (simp add: block_image_def get_bytes_def)
  have 16: "get_bytes ?d (off + 16) 4 = (Ok (WriteBigEndian 4 (last_sr b)) :: (rtcp_error, bytes) outcome)"
    using assms by (simp add: block_image_def get_bytes_def)
  have 20: "get_bytes ?d (off + 20) 4 = (Ok (WriteBigEndian 4 (delay_since_last_sr b)) :: (rtcp_error, bytes) outcome)"
    using assms by (simp add: block_image_def get_bytes_def)
  show ?thesis
    by (simp add: block_store_def read_be32_def 0 4 5 8 12 16 20 reread_cumulative_def)
qed

text \<open>The re-read value is right exactly when the stale byte happens to carry the sign.\<close>

lemma WriteLittleEndian_4_inj: "WriteLittleEndian 4 v = WriteLittleEndian 4 w \<longleftrightarrow> v = (w :: u32)"
  by (metis WriteBigEndian_rev WriteBigEndian_inj_4 rev_is_rev_conv)

lemma reread_cumulative_iff:
  "reread_cumulative stale c = c \<longleftrightarrow> object_byte c 3 = sign_fill stale"
proof -
  have c: "WriteLittleEndian 4 c = rev (WriteBigEndian 3 c) @ [object_byte c 3]"
    by (simp add: WriteBigEndian_rev WriteLittleEndian_def upt_rec numeral_eq_Suc)
  have "WriteLittleEndian 4 (reread_cumulative stale c) = rev (WriteBigEndian 3 c) @ [sign_fill stale]"
    using WriteLittleEndian_from_object_bytes
      [of "rev (WriteBigEndian 3 c) @ [sign_fill stale]", where 'a=32]
    by (simp add: reread_cumulative_def ReadBigEndianSigned_def)
  then have "WriteLittleEndian 4 (reread_cumulative stale c) = WriteLittleEndian 4 c
      \<longleftrightarrow> sign_fill stale = object_byte c 3"
    by (simp add: c)
  then show ?thesis by (auto simp: WriteLittleEndian_4_inj)
qed

section \<open>ReceiverReport\<close>

record receiver_report =
  rr_sender_ssrc :: u32
  rr_blocks :: "report_block option list"

definition AddReportBlock ::
  "report_block option \<Rightarrow> report_block option list \<Rightarrow> (rtcp_error, report_block option list) outcome" where
  "AddReportBlock b blocks =
     (if length blocks \<ge> 0x1f then Failed Max_Report_Blocks_Reached else Ok (blocks @ [b]))"

definition SetReportBlocks ::
  "report_block option list \<Rightarrow> report_block option list \<Rightarrow> (rtcp_error, report_block option list) outcome" where
  "SetReportBlocks new blocks = (if length new > 0x1f then Failed Max_Report_Blocks_Reached else Ok new)"

definition rr_BlockLength :: "receiver_report \<Rightarrow> nat" where
  "rr_BlockLength r = 4 + 4 + length (rr_blocks r) * 24"

text \<open>The loop over \<open>report_blocks_\<close>, the same in both reports: each block is written at \<open>*pos\<close>.\<close>

definition load_block :: "report_block option \<Rightarrow> nat \<times> bytes \<Rightarrow> (rtcp_error, nat \<times> bytes) outcome" where
  "load_block b = (\<lambda>(pos, buf). case b of None \<Rightarrow> Crash Null_Dereference
     | Some b \<Rightarrow> omap (Pair (pos + 24)) (block_load b buf pos))"

definition rr_LoadPacket :: "receiver_report loader" where
  "rr_LoadPacket r buf pos max_length =
     (if pos + rr_BlockLength r > max_length then Failed Buffer_Too_Small
      else obind (create_header (of_nat (length (rr_blocks r))) 201
                   (of_nat ((rr_BlockLength r - 4) div 4)) buf pos) (\<lambda>(pos, buf).
        obind (put_bytes pos (WriteBigEndian 4 (rr_sender_ssrc r)) buf) (\<lambda>buf.
        ofold load_block (rr_blocks r) (pos + 4, buf))))"

text \<open>\<open>resize\<close> to the count, then every entry is replaced by a new block parsed from its 24 bytes.
  \<open>stale off\<close> is the uninitialised byte met when parsing the block at \<open>off\<close>.\<close>

fun store_new_blocks ::
  "(nat \<Rightarrow> u8) \<Rightarrow> bytes \<Rightarrow> nat \<Rightarrow> nat \<Rightarrow> (rtcp_error, report_block option list) outcome" where
  "store_new_blocks stale d off 0 = Ok []"
| "store_new_blocks stale d off (Suc n) =
     obind (block_store (stale off) d off) (\<lambda>b.
     omap (Cons (Some b)) (store_new_blocks stale d (off + 24) n))"

definition extension_aligned :: "u32 \<Rightarrow> nat \<Rightarrow> nat \<Rightarrow> bool" where
  "extension_aligned payload_bytes base blocks_length =
     ((of_nat (unat payload_bytes - base + blocks_length) :: u32) mod 4 = 0)"

definition rr_StorePacket ::
  "(nat \<Rightarrow> u8) \<Rightarrow> bytes \<Rightarrow> common_header \<Rightarrow> receiver_report \<Rightarrow> (rtcp_error, receiver_report) outcome" where
  "rr_StorePacket stale d h r =
     (if packet_type h \<noteq> 201 then Failed Wrong_Packet_Type
      else case payload h of None \<Rightarrow> Failed Null_Payload
      | Some base \<Rightarrow>
        let count = unat (count_or_format h) in
        if unat (payload_size h) < 4 + count * 24 then Failed Packet_Too_Small
        else if unat (payload_size h) > 4 + count * 24
             \<and> \<not> extension_aligned (payload_size h) 4 (count * 24) then Failed Extension_Not_Aligned
        else obind (read_be32 d base) (\<lambda>ssrc.
          omap (\<lambda>bs. \<lparr>rr_sender_ssrc = ssrc, rr_blocks = bs\<rparr>) (store_new_blocks stale d (base + 4) count)))"

section \<open>SenderReport\<close>

record sender_report =
  sr_sender_ssrc :: u32
  sr_ntp :: u64
  sr_rtp_timestamp :: u32
  sr_packet_count :: u32
  sr_octet_count :: u32
  sr_blocks :: "report_block option list"

definition sr_BlockLength :: "sender_report \<Rightarrow> nat" where
  "sr_BlockLength r = 4 + 24 + length (sr_blocks r) * 24"

definition sr_LoadPacket :: "sender_report loader" where
  "sr_LoadPacket r buf pos max_length =
     (if max_length < pos + sr_BlockLength r then Failed Buffer_Too_Small
      else obind (create_header (of_nat (length (sr_blocks r))) 200
                   (of_nat ((sr_BlockLength r - 4) div 4)) buf pos) (\<lambda>(pos, buf).
        obind (put_bytes pos (WriteBigEndian 4 (sr_sender_ssrc r)) buf) (\<lambda>buf.
        obind (put_bytes (pos + 4) (WriteBigEndian 8 (sr_ntp r)) buf) (\<lambda>buf.
        obind (put_bytes (pos + 12) (WriteBigEndian 4 (sr_rtp_timestamp r)) buf) (\<lambda>buf.
        obind (put_bytes (pos + 16) (WriteBigEndian 4 (sr_packet_count r)) buf) (\<lambda>buf.
        obind (put_bytes (pos + 20) (WriteBigEndian 4 (sr_octet_count r)) buf) (\<lambda>buf.
        ofold load_block (sr_blocks r) (pos + 24, buf))))))))"

text \<open>\<open>NtpTime::Set(seconds, fractions)\<close>.\<close>

definition ntp_Set :: "u32 \<Rightarrow> u32 \<Rightarrow> u64" where
  "ntp_Set seconds fractions = ucast seconds * 0x100000000 + ucast fractions"

text \<open>The accessors of \<open>NtpTime\<close>; the value 0 is no valid time.\<close>

definition ntp_seconds :: "u64 \<Rightarrow> u32" where
  "ntp_seconds n = ucast (n div 0x100000000)"

definition ntp_fractions :: "u64 \<Rightarrow> u32" where
  "ntp_fractions n = ucast (n mod 0x100000000)"

definition ntp_Valid :: "u64 \<Rightarrow> bool" where
  "ntp_Valid n \<longleftrightarrow> n \<noteq> 0"

lemma ntp_Set_parts: "ntp_seconds (ntp_Set s f) = s" "ntp_fractions (ntp_Set s f) = f"
proof -
  have s: "unat s < 2 ^ 32" and f: "unat f < 2 ^ 32" using u32_bound [of s] u32_bound [of f] by simp_all
  have n: "unat (ntp_Set s f) = unat s * 2 ^ 32 + unat f"
    using s f by (simp add: ntp_Set_def unat_word_ariths unsigned_ucast_eq take_bit_eq_mod)
  show "ntp_seconds (ntp_Set s f) = s"
    using s f n by (simp add: ntp_seconds_def word_unat_eq_iff unsigned_ucast_eq unat_div take_bit_eq_mod)
  show "ntp_fractions (ntp_Set s f) = f"
    using f n by (simp add: ntp_fractions_def word_unat_eq_iff unsigned_ucast_eq unat_mod take_bit_eq_mod)
qed

lemma ntp_Valid_Set: "ntp_Valid (ntp_Set s f) \<longleftrightarrow> s \<noteq> 0 \<or> f \<noteq> 0"
proof -
  have "ntp_seconds 0 = 0" "ntp_fractions 0 = 0" "ntp_Set 0 0 = 0"
    by (simp_all add: ntp_seconds_def ntp_fractions_def ntp_Set_def)
  then show ?thesis using ntp_Set_parts [of s f] unfolding ntp_Valid_def by metis
qed

definition sr_AddReportBlock :: "report_block option \<Rightarrow> sender_report \<Rightarrow> (rtcp_error, sender_report) outcome" where
  "sr_AddReportBlock b r =
     (if length (sr_blocks r) \<ge> 0x1f then Failed Max_Report_Blocks_Reached else Ok (r\<lparr>sr_blocks := sr_blocks r @ [b]\<rparr>))"

definition sr_SetReportBlocks :: "report_block option list \<Rightarrow> sender_report \<Rightarrow> (rtcp_error, sender_report) outcome" where
  "sr_SetReportBlocks new r = (if length new > 0x1f then Failed Max_Report_Blocks_Reached else Ok (r\<lparr>sr_blocks := new\<rparr>))"

text \<open>\<open>resize\<close> keeps the entries there are and fills up with null pointers; every entry is then
  used.\<close>

definition resize_blocks :: "nat \<Rightarrow> report_block option list \<Rightarrow> report_block option list" where
  "resize_blocks n blocks = take n blocks @ replicate (n - length blocks) None"

fun store_into_blocks ::
  "(nat \<Rightarrow> u8) \<Rightarrow> bytes \<Rightarrow> nat \<Rightarrow> report_block option list \<Rightarrow>
   (rtcp_error, report_block option list) outcome" where
  "store_into_blocks stale d off [] = Ok []"
| "store_into_blocks stale d off (None # bs) = Crash Null_Dereference"
| "store_into_blocks stale d off (Some _ # bs) =
     obind (block_store (stale off) d off) (\<lambda>b.
     omap (Cons (Some b)) (store_into_blocks stale d (off + 24) bs))"

definition sr_StorePacket ::
  "(nat \<Rightarrow> u8) \<Rightarrow> bytes \<Rightarrow> common_header \<Rightarrow> sender_report \<Rightarrow> (rtcp_error, sender_report) outcome" where
  "sr_StorePacket stale d h r =
     (if packet_type h \<noteq> 200 then Failed Wrong_Packet_Type
      else case payload h of None \<Rightarrow> Failed Null_Payload
      | Some base \<Rightarrow>
        let count = unat (count_or_format h) in
        if unat (payload_size h) < 24 + count * 24 then Failed Packet_Too_Small
        else if unat (payload_size h) > 24 + count * 24
             \<and> \<not> extension_aligned (payload_size h) 24 (count * 24) then Failed Extension_Not_Aligned
        else obind (read_be32 d base) (\<lambda>ssrc.
          obind (read_be32 d (base + 4)) (\<lambda>secs.
          obind (read_be32 d (base + 8)) (\<lambda>frac.
          obind (read_be32 d (base + 12)) (\<lambda>ts.
          obind (read_be32 d (base + 16)) (\<lambda>pkts.
          obind (read_be32 d (base + 20)) (\<lambda>octets.
          omap (\<lambda>bs. \<lparr>sr_sender_ssrc = ssrc, sr_ntp = ntp_Set secs frac, sr_rtp_timestamp = ts,
                       sr_packet_count = pkts, sr_octet_count = octets, sr_blocks = bs\<rparr>)
            (store_into_blocks stale d (base + 24) (resize_blocks count (sr_blocks r))))))))))"

section \<open>What the writers write\<close>

definition blocks_wf :: "report_block option list \<Rightarrow> bool" where
  "blocks_wf blocks \<longleftrightarrow> length blocks \<le> 0x1f \<and> None \<notin> set blocks"

text \<open>The methods that put blocks into a sender report keep it one that the writer accepts.\<close>

lemma sr_block_methods_wf:
  "sr_AddReportBlock (Some b) r = Ok r' \<Longrightarrow> blocks_wf (sr_blocks r) \<Longrightarrow> blocks_wf (sr_blocks r')"
  "sr_SetReportBlocks new r = Ok r' \<Longrightarrow> None \<notin> set new \<Longrightarrow> blocks_wf (sr_blocks r')"
  by (auto simp: sr_AddReportBlock_def sr_SetReportBlocks_def blocks_wf_def split: if_splits)

definition blocks_image :: "report_block option list \<Rightarrow> bytes" where
  "blocks_image blocks = concat (map (block_image \<circ> the) blocks)"

definition rr_image :: "receiver_report \<Rightarrow> bytes" where
  "rr_image r = header_image (of_nat (length (rr_blocks r))) 201 (of_nat (1 + 6 * length (rr_blocks r)))
     @ WriteBigEndian 4 (rr_sender_ssrc r) @ blocks_image (rr_blocks r)"

definition sr_image :: "sender_report \<Rightarrow> bytes" where
  "sr_image r = header_image (of_nat (length (sr_blocks r))) 200 (of_nat (6 + 6 * length (sr_blocks r)))
     @ WriteBigEndian 4 (sr_sender_ssrc r) @ WriteBigEndian 8 (sr_ntp r)
     @ WriteBigEndian 4 (sr_rtp_timestamp r) @ WriteBigEndian 4 (sr_packet_count r)
     @ WriteBigEndian 4 (sr_octet_count r) @ blocks_image (sr_blocks r)"

lemma length_blocks_image [simp]: "length (blocks_image blocks) = 24 * length blocks"
  unfolding blocks_image_def by (rule length_concat_const) simp

lemma blocks_image_Cons: "blocks_image (Some b # bs) = block_image b @ blocks_image bs"
  by (simp add: blocks_image_def)

interpretation blocks: sequential_writer load_block "block_image \<circ> the" "\<lambda>b. b \<noteq> None"
  by unfold_locales (auto simp: load_block_def block_load_eq)

lemma blocks_image_eq: "blocks.items_image blocks = blocks_image blocks"
  by (simp add: blocks.items_image_def blocks_image_def)

lemmas load_blocks_after = blocks.write_items_after [unfolded blocks_image_eq length_blocks_image]

lemma length_rr_image [simp]: "length (rr_image r) = rr_BlockLength r"
  by (simp add: rr_image_def rr_BlockLength_def)

lemma length_sr_image [simp]: "length (sr_image r) = sr_BlockLength r"
  by (simp add: sr_image_def sr_BlockLength_def)

lemma rr_load_fits:
  assumes "blocks_wf (rr_blocks r)" and "pos + rr_BlockLength r \<le> max_length" and "max_length \<le> length buf"
  shows "rr_LoadPacket r buf pos max_length =
    omap (Pair (pos + rr_BlockLength r)) (put_bytes pos (rr_image r) buf)"
proof -
  let ?n = "length (rr_blocks r)"
  have bl: "rr_BlockLength r = 8 + 24 * ?n" and len: "(rr_BlockLength r - 4) div 4 = 1 + 6 * ?n"
    by (simp_all add: rr_BlockLength_def)
  have c: "(of_nat ?n :: u8) \<le> 0x1f" and null: "\<forall>b \<in> set (rr_blocks r). b \<noteq> None"
    using assms(1) unfolding blocks_wf_def by (blast intro: count_le_31, metis)
  show ?thesis
    using assms(2,3) null unfolding rr_LoadPacket_def len
    by (simp add: create_header_Ok [OF c] obind_omap put_merge load_blocks_after bl rr_image_def)
      (simp add: ac_simps)?
qed

lemma sr_load_fits:
  assumes "blocks_wf (sr_blocks r)" and "pos + sr_BlockLength r \<le> max_length" and "max_length \<le> length buf"
  shows "sr_LoadPacket r buf pos max_length =
    omap (Pair (pos + sr_BlockLength r)) (put_bytes pos (sr_image r) buf)"
proof -
  let ?n = "length (sr_blocks r)"
  have bl: "sr_BlockLength r = 28 + 24 * ?n" and len: "(sr_BlockLength r - 4) div 4 = 6 + 6 * ?n"
    by (simp_all add: sr_BlockLength_def)
  have c: "(of_nat ?n :: u8) \<le> 0x1f" and null: "\<forall>b \<in> set (sr_blocks r). b \<noteq> None"
    using assms(1) unfolding blocks_wf_def by (blast intro: count_le_31, metis)
  show ?thesis
    using assms(2,3) null unfolding sr_LoadPacket_def len
    by (simp add: create_header_Ok [OF c] obind_omap put_merge load_blocks_after bl sr_image_def)
      (simp add: ac_simps)?
qed

interpretation rr: rtcp_packet_class rr_BlockLength rr_LoadPacket "\<lambda>r. blocks_wf (rr_blocks r)" rr_image
  by unfold_locales (simp_all add: rr_load_fits, simp add: rr_LoadPacket_def)

interpretation sr: rtcp_packet_class sr_BlockLength sr_LoadPacket "\<lambda>r. blocks_wf (sr_blocks r)" sr_image
  by unfold_locales (simp_all add: sr_load_fits, simp add: sr_LoadPacket_def)

section \<open>Reading back what was written\<close>

fun reread_blocks :: "(nat \<Rightarrow> u8) \<Rightarrow> nat \<Rightarrow> report_block option list \<Rightarrow> report_block option list" where
  "reread_blocks stale off [] = []"
| "reread_blocks stale off (b # bs) =
     map_option (\<lambda>b. b\<lparr>cumulative_lost := reread_cumulative (stale off) (cumulative_lost b)\<rparr>) b
     # reread_blocks stale (off + 24) bs"

text \<open>The stale bytes carry the signs of the values being parsed.\<close>

fun signs_agree :: "(nat \<Rightarrow> u8) \<Rightarrow> nat \<Rightarrow> report_block option list \<Rightarrow> bool" where
  "signs_agree stale off [] = True"
| "signs_agree stale off (b # bs) =
     ((case b of None \<Rightarrow> True | Some b \<Rightarrow> object_byte (cumulative_lost b) 3 = sign_fill (stale off))
      \<and> signs_agree stale (off + 24) bs)"

lemma reread_blocks_iff: "reread_blocks stale off bs = bs \<longleftrightarrow> signs_agree stale off bs"
proof (induction bs arbitrary: off)
  case (Cons ob bs)
  have "b\<lparr>cumulative_lost := c\<rparr> = b \<longleftrightarrow> c = cumulative_lost b" for b :: report_block and c
    by (cases b) auto
  with Cons.IH show ?case by (cases ob) (auto simp: reread_cumulative_iff)
qed simp

lemma store_new_blocks_image:
  assumes "length pre = off" and "None \<notin> set bs"
  shows "store_new_blocks stale (pre @ blocks_image bs @ post) off (length bs) = Ok (reread_blocks stale off bs)"
  using assms
proof (induction bs arbitrary: pre off)
  case (Cons ob bs)
  then obtain b where b: "ob = Some b" by (cases ob) auto
  have "store_new_blocks stale ((pre @ block_image b) @ blocks_image bs @ post) (off + 24) (length bs)
      = Ok (reread_blocks stale (off + 24) bs)"
    using Cons.prems by (intro Cons.IH) auto
  moreover have "block_store (stale off) (pre @ block_image b @ (blocks_image bs @ post)) off =
      Ok (b\<lparr>cumulative_lost := reread_cumulative (stale off) (cumulative_lost b)\<rparr>)"
    by (rule block_store_image) (rule Cons.prems)
  ultimately show ?case by (simp add: b blocks_image_Cons)
qed simp

lemma extension_aligned_exact: "extension_aligned n base k \<longleftrightarrow> (unat n - base + k) mod 4 = 0"
proof -
  have "(of_nat m :: u32) mod 4 = 0 \<longleftrightarrow> m mod 4 = 0" for m :: nat
    by (simp add: word_unat_eq_iff unat_mod unat_of_nat mod_mod_cancel)
  then show ?thesis unfolding extension_aligned_def .
qed

lemma WriteBigEndian_8:
  "WriteBigEndian 8 (n :: u64) =
     WriteBigEndian 4 (ucast (drop_bit 32 n) :: u32) @ WriteBigEndian 4 (ucast n :: u32)"
proof -
  have "object_byte (ucast (drop_bit 32 n) :: u32) i = object_byte n (4 + i)"
    and "object_byte (ucast n :: u32) i = object_byte n i" if "i < 4" for i
    using that by (auto intro!: bit_word_eqI simp: bit_object_byte bit_ucast_iff bit_drop_bit_eq add.assoc)
  from this [of 0] this [of 1] this [of 2] this [of 3]
  show ?thesis by (simp add: WriteBigEndian_def upt_rec)
qed

lemma ntp_Set_halves: "ntp_Set (ucast (drop_bit 32 n)) (ucast n) = n"
proof -
  have n: "unat n < 18446744073709551616" using unsigned_less [of n, where 'a=nat] by simp
  then have "unat n div 4294967296 < 4294967296" by simp
  with n show ?thesis
    by (simp add: ntp_Set_def word_unat_eq_iff unat_word_ariths unsigned_ucast_eq take_bit_eq_mod
        drop_bit_eq_div unat_div)
qed

lemma rr_store_written:
  assumes "blocks_wf (rr_blocks r)"
  shows "obind (header_store self (rr_image r @ rest) 0 (rr_BlockLength r))
      (\<lambda>h. rr_StorePacket stale (rr_image r @ rest) h q) = Ok (r\<lparr>rr_blocks := reread_blocks stale 8 (rr_blocks r)\<rparr>)"
proof -
  let ?bs = "rr_blocks r" and ?n = "length (rr_blocks r)" and ?d = "rr_image r @ rest"
  define c where "c = (of_nat ?n :: u8)"
  define l where "l = (of_nat (1 + 6 * ?n) :: u16)"
  let ?h = "\<lparr>packet_type = 201, count_or_format = c, padding_size = 0, payload_size = ucast l * 4,
    payload = Some 4\<rparr>"
  have n: "?n \<le> 31" and null: "None \<notin> set ?bs" using assms by (auto simp: blocks_wf_def)
  have l: "unat l = 1 + 6 * ?n" unfolding l_def by (rule unat_length) (use n in simp)
  then have nz: "l \<noteq> 0" by auto
  have c: "c \<le> 0x1f" "unat c = ?n" using n by (simp_all only: c_def count_le_31 unat_count)
  have d: "?d = header_image c 201 l @ WriteBigEndian 4 (rr_sender_ssrc r) @ blocks_image ?bs @ rest"
    by (simp add: rr_image_def c_def l_def)
  have h: "header_store self ?d 0 (rr_BlockLength r) = Ok ?h"
    using header_store_image [OF c(1), of "[]" 0 l "rr_BlockLength r" self 201] l nz
    by (simp add: d rr_BlockLength_def)
  have ssrc: "read_be32 ?d 4 = (Ok (rr_sender_ssrc r) :: (rtcp_error, u32) outcome)"
    unfolding d by (subst reads_of_parts) simp_all
  have bs: "store_new_blocks stale ?d 8 ?n = Ok (reread_blocks stale 8 ?bs)"
    using store_new_blocks_image [of "header_image c 201 l @ WriteBigEndian 4 (rr_sender_ssrc r)" 8 ?bs stale rest]
      null by (simp add: d)
  have "rr_StorePacket stale ?d ?h q = Ok (r\<lparr>rr_blocks := reread_blocks stale 8 ?bs\<rparr>)"
    unfolding rr_StorePacket_def Let_def by (simp add: unat_payload l c ssrc bs)
  with h show ?thesis by simp
qed

lemmas rr_store_image = rr_store_written [where rest = "[]", unfolded append_Nil2]

text \<open>C37: A receiver report written by \<open>LoadPacket\<close> at the start of any buffer that holds it is parsed back, by the
  header parser and \<open>StorePacket\<close>, to the same report up to the signs of the cumulative losses, and to exactly the
  same report iff the stale bytes happen to carry those signs.\<close>

theorem rr_wire_roundtrip:
  assumes "blocks_wf (rr_blocks r)" and "rr_BlockLength r \<le> length buf"
  shows "obind (rr_LoadPacket r buf 0 (length buf)) (\<lambda>(size, d).
        obind (header_store self d 0 size) (\<lambda>h. rr_StorePacket stale d h q))
      = Ok (r\<lparr>rr_blocks := reread_blocks stale 8 (rr_blocks r)\<rparr>)
    \<and> (reread_blocks stale 8 (rr_blocks r) = rr_blocks r \<longleftrightarrow> signs_agree stale 8 (rr_blocks r))"
proof -
  have "rr_LoadPacket r buf 0 (length buf) = omap (Pair (rr_BlockLength r)) (put_bytes 0 (rr_image r) buf)"
    using rr_load_fits [OF assms(1), of 0 "length buf" buf] assms(2) by simp
  moreover have "put_bytes 0 (rr_image r) buf = (Ok (rr_image r @ drop (rr_BlockLength r) buf) :: (rtcp_error, bytes) outcome)"
    using assms(2) by (simp add: put_bytes_def)
  ultimately show ?thesis by (simp add: rr_store_written [OF assms(1)] reread_blocks_iff)
qed

definition sample_block :: report_block where
  "sample_block = \<lparr>source_ssrc = 0x12345678, fraction_lost = 25, cumulative_lost = 5,
     extended_high_seq_num = 70000, jitter = 17, last_sr = 0xabcd, delay_since_last_sr = 99\<rparr>"

theorem rr_wire_roundtrip_witness:
  "obind (rr_LoadPacket \<lparr>rr_sender_ssrc = 7, rr_blocks = [Some sample_block]\<rparr> (replicate 40 205) 0 40) (\<lambda>(size, d).
     obind (header_store header_empty d 0 size) (\<lambda>h. rr_StorePacket (\<lambda>_. 0) d h \<lparr>rr_sender_ssrc = 0, rr_blocks = []\<rparr>))
   = Ok \<lparr>rr_sender_ssrc = 7, rr_blocks = [Some sample_block]\<rparr>"
proof -
  let ?r = "\<lparr>rr_sender_ssrc = 7, rr_blocks = [Some sample_block]\<rparr>"
  have len: "length (replicate 40 205 :: bytes) = 40" by simp
  have r: "blocks_wf (rr_blocks ?r)" "rr_BlockLength ?r \<le> length (replicate 40 205 :: bytes)"
    by (simp_all add: blocks_wf_def rr_BlockLength_def)
  have "signs_agree (\<lambda>_. 0) 8 (rr_blocks ?r)" by (simp add: sample_block_def object_byte_def sign_fill_def)
  then have "reread_blocks (\<lambda>_. 0) 8 (rr_blocks ?r) = [Some sample_block]" by (simp only: reread_blocks_iff [symmetric]) simp
  then show ?thesis
    using conjunct1 [OF rr_wire_roundtrip [OF r, of header_empty "\<lambda>_. 0" "\<lparr>rr_sender_ssrc = 0, rr_blocks = []\<rparr>"]]
    unfolding len by (simp only: receiver_report.update_convs)
qed

text \<open>A sender report written by \<open>LoadPacket\<close> and parsed into an object without report
  blocks (every object this program parses into is new): a report without blocks comes back
  exactly, NTP time stamp included; a report with blocks dereferences a null pointer.\<close>

lemma sr_parse_into_fresh:
  assumes "blocks_wf (sr_blocks r)" and "sr_blocks q = []"
  shows "obind (header_store self (sr_image r) 0 (sr_BlockLength r))
      (\<lambda>h. sr_StorePacket stale (sr_image r) h q) =
    (if sr_blocks r = [] then Ok r else Crash Null_Dereference)"
proof -
  let ?bs = "sr_blocks r" and ?n = "length (sr_blocks r)" and ?d = "sr_image r"
  define c where "c = (of_nat ?n :: u8)"
  define l where "l = (of_nat (6 + 6 * ?n) :: u16)"
  let ?h = "\<lparr>packet_type = 200, count_or_format = c, padding_size = 0, payload_size = ucast l * 4,
    payload = Some 4\<rparr>"
  have n: "?n \<le> 31" using assms(1) by (auto simp: blocks_wf_def)
  have l: "unat l = 6 + 6 * ?n" unfolding l_def by (rule unat_length) (use n in simp)
  then have nz: "l \<noteq> 0" by auto
  have c: "c \<le> 0x1f" "unat c = ?n" using n by (simp_all only: c_def count_le_31 unat_count)
  have d: "?d = header_image c 200 l @ WriteBigEndian 4 (sr_sender_ssrc r)
      @ WriteBigEndian 4 (ucast (drop_bit 32 (sr_ntp r)) :: u32) @ WriteBigEndian 4 (ucast (sr_ntp r) :: u32)
      @ WriteBigEndian 4 (sr_rtp_timestamp r) @ WriteBigEndian 4 (sr_packet_count r)
      @ WriteBigEndian 4 (sr_octet_count r) @ blocks_image ?bs"
    by (simp add: sr_image_def c_def l_def WriteBigEndian_8)
  have h: "header_store self ?d 0 (sr_BlockLength r) = Ok ?h"
    using header_store_image [OF c(1), of "[]" 0 l "sr_BlockLength r" self 200] l nz
    by (simp add: d sr_BlockLength_def)
  have "read_be32 ?d 4 = (Ok (sr_sender_ssrc r) :: (rtcp_error, u32) outcome)"
    "read_be32 ?d 8 = (Ok (ucast (drop_bit 32 (sr_ntp r))) :: (rtcp_error, u32) outcome)"
    "read_be32 ?d 12 = (Ok (ucast (sr_ntp r)) :: (rtcp_error, u32) outcome)"
    "read_be32 ?d 16 = (Ok (sr_rtp_timestamp r) :: (rtcp_error, u32) outcome)"
    "read_be32 ?d 20 = (Ok (sr_packet_count r) :: (rtcp_error, u32) outcome)"
    "read_be32 ?d 24 = (Ok (sr_octet_count r) :: (rtcp_error, u32) outcome)"
    by (simp_all add: d read_be32_def get_bytes_def)
  note reads = this
  have "store_into_blocks stale ?d 28 (resize_blocks ?n []) =
      (if ?bs = [] then Ok [] else Crash Null_Dereference)"
    by (cases ?bs) (simp_all add: resize_blocks_def)
  then have "sr_StorePacket stale ?d ?h q = (if ?bs = [] then Ok r else Crash Null_Dereference)"
    unfolding sr_StorePacket_def Let_def
    by (simp add: unat_payload l c reads assms(2) ntp_Set_halves)
  with h show ?thesis by simp
qed

end
