(* ===== verification/Rtcp_Nack.thy ===== *)
theory Rtcp_Nack
  imports Rtcp_Common Seq_Comparison
begin

text \<open>
  \<open>src/rtp_rtcp/nack.h/.cc\<close> and \<open>rtpfb.h/.cc\<close>: the generic NACK. The list of lost sequence numbers
  is packed into items of a first number and a bit mask of the 16 following ones; the items are
  what travels. The central result is that unpacking inverts packing for every list in the order
  the header asks for, across the wrap-around of sequence numbers, and that the list survives the
  wire.
\<close>

section \<open>Nack\<close>

record packed_nack =
  first_pid :: u16
  bitmask :: u16

record nack =
  nack_sender_ssrc :: u32
  nack_media_ssrc :: u32
  packed :: "packed_nack list"
  packet_ids :: "u16 list"

definition nack_empty :: nack where
  "nack_empty = \<lparr>nack_sender_ssrc = 0, nack_media_ssrc = 0, packed = [], packet_ids = []\<rparr>"

definition nack_BlockLength :: "nack \<Rightarrow> nat" where
  "nack_BlockLength n = 4 + 8 + length (packed n) * 4"

text \<open>The inner loop of \<open>Pack\<close>: the mask of the item and the numbers left for the next one.\<close>

fun pack_item :: "u16 \<Rightarrow> u16 \<Rightarrow> u16 list \<Rightarrow> u16 \<times> u16 list" where
  "pack_item first m [] = (m, [])"
| "pack_item first m (x # xs) =
     (if x < first then (m, x # xs)
      else let shift = x - first - 1 in
        if shift \<le> 15 then pack_item first (m OR push_bit (unat shift) 1) xs
        else (m, x # xs))"

lemma pack_item_length: "length (snd (pack_item first m xs)) \<le> length xs"
  by (induction first m xs rule: pack_item.induct) (auto simp: Let_def)

function pack_ids :: "u16 list \<Rightarrow> packed_nack list" where
  "pack_ids [] = []"
| "pack_ids (x # xs) =
     (case pack_item x 0 xs of (m, rest) \<Rightarrow> \<lparr>first_pid = x, bitmask = m\<rparr> # pack_ids rest)"
  by pat_completeness auto
termination
proof (relation "measure length")
  fix x :: u16 and xs m rest
  assume "(m, rest) = pack_item x 0 xs"
  then show "(rest, x # xs) \<in> measure length"
    using pack_item_length [of x 0 xs] by (metis in_measure le_imp_less_Suc length_Cons snd_conv)
qed simp

text \<open>\<open>Pack()\<close> appends to \<open>packed_\<close>; nothing clears it.\<close>

definition SetPacketIds :: "u16 list \<Rightarrow> nack \<Rightarrow> nack" where
  "SetPacketIds nack_list n = n\<lparr>packet_ids := nack_list, packed := packed n @ pack_ids nack_list\<rparr>"

function unpack_bits :: "u16 \<Rightarrow> u16 \<Rightarrow> u16 list" where
  "unpack_bits pid m =
     (if m = 0 then []
      else (if m AND 1 \<noteq> 0 then [pid] else []) @ unpack_bits (pid + 1) (drop_bit 1 m))"
  by pat_completeness auto
termination
proof (relation "measure (\<lambda>(pid, m). unat m)")
  fix pid m :: u16
  assume "m \<noteq> 0"
  then have "0 < unat m" by (metis neq0_conv unsigned_eq_0_iff)
  then show "((pid + 1, drop_bit 1 m), pid, m) \<in> measure (\<lambda>(pid, m). unat m)"
    by (simp add: drop_bit_eq_div unat_div)
qed simp

declare unpack_bits.simps [simp del]

definition unpack_ids :: "packed_nack list \<Rightarrow> u16 list" where
  "unpack_ids items =
     concat (map (\<lambda>item. first_pid item # unpack_bits (first_pid item + 1) (bitmask item)) items)"

text \<open>\<open>LoadPacket\<close> and \<open>StorePacket\<close>.\<close>

definition LoadCommonFeedback :: "nack \<Rightarrow> bytes \<Rightarrow> nat \<Rightarrow> (rtcp_error, bytes) outcome" where
  "LoadCommonFeedback n buf pos =
     obind (put_bytes pos (WriteBigEndian 4 (nack_sender_ssrc n)) buf)
       (put_bytes (pos + 4) (WriteBigEndian 4 (nack_media_ssrc n)))"

definition load_item :: "packed_nack \<Rightarrow> nat \<times> bytes \<Rightarrow> (rtcp_error, nat \<times> bytes) outcome" where
  "load_item item = (\<lambda>(pos, buf).
     obind (put_bytes pos (WriteBigEndian 2 (first_pid item)) buf) (\<lambda>buf.
     omap (Pair (pos + 4)) (put_bytes (pos + 2) (WriteBigEndian 2 (bitmask item)) buf)))"

definition nack_LoadPacket :: "nack loader" where
  "nack_LoadPacket n buf pos max_length =
     (if packed n = [] then Failed Empty_Fci
      else if pos + nack_BlockLength n > max_length then Failed Buffer_Too_Small
      else obind (create_header 1 205 (of_nat ((nack_BlockLength n - 4) div 4)) buf pos) (\<lambda>(pos, buf).
        obind (LoadCommonFeedback n buf pos) (\<lambda>buf.
        ofold load_item (packed n) (pos + 8, buf))))"

fun store_items :: "bytes \<Rightarrow> nat \<Rightarrow> nat \<Rightarrow> (rtcp_error, packed_nack list) outcome" where
  "store_items d off 0 = Ok []"
| "store_items d off (Suc k) =
     obind (read_be16 d off) (\<lambda>pid.
     obind (read_be16 d (off + 2)) (\<lambda>m.
     omap (Cons \<lparr>first_pid = pid, bitmask = m\<rparr>) (store_items d (off + 4) k)))"

definition nack_StorePacket :: "bytes \<Rightarrow> common_header \<Rightarrow> nack \<Rightarrow> (rtcp_error, nack) outcome" where
  "nack_StorePacket d h n =
     (if packet_type h \<noteq> 205 \<or> count_or_format h \<noteq> 1 then Failed Wrong_Packet_Type
      else if unat (payload_size h) < 8 + 4 then Failed Packet_Too_Small
      else case payload h of None \<Rightarrow> Crash Null_Dereference
      | Some base \<Rightarrow>
        obind (read_be32 d base) (\<lambda>sender.
        obind (read_be32 d (base + 4)) (\<lambda>media.
        omap (\<lambda>items. \<lparr>nack_sender_ssrc = sender, nack_media_ssrc = media, packed = items,
                        packet_ids = unpack_ids items\<rparr>)
          (store_items d (base + 8) ((unat (payload_size h) - 8) div 4)))))"

section \<open>Unpacking inverts packing\<close>

lemma unpack_bits_filter:
  "(\<And>i. n \<le> i \<Longrightarrow> \<not> bit m i) \<Longrightarrow> unpack_bits pid m = map (\<lambda>i. pid + of_nat i) (filter (bit m) [0..<n])"
proof (induction n arbitrary: pid m)
  case 0
  then have "m = 0" by (auto intro: bit_word_eqI)
  then show ?case by (simp add: unpack_bits.simps)
next
  case (Suc n)
  show ?case
  proof (cases "m = 0")
    case False
    have "unpack_bits (pid + 1) (drop_bit 1 m) =
        map (\<lambda>i. pid + 1 + of_nat i) (filter (bit (drop_bit 1 m)) [0..<n])"
      by (rule Suc.IH) (simp add: bit_drop_bit_eq Suc.prems)
    then show ?thesis using False
      by (simp add: unpack_bits.simps [of pid m] upt_conv_Cons map_Suc_upt [symmetric] filter_map
          o_def bit_drop_bit_eq and_one_eq odd_iff_mod_2_eq_one bit_0 add.assoc del: upt_Suc)
  qed (simp add: unpack_bits.simps)
qed

lemma unpack_bits_16: "unpack_bits pid m = map (\<lambda>i. pid + of_nat i) (filter (bit m) [0..<16])"
  by (rule unpack_bits_filter) (use bit_imp_le_length [of m] in fastforce)

lemma unpack_bits_set:
  assumes "s < 16" and "\<And>i. bit m i \<Longrightarrow> i < s"
  shows "unpack_bits pid (m OR push_bit s 1) = unpack_bits pid m @ [pid + of_nat s]"
proof -
  have "[0..<16] = [0..<s] @ s # [Suc s..<16]"
    using assms(1) upt_add_eq_append [of 0 s "16 - s"] by (simp add: upt_conv_Cons)
  moreover have "filter (bit (m OR push_bit s 1)) [0..<s] = filter (bit m) [0..<s]"
    by (rule filter_cong) (auto simp: bit_or_iff bit_push_bit_iff bit_1_iff bit_exp_iff)
  moreover have "filter (bit (m OR push_bit s 1)) [Suc s..<16] = []" and "filter (bit m) (s # [Suc s..<16]) = []"
    using assms(2) by (fastforce simp: filter_empty_conv bit_or_iff bit_push_bit_iff bit_1_iff bit_exp_iff)+
  moreover have "bit (m OR push_bit s 1) s"
    using assms(1) by (simp add: bit_or_iff bit_exp_iff)
  ultimately show ?thesis by (simp add: unpack_bits_16)
qed

text \<open>Inside one item every number added lies after the ones before it.\<close>

definition item_extends :: "u16 \<Rightarrow> u16 \<Rightarrow> u16 \<Rightarrow> bool" where
  "item_extends first m prev \<longleftrightarrow>
     first \<le> prev \<and> unat prev - unat first \<le> 16 \<and> (\<forall>i. bit m i \<longrightarrow> i < unat prev - unat first)"

lemma IsSeqAfter_ascends:
  assumes "IsSeqAfter prev x" and "first \<le> prev" and "unat prev - unat first \<le> 16" and "first \<le> x"
  shows "prev < x"
  using assms u16_bound [of prev] u16_bound [of x]
  by (auto simp: IsSeqAfter_def IsSeqAfterInRange_def word_le_nat_alt word_less_nat_alt Let_def
      split: if_splits)

lemma pack_item_unpack:
  assumes "item_extends first m prev" and "successively IsSeqAfter (prev # xs)"
    and "pack_item first m xs = (m', rest)"
  obtains taken where "xs = taken @ rest" and "unpack_bits (first + 1) m' = unpack_bits (first + 1) m @ taken"
  using assms
proof (induction first m xs arbitrary: prev thesis rule: pack_item.induct)
  case (1 first m)
  then show ?case by simp
next
  case (2 first m x xs)
  let ?shift = "x - first - 1"
  show ?case
  proof (cases "x < first \<or> \<not> ?shift \<le> 15")
    case True
    then have "m' = m" "rest = x # xs" using "2.prems"(4) by (auto simp: Let_def split: if_splits)
    then show ?thesis using "2.prems"(1) [of "[]"] by simp
  next
    case False
    have "first \<le> prev" "unat prev - unat first \<le> 16" and bits: "\<And>i. bit m i \<Longrightarrow> i < unat prev - unat first"
      using "2.prems"(2) by (auto simp: item_extends_def)
    then have asc: "prev < x" using IsSeqAfter_ascends [of prev x first] "2.prems"(3) False by (simp add: not_less)
    then have lt: "first < x" using \<open>first \<le> prev\<close> by simp
    have "unat (x - first) = unat x - unat first" using lt by (simp add: unat_sub word_le_nat_alt word_less_nat_alt)
    moreover have "1 \<le> x - first" using lt calculation by (simp add: word_le_nat_alt word_less_nat_alt)
    ultimately have sh: "unat ?shift = unat x - unat first - 1" by (simp add: unat_sub)
    then have s16: "unat ?shift < 16" using False by (simp add: word_le_nat_alt)
    have x: "first + 1 + of_nat (unat ?shift) = x" by simp
    have below: "i < unat ?shift" if "bit m i" for i
      using bits [OF that] asc sh by (simp add: word_less_nat_alt)
    have ext: "item_extends first (m OR push_bit (unat ?shift) 1) x"
      using lt s16 sh below unfolding item_extends_def
      by (auto simp: bit_or_iff bit_push_bit_iff bit_1_iff bit_exp_iff word_less_nat_alt word_le_nat_alt dest!: below)
    obtain taken where "xs = taken @ rest"
      and "unpack_bits (first + 1) m' = unpack_bits (first + 1) (m OR push_bit (unat ?shift) 1) @ taken"
      using "2.IH" [OF _ refl _ _ ext] False "2.prems"(3,4) by (auto simp: Let_def)
    then show ?thesis
      using "2.prems"(1) [of "x # taken"] unpack_bits_set [OF s16, of m "first + 1"] below x by simp
  qed
qed

lemma successively_tail: "successively R (xs @ ys) \<Longrightarrow> successively R ys"
  by (simp add: successively_append_iff)

lemma unpack_pack_ids:
  "successively IsSeqAfter xs \<Longrightarrow> unpack_ids (pack_ids xs) = xs"
proof (induction xs rule: pack_ids.induct)
  case 1
  then show ?case by (simp add: unpack_ids_def)
next
  case (2 x xs)
  obtain m rest where m: "pack_item x 0 xs = (m, rest)" by fastforce
  have "item_extends x 0 x" by (simp add: item_extends_def)
  then obtain taken where t: "xs = taken @ rest" "unpack_bits (x + 1) m = taken"
    using pack_item_unpack [OF _ "2.prems" m] by (auto simp: unpack_bits.simps [of _ 0])
  have "successively IsSeqAfter rest"
    using "2.prems" t(1) successively_tail [of IsSeqAfter "x # taken" rest] by simp
  with "2.IH" [OF m [symmetric]] m t show ?case by (simp add: unpack_ids_def)
qed

section \<open>On the wire\<close>

definition item_image :: "packed_nack \<Rightarrow> bytes" where
  "item_image item = WriteBigEndian 2 (first_pid item) @ WriteBigEndian 2 (bitmask item)"

definition nack_image :: "nack \<Rightarrow> bytes" where
  "nack_image n = header_image 1 205 (of_nat (2 + length (packed n)))
     @ WriteBigEndian 4 (nack_sender_ssrc n) @ WriteBigEndian 4 (nack_media_ssrc n)
     @ concat (map item_image (packed n))"

text \<open>The 16-bit length field holds at most 65533 items.\<close>

definition nack_wf :: "nack \<Rightarrow> bool" where
  "nack_wf n \<longleftrightarrow> packed n \<noteq> [] \<and> length (packed n) \<le> 65533"

lemma length_item_image [simp]: "length (item_image item) = 4"
  by (simp add: item_image_def)

lemma length_items_image [simp]: "length (concat (map item_image items)) = 4 * length items"
  by (rule length_concat_const) simp

interpretation items: sequential_writer load_item item_image "\<lambda>_. True"
  by unfold_locales (simp add: load_item_def item_image_def put_merge)

lemmas load_items_after = items.write_items_after [unfolded items.items_image_def length_items_image]

lemma nack_load_fits:
  assumes "nack_wf n" and "pos + nack_BlockLength n \<le> max_length" and "max_length \<le> length buf"
  shows "nack_LoadPacket n buf pos max_length =
    omap (Pair (pos + nack_BlockLength n)) (put_bytes pos (nack_image n) buf)"
proof -
  let ?k = "length (packed n)"
  have bl: "nack_BlockLength n = 12 + 4 * ?k" and len: "(nack_BlockLength n - 4) div 4 = 2 + ?k"
    by (simp_all add: nack_BlockLength_def)
  have ne: "packed n \<noteq> []" and c: "(1 :: u8) \<le> 0x1f" using assms(1) by (simp_all add: nack_wf_def)
  show ?thesis
    using assms(2,3) ne unfolding nack_LoadPacket_def len
    by (simp add: create_header_Ok [OF c] LoadCommonFeedback_def obind_omap obind_assoc put_merge
        load_items_after bl nack_image_def)
      (simp add: ac_simps)?
qed

interpretation nack: rtcp_packet_class nack_BlockLength nack_LoadPacket nack_wf nack_image
proof unfold_locales
  fix p pos max_length and buf :: bytes
  show "nack_wf p \<Longrightarrow> length (nack_image p) = nack_BlockLength p"
    by (simp add: nack_image_def nack_BlockLength_def)
  show "nack_wf p \<Longrightarrow> max_length < pos + nack_BlockLength p \<Longrightarrow>
      nack_LoadPacket p buf pos max_length = Failed Buffer_Too_Small"
    by (simp add: nack_LoadPacket_def nack_wf_def)
qed (rule nack_load_fits)

lemma store_items_image:
  "length pre = off \<Longrightarrow>
   store_items (pre @ concat (map item_image items) @ post) off (length items) = Ok items"
proof (induction items arbitrary: pre off)
  case (Cons item items)
  have "store_items ((pre @ item_image item) @ concat (map item_image items) @ post) (off + 4) (length items)
      = Ok items"
    using Cons.prems by (intro Cons.IH) simp
  then show ?case using Cons.prems
    by (simp add: item_image_def [of item] read_be16_def get_bytes_def)
qed simp

lemma pack_ids_length: "length (pack_ids ids) \<le> length ids"
proof (induction ids rule: pack_ids.induct)
  case (2 x xs)
  obtain m rest where m: "pack_item x 0 xs = (m, rest)" by fastforce
  with pack_item_length [of x 0 xs] "2.IH" [OF m [symmetric]] show ?case by simp
qed simp

lemma pack_ids_Nil_iff: "pack_ids ids = [] \<longleftrightarrow> ids = []"
  by (cases ids) (simp_all split: prod.split)

lemma nack_store_image:
  assumes "nack_wf n"
  shows "obind (header_store self (nack_image n) 0 (nack_BlockLength n)) (\<lambda>h. nack_StorePacket (nack_image n) h q)
    = Ok (n\<lparr>packet_ids := unpack_ids (packed n)\<rparr>)"
proof -
  let ?k = "length (packed n)" and ?d = "nack_image n"
  define l where "l = (of_nat (2 + ?k) :: u16)"
  let ?h = "\<lparr>packet_type = 205, count_or_format = 1, padding_size = 0, payload_size = ucast l * 4,
    payload = Some 4\<rparr>"
  have k: "?k \<le> 65533" "0 < ?k" using assms by (auto simp: nack_wf_def)
  have l: "unat l = 2 + ?k" unfolding l_def by (rule unat_length) (use k in simp)
  then have nz: "l \<noteq> 0" by auto
  have d: "?d = header_image 1 205 l @ WriteBigEndian 4 (nack_sender_ssrc n)
      @ WriteBigEndian 4 (nack_media_ssrc n) @ concat (map item_image (packed n))"
    by (simp add: nack_image_def l_def)
  have h: "header_store self ?d 0 (nack_BlockLength n) = Ok ?h"
    using header_store_image [of 1 "[]" 0 l "nack_BlockLength n" self 205] l nz
    by (simp add: d nack_BlockLength_def)
  have "read_be32 ?d 4 = (Ok (nack_sender_ssrc n) :: (rtcp_error, u32) outcome)"
    "read_be32 ?d 8 = (Ok (nack_media_ssrc n) :: (rtcp_error, u32) outcome)"
    by (simp_all add: d read_be32_def get_bytes_def)
  note reads = this
  have items: "store_items ?d 12 ?k = Ok (packed n)"
    using store_items_image [of "header_image 1 205 l @ WriteBigEndian 4 (nack_sender_ssrc n)
      @ WriteBigEndian 4 (nack_media_ssrc n)" 12 "packed n" "[]"] by (simp add: d)
  have "nack_StorePacket ?d ?h q = Ok (n\<lparr>packet_ids := unpack_ids (packed n)\<rparr>)"
    unfolding nack_StorePacket_def using k by (simp add: unat_payload l reads items)
  with h show ?thesis by simp
qed

text \<open>C12: A list of lost sequence numbers in circularly ascending order, set on a new NACK, written
  by \<open>LoadPacket\<close> and parsed by the header parser and \<open>StorePacket\<close>, arrives as the same list, with
  the same two SSRCs, also across the wrap-around of the 16-bit numbers.\<close>

theorem nack_wire_roundtrip:
  assumes "successively IsSeqAfter ids" and "ids \<noteq> []" and "length ids \<le> 65533" and "packed n = []"
  shows "let n' = SetPacketIds ids n; d = nack_image n' in
    nack_wf n' \<and> nack_LoadPacket n' (replicate (nack_BlockLength n') 0) 0 (nack_BlockLength n')
      = Ok (nack_BlockLength n', d)
    \<and> obind (header_store self d 0 (nack_BlockLength n')) (\<lambda>h. nack_StorePacket d h q) = Ok n'"
proof -
  let ?n = "SetPacketIds ids n"
  have wf: "nack_wf ?n"
    using assms pack_ids_length [of ids] by (simp add: nack_wf_def SetPacketIds_def pack_ids_Nil_iff)
  have "?n\<lparr>packet_ids := unpack_ids (packed ?n)\<rparr> = ?n"
    using assms by (simp add: SetPacketIds_def unpack_pack_ids)
  moreover have "nack_LoadPacket ?n (replicate (nack_BlockLength ?n) 0) 0 (nack_BlockLength ?n)
      = Ok (nack_BlockLength ?n, nack_image ?n)"
    using nack.image_length [OF wf] by (simp add: nack_load_fits wf put_bytes_def)
  ultimately show ?thesis using wf nack_store_image [OF wf, of self q] by (simp add: Let_def)
qed

theorem nack_wire_roundtrip_witness:
  "let n' = SetPacketIds [65530, 65535, 3, 4, 30] nack_empty; d = nack_image n' in
    nack_wf n' \<and> nack_LoadPacket n' (replicate (nack_BlockLength n') 0) 0 (nack_BlockLength n')
      = Ok (nack_BlockLength n', d)
    \<and> obind (header_store header_empty d 0 (nack_BlockLength n')) (\<lambda>h. nack_StorePacket d h nack_empty) = Ok n'"
  by (rule nack_wire_roundtrip)
    (simp_all add: nack_empty_def IsSeqAfter_def IsSeqAfterInRange_def)

text \<open>\<open>SetPacketIds\<close> on a NACK that already holds items keeps them: the packet then asks for the
  old numbers and the new ones.\<close>

lemma set_packet_ids_accumulates:
  assumes "successively IsSeqAfter ids" and "successively IsSeqAfter ids'" and "packed n = []"
  shows "unpack_ids (packed (SetPacketIds ids' (SetPacketIds ids n))) = ids @ ids'"
  using assms by (simp add: SetPacketIds_def unpack_ids_def) (simp flip: unpack_ids_def add: unpack_pack_ids)

lemma set_packet_ids_accumulates_witness:
  "unpack_ids (packed (SetPacketIds [9] (SetPacketIds [7, 8] nack_empty))) = [7, 8, 9]"
  using set_packet_ids_accumulates [of "[7, 8]" "[9]" nack_empty]
  by (simp add: nack_empty_def IsSeqAfter_def IsSeqAfterInRange_def)

end
