(* ===== verification/Rtcp_Sdes.thy ===== *)
theory Rtcp_Sdes
  imports Rtcp_Common
begin

text \<open>
  \<open>src/rtp_rtcp/sdes.h/.cc\<close>: the source description packet. Its parser walks a pointer through
  items of variable length sent by the peer; it is shown to stay inside the payload for every
  input, and to return the chunks that the writer wrote.
\<close>

section \<open>Sdes\<close>

record chunk =
  chunk_ssrc :: u32
  cname :: bytes

record sdes =
  chunks :: "chunk list"
  chunks_buffer_length :: u32

definition sdes_empty :: sdes where
  "sdes_empty = \<lparr>chunks = [], chunks_buffer_length = 0\<rparr>"

definition ChunkSize :: "chunk \<Rightarrow> u32" where
  "ChunkSize c =
     (let chunk_payload_size = 4 + 1 + 1 + of_nat (length (cname c));
          padding_size = 4 - chunk_payload_size mod 4
      in chunk_payload_size + padding_size)"

definition AddCName :: "u32 \<Rightarrow> bytes \<Rightarrow> sdes \<Rightarrow> (rtcp_error, sdes) outcome" where
  "AddCName s name p =
     (if length name > 0xff then Failed Cname_Too_Long
      else if length (chunks p) \<ge> 0x1f then Failed Max_Chunks_Reached
      else let c = \<lparr>chunk_ssrc = s, cname = name\<rparr> in
        Ok \<lparr>chunks = chunks p @ [c], chunks_buffer_length = chunks_buffer_length p + ChunkSize c\<rparr>)"

definition sdes_BlockLength :: "sdes \<Rightarrow> nat" where
  "sdes_BlockLength p = unat (chunks_buffer_length p + 4)"

definition load_chunk :: "chunk \<Rightarrow> nat \<times> bytes \<Rightarrow> (rtcp_error, nat \<times> bytes) outcome" where
  "load_chunk c = (\<lambda>(pos, buf).
     let n = length (cname c); padding_size = 4 - (6 + n) mod 4 in
     obind (put_bytes pos (WriteBigEndian 4 (chunk_ssrc c)) buf) (\<lambda>buf.
     obind (put_bytes (pos + 4) [1] buf) (\<lambda>buf.
     obind (put_bytes (pos + 5) [of_nat n] buf) (\<lambda>buf.
     obind (put_bytes (pos + 6) (cname c) buf) (\<lambda>buf.
     omap (Pair (pos + (6 + n) + padding_size))
       (put_bytes (pos + (6 + n)) (replicate padding_size 0) buf))))))"

definition sdes_LoadPacket :: "sdes loader" where
  "sdes_LoadPacket p buf pos max_length =
     (if pos + sdes_BlockLength p > max_length then Failed Buffer_Too_Small
      else obind (create_header (of_nat (length (chunks p))) 202
                   (of_nat ((sdes_BlockLength p - 4) div 4)) buf pos)
        (ofold load_chunk (chunks p)))"

text \<open>
  The parser. \<open>looking_at\<close> and \<open>payload_end\<close> are offsets in the datagram. The inner loop reads the
  items of a chunk up to the terminator and returns the position after it and the CNAME found;
  the comparison \<open>looking_at + item_length + 1 > payload_end\<close> bounds every step.
\<close>

function parse_items ::
  "bytes \<Rightarrow> nat \<Rightarrow> nat \<Rightarrow> bytes option \<Rightarrow> (rtcp_error, nat \<times> bytes option) outcome" where
  "parse_items d payload_end looking_at found =
     obind (get_byte d looking_at) (\<lambda>item_type.
       if item_type = 0 then Ok (looking_at + 1, found)
       else if looking_at + 1 \<ge> payload_end then Failed No_Space_For_Item_Length
       else obind (get_byte d (looking_at + 1)) (\<lambda>item_length.
         let text_at = looking_at + 2; n = unat item_length in
         if text_at + n + 1 > payload_end then Failed No_Space_For_Item_Text
         else if item_type = 1 \<and> found \<noteq> None then Failed Extra_Cname
         else obind (if item_type = 1 then omap Some (get_bytes d text_at n) else Ok found)
           (parse_items d payload_end (text_at + n))))"
  by pat_completeness auto
termination
  by (relation "measure (\<lambda>(d, payload_end, looking_at, found). payload_end - looking_at)") auto

declare parse_items.simps [simp del]

text \<open>The outer loop: \<open>n\<close> is \<open>number_of_chunks - i\<close>, one less after every round, with a chunk
  stored or with \<open>number_of_chunks\<close> reduced. The offset is then moved to a 32-bit boundary of the
  payload.\<close>

fun parse_chunks ::
  "bytes \<Rightarrow> nat \<Rightarrow> nat \<Rightarrow> nat \<Rightarrow> (rtcp_error, chunk list) outcome" where
  "parse_chunks d payload_end 0 looking_at = Ok []"
| "parse_chunks d payload_end (Suc n) looking_at =
     (if payload_end < looking_at + 8 then Failed No_Space_For_Chunk
      else obind (read_be32 d looking_at) (\<lambda>s.
        obind (parse_items d payload_end (looking_at + 4) None) (\<lambda>(after, found).
        let next = after + (payload_end - after) mod 4 in
        omap (\<lambda>cs. case found of None \<Rightarrow> cs | Some name \<Rightarrow> \<lparr>chunk_ssrc = s, cname = name\<rparr> # cs)
          (parse_chunks d payload_end n next))))"

text \<open>A null \<open>payload()\<close> comes with a payload size of 0 (\<open>header_store\<close>): nothing is read then, and
  the base is immaterial.\<close>

definition sdes_StorePacket :: "bytes \<Rightarrow> common_header \<Rightarrow> sdes \<Rightarrow> (rtcp_error, sdes) outcome" where
  "sdes_StorePacket d h p =
     (if packet_type h \<noteq> 202 then Failed Wrong_Packet_Type
      else if payload_size h mod 4 \<noteq> 0 then Failed Payload_Not_Aligned
      else let base = (case payload h of None \<Rightarrow> 0 | Some b \<Rightarrow> b) in
        omap (\<lambda>cs. \<lparr>chunks = cs, chunks_buffer_length = (\<Sum>c\<leftarrow>cs. ChunkSize c)\<rparr>)
          (parse_chunks d (base + unat (payload_size h)) (unat (count_or_format h)) base))"

section \<open>Memory safety of the parser\<close>

text \<open>Inside the payload the reads succeed, and one round of the item loop is this:\<close>

lemma parse_items_step:
  assumes "looking_at < payload_end" and "payload_end \<le> length d"
  shows "parse_items d payload_end looking_at found =
    (let n = unat (d ! (looking_at + 1)); text = take n (drop (looking_at + 2) d) in
     if d ! looking_at = 0 then Ok (looking_at + 1, found)
     else if looking_at + 1 \<ge> payload_end then Failed No_Space_For_Item_Length
     else if looking_at + 2 + n + 1 > payload_end then Failed No_Space_For_Item_Text
     else if d ! looking_at = 1 \<and> found \<noteq> None then Failed Extra_Cname
     else parse_items d payload_end (looking_at + 2 + n) (if d ! looking_at = 1 then Some text else found))"
  using assms by (subst parse_items.simps) (auto simp: get_byte_def get_bytes_def Let_def)

text \<open>The item loop stays inside the payload and returns a position inside it or at its end.\<close>

lemma parse_items_bounds:
  assumes "looking_at < payload_end" and "payload_end \<le> length d"
  shows "\<not> crashes (parse_items d payload_end looking_at found) \<and>
    (\<forall>after found'. parse_items d payload_end looking_at found = Ok (after, found') \<longrightarrow> after \<le> payload_end)"
  using assms
proof (induction "payload_end - looking_at" arbitrary: looking_at found rule: less_induct)
  case less
  let ?n = "unat (d ! (looking_at + 1))"
  have "\<not> crashes (parse_items d payload_end (looking_at + 2 + ?n) f) \<and>
      (\<forall>after found'. parse_items d payload_end (looking_at + 2 + ?n) f = Ok (after, found') \<longrightarrow> after \<le> payload_end)"
    if "looking_at + 2 + ?n + 1 \<le> payload_end" for f
    using that less.prems by (intro less.hyps) auto
  then show ?case using less.prems(1) by (simp add: parse_items_step [OF less.prems] Let_def)
qed

lemma parse_chunks_safe:
  "payload_end \<le> length d \<Longrightarrow> \<not> crashes (parse_chunks d payload_end n looking_at)"
proof (induction n arbitrary: looking_at)
  case (Suc n)
  show ?case
  proof (cases "payload_end < looking_at + 8")
    case False
    then have "\<not> crashes (parse_items d payload_end (looking_at + 4) None)"
      using parse_items_bounds [of "looking_at + 4"] Suc.prems by simp
    then show ?thesis using False Suc
      by (cases "parse_items d payload_end (looking_at + 4) None")
        (auto simp: read_be32_def get_bytes_def Let_def no_crash_omap split: prod.split)
  qed simp
qed simp

text \<open>The SDES parser never reads outside the payload, whatever the peer sent: item lengths,
  missing terminators, missing CNAMEs and a chunk count that does not fit included.\<close>

lemma sdes_store_memory_safe:
  assumes "payload h = Some base" and "base + unat (payload_size h) \<le> length d"
  shows "\<not> crashes (sdes_StorePacket d h p)"
  using assms parse_chunks_safe [of "base + unat (payload_size h)" d]
  by (auto simp: sdes_StorePacket_def intro!: no_crash_omap)

lemma sdes_store_memory_safe_witness:
  "\<not> crashes (sdes_StorePacket (replicate 20 255) \<lparr>packet_type = 202, count_or_format = 31,
     padding_size = 0, payload_size = 16, payload = Some 4\<rparr> sdes_empty)"
  by (rule sdes_store_memory_safe [where base = 4]) simp_all

section \<open>Writer and round trip\<close>

definition chunk_image :: "chunk \<Rightarrow> bytes" where
  "chunk_image c = WriteBigEndian 4 (chunk_ssrc c) @ [1, of_nat (length (cname c))] @ cname c
     @ replicate (4 - (6 + length (cname c)) mod 4) 0"

definition sdes_image :: "sdes \<Rightarrow> bytes" where
  "sdes_image p = header_image (of_nat (length (chunks p))) 202 (of_nat ((sdes_BlockLength p - 4) div 4))
     @ concat (map chunk_image (chunks p))"

text \<open>What \<open>AddCName\<close> keeps: at most 31 chunks of at most 255 bytes, and the length they take.\<close>

definition sdes_wf :: "sdes \<Rightarrow> bool" where
  "sdes_wf p \<longleftrightarrow> length (chunks p) \<le> 31 \<and> (\<forall>c \<in> set (chunks p). length (cname c) \<le> 255)
     \<and> chunks_buffer_length p = (\<Sum>c\<leftarrow>chunks p. ChunkSize c)"

lemma AddCName_wf: "sdes_wf p \<Longrightarrow> AddCName s name p = Ok p' \<Longrightarrow> sdes_wf p'"
  by (auto simp: AddCName_def sdes_wf_def Let_def split: if_splits)

lemma ChunkSize_length:
  assumes "length (cname c) \<le> 255"
  shows "unat (ChunkSize c) = length (chunk_image c) \<and> 8 \<le> length (chunk_image c)
    \<and> length (chunk_image c) mod 4 = 0 \<and> length (chunk_image c) \<le> 264"
proof -
  let ?n = "length (cname c)"
  have i: "length (chunk_image c) = 6 + ?n + (4 - (6 + ?n) mod 4)" by (simp add: chunk_image_def)
  define a where "a = (6 + of_nat ?n :: u32)"
  have a: "unat a = 6 + ?n"
    using assms by (simp add: a_def unat_word_ariths unat_of_nat)
  have "unat (4 - a mod 4) = 4 - (6 + ?n) mod 4"
    by (subst unat_sub) (simp_all add: word_le_nat_alt less_imp_le unat_mod a)
  moreover have "ChunkSize c = a + (4 - a mod 4)"
    by (simp add: ChunkSize_def a_def Let_def)
  ultimately have "unat (ChunkSize c) = 6 + ?n + (4 - (6 + ?n) mod 4)"
    using assms by (simp add: unat_word_ariths(1) a)
  then show ?thesis using i assms by presburger
qed

lemma chunks_length:
  assumes "\<forall>c \<in> set cs. length (cname c) \<le> 255" and "length cs \<le> 31"
  shows "unat (\<Sum>c\<leftarrow>cs. ChunkSize c) = length (concat (map chunk_image cs))
    \<and> length (concat (map chunk_image cs)) \<le> 264 * length cs \<and> length (concat (map chunk_image cs)) mod 4 = 0"
  using assms
proof (induction cs)
  case (Cons c cs)
  let ?n = "length (concat (map chunk_image cs))"
  have c: "unat (ChunkSize c) = length (chunk_image c)" "length (chunk_image c) mod 4 = 0"
    "length (chunk_image c) \<le> 264" using ChunkSize_length [of c] Cons.prems(1) by simp_all
  have cs: "unat (\<Sum>c\<leftarrow>cs. ChunkSize c) = ?n" "?n \<le> 264 * length cs" "?n mod 4 = 0" using Cons by simp_all
  have "unat (ChunkSize c + (\<Sum>c\<leftarrow>cs. ChunkSize c)) = length (chunk_image c) + ?n"
    using c(1,3) cs(1,2) Cons.prems(2) by (simp add: unat_word_ariths(1))
  moreover have "(length (chunk_image c) + ?n) mod 4 = 0" using c(2) cs(3) by presburger
  ultimately show ?case using c(3) cs(2) by simp
qed simp

lemma sdes_block_length:
  assumes "sdes_wf p"
  shows "sdes_BlockLength p = 4 + length (concat (map chunk_image (chunks p)))
    \<and> length (concat (map chunk_image (chunks p))) \<le> 8184
    \<and> length (concat (map chunk_image (chunks p))) mod 4 = 0"
proof -
  let ?n = "length (concat (map chunk_image (chunks p)))"
  have n: "unat (chunks_buffer_length p) = ?n" "?n \<le> 264 * length (chunks p)" "?n mod 4 = 0"
    "length (chunks p) \<le> 31" using assms chunks_length [of "chunks p"] by (auto simp: sdes_wf_def)
  then have "?n \<le> 8184" by linarith
  then show ?thesis using n by (simp add: sdes_BlockLength_def unat_word_ariths(1))
qed

lemma load_chunk_eq:
  "load_chunk c (pos, buf) = omap (Pair (pos + length (chunk_image c))) (put_bytes pos (chunk_image c) buf)"
proof -
  define n k where "n = length (cname c)" and "k = 4 - (6 + n) mod 4"
  have "chunk_image c = WriteBigEndian 4 (chunk_ssrc c) @ [1, of_nat n] @ cname c @ replicate k 0"
    by (simp add: chunk_image_def n_def k_def)
  then show ?thesis
    unfolding load_chunk_def Let_def prod.case n_def [symmetric] k_def [symmetric]
    by (simp add: put_merge n_def [symmetric] ac_simps)
qed

interpretation sdes_chunks: sequential_writer load_chunk chunk_image "\<lambda>_. True"
  by unfold_locales (rule load_chunk_eq)

lemmas load_chunks_after = sdes_chunks.write_items_after [unfolded sdes_chunks.items_image_def]

lemma sdes_load_fits:
  assumes "sdes_wf p" and "pos + sdes_BlockLength p \<le> max_length" and "max_length \<le> length buf"
  shows "sdes_LoadPacket p buf pos max_length =
    omap (Pair (pos + sdes_BlockLength p)) (put_bytes pos (sdes_image p) buf)"
proof -
  have c: "(of_nat (length (chunks p)) :: u8) \<le> 0x1f"
    using assms(1) by (simp add: sdes_wf_def count_le_31)
  have bl: "sdes_BlockLength p = 4 + length (concat (map chunk_image (chunks p)))"
    using sdes_block_length [OF assms(1)] by blast
  show ?thesis
    using assms(2,3) bl unfolding sdes_LoadPacket_def sdes_image_def
    by (simp add: create_header_Ok [OF c] obind_omap load_chunks_after add.assoc)
qed

lemma length_sdes_image: "sdes_wf p \<Longrightarrow> length (sdes_image p) = sdes_BlockLength p"
  using sdes_block_length [of p] by (simp add: sdes_image_def)

interpretation sdes: rtcp_packet_class sdes_BlockLength sdes_LoadPacket sdes_wf sdes_image
  by unfold_locales (simp_all add: sdes_load_fits length_sdes_image, simp add: sdes_LoadPacket_def)

lemma parse_chunk_image:
  fixes c :: chunk
  defines "n \<equiv> length (cname c)"
  assumes "length pre = off" and "n \<le> 255" and "payload_end = off + length (chunk_image c) + rest"
    and "payload_end \<le> length (pre @ chunk_image c @ post)"
  shows "parse_items (pre @ chunk_image c @ post) payload_end (off + 4) None = Ok (off + 7 + n, Some (cname c))"
proof -
  define d where "d = pre @ chunk_image c @ post"
  have len: "off + n + 7 \<le> payload_end" using assms(4) by (simp add: chunk_image_def n_def)
  have i: "chunk_image c = WriteBigEndian 4 (chunk_ssrc c) @ [1, of_nat n] @ cname c
      @ 0 # replicate (3 - (6 + n) mod 4) 0"
    by (simp add: chunk_image_def n_def Suc_diff_le flip: replicate_Suc)
  have d: "d ! (off + 4) = 1" "d ! Suc (off + 4) = of_nat n" "take n (drop (Suc (Suc (off + 4))) d) = cname c"
    "d ! (off + 6 + n) = 0"
    using assms(2) by (simp_all add: d_def i n_def nth_append)
  have un: "unat (of_nat n :: u8) = n" using assms(3) by (simp add: unat_of_nat)
  have dl: "payload_end \<le> length d" using assms(5) by (simp add: d_def)
  have "parse_items d payload_end (off + 6 + n) (Some (cname c)) = Ok (off + 7 + n, Some (cname c))"
    using len dl d by (subst parse_items_step) auto
  moreover have "parse_items d payload_end (off + 4) None = parse_items d payload_end (off + 6 + n) (Some (cname c))"
    using len dl d un by (subst parse_items_step) (auto simp: Let_def ac_simps)
  ultimately show ?thesis by (simp add: d_def)
qed

lemma next_chunk_aligned:
  fixes n r off :: nat
  assumes "k = 6 + n + (4 - (6 + n) mod 4)" and "r mod 4 = 0"
  shows "off + 7 + n + (off + k + r - (off + 7 + n)) mod 4 = off + k"
proof -
  define m where "m = (6 + n) mod 4"
  then have m: "m < 4" by simp
  obtain q where q: "r = 4 * q" using assms(2) by auto
  have k: "k = 6 + n + (4 - m)" using assms(1) by (simp add: m_def)
  have "off + k + r - (off + 7 + n) = 3 - m + q * 4" using m k q by simp
  then have "(off + k + r - (off + 7 + n)) mod 4 = (3 - m) mod 4" by (simp only: mod_mult_self1)
  then show ?thesis using m k by simp
qed

lemma parse_chunks_image:
  assumes "length pre = off" and "\<forall>c \<in> set cs. length (cname c) \<le> 255"
  shows "parse_chunks (pre @ concat (map chunk_image cs) @ post)
    (off + length (concat (map chunk_image cs))) (length cs) off = Ok cs"
  using assms
proof (induction cs arbitrary: pre off)
  case (Cons c cs)
  let ?n = "length (cname c)" and ?r = "length (concat (map chunk_image cs))"
  let ?post = "concat (map chunk_image cs) @ post"
  let ?e = "off + length (chunk_image c) + ?r"
  have n: "?n \<le> 255" using Cons.prems by simp
  have c: "length (chunk_image c) = 6 + ?n + (4 - (6 + ?n) mod 4)" by (simp add: chunk_image_def)
  have "?r mod 4 = 0" using Cons.prems(2)
  proof (induction cs)
    case (Cons c cs)
    then show ?case using ChunkSize_length [of c] by (simp add: mod_add_eq [symmetric])
  qed simp
  then have "off + 7 + ?n + (?e - (off + 7 + ?n)) mod 4 = off + length (chunk_image c)"
    using next_chunk_aligned [OF c] by simp
  moreover have "parse_items (pre @ chunk_image c @ ?post) ?e (off + 4) None = Ok (off + 7 + ?n, Some (cname c))"
    by (rule parse_chunk_image [where rest = ?r]) (use Cons.prems in simp_all)
  moreover have "read_be32 (pre @ chunk_image c @ ?post) off = (Ok (chunk_ssrc c) :: (rtcp_error, u32) outcome)"
    using Cons.prems(1) by (simp add: chunk_image_def read_be32_def get_bytes_def)
  moreover have "parse_chunks ((pre @ chunk_image c) @ ?post) ?e (length cs) (off + length (chunk_image c)) = Ok cs"
    using Cons.prems by (intro Cons.IH) simp_all
  moreover have "\<not> ?e < off + 8" using ChunkSize_length [OF n] by linarith
  ultimately show ?case by (simp add: Let_def add.assoc)
qed simp

lemma sdes_store_image:
  assumes "sdes_wf p"
  shows "obind (header_store self (sdes_image p) 0 (sdes_BlockLength p)) (\<lambda>h. sdes_StorePacket (sdes_image p) h q) = Ok p"
proof -
  let ?n = "length (chunks p)" and ?d = "sdes_image p" and ?r = "length (concat (map chunk_image (chunks p)))"
  define c where "c = (of_nat ?n :: u8)"
  define l where "l = (of_nat (?r div 4) :: u16)"
  let ?h = "\<lparr>packet_type = 202, count_or_format = c, padding_size = 0, payload_size = ucast l * 4,
    payload = (if l \<noteq> 0 then Some 4 else None)\<rparr>"
  have bl: "sdes_BlockLength p = 4 + ?r" and r: "?r \<le> 8184" "?r mod 4 = 0"
    using sdes_block_length [OF assms] by auto
  have n: "?n \<le> 31" and cn: "\<forall>c \<in> set (chunks p). length (cname c) \<le> 255"
    and len: "chunks_buffer_length p = (\<Sum>c\<leftarrow>chunks p. ChunkSize c)"
    using assms by (auto simp: sdes_wf_def)
  have "unat l = ?r div 4" unfolding l_def by (rule unat_length) (use r in simp)
  then have l: "4 * unat l = ?r" using r(2) by (metis mult_div_mod_eq add.right_neutral)
  have c: "c \<le> 0x1f" "unat c = ?n" using n by (simp_all only: c_def count_le_31 unat_count)
  have d: "?d = header_image c 202 l @ concat (map chunk_image (chunks p))"
    by (simp add: sdes_image_def bl c_def l_def)
  have h: "header_store self ?d 0 (sdes_BlockLength p) = Ok ?h"
    using header_store_image [OF c(1), of "[]" 0 l "sdes_BlockLength p" self 202] l
    by (simp add: d bl)
  have "l = 0 \<Longrightarrow> chunks p = []"
    using l by (cases "chunks p") (auto simp: chunk_image_def)
  then have "parse_chunks ?d ((case payload ?h of None \<Rightarrow> 0 | Some b \<Rightarrow> b) + ?r) ?n
      (case payload ?h of None \<Rightarrow> 0 | Some b \<Rightarrow> b) = Ok (chunks p)"
    using parse_chunks_image [of "header_image c 202 l" 4 "chunks p" "[]"] cn by (cases "l = 0") (simp_all add: d)
  moreover have "payload_size ?h mod 4 = 0"
    by (simp add: word_unat_eq_iff unat_mod unat_payload)
  ultimately have "sdes_StorePacket ?d ?h q = Ok p"
    by (simp add: sdes_StorePacket_def unat_payload l c len [symmetric] Let_def)
  then show ?thesis using h by simp
qed

text \<open>An SDES packet built by \<open>AddCName\<close>, written by \<open>LoadPacket\<close> and parsed by the header parser
  and \<open>StorePacket\<close>, comes back with the same chunks and the same buffer length.\<close>

lemma sdes_wire_roundtrip:
  assumes "sdes_wf p"
  shows "sdes_LoadPacket p (replicate (sdes_BlockLength p) 0) 0 (sdes_BlockLength p)
      = Ok (sdes_BlockLength p, sdes_image p)
    \<and> obind (header_store self (sdes_image p) 0 (sdes_BlockLength p)) (\<lambda>h. sdes_StorePacket (sdes_image p) h q) = Ok p"
  using sdes_store_image [OF assms] length_sdes_image [OF assms]
  by (simp add: sdes_load_fits assms put_bytes_def)

definition sample_sdes :: sdes where
  "sample_sdes = \<lparr>chunks = [\<lparr>chunk_ssrc = 0x11223344, cname = [97, 98, 99]\<rparr>, \<lparr>chunk_ssrc = 5, cname = [120]\<rparr>],
     chunks_buffer_length = 20\<rparr>"

lemma sdes_wire_roundtrip_witness:
  "sdes_LoadPacket sample_sdes (replicate (sdes_BlockLength sample_sdes) 0) 0 (sdes_BlockLength sample_sdes)
      = Ok (sdes_BlockLength sample_sdes, sdes_image sample_sdes)
    \<and> obind (header_store header_empty (sdes_image sample_sdes) 0 (sdes_BlockLength sample_sdes))
        (\<lambda>h. sdes_StorePacket (sdes_image sample_sdes) h sdes_empty) = Ok sample_sdes"
  by (rule sdes_wire_roundtrip) (simp add: sdes_wf_def sample_sdes_def ChunkSize_def)

end
