(* ===== verification/Rtcp_Bye.thy ===== *)
theory Rtcp_Bye
  imports Rtcp_Common
begin

text \<open>
  \<open>src/rtp_rtcp/bye.h/.cc\<close> and \<open>app.h/.cc\<close>: the BYE packet (with its round trip over the wire) and
  the APP packet, whose writer never copies its data.
\<close>

section \<open>Bye\<close>

record bye =
  bye_sender_ssrc :: u32
  bye_csrcs :: "u32 list"
  bye_reason :: bytes

definition SetReason :: "bytes \<Rightarrow> bye \<Rightarrow> (rtcp_error, bye) outcome" where
  "SetReason reason b = (if length reason > 0xff then Failed Reason_Too_Long else Ok (b\<lparr>bye_reason := reason\<rparr>))"

definition SetCsrcs :: "u32 list \<Rightarrow> bye \<Rightarrow> (rtcp_error, bye) outcome" where
  "SetCsrcs cs b = (if length cs > 0x1f - 1 then Failed Too_Many_Csrcs else Ok (b\<lparr>bye_csrcs := cs\<rparr>))"

definition bye_BlockLength :: "bye \<Rightarrow> nat" where
  "bye_BlockLength b =
     (let src_count = 1 + length (bye_csrcs b);
          reason_size_in_32bits = (if bye_reason b = [] then 0 else length (bye_reason b) div 4 + 1)
      in 4 + 4 * (src_count + reason_size_in_32bits))"

definition load_csrc :: "u32 \<Rightarrow> nat \<times> bytes \<Rightarrow> (rtcp_error, nat \<times> bytes) outcome" where
  "load_csrc c = (\<lambda>(pos, buf). omap (Pair (pos + 4)) (put_bytes pos (WriteBigEndian 4 c) buf))"

definition load_reason :: "bytes \<Rightarrow> nat \<Rightarrow> nat \<times> bytes \<Rightarrow> (rtcp_error, nat \<times> bytes) outcome" where
  "load_reason reason index_end = (\<lambda>(pos, buf).
     if reason = [] then Ok (pos, buf)
     else let reason_length = of_nat (length reason) :: u8; n = unat reason_length in
       obind (put_bytes pos [reason_length] buf) (\<lambda>buf.
       obind (put_bytes (pos + 1) (take n reason) buf) (\<lambda>buf.
       let bytes_to_pad = index_end - (pos + 1 + n) in
       if bytes_to_pad > 0
       then omap (Pair (pos + 1 + n + bytes_to_pad)) (put_bytes (pos + 1 + n) (replicate bytes_to_pad 0) buf)
       else Ok (pos + 1 + n, buf))))"

definition bye_LoadPacket :: "bye loader" where
  "bye_LoadPacket b buf pos max_length =
     (if pos + bye_BlockLength b > max_length then Failed Buffer_Too_Small
      else let index_end = pos + bye_BlockLength b in
        obind (create_header (of_nat (1 + length (bye_csrcs b))) 203
                (of_nat ((bye_BlockLength b - 4) div 4)) buf pos) (\<lambda>(pos, buf).
        obind (put_bytes pos (WriteBigEndian 4 (bye_sender_ssrc b)) buf) (\<lambda>buf.
        obind (ofold load_csrc (bye_csrcs b) (pos + 4, buf))
          (load_reason (bye_reason b) index_end))))"

text \<open>The parser. A null \<open>payload()\<close> comes with a payload size of 0, when nothing is read.\<close>

definition parse_reason :: "bytes \<Rightarrow> nat \<Rightarrow> nat \<Rightarrow> nat \<Rightarrow> (rtcp_error, nat) outcome" where
  "parse_reason d base payload_size_bytes src_count =
     (if payload_size_bytes > 4 * src_count then
        obind (get_byte d (base + 4 * src_count)) (\<lambda>len.
          if payload_size_bytes - 4 * src_count < 1 + unat len then Failed Invalid_Reason_Length
          else Ok (unat len))
      else Ok 0)"

definition parse_sources :: "bytes \<Rightarrow> nat \<Rightarrow> nat \<Rightarrow> (rtcp_error, u32 \<times> u32 list) outcome" where
  "parse_sources d base src_count =
     (if src_count = 0 then Ok (0, [])
      else obind (read_be32 d base) (\<lambda>s.
        omap (Pair s) (omapM (\<lambda>i. read_be32 d (base + 4 * i)) [1..<src_count])))"

definition bye_StorePacket :: "bytes \<Rightarrow> common_header \<Rightarrow> bye \<Rightarrow> (rtcp_error, bye) outcome" where
  "bye_StorePacket d h b =
     (if packet_type h \<noteq> 203 then Failed Wrong_Packet_Type
      else let src_count = unat (count_or_format h); n = unat (payload_size h);
               base = (case payload h of None \<Rightarrow> 0 | Some p \<Rightarrow> p) in
        if n < 4 * src_count then Failed Packet_Too_Small
        else obind (parse_reason d base n src_count) (\<lambda>reason_length.
          obind (parse_sources d base src_count) (\<lambda>(s, cs).
          omap (\<lambda>r. \<lparr>bye_sender_ssrc = s, bye_csrcs = cs, bye_reason = r\<rparr>)
            (if n > 4 * src_count then get_bytes d (base + 4 * src_count + 1) reason_length else Ok []))))"

section \<open>Memory safety\<close>

lemma parse_reason_bounds:
  assumes "base + n \<le> length d"
  shows "\<not> crashes (parse_reason d base n k)
    \<and> (parse_reason d base n k = Ok r \<longrightarrow> n > 4 * k \<longrightarrow> 4 * k + 1 + r \<le> n)"
  using assms by (auto simp: parse_reason_def get_byte_def)

lemma parse_sources_safe: "base + 4 * k \<le> length d \<Longrightarrow> \<not> crashes (parse_sources d base k)"
  unfolding parse_sources_def read_be32_def by (intro no_crash) auto

text \<open>The BYE parser never reads outside the payload, whatever the peer sent.\<close>

lemma bye_store_memory_safe:
  assumes "payload h = Some base" and "base + unat (payload_size h) \<le> length d"
  shows "\<not> crashes (bye_StorePacket d h b)"
proof -
  let ?n = "unat (payload_size h)" and ?k = "unat (count_or_format h)"
  show ?thesis
  proof (cases "packet_type h \<noteq> 203 \<or> ?n < 4 * ?k")
    case False
    then have k: "base + 4 * ?k \<le> length d" using assms(2) by simp
    show ?thesis
    proof (cases "parse_reason d base ?n ?k")
      case (Ok r)
      then have "\<not> crashes (if ?n > 4 * ?k then get_bytes d (base + 4 * ?k + 1) r else Ok [] :: (rtcp_error, bytes) outcome)"
        using parse_reason_bounds [OF assms(2), of ?k r] assms(2) by (auto intro!: no_crash_get_bytes)
      then show ?thesis using False Ok assms(1) parse_sources_safe [OF k]
        by (cases "parse_sources d base ?k") (auto simp: bye_StorePacket_def Let_def intro!: no_crash_omap)
    next
      case (Failed e)
      then show ?thesis using False assms(1) by (simp add: bye_StorePacket_def Let_def)
    next
      case (Crash c)
      then show ?thesis using parse_reason_bounds [OF assms(2), of ?k] by simp
    qed
  qed (auto simp: bye_StorePacket_def Let_def)
qed

lemma bye_store_memory_safe_witness:
  "\<not> crashes (bye_StorePacket (replicate 20 255) \<lparr>packet_type = 203, count_or_format = 3,
     padding_size = 0, payload_size = 16, payload = Some 4\<rparr> \<lparr>bye_sender_ssrc = 0, bye_csrcs = [], bye_reason = []\<rparr>)"
  by (rule bye_store_memory_safe [where base = 4]) simp_all

section \<open>Writer and round trip\<close>

definition reason_image :: "bytes \<Rightarrow> bytes" where
  "reason_image reason =
     (if reason = [] then []
      else of_nat (length reason) # reason @ replicate (3 - length reason mod 4) 0)"

definition bye_image :: "bye \<Rightarrow> bytes" where
  "bye_image b = header_image (of_nat (1 + length (bye_csrcs b))) 203 (of_nat ((bye_BlockLength b - 4) div 4))
     @ WriteBigEndian 4 (bye_sender_ssrc b) @ concat (map (WriteBigEndian 4) (bye_csrcs b))
     @ reason_image (bye_reason b)"

definition bye_wf :: "bye \<Rightarrow> bool" where
  "bye_wf b \<longleftrightarrow> length (bye_csrcs b) \<le> 30 \<and> length (bye_reason b) \<le> 255"

lemma length_reason_image:
  "length (reason_image r) = 4 * (if r = [] then 0 else length r div 4 + 1)"
proof (cases "r = []")
  case False
  define n where "n = length r"
  have "1 + n + (3 - n mod 4) = 4 * (n div 4 + 1)"
  proof -
    define q m where "q = n div 4" and "m = n mod 4"
    then have "n = 4 * q + m" and "m < 4" by simp_all
    then show ?thesis by (simp flip: q_def m_def)
  qed
  then show ?thesis using False by (simp add: reason_image_def n_def)
qed (simp add: reason_image_def)

lemma length_bye_csrcs: "length (concat (map (WriteBigEndian 4) cs)) = 4 * length (cs :: u32 list)"
  by (rule length_concat_const) simp

lemma length_bye_image: "length (bye_image b) = bye_BlockLength b"
  by (simp add: bye_image_def bye_BlockLength_def length_reason_image length_bye_csrcs)

interpretation bye_csrcs: sequential_writer load_csrc "WriteBigEndian 4" "\<lambda>_. True"
  by unfold_locales (simp add: load_csrc_def)

lemmas load_csrcs_after = bye_csrcs.write_items_after [unfolded bye_csrcs.items_image_def length_bye_csrcs]

lemma load_reason_eq:
  assumes "length reason \<le> 255" and "index_end = pos + length (reason_image reason)" and "index_end \<le> length buf"
  shows "load_reason reason index_end (pos, buf) = omap (Pair index_end) (put_bytes pos (reason_image reason) buf)"
proof (cases "reason = []")
  case True
  then show ?thesis using assms by (simp add: load_reason_def reason_image_def put_bytes_def)
next
  case False
  have n: "unat (of_nat (length reason) :: u8) = length reason" using assms(1) by (simp add: unat_of_nat)
  define k where "k = 3 - length reason mod 4"
  have e: "index_end = pos + 1 + length reason + k" and i: "reason_image reason = of_nat (length reason) # reason @ replicate k 0"
    using assms(2) False by (simp_all add: reason_image_def k_def)
  show ?thesis
    unfolding load_reason_def Let_def prod.case n
    using False assms(3) by (cases "k = 0") (simp_all add: i e put_merge, auto simp: put_bytes_def)
qed

lemma load_reason_after:
  assumes "off' = off + length a" and "length reason \<le> 255"
    and "index_end = off' + length (reason_image reason)" and "index_end \<le> length buf"
  shows "obind (put_bytes off a buf) (\<lambda>m. load_reason reason index_end (off', m)) =
    omap (Pair index_end) (put_bytes off (a @ reason_image reason) buf)"
proof -
  obtain m where m: "put_bytes off a buf = (Ok m :: (rtcp_error, bytes) outcome)"
    using assms by (auto simp: put_bytes_def)
  then have "load_reason reason index_end (off', m) = omap (Pair index_end) (put_bytes off' (reason_image reason) m)"
    using assms put_bytes_length [OF m] by (intro load_reason_eq) auto
  with m assms(1) put_bytes_append [of off a buf "reason_image reason", where 'a=rtcp_error]
  show ?thesis by simp
qed

lemma bye_load_fits:
  assumes "bye_wf b" and "pos + bye_BlockLength b \<le> max_length" and "max_length \<le> length buf"
  shows "bye_LoadPacket b buf pos max_length =
    omap (Pair (pos + bye_BlockLength b)) (put_bytes pos (bye_image b) buf)"
proof -
  let ?k = "length (bye_csrcs b)"
  define c l where "c = (of_nat (1 + ?k) :: u8)" and "l = (of_nat ((bye_BlockLength b - 4) div 4) :: u16)"
  define e where "e = pos + bye_BlockLength b"
  have c: "c \<le> 0x1f" unfolding c_def by (rule count_le_31) (use assms(1) in \<open>simp add: bye_wf_def\<close>)
  have bl: "bye_BlockLength b = 8 + 4 * ?k + length (reason_image (bye_reason b))"
    by (simp add: bye_BlockLength_def length_reason_image)
  have i: "bye_image b = header_image c 203 l @ WriteBigEndian 4 (bye_sender_ssrc b)
      @ concat (map (WriteBigEndian 4) (bye_csrcs b)) @ reason_image (bye_reason b)"
    by (simp only: bye_image_def c_def l_def)
  have r: "length (bye_reason b) \<le> 255" and e: "e = pos + 8 + 4 * ?k + length (reason_image (bye_reason b))"
    "e \<le> length buf" using assms by (simp_all add: bye_wf_def e_def bl)
  have "bye_LoadPacket b buf pos max_length =
      obind (create_header c 203 l buf pos) (\<lambda>(pos, buf).
        obind (put_bytes pos (WriteBigEndian 4 (bye_sender_ssrc b)) buf) (\<lambda>buf.
        obind (ofold load_csrc (bye_csrcs b) (pos + 4, buf)) (load_reason (bye_reason b) e)))"
    using assms(2) by (simp add: bye_LoadPacket_def Let_def c_def l_def e_def)
  also have "\<dots> = obind (obind (put_bytes pos (header_image c 203 l @ WriteBigEndian 4 (bye_sender_ssrc b)) buf)
      (\<lambda>m. ofold load_csrc (bye_csrcs b) (pos + 8, m))) (load_reason (bye_reason b) e)"
    by (simp add: create_header_Ok [OF c] obind_omap put_merge obind_assoc add.commute)
  also have "\<dots> = omap (Pair e) (put_bytes pos (bye_image b) buf)"
    using e r by (simp add: load_csrcs_after obind_omap load_reason_after length_bye_csrcs i)
  finally show ?thesis by (simp add: e_def)
qed

interpretation bye: rtcp_packet_class bye_BlockLength bye_LoadPacket bye_wf bye_image
  by unfold_locales (simp_all add: bye_load_fits length_bye_image, simp add: bye_LoadPacket_def)

lemma parse_sources_image:
  fixes cs :: "u32 list"
  assumes "length pre = base"
  shows "parse_sources (pre @ concat (map (WriteBigEndian 4) (s # cs)) @ post) base (1 + length cs) = Ok (s, cs)"
proof -
  let ?ws = "s # cs"
  let ?d = "pre @ concat (map (WriteBigEndian 4) ?ws) @ post"
  have at: "read_be32 ?d (base + 4 * i) = (Ok (?ws ! i) :: (rtcp_error, u32) outcome)" if i: "i < length ?ws" for i
  proof -
    have "drop (4 * i) (concat (map (WriteBigEndian 4) ?ws)) = concat (map (WriteBigEndian 4) (drop i ?ws))"
      by (rule drop_concat_const) simp
    moreover have "drop i ?ws = ?ws ! i # drop (Suc i) ?ws" using i by (intro Cons_nth_drop_Suc [symmetric]) simp
    ultimately have "drop (4 * i) (concat (map (WriteBigEndian 4) ?ws))
        = WriteBigEndian 4 (?ws ! i) @ concat (map (WriteBigEndian 4) (drop (Suc i) ?ws))"
      by (simp only: list.map concat.simps)
    moreover have "drop (base + 4 * i) ?d = drop (4 * i) (concat (map (WriteBigEndian 4) ?ws)) @ post"
      using assms i length_bye_csrcs [of ?ws] by (simp add: drop_append del: concat.simps list.map)
    ultimately have "take 4 (drop (base + 4 * i) ?d) = WriteBigEndian 4 (?ws ! i)"
      by (simp only: append_assoc) simp
    moreover have "base + 4 * i + 4 \<le> length ?d" using assms i length_bye_csrcs [of ?ws] by simp
    ultimately show ?thesis by (simp add: read_be32_def get_bytes_def)
  qed
  have "omapM (\<lambda>i. read_be32 ?d (base + 4 * i)) [1..<1 + length cs] = (Ok (map (\<lambda>i. ?ws ! i) [1..<1 + length cs]) :: (rtcp_error, u32 list) outcome)"
    by (rule omapM_all_Ok, rule at) auto
  moreover have "map (\<lambda>i. ?ws ! i) [1..<1 + length cs] = cs"
    by (rule nth_equalityI) (auto simp del: upt_Suc)
  moreover have "read_be32 ?d base = (Ok s :: (rtcp_error, u32) outcome)" using at [of 0] by simp
  ultimately show ?thesis by (simp add: parse_sources_def)
qed

lemma bye_store_image:
  assumes "bye_wf b"
  shows "obind (header_store self (bye_image b) 0 (bye_BlockLength b)) (\<lambda>h. bye_StorePacket (bye_image b) h q) = Ok b"
proof -
  let ?k = "length (bye_csrcs b)" and ?d = "bye_image b" and ?r = "bye_reason b"
  define c l where "c = (of_nat (1 + ?k) :: u8)" and "l = (of_nat ((bye_BlockLength b - 4) div 4) :: u16)"
  define w where "w = (if ?r = [] then 0 else length ?r div 4 + 1)"
  let ?h = "\<lparr>packet_type = 203, count_or_format = c, padding_size = 0, payload_size = ucast l * 4,
    payload = Some 4\<rparr>"
  have k: "?k \<le> 30" "length ?r \<le> 255" using assms by (auto simp: bye_wf_def)
  then have w: "w \<le> 64" by (auto simp: w_def)
  have bl: "bye_BlockLength b = 4 + 4 * (1 + ?k + w)" by (simp add: bye_BlockLength_def w_def)
  have l: "unat l = 1 + ?k + w" unfolding l_def bl by (subst unat_length) (use k w in simp_all)
  then have nz: "l \<noteq> 0" by auto
  have c: "c \<le> 0x1f" "unat c = 1 + ?k" using k(1) unfolding c_def by (intro count_le_31 unat_count, simp)+
  have d: "?d = header_image c 203 l @ concat (map (WriteBigEndian 4) (bye_sender_ssrc b # bye_csrcs b)) @ reason_image ?r"
    by (simp add: bye_image_def c_def l_def)
  have h: "header_store self ?d 0 (bye_BlockLength b) = Ok ?h"
    using header_store_image [OF c(1), of "[]" 0 l "bye_BlockLength b" self 203] l nz by (simp add: d bl)
  have src: "parse_sources ?d 4 (1 + ?k) = Ok (bye_sender_ssrc b, bye_csrcs b)"
    unfolding d by (rule parse_sources_image) simp
  have pl: "length (header_image c 203 l @ concat (map (WriteBigEndian 4) (bye_sender_ssrc b # bye_csrcs b))) = 8 + 4 * ?k"
    by (simp add: length_bye_csrcs)
  have "bye_StorePacket ?d ?h q = Ok b"
  proof (cases "?r = []")
    case True
    then show ?thesis using src
      by (simp add: bye_StorePacket_def unat_payload l c w_def parse_reason_def)
  next
    case False
    then have img: "reason_image ?r = of_nat (length ?r) # ?r @ replicate (3 - length ?r mod 4) 0" by (simp add: reason_image_def)
    have un: "unat (of_nat (length ?r) :: u8) = length ?r" using k(2) by (simp add: unat_of_nat)
    have "get_byte ?d (8 + 4 * ?k) = (Ok (of_nat (length ?r)) :: (rtcp_error, u8) outcome)"
      unfolding d append_assoc [symmetric] using pl by (simp add: get_byte_def nth_append img)
    then have "parse_reason ?d 4 (unat (payload_size ?h)) (1 + ?k) = Ok (length ?r)"
      using False un by (simp add: parse_reason_def unat_payload l w_def)
    moreover have "get_bytes ?d (9 + 4 * ?k) (length ?r) = (Ok ?r :: (rtcp_error, bytes) outcome)"
      unfolding d append_assoc [symmetric] using pl by (simp add: get_bytes_def img)
    ultimately show ?thesis using src False
      by (simp add: bye_StorePacket_def unat_payload l c w_def)
  qed
  then show ?thesis using h by simp
qed

text \<open>A BYE within the limits that \<open>SetCsrcs\<close> and \<open>SetReason\<close> enforce, written by \<open>LoadPacket\<close> and
  parsed by the header parser and \<open>StorePacket\<close>, comes back unchanged.\<close>

lemma bye_wire_roundtrip:
  assumes "bye_wf b"
  shows "bye_LoadPacket b (replicate (bye_BlockLength b) 0) 0 (bye_BlockLength b) = Ok (bye_BlockLength b, bye_image b)
    \<and> obind (header_store self (bye_image b) 0 (bye_BlockLength b)) (\<lambda>h. bye_StorePacket (bye_image b) h q) = Ok b"
  using bye_store_image [OF assms]
  by (simp add: bye_load_fits assms put_bytes_def length_bye_image)

lemma bye_wire_roundtrip_witness:
  "let b = \<lparr>bye_sender_ssrc = 1, bye_csrcs = [2, 0xffffffff], bye_reason = [98, 121, 101, 33]\<rparr> in
   bye_LoadPacket b (replicate (bye_BlockLength b) 0) 0 (bye_BlockLength b) = Ok (bye_BlockLength b, bye_image b)
    \<and> obind (header_store header_empty (bye_image b) 0 (bye_BlockLength b)) (\<lambda>h. bye_StorePacket (bye_image b) h b) = Ok b"
  unfolding Let_def by (rule bye_wire_roundtrip) (simp add: bye_wf_def)

section \<open>App\<close>

record app =
  app_sender_ssrc :: u32
  sub_type :: u8
  app_name :: u32
  app_data :: "bytes option"

definition SetSubType :: "u8 \<Rightarrow> app \<Rightarrow> (rtcp_error, app) outcome" where
  "SetSubType subtype a = (if subtype > 0x1f then Failed Subtype_Too_Big else Ok (a\<lparr>sub_type := subtype\<rparr>))"

text \<open>\<open>data\<close> is \<open>None\<close> for a null pointer.\<close>

definition SetData :: "bytes option \<Rightarrow> app \<Rightarrow> (rtcp_error, app) outcome" where
  "SetData data a =
     (case data of None \<Rightarrow> Failed Data_Empty
      | Some bs \<Rightarrow>
        if length bs = 0 then Failed Data_Empty
        else if length bs mod 4 \<noteq> 0 then Failed Data_Not_Aligned
        else if length bs > 0xffff * 4 - 8 then Failed Data_Too_Big
        else Ok (a\<lparr>app_data := Some bs\<rparr>))"

definition app_BlockLength :: "app \<Rightarrow> (rtcp_error, nat) outcome" where
  "app_BlockLength a = (case app_data a of None \<Rightarrow> Crash Null_Dereference | Some bs \<Rightarrow> Ok (4 + 8 + length bs))"

definition app_StorePacket :: "bytes \<Rightarrow> common_header \<Rightarrow> app \<Rightarrow> (rtcp_error, app) outcome" where
  "app_StorePacket d h a =
     (if packet_type h \<noteq> 204 then Failed Wrong_Packet_Type
      else if unat (payload_size h) < 8 then Failed Packet_Too_Small
      else if payload_size h mod 4 \<noteq> 0 then Failed Payload_Not_Aligned
      else case payload h of None \<Rightarrow> Crash Null_Dereference
      | Some base \<Rightarrow>
        obind (read_be32 d base) (\<lambda>s.
        obind (read_be32 d (base + 4)) (\<lambda>n.
        omap (\<lambda>bs. \<lparr>app_sender_ssrc = s, sub_type = count_or_format h, app_name = n, app_data = Some bs\<rparr>)
          (get_bytes d (base + 8) (unat (payload_size h) - 8)))))"

text \<open>The writer copies the data only when there is none (\<open>if (!data_)\<close>), and on success returns a
  null \<open>unique_ptr<Result>\<close>: the first component is whether a \<open>Result\<close> object is returned.\<close>

definition app_LoadPacket :: "app \<Rightarrow> bytes \<Rightarrow> nat \<Rightarrow> nat \<Rightarrow> (rtcp_error, bool \<times> nat \<times> bytes) outcome" where
  "app_LoadPacket a buf pos max_length =
     obind (app_BlockLength a) (\<lambda>len.
       if pos + len > max_length then Failed Buffer_Too_Small
       else obind (create_header (sub_type a) 204 (of_nat ((len - 4) div 4)) buf pos) (\<lambda>(pos, buf).
         obind (put_bytes pos (WriteBigEndian 4 (app_sender_ssrc a)) buf) (\<lambda>buf.
         obind (put_bytes (pos + 4) (WriteBigEndian 4 (app_name a)) buf) (\<lambda>buf.
         case app_data a of None \<Rightarrow> Crash Null_Dereference
         | Some bs \<Rightarrow> Ok (False, pos + (8 + length bs), buf)))))"

text \<open>On success the APP writer advances over the data but leaves the bytes of the buffer there as
  they were, and returns no \<open>Result\<close> object.\<close>

lemma app_load_omits_data:
  assumes "app_data a = Some bs" and "sub_type a \<le> 0x1f" and "pos + 12 + length bs \<le> max_length"
    and "max_length \<le> length buf"
  shows "\<exists>buf'. app_LoadPacket a buf pos max_length = Ok (False, pos + 12 + length bs, buf')
    \<and> take pos buf' = take pos buf
    \<and> take 8 (drop (pos + 4) buf') = WriteBigEndian 4 (app_sender_ssrc a) @ WriteBigEndian 4 (app_name a)
    \<and> drop (pos + 12) buf' = drop (pos + 12) buf"
proof -
  define l where "l = (of_nat ((8 + length bs) div 4) :: u16)"
  let ?img = "header_image (sub_type a) 204 l @ WriteBigEndian 4 (app_sender_ssrc a) @ WriteBigEndian 4 (app_name a)"
  obtain buf' where b: "put_bytes pos ?img buf = (Ok buf' :: (rtcp_error, bytes) outcome)"
    using assms(3,4) by (auto simp: put_bytes_def)
  have "app_LoadPacket a buf pos max_length =
      obind (put_bytes pos ?img buf) (\<lambda>m. Ok (False, 12 + (pos + length bs), m))"
    using assms by (simp add: app_LoadPacket_def app_BlockLength_def create_header_Ok obind_omap put_merge l_def)
  then have "app_LoadPacket a buf pos max_length = Ok (False, pos + 12 + length bs, buf')"
    by (simp add: b)
  moreover have "buf' = take pos buf @ ?img @ drop (pos + 12) buf"
    using b assms(3,4) by (simp add: put_bytes_def split: if_splits)
  ultimately show ?thesis using assms(3,4) by simp
qed

lemma app_load_omits_data_witness:
  "let a = \<lparr>app_sender_ssrc = 1, sub_type = 2, app_name = 3, app_data = Some [1, 2, 3, 4]\<rparr> in
   \<exists>buf'. app_LoadPacket a (replicate 16 9) 0 16 = Ok (False, 16, buf') \<and> drop 12 buf' = [9, 9, 9, 9]"
  using app_load_omits_data [of "\<lparr>app_sender_ssrc = 1, sub_type = 2, app_name = 3, app_data = Some [1, 2, 3, 4]\<rparr>"
    "[1, 2, 3, 4]" 0 16 "replicate 16 9"] by (auto simp: Let_def)

end
