(* ===== verification/Rtcp_Frame.thy ===== *)
theory Rtcp_Frame
  imports Rtcp_Reports Rtcp_Nack Rtcp_Sdes Rtcp_Bye
begin

text \<open>
  RTCP packets travel in a row: a datagram is a compound packet. The parsers of the packet
  classes are stated on a datagram and an offset; the lemmas here show that a parser that succeeds
  on a packet alone gives the same result when the packet lies anywhere inside a datagram. They
  carry the round trips of the single packets over to compound packets.
\<close>

section \<open>Reads inside a larger array\<close>

named_theorems framed \<open>a successful read gives the same inside a larger array\<close>

lemma get_bytes_framed [framed]:
  "get_bytes d off k = Ok x \<Longrightarrow> get_bytes (pre @ d @ post) (length pre + off) k = Ok x"
  by (auto simp: get_bytes_def split: if_splits)

lemma get_byte_framed [framed]:
  "get_byte d off = Ok x \<Longrightarrow> get_byte (pre @ d @ post) (length pre + off) = Ok x"
  by (auto simp: get_byte_def nth_append split: if_splits)

lemma omap_eq_Ok_conv: "omap f m = Ok b \<longleftrightarrow> (\<exists>a. m = Ok a \<and> b = f a)"
  by (cases m) auto

lemma read_be32_framed [framed]:
  assumes "read_be32 d off = Ok x"
  shows "read_be32 (pre @ d @ post) (length pre + off) = Ok x"
proof -
  obtain bs where "get_bytes d off 4 = (Ok bs :: ('a, bytes) outcome)" and "x = ReadBigEndian bs"
    using assms by (auto simp: read_be32_def omap_eq_Ok_conv)
  then show ?thesis by (simp add: read_be32_def get_bytes_framed)
qed

lemma read_be16_framed [framed]:
  assumes "read_be16 d off = Ok x"
  shows "read_be16 (pre @ d @ post) (length pre + off) = Ok x"
proof -
  obtain bs where "get_bytes d off 2 = (Ok bs :: ('a, bytes) outcome)" and "x = ReadBigEndian bs"
    using assms by (auto simp: read_be16_def omap_eq_Ok_conv)
  then show ?thesis by (simp add: read_be16_def get_bytes_framed)
qed

definition shift_header :: "nat \<Rightarrow> common_header \<Rightarrow> common_header" where
  "shift_header n h = h\<lparr>payload := map_option ((+) n) (payload h)\<rparr>"

lemma shift_header_simps [simp]:
  "packet_type (shift_header n h) = packet_type h"
  "count_or_format (shift_header n h) = count_or_format h"
  "padding_size (shift_header n h) = padding_size h"
  "payload_size (shift_header n h) = payload_size h"
  "payload (shift_header n h) = map_option ((+) n) (payload h)"
  by (simp_all add: shift_header_def)

section \<open>The parsers\<close>

lemma block_store_framed:
  assumes "block_store st d off = Ok b"
  shows "block_store st (pre @ d @ post) (length pre + off) = Ok b"
  using assms unfolding block_store_def obind_eq_Ok_conv
  by (elim exE conjE) (simp add: framed add.assoc)

lemma store_new_blocks_framed:
  "store_new_blocks (\<lambda>i. stale (length pre + i)) d off n = Ok bs \<Longrightarrow>
   store_new_blocks stale (pre @ d @ post) (length pre + off) n = Ok bs"
proof (induction n arbitrary: off bs)
  case (Suc n)
  obtain b cs where "block_store (stale (length pre + off)) d off = Ok b" and "bs = Some b # cs"
    and "store_new_blocks (\<lambda>i. stale (length pre + i)) d (off + 24) n = Ok cs"
    using Suc.prems by (auto simp: obind_eq_Ok_conv omap_eq_Ok_conv)
  then show ?case using Suc.IH [of "off + 24" cs] by (simp add: block_store_framed add.assoc)
qed simp

lemma rr_store_framed:
  assumes "rr_StorePacket (\<lambda>i. stale (length pre + i)) d h q = Ok r"
  shows "rr_StorePacket stale (pre @ d @ post) (shift_header (length pre) h) q = Ok r"
proof (cases "payload h")
  case None
  with assms show ?thesis by (auto simp: rr_StorePacket_def split: if_splits)
next
  case (Some base)
  let ?n = "unat (count_or_format h)"
  obtain s bs where "read_be32 d base = (Ok s :: (rtcp_error, u32) outcome)"
    and "store_new_blocks (\<lambda>i. stale (length pre + i)) d (base + 4) ?n = Ok bs"
    and "r = \<lparr>rr_sender_ssrc = s, rr_blocks = bs\<rparr>"
    using assms Some by (auto simp: rr_StorePacket_def Let_def obind_eq_Ok_conv omap_eq_Ok_conv split: if_splits)
  with assms Some show ?thesis
    using store_new_blocks_framed [of stale pre d "base + 4" ?n bs post]
    by (auto simp: rr_StorePacket_def Let_def framed add.assoc split: if_splits)
qed

lemma store_items_framed:
  "store_items d off n = Ok items \<Longrightarrow> store_items (pre @ d @ post) (length pre + off) n = Ok items"
proof (induction n arbitrary: off items)
  case (Suc n)
  obtain pid m rest where "read_be16 d off = (Ok pid :: (rtcp_error, u16) outcome)"
    and "read_be16 d (off + 2) = (Ok m :: (rtcp_error, u16) outcome)"
    and "store_items d (off + 4) n = Ok rest" and "items = \<lparr>first_pid = pid, bitmask = m\<rparr> # rest"
    using Suc.prems by (auto simp: obind_eq_Ok_conv omap_eq_Ok_conv)
  then show ?case using Suc.IH [of "off + 4" rest]
    by (simp add: framed add.assoc del: add_2_eq_Suc')
qed simp

lemma nack_store_framed:
  assumes "nack_StorePacket d h q = Ok r"
  shows "nack_StorePacket (pre @ d @ post) (shift_header (length pre) h) q = Ok r"
proof (cases "payload h")
  case None
  with assms show ?thesis by (auto simp: nack_StorePacket_def split: if_splits)
next
  case (Some base)
  let ?n = "(unat (payload_size h) - 8) div 4"
  obtain s m items where "read_be32 d base = (Ok s :: (rtcp_error, u32) outcome)"
    and "read_be32 d (base + 4) = (Ok m :: (rtcp_error, u32) outcome)"
    and "store_items d (base + 8) ?n = Ok items"
    and "r = \<lparr>nack_sender_ssrc = s, nack_media_ssrc = m, packed = items, packet_ids = unpack_ids items\<rparr>"
    using assms Some by (auto simp: nack_StorePacket_def obind_eq_Ok_conv omap_eq_Ok_conv split: if_splits)
  with assms Some show ?thesis
    using store_items_framed [of d "base + 8" ?n items pre post]
    by (simp add: nack_StorePacket_def framed add.assoc split: if_splits)
qed

lemma obind_eq_Crash_conv: "obind m f = Crash c \<longleftrightarrow> m = Crash c \<or> (\<exists>a. m = Ok a \<and> f a = Crash c)"
  by (cases m) auto

lemma read_be32_not_null [simp]: "read_be32 d off \<noteq> Crash Null_Dereference"
  by (auto simp: read_be32_def get_bytes_def)

text \<open>A report with blocks parsed into a new object ends at the first null block, wherever it lies.\<close>

lemma store_into_null_blocks:
  "store_into_blocks stale d off (resize_blocks n []) = (if n = 0 then Ok [] else Crash Null_Dereference)"
  by (cases n) (simp_all add: resize_blocks_def)

lemma sr_store_framed:
  assumes "sr_StorePacket stale' d h q = res" and "res = Ok r \<or> res = Crash Null_Dereference"
    and "sr_blocks q = []"
  shows "sr_StorePacket stale (pre @ d @ post) (shift_header (length pre) h) q = res"
proof (cases "payload h")
  case None
  with assms show ?thesis by (auto simp: sr_StorePacket_def split: if_splits)
next
  case (Some base)
  let ?n = "unat (count_or_format h)"
  have guards: "packet_type h = 200" "\<not> unat (payload_size h) < 24 + ?n * 24"
    "\<not> (unat (payload_size h) > 24 + ?n * 24 \<and> \<not> extension_aligned (payload_size h) 24 (?n * 24))"
    using assms(1,2) Some by (auto simp: sr_StorePacket_def Let_def split: if_splits)
  obtain ssrc secs frac ts pkts octets where
    "read_be32 d base = (Ok ssrc :: (rtcp_error, u32) outcome)"
    "read_be32 d (base + 4) = (Ok secs :: (rtcp_error, u32) outcome)"
    "read_be32 d (base + 8) = (Ok frac :: (rtcp_error, u32) outcome)"
    "read_be32 d (base + 12) = (Ok ts :: (rtcp_error, u32) outcome)"
    "read_be32 d (base + 16) = (Ok pkts :: (rtcp_error, u32) outcome)"
    "read_be32 d (base + 20) = (Ok octets :: (rtcp_error, u32) outcome)"
    using assms(1,2) guards Some
    by (auto simp: sr_StorePacket_def Let_def obind_eq_Ok_conv obind_eq_Crash_conv)
  then show ?thesis
    using assms(1) guards Some
    by (auto simp: sr_StorePacket_def Let_def framed add.assoc assms(3) store_into_null_blocks)
qed

lemma parse_items_framed:
  "parse_items d payload_end looking_at found = Ok (after, found') \<Longrightarrow>
   parse_items (pre @ d @ post) (length pre + payload_end) (length pre + looking_at) found
     = Ok (length pre + after, found')"
proof (induction d payload_end looking_at found arbitrary: after found' rule: parse_items.induct)
  case (1 d payload_end looking_at found)
  obtain t where t: "get_byte d looking_at = (Ok t :: (rtcp_error, u8) outcome)"
    using "1.prems" by (subst (asm) parse_items.simps) (auto simp: obind_eq_Ok_conv)
  show ?case
  proof (cases "t = 0")
    case True
    then show ?thesis using "1.prems" t
      by (subst (asm) parse_items.simps, subst parse_items.simps) (simp add: framed)
  next
    case False
    obtain n where n: "get_byte d (looking_at + 1) = (Ok n :: (rtcp_error, u8) outcome)"
      and inside: "\<not> looking_at + 1 \<ge> payload_end" "\<not> looking_at + 2 + unat n + 1 > payload_end"
        "\<not> (t = 1 \<and> found \<noteq> None)"
      using "1.prems" t False by (subst (asm) parse_items.simps) (auto simp: obind_eq_Ok_conv Let_def split: if_splits)
    let ?next = "if t = 1 then omap Some (get_bytes d (looking_at + 2) (unat n)) else Ok found"
    obtain f where f: "?next = (Ok f :: (rtcp_error, bytes option) outcome)"
      and rest: "parse_items d payload_end (looking_at + 2 + unat n) f = Ok (after, found')"
      using "1.prems" t False n inside
      by (subst (asm) parse_items.simps) (auto simp: obind_eq_Ok_conv Let_def simp del: add_2_eq_Suc' split: if_splits)
    have f': "(if t = 1 then omap Some (get_bytes (pre @ d @ post) (length pre + (looking_at + 2)) (unat n)) else Ok found)
        = (Ok f :: (rtcp_error, bytes option) outcome)"
      using f by (auto simp: omap_eq_Ok_conv get_bytes_framed simp del: add_2_eq_Suc' split: if_splits)
    have "parse_items (pre @ d @ post) (length pre + payload_end) (length pre + (looking_at + 2 + unat n)) f
        = Ok (length pre + after, found')"
      using "1.IH" [OF t False _ n refl refl _ _ f rest] inside by (simp del: add_2_eq_Suc')
    moreover have n1: "get_byte (pre @ d @ post) (length pre + (looking_at + 1)) = (Ok n :: (rtcp_error, u8) outcome)"
      by (rule get_byte_framed [OF n])
    ultimately show ?thesis
      using t False inside f' 
      by (subst parse_items.simps) (simp add: get_byte_framed add.assoc Let_def del: add_2_eq_Suc' One_nat_def)
  qed
qed

lemma parse_chunks_framed:
  "parse_chunks d payload_end n looking_at = Ok cs \<Longrightarrow>
   parse_chunks (pre @ d @ post) (length pre + payload_end) n (length pre + looking_at) = Ok cs"
proof (induction n arbitrary: looking_at cs)
  case (Suc n)
  obtain s after found where inside: "\<not> payload_end < looking_at + 8"
    and s: "read_be32 d looking_at = (Ok s :: (rtcp_error, u32) outcome)"
    and items: "parse_items d payload_end (looking_at + 4) None = Ok (after, found)"
    and rest: "omap (\<lambda>cs. case found of None \<Rightarrow> cs | Some name \<Rightarrow> \<lparr>chunk_ssrc = s, cname = name\<rparr> # cs)
        (parse_chunks d payload_end n (after + (payload_end - after) mod 4)) = Ok cs"
    using Suc.prems by (auto simp: obind_eq_Ok_conv Let_def split: if_splits)
  obtain cs' where "parse_chunks d payload_end n (after + (payload_end - after) mod 4) = Ok cs'"
    using rest by (auto simp: omap_eq_Ok_conv)
  with Suc.IH [OF this] rest inside parse_items_framed [OF items, of pre post]
  show ?case by (simp add: Let_def add.assoc read_be32_framed [OF s])
qed simp

lemma sdes_store_framed:
  assumes "sdes_StorePacket d h q = Ok r" and "payload h \<noteq> None"
  shows "sdes_StorePacket (pre @ d @ post) (shift_header (length pre) h) q = Ok r"
proof -
  obtain base where base: "payload h = Some base" using assms(2) by blast
  obtain cs where "parse_chunks d (base + unat (payload_size h)) (unat (count_or_format h)) base = Ok cs"
    using assms(1) base by (auto simp: sdes_StorePacket_def Let_def omap_eq_Ok_conv split: if_splits)
  from parse_chunks_framed [OF this, of pre post] this show ?thesis
    using assms(1) base by (auto simp: sdes_StorePacket_def Let_def add.assoc split: if_splits)
qed

lemma parse_reason_framed:
  "parse_reason d base n k = Ok r \<Longrightarrow> parse_reason (pre @ d @ post) (length pre + base) n k = Ok r"
  by (auto simp: parse_reason_def obind_eq_Ok_conv framed add.assoc split: if_splits)

lemma omapM_framed:
  assumes "\<And>x y. x \<in> set xs \<Longrightarrow> f x = Ok y \<Longrightarrow> g x = Ok y" and "omapM f xs = Ok ys"
  shows "omapM g xs = Ok ys"
  using assms by (induction xs arbitrary: ys) (auto simp: obind_eq_Ok_conv omap_eq_Ok_conv)

lemma parse_sources_framed:
  assumes "parse_sources d base k = Ok r"
  shows "parse_sources (pre @ d @ post) (length pre + base) k = Ok r"
proof (cases "k = 0")
  case False
  obtain s cs where "read_be32 d base = (Ok s :: (rtcp_error, u32) outcome)"
    and cs: "omapM (\<lambda>i. read_be32 d (base + 4 * i)) [1..<k] = (Ok cs :: (rtcp_error, u32 list) outcome)"
    and "r = (s, cs)"
    using assms False by (auto simp: parse_sources_def obind_eq_Ok_conv omap_eq_Ok_conv)
  moreover have "omapM (\<lambda>i. read_be32 (pre @ d @ post) (length pre + (base + 4 * i))) [1..<k]
      = (Ok cs :: (rtcp_error, u32 list) outcome)"
    by (rule omapM_framed [OF _ cs]) (rule read_be32_framed)
  ultimately show ?thesis using False by (simp add: parse_sources_def framed add.assoc)
qed (use assms in \<open>simp add: parse_sources_def\<close>)

lemma bye_store_framed:
  assumes "bye_StorePacket d h q = Ok r" and "payload h \<noteq> None"
  shows "bye_StorePacket (pre @ d @ post) (shift_header (length pre) h) q = Ok r"
proof -
  let ?k = "unat (count_or_format h)" and ?n = "unat (payload_size h)"
  obtain base where base: "payload h = Some base" using assms(2) by blast
  obtain len s cs reason where "\<not> ?n < 4 * ?k" and "packet_type h = 203"
    and len: "parse_reason d base ?n ?k = Ok len" and src: "parse_sources d base ?k = Ok (s, cs)"
    and reason: "(if ?n > 4 * ?k then get_bytes d (base + 4 * ?k + 1) len else Ok [])
       = (Ok reason :: (rtcp_error, bytes) outcome)"
    and "r = \<lparr>bye_sender_ssrc = s, bye_csrcs = cs, bye_reason = reason\<rparr>"
    using assms(1) base
    by (auto simp: bye_StorePacket_def Let_def obind_eq_Ok_conv omap_eq_Ok_conv split: if_splits)
  moreover have "(if ?n > 4 * ?k then get_bytes (pre @ d @ post) (length pre + (base + 4 * ?k + 1)) len else Ok [])
       = (Ok reason :: (rtcp_error, bytes) outcome)"
    using reason get_bytes_framed [of d "base + 4 * ?k + 1" len reason pre post, where 'a = rtcp_error and 'b = rtcp_error]
    by (simp split: if_splits)
  ultimately show ?thesis
    using base parse_reason_framed [OF len, of pre post] parse_sources_framed [OF src, of pre post]
    by (auto simp: bye_StorePacket_def Let_def add.assoc split: if_splits)
qed

end
