(* ===== verification/Rtcp_Receiver.thy ===== *)
theory Rtcp_Receiver
  imports Rtcp_Frame
begin

text \<open>
  \<open>src/rtp_rtcp/rtcp_receiver.h/.cc\<close>: the class \<open>RtcpReceiver\<close>. It walks the packets of a
  received datagram, keeps what the reports need (the last sender report, whether a BYE has come)
  and notifies its callback of BYEs and NACKs. The state and the notifications are threaded
  through the handlers explicitly; a packet that does not parse is logged and skipped, a header
  that does not parse ends the walk with \<open>nullptr\<close>, keeping what was done before.
\<close>

section \<open>State\<close>

record rtcp_receiver_config =
  rcv_remote_ssrc :: u32
  rcv_local_ssrc :: u32

text \<open>\<open>config_\<close> and \<open>receiver_callback_\<close> are set together by \<open>Initialize\<close>: \<open>None\<close> before it.\<close>

record rtcp_receiver =
  receiver_config :: "rtcp_receiver_config option"
  has_received_bye :: bool
  has_received_sender_report :: bool
  ntp_last_sender_report :: u64
  ms_receive_last_sr :: u64

definition rtcp_receiver_new :: rtcp_receiver where
  "rtcp_receiver_new = \<lparr>receiver_config = None, has_received_bye = False,
     has_received_sender_report = False, ntp_last_sender_report = 0, ms_receive_last_sr = 0\<rparr>"

definition rtcp_receiver_Initialize ::
  "bool \<Rightarrow> rtcp_receiver_config option \<Rightarrow> rtcp_receiver \<Rightarrow> rtcp_receiver option" where
  "rtcp_receiver_Initialize has_callback config r =
     (if \<not> has_callback \<or> config = None then None else Some (r\<lparr>receiver_config := config\<rparr>))"

text \<open>The calls on the callback, in order.\<close>

datatype notification = NotifyByeReceived | NotifyNackReceived "u16 list"

text \<open>\<open>PacketInformation\<close>, with the receiver and the notifications made while it is filled.\<close>

record parse_state =
  receiver :: rtcp_receiver
  type_flags :: u32
  notifications :: "notification list"

text \<open>What the handlers take from outside: the uninitialised bytes of theory \<open>Rtcp_Reports\<close> and
  the clock, both by the offset of the packet that is being handled.\<close>

record parse_env =
  stale_byte :: "nat \<Rightarrow> u8"
  utc_millis :: "nat \<Rightarrow> u64"

section \<open>Handlers\<close>

text \<open>\<open>result->ok()\<close> or log and return.\<close>

fun if_stored ::
  "(rtcp_error, 'p) outcome \<Rightarrow> ('p \<Rightarrow> parse_state \<Rightarrow> (rtcp_error, parse_state) outcome) \<Rightarrow>
   parse_state \<Rightarrow> (rtcp_error, parse_state) outcome" where
  "if_stored (Ok p) accept st = accept p st"
| "if_stored (Failed e) accept st = Ok st"
| "if_stored (Crash c) accept st = Crash c"

definition with_remote_ssrc ::
  "(u32 \<Rightarrow> (rtcp_error, parse_state) outcome) \<Rightarrow> parse_state \<Rightarrow> (rtcp_error, parse_state) outcome" where
  "with_remote_ssrc f st = (case receiver_config (receiver st) of None \<Rightarrow> Crash Null_Dereference
     | Some c \<Rightarrow> f (rcv_remote_ssrc c))"

definition set_flag :: "u32 \<Rightarrow> parse_state \<Rightarrow> parse_state" where
  "set_flag f st = st\<lparr>type_flags := type_flags st OR f\<rparr>"

definition sr_new :: sender_report where
  "sr_new = \<lparr>sr_sender_ssrc = 0, sr_ntp = 0, sr_rtp_timestamp = 0, sr_packet_count = 0,
     sr_octet_count = 0, sr_blocks = []\<rparr>"

definition rr_new :: receiver_report where
  "rr_new = \<lparr>rr_sender_ssrc = 0, rr_blocks = []\<rparr>"

definition bye_new :: bye where
  "bye_new = \<lparr>bye_sender_ssrc = 0, bye_csrcs = [], bye_reason = []\<rparr>"

definition accept_sr :: "u64 \<Rightarrow> sender_report \<Rightarrow> parse_state \<Rightarrow> (rtcp_error, parse_state) outcome" where
  "accept_sr now sr st = with_remote_ssrc (\<lambda>remote.
     if remote \<noteq> sr_sender_ssrc sr then Ok st
     else let st = set_flag 0x0002 st;
              st = (if sr_blocks sr \<noteq> [] then set_flag 0x0001 st else st)
       in Ok (st\<lparr>receiver := (receiver st)\<lparr>has_received_sender_report := True,
            ntp_last_sender_report := sr_ntp sr, ms_receive_last_sr := now\<rparr>\<rparr>)) st"

definition accept_rr :: "receiver_report \<Rightarrow> parse_state \<Rightarrow> (rtcp_error, parse_state) outcome" where
  "accept_rr rr st = with_remote_ssrc (\<lambda>remote.
     if remote \<noteq> rr_sender_ssrc rr then Ok st
     else let st = set_flag 0x0004 st
       in Ok (if rr_blocks rr \<noteq> [] then set_flag 0x0001 st else st)) st"

text \<open>The loop over the chunks looks for one with the remote SSRC; \<open>config_\<close> is read only when there
  is a chunk.\<close>

definition accept_sdes :: "sdes \<Rightarrow> parse_state \<Rightarrow> (rtcp_error, parse_state) outcome" where
  "accept_sdes p st =
     (if chunks p = [] then Ok st
      else with_remote_ssrc (\<lambda>remote.
        if list_ex (\<lambda>c. remote = chunk_ssrc c) (chunks p) then Ok (set_flag 0x0008 st) else Ok st) st)"

definition accept_bye :: "bye \<Rightarrow> parse_state \<Rightarrow> (rtcp_error, parse_state) outcome" where
  "accept_bye b st = with_remote_ssrc (\<lambda>remote.
     if remote \<noteq> bye_sender_ssrc b then Ok st
     else let st = set_flag 0x0010 st
       in Ok (st\<lparr>receiver := (receiver st)\<lparr>has_received_bye := True\<rparr>,
                 notifications := notifications st @ [NotifyByeReceived]\<rparr>)) st"

definition accept_nack :: "nack \<Rightarrow> parse_state \<Rightarrow> (rtcp_error, parse_state) outcome" where
  "accept_nack n st = with_remote_ssrc (\<lambda>remote.
     if remote \<noteq> nack_sender_ssrc n then Ok st
     else let st = set_flag 0x0020 st
       in Ok (st\<lparr>notifications := notifications st @ [NotifyNackReceived (packet_ids n)]\<rparr>)) st"

definition packet_at :: "common_header \<Rightarrow> nat" where
  "packet_at h = (case payload h of None \<Rightarrow> 0 | Some base \<Rightarrow> base)"

definition ParseSenderReport ::
  "parse_env \<Rightarrow> bytes \<Rightarrow> common_header \<Rightarrow> parse_state \<Rightarrow> (rtcp_error, parse_state) outcome" where
  "ParseSenderReport env d h st =
     if_stored (sr_StorePacket (stale_byte env) d h sr_new) (accept_sr (utc_millis env (packet_at h))) st"

definition ParseReceiverReport ::
  "parse_env \<Rightarrow> bytes \<Rightarrow> common_header \<Rightarrow> parse_state \<Rightarrow> (rtcp_error, parse_state) outcome" where
  "ParseReceiverReport env d h st = if_stored (rr_StorePacket (stale_byte env) d h rr_new) accept_rr st"

definition ParseSdes ::
  "bytes \<Rightarrow> common_header \<Rightarrow> parse_state \<Rightarrow> (rtcp_error, parse_state) outcome" where
  "ParseSdes d h st = if_stored (sdes_StorePacket d h sdes_empty) accept_sdes st"

definition ParseBye ::
  "bytes \<Rightarrow> common_header \<Rightarrow> parse_state \<Rightarrow> (rtcp_error, parse_state) outcome" where
  "ParseBye d h st = if_stored (bye_StorePacket d h bye_new) accept_bye st"

definition ParseNacks ::
  "bytes \<Rightarrow> common_header \<Rightarrow> parse_state \<Rightarrow> (rtcp_error, parse_state) outcome" where
  "ParseNacks d h st = if_stored (nack_StorePacket d h nack_empty) accept_nack st"

text \<open>The switch on the packet type.\<close>

definition dispatch_packet ::
  "parse_env \<Rightarrow> bytes \<Rightarrow> common_header \<Rightarrow> parse_state \<Rightarrow> (rtcp_error, parse_state) outcome" where
  "dispatch_packet env d h st =
     (if packet_type h = 200 then ParseSenderReport env d h st
      else if packet_type h = 201 then ParseReceiverReport env d h st
      else if packet_type h = 202 then ParseSdes d h st
      else if packet_type h = 203 then ParseBye d h st
      else if packet_type h = 205 then
        (if count_or_format h = 1 then ParseNacks d h st else Ok st)
      else Ok st)"

section \<open>The walk over a datagram\<close>

text \<open>
  \<open>remain_length\<close> is a 32-bit difference. One header object is used for the whole datagram. A
  packet without payload makes \<open>NextPacket()\<close> null, and the next round subtracts the buffer from
  it and reads there. The result is the information (\<open>None\<close>: all of the datagram was walked) or
  the error of the header that ended it.
\<close>

definition remain_length :: "bytes \<Rightarrow> nat \<Rightarrow> u32" where
  "remain_length d off = of_nat (length d) - of_nat off"

lemma header_store_inside:
  "header_store self d off n = Ok h \<Longrightarrow> off < length d"
  by (auto simp: header_store_def get_byte_def split: if_splits)

lemma header_store_next:
  assumes "header_store self d off n = Ok h" and "next_packet h = Some off'"
  shows "off + 5 \<le> off'"
  using assms
  by (auto simp: header_store_def next_packet_def obind_eq_Ok_conv Let_def word_less_nat_alt split: if_splits)

function parse_from ::
  "parse_env \<Rightarrow> bytes \<Rightarrow> common_header \<Rightarrow> nat \<Rightarrow> parse_state \<Rightarrow>
   (rtcp_error, parse_state \<times> rtcp_error option) outcome" where
  "parse_from env d self off st =
     (if remain_length d off = 0 then Ok (st, None)
      else case header_store self d off (unat (remain_length d off)) of
        Failed e \<Rightarrow> Ok (st, Some e)
      | Crash c \<Rightarrow> Crash c
      | Ok h \<Rightarrow> obind (dispatch_packet env d h st) (\<lambda>st'.
          case next_packet h of None \<Rightarrow> Crash Null_Dereference
          | Some off' \<Rightarrow> parse_from env d h off' st'))"
  by pat_completeness auto
termination
proof (relation "measure (\<lambda>(env, d, self, off, st). length d - off)")
  fix env d self off st h off' and st' :: parse_state
  assume "header_store self d off (unat (remain_length d off)) = Ok h" and "next_packet h = Some off'"
  then have "off < length d" and "off < off'"
    using header_store_inside header_store_next by (blast, fastforce)
  then show "((env, d, h, off', st'), env, d, self, off, st) \<in> measure (\<lambda>(env, d, self, off, st). length d - off)"
    by auto
qed simp

declare parse_from.simps [simp del]

definition Parse ::
  "parse_env \<Rightarrow> bytes \<Rightarrow> rtcp_receiver \<Rightarrow> (rtcp_error, parse_state \<times> rtcp_error option) outcome" where
  "Parse env d r = parse_from env d header_empty 0 \<lparr>receiver = r, type_flags = 0, notifications = []\<rparr>"

definition OnRtcpPacket ::
  "parse_env \<Rightarrow> bytes option \<Rightarrow> rtcp_receiver \<Rightarrow> (rtcp_error, rtcp_receiver \<times> notification list) outcome" where
  "OnRtcpPacket env data_buffer r =
     (case data_buffer of None \<Rightarrow> Ok (r, [])
      | Some d \<Rightarrow> if has_received_bye r then Ok (r, [])
        else omap (\<lambda>(st, e). (receiver st, notifications st)) (Parse env d r))"

text \<open>\<open>GetSrInfo\<close>: the middle 32 bits of the NTP time of the last sender report, and the delay since
  it in units of 1/65536 seconds.\<close>

definition GetSrInfo :: "u64 \<Rightarrow> rtcp_receiver \<Rightarrow> u32 \<times> u32" where
  "GetSrInfo now r =
     (if \<not> has_received_sender_report r then (0, 0)
      else (ucast (drop_bit 32 (push_bit 16 (ntp_last_sender_report r))),
            ucast (push_bit 16 (now - ms_receive_last_sr r) div 1000)))"

section \<open>Termination of the walk\<close>

text \<open>One round of the loop of \<open>Parse\<close>, as far as it decides where the next one starts.\<close>

inductive walk_round :: "bytes \<Rightarrow> common_header \<times> nat \<Rightarrow> common_header \<times> nat \<Rightarrow> bool" for d where
  "walk_round d (self, off) (h, off')"
    if "remain_length d off \<noteq> 0" and "header_store self d off (unat (remain_length d off)) = Ok h"
      and "next_packet h = Some off'"

inductive_cases walk_roundE: "walk_round d x y"

lemma walk_round_advances: "walk_round d x y \<Longrightarrow> snd x + 5 \<le> snd y \<and> snd x < length d"
  by (auto elim!: walk_roundE dest: header_store_next header_store_inside)

text \<open>From any position, the loop of \<open>Parse\<close> goes through a finite chain of rounds that depends on the
  datagram alone, dispatching the packet of each, and goes on where the chain ends.\<close>

lemma walk_from:
  "\<exists>xs. xs \<noteq> [] \<and> hd xs = (self, off) \<and> successively (\<lambda>x y. walk_round d x y \<and> snd x + 5 \<le> snd y) xs
    \<and> (\<nexists>y. walk_round d (last xs) y)
    \<and> (\<forall>env st. parse_from env d self off st = obind (ofold (dispatch_packet env d) (map fst (tl xs)) st)
        (parse_from env d (fst (last xs)) (snd (last xs))))"
proof (induction "length d - off" arbitrary: self off rule: less_induct)
  case less
  show ?case
  proof (cases "\<exists>y. walk_round d (self, off) y")
    case True
    then obtain h off' where w: "walk_round d (self, off) (h, off')" by auto
    have adv: "off + 5 \<le> off'" "off < length d" using walk_round_advances [OF w] by simp_all
    then have lt: "length d - off' < length d - off" by linarith
    obtain ys where ys: "ys \<noteq> []" "hd ys = (h, off')" "successively (\<lambda>x y. walk_round d x y \<and> snd x + 5 \<le> snd y) ys"
      "\<nexists>y. walk_round d (last ys) y"
      and rest: "\<And>env st. parse_from env d h off' st = obind (ofold (dispatch_packet env d) (map fst (tl ys)) st)
        (parse_from env d (fst (last ys)) (snd (last ys)))"
      using less [OF lt, of h] by blast
    have "parse_from env d self off st = obind (dispatch_packet env d h st) (parse_from env d h off')" for env st
      using w by (auto elim!: walk_roundE simp: parse_from.simps [of env d self off st])
    moreover have "map fst ys = h # map fst (tl ys)" using ys(1,2) by (cases ys) auto
    ultimately have "parse_from env d self off st = obind (ofold (dispatch_packet env d) (map fst ys) st)
        (parse_from env d (fst (last ys)) (snd (last ys)))" for env st
      using rest by (cases "dispatch_packet env d h st") simp_all
    then show ?thesis using ys w adv by (intro exI [of _ "(self, off) # ys"]) (cases ys; simp)
  next
    case False
    then show ?thesis by (intro exI [of _ "[(self, off)]"]) simp
  qed
qed

section \<open>Datagrams that crash the walk\<close>

definition well_sized :: "bytes \<Rightarrow> bool" where
  "well_sized d \<longleftrightarrow> 4 \<le> length d \<and> length d < 2 ^ 32 \<and> drop_bit 6 (d ! 0) = 2
     \<and> 4 + 4 * unat (ReadBigEndian (take 2 (drop 2 d)) :: u16) \<le> length d"

lemma if_stored_not_failed: "(\<And>p. accept p st \<noteq> Failed e) \<Longrightarrow> if_stored m accept st \<noteq> Failed e"
  by (cases m) auto

lemma with_remote_ssrc_not_failed: "(\<And>x. f x \<noteq> Failed e) \<Longrightarrow> with_remote_ssrc f st \<noteq> Failed e"
  by (auto simp: with_remote_ssrc_def split: option.splits)

lemma accept_not_failed:
  "accept_sr now sr st \<noteq> Failed e" "accept_rr rr st \<noteq> Failed e" "accept_sdes p st \<noteq> Failed e"
  "accept_bye b st \<noteq> Failed e" "accept_nack n st \<noteq> Failed e"
  unfolding accept_sr_def accept_rr_def accept_sdes_def accept_bye_def accept_nack_def Let_def
  by (auto intro!: with_remote_ssrc_not_failed split: if_splits)

lemma dispatch_not_failed: "dispatch_packet env d h st \<noteq> Failed e"
  unfolding dispatch_packet_def ParseSenderReport_def ParseReceiverReport_def ParseSdes_def ParseBye_def
    ParseNacks_def
  by (auto intro!: if_stored_not_failed simp: accept_not_failed)

text \<open>Where there is no further round the loop has reached the end of the datagram, or the header there does not
  parse, or the loop leaves defined behaviour.\<close>

lemma walk_end:
  assumes "\<nexists>y. walk_round d (h, off) y"
  shows "remain_length d off = 0 \<Longrightarrow> parse_from env d h off st = Ok (st, None)"
    and "remain_length d off \<noteq> 0 \<Longrightarrow> header_store h d off (unat (remain_length d off)) = Failed e \<Longrightarrow>
      parse_from env d h off st = Ok (st, Some e)"
    and "remain_length d off \<noteq> 0 \<Longrightarrow> (\<And>e. header_store h d off (unat (remain_length d off)) \<noteq> Failed e) \<Longrightarrow>
      crashes (parse_from env d h off st)"
proof -
  assume nz: "remain_length d off \<noteq> 0" and nf: "\<And>e. header_store h d off (unat (remain_length d off)) \<noteq> Failed e"
  show "crashes (parse_from env d h off st)"
  proof (cases "header_store h d off (unat (remain_length d off))")
    case (Ok g)
    then have "next_packet g = None" using assms nz by (cases "next_packet g") (auto intro: walk_round.intros)
    then show ?thesis using nz Ok dispatch_not_failed [of env d g st]
      by (cases "dispatch_packet env d g st") (auto simp: parse_from.simps [of env d h off st])
  qed (use nz nf in \<open>simp_all add: parse_from.simps [of env d h off st]\<close>)
qed (simp_all add: parse_from.simps [of env d h off st])

lemma ofold_dispatch_not_failed: "ofold (dispatch_packet env d) hs st \<noteq> Failed e"
proof (induction hs arbitrary: st)
  case (Cons h hs)
  then show ?case using dispatch_not_failed [of env d h st] by (cases "dispatch_packet env d h st") simp_all
qed simp

text \<open>C26: The loop of \<open>Parse\<close> ends for every datagram: it makes a chain of rounds that the datagram alone
  determines, each of which moves on by at least five bytes and dispatches the packet whose header it read, and then no
  further round is possible. What \<open>Parse\<close> returns is what the handlers make of these packets in order, with the
  information when the end of the datagram was reached and the error of the header that did not parse otherwise; a last
  header that parses has no payload, and then the walk leaves defined behaviour.\<close>

theorem parse_terminates:
  "\<exists>xs. xs \<noteq> [] \<and> hd xs = (header_empty, 0) \<and> successively (\<lambda>x y. walk_round d x y \<and> snd x + 5 \<le> snd y) xs
    \<and> (\<nexists>y. walk_round d (last xs) y)
    \<and> (\<forall>env r.
        let run = ofold (dispatch_packet env d) (map fst (tl xs)) \<lparr>receiver = r, type_flags = 0, notifications = []\<rparr>;
            (h, off) = last xs
        in if remain_length d off = 0 then Parse env d r = omap (\<lambda>st. (st, None)) run
           else case header_store h d off (unat (remain_length d off)) of
             Failed e \<Rightarrow> Parse env d r = omap (\<lambda>st. (st, Some e)) run
           | _ \<Rightarrow> crashes (Parse env d r))"
proof -
  obtain xs where xs: "xs \<noteq> []" "hd xs = (header_empty, 0)" "successively (\<lambda>x y. walk_round d x y \<and> snd x + 5 \<le> snd y) xs"
    "\<nexists>y. walk_round d (last xs) y"
    and run: "\<And>env st. parse_from env d header_empty 0 st = obind (ofold (dispatch_packet env d) (map fst (tl xs)) st)
        (parse_from env d (fst (last xs)) (snd (last xs)))"
    using walk_from [of header_empty 0 d] by blast
  obtain h off where l: "last xs = (h, off)" by (cases "last xs")
  note fin = walk_end [OF xs(4) [unfolded l]]
  have "if remain_length d off = 0 then Parse env d r = omap (\<lambda>st. (st, None)) run
        else case header_store h d off (unat (remain_length d off)) of
             Failed e \<Rightarrow> Parse env d r = omap (\<lambda>st. (st, Some e)) run
           | _ \<Rightarrow> crashes (Parse env d r)"
    if "run = ofold (dispatch_packet env d) (map fst (tl xs)) \<lparr>receiver = r, type_flags = 0, notifications = []\<rparr>" for env r run
  proof -
    have "Parse env d r = obind run (parse_from env d h off)" by (simp add: Parse_def run l that)
    moreover have "run \<noteq> Failed e" for e unfolding that by (rule ofold_dispatch_not_failed)
    ultimately show ?thesis using fin by (cases run) (auto split: outcome.splits)
  qed
  then show ?thesis using xs unfolding Let_def by (intro exI [of _ xs]) (simp add: l)
qed

text \<open>A datagram whose first packet has the padding bit and a payload, or has neither payload nor
  padding bit, takes the receiver out of defined behaviour, whatever its type and whatever follows.\<close>

lemma first_packet_crashes:
  assumes "well_sized d" and "\<not> has_received_bye r"
    and "(d ! 0 AND 0x20 \<noteq> 0) \<longleftrightarrow> (ReadBigEndian (take 2 (drop 2 d)) :: u16) \<noteq> 0"
  shows "crashes (OnRtcpPacket env (Some d) r)"
proof -
  let ?len = "ReadBigEndian (take 2 (drop 2 d)) :: u16"
  have n: "unat (remain_length d 0) = length d" and nz: "remain_length d 0 \<noteq> 0"
    using assms(1) by (auto simp: well_sized_def remain_length_def unat_of_nat word_of_nat_eq_0_iff)
  have b: "get_byte d 0 = (Ok (d ! 0) :: (rtcp_error, u8) outcome)" "get_byte d 1 = (Ok (d ! 1) :: (rtcp_error, u8) outcome)"
    "read_be16 d 2 = (Ok ?len :: (rtcp_error, u16) outcome)"
    using assms(1) by (auto simp: well_sized_def get_byte_def read_be16_def get_bytes_def)
  have fits: "\<not> length d < 4 + unat (ucast ?len * 4 :: u32)" and v: "drop_bit 6 (d ! 0) = 2" "\<not> length d < 4"
    using assms(1) by (auto simp: well_sized_def unat_payload)
  have zero: "(ucast ?len * 4 :: u32) = 0 \<longleftrightarrow> ?len = 0"
    by (metis mult_eq_0_iff unat_payload unsigned_eq_0_iff zero_neq_numeral)
  have "header_store header_empty d 0 (length d) =
      obind (parse_header_padding header_empty d (d ! 0 AND 0x20 \<noteq> 0) (ucast ?len * 4)) (\<lambda>(pad, n).
        Ok \<lparr>packet_type = d ! 1, count_or_format = d ! 0 AND 0x1f, padding_size = pad, payload_size = n,
            payload = (if n > 0 then Some (0 + 4) else None)\<rparr>)"
    using fits v by (simp add: header_store_def b Let_def del: add_2_eq_Suc' One_nat_def)
  then have "header_store header_empty d 0 (length d) = Crash Null_Dereference
      \<or> (\<exists>h. header_store header_empty d 0 (length d) = Ok h \<and> payload h = None)"
    using assms(3) zero by (auto simp: parse_header_padding_def header_empty_def)
  then have "crashes (Parse env d r)"
  proof
    assume "header_store header_empty d 0 (length d) = Crash Null_Dereference"
    then show ?thesis using n nz by (simp add: Parse_def parse_from.simps)
  next
    assume "\<exists>h. header_store header_empty d 0 (length d) = Ok h \<and> payload h = None"
    then obtain h where h: "header_store header_empty d 0 (length d) = Ok h" and "next_packet h = None"
      by (auto simp: next_packet_def)
    then show ?thesis using n nz dispatch_not_failed [of env d h]
      by (cases "dispatch_packet env d h \<lparr>receiver = r, type_flags = 0, notifications = []\<rparr>")
        (auto simp: Parse_def parse_from.simps)
  qed
  then show ?thesis using assms(2) by (cases "Parse env d r") (auto simp: OnRtcpPacket_def)
qed

lemma first_packet_crashes_witness:
  "crashes (OnRtcpPacket \<lparr>stale_byte = \<lambda>_. 0, utc_millis = \<lambda>_. 0\<rparr>
     (Some [0xa0, 201, 0, 2, 0, 0, 0, 1, 0, 0, 0, 4]) rtcp_receiver_new)"
  by (rule first_packet_crashes)
    (simp_all add: well_sized_def rtcp_receiver_new_def ReadBigEndian_def drop_bit_eq_div)

section \<open>Sender report information\<close>

text \<open>After a sender report, \<open>GetSrInfo\<close> gives the middle 32 bits of its NTP time stamp, and, up to
  18 hours after it, the delay since then in units of 1/65536 seconds, rounded down.\<close>

lemma sr_info:
  assumes "has_received_sender_report r" and "unat (now - ms_receive_last_sr r) < 65536 * 1000"
  shows "unat (fst (GetSrInfo now r)) = unat (ntp_last_sender_report r) div 2 ^ 16 mod 2 ^ 32
    \<and> unat (snd (GetSrInfo now r)) = unat (now - ms_receive_last_sr r) * 65536 div 1000"
proof
  define n where "n = ntp_last_sender_report r"
  define e where "e = now - ms_receive_last_sr r"
  have "ucast (drop_bit 32 (push_bit 16 n)) = (ucast (drop_bit 16 n) :: u32)"
    by (rule bit_word_eqI) (auto simp: bit_ucast_iff bit_drop_bit_eq bit_push_bit_iff)
  then show "unat (fst (GetSrInfo now r)) = unat n div 2 ^ 16 mod 2 ^ 32"
    using assms(1) by (simp add: GetSrInfo_def n_def unsigned_ucast_eq take_bit_eq_mod drop_bit_eq_div unat_div)
  have small: "unat e < 65536 * 1000" using assms(2) by (simp add: e_def)
  then have e: "unat (push_bit 16 e) = unat e * 65536"
    by (simp add: push_bit_eq_mult unat_word_ariths mult.commute)
  have "unat e * 65536 div 1000 < 4294967296"
    using small by (simp add: div_less_iff_less_mult)
  then show "unat (snd (GetSrInfo now r)) = unat e * 65536 div 1000"
    using assms(1) e by (simp add: GetSrInfo_def e_def unsigned_ucast_eq take_bit_nat_eq_self unat_div)
qed

lemma sr_info_witness:
  "let r = rtcp_receiver_new\<lparr>has_received_sender_report := True, ntp_last_sender_report := 0x1122334455667788,
       ms_receive_last_sr := 1000\<rparr>
   in unat (fst (GetSrInfo 3500 r)) = 0x33445566 \<and> unat (snd (GetSrInfo 3500 r)) = 163840"
  using sr_info [of "rtcp_receiver_new\<lparr>has_received_sender_report := True,
    ntp_last_sender_report := 0x1122334455667788, ms_receive_last_sr := 1000\<rparr>" 3500]
  by (simp add: Let_def)

end
