(* ===== verification/Rtcp_Packets.thy ===== *)
theory Rtcp_Packets
  imports Rtcp_Receiver Data_Buffer
begin

text \<open>
  The packet classes behind \<open>std::unique_ptr<rtcp::RtcpPacket>\<close>: the virtual calls \<open>BlockLength\<close> and
  \<open>LoadPacket\<close> as one dispatch, which is again an instance of the interface \<open>rtcp_packet_class\<close>;
  the compound packet that \<open>RtpRtcpTranceiverImpl::SendRtcp\<close>
  (\<open>src/rtp_rtcp/rtp_rtcp_tranceiver_impl.cc\<close>) builds from a list of packets; and what the walk of
  \<open>RtcpReceiver\<close> makes of it. APP packets are in none of the lists the program builds.
\<close>

datatype rtcp_packet =
    Sr_Packet sender_report
  | Rr_Packet receiver_report
  | Sdes_Packet sdes
  | Bye_Packet bye
  | Nack_Packet nack

fun rtcp_BlockLength :: "rtcp_packet \<Rightarrow> nat" where
  "rtcp_BlockLength (Sr_Packet p) = sr_BlockLength p"
| "rtcp_BlockLength (Rr_Packet p) = rr_BlockLength p"
| "rtcp_BlockLength (Sdes_Packet p) = sdes_BlockLength p"
| "rtcp_BlockLength (Bye_Packet p) = bye_BlockLength p"
| "rtcp_BlockLength (Nack_Packet p) = nack_BlockLength p"

fun rtcp_LoadPacket :: "rtcp_packet loader" where
  "rtcp_LoadPacket (Sr_Packet p) = sr_LoadPacket p"
| "rtcp_LoadPacket (Rr_Packet p) = rr_LoadPacket p"
| "rtcp_LoadPacket (Sdes_Packet p) = sdes_LoadPacket p"
| "rtcp_LoadPacket (Bye_Packet p) = bye_LoadPacket p"
| "rtcp_LoadPacket (Nack_Packet p) = nack_LoadPacket p"

fun packet_wf :: "rtcp_packet \<Rightarrow> bool" where
  "packet_wf (Sr_Packet p) = blocks_wf (sr_blocks p)"
| "packet_wf (Rr_Packet p) = blocks_wf (rr_blocks p)"
| "packet_wf (Sdes_Packet p) = (sdes_wf p \<and> chunks p \<noteq> [])"
| "packet_wf (Bye_Packet p) = bye_wf p"
| "packet_wf (Nack_Packet p) = nack_wf p"

fun packet_image :: "rtcp_packet \<Rightarrow> bytes" where
  "packet_image (Sr_Packet p) = sr_image p"
| "packet_image (Rr_Packet p) = rr_image p"
| "packet_image (Sdes_Packet p) = sdes_image p"
| "packet_image (Bye_Packet p) = bye_image p"
| "packet_image (Nack_Packet p) = nack_image p"

interpretation packets: rtcp_packet_class rtcp_BlockLength rtcp_LoadPacket packet_wf packet_image
proof unfold_locales
  fix p pos max_length and buf :: bytes
  assume wf: "packet_wf p"
  then show "length (packet_image p) = rtcp_BlockLength p"
    by (cases p) (simp_all add: length_sr_image length_rr_image length_sdes_image length_bye_image
        nack.image_length)
  show "pos + rtcp_BlockLength p \<le> max_length \<Longrightarrow> max_length \<le> length buf \<Longrightarrow>
      rtcp_LoadPacket p buf pos max_length = omap (Pair (pos + rtcp_BlockLength p)) (put_bytes pos (packet_image p) buf)"
    using wf by (cases p) (simp_all add: sr.load_fits rr.load_fits sdes.load_fits bye.load_fits nack.load_fits)
  show "max_length < pos + rtcp_BlockLength p \<Longrightarrow> rtcp_LoadPacket p buf pos max_length = Failed Buffer_Too_Small"
    using wf by (cases p) (simp_all add: sr.load_too_long rr.load_too_long sdes.load_too_long
        bye.load_too_long nack.load_too_long)
qed

section \<open>Building the compound packet\<close>

text \<open>
  \<open>SendRtcp\<close> on the network thread. Null packets are skipped; \<open>None\<close> when nothing is sent (no
  bytes, a packet that fails to load, or a wrong total), otherwise the datagram.
\<close>

definition live_packets :: "rtcp_packet option list \<Rightarrow> rtcp_packet list" where
  "live_packets packets = [p. Some p \<leftarrow> packets]"

definition SendRtcp ::
  "u8 \<Rightarrow> rtcp_packet option list \<Rightarrow> (rtcp_error, bytes option) outcome" where
  "SendRtcp fill packets =
     (let ps = live_packets packets;
          compound_packet_size = (\<Sum>p\<leftarrow>ps. of_nat (rtcp_BlockLength p)) :: u32
      in if compound_packet_size = 0 then Ok None
         else let b = db_set_size compound_packet_size (db_create fill compound_packet_size) in
           case ofold (\<lambda>p (pos, buf). rtcp_LoadPacket p buf pos (unat compound_packet_size)) ps (0, db_mem b) of
             Failed e \<Rightarrow> Ok None
           | Crash c \<Rightarrow> Crash c
           | Ok (write_pos, buf) \<Rightarrow>
               if write_pos \<noteq> unat compound_packet_size then Ok None
               else Ok (Some (db_contents (b\<lparr>db_mem := buf\<rparr>))))"

lemma BlockLength_pos: "packet_wf p \<Longrightarrow> 0 < rtcp_BlockLength p"
  using sdes_block_length
  by (cases p) (auto simp: sr_BlockLength_def rr_BlockLength_def bye_BlockLength_def nack_BlockLength_def)

lemma of_nat_sum_list: "(\<Sum>p\<leftarrow>ps. of_nat (f p)) = (of_nat (\<Sum>p\<leftarrow>ps. f p) :: 'a::len word)"
  by (induction ps) simp_all

text \<open>The compound packet is the concatenation of the images of its packets, whatever the buffer
  held before.\<close>

lemma compound_is_concatenation:
  assumes "\<forall>p \<in> set (live_packets packets). packet_wf p" and "live_packets packets \<noteq> []"
    and "(\<Sum>p\<leftarrow>live_packets packets. rtcp_BlockLength p) < 2 ^ 32"
  shows "SendRtcp fill packets = Ok (Some (concat (map packet_image (live_packets packets))))"
proof -
  let ?ps = "live_packets packets" and ?n = "\<Sum>p\<leftarrow>live_packets packets. rtcp_BlockLength p"
  let ?size = "of_nat ?n :: u32"
  have size: "unat ?size = ?n" using assms(3) by (simp add: unat_of_nat)
  obtain p ps where ps: "?ps = p # ps" using assms(2) by (cases ?ps) auto
  then have "0 < ?n" using assms(1) BlockLength_pos [of p] by simp
  then have nz: "?size \<noteq> 0" using size by (metis less_irrefl unsigned_0)
  have len: "length (concat (map packet_image ?ps)) = ?n"
    using packets.length_images assms(1) by blast
  have step: "(\<lambda>p (pos, buf). rtcp_LoadPacket p buf pos ?n) = packets.load_next ?n"
    by (simp add: fun_eq_iff packets.load_next_def)
  have "ofold (packets.load_next ?n) ?ps (0, replicate ?n fill)
      = omap (Pair ?n) (put_bytes 0 (concat (map packet_image ?ps)) (replicate ?n fill))"
    using packets.load_all [of ?ps 0 ?n "replicate ?n fill"] assms(1) by simp
  also have "\<dots> = Ok (?n, concat (map packet_image ?ps))"
    using len by (simp add: put_bytes_def)
  finally show ?thesis using nz size len step
    by (simp add: SendRtcp_def Let_def of_nat_sum_list db_create_def db_set_size_def db_contents_def)
qed

section \<open>Walking the compound packet\<close>

fun packet_code :: "rtcp_packet \<Rightarrow> u8" where
  "packet_code (Sr_Packet p) = 200"
| "packet_code (Rr_Packet p) = 201"
| "packet_code (Sdes_Packet p) = 202"
| "packet_code (Bye_Packet p) = 203"
| "packet_code (Nack_Packet p) = 205"

fun packet_count :: "rtcp_packet \<Rightarrow> nat" where
  "packet_count (Sr_Packet p) = length (sr_blocks p)"
| "packet_count (Rr_Packet p) = length (rr_blocks p)"
| "packet_count (Sdes_Packet p) = length (chunks p)"
| "packet_count (Bye_Packet p) = 1 + length (bye_csrcs p)"
| "packet_count (Nack_Packet p) = 1"

definition packet_header :: "rtcp_packet \<Rightarrow> common_header" where
  "packet_header p = \<lparr>packet_type = packet_code p, count_or_format = of_nat (packet_count p),
     padding_size = 0, payload_size = of_nat (rtcp_BlockLength p - 4), payload = Some 4\<rparr>"

lemma bye_length:
  assumes "bye_wf b"
  obtains w where "bye_BlockLength b = 8 + 4 * w" and "w \<le> 94"
proof
  let ?w = "length (bye_csrcs b) + (if bye_reason b = [] then 0 else length (bye_reason b) div 4 + 1)"
  show "bye_BlockLength b = 8 + 4 * ?w" by (simp add: bye_BlockLength_def)
  show "?w \<le> 94" using assms by (auto simp: bye_wf_def)
qed

lemma packet_lengths:
  assumes "packet_wf p"
  shows "8 \<le> rtcp_BlockLength p \<and> rtcp_BlockLength p mod 4 = 0 \<and> rtcp_BlockLength p - 4 < 4 * 65536 \<and> packet_count p \<le> 31"
proof (cases p)
  case (Sdes_Packet s)
  moreover obtain c cs where "chunks s = c # cs" using assms Sdes_Packet by (cases "chunks s") auto
  then have "4 \<le> length (concat (map chunk_image (chunks s)))" by (simp add: chunk_image_def)
  ultimately show ?thesis
    using assms sdes_block_length [of s] by (auto simp: sdes_wf_def mod_add_eq [symmetric])
next
  case (Bye_Packet b)
  then have "bye_wf b" using assms by simp
  then obtain w where "bye_BlockLength b = 8 + 4 * w" "w \<le> 94" by (rule bye_length)
  then show ?thesis using assms Bye_Packet by (simp add: bye_wf_def mod_add_eq [symmetric])
qed (use assms in \<open>auto simp: sr_BlockLength_def rr_BlockLength_def nack_BlockLength_def blocks_wf_def
       nack_wf_def mod_add_eq [symmetric]\<close>)

lemma packet_image_layout:
  "\<exists>body. packet_image p = header_image (of_nat (packet_count p)) (packet_code p)
     (of_nat ((rtcp_BlockLength p - 4) div 4)) @ body"
  by (cases p) (simp_all add: sr_image_def rr_image_def sdes_image_def bye_image_def nack_image_def
      sr_BlockLength_def rr_BlockLength_def nack_BlockLength_def)

lemma header_store_packet:
  assumes "packet_wf p" and "rtcp_BlockLength p \<le> n"
  shows "header_store self (pre @ packet_image p @ post) (length pre) n
    = Ok (shift_header (length pre) (packet_header p))"
proof -
  define l where "l = (of_nat ((rtcp_BlockLength p - 4) div 4) :: u16)"
  define c where "c = (of_nat (packet_count p) :: u8)"
  obtain body where img: "packet_image p = header_image c (packet_code p) l @ body"
    using packet_image_layout [of p] by (auto simp: c_def l_def)
  have len: "8 \<le> rtcp_BlockLength p" "rtcp_BlockLength p mod 4 = 0" "rtcp_BlockLength p - 4 < 4 * 65536" "packet_count p \<le> 31"
    using packet_lengths [OF assms(1)] by auto
  have "(rtcp_BlockLength p - 4) div 4 < 65536" using len(3) by linarith
  then have "unat l = (rtcp_BlockLength p - 4) div 4" unfolding l_def by (rule unat_length)
  moreover have "(rtcp_BlockLength p - 4) mod 4 = 0" using len(1,2) by (simp add: mod_eq_0_iff_dvd dvd_diff_nat)
  ultimately have l: "4 * unat l = rtcp_BlockLength p - 4" by (metis add.right_neutral mult_div_mod_eq)
  then have "ucast l * 4 = (of_nat (rtcp_BlockLength p - 4) :: u32)"
    using unat_payload [of l] by (metis of_nat_unat ucast_id)
  moreover have "l \<noteq> 0" using l len(1) by auto
  moreover have "c \<le> 0x1f" unfolding c_def by (rule count_le_31) (rule len(4))
  ultimately show ?thesis
    using header_store_image [of c pre "length pre" l n self "packet_code p" "body @ post"] l assms(2) len(1)
    by (simp add: img packet_header_def shift_header_def c_def)
qed

lemma next_packet_shift:
  assumes "packet_wf p"
  shows "next_packet (shift_header n (packet_header p)) = Some (n + rtcp_BlockLength p)"
proof -
  have "8 \<le> rtcp_BlockLength p" "rtcp_BlockLength p - 4 < 4 * 65536" using packet_lengths [OF assms] by auto
  then obtain m where "rtcp_BlockLength p = 4 + m" and "m < 4 * 65536" by (metis add_diff_inverse_nat less_le_not_le
      add_leD1 le_add_diff_inverse numeral_Bit0)
  then show ?thesis by (simp add: next_packet_def packet_header_def unat_of_nat)
qed

text \<open>What the receiver does with each packet, said of the packet itself.\<close>

fun receive_packet :: "parse_env \<Rightarrow> nat \<Rightarrow> rtcp_packet \<Rightarrow> parse_state \<Rightarrow> (rtcp_error, parse_state) outcome" where
  "receive_packet env off (Sr_Packet p) st =
     (if sr_blocks p = [] then accept_sr (utc_millis env (off + 4)) p st else Crash Null_Dereference)"
| "receive_packet env off (Rr_Packet p) st = accept_rr p st"
| "receive_packet env off (Sdes_Packet p) st = accept_sdes p st"
| "receive_packet env off (Bye_Packet p) st = accept_bye p st"
| "receive_packet env off (Nack_Packet p) st = accept_nack (p\<lparr>packet_ids := unpack_ids (packed p)\<rparr>) st"

fun receive_packets ::
  "parse_env \<Rightarrow> nat \<Rightarrow> rtcp_packet list \<Rightarrow> parse_state \<Rightarrow> (rtcp_error, parse_state) outcome" where
  "receive_packets env off [] st = Ok st"
| "receive_packets env off (p # ps) st =
     obind (receive_packet env off p st) (receive_packets env (off + rtcp_BlockLength p) ps)"

lemma reread_blocks_Nil [simp]: "reread_blocks stale off bs = [] \<longleftrightarrow> bs = []"
  by (induction stale off bs rule: reread_blocks.induct) simp_all

lemma stored_alone:
  assumes "packet_wf p" and "obind (header_store header_empty (packet_image p) 0 (rtcp_BlockLength p)) f = res"
  shows "f (packet_header p) = res"
  using assms header_store_packet [OF assms(1) order_refl, of header_empty "[]" "[]"]
  by (simp add: shift_header_def packet_header_def)

lemma dispatch_packet_image:
  assumes "packet_wf p"
  shows "dispatch_packet env (pre @ packet_image p @ post) (shift_header (length pre) (packet_header p)) st
    = receive_packet env (length pre) p st"
proof -
  let ?h = "packet_header p" and ?d = "packet_image p"
  have pay: "payload ?h \<noteq> None" by (simp add: packet_header_def)
  note framed_stores = sr_store_framed rr_store_framed sdes_store_framed [OF _ pay] bye_store_framed [OF _ pay]
    nack_store_framed
  show ?thesis
  proof (cases p)
    case (Sr_Packet q)
    have "sr_StorePacket (stale_byte env) ?d ?h sr_new = (if sr_blocks q = [] then Ok q else Crash Null_Dereference)"
      by (rule stored_alone [OF assms]) (use assms Sr_Packet in \<open>simp add: sr_parse_into_fresh sr_new_def\<close>)
    from sr_store_framed [OF this, where stale = "stale_byte env" and pre = pre and post = post and r = q]
    show ?thesis using Sr_Packet
      by (simp add: dispatch_packet_def packet_header_def ParseSenderReport_def packet_at_def sr_new_def)
  next
    case (Rr_Packet q)
    let ?bs = "reread_blocks (\<lambda>i. stale_byte env (length pre + i)) 8 (rr_blocks q)"
    have "rr_StorePacket (\<lambda>i. stale_byte env (length pre + i)) ?d ?h rr_new = Ok (q\<lparr>rr_blocks := ?bs\<rparr>)"
      by (rule stored_alone [OF assms]) (use assms Rr_Packet in \<open>simp add: rr_store_image\<close>)
    from rr_store_framed [OF this, of post] show ?thesis using Rr_Packet
      by (simp add: dispatch_packet_def packet_header_def ParseReceiverReport_def accept_rr_def Let_def cong: if_cong)
  next
    case (Sdes_Packet q)
    have "sdes_StorePacket ?d ?h sdes_empty = Ok q"
      by (rule stored_alone [OF assms]) (use assms Sdes_Packet in \<open>simp add: sdes_store_image\<close>)
    from sdes_store_framed [OF this pay, of pre post] show ?thesis using Sdes_Packet
      by (simp add: dispatch_packet_def packet_header_def ParseSdes_def)
  next
    case (Bye_Packet q)
    have "bye_StorePacket ?d ?h bye_new = Ok q"
      by (rule stored_alone [OF assms]) (use assms Bye_Packet in \<open>simp add: bye_store_image\<close>)
    from bye_store_framed [OF this pay, of pre post] show ?thesis using Bye_Packet
      by (simp add: dispatch_packet_def packet_header_def ParseBye_def)
  next
    case (Nack_Packet q)
    have "nack_StorePacket ?d ?h nack_empty = Ok (q\<lparr>packet_ids := unpack_ids (packed q)\<rparr>)"
      by (rule stored_alone [OF assms]) (use assms Nack_Packet in \<open>simp add: nack_store_image\<close>)
    from nack_store_framed [OF this, of pre post] show ?thesis using Nack_Packet
      by (simp add: dispatch_packet_def packet_header_def ParseNacks_def)
  qed
qed

lemma parse_from_images:
  assumes "\<forall>p \<in> set ps. packet_wf p" and "length (pre @ concat (map packet_image ps)) < 2 ^ 32"
    and "length pre = off"
  shows "parse_from env (pre @ concat (map packet_image ps)) self off st
    = omap (\<lambda>st. (st, None)) (receive_packets env off ps st)"
  using assms
proof (induction ps arbitrary: pre off self st)
  case Nil
  then show ?case by (subst parse_from.simps) (simp add: remain_length_def)
next
  case (Cons p ps)
  let ?rest = "concat (map packet_image ps)" and ?d = "pre @ concat (map packet_image (p # ps))"
  have len: "length (packet_image p) = rtcp_BlockLength p" and big: "8 \<le> rtcp_BlockLength p"
    using Cons.prems(1) packets.image_length packet_lengths by auto
  have "length ?d - off < 2 ^ 32" using Cons.prems(2) by simp
  moreover have "remain_length ?d off = of_nat (length ?d - off)"
    using Cons.prems(3) by (simp add: remain_length_def)
  ultimately have "unat (remain_length ?d off) = length ?d - off"
    by (simp only: unat_of_nat take_bit_nat_eq_self_iff) (simp add: take_bit_nat_eq_self)
  then have n: "unat (remain_length ?d off) = rtcp_BlockLength p + length ?rest"
    using Cons.prems(3) len by simp
  then have nz: "remain_length ?d off \<noteq> 0" using big by (metis add_is_0 not_numeral_le_zero unsigned_0)
  have h: "header_store self ?d off (unat (remain_length ?d off)) = Ok (shift_header off (packet_header p))"
    using header_store_packet [of p _ self pre ?rest] Cons.prems(1,3) n by simp
  have dp: "dispatch_packet env ?d (shift_header off (packet_header p)) st = receive_packet env off p st"
    using dispatch_packet_image [of p env pre ?rest st] Cons.prems(1,3) by simp
  have nx: "next_packet (shift_header off (packet_header p)) = Some (off + rtcp_BlockLength p)"
    using next_packet_shift Cons.prems(1) by simp
  have IH: "parse_from env ?d (shift_header off (packet_header p)) (off + rtcp_BlockLength p) st'
      = omap (\<lambda>st. (st, None)) (receive_packets env (off + rtcp_BlockLength p) ps st')" for st'
    using Cons.IH [of "pre @ packet_image p" "off + rtcp_BlockLength p"] Cons.prems len by simp
  show ?case using nz
    by (subst parse_from.simps) (simp only: h dp nx IH if_False outcome.case option.case receive_packets.simps omap_obind)
qed

end
