(* ===== verification/Rtcp_Sender.thy ===== *)
theory Rtcp_Sender
  imports Rtcp_Packets
begin

text \<open>
  \<open>src/rtp_rtcp/rtcp_sender.h/.cc\<close>: the class \<open>RtcpSender\<close>, which builds the compound packets
  (reports, then SDES, then a BYE or a NACK) and decides when they are sent. Its methods hold
  \<open>mutex_\<close> from end to end, so each is one step of the state. What a method asks of its callback is a
  record of the answers; what it does to the outside is the compound passed to the transceiver
  and the delay of the task it posts.
\<close>

section \<open>State\<close>

datatype direction = SendRecv | SendOnly | RecvOnly

record rtcp_sender_config =
  rtcp_local_ssrc :: u32
  rtcp_remote_ssrc :: u32
  local_cname :: bytes
  rtcp_report_interval_ms :: u32
  rtcp_direction :: direction

record remote_sender_info =
  ri_remote_ssrc :: u32
  ri_cumulative_loss :: u32
  ri_extended_seq_num :: u32
  ri_first_extended_seq_num :: u32
  ri_interarrival_jitter :: u32
  ri_lsr :: u32
  ri_dlsr :: u32

definition remote_info_new :: remote_sender_info where
  "remote_info_new = \<lparr>ri_remote_ssrc = 0, ri_cumulative_loss = 0, ri_extended_seq_num = 0,
     ri_first_extended_seq_num = 0, ri_interarrival_jitter = 0, ri_lsr = 0, ri_dlsr = 0\<rparr>"

record local_sender_info =
  li_ntp_now :: u64
  li_rtp_timestamp_now :: u32
  li_sender_packet_count :: u32
  li_sender_octet_count :: u32

text \<open>The answers of \<open>RtcpSenderCallback\<close>; a null pointer is \<open>None\<close>.\<close>

record sender_callback =
  HasSentRtp :: bool
  HasReceivedRtp :: bool
  HasReceivedBye :: bool
  GetRemoteSenderInfo :: "remote_sender_info option"
  GetLocalSenderInfo :: "local_sender_info option"

record rtcp_sender =
  rs_config :: rtcp_sender_config
  last_report_remote_sender_info :: remote_sender_info
  utc_ms_next_send :: u64
  has_sent_rtp :: bool
  has_sent_bye :: bool
  has_sent_rtcp :: bool
  has_received_rtp :: bool

definition rtcp_sender_new :: "rtcp_sender_config \<Rightarrow> rtcp_sender" where
  "rtcp_sender_new c = \<lparr>rs_config = c, last_report_remote_sender_info = remote_info_new,
     utc_ms_next_send = 0, has_sent_rtp = False, has_sent_bye = False, has_sent_rtcp = False,
     has_received_rtp = False\<rparr>"

text \<open>What a method does besides changing the state: the compound and \<open>is_bye\<close> passed to the
  transceiver, and the delay with which \<open>ScheduleSendRtcp\<close> is posted.\<close>

record sender_effect =
  sent :: "(rtcp_packet list \<times> bool) option"
  posted :: "u64 option"

definition no_effect :: sender_effect where
  "no_effect = \<lparr>sent = None, posted = None\<rparr>"

section \<open>The compound packet\<close>

text \<open>\<open>SendRtcpInfo*\<close>: null, a BYE, or a NACK.\<close>

datatype send_info = No_Info | Bye_Info | Nack_Info "u16 list"

text \<open>The fraction lost: signed loss, unsigned division, cut to 8 bits.\<close>

definition FractionLost :: "u32 \<Rightarrow> s32 \<Rightarrow> u8" where
  "FractionLost expected_since_last_report loss_since_last_report =
     (if expected_since_last_report = 0 \<or> sint loss_since_last_report \<le> 0 then 0
      else ucast (push_bit 8 loss_since_last_report div expected_since_last_report))"

definition loss_since :: "rtcp_sender \<Rightarrow> remote_sender_info \<Rightarrow> s32" where
  "loss_since s i = (if has_sent_rtcp s
     then ri_cumulative_loss i - ri_cumulative_loss (last_report_remote_sender_info s)
     else ri_cumulative_loss i)"

definition expected_since :: "rtcp_sender \<Rightarrow> remote_sender_info \<Rightarrow> u32" where
  "expected_since s i = (if has_sent_rtcp s
     then ri_extended_seq_num i - ri_extended_seq_num (last_report_remote_sender_info s)
     else ri_extended_seq_num i - ri_first_extended_seq_num i)"

text \<open>The report block; the result of \<open>SetCumulativeLost\<close> is ignored, so a value it refuses leaves 0.\<close>

definition make_report_block :: "rtcp_sender \<Rightarrow> remote_sender_info \<Rightarrow> report_block" where
  "make_report_block s i =
     (let b = block_empty\<lparr>source_ssrc := ri_remote_ssrc i\<rparr>;
          b = (case SetCumulativeLost (ri_cumulative_loss i) b of Ok b' \<Rightarrow> b' | _ \<Rightarrow> b)
      in b\<lparr>fraction_lost := FractionLost (expected_since s i) (loss_since s i),
           extended_high_seq_num := ri_extended_seq_num i, jitter := ri_interarrival_jitter i,
           last_sr := ri_lsr i, delay_since_last_sr := ri_dlsr i\<rparr>)"

text \<open>The two flags that are asked for again until they are true.\<close>

definition refresh_flags :: "sender_callback \<Rightarrow> rtcp_sender \<Rightarrow> rtcp_sender" where
  "refresh_flags cb s =
     (let d = rtcp_direction (rs_config s);
          s = (if d \<noteq> RecvOnly \<and> \<not> has_sent_rtp s then s\<lparr>has_sent_rtp := HasSentRtp cb\<rparr> else s)
      in if d \<noteq> SendOnly \<and> \<not> has_received_rtp s then s\<lparr>has_received_rtp := HasReceivedRtp cb\<rparr> else s)"

definition report_blocks_of ::
  "sender_callback \<Rightarrow> rtcp_sender \<Rightarrow> (rtcp_error, report_block option list \<times> rtcp_sender) outcome" where
  "report_blocks_of cb s =
     (if \<not> has_received_rtp s then Ok ([], s)
      else case GetRemoteSenderInfo cb of None \<Rightarrow> Crash Null_Dereference
      | Some i \<Rightarrow> Ok ([Some (make_report_block s i)], s\<lparr>last_report_remote_sender_info := i\<rparr>))"

definition set_blocks :: "report_block option list \<Rightarrow> report_block option list" where
  "set_blocks new = (case SetReportBlocks new [] of Ok bs \<Rightarrow> bs | _ \<Rightarrow> [])"

definition report_packet ::
  "sender_callback \<Rightarrow> report_block option list \<Rightarrow> rtcp_sender \<Rightarrow> (rtcp_error, rtcp_packet) outcome" where
  "report_packet cb blocks s =
     (if has_sent_rtp s then
        (case GetLocalSenderInfo cb of None \<Rightarrow> Crash Null_Dereference
         | Some i \<Rightarrow> Ok (Sr_Packet \<lparr>sr_sender_ssrc = rtcp_local_ssrc (rs_config s), sr_ntp = li_ntp_now i,
             sr_rtp_timestamp = li_rtp_timestamp_now i, sr_packet_count = li_sender_packet_count i,
             sr_octet_count = li_sender_octet_count i, sr_blocks = set_blocks blocks\<rparr>))
      else Ok (Rr_Packet \<lparr>rr_sender_ssrc = rtcp_local_ssrc (rs_config s), rr_blocks = set_blocks blocks\<rparr>))"

definition sdes_packet :: "rtcp_sender_config \<Rightarrow> rtcp_packet" where
  "sdes_packet c = Sdes_Packet
     (case AddCName (rtcp_local_ssrc c) (local_cname c) sdes_empty of Ok p \<Rightarrow> p | _ \<Rightarrow> sdes_empty)"

fun info_packets :: "send_info \<Rightarrow> rtcp_sender_config \<Rightarrow> rtcp_packet list" where
  "info_packets No_Info c = []"
| "info_packets Bye_Info c = [Bye_Packet (bye_new\<lparr>bye_sender_ssrc := rtcp_local_ssrc c\<rparr>)]"
| "info_packets (Nack_Info seqs) c =
     [Nack_Packet (SetPacketIds seqs (nack_empty\<lparr>nack_sender_ssrc := rtcp_local_ssrc c,
        nack_media_ssrc := rtcp_remote_ssrc c\<rparr>))]"

text \<open>\<open>SendRtcp\<close>: the compound and the new state.\<close>

definition build_rtcp ::
  "send_info \<Rightarrow> sender_callback \<Rightarrow> rtcp_sender \<Rightarrow> (rtcp_error, (rtcp_packet list \<times> bool) \<times> rtcp_sender) outcome" where
  "build_rtcp info cb s =
     (let s = refresh_flags cb s in
      obind (report_blocks_of cb s) (\<lambda>(blocks, s).
      omap (\<lambda>report.
        ((report # sdes_packet (rs_config s) # info_packets info (rs_config s), info = Bye_Info),
         s\<lparr>has_sent_rtcp := True\<rparr>))
        (report_packet cb blocks s)))"

section \<open>The operations\<close>

definition rtcp_sender_Initialize :: "u64 \<Rightarrow> rtcp_sender_config option \<Rightarrow> (rtcp_sender \<times> sender_effect) option" where
  "rtcp_sender_Initialize now config =
     map_option (\<lambda>c. let half = drop_bit 1 (ucast (rtcp_report_interval_ms c)) in
       ((rtcp_sender_new c)\<lparr>utc_ms_next_send := now + half\<rparr>, \<lparr>sent = None, posted = Some half\<rparr>)) config"

definition SendBye :: "sender_callback \<Rightarrow> rtcp_sender \<Rightarrow> (rtcp_error, rtcp_sender \<times> sender_effect) outcome" where
  "SendBye cb s =
     omap (\<lambda>(compound, s). (s\<lparr>has_sent_bye := True\<rparr>, \<lparr>sent = Some compound, posted = None\<rparr>))
       (build_rtcp Bye_Info cb s)"

definition SendNack ::
  "u64 \<Rightarrow> u16 list \<Rightarrow> sender_callback \<Rightarrow> rtcp_sender \<Rightarrow> (rtcp_error, rtcp_sender \<times> sender_effect) outcome" where
  "SendNack now seqs cb s =
     (if seqs = [] \<or> has_sent_bye s \<or> HasReceivedBye cb then Ok (s, no_effect)
      else omap (\<lambda>(compound, s).
        (s\<lparr>utc_ms_next_send := now + ucast (rtcp_report_interval_ms (rs_config s))\<rparr>,
         \<lparr>sent = Some compound, posted = None\<rparr>))
       (build_rtcp (Nack_Info seqs) cb s))"

definition ScheduleSendRtcp ::
  "u64 \<Rightarrow> sender_callback \<Rightarrow> rtcp_sender \<Rightarrow> (rtcp_error, rtcp_sender \<times> sender_effect) outcome" where
  "ScheduleSendRtcp now cb s =
     (if has_sent_bye s \<or> HasReceivedBye cb then Ok (s, no_effect)
      else if now < utc_ms_next_send s
      then Ok (s, \<lparr>sent = None, posted = Some (utc_ms_next_send s - now)\<rparr>)
      else omap (\<lambda>(compound, s). let interval = ucast (rtcp_report_interval_ms (rs_config s)) in
        (s\<lparr>utc_ms_next_send := now + interval\<rparr>, \<lparr>sent = Some compound, posted = Some interval\<rparr>))
       (build_rtcp No_Info cb s))"

end
