(* ===== verification/Transport_Address.thy ===== *)
theory Transport_Address
  imports Byte_Io
begin

text \<open>
  \<open>TransportAddressImpl\<close> of \<open>src/session/qosrtp_session_impl.h/.cc\<close> and \<open>TransportAddress::Create\<close> of
  \<open>src/session/qosrtp_session.cc\<close>: the addresses a session is configured with. \<open>inet_pton\<close> is the
  parameter \<open>pton\<close>, and the address family numbers of the platform the parameter \<open>code\<close>. The bytes
  of an \<open>in_addr\<close> are a list of four, those of an \<open>in6_addr\<close> a list of sixteen.
\<close>

datatype transport_type = kUnknown | kUdp | kTcp

datatype ip_family = AF_UNSPEC | AF_INET | AF_INET6

record transport_address =
  ta_ip :: string
  ta_port :: u16
  ta_type :: transport_type
  ta_family :: ip_family
  ta_ipv4 :: bytes
  ta_ipv6 :: bytes

definition address_new :: transport_address where
  "address_new = \<lparr>ta_ip = '''', ta_port = 5555, ta_type = kUnknown, ta_family = AF_UNSPEC,
     ta_ipv4 = replicate 4 0, ta_ipv6 = replicate 16 0\<rparr>"

text \<open>The result of \<open>ParseIpAddress\<close>: whether it is an address, and the object.\<close>

definition ParseIpAddress ::
  "(ip_family \<Rightarrow> string \<Rightarrow> bytes option) \<Rightarrow> string \<Rightarrow> transport_address \<Rightarrow> bool \<times> transport_address" where
  "ParseIpAddress pton ip a =
     (case pton AF_INET ip of Some b \<Rightarrow> (True, a\<lparr>ta_ipv4 := b, ta_family := AF_INET\<rparr>)
      | None \<Rightarrow> (case pton AF_INET6 ip of Some b \<Rightarrow> (True, a\<lparr>ta_ipv6 := b, ta_family := AF_INET6\<rparr>)
          | None \<Rightarrow> (False, a)))"

definition AssignIp ::
  "(ip_family \<Rightarrow> string \<Rightarrow> bytes option) \<Rightarrow> string \<Rightarrow> transport_address \<Rightarrow> bool \<times> transport_address" where
  "AssignIp pton ip a =
     (case ParseIpAddress pton ip a of (valid, a') \<Rightarrow>
        if \<not> valid then (False, a') else (True, a'\<lparr>ta_ip := ip\<rparr>))"

definition AssignPort :: "u16 \<Rightarrow> transport_address \<Rightarrow> transport_address" where
  "AssignPort port a = a\<lparr>ta_port := port\<rparr>"

definition SetTransportProtocolType :: "transport_type \<Rightarrow> transport_address \<Rightarrow> transport_address" where
  "SetTransportProtocolType t a = a\<lparr>ta_type := t\<rparr>"

definition address_Create ::
  "(ip_family \<Rightarrow> string \<Rightarrow> bytes option) \<Rightarrow> string \<Rightarrow> u16 \<Rightarrow> transport_type \<Rightarrow> transport_address option" where
  "address_Create pton ip port t =
     (case AssignIp pton ip address_new of (valid, a) \<Rightarrow>
        if \<not> valid then None else Some (AssignPort port (SetTransportProtocolType t a)))"

text \<open>
  \<open>SaveToSockAddr\<close> writes the fields of a \<open>sockaddr_in\<close> or \<open>sockaddr_in6\<close> into the memory of the
  object it is given: the family in host order (little-endian on the platforms of the code), the port
  in network order, the address at offset 4 or 8.
\<close>

definition SaveToSockAddr ::
  "(ip_family \<Rightarrow> u16) \<Rightarrow> transport_address \<Rightarrow> bytes \<Rightarrow> ('e, bytes) outcome" where
  "SaveToSockAddr code a sock_addr =
     (if ta_family a = AF_INET then
        obind (put_bytes 0 (WriteLittleEndian 2 (code AF_INET)) sock_addr) (\<lambda>m.
        obind (put_bytes 2 (WriteBigEndian 2 (ta_port a)) m) (put_bytes 4 (ta_ipv4 a)))
      else if ta_family a = AF_INET6 then
        obind (put_bytes 0 (WriteLittleEndian 2 (code AF_INET6)) sock_addr) (\<lambda>m.
        obind (put_bytes 2 (WriteBigEndian 2 (ta_port a)) m) (put_bytes 8 (ta_ipv6 a)))
      else Ok sock_addr)"

section \<open>Properties\<close>

text \<open>The sizes that \<open>inet_pton\<close> writes.\<close>

definition pton_sizes :: "(ip_family \<Rightarrow> string \<Rightarrow> bytes option) \<Rightarrow> bool" where
  "pton_sizes pton \<longleftrightarrow> (\<forall>ip b. (pton AF_INET ip = Some b \<longrightarrow> length b = 4) \<and> (pton AF_INET6 ip = Some b \<longrightarrow> length b = 16))"

definition address_ok :: "transport_address \<Rightarrow> bool" where
  "address_ok a \<longleftrightarrow> length (ta_ipv4 a) = 4 \<and> length (ta_ipv6 a) = 16"

lemma address_Create_ok:
  assumes "pton_sizes pton" and "address_Create pton ip port t = Some a"
  shows "address_ok a \<and> ta_type a = t \<and> ta_port a = port \<and> ta_ip a = ip \<and> ta_family a \<noteq> AF_UNSPEC"
  using assms
  by (auto simp: address_Create_def AssignIp_def ParseIpAddress_def pton_sizes_def address_ok_def address_new_def
      AssignPort_def SetTransportProtocolType_def split: option.splits if_splits prod.splits)

text \<open>A \<open>sockaddr\<close> has 16 bytes: an IPv4 address fits, an IPv6 address does not.\<close>

lemma SaveToSockAddr_ipv4:
  assumes "ta_family a = AF_INET" and "address_ok a" and "length m = 16"
  shows "SaveToSockAddr code a m
    = Ok (WriteLittleEndian 2 (code AF_INET) @ WriteBigEndian 2 (ta_port a) @ ta_ipv4 a @ drop 8 m)"
  using assms by (simp add: SaveToSockAddr_def put_bytes_def address_ok_def)

lemma SaveToSockAddr_ipv6:
  assumes "ta_family a = AF_INET6" and "address_ok a" and "length m = 16"
  shows "SaveToSockAddr code a m = Crash Out_Of_Bounds"
  using assms by (simp add: SaveToSockAddr_def put_bytes_def address_ok_def)

end
