(* ===== verification/Session_Config.thy ===== *)
theory Session_Config
  imports Rtcp_Sender Transport_Address "HOL-Library.List_Lexorder" "HOL-Library.Char_ord"
begin

text \<open>
  The configuration classes of \<open>src/session/qosrtp_session_impl.h/.cc\<close>: \<open>RtxConfigImpl\<close>,
  \<open>MediaSessionConfigImpl\<close> with the checks of \<open>Configure\<close>, and \<open>QosrtpSessionConfigImpl\<close>. A pointer
  parameter that may be null is an option. Addresses are in theory
  \<open>Transport_Address\<close>.
\<close>

section \<open>RtxConfigImpl\<close>

text \<open>\<open>std::map\<close> as the list of its pairs in the order of the keys.\<close>

fun map_assign :: "'k::linorder \<Rightarrow> 'v \<Rightarrow> ('k \<times> 'v) list \<Rightarrow> ('k \<times> 'v) list" where
  "map_assign k v [] = [(k, v)]"
| "map_assign k v ((k', v') # m) =
     (if k < k' then (k, v) # (k', v') # m
      else if k = k' then (k, v) # m
      else (k', v') # map_assign k v m)"

definition map_erase :: "'k \<Rightarrow> ('k \<times> 'v) list \<Rightarrow> ('k \<times> 'v) list" where
  "map_erase k m = filter (\<lambda>e. fst e \<noteq> k) m"

record rtx_config =
  rtx_max_diff :: u16
  rtx_config_ssrc :: u32
  rtx_types :: "(u8 \<times> u8) list"

definition rtx_config_new :: rtx_config where
  "rtx_config_new = \<lparr>rtx_max_diff = 0, rtx_config_ssrc = 0, rtx_types = []\<rparr>"

definition rtx_Configure :: "u16 \<Rightarrow> u32 \<Rightarrow> rtx_config \<Rightarrow> rtx_config" where
  "rtx_Configure max_diff s c = c\<lparr>rtx_config_ssrc := s, rtx_max_diff := max_diff\<rparr>"

definition AddRtxAndAssociatedPayloadType :: "u8 \<Rightarrow> u8 \<Rightarrow> rtx_config \<Rightarrow> rtx_config option" where
  "AddRtxAndAssociatedPayloadType rtx_pt associated_pt c =
     (let max_payload_type = drop_bit 1 0xff in
      if rtx_pt > max_payload_type \<or> associated_pt > max_payload_type then None
      else Some (c\<lparr>rtx_types := map_assign rtx_pt associated_pt (rtx_types c)\<rparr>))"

definition DeleteRtxAndAssociatedPayloadType :: "u8 \<Rightarrow> rtx_config \<Rightarrow> rtx_config" where
  "DeleteRtxAndAssociatedPayloadType rtx_pt c = c\<lparr>rtx_types := map_erase rtx_pt (rtx_types c)\<rparr>"

definition ClearRtxPayload :: "rtx_config \<Rightarrow> rtx_config" where
  "ClearRtxPayload c = c\<lparr>rtx_types := []\<rparr>"

text \<open>The copy \<open>MediaSessionConfigImpl::Configure\<close> makes of a configuration it is given.\<close>

definition copy_rtx_config :: "rtx_config \<Rightarrow> rtx_config" where
  "copy_rtx_config c = fold (\<lambda>(rtx_pt, pt) q. case AddRtxAndAssociatedPayloadType rtx_pt pt q of Some q' \<Rightarrow> q' | None \<Rightarrow> q)
     (rtx_types c) (rtx_Configure (rtx_max_diff c) (rtx_config_ssrc c) rtx_config_new)"

section \<open>MediaSessionConfigImpl\<close>

record media_config =
  mc_rtcp_report_interval_ms :: s32
  mc_rtp_clock_rate_hz_local :: u32
  mc_rtp_clock_rate_hz_remote :: u32
  mc_ssrc_media_local :: u32
  mc_ssrc_media_remote :: u32
  mc_max_cache_duration_ms :: u16
  mc_direction :: direction
  mc_rtx_config_local :: "rtx_config option"
  mc_rtx_config_remote :: "rtx_config option"
  mc_rtp_payload_types_local :: "u8 list"
  mc_rtp_payload_types_remote :: "u8 list"
  mc_has_callback :: bool

definition media_config_new :: media_config where
  "media_config_new = \<lparr>mc_rtcp_report_interval_ms = 0, mc_rtp_clock_rate_hz_local = 0,
     mc_rtp_clock_rate_hz_remote = 0, mc_ssrc_media_local = 0, mc_ssrc_media_remote = 0,
     mc_max_cache_duration_ms = 0, mc_direction = SendRecv, mc_rtx_config_local = None,
     mc_rtx_config_remote = None, mc_rtp_payload_types_local = [], mc_rtp_payload_types_remote = [],
     mc_has_callback = False\<rparr>"

text \<open>The parameters of \<open>Configure\<close>.\<close>

record configure_args =
  arg_ssrc_local :: u32
  arg_rtx_local :: "rtx_config option"
  arg_clock_local :: "u32 option"
  arg_types_local :: "u8 list option"
  arg_ssrc_remote :: u32
  arg_rtx_remote :: "rtx_config option"
  arg_clock_remote :: "u32 option"
  arg_types_remote :: "u8 list option"
  arg_cache_ms :: "u16 option"
  arg_direction :: direction
  arg_interval_ms :: s32
  arg_callback :: bool

datatype config_error =
    Callback_Empty
  | Incomplete_Parameters
  | Clock_Rate_Zero
  | Payload_Types_Empty
  | Payload_Type_Too_Big
  | Duplicate_Ssrc

text \<open>The loops of \<open>AreAnySsrcsEqual\<close>: both start behind the first element.\<close>

fun has_duplicate :: "u32 list \<Rightarrow> bool" where
  "has_duplicate [] = False"
| "has_duplicate (s # ss) = (list_ex ((=) s) ss \<or> has_duplicate ss)"

definition AreAnySsrcsEqual :: "u32 list \<Rightarrow> bool" where
  "AreAnySsrcsEqual ssrcs = (if ssrcs = [] then False else has_duplicate (drop 1 ssrcs))"

definition check_stream :: "u32 option \<Rightarrow> u8 list option \<Rightarrow> bool \<Rightarrow> config_error option" where
  "check_stream clock types others =
     (case (clock, types) of
        (Some hz, Some pts) \<Rightarrow>
          if \<not> others then Some Incomplete_Parameters
          else if hz = 0 then Some Clock_Rate_Zero
          else if pts = [] then Some Payload_Types_Empty
          else if list_ex (\<lambda>pt. pt > 0x7f) pts then Some Payload_Type_Too_Big
          else None
      | _ \<Rightarrow> Some Incomplete_Parameters)"

definition check_args :: "configure_args \<Rightarrow> config_error option" where
  "check_args a =
     (if \<not> arg_callback a then Some Callback_Empty
      else
        let send = (if arg_direction a \<noteq> RecvOnly then check_stream (arg_clock_local a) (arg_types_local a) True else None);
            recv = (if arg_direction a \<noteq> SendOnly
                    then check_stream (arg_clock_remote a) (arg_types_remote a) (arg_cache_ms a \<noteq> None) else None);
            ssrcs = [arg_ssrc_local a, arg_ssrc_remote a]
              @ (case arg_rtx_local a of None \<Rightarrow> [] | Some c \<Rightarrow> [rtx_config_ssrc c])
              @ (case arg_rtx_remote a of None \<Rightarrow> [] | Some c \<Rightarrow> [rtx_config_ssrc c])
        in if send \<noteq> None then send
           else if recv \<noteq> None then recv
           else if AreAnySsrcsEqual ssrcs then Some Duplicate_Ssrc
           else None)"

text \<open>The assignments: what a null parameter stands for keeps its old value.\<close>

definition assign_some :: "'a option \<Rightarrow> 'a \<Rightarrow> 'a" where
  "assign_some x old = (case x of None \<Rightarrow> old | Some v \<Rightarrow> v)"

definition Configure :: "configure_args \<Rightarrow> media_config \<Rightarrow> (config_error, media_config) outcome" where
  "Configure a c =
     (case check_args a of Some e \<Rightarrow> Failed e
      | None \<Rightarrow> Ok (c\<lparr>mc_direction := arg_direction a, mc_ssrc_media_local := arg_ssrc_local a,
          mc_ssrc_media_remote := arg_ssrc_remote a,
          mc_rtx_config_local := (case arg_rtx_local a of None \<Rightarrow> mc_rtx_config_local c | Some r \<Rightarrow> Some (copy_rtx_config r)),
          mc_rtx_config_remote := (case arg_rtx_remote a of None \<Rightarrow> mc_rtx_config_remote c | Some r \<Rightarrow> Some (copy_rtx_config r)),
          mc_rtcp_report_interval_ms := arg_interval_ms a, mc_has_callback := True,
          mc_max_cache_duration_ms := assign_some (arg_cache_ms a) (mc_max_cache_duration_ms c),
          mc_rtp_clock_rate_hz_local := assign_some (arg_clock_local a) (mc_rtp_clock_rate_hz_local c),
          mc_rtp_payload_types_local := assign_some (arg_types_local a) (mc_rtp_payload_types_local c),
          mc_rtp_clock_rate_hz_remote := assign_some (arg_clock_remote a) (mc_rtp_clock_rate_hz_remote c),
          mc_rtp_payload_types_remote := assign_some (arg_types_remote a) (mc_rtp_payload_types_remote c)\<rparr>))"

section \<open>QosrtpSessionConfigImpl\<close>

text \<open>Names are the keys of a \<open>std::map\<close>; the map owns its media configurations, of which one may be
  null.\<close>

record session_config =
  sc_address_local :: "transport_address option"
  sc_address_remote :: "transport_address option"
  sc_cname :: bytes
  sc_media :: "(string \<times> media_config option) list"

definition session_config_new :: session_config where
  "session_config_new = \<lparr>sc_address_local = None, sc_address_remote = None, sc_cname = [], sc_media = []\<rparr>"

definition session_Configure ::
  "transport_address option \<Rightarrow> transport_address option \<Rightarrow> bytes \<Rightarrow> session_config \<Rightarrow> session_config" where
  "session_Configure local remote name s =
     s\<lparr>sc_address_local := local, sc_address_remote := remote, sc_cname := name\<rparr>"

definition AddMediaSessionConfig :: "string \<Rightarrow> media_config option \<Rightarrow> session_config \<Rightarrow> session_config" where
  "AddMediaSessionConfig name c s = s\<lparr>sc_media := map_assign name c (sc_media s)\<rparr>"

definition DeleteMediaSessionConfig :: "string \<Rightarrow> session_config \<Rightarrow> session_config" where
  "DeleteMediaSessionConfig name s = s\<lparr>sc_media := map_erase name (sc_media s)\<rparr>"

definition ClearMediaSessionConfig :: "session_config \<Rightarrow> session_config" where
  "ClearMediaSessionConfig s = s\<lparr>sc_media := []\<rparr>"

section \<open>What a configuration that is accepted satisfies\<close>

lemma set_map_assign: "set (map fst (map_assign k v m)) = insert k (set (map fst m))"
  by (induction k v m rule: map_assign.induct) auto

lemma sorted_map_assign:
  "sorted_wrt (<) (map fst m) \<Longrightarrow> sorted_wrt (<) (map fst (map_assign k v m))"
proof (induction k v m rule: map_assign.induct)
  case (2 k v k' v' m)
  have "k' < x" if "x \<in> set (map fst (map_assign k v m))" "\<not> k < k'" "k \<noteq> k'" for x
    using that 2(2) set_map_assign [of k v m] by auto
  then show ?case using 2 by auto
qed simp

lemma map_of_assign:
  "sorted_wrt (<) (map fst m) \<Longrightarrow> map_of (map_assign k v m) = (map_of m)(k \<mapsto> v)"
  by (induction k v m rule: map_assign.induct) (auto simp: fun_eq_iff)

lemma has_duplicate_iff: "has_duplicate ss \<longleftrightarrow> \<not> distinct ss"
  by (induction ss) (auto simp: list_ex_iff)

text \<open>The map of a \<open>RtxConfig\<close>: keys in order, payload types of seven bits.\<close>

definition rtx_ok :: "rtx_config \<Rightarrow> bool" where
  "rtx_ok c \<longleftrightarrow> sorted_wrt (<) (map fst (rtx_types c))
     \<and> (\<forall>(rtx_pt, pt) \<in> set (rtx_types c). rtx_pt \<le> 0x7f \<and> pt \<le> 0x7f)"

datatype rtx_op = Rtx_Configure u16 u32 | Rtx_Add u8 u8 | Rtx_Delete u8 | Rtx_Clear

fun rtx_step :: "rtx_op \<Rightarrow> rtx_config \<Rightarrow> rtx_config" where
  "rtx_step (Rtx_Configure n s) c = rtx_Configure n s c"
| "rtx_step (Rtx_Add k v) c = (case AddRtxAndAssociatedPayloadType k v c of Some c' \<Rightarrow> c' | None \<Rightarrow> c)"
| "rtx_step (Rtx_Delete k) c = DeleteRtxAndAssociatedPayloadType k c"
| "rtx_step Rtx_Clear c = ClearRtxPayload c"

lemma max_payload_type: "drop_bit 1 0xff = (0x7f :: u8)"
  by (simp add: drop_bit_eq_div)

lemma map_assign_values: "(k', v') \<in> set (map_assign k v m) \<Longrightarrow> (k', v') = (k, v) \<or> (k', v') \<in> set m"
  by (induction k v m rule: map_assign.induct) (auto split: if_splits)

lemma rtx_step_ok: "rtx_ok c \<Longrightarrow> rtx_ok (rtx_step op c)"
  by (cases op)
    (auto simp: rtx_ok_def rtx_Configure_def AddRtxAndAssociatedPayloadType_def Let_def max_payload_type
      DeleteRtxAndAssociatedPayloadType_def ClearRtxPayload_def map_erase_def not_less sorted_wrt_map
      intro: sorted_wrt_filter sorted_map_assign [unfolded sorted_wrt_map] dest!: map_assign_values)

lemma map_assign_last: "\<forall>x \<in> set m. fst x < k \<Longrightarrow> map_assign k v m = m @ [(k, v)]"
  by (induction k v m rule: map_assign.induct) auto

lemma copy_types:
  assumes "sorted_wrt (<) (map fst (done @ todo))" and "\<forall>(k, v) \<in> set todo. k \<le> 0x7f \<and> v \<le> 0x7f"
  shows "fold (\<lambda>(rtx_pt, pt) q. case AddRtxAndAssociatedPayloadType rtx_pt pt q of Some q' \<Rightarrow> q' | None \<Rightarrow> q)
    todo (c\<lparr>rtx_types := done\<rparr>) = c\<lparr>rtx_types := done @ todo\<rparr>"
  using assms
proof (induction todo arbitrary: "done")
  case (Cons e todo)
  obtain k v where e: "e = (k, v)" by fastforce
  have "map_assign k v done = done @ [(k, v)]"
    using Cons.prems(1) e by (intro map_assign_last) (auto simp: sorted_wrt_append)
  then have "AddRtxAndAssociatedPayloadType k v (c\<lparr>rtx_types := done\<rparr>) = Some (c\<lparr>rtx_types := done @ [e]\<rparr>)"
    using Cons.prems(2) e by (simp add: AddRtxAndAssociatedPayloadType_def Let_def max_payload_type not_less)
  then show ?case using Cons.IH [of "done @ [e]"] Cons.prems e by simp
qed simp

text \<open>C40: A RTX configuration keeps its payload types in the order of the map and below 128 under every
  sequence of calls, and the copy a media session takes of it is equal to it.\<close>

theorem rtx_config_copied:
  "rtx_ok (fold rtx_step ops rtx_config_new)
    \<and> copy_rtx_config (fold rtx_step ops rtx_config_new) = fold rtx_step ops rtx_config_new"
proof -
  let ?c = "fold rtx_step ops rtx_config_new"
  have "rtx_ok c \<Longrightarrow> rtx_ok (fold rtx_step ops c)" for c
    by (induction ops arbitrary: c) (auto simp: rtx_step_ok)
  moreover have "rtx_ok rtx_config_new" by (simp add: rtx_ok_def rtx_config_new_def)
  ultimately have ok: "rtx_ok ?c" by blast
  have "rtx_Configure (rtx_max_diff ?c) (rtx_config_ssrc ?c) rtx_config_new = ?c\<lparr>rtx_types := []\<rparr>"
    by (simp add: rtx_Configure_def rtx_config_new_def)
  then have "copy_rtx_config ?c = ?c\<lparr>rtx_types := rtx_types ?c\<rparr>"
    using copy_types [of "[]" "rtx_types ?c" ?c] ok by (simp add: copy_rtx_config_def rtx_ok_def)
  with ok show ?thesis by simp
qed

definition stream_ok :: "u32 option \<Rightarrow> u8 list option \<Rightarrow> bool" where
  "stream_ok clock types \<longleftrightarrow> (\<exists>hz pts. clock = Some hz \<and> types = Some pts \<and> 0 < hz \<and> pts \<noteq> []
     \<and> \<not> list_ex (\<lambda>pt. pt > 0x7f) pts)"

lemma check_stream_None: "check_stream clock types others = None \<longleftrightarrow> others \<and> stream_ok clock types"
  by (auto simp: check_stream_def stream_ok_def word_neq_0_conv split: option.splits)

lemma first_error:
  "(if \<not> c then Some e else if s \<noteq> None then s else if r \<noteq> None then r else if d then Some e' else None) = None
    \<longleftrightarrow> c \<and> s = None \<and> r = None \<and> \<not> d"
  by auto

lemma if_None: "(if p then x else None) = None \<longleftrightarrow> (p \<longrightarrow> x = None)"
  by simp

lemma tail_ssrcs: "AreAnySsrcsEqual ([l, r] @ ss) \<longleftrightarrow> \<not> distinct (r # ss)"
  by (simp add: AreAnySsrcsEqual_def has_duplicate_iff del: distinct.simps)

text \<open>C30: \<open>Configure\<close> accepts exactly the parameters with a callback, complete and valid streams for the
  directions used, and a remote SSRC and RTX SSRCs that differ from each other; the local media SSRC is
  compared with none of them.\<close>

theorem configure_accepts_iff:
  "(\<exists>c'. Configure a c = Ok c') \<longleftrightarrow>
    arg_callback a
    \<and> (arg_direction a \<noteq> RecvOnly \<longrightarrow> stream_ok (arg_clock_local a) (arg_types_local a))
    \<and> (arg_direction a \<noteq> SendOnly \<longrightarrow> arg_cache_ms a \<noteq> None \<and> stream_ok (arg_clock_remote a) (arg_types_remote a))
    \<and> distinct (arg_ssrc_remote a # (case arg_rtx_local a of None \<Rightarrow> [] | Some r \<Rightarrow> [rtx_config_ssrc r])
        @ (case arg_rtx_remote a of None \<Rightarrow> [] | Some r \<Rightarrow> [rtx_config_ssrc r]))"
proof -
  have "(\<exists>c'. Configure a c = Ok c') \<longleftrightarrow> check_args a = None"
    by (simp add: Configure_def split: option.split)
  also have "\<dots> \<longleftrightarrow> arg_callback a
    \<and> (arg_direction a \<noteq> RecvOnly \<longrightarrow> stream_ok (arg_clock_local a) (arg_types_local a))
    \<and> (arg_direction a \<noteq> SendOnly \<longrightarrow> arg_cache_ms a \<noteq> None \<and> stream_ok (arg_clock_remote a) (arg_types_remote a))
    \<and> distinct (arg_ssrc_remote a # (case arg_rtx_local a of None \<Rightarrow> [] | Some r \<Rightarrow> [rtx_config_ssrc r])
        @ (case arg_rtx_remote a of None \<Rightarrow> [] | Some r \<Rightarrow> [rtx_config_ssrc r]))"
    unfolding check_args_def Let_def
    by (subst first_error) (simp only: if_None check_stream_None tail_ssrcs simp_thms)
  finally show ?thesis .
qed

theorem configure_accepts_iff_witness:
  "\<exists>c'. Configure \<lparr>arg_ssrc_local = 7, arg_rtx_local = Some (rtx_config_new\<lparr>rtx_config_ssrc := 8\<rparr>),
     arg_clock_local = Some 90000, arg_types_local = Some [96], arg_ssrc_remote = 7, arg_rtx_remote = None,
     arg_clock_remote = None, arg_types_remote = None, arg_cache_ms = None, arg_direction = SendOnly,
     arg_interval_ms = 1000, arg_callback = True\<rparr> media_config_new = Ok c'"
  by (subst configure_accepts_iff) (simp add: stream_ok_def rtx_config_new_def)

end
