(* ===== verification/Rtcp_Exchange.thy ===== *)
theory Rtcp_Exchange
  imports Rtcp_Sender
begin

text \<open>
  The RTCP path from end to end: what \<open>RtcpSender\<close> builds, \<open>RtpRtcpTranceiverImpl::SendRtcp\<close> writes,
  and the peer's \<open>RtcpReceiver\<close> makes of the datagram. The compound packets are well formed whatever
  the callback answers; NACK lists and BYEs reach the peer's callback unchanged in a one-way
  session; in a two-way session the peer dereferences a null pointer.
\<close>

section \<open>Compound packets are well formed\<close>

definition info_ok :: "send_info \<Rightarrow> bool" where
  "info_ok info = (case info of Nack_Info seqs \<Rightarrow> seqs \<noteq> [] \<and> length seqs \<le> 65533 | _ \<Rightarrow> True)"

lemma set_blocks_single [simp]: "set_blocks [b] = [b]" "set_blocks [] = []"
  by (simp_all add: set_blocks_def SetReportBlocks_def)

lemma sdes_packet_chunk:
  assumes "length (local_cname c) \<le> 255"
  shows "\<exists>p. sdes_packet c = Sdes_Packet p \<and> chunks p = [\<lparr>chunk_ssrc = rtcp_local_ssrc c, cname = local_cname c\<rparr>]
    \<and> sdes_wf p"
  using assms by (simp add: sdes_packet_def AddCName_def sdes_empty_def sdes_wf_def Let_def)

text \<open>The parts of a compound: report, SDES, and what was asked for.\<close>

definition report_of :: "rtcp_packet \<Rightarrow> u32 \<Rightarrow> bool \<Rightarrow> report_block option list \<Rightarrow> bool" where
  "report_of p s is_sr blocks = (case p of
     Sr_Packet q \<Rightarrow> is_sr \<and> sr_sender_ssrc q = s \<and> sr_blocks q = blocks
   | Rr_Packet q \<Rightarrow> \<not> is_sr \<and> rr_sender_ssrc q = s \<and> rr_blocks q = blocks
   | _ \<Rightarrow> False)"

lemma refresh_flags_config [simp]: "rs_config (refresh_flags cb s) = rs_config s"
  by (simp add: refresh_flags_def Let_def)

lemma build_rtcp_parts:
  assumes "build_rtcp info cb s = Ok ((ps, is_bye), s')"
  obtains report blocks where "ps = report # sdes_packet (rs_config s) # info_packets info (rs_config s)"
    and "report_of report (rtcp_local_ssrc (rs_config s)) (has_sent_rtp s') blocks"
    and "blocks = [] \<longleftrightarrow> \<not> has_received_rtp s'" and "length blocks \<le> 1" and "None \<notin> set blocks"
    and "rs_config s' = rs_config s" and "has_sent_rtcp s'" and "has_sent_bye s' = has_sent_bye s"
    and "is_bye \<longleftrightarrow> info = Bye_Info" and "utc_ms_next_send s' = utc_ms_next_send s"
  using assms
  by (auto simp: build_rtcp_def Let_def obind_eq_Ok_conv omap_eq_Ok_conv report_blocks_of_def
      report_packet_def report_of_def refresh_flags_def split: if_splits option.splits)

lemma info_packets_wf:
  "info_ok info \<Longrightarrow> \<forall>p \<in> set (info_packets info c). packet_wf p"
  using pack_ids_length
  by (cases info) (auto simp: info_ok_def bye_wf_def bye_new_def nack_wf_def SetPacketIds_def nack_empty_def
      pack_ids_Nil_iff intro: order_trans)

lemma packets_fit:
  assumes "\<forall>p \<in> set ps. packet_wf p" and "length ps \<le> 3"
  shows "(\<Sum>p\<leftarrow>ps. rtcp_BlockLength p) < 2 ^ 32"
proof -
  have "rtcp_BlockLength p \<le> 262148" if "p \<in> set ps" for p
    using packet_lengths [of p] assms(1) that by auto
  then have "(\<Sum>p\<leftarrow>ps. rtcp_BlockLength p) \<le> 262148 * length ps"
    by (induction ps) (auto simp: algebra_simps, fastforce)
  with assms(2) show ?thesis by simp
qed

lemma build_rtcp_wf:
  assumes "build_rtcp info cb s = Ok ((ps, is_bye), s')" and "length (local_cname (rs_config s)) \<le> 255"
    and "info_ok info"
  shows "\<forall>p \<in> set ps. packet_wf p" and "(\<Sum>p\<leftarrow>ps. rtcp_BlockLength p) < 2 ^ 32" and "ps \<noteq> []"
proof -
  obtain report blocks where ps: "ps = report # sdes_packet (rs_config s) # info_packets info (rs_config s)"
    and "report_of report (rtcp_local_ssrc (rs_config s)) (has_sent_rtp s') blocks"
    and "length blocks \<le> 1" and "None \<notin> set blocks"
    using build_rtcp_parts [OF assms(1)] .
  then have "packet_wf report" by (cases report) (simp_all add: report_of_def blocks_wf_def)
  moreover obtain q where "sdes_packet (rs_config s) = Sdes_Packet q" "packet_wf (Sdes_Packet q)"
    using sdes_packet_chunk [OF assms(2)] by auto
  ultimately show wf: "\<forall>p \<in> set ps. packet_wf p" using info_packets_wf [OF assms(3)] ps by simp
  moreover have "length ps \<le> 3" using ps by (cases info) simp_all
  ultimately show "(\<Sum>p\<leftarrow>ps. rtcp_BlockLength p) < 2 ^ 32" by (rule packets_fit)
  show "ps \<noteq> []" using ps by simp
qed

lemma live_packets_Some [simp]: "live_packets (map Some ps) = ps"
  by (induction ps) (simp_all add: live_packets_def)


text \<open>A SendNack with numbers from a new instance at the first RTP packets received.\<close>

definition sample_sender_config :: rtcp_sender_config where
  "sample_sender_config = \<lparr>rtcp_local_ssrc = 1, rtcp_remote_ssrc = 2, local_cname = [97, 98],
     rtcp_report_interval_ms = 1000, rtcp_direction = SendRecv\<rparr>"

definition sample_callback :: "bool \<Rightarrow> sender_callback" where
  "sample_callback sent_rtp = \<lparr>HasSentRtp = sent_rtp, HasReceivedRtp = True, HasReceivedBye = False,
     GetRemoteSenderInfo = Some (remote_info_new\<lparr>ri_extended_seq_num := 30010, ri_first_extended_seq_num := 30000\<rparr>),
     GetLocalSenderInfo = Some \<lparr>li_ntp_now = 5, li_rtp_timestamp_now = 6, li_sender_packet_count = 7,
       li_sender_octet_count = 8\<rparr>\<rparr>"

definition sample_build :: "send_info \<Rightarrow> bool \<Rightarrow> (rtcp_packet list \<times> bool) \<times> rtcp_sender" where
  "sample_build info sent_rtp =
     (case build_rtcp info (sample_callback sent_rtp) (rtcp_sender_new sample_sender_config) of Ok x \<Rightarrow> x
      | _ \<Rightarrow> (([], False), rtcp_sender_new sample_sender_config))"

lemma sample_build_Ok:
  "build_rtcp info (sample_callback sent_rtp) (rtcp_sender_new sample_sender_config)
     = Ok ((fst (fst (sample_build info sent_rtp)), snd (fst (sample_build info sent_rtp))),
           snd (sample_build info sent_rtp))"
  by (simp add: sample_build_def build_rtcp_def Let_def report_blocks_of_def report_packet_def refresh_flags_def
      rtcp_sender_new_def sample_sender_config_def sample_callback_def)

lemma sample_build_flags:
  "has_sent_rtp (snd (sample_build info sent_rtp)) = sent_rtp" "has_received_rtp (snd (sample_build info sent_rtp))"
  by (simp_all add: sample_build_def build_rtcp_def Let_def report_blocks_of_def report_packet_def refresh_flags_def
      rtcp_sender_new_def sample_sender_config_def sample_callback_def)


section \<open>What the peer makes of it\<close>

definition expects_ssrc :: "u32 \<Rightarrow> rtcp_receiver \<Rightarrow> bool" where
  "expects_ssrc s r = (case receiver_config r of None \<Rightarrow> False | Some c \<Rightarrow> rcv_remote_ssrc c = s)"

fun info_notifications :: "send_info \<Rightarrow> notification list" where
  "info_notifications No_Info = []"
| "info_notifications Bye_Info = [NotifyByeReceived]"
| "info_notifications (Nack_Info seqs) = [NotifyNackReceived seqs]"

text \<open>A NACK is packed and unpacked on the way.\<close>

fun info_received :: "send_info \<Rightarrow> notification list" where
  "info_received No_Info = []"
| "info_received Bye_Info = [NotifyByeReceived]"
| "info_received (Nack_Info seqs) = [NotifyNackReceived (unpack_ids (pack_ids seqs))]"

lemma info_received_ascending:
  "\<forall>seqs. info = Nack_Info seqs \<longrightarrow> successively IsSeqAfter seqs \<Longrightarrow> info_received info = info_notifications info"
  by (cases info) (simp_all add: unpack_pack_ids)

text \<open>A state that differs from another one only in what the notifications do not show.\<close>

definition same_notice :: "parse_state \<Rightarrow> parse_state \<Rightarrow> bool" where
  "same_notice st st' \<longleftrightarrow> receiver_config (receiver st') = receiver_config (receiver st)
     \<and> has_received_bye (receiver st') = has_received_bye (receiver st) \<and> notifications st' = notifications st"

lemma receive_report:
  assumes "expects_ssrc s (receiver st)" and "report_of p s is_sr blocks" and "\<not> (is_sr \<and> blocks \<noteq> [])"
  shows "\<exists>st'. receive_packet env off p st = Ok st' \<and> same_notice st st'"
  using assms
  by (cases p) (auto simp: report_of_def expects_ssrc_def accept_sr_def accept_rr_def with_remote_ssrc_def set_flag_def
      same_notice_def Let_def split: option.splits)

lemma receive_sdes:
  assumes "expects_ssrc s (receiver st)" and "chunks p = [c]"
  shows "\<exists>st'. receive_packet env off (Sdes_Packet p) st = Ok st' \<and> same_notice st st'"
  using assms
  by (auto simp: expects_ssrc_def accept_sdes_def with_remote_ssrc_def set_flag_def same_notice_def split: option.splits)

lemma receive_info:
  assumes "expects_ssrc (rtcp_local_ssrc c) (receiver st)"
  shows "\<exists>st'. receive_packets env off (info_packets info c) st = Ok st'
    \<and> notifications st' = notifications st @ info_received info
    \<and> has_received_bye (receiver st') = (has_received_bye (receiver st) \<or> info = Bye_Info)"
  using assms
  by (cases info) (auto simp: expects_ssrc_def accept_bye_def accept_nack_def with_remote_ssrc_def set_flag_def
      bye_new_def SetPacketIds_def nack_empty_def Let_def split: option.splits)

lemma on_rtcp_images:
  assumes "\<forall>p \<in> set ps. packet_wf p" and "(\<Sum>p\<leftarrow>ps. rtcp_BlockLength p) < 2 ^ 32"
    and "\<not> has_received_bye r"
  shows "OnRtcpPacket env (Some (concat (map packet_image ps))) r
    = omap (\<lambda>st. (receiver st, notifications st))
        (receive_packets env 0 ps \<lparr>receiver = r, type_flags = 0, notifications = []\<rparr>)"
  using parse_from_images [OF assms(1), of "[]" 0 env header_empty] assms packets.length_images [OF assms(1)]
  by (simp add: OnRtcpPacket_def Parse_def omap_omap)

lemma exchange_result:
  assumes "build_rtcp info cb s = Ok ((ps, is_bye), s')" and "length (local_cname (rs_config s)) \<le> 255"
    and "info_ok info" and "\<not> (has_sent_rtp s' \<and> has_received_rtp s')"
    and "expects_ssrc (rtcp_local_ssrc (rs_config s)) r" and "\<not> has_received_bye r"
  shows "\<exists>r'. OnRtcpPacket env (Some (concat (map packet_image ps))) r = Ok (r', info_received info)
    \<and> has_received_bye r' = (info = Bye_Info)"
proof -
  obtain report blocks where ps: "ps = report # sdes_packet (rs_config s) # info_packets info (rs_config s)"
    and rep: "report_of report (rtcp_local_ssrc (rs_config s)) (has_sent_rtp s') blocks"
    and none: "blocks = [] \<longleftrightarrow> \<not> has_received_rtp s'"
    using build_rtcp_parts [OF assms(1)] .
  let ?st = "\<lparr>receiver = r, type_flags = 0, notifications = []\<rparr>" and ?c = "rs_config s"
  obtain q where q: "sdes_packet ?c = Sdes_Packet q" and ch: "\<exists>c. chunks q = [c]"
    using sdes_packet_chunk [OF assms(2)] by auto
  obtain st1 where st1: "receive_packet env 0 report ?st = Ok st1" "same_notice ?st st1"
    using receive_report [OF _ rep, of ?st env 0] assms(4,5) none by auto
  have ex1: "expects_ssrc (rtcp_local_ssrc ?c) (receiver st1)" using st1(2) assms(5) by (simp add: same_notice_def expects_ssrc_def)
  obtain st2 where st2: "receive_packet env (rtcp_BlockLength report) (sdes_packet ?c) st1 = Ok st2" "same_notice st1 st2"
    using receive_sdes [OF ex1] ch q by auto
  have ex2: "expects_ssrc (rtcp_local_ssrc ?c) (receiver st2)" using st2(2) ex1 by (simp add: same_notice_def expects_ssrc_def)
  obtain st3 where st3: "receive_packets env (rtcp_BlockLength report + rtcp_BlockLength (sdes_packet ?c))
      (info_packets info ?c) st2 = Ok st3"
    and "notifications st3 = notifications st2 @ info_received info"
    and "has_received_bye (receiver st3) = (has_received_bye (receiver st2) \<or> info = Bye_Info)"
    using receive_info [OF ex2, of env _ info] by blast
  moreover have "receive_packets env 0 ps ?st = Ok st3" using ps st1(1) st2(1) st3 by simp
  ultimately show ?thesis
    using build_rtcp_wf [OF assms(1-3)] on_rtcp_images [OF _ _ assms(6)] st1(2) st2(2) assms(6)
    by (simp add: same_notice_def)
qed

text \<open>C10: In a session that does not both send and receive RTP, what \<open>RtcpSender\<close> sends reaches the callback
  of the peer: a NACK list in ascending order arrives as that list, a BYE as one notification, after
  which the peer counts as having received it; a plain report notifies nothing.\<close>

theorem one_way_exchange:
  assumes "build_rtcp info cb s = Ok ((ps, is_bye), s')" and "length (local_cname (rs_config s)) \<le> 255"
    and "info_ok info" and "\<forall>seqs. info = Nack_Info seqs \<longrightarrow> successively IsSeqAfter seqs"
    and "\<not> (has_sent_rtp s' \<and> has_received_rtp s')"
    and "expects_ssrc (rtcp_local_ssrc (rs_config s)) r" and "\<not> has_received_bye r"
  shows "\<exists>datagram r'. SendRtcp fill (map Some ps) = Ok (Some datagram)
    \<and> OnRtcpPacket env (Some datagram) r = Ok (r', info_notifications info)
    \<and> has_received_bye r' = (info = Bye_Info)"
proof -
  have "SendRtcp fill (map Some ps) = Ok (Some (concat (map packet_image ps)))"
    using build_rtcp_wf [OF assms(1-3)] compound_is_concatenation [of "map Some ps" fill] by simp
  moreover have "info_received info = info_notifications info" by (rule info_received_ascending [OF assms(4)])
  ultimately show ?thesis using exchange_result [OF assms(1-3,5-7), of env] by auto
qed

theorem one_way_exchange_witness:
  "\<exists>datagram r'. SendRtcp 0 (map Some (fst (fst (sample_build (Nack_Info [65535, 3]) False)))) = Ok (Some datagram)
    \<and> OnRtcpPacket \<lparr>stale_byte = \<lambda>_. 0, utc_millis = \<lambda>_. 0\<rparr> (Some datagram)
        (rtcp_receiver_new\<lparr>receiver_config := Some \<lparr>rcv_remote_ssrc = 1, rcv_local_ssrc = 2\<rparr>\<rparr>)
      = Ok (r', [NotifyNackReceived [65535, 3]]) \<and> \<not> has_received_bye r'"
  using one_way_exchange [OF sample_build_Ok [of "Nack_Info [65535, 3]" False],
    of "rtcp_receiver_new\<lparr>receiver_config := Some \<lparr>rcv_remote_ssrc = 1, rcv_local_ssrc = 2\<rparr>\<rparr>" 0
       "\<lparr>stale_byte = \<lambda>_. 0, utc_millis = \<lambda>_. 0\<rparr>"]
  by (simp add: sample_sender_config_def rtcp_sender_new_def info_ok_def IsSeqAfter_def IsSeqAfterInRange_def
      expects_ssrc_def rtcp_receiver_new_def sample_build_flags)

text \<open>C39: In a session that both sends and receives RTP, every datagram \<open>RtcpSender\<close> sends makes the
  peer dereference a null pointer: it starts with a sender report with a block, which the peer parses
  into a new object.\<close>

theorem two_way_exchange_crashes:
  assumes "build_rtcp info cb s = Ok ((ps, is_bye), s')" and "length (local_cname (rs_config s)) \<le> 255"
    and "info_ok info" and "has_sent_rtp s'" and "has_received_rtp s'" and "\<not> has_received_bye r"
  shows "\<exists>datagram. SendRtcp fill (map Some ps) = Ok (Some datagram)
    \<and> OnRtcpPacket env (Some datagram) r = Crash Null_Dereference"
proof -
  obtain report blocks where ps: "ps = report # sdes_packet (rs_config s) # info_packets info (rs_config s)"
    and rep: "report_of report (rtcp_local_ssrc (rs_config s)) (has_sent_rtp s') blocks" and "blocks \<noteq> []"
    using build_rtcp_parts [OF assms(1)] assms(5) by metis
  with assms(4) obtain q where "report = Sr_Packet q" "sr_blocks q \<noteq> []"
    by (cases report) (auto simp: report_of_def)
  then have "receive_packets env 0 ps st = Crash Null_Dereference" for st using ps by simp
  then show ?thesis
    using build_rtcp_wf [OF assms(1-3)] compound_is_concatenation [of "map Some ps" fill] on_rtcp_images [OF _ _ assms(6)]
    by simp
qed

theorem two_way_exchange_crashes_witness:
  "\<exists>datagram. SendRtcp 0 (map Some (fst (fst (sample_build No_Info True)))) = Ok (Some datagram)
    \<and> OnRtcpPacket \<lparr>stale_byte = \<lambda>_. 0, utc_millis = \<lambda>_. 0\<rparr> (Some datagram)
        (rtcp_receiver_new\<lparr>receiver_config := Some \<lparr>rcv_remote_ssrc = 1, rcv_local_ssrc = 2\<rparr>\<rparr>)
      = Crash Null_Dereference"
  using two_way_exchange_crashes [OF sample_build_Ok [of No_Info True],
    of "rtcp_receiver_new\<lparr>receiver_config := Some \<lparr>rcv_remote_ssrc = 1, rcv_local_ssrc = 2\<rparr>\<rparr>" 0
       "\<lparr>stale_byte = \<lambda>_. 0, utc_millis = \<lambda>_. 0\<rparr>"]
  by (simp add: sample_sender_config_def rtcp_sender_new_def info_ok_def rtcp_receiver_new_def sample_build_flags)

end
