(* ===== verification/Rtcp_Schedule.thy ===== *)
theory Rtcp_Schedule
  imports Rtcp_Exchange
begin

text \<open>
  When \<open>RtcpSender\<close> sends, and what its reports say: the fraction lost, the schedule of the reports as
  a transition system over the calls of \<open>SendBye\<close>, \<open>SendNack\<close> and the posted \<open>ScheduleSendRtcp\<close>, its
  invariant, and from it that reports keep coming until a BYE and that nothing but a BYE follows a
  BYE. The clock and the armed timer are natural numbers of milliseconds; the transitions require
  that the 64-bit millisecond clock has an interval to go before it wraps.
\<close>

section \<open>The fraction lost\<close>

lemma push_8: "unat (l :: 32 word) < 2 ^ 24 \<Longrightarrow> unat (push_bit 8 l) = 256 * unat l"
  by (simp add: push_bit_eq_mult unat_word_ariths)

text \<open>C34: For a positive loss of at most what was expected, the fraction lost is the loss in 256ths of
  what was expected, rounded down, except that a loss of everything is reported as 0.\<close>

theorem fraction_lost_exact:
  assumes "0 < unat loss" and "unat loss \<le> unat expected" and "unat loss < 2 ^ 23"
  shows "unat (FractionLost expected loss)
    = (if unat loss = unat expected then 0 else 256 * unat loss div unat expected)"
proof -
  let ?q = "256 * unat loss div unat expected"
  have "sint loss = int (unat loss)" using assms(3) by (intro sint_small) simp
  then have pos: "\<not> sint loss \<le> 0" "expected \<noteq> 0" using assms(1,2) by (linarith, force)
  have "unat (push_bit 8 loss div expected) = ?q"
    using push_8 [of loss] assms(3) by (simp add: unat_div)
  then have "unat (FractionLost expected loss) = ?q mod 256"
    using pos by (simp add: FractionLost_def unsigned_ucast_eq take_bit_eq_mod)
  moreover have "?q < 256" if "unat loss \<noteq> unat expected"
    using that assms by (simp add: div_less_iff_less_mult)
  moreover have "?q = 256" if "unat loss = unat expected"
    using that assms by simp
  ultimately show ?thesis by auto
qed

theorem fraction_lost_exact_witness:
  "unat (FractionLost 10 3) = 76 \<and> unat (FractionLost 10 10) = 0"
  using fraction_lost_exact [of 3 10] fraction_lost_exact [of 10 10] by simp

text \<open>When the first compound went out before any RTP was received, the next report block does not
  count the packets expected from the first sequence number but from 0, so its fraction lost is the
  loss over the extended sequence number itself.\<close>

lemma first_block_counts_from_zero:
  assumes "build_rtcp info cb (rtcp_sender_new c) = Ok (compound, s')" and "\<not> HasReceivedRtp cb"
  shows "fraction_lost (make_report_block s' i) = FractionLost (ri_extended_seq_num i) (ri_cumulative_loss i)"
proof -
  have "has_sent_rtcp s' \<and> last_report_remote_sender_info s' = remote_info_new"
    using assms by (auto simp: build_rtcp_def Let_def refresh_flags_def rtcp_sender_new_def report_blocks_of_def
        obind_eq_Ok_conv omap_eq_Ok_conv split: if_splits)
  then show ?thesis
    by (simp add: make_report_block_def Let_def expected_since_def loss_since_def remote_info_new_def)
qed

lemma first_block_counts_from_zero_witness:
  "let cb = (sample_callback False)\<lparr>HasReceivedRtp := False\<rparr>;
       i = remote_info_new\<lparr>ri_extended_seq_num := 30010, ri_first_extended_seq_num := 30000, ri_cumulative_loss := 5\<rparr>
   in case build_rtcp No_Info cb (rtcp_sender_new sample_sender_config) of
     Ok (compound, s') \<Rightarrow> fraction_lost (make_report_block s' i) = FractionLost 30010 5 | _ \<Rightarrow> False"
proof -
  let ?cb = "(sample_callback False)\<lparr>HasReceivedRtp := False\<rparr>"
  obtain compound s' where b: "build_rtcp No_Info ?cb (rtcp_sender_new sample_sender_config) = Ok (compound, s')"
    by (simp add: build_rtcp_def Let_def refresh_flags_def rtcp_sender_new_def report_blocks_of_def
        report_packet_def sample_callback_def sample_sender_config_def)
  show ?thesis
    using first_block_counts_from_zero [OF b, of "remote_info_new\<lparr>ri_extended_seq_num := 30010,
      ri_first_extended_seq_num := 30000, ri_cumulative_loss := 5\<rparr>"] by (simp add: b Let_def)
qed

section \<open>The schedule\<close>

text \<open>
  \<open>armed\<close> is the time for which \<open>ScheduleSendRtcp\<close> is posted, \<open>last_call\<close> the time of the last call,
  \<open>trace\<close> the \<open>is_bye\<close> of the compounds sent so far, and \<open>stopped\<close> whether a call found that the peer
  had said BYE.
\<close>

record timed =
  sender :: rtcp_sender
  armed :: "nat option"
  last_call :: nat
  trace :: "bool list"
  stopped :: bool

definition interval_ms :: "rtcp_sender \<Rightarrow> nat" where
  "interval_ms s = unat (rtcp_report_interval_ms (rs_config s))"

definition after_call :: "nat \<Rightarrow> rtcp_sender \<times> sender_effect \<Rightarrow> bool \<Rightarrow> timed \<Rightarrow> timed" where
  "after_call now x bye_seen w = w\<lparr>sender := fst x, last_call := now,
     trace := trace w @ (case sent (snd x) of None \<Rightarrow> [] | Some c \<Rightarrow> [snd c]),
     stopped := (stopped w \<or> bye_seen)\<rparr>"

text \<open>The timer fires at its time or later; the other calls come at any time.\<close>

inductive sched_step :: "timed \<Rightarrow> timed \<Rightarrow> bool" where
  fire: "sched_step w ((after_call now x (HasReceivedBye cb) w)\<lparr>armed := map_option (\<lambda>d. now + unat d) (posted (snd x))\<rparr>)"
    if "armed w = Some t" and "t \<le> now" and "last_call w \<le> now" and "now + interval_ms (sender w) < 2 ^ 64"
      and "ScheduleSendRtcp (of_nat now) cb (sender w) = Ok x"
| nack: "sched_step w (after_call now x (HasReceivedBye cb) w)"
    if "last_call w \<le> now" and "now + interval_ms (sender w) < 2 ^ 64"
      and "SendNack (of_nat now) seqs cb (sender w) = Ok x"
| bye: "sched_step w (after_call now x (HasReceivedBye cb) w)"
    if "last_call w \<le> now" and "now + interval_ms (sender w) < 2 ^ 64"
      and "SendBye cb (sender w) = Ok x"

inductive sched_reachable :: "timed \<Rightarrow> bool" where
  start: "sched_reachable \<lparr>sender = s, armed = map_option (\<lambda>d. now + unat d) (posted eff), last_call = now, trace = [],
      stopped = False\<rparr>"
    if "rtcp_sender_Initialize (of_nat now) (Some c) = Some (s, eff)"
      and "now + unat (rtcp_report_interval_ms c) < 2 ^ 64"
| step: "sched_reachable w'" if "sched_reachable w" and "sched_step w w'"

lemma build_rtcp_frame:
  assumes "build_rtcp info cb s = Ok (compound, s')"
  shows "rs_config s' = rs_config s \<and> has_sent_bye s' = has_sent_bye s \<and> utc_ms_next_send s' = utc_ms_next_send s
    \<and> snd compound = (info = Bye_Info)"
proof -
  obtain ps is_bye where c: "compound = (ps, is_bye)" by fastforce
  show ?thesis using build_rtcp_parts [OF assms [unfolded c]] c by auto
qed

lemma schedule_cases:
  assumes "ScheduleSendRtcp now cb s = Ok x"
  obtains (off) "has_sent_bye s \<or> HasReceivedBye cb" and "x = (s, no_effect)"
  | (early) "\<not> has_sent_bye s" and "\<not> HasReceivedBye cb" and "now < utc_ms_next_send s"
      and "x = (s, \<lparr>sent = None, posted = Some (utc_ms_next_send s - now)\<rparr>)"
  | (due) compound where "\<not> has_sent_bye s" and "\<not> HasReceivedBye cb" and "utc_ms_next_send s \<le> now"
      and "rs_config (fst x) = rs_config s" and "\<not> has_sent_bye (fst x)" and "\<not> snd compound"
      and "utc_ms_next_send (fst x) = now + ucast (rtcp_report_interval_ms (rs_config s))"
      and "snd x = \<lparr>sent = Some compound, posted = Some (ucast (rtcp_report_interval_ms (rs_config s)))\<rparr>"
  using assms
  by (auto simp: ScheduleSendRtcp_def omap_eq_Ok_conv Let_def not_less no_effect_def split: if_splits
      dest!: build_rtcp_frame)

lemma nack_cases:
  assumes "SendNack now seqs cb s = Ok x"
  obtains (off) "x = (s, no_effect)"
  | (go) compound where "\<not> has_sent_bye s" and "rs_config (fst x) = rs_config s" and "\<not> has_sent_bye (fst x)"
      and "utc_ms_next_send (fst x) = now + ucast (rtcp_report_interval_ms (rs_config s))"
      and "\<not> snd compound" and "snd x = \<lparr>sent = Some compound, posted = None\<rparr>"
  using assms
  by (auto simp: SendNack_def omap_eq_Ok_conv Let_def no_effect_def split: if_splits dest!: build_rtcp_frame)

lemma bye_result:
  assumes "SendBye cb s = Ok x"
  shows "rs_config (fst x) = rs_config s \<and> has_sent_bye (fst x) \<and> (\<exists>c. sent (snd x) = Some c \<and> snd c)"
  using assms by (auto simp: SendBye_def omap_eq_Ok_conv dest!: build_rtcp_frame)

text \<open>While neither side has said BYE, the timer is armed for a time no later than the next report is
  due, which is within an interval of the last call.\<close>

definition timer_ok :: "timed \<Rightarrow> bool" where
  "timer_ok w \<longleftrightarrow> stopped w \<or> has_sent_bye (sender w) \<or>
     (\<exists>t. armed w = Some t \<and> t \<le> unat (utc_ms_next_send (sender w))
        \<and> unat (utc_ms_next_send (sender w)) \<le> last_call w + interval_ms (sender w))"

definition trace_ok :: "timed \<Rightarrow> bool" where
  "trace_ok w \<longleftrightarrow> sorted (trace w) \<and> (has_sent_bye (sender w) \<longleftrightarrow> True \<in> set (trace w))"

lemma unat_u64 [simp]: "unat (ucast (i :: u32) :: u64) = unat i"
  using u32_bound [of i] by (simp add: unsigned_ucast_eq take_bit_nat_eq_self)

lemma clock_add:
  assumes "now + unat (i :: u32) < 2 ^ 64"
  shows "unat (of_nat now + ucast i :: u64) = now + unat i"
proof -
  have "unat (of_nat now :: u64) = now" using assms by (simp add: unat_of_nat)
  then show ?thesis using assms by (simp add: unat_word_ariths)
qed

lemma unat_minus_clock:
  assumes "of_nat now < (n :: u64)" and "now < 2 ^ 64"
  shows "now + unat (n - of_nat now) = unat n"
proof -
  have "unat (of_nat now :: u64) = now" using assms(2) by (simp add: unat_of_nat)
  then show ?thesis using assms(1) by (simp add: unat_sub word_less_nat_alt word_le_nat_alt)
qed

lemma sched_step_ok:
  assumes "sched_step w w'" and "timer_ok w \<and> trace_ok w"
  shows "timer_ok w' \<and> trace_ok w' \<and> rs_config (sender w') = rs_config (sender w)"
  using assms
proof (induction rule: sched_step.induct)
  case (fire w t now x cb)
  note small = fire.hyps(4) [unfolded interval_ms_def]
  show ?case using fire.hyps(5)
  proof (cases rule: schedule_cases)
    case off
    then show ?thesis using fire.prems
      by (auto simp: timer_ok_def trace_ok_def after_call_def no_effect_def)
  next
    case early
    then show ?thesis using fire.prems fire.hyps(1-3) small unat_minus_clock [OF early(3)]
      by (auto simp: timer_ok_def trace_ok_def after_call_def interval_ms_def)
  next
    case (due compound)
    then show ?thesis using fire.prems clock_add [OF small]
      by (auto simp: timer_ok_def trace_ok_def after_call_def interval_ms_def sorted_append clock_add)
  qed
next
  case (nack w now seqs cb x)
  note small = nack.hyps(2) [unfolded interval_ms_def]
  show ?case using nack.hyps(3)
  proof (cases rule: nack_cases)
    case off
    then show ?thesis using nack.prems nack.hyps(1)
      by (auto simp: timer_ok_def trace_ok_def after_call_def no_effect_def interval_ms_def)
  next
    case (go compound)
    then show ?thesis using nack.prems nack.hyps(1) clock_add [OF small]
      by (auto simp: timer_ok_def trace_ok_def after_call_def interval_ms_def sorted_append)
  qed
next
  case (bye w now cb x)
  then show ?case using bye_result [OF bye.hyps(3)]
    by (auto simp: timer_ok_def trace_ok_def after_call_def sorted_append)
qed

lemma sched_invariant: "sched_reachable w \<Longrightarrow> timer_ok w \<and> trace_ok w"
proof (induction rule: sched_reachable.induct)
  case (start now c s eff)
  define i where "i = rtcp_report_interval_ms c"
  have half: "drop_bit 1 (ucast i :: u64) = ucast (drop_bit 1 i)"
    by (rule bit_word_eqI) (auto simp: bit_drop_bit_eq bit_ucast_iff dest: bit_imp_le_length)
  have le: "unat (drop_bit 1 i) \<le> unat i" by (simp add: drop_bit_eq_div unat_div)
  then have "unat (of_nat now + ucast (drop_bit 1 i) :: u64) = now + unat (drop_bit 1 i)"
    using start.hyps(2) by (intro clock_add) (simp add: i_def)
  then show ?case using start.hyps(1) le
    by (auto simp: rtcp_sender_Initialize_def Let_def timer_ok_def trace_ok_def rtcp_sender_new_def interval_ms_def
        i_def [symmetric] half [unfolded One_nat_def])
next
  case (step w w')
  then show ?case using sched_step_ok by blast
qed

text \<open>A callback that has the information it is asked for.\<close>

definition answers :: "sender_callback \<Rightarrow> bool" where
  "answers cb \<longleftrightarrow> GetRemoteSenderInfo cb \<noteq> None \<and> GetLocalSenderInfo cb \<noteq> None"

lemma build_rtcp_answers: "answers cb \<Longrightarrow> \<exists>x. build_rtcp info cb s = Ok x"
  by (auto simp: answers_def build_rtcp_def Let_def report_blocks_of_def report_packet_def split: option.splits)

text \<open>A run: the sender is initialised at 1000 ms and sends a NACK at 1100 ms, then a BYE at 1200 ms.\<close>

definition sample_start :: timed where
  "sample_start = \<lparr>sender = (rtcp_sender_new sample_sender_config)\<lparr>utc_ms_next_send := 1500\<rparr>,
     armed = Some 1500, last_call = 1000, trace = [], stopped = False\<rparr>"

lemma sample_start_reachable: "sched_reachable sample_start"
  using sched_reachable.start [of 1000 sample_sender_config "sender sample_start" "\<lparr>sent = None, posted = Some 500\<rparr>"]
  by (simp add: rtcp_sender_Initialize_def sample_start_def sample_sender_config_def Let_def drop_bit_eq_div)

lemma answers_sample [simp]: "answers (sample_callback b)" "\<not> HasReceivedBye (sample_callback b)"
  by (simp_all add: answers_def sample_callback_def)

lemma sample_run:
  obtains w where "sched_reachable w" and "trace w = [False, True]" and "has_sent_bye (sender w)"
proof -
  let ?cb = "sample_callback True"
  obtain c s1 where s1: "build_rtcp (Nack_Info [7]) ?cb (sender sample_start) = Ok (c, s1)"
    using build_rtcp_answers [of ?cb] by fastforce
  let ?x = "(s1\<lparr>utc_ms_next_send := 1100 + ucast (rtcp_report_interval_ms (rs_config s1))\<rparr>,
      \<lparr>sent = Some c, posted = None\<rparr>)"
  let ?w = "after_call 1100 ?x False sample_start"
  have "SendNack 1100 [7] ?cb (sender sample_start) = Ok ?x"
    using s1 by (simp add: SendNack_def sample_start_def rtcp_sender_new_def)
  then have "sched_step sample_start ?w"
    using sched_step.nack [of sample_start 1100 "[7]" ?cb ?x]
    by (simp add: sample_start_def interval_ms_def rtcp_sender_new_def sample_sender_config_def)
  then have w: "sched_reachable ?w" by (rule sched_reachable.step [OF sample_start_reachable])
  obtain c2 s2 where s2: "build_rtcp Bye_Info ?cb (sender ?w) = Ok (c2, s2)"
    using build_rtcp_answers [of ?cb] by fastforce
  let ?y = "(s2\<lparr>has_sent_bye := True\<rparr>, \<lparr>sent = Some c2, posted = None\<rparr>)"
  let ?v = "after_call 1200 ?y False ?w"
  have "sched_step ?w ?v"
    using sched_step.bye [of ?w 1200 ?cb ?y] s2 build_rtcp_frame [OF s1]
    by (simp add: SendBye_def after_call_def interval_ms_def sample_start_def rtcp_sender_new_def sample_sender_config_def)
  then have "sched_reachable ?v" by (rule sched_reachable.step [OF w])
  moreover have "trace ?v = [False, True]"
    using build_rtcp_frame [OF s1] build_rtcp_frame [OF s2] by (simp add: after_call_def sample_start_def)
  ultimately show ?thesis using that by (simp add: after_call_def)
qed

text \<open>C29: In every run of the calls, once the sender has sent its BYE no other compound follows but
  another BYE (the \<open>is_bye\<close> of the compounds sent are some \<open>False\<close>, then some \<open>True\<close>).\<close>

theorem nothing_after_bye:
  assumes "sched_reachable w"
  shows "sorted (trace w) \<and> (has_sent_bye (sender w) \<longleftrightarrow> True \<in> set (trace w))"
  using sched_invariant [OF assms] by (simp add: trace_ok_def)

theorem nothing_after_bye_witness:
  "\<exists>w. sched_reachable w \<and> trace w = [False, True] \<and> sorted (trace w) \<and> has_sent_bye (sender w)"
  using nothing_after_bye sample_run by metis

lemma schedule_due:
  assumes "\<not> has_sent_bye s" and "answers cb" and "\<not> HasReceivedBye cb" and "utc_ms_next_send s \<le> now"
  shows "\<exists>x c. ScheduleSendRtcp now cb s = Ok x \<and> sent (snd x) = Some c"
  using build_rtcp_answers [OF assms(2), of No_Info s] assms
  by (auto simp: ScheduleSendRtcp_def Let_def not_less [symmetric])

text \<open>C18: In every reachable state in which neither side has said BYE, the timer is armed for a time within
  an interval of the last call; when it fires there, either a report is sent at once or the timer is
  armed again for a time within that same interval, and when it fires there the report is sent.\<close>

theorem report_within_interval:
  assumes "sched_reachable w" and "\<not> stopped w" and "\<not> has_sent_bye (sender w)"
    and "answers cb" and "\<not> HasReceivedBye cb" and "last_call w + interval_ms (sender w) < 2 ^ 64"
  shows "\<exists>t x. armed w = Some t \<and> t \<le> last_call w + interval_ms (sender w)
    \<and> ScheduleSendRtcp (of_nat t) cb (sender w) = Ok x
    \<and> (sent (snd x) \<noteq> None
       \<or> (\<exists>d y. posted (snd x) = Some d \<and> t + unat d \<le> last_call w + interval_ms (sender w)
            \<and> ScheduleSendRtcp (of_nat (t + unat d)) cb (fst x) = Ok y \<and> sent (snd y) \<noteq> None))"
proof -
  let ?s = "sender w" and ?deadline = "last_call w + interval_ms (sender w)"
  obtain t where t: "armed w = Some t" "t \<le> unat (utc_ms_next_send ?s)" "unat (utc_ms_next_send ?s) \<le> ?deadline"
    using sched_invariant [OF assms(1)] assms(2,3) by (auto simp: timer_ok_def)
  show ?thesis
  proof (cases "of_nat t < utc_ms_next_send ?s")
    case True
    let ?d = "utc_ms_next_send ?s - of_nat t"
    have x: "ScheduleSendRtcp (of_nat t) cb ?s = Ok (?s, \<lparr>sent = None, posted = Some ?d\<rparr>)"
      using True assms(3,5) by (simp add: ScheduleSendRtcp_def)
    have d: "t + unat ?d = unat (utc_ms_next_send ?s)"
      using unat_minus_clock [OF True] t assms(6) by simp
    moreover obtain s' e c where "ScheduleSendRtcp (of_nat (t + unat ?d)) cb ?s = Ok (s', e)" "sent e = Some c"
      using schedule_due [OF assms(3-5), of "of_nat (t + unat ?d)"] d by auto
    ultimately have "sent e \<noteq> None \<and> t + unat ?d \<le> ?deadline
        \<and> ScheduleSendRtcp (of_nat (t + unat ?d)) cb ?s = Ok (s', e)" using t(3) by simp
    then show ?thesis using x t by (intro exI [of _ t] exI [of _ "(?s, \<lparr>sent = None, posted = Some ?d\<rparr>)"]) auto
  next
    case False
    then show ?thesis using t schedule_due [OF assms(3-5), of "of_nat t"] by (auto simp: not_less)
  qed
qed

theorem report_within_interval_witness:
  "\<exists>x. ScheduleSendRtcp 1500 (sample_callback True) (sender sample_start) = Ok x"
  using report_within_interval [OF sample_start_reachable, of "sample_callback True"]
  by (auto simp: sample_start_def rtcp_sender_new_def interval_ms_def sample_sender_config_def)

end
