(* ===== verification/Rtp_Sender.thy ===== *)
theory Rtp_Sender
  imports Rtp_Codec Seq_Comparison
begin

text \<open>
  \<open>src/rtp_rtcp/rtp_sender.h/.cc\<close>: the cache of sent packets, \<open>SendRtp\<close> with its checks on SSRC,
  payload type and sequence number, and the retransmission of lost packets (RFC 4588). The time
  of the call, the random first RTX sequence number and the floating-point expression of
  \<open>GetStatisticInfo\<close> are parameters. What a call hands to the tranceiver is part of its result.
  The mutex makes each call one step.
\<close>

section \<open>Configuration\<close>

text \<open>\<open>std::map<uint8_t, uint8_t>\<close> as the list of its pairs in key order, the order of iteration:
  RTX payload type, then the payload type it carries.\<close>

type_synonym payload_type_map = "(u8 \<times> u8) list"

definition map_ok :: "payload_type_map \<Rightarrow> bool" where
  "map_ok m \<longleftrightarrow> sorted_wrt (<) (map fst m)"

record rtp_sender_config =
  max_cache_seq_difference :: u16
  local_ssrc :: u32
  s_rtp_clock_rate_hz :: u32
  s_rtp_payload_types :: "u8 list"
  s_rtx_enabled :: bool
  s_rtx_ssrc :: u32
  s_map_rtx :: payload_type_map

section \<open>RtpSenderPacketCache\<close>

text \<open>\<open>cached_rtp_packets_\<close>, oldest first: packets are dropped from the front until one is in range.\<close>

definition cache_put :: "u16 \<Rightarrow> rtp_packet \<Rightarrow> rtp_packet list \<Rightarrow> rtp_packet list" where
  "cache_put max_diff p cached =
     dropWhile (\<lambda>c. \<not> IsSeqBeforeInRange (sequence_number c) (sequence_number p) max_diff) cached @ [p]"

text \<open>For each number asked for, a copy of the first cached packet that has it. \<open>None\<close> is the null
  pointer that \<open>RtpPacket::Create\<close> returns when it fails.\<close>

definition cache_get_one :: "rtp_packet list \<Rightarrow> u16 \<Rightarrow> (rtp_error, rtp_packet option list) outcome" where
  "cache_get_one cached s =
     (case find (\<lambda>c. sequence_number c = s) cached of
        None \<Rightarrow> Ok []
      | Some c \<Rightarrow> (case CreateCopy c of Ok q \<Rightarrow> Ok [Some q] | Failed _ \<Rightarrow> Ok [None] | Crash x \<Rightarrow> Crash x))"

definition cache_get :: "u16 list \<Rightarrow> rtp_packet list \<Rightarrow> (rtp_error, rtp_packet option list) outcome" where
  "cache_get packet_seqs cached = omap concat (omapM (cache_get_one cached) packet_seqs)"

section \<open>RtpSender\<close>

record rtp_sender =
  s_config :: rtp_sender_config
  s_cache :: "rtp_packet list option"
  has_sent :: bool
  last_seq :: u16
  utc_ms_first :: u32
  rtp_timestamp_first :: u32
  rtp_clock_rate :: u32
  sender_packet_count :: u32
  sender_octet_count :: u32
  rtx_last_seq :: u16
  rtx_has_sent :: bool

datatype sender_error = Parameter_Is_Null | Cache_Size_Is_Zero

text \<open>\<open>Initialize\<close> on a new object, given the configuration (the other parameters are pointers the
  state does not show). On failure the configuration has already been taken.\<close>

definition sender_new :: "rtp_sender_config \<Rightarrow> rtp_sender" where
  "sender_new c = \<lparr>s_config = c, s_cache = None, has_sent = False, last_seq = 0, utc_ms_first = 0,
     rtp_timestamp_first = 0, rtp_clock_rate = 0, sender_packet_count = 0, sender_octet_count = 0,
     rtx_last_seq = 0, rtx_has_sent = False\<rparr>"

definition sender_Initialize :: "rtp_sender_config option \<Rightarrow> (sender_error, rtp_sender) outcome" where
  "sender_Initialize config =
     (case config of None \<Rightarrow> Failed Parameter_Is_Null
      | Some c \<Rightarrow>
        if s_rtx_enabled c
        then if max_cache_seq_difference c = 0 then Failed Cache_Size_Is_Zero
             else Ok (sender_new c\<lparr>s_cache := Some []\<rparr>)
        else Ok (sender_new c))"

text \<open>The caching step of \<open>SendRtp\<close>: only packets whose payload type has an RTX type are cached. A copy is never null
  (\<open>CreateCopy_not_null\<close>); the branch stands for the use of it in \<open>PutPacket\<close>.\<close>

definition rtx_type_of :: "payload_type_map \<Rightarrow> u8 \<Rightarrow> (u8 \<times> u8) option" where
  "rtx_type_of m pt = find (\<lambda>e. snd e = pt) m"

definition cache_sent :: "rtp_packet \<Rightarrow> rtp_sender \<Rightarrow> (rtp_error, rtp_sender) outcome" where
  "cache_sent p s =
     (if s_rtx_enabled (s_config s) \<and> rtx_type_of (s_map_rtx (s_config s)) (payload_type p) \<noteq> None
      then (case CreateCopy p of
              Ok q \<Rightarrow> (case s_cache s of None \<Rightarrow> Crash Null_Dereference
                | Some cached \<Rightarrow>
                    Ok (s\<lparr>s_cache := Some (cache_put (max_cache_seq_difference (s_config s)) q cached)\<rparr>))
            | Failed _ \<Rightarrow> Crash Null_Dereference
            | Crash x \<Rightarrow> Crash x)
      else Ok s)"

definition is_next_sent :: "rtp_sender \<Rightarrow> u16 \<Rightarrow> bool" where
  "is_next_sent s seq \<longleftrightarrow> seq = (if last_seq s = 0xffff then 0 else last_seq s + 1)"

definition SendRtp :: "u64 \<Rightarrow> rtp_packet option \<Rightarrow> rtp_sender \<Rightarrow> (rtp_error, rtp_packet list \<times> rtp_sender) outcome" where
  "SendRtp now packet s =
     (case packet of None \<Rightarrow> Ok ([], s)
      | Some p \<Rightarrow>
        let c = s_config s; seq = sequence_number p in
        if local_ssrc c \<noteq> ssrc p then Ok ([], s)
        else if payload_type p \<notin> set (s_rtp_payload_types c) then Ok ([], s)
        else if has_sent s \<and> \<not> is_next_sent s seq then Ok ([], s)
        else omap (\<lambda>s.
            let s = (if has_sent s then s
                     else s\<lparr>utc_ms_first := ucast now, rtp_timestamp_first := timestamp p,
                            rtp_clock_rate := s_rtp_clock_rate_hz c\<rparr>) in
            ([p], s\<lparr>sender_packet_count := sender_packet_count s + 1,
                    sender_octet_count := sender_octet_count s + of_nat (length (payload_bytes p)),
                    last_seq := seq, has_sent := True\<rparr>))
          (cache_sent p s))"

text \<open>\<open>ConstructRtx\<close>: \<open>random_seq\<close> is the value drawn for the first RTX packet. The payload of the
  packet is dereferenced without a test. \<open>None\<close> is the null pointer returned on failure.\<close>

definition next_rtx_seq :: "u16 \<Rightarrow> u16" where
  "next_rtx_seq rtx_seq = (if rtx_seq = 0xffff then 0 else rtx_seq + 1)"

definition ConstructRtx ::
  "u16 \<Rightarrow> rtp_packet \<Rightarrow> rtp_sender \<Rightarrow> (rtp_error, rtp_packet option \<times> rtp_sender) outcome" where
  "ConstructRtx random_seq p s =
     (case rtx_type_of (s_map_rtx (s_config s)) (payload_type p) of
        None \<Rightarrow> Ok (None, s)
      | Some e \<Rightarrow>
        (case copy_csrcs p of
           Crash x \<Rightarrow> Crash x
         | Failed _ \<Rightarrow> Ok (None, s)
         | Ok cs \<Rightarrow>
           obind (copy_extension p) (\<lambda>ext.
           case payload_buffer p of None \<Rightarrow> Crash Null_Dereference
           | Some body \<Rightarrow>
             let s = (if rtx_has_sent s then s else s\<lparr>rtx_last_seq := random_seq\<rparr>);
                 rtx_seq = next_rtx_seq (rtx_last_seq s) in
             case StoreFields (m_payload_type_octet p (fst e)) rtx_seq (timestamp p) (s_rtx_ssrc (s_config s))
                    cs ext (Some (WriteBigEndian 2 (sequence_number p) @ body)) (pad_size p) of
               Ok q \<Rightarrow> Ok (Some q, s\<lparr>rtx_has_sent := True, rtx_last_seq := rtx_seq\<rparr>)
             | Failed _ \<Rightarrow> Ok (None, s)
             | Crash x \<Rightarrow> Crash x)))"

text \<open>The loop of \<open>SendRtx\<close>: each copy is turned into an RTX packet; a null copy is dereferenced.\<close>

fun send_rtx_all ::
  "u16 \<Rightarrow> rtp_packet option list \<Rightarrow> rtp_sender \<Rightarrow> (rtp_error, rtp_packet list \<times> rtp_sender) outcome" where
  "send_rtx_all random_seq [] s = Ok ([], s)"
| "send_rtx_all random_seq (None # ps) s = Crash Null_Dereference"
| "send_rtx_all random_seq (Some p # ps) s =
     obind (ConstructRtx random_seq p s) (\<lambda>(q, s).
     omap (\<lambda>(out, s). ((case q of None \<Rightarrow> out | Some q \<Rightarrow> q # out), s)) (send_rtx_all random_seq ps s))"

definition SendRtx :: "u16 \<Rightarrow> u16 list \<Rightarrow> rtp_sender \<Rightarrow> (rtp_error, rtp_packet list \<times> rtp_sender) outcome" where
  "SendRtx random_seq packet_seqs s =
     (if \<not> s_rtx_enabled (s_config s) \<or> packet_seqs = [] then Ok ([], s)
      else case s_cache s of None \<Rightarrow> Ok ([], s)
      | Some cached \<Rightarrow> obind (cache_get packet_seqs cached) (\<lambda>ps. send_rtx_all random_seq ps s))"

text \<open>\<open>GetStatisticInfo\<close>: \<open>NtpTimeNow\<close> scales by the integer quotient of \<open>2 ^ 32\<close> and 1000;
  \<open>rtp_time first ms rate\<close> stands for the floating-point expression that extrapolates the first
  RTP timestamp by the elapsed milliseconds, converted to 32 bits.\<close>

definition NtpTimeNow :: "u64 \<Rightarrow> u64" where
  "NtpTimeNow utc_ms = (utc_ms + 2208988800000) * (0x100000000 div 1000)"

definition GetStatisticInfo ::
  "(u32 \<Rightarrow> u64 \<Rightarrow> u32 \<Rightarrow> u32) \<Rightarrow> u64 \<Rightarrow> rtp_sender \<Rightarrow> (u64 \<times> u32 \<times> u32 \<times> u32) option" where
  "GetStatisticInfo rtp_time now s =
     (if \<not> has_sent s then None
      else Some (NtpTimeNow now,
        rtp_time (rtp_timestamp_first s) (now - ucast (utc_ms_first s)) (rtp_clock_rate s),
        sender_packet_count s, sender_octet_count s))"

section \<open>The cache holds the most recent packets\<close>

definition consecutive :: "rtp_packet list \<Rightarrow> bool" where
  "consecutive ps \<longleftrightarrow> successively (\<lambda>p q. sequence_number q = sequence_number p + 1) ps"

lemma consecutive_seq:
  assumes "consecutive ps" and "i < length ps"
  shows "sequence_number (ps ! i) = sequence_number (hd ps) + of_nat i"
  using assms unfolding consecutive_def
proof (induction ps arbitrary: i rule: induct_list012)
  case (3 p q ps)
  show ?case
  proof (cases i)
    case (Suc k)
    have "sequence_number ((q # ps) ! k) = sequence_number q + of_nat k"
      using 3 Suc by (intro "3.IH"(2) [of k, simplified]) auto
    then show ?thesis using "3.prems"(1) Suc by simp
  qed simp
qed auto

lemma consecutive_snoc:
  "consecutive (ps @ [p]) \<longleftrightarrow> consecutive ps \<and> (ps \<noteq> [] \<longrightarrow> sequence_number p = sequence_number (last ps) + 1)"
  by (cases "ps = []") (auto simp: consecutive_def successively_append_iff)

lemma consecutive_drop: "consecutive ps \<Longrightarrow> consecutive (drop n ps)"
  by (metis append_take_drop_id consecutive_def successively_append_iff)

lemma consecutive_dist:
  assumes "consecutive (ps @ [p])" and "i < length ps" and "length ps - i < 65536"
  shows "seq_dist (sequence_number (ps ! i)) (sequence_number p) = length ps - i"
proof -
  let ?h = "sequence_number (hd (ps @ [p]))"
  have "sequence_number (ps ! i) = ?h + of_nat i"
    using consecutive_seq [OF assms(1), of i] assms(2) by (simp add: nth_append)
  moreover have "sequence_number p = ?h + of_nat (length ps)"
    using consecutive_seq [OF assms(1), of "length ps"] by simp
  ultimately have "sequence_number p - sequence_number (ps ! i) = of_nat (length ps - i)"
    using assms(2) by (simp add: of_nat_diff)
  then show ?thesis using assms(3) by (simp add: seq_dist_def unat_of_nat)
qed

lemma dropWhile_drop:
  assumes "\<And>i. i < length xs \<Longrightarrow> P (xs ! i) \<longleftrightarrow> i < n"
  shows "dropWhile P xs = drop n xs"
  using assms
proof (induction xs arbitrary: n)
  case (Cons x xs)
  show ?case
  proof (cases n)
    case 0
    then show ?thesis using Cons.prems [of 0] by simp
  next
    case (Suc k)
    have "dropWhile P xs = drop k xs" by (rule Cons.IH) (use Cons.prems [of "Suc i" for i] Suc in simp)
    then show ?thesis using Cons.prems [of 0] Suc by simp
  qed
qed simp

lemma cache_put_consecutive:
  assumes "consecutive (ps @ [p])" and "length ps \<le> unat d + 1"
  shows "cache_put d p ps = drop (length ps - unat d) ps @ [p]"
proof -
  have "dropWhile (\<lambda>c. \<not> IsSeqBeforeInRange (sequence_number c) (sequence_number p) d) ps
      = drop (length ps - unat d) ps"
  proof (rule dropWhile_drop)
    fix i assume i: "i < length ps"
    let ?c = "sequence_number (ps ! i)" and ?p = "sequence_number p"
    show "\<not> IsSeqBeforeInRange ?c ?p d \<longleftrightarrow> i < length ps - unat d"
    proof (cases "length ps - i < 65536")
      case True
      with consecutive_dist [OF assms(1) i] i show ?thesis
        by (auto simp: IsSeqBeforeInRange_def IsSeqAfterInRange_dist simp flip: seq_dist_0_iff)
    next
      case False
      then have n: "length ps = 65536" "i = 0" "unat d = 65535" using i assms(2) u16_bound [of d] by auto
      have "(ps @ [p]) ! length ps = p" by simp
      moreover have "hd (ps @ [p]) = ps ! i" using i n(2) by (cases ps) simp_all
      ultimately have "?p = ?c + of_nat (length ps)" using consecutive_seq [OF assms(1), of "length ps"] by simp
      moreover have "(of_nat (length ps) :: u16) = 0" unfolding n(1) by simp
      ultimately have "?p = ?c" by simp
      then show ?thesis using n by (simp add: IsSeqBeforeInRange_def IsSeqAfterInRange_dist)
    qed
  qed
  then show ?thesis by (simp add: cache_put_def)
qed

lemma cache_holds_last:
  assumes "consecutive ps"
  shows "foldl (\<lambda>cached p. cache_put d p cached) [] ps = drop (length ps - (unat d + 1)) ps"
  using assms
proof (induction ps rule: rev_induct)
  case (snoc p ps)
  let ?k = "length ps - (unat d + 1)"
  have c: "consecutive ps" using snoc.prems by (simp add: consecutive_snoc)
  have "consecutive (drop ?k ps @ [p])" using consecutive_drop [OF snoc.prems, of ?k] by simp
  then have "cache_put d p (drop ?k ps) = drop (length (drop ?k ps) - unat d) (drop ?k ps) @ [p]"
    by (rule cache_put_consecutive) simp
  also have "\<dots> = drop (length ps - unat d) ps @ [p]"
  proof -
    have "length ps - ?k - unat d + ?k = length ps - unat d" by arith
    then show ?thesis by simp
  qed
  also have "\<dots> = drop (length (ps @ [p]) - (unat d + 1)) (ps @ [p])" by simp
  finally show ?case using snoc.IH [OF c] by simp
qed simp

text \<open>After packets with consecutive sequence numbers have been put into an empty cache it holds
  exactly the last \<open>max_cache_seq_difference + 1\<close> of them, in order: every packet within the
  difference of the newest one can be retransmitted, and nothing older is kept.\<close>

lemma sender_cache_holds_last:
  assumes "consecutive ps"
  shows "foldl (\<lambda>cached p. cache_put d p cached) [] ps = drop (length ps - (unat d + 1)) ps"
  by (rule cache_holds_last) (rule assms)

lemma sender_cache_holds_last_witness:
  "let p = (\<lambda>n. rtp_empty\<lparr>sequence_number := n\<rparr>) in
   map sequence_number (foldl (\<lambda>cached p. cache_put 1 p cached) [] [p 65534, p 65535, p 0]) = [65535, 0]"
  using sender_cache_holds_last [of "map (\<lambda>n. rtp_empty\<lparr>sequence_number := n\<rparr>) [65534, 65535, 0]" 1]
  by (simp add: consecutive_def)

section \<open>What a sender transmits\<close>

text \<open>A run: the calls of \<open>SendRtp\<close> in order; the result collects what was handed to the tranceiver.\<close>

fun send_all ::
  "(u64 \<times> rtp_packet option) list \<Rightarrow> rtp_sender \<Rightarrow> (rtp_error, rtp_packet list \<times> rtp_sender) outcome" where
  "send_all [] s = Ok ([], s)"
| "send_all ((now, p) # calls) s =
     obind (SendRtp now p s) (\<lambda>(out, s). omap (\<lambda>(out', s). (out @ out', s)) (send_all calls s))"

definition copy_of :: "rtp_packet \<Rightarrow> rtp_packet" where
  "copy_of p = p\<lparr>csrcs := map (\<lambda>c. ucast (ucast c :: u8)) (csrcs p)\<rparr>"

definition packet_ok :: "rtp_packet \<Rightarrow> bool" where
  "packet_ok p \<longleftrightarrow> rtp_wf p \<and> length (csrcs p) \<le> 255"

lemma consecutive_copies: "consecutive (map copy_of ps) \<longleftrightarrow> consecutive ps"
  by (simp add: consecutive_def successively_map copy_of_def)

definition rtx_for_all_types :: "rtp_sender_config \<Rightarrow> bool" where
  "rtx_for_all_types c \<longleftrightarrow> s_rtx_enabled c \<and> (\<forall>pt \<in> set (s_rtp_payload_types c). rtx_type_of (s_map_rtx c) pt \<noteq> None)"

text \<open>The invariant of a run: \<open>out\<close> is what has been transmitted since \<open>Initialize\<close>.\<close>

definition sender_inv :: "rtp_sender_config \<Rightarrow> rtp_packet list \<Rightarrow> rtp_sender \<Rightarrow> bool" where
  "sender_inv c out s \<longleftrightarrow> s_config s = c \<and> consecutive out \<and> (has_sent s \<longleftrightarrow> out \<noteq> [])
     \<and> (out \<noteq> [] \<longrightarrow> last_seq s = sequence_number (last out))
     \<and> (\<forall>p \<in> set out. ssrc p = local_ssrc c \<and> payload_type p \<in> set (s_rtp_payload_types c))
     \<and> sender_packet_count s = of_nat (length out)
     \<and> sender_octet_count s = of_nat (\<Sum>p\<leftarrow>out. length (payload_bytes p))
     \<and> (s_rtx_enabled c \<longrightarrow> s_cache s \<noteq> None)
     \<and> (rtx_for_all_types c \<longrightarrow>
          s_cache s = Some (foldl (\<lambda>cached p. cache_put (max_cache_seq_difference c) p cached) [] (map copy_of out)))"

lemma is_next_sent_iff: "is_next_sent s seq \<longleftrightarrow> seq = last_seq s + 1"
  by (auto simp: is_next_sent_def)

lemma cache_sent_Ok:
  assumes "packet_ok p" and "s_rtx_enabled (s_config s) \<longrightarrow> s_cache s \<noteq> None"
  shows "cache_sent p s = Ok (if s_rtx_enabled (s_config s) \<and> rtx_type_of (s_map_rtx (s_config s)) (payload_type p) \<noteq> None
    then s\<lparr>s_cache := Some (cache_put (max_cache_seq_difference (s_config s)) (copy_of p) (the (s_cache s)))\<rparr> else s)"
  using assms by (auto simp: cache_sent_def CreateCopy_Ok packet_ok_def copy_of_def)

lemma SendRtp_inv:
  assumes inv: "sender_inv c out s" and ok: "\<And>p. packet = Some p \<Longrightarrow> packet_ok p"
  obtains out' s' where "SendRtp now packet s = Ok (out', s')" and "sender_inv c (out @ out') s'"
proof (cases packet)
  case None
  then show ?thesis using that [of "[]" s] inv by (simp add: SendRtp_def)
next
  case (Some p)
  show ?thesis
  proof (cases "local_ssrc c \<noteq> ssrc p \<or> payload_type p \<notin> set (s_rtp_payload_types c)
      \<or> has_sent s \<and> \<not> is_next_sent s (sequence_number p)")
    case True
    then show ?thesis using that [of "[]" s] inv Some by (auto simp: SendRtp_def sender_inv_def Let_def)
  next
    case False
    have conf: "s_config s = c" and cache: "s_rtx_enabled (s_config s) \<longrightarrow> s_cache s \<noteq> None"
      using inv by (auto simp: sender_inv_def)
    have cons: "consecutive (out @ [p])"
      using False inv by (auto simp: sender_inv_def consecutive_snoc is_next_sent_iff)
    define s1 where "s1 = (if s_rtx_enabled (s_config s) \<and> rtx_type_of (s_map_rtx (s_config s)) (payload_type p) \<noteq> None
      then s\<lparr>s_cache := Some (cache_put (max_cache_seq_difference (s_config s)) (copy_of p) (the (s_cache s)))\<rparr> else s)"
    define s' where "s' = (if has_sent s1 then s1
        else s1\<lparr>utc_ms_first := ucast now, rtp_timestamp_first := timestamp p, rtp_clock_rate := s_rtp_clock_rate_hz c\<rparr>)
      \<lparr>sender_packet_count := sender_packet_count s1 + 1,
       sender_octet_count := sender_octet_count s1 + of_nat (length (payload_bytes p)),
       last_seq := sequence_number p, has_sent := True\<rparr>"
    have "cache_sent p s = Ok s1" unfolding s1_def by (rule cache_sent_Ok [OF ok [OF Some] cache])
    then have s': "SendRtp now packet s = Ok ([p], s')"
      using False Some conf by (auto simp: SendRtp_def Let_def s'_def)
    have "s_config s' = c" "has_sent s'" "last_seq s' = sequence_number p"
      "sender_packet_count s' = sender_packet_count s + 1"
      "sender_octet_count s' = sender_octet_count s + of_nat (length (payload_bytes p))"
      "s_cache s' = (if s_rtx_enabled c \<and> rtx_type_of (s_map_rtx c) (payload_type p) \<noteq> None
        then Some (cache_put (max_cache_seq_difference c) (copy_of p) (the (s_cache s))) else s_cache s)"
      using conf by (auto simp: s'_def s1_def)
    then have "sender_inv c (out @ [p]) s'"
      using inv cons False conf unfolding sender_inv_def by (auto simp: rtx_for_all_types_def)
    with that s' show ?thesis by blast
  qed
qed

lemma send_all_inv:
  assumes "sender_inv c out s" and "\<forall>(now, p) \<in> set calls. \<forall>q. p = Some q \<longrightarrow> packet_ok q"
  obtains out' s' where "send_all calls s = Ok (out', s')" and "sender_inv c (out @ out') s'"
  using assms
proof (induction calls arbitrary: out s thesis)
  case Nil
  then show ?case by simp
next
  case (Cons call calls)
  obtain now p where call: "call = (now, p)" by fastforce
  obtain o1 s1 where 1: "SendRtp now p s = Ok (o1, s1)" "sender_inv c (out @ o1) s1"
    using SendRtp_inv [OF Cons.prems(2), of p now] Cons.prems(3) call by auto
  obtain o2 s2 where 2: "send_all calls s1 = Ok (o2, s2)" "sender_inv c ((out @ o1) @ o2) s2"
    using Cons.IH [OF _ 1(2)] Cons.prems(3) by auto
  then show ?case using 1 call Cons.prems(1) [of "o1 @ o2" s2] by simp
qed

text \<open>C13: Whatever is passed to \<open>SendRtp\<close> of an initialised sender, in whatever order, it transmits
  a stream with consecutive sequence numbers (modulo \<open>2 ^ 16\<close>), the local SSRC and configured
  payload types only; its two counters are those of the stream; and when every payload type has an
  RTX type, the cache holds copies of the last \<open>max_cache_seq_difference + 1\<close> transmitted packets.\<close>

theorem sender_stream:
  assumes "sender_Initialize (Some c) = Ok s"
    and "\<forall>(now, p) \<in> set calls. \<forall>q. p = Some q \<longrightarrow> packet_ok q"
  shows "\<exists>out s'. send_all calls s = Ok (out, s') \<and> consecutive out
    \<and> (\<forall>p \<in> set out. ssrc p = local_ssrc c \<and> payload_type p \<in> set (s_rtp_payload_types c))
    \<and> sender_packet_count s' = of_nat (length out)
    \<and> sender_octet_count s' = of_nat (\<Sum>p\<leftarrow>out. length (payload_bytes p))
    \<and> (rtx_for_all_types c \<longrightarrow>
         s_cache s' = Some (map copy_of (drop (length out - (unat (max_cache_seq_difference c) + 1)) out)))"
proof -
  have "sender_inv c [] s"
    using assms(1) by (auto simp: sender_Initialize_def sender_new_def sender_inv_def consecutive_def
        rtx_for_all_types_def split: if_splits)
  then obtain out s' where run: "send_all calls s = Ok (out, s')" and "sender_inv c ([] @ out) s'"
    using send_all_inv assms(2) by blast
  then have inv: "sender_inv c out s'" by simp
  have cache: "foldl (\<lambda>cached p. cache_put d p cached) [] (map copy_of out) = map copy_of (drop (length out - (unat d + 1)) out)" for d
  proof -
    have "consecutive (map copy_of out)" using inv by (simp add: consecutive_copies sender_inv_def)
    then show ?thesis using cache_holds_last by (simp add: drop_map)
  qed
  show ?thesis using run inv by (auto simp: sender_inv_def cache)
qed

definition sample_sender :: rtp_sender_config where
  "sample_sender = \<lparr>max_cache_seq_difference = 1, local_ssrc = 7, s_rtp_clock_rate_hz = 90000,
     s_rtp_payload_types = [96], s_rtx_enabled = True, s_rtx_ssrc = 8, s_map_rtx = [(97, 96)]\<rparr>"

definition sample_packet :: "u16 \<Rightarrow> rtp_packet" where
  "sample_packet n = rtp_empty\<lparr>octet_m_pt := 96, ssrc := 7, sequence_number := n, payload_buffer := Some [1, 2]\<rparr>"

theorem sender_stream_witness:
  "\<exists>out s'. send_all (map (\<lambda>n. (1000, Some (sample_packet n))) [65535, 5, 0, 1]) (sender_new sample_sender\<lparr>s_cache := Some []\<rparr>)
     = Ok (out, s') \<and> consecutive out \<and> s_cache s' = Some (map copy_of (drop (length out - 2) out))"
proof -
  have ok: "packet_ok (sample_packet n)" for n
    by (simp add: packet_ok_def sample_packet_def rtp_empty_def rtp_wf_def extension_wf_def rtp_buffer_length_def
        extension_size_def payload_bytes_def)
  have "rtx_for_all_types sample_sender"
    by (simp add: rtx_for_all_types_def sample_sender_def rtx_type_of_def)
  moreover have "sender_Initialize (Some sample_sender) = Ok (sender_new sample_sender\<lparr>s_cache := Some []\<rparr>)"
    by (simp add: sender_Initialize_def sample_sender_def)
  moreover have "unat (max_cache_seq_difference sample_sender) = 1" by (simp add: sample_sender_def)
  moreover have "\<forall>(now, p) \<in> set (map (\<lambda>n. (1000, Some (sample_packet n))) [65535, 5, 0, 1]).
      \<forall>q. p = Some q \<longrightarrow> packet_ok q" using ok by simp
  ultimately show ?thesis
    using sender_stream [of sample_sender "sender_new sample_sender\<lparr>s_cache := Some []\<rparr>"
        "map (\<lambda>n. (1000, Some (sample_packet n))) [65535, 5, 0, 1]"]
    by (simp only: numeral_2_eq_2 One_nat_def add_Suc_right add_0_right) blast
qed

end
