(* ===== verification/Rtp_Receiver.thy ===== *)
theory Rtp_Receiver
  imports Rtp_Codec Seq_Comparison
begin

text \<open>
  \<open>src/rtp_rtcp/rtp_receiver.h/.cc\<close>: the jitter buffer \<open>RtpReceiverPacketCache\<close> (ordered insertion,
  the list of lost sequence numbers, release of packets in order) and the class \<open>RtpReceiver\<close>
  around it (statistics and the reconstruction of retransmitted packets). Every call of
  \<open>UTCTimeMillis\<close> is a parameter. Lists have their front first, as in the code: the smaller the
  index, the bigger the sequence number.
\<close>

section \<open>RtpReceiverPacketCache\<close>

record cached_packet =
  cp_packet :: rtp_packet
  cp_timeout :: u64

definition cp_seq :: "cached_packet \<Rightarrow> u16" where
  "cp_seq c = sequence_number (cp_packet c)"

record loss_entry =
  loss_seq :: u16
  notified :: bool
  last_notify :: u64

definition loss_new :: "u16 \<Rightarrow> loss_entry" where
  "loss_new s = \<lparr>loss_seq = s, notified = False, last_notify = 0\<rparr>"

record receiver_cache =
  cached_packets :: "cached_packet list"
  loss_seqs :: "loss_entry list"
  max_cache_duration_ms :: u16
  latest_callback_seq :: u16
  has_callback_packet :: bool
  cumulative_packets_loss :: u32
  extended_highest_seq :: u32
  extended_first_seq :: u32
  has_cached_packet :: bool

definition receiver_cache_new :: "u16 \<Rightarrow> receiver_cache" where
  "receiver_cache_new max_duration = \<lparr>cached_packets = [], loss_seqs = [],
     max_cache_duration_ms = max_duration, latest_callback_seq = 0, has_callback_packet = False,
     cumulative_packets_loss = 0, extended_highest_seq = 0, extended_first_seq = 0,
     has_cached_packet = False\<rparr>"

text \<open>The extended sequence numbers kept for the receiver reports.\<close>

definition update_extended :: "u16 \<Rightarrow> receiver_cache \<Rightarrow> receiver_cache" where
  "update_extended packet_seq c =
     (if has_cached_packet c then
        let num_extended = ucast (drop_bit 16 (extended_highest_seq c)) :: u16;
            latest_cached_seq = ucast (drop_bit 16 (push_bit 16 (extended_highest_seq c))) :: u16;
            newer = IsSeqAfter latest_cached_seq packet_seq;
            num_extended = (if newer \<and> packet_seq < latest_cached_seq then num_extended + 1 else num_extended);
            c = (if newer then c\<lparr>extended_highest_seq := push_bit 16 (ucast num_extended) OR ucast packet_seq\<rparr>
                 else c)
        in (if num_extended = 0 \<and> ucast packet_seq < extended_first_seq c
            then c\<lparr>extended_first_seq := ucast packet_seq\<rparr> else c)
      else c\<lparr>extended_highest_seq := ucast packet_seq, extended_first_seq := ucast packet_seq\<rparr>)"

text \<open>The search from the front of the list; a packet that is after no element is dropped.\<close>

fun insert_scan :: "cached_packet \<Rightarrow> cached_packet list \<Rightarrow> cached_packet list" where
  "insert_scan new [] = []"
| "insert_scan new (c # cs) =
     (if cp_seq c = cp_seq new then c # cs
      else if IsSeqAfter (cp_seq c) (cp_seq new) then new # c # cs
      else c # insert_scan new cs)"

definition insert_cached :: "cached_packet \<Rightarrow> cached_packet list \<Rightarrow> cached_packet list" where
  "insert_cached new cs =
     (if cs = [] then [new]
      else if IsSeqAfter (cp_seq new) (cp_seq (last cs)) then cs @ [new]
      else insert_scan new cs)"

fun erase_first_loss :: "u16 \<Rightarrow> loss_entry list \<Rightarrow> loss_entry list" where
  "erase_first_loss s [] = []"
| "erase_first_loss s (l # ls) = (if loss_seq l = s then ls else l # erase_first_loss s ls)"

text \<open>
  \<open>SupplementLossSeqs\<close>. The insert position only moves forward, through the whole call: \<open>passed\<close>
  holds the entries before it in reverse, \<open>rest\<close> the entries from it on. \<open>note_loss\<close> is one round of
  the loops of \<open>func_get_loss_seqs\<close>.
\<close>

fun skip_later :: "u16 \<Rightarrow> loss_entry list \<Rightarrow> loss_entry list \<Rightarrow> loss_entry list \<times> loss_entry list" where
  "skip_later s passed [] = (passed, [])"
| "skip_later s passed (l # rest) =
     (if s = loss_seq l \<or> \<not> IsSeqBefore s (loss_seq l) then (passed, l # rest)
      else skip_later s (l # passed) rest)"

type_synonym loss_cursor = "loss_entry list \<times> loss_entry list \<times> u32"

definition note_loss :: "u16 \<Rightarrow> loss_cursor \<Rightarrow> loss_cursor" where
  "note_loss s = (\<lambda>(passed, rest, count).
     case skip_later s passed rest of (passed, rest) \<Rightarrow>
       if rest \<noteq> [] \<and> s = loss_seq (hd rest) then (passed, rest, count)
       else (loss_new s # passed, rest, count + 1))"

text \<open>The loop \<open>for (s = hi; s > lo; --s)\<close>, as the list of its values.\<close>

definition down_from :: "u16 \<Rightarrow> u16 \<Rightarrow> u16 list" where
  "down_from hi lo = rev (map of_nat [unat lo + 1..<unat hi + 1])"

definition gap_seqs :: "u16 \<Rightarrow> u16 \<Rightarrow> u16 list" where
  "gap_seqs prev this =
     (if this < prev then down_from (prev - 1) this
      else down_from (prev - 1) 0 @ down_from 0xffff this)"

fun all_gaps :: "u16 \<Rightarrow> u16 list \<Rightarrow> u16 list" where
  "all_gaps prev [] = []"
| "all_gaps prev (this # seqs) =
     (if IsNextSeq this prev then [] else gap_seqs prev this) @ all_gaps this seqs"

definition SupplementLossSeqs :: "receiver_cache \<Rightarrow> ('e, receiver_cache) outcome" where
  "SupplementLossSeqs c =
     (case map cp_seq (cached_packets c) of [] \<Rightarrow> Crash Empty_Container
      | s # seqs \<Rightarrow>
        let lost = all_gaps s (seqs @ (if has_callback_packet c then [latest_callback_seq c] else []));
            (passed, rest, count) = fold note_loss lost ([], loss_seqs c, cumulative_packets_loss c);
            ls = rev passed @ rest;
            ls = (if has_callback_packet c
                  then filter (\<lambda>l. IsSeqBefore (latest_callback_seq c) (loss_seq l)) ls else ls)
        in Ok (c\<lparr>loss_seqs := ls, cumulative_packets_loss := count\<rparr>))"

definition PutPacket :: "u64 \<Rightarrow> rtp_packet \<Rightarrow> receiver_cache \<Rightarrow> ('e, receiver_cache) outcome" where
  "PutPacket now p c =
     (let packet_seq = sequence_number p in
      if has_callback_packet c \<and> \<not> IsSeqAfter (latest_callback_seq c) packet_seq then Ok c
      else
        let c = update_extended packet_seq c;
            new = \<lparr>cp_packet = p, cp_timeout = ucast (max_cache_duration_ms c) + now\<rparr>;
            c = c\<lparr>cached_packets := insert_cached new (cached_packets c),
                  loss_seqs := erase_first_loss packet_seq (loss_seqs c)\<rparr>
        in omap (\<lambda>c. c\<lparr>has_cached_packet := True\<rparr>) (SupplementLossSeqs c))"

text \<open>
  \<open>GetPackets\<close>. \<open>ready_count\<close> is the length of the run of packets that continues the last one
  released, from the back; \<open>split_due\<close> finds the first packet from the front that starts this run or
  has timed out, and separates what stays from what goes.
\<close>

fun ready_count :: "u16 \<Rightarrow> cached_packet list \<Rightarrow> nat" where
  "ready_count latest [] = 0"
| "ready_count latest (c # cs) =
     (if IsNextSeq latest (cp_seq c) then Suc (ready_count (cp_seq c) cs) else 0)"

fun split_due :: "u64 \<Rightarrow> nat \<Rightarrow> cached_packet list \<Rightarrow> cached_packet list \<times> cached_packet list" where
  "split_due now nb [] = ([], [])"
| "split_due now nb (c # cs) =
     (if length (c # cs) = nb \<or> cp_timeout c \<le> now then ([], c # cs)
      else case split_due now nb cs of (keep, go) \<Rightarrow> (c # keep, go))"

definition GetPackets :: "u64 \<Rightarrow> receiver_cache \<Rightarrow> rtp_packet list \<times> receiver_cache" where
  "GetPackets now c =
     (let nb = (if has_callback_packet c then ready_count (latest_callback_seq c) (rev (cached_packets c)) else 0);
          (keep, go) = split_due now nb (cached_packets c)
      in (rev (map cp_packet go),
          if go = [] then c
          else c\<lparr>cached_packets := keep, latest_callback_seq := cp_seq (hd go), has_callback_packet := True\<rparr>))"

text \<open>\<open>GetLossPacketSeqsForNack\<close>: from the back, so in ascending order.\<close>

definition nack_due :: "u64 \<Rightarrow> loss_entry \<Rightarrow> bool" where
  "nack_due now l \<longleftrightarrow> \<not> notified l \<or> last_notify l + 50 \<le> now"

definition GetLossPacketSeqsForNack :: "u64 \<Rightarrow> receiver_cache \<Rightarrow> u16 list \<times> receiver_cache" where
  "GetLossPacketSeqsForNack now c =
     (map loss_seq (filter (nack_due now) (rev (loss_seqs c))),
      c\<lparr>loss_seqs := map (\<lambda>l. if nack_due now l then l\<lparr>notified := True, last_notify := now\<rparr> else l) (loss_seqs c)\<rparr>)"

section \<open>RtpReceiver\<close>

record rtp_receiver_config =
  remote_ssrc :: u32
  r_rtp_clock_rate_hz :: u32
  r_rtp_payload_types :: "u8 list"
  r_max_cache_duration_ms :: u16
  r_rtx_enabled :: bool
  rtx_max_cache_seq_difference :: u16
  r_rtx_ssrc :: u32
  r_map_rtx :: "(u8 \<times> u8) list"

record rtp_receiver_statistics =
  stat_remote_ssrc :: u32
  stat_cumulative_loss :: u32
  stat_extended_seq_num :: u32
  stat_first_extended_seq_num :: u32
  stat_interarrival_jitter :: u32

record rtp_receiver =
  r_config :: rtp_receiver_config
  r_cache :: receiver_cache
  r_has_received :: bool
  r_statistics :: rtp_receiver_statistics
  nb_received_expected :: s32
  nb_received_real :: s32
  last_rtp_timestamp :: u32
  last_rtp_utc_ms :: u64
  interarrival_jitter :: u32

datatype receiver_error = Receiver_Parameter_Is_Null | Receiver_Cache_Size_Is_Zero

definition receiver_new :: "rtp_receiver_config \<Rightarrow> rtp_receiver" where
  "receiver_new c = \<lparr>r_config = c, r_cache = receiver_cache_new (r_max_cache_duration_ms c),
     r_has_received = False,
     r_statistics = \<lparr>stat_remote_ssrc = remote_ssrc c, stat_cumulative_loss = 0, stat_extended_seq_num = 0,
       stat_first_extended_seq_num = 0, stat_interarrival_jitter = 0\<rparr>,
     nb_received_expected = 0, nb_received_real = 0, last_rtp_timestamp = 0, last_rtp_utc_ms = 0,
     interarrival_jitter = 0\<rparr>"

definition receiver_Initialize :: "rtp_receiver_config option \<Rightarrow> (receiver_error, rtp_receiver) outcome" where
  "receiver_Initialize config =
     (case config of None \<Rightarrow> Failed Receiver_Parameter_Is_Null
      | Some c \<Rightarrow>
        if r_rtx_enabled c \<and> rtx_max_cache_seq_difference c = 0 then Failed Receiver_Cache_Size_Is_Zero
        else Ok (receiver_new c))"

definition IsExpectedRemoteSsrc :: "u32 \<Rightarrow> rtp_receiver \<Rightarrow> bool" where
  "IsExpectedRemoteSsrc s r \<longleftrightarrow>
     s = remote_ssrc (r_config r) \<or> (r_rtx_enabled (r_config r) \<and> s = r_rtx_ssrc (r_config r))"

text \<open>\<open>ReconstructRtpFromRtx\<close> (RFC 4588): the original sequence number is in the first two payload
  bytes. \<open>None\<close> is the null pointer; the result of the final \<open>StorePacket\<close> is ignored.\<close>

definition ReconstructRtpFromRtx :: "rtp_packet \<Rightarrow> rtp_receiver \<Rightarrow> (rtp_error, rtp_packet option) outcome" where
  "ReconstructRtpFromRtx p r =
     (case map_of (r_map_rtx (r_config r)) (payload_type p) of
        None \<Rightarrow> Ok None
      | Some pt \<Rightarrow>
        (case payload_buffer p of None \<Rightarrow> Ok None
         | Some body \<Rightarrow>
           if length body \<le> 2 then Ok None
           else
             let seq = ReadBigEndian (take 2 body) in
             (case copy_csrcs p of
                Crash x \<Rightarrow> Crash x
              | Failed _ \<Rightarrow> Ok None
              | Ok cs \<Rightarrow>
                omap (\<lambda>ext.
                  case StoreFields (m_payload_type_octet p pt) seq (timestamp p) (remote_ssrc (r_config r))
                         cs ext (Some (drop 2 body)) 0 of
                    Ok q \<Rightarrow> Some q | _ \<Rightarrow> Some rtp_empty)
                  (copy_extension p))))"

text \<open>
  The jitter estimate. \<open>transit_diff rtp_ms utc_ms rate\<close> stands for the floating-point expression
  converted to \<open>int32_t\<close>; the division of the signed difference by 16 truncates towards zero.
\<close>

definition update_jitter ::
  "(int \<Rightarrow> s32 \<Rightarrow> u32 \<Rightarrow> s32) \<Rightarrow> u64 \<Rightarrow> rtp_packet \<Rightarrow> rtp_receiver \<Rightarrow> rtp_receiver" where
  "update_jitter transit_diff now p r =
     (let j = (if r_has_received r then
                 let duration_utc_ms = ucast (now - last_rtp_utc_ms r) :: s32;
                     duration_rtp_ts = int (unat (timestamp p)) - int (unat (last_rtp_timestamp r));
                     d = transit_diff duration_rtp_ts duration_utc_ms (r_rtp_clock_rate_hz (r_config r));
                     diff = sint (d - interarrival_jitter r)
                 in interarrival_jitter r + of_int (sgn diff * (\<bar>diff\<bar> div 16))
               else 0)
      in r\<lparr>interarrival_jitter := j, last_rtp_utc_ms := now, last_rtp_timestamp := timestamp p\<rparr>)"

definition update_statistics :: "rtp_receiver \<Rightarrow> rtp_receiver" where
  "update_statistics r =
     (let first = extended_first_seq (r_cache r); highest = extended_highest_seq (r_cache r);
          expected = highest - first :: s32; real = nb_received_real r + 1;
          cumulative_loss = sint (expected - real)
      in r\<lparr>nb_received_expected := expected, nb_received_real := real,
           r_statistics := (r_statistics r)\<lparr>stat_first_extended_seq_num := first,
             stat_extended_seq_num := highest,
             stat_cumulative_loss := (if cumulative_loss > 0 then expected - real else 0),
             stat_interarrival_jitter := interarrival_jitter r\<rparr>\<rparr>)"

text \<open>
  \<open>OnRtpPacket\<close>. The result holds the loss list passed to \<open>NotifyLossPacketSeqsForNack\<close> (\<open>None\<close> when
  the handler returns before that call) and the packets passed to the callback \<open>OnRtpPacket\<close> (which is
  not called for an empty list).
\<close>

record receiver_output =
  nack_seqs :: "u16 list option"
  released :: "rtp_packet list"

definition silent :: receiver_output where
  "silent = \<lparr>nack_seqs = None, released = []\<rparr>"

definition resolve_rtx :: "rtp_packet \<Rightarrow> rtp_receiver \<Rightarrow> (rtp_error, rtp_packet option) outcome" where
  "resolve_rtx p r =
     (if r_rtx_enabled (r_config r) \<and> ssrc p = r_rtx_ssrc (r_config r)
      then ReconstructRtpFromRtx p r else Ok (Some p))"

text \<open>\<open>clock i\<close> is the \<open>i\<close>-th time the handler reads.\<close>

definition OnRtpPacket ::
  "(int \<Rightarrow> s32 \<Rightarrow> u32 \<Rightarrow> s32) \<Rightarrow> (nat \<Rightarrow> u64) \<Rightarrow> rtp_packet \<Rightarrow> rtp_receiver \<Rightarrow>
   (rtp_error, receiver_output \<times> rtp_receiver) outcome" where
  "OnRtpPacket transit_diff clock packet r =
     obind (resolve_rtx packet r) (\<lambda>packet.
       case packet of None \<Rightarrow> Ok (silent, r)
       | Some p \<Rightarrow>
         if ssrc p \<noteq> remote_ssrc (r_config r) then Ok (silent, r)
         else if payload_type p \<notin> set (r_rtp_payload_types (r_config r)) then Ok (silent, r)
         else
           let r = update_jitter transit_diff (clock 0) p r in
           omap (\<lambda>cache.
             let r = update_statistics (r\<lparr>r_cache := cache\<rparr>);
                 (lost, cache) = GetLossPacketSeqsForNack (clock 2) (r_cache r);
                 (packets, cache) = GetPackets (clock 3) cache
             in (\<lparr>nack_seqs = Some lost, released = packets\<rparr>, r\<lparr>r_has_received := True, r_cache := cache\<rparr>))
           (PutPacket (clock 1) p (r_cache r)))"

definition GetRtpReceiverStatistics :: "rtp_receiver \<Rightarrow> rtp_receiver_statistics option" where
  "GetRtpReceiverStatistics r = (if r_has_received r then Some (r_statistics r) else None)"

end
