(* ===== verification/Media_Session.thy ===== *)
theory Media_Session
  imports Session_Config Rtcp_Schedule Rtp_Sender Rtp_Receiver
begin

text \<open>
  \<open>src/session/media_session.h/.cc\<close>: a media session owns one RTP sender, RTP receiver, RTCP sender
  and RTCP receiver and is the callback of all four. Each operation is modelled with the calls it makes
  into them and the calls they make back, on the thread it runs on. The central result is that the
  RTCP path of a session never dereferences a null pointer: the flags it keeps agree with the state of
  the objects it asks.
\<close>

section \<open>State\<close>

record media_session =
  ms_config :: media_config
  ms_initialized :: bool
  ms_has_received_bye :: bool
  ms_has_received_rtp :: bool
  ms_has_sent_rtp :: bool
  ms_rtp_sender :: "rtp_sender option"
  ms_rtp_receiver :: "rtp_receiver option"
  ms_rtcp_sender :: "rtcp_sender option"
  ms_rtcp_receiver :: "rtcp_receiver option"

datatype session_error =
    Rtp_Sender_Not_Initialized
  | Rtp_Receiver_Not_Initialized
  | Null_Config
  | Repeated_Start
  | Tranceiver_Failed
  | Media_Session_Failed

section \<open>Initialize\<close>

definition rtp_sender_config_of :: "media_config \<Rightarrow> rtp_sender_config" where
  "rtp_sender_config_of c =
     (let base = \<lparr>max_cache_seq_difference = 0, local_ssrc = mc_ssrc_media_local c,
            s_rtp_clock_rate_hz = mc_rtp_clock_rate_hz_local c,
            s_rtp_payload_types = mc_rtp_payload_types_local c, s_rtx_enabled = False, s_rtx_ssrc = 0,
            s_map_rtx = []\<rparr>
      in case mc_rtx_config_local c of None \<Rightarrow> base
         | Some r \<Rightarrow> base\<lparr>s_rtx_enabled := True, s_rtx_ssrc := rtx_config_ssrc r,
             max_cache_seq_difference := rtx_max_diff r, s_map_rtx := rtx_types r\<rparr>)"

definition rtp_receiver_config_of :: "media_config \<Rightarrow> rtp_receiver_config" where
  "rtp_receiver_config_of c =
     (let base = \<lparr>remote_ssrc = mc_ssrc_media_remote c, r_rtp_clock_rate_hz = mc_rtp_clock_rate_hz_remote c,
            r_rtp_payload_types = mc_rtp_payload_types_remote c,
            r_max_cache_duration_ms = mc_max_cache_duration_ms c, r_rtx_enabled = False,
            rtx_max_cache_seq_difference = 0, r_rtx_ssrc = 0, r_map_rtx = []\<rparr>
      in case mc_rtx_config_remote c of None \<Rightarrow> base
         | Some r \<Rightarrow> base\<lparr>r_rtx_enabled := True, r_rtx_ssrc := rtx_config_ssrc r,
             rtx_max_cache_seq_difference := rtx_max_diff r, r_map_rtx := rtx_types r\<rparr>)"

definition rtcp_sender_config_of :: "bytes \<Rightarrow> media_config \<Rightarrow> rtcp_sender_config" where
  "rtcp_sender_config_of name c = \<lparr>rtcp_local_ssrc = mc_ssrc_media_local c,
     rtcp_remote_ssrc = mc_ssrc_media_remote c, local_cname = name,
     rtcp_report_interval_ms = mc_rtcp_report_interval_ms c, rtcp_direction = mc_direction c\<rparr>"

definition rtcp_receiver_config_of :: "media_config \<Rightarrow> rtcp_receiver_config" where
  "rtcp_receiver_config_of c = \<lparr>rcv_remote_ssrc = mc_ssrc_media_remote c, rcv_local_ssrc = mc_ssrc_media_local c\<rparr>"

text \<open>The result holds the delay of the task posted by the RTCP sender. The pointer parameters are not
  null where the session is created.\<close>

definition session_Initialize ::
  "u64 \<Rightarrow> bytes \<Rightarrow> media_config \<Rightarrow> (session_error, media_session \<times> sender_effect) outcome" where
  "session_Initialize now name c =
     obind (if mc_direction c = RecvOnly then Ok None
            else case sender_Initialize (Some (rtp_sender_config_of c)) of
                Ok s \<Rightarrow> Ok (Some s) | Failed _ \<Rightarrow> Failed Rtp_Sender_Not_Initialized | Crash x \<Rightarrow> Crash x) (\<lambda>snd_opt.
     case rtcp_sender_Initialize now (Some (rtcp_sender_config_of name c)) of None \<Rightarrow> Crash Null_Dereference
     | Some (rtcp_snd, eff) \<Rightarrow>
       obind (if mc_direction c = SendOnly then Ok None
              else case receiver_Initialize (Some (rtp_receiver_config_of c)) of
                  Ok r \<Rightarrow> Ok (Some r) | Failed _ \<Rightarrow> Failed Rtp_Receiver_Not_Initialized | Crash x \<Rightarrow> Crash x) (\<lambda>rcv_opt.
       Ok (\<lparr>ms_config = c, ms_initialized = True, ms_has_received_bye = False, ms_has_received_rtp = False,
            ms_has_sent_rtp = False, ms_rtp_sender = snd_opt, ms_rtp_receiver = rcv_opt,
            ms_rtcp_sender = Some rtcp_snd,
            ms_rtcp_receiver = rtcp_receiver_Initialize True (Some (rtcp_receiver_config_of c)) rtcp_receiver_new\<rparr>,
           eff)))"

section \<open>The answers to the RTCP sender\<close>

definition session_HasSentRtp :: "media_session \<Rightarrow> (rtcp_error, bool \<times> media_session) outcome" where
  "session_HasSentRtp ms =
     (if \<not> ms_initialized ms then Ok (False, ms)
      else if \<not> ms_has_sent_rtp ms \<and> mc_direction (ms_config ms) \<noteq> RecvOnly
      then deref (ms_rtp_sender ms) (\<lambda>s. Ok (has_sent s, ms\<lparr>ms_has_sent_rtp := has_sent s\<rparr>))
      else Ok (ms_has_sent_rtp ms, ms))"

definition session_HasReceivedRtp :: "media_session \<Rightarrow> (rtcp_error, bool \<times> media_session) outcome" where
  "session_HasReceivedRtp ms =
     (if \<not> ms_initialized ms then Ok (False, ms)
      else if \<not> ms_has_received_rtp ms \<and> mc_direction (ms_config ms) \<noteq> SendOnly
      then deref (ms_rtp_receiver ms) (\<lambda>r. Ok (r_has_received r, ms\<lparr>ms_has_received_rtp := r_has_received r\<rparr>))
      else Ok (ms_has_received_rtp ms, ms))"

definition session_HasReceivedBye :: "media_session \<Rightarrow> bool" where
  "session_HasReceivedBye ms \<longleftrightarrow> ms_initialized ms \<and> ms_has_received_bye ms"

definition session_GetRemoteSenderInfo :: "u64 \<Rightarrow> media_session \<Rightarrow> (rtcp_error, remote_sender_info option) outcome" where
  "session_GetRemoteSenderInfo now ms =
     (if \<not> ms_initialized ms \<or> \<not> ms_has_received_rtp ms then Ok None
      else deref (ms_rtp_receiver ms) (\<lambda>r.
        deref (GetRtpReceiverStatistics r) (\<lambda>st.
        deref (ms_rtcp_receiver ms) (\<lambda>rr.
          case GetSrInfo now rr of (lsr, dlsr) \<Rightarrow>
            Ok (Some \<lparr>ri_remote_ssrc = stat_remote_ssrc st, ri_cumulative_loss = stat_cumulative_loss st,
              ri_extended_seq_num = stat_extended_seq_num st,
              ri_first_extended_seq_num = stat_first_extended_seq_num st,
              ri_interarrival_jitter = stat_interarrival_jitter st, ri_lsr = lsr, ri_dlsr = dlsr\<rparr>)))))"

text \<open>\<open>GetStatisticInfo\<close> leaves the zeros of a new object when nothing has been sent.\<close>

definition session_GetLocalSenderInfo ::
  "(u32 \<Rightarrow> u64 \<Rightarrow> u32 \<Rightarrow> u32) \<Rightarrow> u64 \<Rightarrow> media_session \<Rightarrow> (rtcp_error, local_sender_info option) outcome" where
  "session_GetLocalSenderInfo rtp_time now ms =
     (if \<not> ms_initialized ms \<or> \<not> ms_has_sent_rtp ms then Ok None
      else deref (ms_rtp_sender ms) (\<lambda>s.
        Ok (Some (case GetStatisticInfo rtp_time now s of
            None \<Rightarrow> \<lparr>li_ntp_now = 0, li_rtp_timestamp_now = 0, li_sender_packet_count = 0, li_sender_octet_count = 0\<rparr>
          | Some (ntp, ts, pkts, octets) \<Rightarrow> \<lparr>li_ntp_now = ntp, li_rtp_timestamp_now = ts,
              li_sender_packet_count = pkts, li_sender_octet_count = octets\<rparr>))))"

text \<open>
  The answers for one compound, asked for in the order of \<open>RtcpSender::SendRtcp\<close> and only where it
  asks: the two flags while the RTCP sender's own are not set, the information when they are.
\<close>

definition session_answers ::
  "(u32 \<Rightarrow> u64 \<Rightarrow> u32 \<Rightarrow> u32) \<Rightarrow> u64 \<Rightarrow> rtcp_sender \<Rightarrow> media_session \<Rightarrow>
   (rtcp_error, sender_callback \<times> media_session) outcome" where
  "session_answers rtp_time now s ms =
     (let d = rtcp_direction (rs_config s) in
      obind (if d \<noteq> RecvOnly \<and> \<not> has_sent_rtp s then session_HasSentRtp ms else Ok (has_sent_rtp s, ms)) (\<lambda>(sent_rtp, ms).
      obind (if d \<noteq> SendOnly \<and> \<not> has_received_rtp s then session_HasReceivedRtp ms
             else Ok (has_received_rtp s, ms)) (\<lambda>(received_rtp, ms).
      obind (if received_rtp then session_GetRemoteSenderInfo now ms else Ok None) (\<lambda>remote.
      obind (if sent_rtp then session_GetLocalSenderInfo rtp_time now ms else Ok None) (\<lambda>local.
        Ok (\<lparr>HasSentRtp = sent_rtp, HasReceivedRtp = received_rtp, HasReceivedBye = session_HasReceivedBye ms,
             GetRemoteSenderInfo = remote, GetLocalSenderInfo = local\<rparr>, ms))))))"

text \<open>A method of the RTCP sender run in the session. When it returns without sending, it has asked
  for nothing but \<open>HasReceivedBye\<close>, and the session is as before; that the answers are computed all
  the same makes no difference, since they are never a crash (\<open>session_answers_ok\<close> below).\<close>

definition run_rtcp ::
  "(u32 \<Rightarrow> u64 \<Rightarrow> u32 \<Rightarrow> u32) \<Rightarrow> u64 \<Rightarrow>
   (sender_callback \<Rightarrow> rtcp_sender \<Rightarrow> (rtcp_error, rtcp_sender \<times> sender_effect) outcome) \<Rightarrow>
   media_session \<Rightarrow> (rtcp_error, media_session \<times> sender_effect) outcome" where
  "run_rtcp rtp_time now call ms =
     deref (ms_rtcp_sender ms) (\<lambda>s.
       obind (session_answers rtp_time now s ms) (\<lambda>(cb, ms').
       omap (\<lambda>(s', eff).
         ((case sent eff of None \<Rightarrow> ms | Some _ \<Rightarrow> ms')\<lparr>ms_rtcp_sender := Some s'\<rparr>, eff)) (call cb s)))"

section \<open>The operations\<close>

definition session_SendBye ::
  "(u32 \<Rightarrow> u64 \<Rightarrow> u32 \<Rightarrow> u32) \<Rightarrow> u64 \<Rightarrow> media_session \<Rightarrow> (rtcp_error, media_session \<times> sender_effect) outcome" where
  "session_SendBye rtp_time now ms =
     (if \<not> ms_initialized ms then Ok (ms, no_effect) else run_rtcp rtp_time now SendBye ms)"

definition session_NotifyLoss ::
  "(u32 \<Rightarrow> u64 \<Rightarrow> u32 \<Rightarrow> u32) \<Rightarrow> u64 \<Rightarrow> u16 list \<Rightarrow> media_session \<Rightarrow>
   (rtcp_error, media_session \<times> sender_effect) outcome" where
  "session_NotifyLoss rtp_time now seqs ms =
     (if \<not> ms_initialized ms then Ok (ms, no_effect) else run_rtcp rtp_time now (SendNack now seqs) ms)"

text \<open>The posted task, on the worker thread.\<close>

definition session_Schedule ::
  "(u32 \<Rightarrow> u64 \<Rightarrow> u32 \<Rightarrow> u32) \<Rightarrow> u64 \<Rightarrow> media_session \<Rightarrow> (rtcp_error, media_session \<times> sender_effect) outcome" where
  "session_Schedule rtp_time now ms = run_rtcp rtp_time now (ScheduleSendRtcp now) ms"

text \<open>The packets handed to the transceiver.\<close>

definition session_SendRtpPacket ::
  "u64 \<Rightarrow> rtp_packet option \<Rightarrow> media_session \<Rightarrow> (rtp_error, rtp_packet list \<times> media_session) outcome" where
  "session_SendRtpPacket now packet ms =
     (if \<not> ms_initialized ms \<or> mc_direction (ms_config ms) = RecvOnly then Ok ([], ms)
      else deref (ms_rtp_sender ms) (\<lambda>s.
        omap (\<lambda>(ps, s'). (ps, ms\<lparr>ms_rtp_sender := Some s'\<rparr>)) (SendRtp now packet s)))"

definition session_NotifyNackReceived ::
  "u16 \<Rightarrow> u16 list \<Rightarrow> media_session \<Rightarrow> (rtp_error, rtp_packet list \<times> media_session) outcome" where
  "session_NotifyNackReceived random_seq seqs ms =
     (if \<not> ms_initialized ms \<or> mc_direction (ms_config ms) = RecvOnly then Ok ([], ms)
      else deref (ms_rtp_sender ms) (\<lambda>s.
        omap (\<lambda>(ps, s'). (ps, ms\<lparr>ms_rtp_sender := Some s'\<rparr>)) (SendRtx random_seq seqs s)))"

definition session_NotifyByeReceived :: "media_session \<Rightarrow> media_session" where
  "session_NotifyByeReceived ms = ms\<lparr>ms_has_received_bye := True\<rparr>"

text \<open>The notifications of a datagram, in order, with the packets retransmitted.\<close>

fun session_notified ::
  "u16 \<Rightarrow> notification list \<Rightarrow> media_session \<Rightarrow> (rtp_error, rtp_packet list \<times> media_session) outcome" where
  "session_notified random_seq [] ms = Ok ([], ms)"
| "session_notified random_seq (NotifyByeReceived # ns) ms =
     session_notified random_seq ns (session_NotifyByeReceived ms)"
| "session_notified random_seq (NotifyNackReceived seqs # ns) ms =
     obind (session_NotifyNackReceived random_seq seqs ms) (\<lambda>(ps, ms).
       omap (\<lambda>(qs, ms). (ps @ qs, ms)) (session_notified random_seq ns ms))"

text \<open>A datagram routed to the session's RTCP receiver.\<close>

definition session_OnRtcp ::
  "parse_env \<Rightarrow> u16 \<Rightarrow> bytes \<Rightarrow> media_session \<Rightarrow> (rtp_error, rtp_packet list \<times> media_session) outcome" where
  "session_OnRtcp env random_seq d ms =
     deref (ms_rtcp_receiver ms) (\<lambda>r.
       case OnRtcpPacket env (Some d) r of
         Crash x \<Rightarrow> Crash x
       | Failed _ \<Rightarrow> Ok ([], ms)
       | Ok (r', ns) \<Rightarrow> session_notified random_seq ns (ms\<lparr>ms_rtcp_receiver := Some r'\<rparr>))"

text \<open>A packet routed to the session's RTP receiver: the state of the receiver first, then the NACK for
  what is missing (which reads its statistics), then the packets for the application.\<close>

definition session_OnRtp ::
  "(int \<Rightarrow> s32 \<Rightarrow> u32 \<Rightarrow> s32) \<Rightarrow> (u32 \<Rightarrow> u64 \<Rightarrow> u32 \<Rightarrow> u32) \<Rightarrow> (nat \<Rightarrow> u64) \<Rightarrow> rtp_packet \<Rightarrow> media_session \<Rightarrow>
   (rtp_error, rtp_packet list \<times> sender_effect \<times> media_session) outcome" where
  "session_OnRtp transit_diff rtp_time clock p ms =
     deref (ms_rtp_receiver ms) (\<lambda>r.
       obind (OnRtpPacket transit_diff clock p r) (\<lambda>(out, r').
         let ms = ms\<lparr>ms_rtp_receiver := Some r'\<rparr> in
         case nack_seqs out of None \<Rightarrow> Ok (released out, no_effect, ms)
         | Some seqs \<Rightarrow> (case session_NotifyLoss rtp_time (clock 4) seqs ms of
             Crash x \<Rightarrow> Crash x
           | Failed _ \<Rightarrow> Ok (released out, no_effect, ms)
           | Ok (ms, eff) \<Rightarrow> Ok (released out, eff, ms))))"

text \<open>The way of released packets to the application: the signal thread calls it, another thread leaves
  that to the signal thread.\<close>

datatype handover = Dropped | To_Signal_Thread "rtp_packet list" | To_Application "rtp_packet list"

definition session_OnRtpPacket :: "bool \<Rightarrow> rtp_packet list \<Rightarrow> media_session \<Rightarrow> (rtp_error, handover) outcome" where
  "session_OnRtpPacket on_signal_thread packets ms =
     (if \<not> ms_initialized ms then Ok Dropped
      else if \<not> on_signal_thread then Ok (To_Signal_Thread packets)
      else if \<not> mc_has_callback (ms_config ms) then Crash Null_Dereference
      else Ok (To_Application packets))"

text \<open>The packets that the worker thread leaves to the signal thread reach the application as they were.\<close>

lemma packets_reach_application:
  assumes "session_OnRtpPacket False packets ms = Ok (To_Signal_Thread ps)" and "mc_has_callback (ms_config ms)"
  shows "session_OnRtpPacket True ps ms = Ok (To_Application packets)"
  using assms by (auto simp: session_OnRtpPacket_def split: if_splits)

section \<open>The flags agree with the objects\<close>

definition session_ok :: "media_session \<Rightarrow> bool" where
  "session_ok ms \<longleftrightarrow> ms_initialized ms
     \<and> (mc_direction (ms_config ms) \<noteq> RecvOnly \<longrightarrow> ms_rtp_sender ms \<noteq> None)
     \<and> (mc_direction (ms_config ms) \<noteq> SendOnly \<longrightarrow> ms_rtp_receiver ms \<noteq> None)
     \<and> ms_rtcp_receiver ms \<noteq> None
     \<and> (\<exists>s. ms_rtcp_sender ms = Some s \<and> rtcp_direction (rs_config s) = mc_direction (ms_config ms)
          \<and> (has_sent_rtp s \<longrightarrow> ms_has_sent_rtp ms) \<and> (has_received_rtp s \<longrightarrow> ms_has_received_rtp ms))
     \<and> (ms_has_sent_rtp ms \<longrightarrow> mc_direction (ms_config ms) \<noteq> RecvOnly)
     \<and> (ms_has_received_rtp ms \<longrightarrow>
          mc_direction (ms_config ms) \<noteq> SendOnly \<and> (\<forall>r. ms_rtp_receiver ms = Some r \<longrightarrow> r_has_received r))"

lemma session_Initialize_ok:
  "session_Initialize now name c = Ok (ms, eff) \<Longrightarrow> session_ok ms"
  by (auto simp: session_Initialize_def rtcp_sender_Initialize_def Let_def obind_eq_Ok_conv session_ok_def
      rtcp_receiver_Initialize_def rtcp_sender_new_def rtcp_sender_config_of_def
      split: if_splits option.splits outcome.splits)

text \<open>In a consistent session the RTCP sender always gets the answers it needs.\<close>

definition answers_for :: "rtcp_sender \<Rightarrow> sender_callback \<Rightarrow> bool" where
  "answers_for s cb \<longleftrightarrow>
     (HasReceivedRtp cb \<longrightarrow> GetRemoteSenderInfo cb \<noteq> None) \<and> (HasSentRtp cb \<longrightarrow> GetLocalSenderInfo cb \<noteq> None)
     \<and> (has_sent_rtp s \<longrightarrow> HasSentRtp cb) \<and> (has_received_rtp s \<longrightarrow> HasReceivedRtp cb)"

lemma session_answers_ok:
  assumes "session_ok ms" and "ms_rtcp_sender ms = Some s"
  shows "\<exists>cb ms'. session_answers rtp_time now s ms = Ok (cb, ms') \<and> answers_for s cb \<and> session_ok ms'
    \<and> ms_rtcp_sender ms' = Some s \<and> ms_config ms' = ms_config ms
    \<and> (HasSentRtp cb \<longrightarrow> ms_has_sent_rtp ms') \<and> (HasReceivedRtp cb \<longrightarrow> ms_has_received_rtp ms')"
  using assms
  by (auto simp: session_answers_def Let_def session_ok_def session_HasSentRtp_def session_HasReceivedRtp_def
      session_GetRemoteSenderInfo_def session_GetLocalSenderInfo_def deref_def answers_for_def
      GetRtpReceiverStatistics_def split: option.splits prod.splits)

lemma build_rtcp_answered:
  assumes "answers_for s cb"
  shows "\<exists>compound s'. build_rtcp info cb s = Ok (compound, s') \<and> (has_sent_rtp s' \<longrightarrow> HasSentRtp cb)
    \<and> (has_received_rtp s' \<longrightarrow> HasReceivedRtp cb) \<and> rs_config s' = rs_config s"
  using assms
  by (auto simp: answers_for_def build_rtcp_def Let_def report_blocks_of_def report_packet_def refresh_flags_def
      split: option.splits)

text \<open>A method of the RTCP sender that either does nothing or sends what it has built.\<close>

definition sends_built ::
  "(sender_callback \<Rightarrow> rtcp_sender \<Rightarrow> (rtcp_error, rtcp_sender \<times> sender_effect) outcome) \<Rightarrow> bool" where
  "sends_built call \<longleftrightarrow> (\<forall>cb s. answers_for s cb \<longrightarrow> (\<exists>s' eff. call cb s = Ok (s', eff)
     \<and> rs_config s' = rs_config s
     \<and> (sent eff = None \<longrightarrow> has_sent_rtp s' = has_sent_rtp s \<and> has_received_rtp s' = has_received_rtp s)
     \<and> (sent eff \<noteq> None \<longrightarrow> (has_sent_rtp s' \<longrightarrow> HasSentRtp cb) \<and> (has_received_rtp s' \<longrightarrow> HasReceivedRtp cb))))"

lemma sent_no_effect: "sent no_effect = None"
  by (simp add: no_effect_def)

lemma sends_builtI:
  assumes "\<And>cb s compound s'. answers_for s cb \<Longrightarrow> build_rtcp info cb s = Ok (compound, s') \<Longrightarrow>
      call cb s = Ok (s, no_effect)
      \<or> (\<exists>s2 eff. call cb s = Ok (s2, eff) \<and> sent eff \<noteq> None \<and> has_sent_rtp s2 = has_sent_rtp s'
          \<and> has_received_rtp s2 = has_received_rtp s' \<and> rs_config s2 = rs_config s')
      \<or> (\<exists>eff. sent eff = None \<and> call cb s = Ok (s, eff))"
  shows "sends_built call"
  unfolding sends_built_def
proof (intro allI impI)
  fix cb s
  assume ans: "answers_for s cb"
  obtain compound s' where b: "build_rtcp info cb s = Ok (compound, s')"
    and flags: "has_sent_rtp s' \<longrightarrow> HasSentRtp cb" "has_received_rtp s' \<longrightarrow> HasReceivedRtp cb" "rs_config s' = rs_config s"
    using build_rtcp_answered [OF ans, of info] by blast
  consider eff where "sent eff = None" "call cb s = Ok (s, eff)"
    | s2 eff where "call cb s = Ok (s2, eff)" "sent eff \<noteq> None" "has_sent_rtp s2 = has_sent_rtp s'"
        "has_received_rtp s2 = has_received_rtp s'" "rs_config s2 = rs_config s'"
    using assms [OF ans b] sent_no_effect by blast
  then show "\<exists>s' eff. call cb s = Ok (s', eff) \<and> rs_config s' = rs_config s
     \<and> (sent eff = None \<longrightarrow> has_sent_rtp s' = has_sent_rtp s \<and> has_received_rtp s' = has_received_rtp s)
     \<and> (sent eff \<noteq> None \<longrightarrow> (has_sent_rtp s' \<longrightarrow> HasSentRtp cb) \<and> (has_received_rtp s' \<longrightarrow> HasReceivedRtp cb))"
  proof cases
    case 1
    then show ?thesis by auto
  next
    case 2
    then show ?thesis using flags by auto
  qed
qed

lemma sends_built_SendBye: "sends_built SendBye"
  by (rule sends_builtI [where info = Bye_Info]) (simp add: SendBye_def)

lemma sends_built_SendNack: "sends_built (SendNack now seqs)"
  by (rule sends_builtI [where info = "Nack_Info seqs"]) (simp add: SendNack_def)

lemma sends_built_Schedule: "sends_built (ScheduleSendRtcp now)"
  by (rule sends_builtI [where info = No_Info]) (auto simp: ScheduleSendRtcp_def Let_def)

lemma run_rtcp_ok:
  assumes "session_ok ms" and "sends_built call"
  shows "\<exists>ms' eff. run_rtcp rtp_time now call ms = Ok (ms', eff) \<and> session_ok ms'"
proof -
  obtain s where s: "ms_rtcp_sender ms = Some s" using assms(1) by (auto simp: session_ok_def)
  obtain cb ms1 where a: "session_answers rtp_time now s ms = Ok (cb, ms1)" "answers_for s cb" "session_ok ms1"
    "ms_rtcp_sender ms1 = Some s" "ms_config ms1 = ms_config ms"
    "HasSentRtp cb \<longrightarrow> ms_has_sent_rtp ms1" "HasReceivedRtp cb \<longrightarrow> ms_has_received_rtp ms1"
    using session_answers_ok [OF assms(1) s] by blast
  obtain s' eff where c: "call cb s = Ok (s', eff)" "rs_config s' = rs_config s"
    "sent eff = None \<longrightarrow> has_sent_rtp s' = has_sent_rtp s \<and> has_received_rtp s' = has_received_rtp s"
    "sent eff \<noteq> None \<longrightarrow> (has_sent_rtp s' \<longrightarrow> HasSentRtp cb) \<and> (has_received_rtp s' \<longrightarrow> HasReceivedRtp cb)"
    using assms(2) [unfolded sends_built_def, rule_format, OF a(2)] by (elim exE conjE) (rule that)
  have "session_ok ((case sent eff of None \<Rightarrow> ms | Some _ \<Rightarrow> ms1)\<lparr>ms_rtcp_sender := Some s'\<rparr>)"
    using assms(1) s a c by (cases "sent eff") (auto simp: session_ok_def)
  then show ?thesis using s a(1) c(1) by (simp add: run_rtcp_def deref_def)
qed

lemma OnRtpPacket_has_received:
  "OnRtpPacket td clk p r = Ok (out, r') \<Longrightarrow> r_has_received r \<Longrightarrow> r_has_received r'"
  by (auto simp: OnRtpPacket_def obind_eq_Ok_conv omap_eq_Ok_conv Let_def case_prod_beta split: option.splits if_splits)

lemma session_bye_ok: "session_ok ms \<Longrightarrow> session_ok (session_NotifyByeReceived ms)"
  by (simp add: session_NotifyByeReceived_def session_ok_def)

lemma session_new_sender_ok: "session_ok ms \<Longrightarrow> session_ok (ms\<lparr>ms_rtp_sender := Some s\<rparr>)"
  by (auto simp: session_ok_def)

lemma session_notified_ok:
  "session_notified random_seq ns ms = Ok (ps, ms') \<Longrightarrow> session_ok ms \<Longrightarrow> session_ok ms'"
proof (induction random_seq ns ms arbitrary: ps ms' rule: session_notified.induct)
  case (2 random_seq ns ms)
  then show ?case using session_bye_ok by simp
next
  case (3 random_seq seqs ns ms)
  obtain qs ms1 rs where one: "session_NotifyNackReceived random_seq seqs ms = Ok (qs, ms1)"
    and rest: "session_notified random_seq ns ms1 = Ok (rs, ms')"
    using "3.prems"(1) by (auto simp: obind_eq_Ok_conv omap_eq_Ok_conv)
  have "session_ok ms1" using one "3.prems"(2)
    by (auto simp: session_NotifyNackReceived_def deref_def omap_eq_Ok_conv session_new_sender_ok
        split: option.splits if_splits)
  then show ?case using "3.IH" one rest by blast
qed simp

section \<open>Every run of a session\<close>

inductive session_reachable :: "media_session \<Rightarrow> bool" where
  initialize: "session_reachable ms" if "session_Initialize now name c = Ok (ms, eff)"
| send_bye: "session_reachable ms'" if "session_reachable ms" and "session_SendBye rtp_time now ms = Ok (ms', eff)"
| schedule: "session_reachable ms'" if "session_reachable ms" and "session_Schedule rtp_time now ms = Ok (ms', eff)"
| send_rtp: "session_reachable ms'" if "session_reachable ms" and "session_SendRtpPacket now packet ms = Ok (ps, ms')"
| on_rtcp: "session_reachable ms'" if "session_reachable ms" and "session_OnRtcp env random_seq d ms = Ok (ps, ms')"
| on_rtp: "session_reachable ms'"
    if "session_reachable ms" and "session_OnRtp transit_diff rtp_time clk p ms = Ok (ps, eff, ms')"

lemma session_OnRtp_ok:
  assumes "session_ok ms" and "session_OnRtp transit_diff rtp_time clk p ms = Ok (ps, eff, ms')"
  shows "session_ok ms'"
proof -
  obtain r out r' where r: "ms_rtp_receiver ms = Some r" and o: "OnRtpPacket transit_diff clk p r = Ok (out, r')"
    using assms(2) by (auto simp: session_OnRtp_def deref_def obind_eq_Ok_conv split: option.splits)
  let ?ms = "ms\<lparr>ms_rtp_receiver := Some r'\<rparr>"
  have ok: "session_ok ?ms" using assms(1) r OnRtpPacket_has_received [OF o] by (auto simp: session_ok_def)
  show ?thesis
  proof (cases "nack_seqs out")
    case None
    then show ?thesis using assms(2) r o ok by (simp add: session_OnRtp_def deref_def)
  next
    case (Some seqs)
    have "ms_initialized ?ms" using ok by (simp add: session_ok_def)
    then obtain ms1 eff1 where "session_NotifyLoss rtp_time (clk 4) seqs ?ms = Ok (ms1, eff1)" "session_ok ms1"
      using run_rtcp_ok [OF ok sends_built_SendNack, of rtp_time "clk 4" "clk 4" seqs]
      by (auto simp: session_NotifyLoss_def)
    then show ?thesis using assms(2) r o Some by (simp add: session_OnRtp_def deref_def)
  qed
qed

lemma session_reachable_ok: "session_reachable ms \<Longrightarrow> session_ok ms"
proof (induction rule: session_reachable.induct)
  case (initialize now name c ms eff)
  then show ?case by (rule session_Initialize_ok)
next
  case (send_bye ms rtp_time now ms' eff)
  then show ?case using run_rtcp_ok [OF send_bye.IH sends_built_SendBye, of rtp_time now]
    by (auto simp: session_SendBye_def split: if_splits)
next
  case (schedule ms rtp_time now ms' eff)
  then show ?case using run_rtcp_ok [OF schedule.IH sends_built_Schedule, of rtp_time now now]
    by (auto simp: session_Schedule_def)
next
  case (send_rtp ms now packet ps ms')
  then show ?case
    by (auto simp: session_SendRtpPacket_def deref_def omap_eq_Ok_conv session_new_sender_ok
        split: option.splits if_splits)
next
  case (on_rtcp ms env random_seq d ps ms')
  obtain r where r: "ms_rtcp_receiver ms = Some r" using on_rtcp.IH by (auto simp: session_ok_def)
  have "session_ok (ms\<lparr>ms_rtcp_receiver := Some r'\<rparr>)" for r' using on_rtcp.IH by (simp add: session_ok_def)
  then show ?case using on_rtcp.hyps(2) on_rtcp.IH r session_notified_ok
    by (auto simp: session_OnRtcp_def deref_def split: outcome.splits)
next
  case (on_rtp ms transit_diff rtp_time clk p ps eff ms')
  then show ?case using session_OnRtp_ok by blast
qed

text \<open>C14: In every state a media session can reach by its operations, sending a BYE, a NACK and a
  scheduled report never dereferences a null pointer: the statistics the RTCP sender asks the session
  for are there whenever its flags make it ask.\<close>

theorem session_rtcp_never_crashes:
  assumes "session_reachable ms"
  shows "(\<exists>x. session_SendBye rtp_time now ms = Ok x) \<and> (\<exists>x. session_NotifyLoss rtp_time now seqs ms = Ok x)
    \<and> (\<exists>x. session_Schedule rtp_time now ms = Ok x)"
  using session_reachable_ok [OF assms] run_rtcp_ok sends_built_SendBye sends_built_SendNack sends_built_Schedule
  unfolding session_SendBye_def session_NotifyLoss_def session_Schedule_def
  by (metis (no_types, lifting))

definition sample_media :: media_config where
  "sample_media = media_config_new\<lparr>mc_rtcp_report_interval_ms := 1000, mc_rtp_clock_rate_hz_local := 90000,
     mc_rtp_clock_rate_hz_remote := 90000, mc_ssrc_media_local := 1, mc_ssrc_media_remote := 2,
     mc_max_cache_duration_ms := 500, mc_rtp_payload_types_local := [96], mc_rtp_payload_types_remote := [96]\<rparr>"

theorem session_rtcp_never_crashes_witness:
  "\<exists>ms eff. session_Initialize 0 [97] sample_media = Ok (ms, eff) \<and> (\<exists>x. session_SendBye (\<lambda>_ _ _. 0) 5 ms = Ok x)"
proof -
  obtain ms eff where i: "session_Initialize 0 [97] sample_media = Ok (ms, eff)"
    by (simp add: session_Initialize_def sample_media_def media_config_new_def sender_Initialize_def
        rtp_sender_config_of_def rtcp_sender_Initialize_def Let_def receiver_Initialize_def rtp_receiver_config_of_def)
  show ?thesis
    using session_rtcp_never_crashes [OF session_reachable.initialize [OF i], of "\<lambda>_ _ _. 0" 5 "[]"] i by blast
qed

end
