(* ===== verification/Worker_Thread.thy ===== *)
theory Worker_Thread
  imports Qos_Prelude "HOL-Library.Multiset" "HOL-Library.Sublist"
begin

text \<open>
  \<open>src/utils/thread.h/.cc\<close>: the class \<open>Thread\<close>, a queue of tasks and a list of delayed tasks that one
  loop, \<open>ThreadMain\<close>, takes from. A task is an opaque value of type \<open>'f\<close>. \<open>PushTask\<close> holds \<open>mutex_\<close>, and
  so does the loop while it takes tasks, so each is one step; tasks run between the steps and may
  themselves call the methods. \<open>Start\<close> and \<open>Stop\<close>, which the owner of the thread calls one at a time, release the
  mutex between their test and their update. \<open>Stop\<close> is therefore two steps, the request and, after the join, the
  clearing of the queues, with pushes and rounds of the loop in between. \<open>Start\<close> is one step: until it has set
  \<open>runing_\<close> every push is refused, so that a loop that runs already finds nothing to take.
\<close>

section \<open>State and operations\<close>

record 'f worker =
  task_queue :: "'f list"
  delayed_task_list :: "(u64 \<times> 'f) list"
  runing :: bool
  should_stop :: bool
  wait_duration :: u64

definition kForever :: u64 where
  "kForever = - 1"

definition worker_new :: "'f worker" where
  "worker_new = \<lparr>task_queue = [], delayed_task_list = [], runing = False, should_stop = False,
     wait_duration = kForever\<rparr>"

definition Start :: "'f worker \<Rightarrow> 'f worker" where
  "Start w = (if runing w then w
     else w\<lparr>should_stop := False, runing := True, wait_duration := kForever\<rparr>)"

definition Stop_request :: "'f worker \<Rightarrow> 'f worker" where
  "Stop_request w = (if \<not> runing w then w else w\<lparr>should_stop := True\<rparr>)"

definition Stop_finish :: "'f worker \<Rightarrow> 'f worker" where
  "Stop_finish w = w\<lparr>task_queue := [], delayed_task_list := [], should_stop := False, runing := False\<rparr>"

text \<open>The whole call when nothing comes in between.\<close>

definition Stop :: "'f worker \<Rightarrow> 'f worker" where
  "Stop w = (if \<not> runing w then w else Stop_finish (Stop_request w))"

definition PushTask :: "'f \<Rightarrow> 'f worker \<Rightarrow> 'f worker" where
  "PushTask f w = (if \<not> runing w then w else w\<lparr>task_queue := task_queue w @ [f]\<rparr>)"

definition PushDelayedTask :: "u64 \<Rightarrow> 'f \<Rightarrow> u64 \<Rightarrow> 'f worker \<Rightarrow> 'f worker" where
  "PushDelayedTask now f wait_duration_ms w = (if \<not> runing w then w
     else w\<lparr>delayed_task_list := delayed_task_list w @ [(now + wait_duration_ms, f)]\<rparr>)"

text \<open>The scan of the delayed tasks: the first one that is due is taken out. \<open>wait_duration_ms\<close> is
  lowered on the way to the execution times met, and to 0 when a task is taken.\<close>

fun scan_delayed :: "u64 \<Rightarrow> u64 \<Rightarrow> (u64 \<times> 'f) list \<Rightarrow> u64 \<times> (u64 \<times> 'f) option \<times> (u64 \<times> 'f) list" where
  "scan_delayed now wait [] = (wait, None, [])"
| "scan_delayed now wait ((t, f) # ds) =
     (let wait = (if t < wait then t else wait) in
      if t \<le> now then (0, Some (t, f), ds)
      else case scan_delayed now wait ds of (wait, found, ds') \<Rightarrow> (wait, found, (t, f) # ds'))"

text \<open>One round of the inner loop: the tasks to run (the queued one first) and the state.\<close>

definition take_tasks :: "u64 \<Rightarrow> 'f worker \<Rightarrow> 'f option \<times> (u64 \<times> 'f) option \<times> 'f worker" where
  "take_tasks now w =
     (case scan_delayed now (wait_duration w) (delayed_task_list w) of (wait, found, ds) \<Rightarrow>
        let w = w\<lparr>wait_duration := wait, delayed_task_list := ds\<rparr> in
        (case task_queue w of [] \<Rightarrow> (None, found, w)
         | f # fs \<Rightarrow> (Some f, found, w\<lparr>task_queue := fs\<rparr>)))"

text \<open>The inner loop ends when there is nothing to run; \<open>wait_task_->Wait\<close> is then called with
  \<open>wait_duration_ms\<close>, which the next round of the outer loop sets to \<open>kForever\<close> again.\<close>

definition idle_wait :: "u64 \<Rightarrow> 'f worker \<Rightarrow> u64 option" where
  "idle_wait now w = (case take_tasks now w of
     (None, None, w') \<Rightarrow> Some (wait_duration w') | _ \<Rightarrow> None)"

definition after_wait :: "'f worker \<Rightarrow> 'f worker" where
  "after_wait w = w\<lparr>wait_duration := kForever\<rparr>"

section \<open>What the scan does\<close>

lemma scan_delayed_found:
  "scan_delayed now wait ds = (wait', found, ds') \<Longrightarrow>
   (case found of None \<Rightarrow> ds' = ds \<and> (\<forall>x \<in> set ds. now < fst x)
    | Some x \<Rightarrow> fst x \<le> now \<and> mset ds = add_mset x (mset ds'))"
proof (induction now wait ds arbitrary: wait' found ds' rule: scan_delayed.induct)
  case (2 now wait t f ds)
  let ?w = "if t < wait then t else wait"
  show ?case
  proof (cases "t \<le> now")
    case False
    obtain w1 f1 d1 where s: "scan_delayed now ?w ds = (w1, f1, d1)" by (metis prod_cases3)
    with "2.IH" [OF refl False s] "2.prems" False show ?thesis
      by (auto simp: Let_def split: option.splits)
  qed (use "2.prems" in \<open>auto simp: Let_def\<close>)
qed simp

lemma scan_delayed_none:
  "scan_delayed now wait ds = (wait', None, ds') \<Longrightarrow> wait' = Min (insert wait (fst ` set ds))"
proof (induction now wait ds arbitrary: wait' ds' rule: scan_delayed.induct)
  case (2 now wait t f ds)
  let ?w = "if t < wait then t else wait"
  have nd: "\<not> t \<le> now" using "2.prems" by (auto simp: Let_def split: if_splits)
  obtain d1 where s: "scan_delayed now ?w ds = (wait', None, d1)"
    using "2.prems" nd by (auto simp: Let_def split: prod.splits if_splits)
  have "wait' = Min (insert ?w (fst ` set ds))" by (rule "2.IH" [OF refl nd s])
  moreover have "?w = min t wait" by (auto simp: min_def)
  ultimately show ?case
    by (cases "ds = []") (simp_all add: Min_insert min.assoc min.commute min.left_commute)
qed simp

section \<open>Every run of a worker\<close>

text \<open>A worker with its history: the tasks accepted and run so far, the delayed ones with their due time
  and, when run, the time of the round that took them.\<close>

record 'f history =
  worker :: "'f worker"
  pushed :: "'f list"
  executed :: "'f list"
  pushed_delayed :: "(u64 \<times> 'f) list"
  executed_delayed :: "(u64 \<times> u64 \<times> 'f) list"
  ever_stopped :: bool

definition history_new :: "'f history" where
  "history_new = \<lparr>worker = worker_new, pushed = [], executed = [], pushed_delayed = [], executed_delayed = [],
     ever_stopped = False\<rparr>"

definition opt_list :: "'a option \<Rightarrow> 'a list" where
  "opt_list x = (case x of None \<Rightarrow> [] | Some a \<Rightarrow> [a])"

inductive worker_step :: "'f history \<Rightarrow> 'f history \<Rightarrow> bool" where
  start: "worker_step h (h\<lparr>worker := Start (worker h)\<rparr>)"
| stop_request: "worker_step h (h\<lparr>worker := Stop_request (worker h)\<rparr>)"
| stop_finish: "worker_step h (h\<lparr>worker := Stop_finish (worker h), ever_stopped := True\<rparr>)" if "should_stop (worker h)"
| push: "worker_step h (h\<lparr>worker := PushTask f (worker h),
      pushed := pushed h @ (if runing (worker h) then [f] else [])\<rparr>)"
| push_delayed: "worker_step h (h\<lparr>worker := PushDelayedTask now f d (worker h),
      pushed_delayed := pushed_delayed h @ (if runing (worker h) then [(now + d, f)] else [])\<rparr>)"
| round: "worker_step h (h\<lparr>worker := w, executed := executed h @ opt_list f,
      executed_delayed := executed_delayed h @ map (\<lambda>(t, g). (t, now, g)) (opt_list x)\<rparr>)"
    if "runing (worker h)" and "take_tasks now (worker h) = (f, x, w)"
| wait: "worker_step h (h\<lparr>worker := after_wait (worker h)\<rparr>)"

definition history_ok :: "'f history \<Rightarrow> bool" where
  "history_ok h \<longleftrightarrow>
     subseq (executed h @ task_queue (worker h)) (pushed h)
     \<and> mset (map (\<lambda>(t, now, g). (t, g)) (executed_delayed h)) + mset (delayed_task_list (worker h)) \<subseteq># mset (pushed_delayed h)
     \<and> (\<forall>(t, now, g) \<in> set (executed_delayed h). t \<le> now)
     \<and> (\<not> ever_stopped h \<longrightarrow> pushed h = executed h @ task_queue (worker h)
          \<and> mset (pushed_delayed h) = mset (map (\<lambda>(t, now, g). (t, g)) (executed_delayed h)) + mset (delayed_task_list (worker h)))"

lemma take_tasks_split:
  assumes "take_tasks now w = (f, x, w')"
  shows "task_queue w = opt_list f @ task_queue w'
    \<and> mset (delayed_task_list w) = mset (opt_list x) + mset (delayed_task_list w')
    \<and> (\<forall>y \<in> set (opt_list x). fst y \<le> now)"
proof -
  obtain wait found ds where s: "scan_delayed now (wait_duration w) (delayed_task_list w) = (wait, found, ds)"
    by (metis prod_cases3)
  show ?thesis using assms scan_delayed_found [OF s] s
    by (auto simp: take_tasks_def opt_list_def Let_def split: list.splits option.splits)
qed

lemma subseq_drop_tail: "subseq (xs @ ys) zs \<Longrightarrow> subseq xs zs"
  by (metis subseq_order.order_trans list_emb_append2 subseq_order.order_refl subseq_rev_drop_many)

lemma mset_part: "A + B \<subseteq># C \<Longrightarrow> A \<subseteq># C"
  by (meson mset_subset_eq_add_left subset_mset.order_trans)

lemma worker_step_ok:
  assumes "worker_step h h'" and "history_ok h"
  shows "history_ok h'"
  using assms
proof (induction rule: worker_step.induct)
  case (stop_finish h)
  then show ?case
    by (auto simp: history_ok_def Stop_finish_def dest: subseq_drop_tail mset_part)
next
  case (round h now f x w)
  have "map (\<lambda>(t, now, g). (t, g)) (map (\<lambda>(t, g). (t, now, g)) (opt_list x)) = opt_list x"
    by (cases x) (auto simp: opt_list_def)
  then show ?case using round.prems take_tasks_split [OF round.hyps(2)]
    by (auto simp: history_ok_def opt_list_def add_ac split: option.splits)
qed (auto simp: history_ok_def Start_def Stop_request_def PushTask_def PushDelayedTask_def after_wait_def
       append_assoc [symmetric] simp del: append_assoc intro: subset_mset.add_mono)

lemma history_new_ok: "history_ok history_new"
  by (simp add: history_ok_def history_new_def worker_new_def)

lemma worker_run_ok: "worker_step\<^sup>*\<^sup>* history_new h \<Longrightarrow> history_ok h"
  by (induction rule: rtranclp_induct) (auto intro: history_new_ok worker_step_ok)

text \<open>C17: In every interleaving of the methods of \<open>Thread\<close> with the rounds of its loop, the tasks run are
  tasks that were pushed, in the order they were pushed and each at most once, and no delayed task
  runs before its time or twice. As long as the thread is not stopped none is lost: what was pushed is
  what has run and what is still in the queue.\<close>

theorem worker_runs_tasks:
  assumes "worker_step\<^sup>*\<^sup>* history_new h"
  shows "subseq (executed h @ task_queue (worker h)) (pushed h)
    \<and> mset (map (\<lambda>(t, now, g). (t, g)) (executed_delayed h)) \<subseteq># mset (pushed_delayed h)
    \<and> list_all (\<lambda>(t, now, g). t \<le> now) (executed_delayed h)
    \<and> (ever_stopped h \<or> pushed h = executed h @ task_queue (worker h)
         \<and> mset (pushed_delayed h) = mset (map (\<lambda>(t, now, g). (t, g)) (executed_delayed h)) + mset (delayed_task_list (worker h)))"
  using worker_run_ok [OF assms] mset_part by (auto simp: history_ok_def list_all_iff)

lemma sample_history:
  obtains h :: "string history" where "worker_step\<^sup>*\<^sup>* history_new h" and "executed h = [''a'']" and "pushed h = [''a'', ''b'']"
    and "executed_delayed h = [(5, 7, ''c'')]"
proof -
  note step = rtranclp.rtrancl_into_rtrancl [where r = worker_step]
  define h1 :: "string history" where "h1 = history_new\<lparr>worker := Start (worker history_new)\<rparr>"
  have h1: "worker_step\<^sup>*\<^sup>* history_new h1"
    unfolding h1_def by (rule step [OF rtranclp.rtrancl_refl worker_step.start])
  define h2 where "h2 = h1\<lparr>worker := PushTask ''a'' (worker h1),
      pushed := pushed h1 @ (if runing (worker h1) then [''a''] else [])\<rparr>"
  have h2: "worker_step\<^sup>*\<^sup>* history_new h2" unfolding h2_def by (rule step [OF h1 worker_step.push])
  define h3 where "h3 = h2\<lparr>worker := PushTask ''b'' (worker h2),
      pushed := pushed h2 @ (if runing (worker h2) then [''b''] else [])\<rparr>"
  have h3: "worker_step\<^sup>*\<^sup>* history_new h3" unfolding h3_def by (rule step [OF h2 worker_step.push])
  define h4 where "h4 = h3\<lparr>worker := PushDelayedTask 4 ''c'' 1 (worker h3),
      pushed_delayed := pushed_delayed h3 @ (if runing (worker h3) then [(4 + 1, ''c'')] else [])\<rparr>"
  have h4: "worker_step\<^sup>*\<^sup>* history_new h4" unfolding h4_def by (rule step [OF h3 worker_step.push_delayed])
  note hs = h4_def h3_def h2_def h1_def history_new_def worker_new_def Start_def PushTask_def PushDelayedTask_def
  obtain f x w where t: "take_tasks 7 (worker h4) = (f, x, w)" by (metis prod_cases3)
  then have "f = Some ''a''" "x = Some (5, ''c'')"
    by (auto simp: hs take_tasks_def Let_def kForever_def)
  then have "worker_step\<^sup>*\<^sup>* history_new (h4\<lparr>worker := w, executed := executed h4 @ [''a''],
      executed_delayed := executed_delayed h4 @ [(5, 7, ''c'')]\<rparr>)"
    using step [OF h4 worker_step.round [OF _ t]] by (simp add: hs opt_list_def)
  then show ?thesis using that by (fastforce simp: hs)
qed

theorem worker_runs_tasks_witness:
  "\<exists>h. worker_step\<^sup>*\<^sup>* history_new h \<and> executed_delayed h = [(5, 7, ''c'')]
    \<and> subseq (executed h @ task_queue (worker h)) [''a'', ''b'']"
  using worker_runs_tasks sample_history by metis

text \<open>When the loop has nothing to run, what it passes to \<open>Wait\<close> as the longest duration is the
  execution time of the earliest delayed task, a time of the UTC clock and not the time left until
  then, which is shorter by all of the clock.\<close>

lemma idle_wait_is_absolute:
  assumes "idle_wait now w = Some d" and "wait_duration w = kForever" and "delayed_task_list w \<noteq> []"
  shows "d = Min (fst ` set (delayed_task_list w)) \<and> now < d \<and> task_queue w = []"
proof -
  obtain wait found ds where s: "scan_delayed now (wait_duration w) (delayed_task_list w) = (wait, found, ds)"
    by (metis prod_cases3)
  with assms(1) have f: "found = None" and d: "d = wait" and q: "task_queue w = []"
    by (auto simp: idle_wait_def take_tasks_def Let_def split: list.splits option.splits)
  let ?T = "fst ` set (delayed_task_list w)"
  have le: "t \<le> kForever" for t by (simp add: kForever_def)
  have "d = Min (insert kForever ?T)" using scan_delayed_none s f d assms(2) by metis
  also have "\<dots> = min kForever (Min ?T)" using assms(3) by (intro Min_insert) auto
  also have "\<dots> = Min ?T" using le [of "Min ?T"] by (auto simp: min_def)
  finally have m: "d = Min ?T" .
  moreover have "Min ?T \<in> ?T" using assms(3) by (intro Min_in) auto
  moreover have "\<forall>x \<in> set (delayed_task_list w). now < fst x" using scan_delayed_found [OF s] f by simp
  ultimately show ?thesis using q by auto
qed

lemma idle_wait_is_absolute_witness:
  "let w = worker_new\<lparr>runing := True, delayed_task_list := [(1700000005000, ''b''), (1700000001000, ''a'')]\<rparr>
   in idle_wait 1700000000000 w = Some 1700000001000 \<and> (1700000000000 :: u64) < 1700000001000"
proof -
  let ?w = "worker_new\<lparr>runing := True, delayed_task_list := [(1700000005000, ''b''), (1700000001000, ''a'')]\<rparr>"
  have "idle_wait 1700000000000 ?w = Some 1700000001000"
    by (simp add: idle_wait_def take_tasks_def Let_def worker_new_def kForever_def)
  with idle_wait_is_absolute [OF this] show ?thesis by (simp add: worker_new_def Let_def)
qed

section \<open>Due tasks are run\<close>

text \<open>\<open>n\<close> rounds of the inner loop at the same time, nothing being pushed meanwhile.\<close>

fun rounds :: "u64 \<Rightarrow> nat \<Rightarrow> 'f worker \<Rightarrow> (u64 \<times> 'f) list \<times> 'f worker" where
  "rounds now 0 w = ([], w)"
| "rounds now (Suc n) w =
     (case take_tasks now w of (f, x, w) \<Rightarrow>
        case rounds now n w of (xs, w) \<Rightarrow> (opt_list x @ xs, w))"

definition due :: "u64 \<Rightarrow> 'f worker \<Rightarrow> (u64 \<times> 'f) list" where
  "due now w = filter (\<lambda>x. fst x \<le> now) (delayed_task_list w)"

lemma take_tasks_due:
  assumes "take_tasks now w = (f, x, w')"
  shows "mset (due now w) = mset (opt_list x) + mset (due now w') \<and> (x = None \<longrightarrow> due now w = [])"
proof -
  obtain wait found ds where s: "scan_delayed now (wait_duration w) (delayed_task_list w) = (wait, found, ds)"
    by (metis prod_cases3)
  have x: "found = x" and ds: "delayed_task_list w' = ds"
    using assms s by (auto simp: take_tasks_def Let_def split: list.splits)
  have "mset (due now w) = filter_mset (\<lambda>x. fst x \<le> now) (mset (delayed_task_list w))"
    by (simp add: due_def)
  then show ?thesis using scan_delayed_found [OF s] x ds
    by (cases found) (auto simp: due_def opt_list_def filter_empty_conv not_le)
qed

text \<open>C33: Of the delayed tasks that are due, each is run within as many rounds of the loop as there are
  such tasks, whatever their order in the list, and then none is left.\<close>

theorem due_tasks_run:
  "\<exists>xs w'. rounds now (length (due now w)) w = (xs, w') \<and> mset xs = mset (due now w) \<and> due now w' = []"
proof (induction "length (due now w)" arbitrary: w)
  case 0
  then show ?case by simp
next
  case (Suc n)
  obtain f x w1 where t: "take_tasks now w = (f, x, w1)" by (metis prod_cases3)
  have m: "mset (due now w) = mset (opt_list x) + mset (due now w1)" and "x \<noteq> None"
    using take_tasks_due [OF t] Suc.hyps(2) by auto
  then have "length (due now w) = 1 + length (due now w1)"
    by (auto simp: opt_list_def simp flip: size_mset)
  then have n: "n = length (due now w1)" using Suc.hyps(2) by simp
  obtain xs w' where "rounds now n w1 = (xs, w')" "mset xs = mset (due now w1)" "due now w' = []"
    using Suc.hyps(1) [OF n] n by auto
  then show ?case using Suc.hyps(2) t m by (simp flip: Suc.hyps(2))
qed

end
