(* ===== verification/Io_Scheduler.thy ===== *)
theory Io_Scheduler
  imports Worker_Thread
begin

text \<open>
  \<open>src/network/network_io_scheduler.h/.cc\<close>: \<open>NetworkIoScheduler\<close>, the list of handlers of the network
  thread and the loop \<open>Wait\<close>, which waits for their sockets and for the signal of \<open>WaitUp\<close>. What
  Winsock reports is a parameter: a round of the loop is given the handlers registered then, the
  outcome of \<open>WSAWaitForMultipleEvents\<close> and the clock afterwards.
\<close>

unbundle bit_operations_syntax

section \<open>Handlers\<close>

text \<open>A handler is its identity and its socket; \<open>INVALID_SOCKET\<close> is \<open>None\<close>. The signaler, which has no
  socket, is number 0.\<close>

record handler =
  h_id :: nat
  h_socket :: "nat option"

definition AddHandler :: "handler option \<Rightarrow> handler list \<Rightarrow> handler list" where
  "AddHandler handler hs =
     (case handler of None \<Rightarrow> hs
      | Some h \<Rightarrow> if list_ex (\<lambda>x. h_id h = h_id x \<or> h_socket h = h_socket x) hs then hs else hs @ [h])"

fun erase_handler :: "nat \<Rightarrow> handler list \<Rightarrow> handler list" where
  "erase_handler i [] = []"
| "erase_handler i (h # hs) = (if h_id h = i then hs else h # erase_handler i hs)"

definition RemoveHandler :: "handler option \<Rightarrow> handler list \<Rightarrow> handler list" where
  "RemoveHandler handler hs = (case handler of None \<Rightarrow> hs | Some h \<Rightarrow> erase_handler (h_id h) hs)"

text \<open>The constructor: the signaler adds itself when its event could be created.\<close>

definition signaler :: handler where
  "signaler = \<lparr>h_id = 0, h_socket = None\<rparr>"

definition scheduler_new :: "bool \<Rightarrow> handler list" where
  "scheduler_new wsa_event = (if wsa_event then AddHandler (Some signaler) [] else [])"

section \<open>Events\<close>

definition kRead :: u32 where "kRead = 0x0001"
definition kWrite :: u32 where "kWrite = 0x0002"
definition kConnect :: u32 where "kConnect = 0x0004"
definition kClose :: u32 where "kClose = 0x0008"
definition kAccept :: u32 where "kAccept = 0x0010"

datatype wsa_event = FD_READ | FD_WRITE | FD_CONNECT | FD_ACCEPT | FD_CLOSE

definition FlagsToEvents :: "u32 \<Rightarrow> wsa_event list" where
  "FlagsToEvents events = FD_CLOSE
     # (if events AND kRead \<noteq> 0 then [FD_READ] else [])
     @ (if events AND kWrite \<noteq> 0 then [FD_WRITE] else [])
     @ (if events AND kConnect \<noteq> 0 then [FD_CONNECT] else [])
     @ (if events AND kAccept \<noteq> 0 then [FD_ACCEPT] else [])"

record wsa_network_events =
  lNetworkEvents :: "wsa_event list"
  iErrorCode :: "wsa_event \<Rightarrow> int"

text \<open>What is passed to \<open>OnEvent\<close>: the flags and the error code.\<close>

definition event_flags :: "wsa_network_events \<Rightarrow> u32 \<times> int" where
  "event_flags ev =
     (let has = (\<lambda>e. e \<in> set (lNetworkEvents ev));
          ff = (if has FD_READ then kRead else 0);
          ff = (if has FD_WRITE then ff OR kWrite else ff);
          (ff, errcode) =
            (if has FD_CONNECT then
               (if iErrorCode ev FD_CONNECT = 0 then (ff OR kConnect, 0)
                else (ff OR kClose, iErrorCode ev FD_CONNECT))
             else (ff, 0));
          ff = (if has FD_ACCEPT then ff OR kAccept else ff)
      in if has FD_CLOSE then (ff OR kClose, iErrorCode ev FD_CLOSE) else (ff, errcode))"

section \<open>The loop\<close>

text \<open>A wait fails, times out, ends with the signaler's event or with the socket event; then
  \<open>WSAEnumNetworkEvents\<close> gives the events of each socket, or fails for it.\<close>

datatype wait_result = Wait_Failed | Wait_Timeout | Wait_Signal | Wait_Sockets "nat \<Rightarrow> wsa_network_events option"

record wait_round =
  round_handlers :: "handler list"
  round_result :: wait_result
  round_clock :: u64

text \<open>The time out of a round, a \<open>DWORD\<close>: the remaining time as a signed 64-bit number, cut to 32 bits.\<close>

definition milis_wait :: "u64 \<Rightarrow> u64 \<Rightarrow> u32" where
  "milis_wait wait_total elapsed = (if wait_total = kForever then - 1 else word_of_int (max 0 (sint (wait_total - elapsed))))"

text \<open>The calls of \<open>OnEvent\<close> in a round, and whether the signaler's sets \<open>wait_break_\<close>.\<close>

definition socket_calls :: "(nat \<Rightarrow> wsa_network_events option) \<Rightarrow> handler \<Rightarrow> (nat \<times> u32 \<times> int) list" where
  "socket_calls report h =
     (case h_socket h of None \<Rightarrow> []
      | Some s \<Rightarrow> (case report s of None \<Rightarrow> []
          | Some ev \<Rightarrow> if fst (event_flags ev) \<noteq> 0 then [(h_id h, event_flags ev)] else []))"

definition handle_round :: "wait_round \<Rightarrow> bool \<times> (nat \<times> u32 \<times> int) list" where
  "handle_round r =
     (case round_result r of
        Wait_Signal \<Rightarrow> (list_ex (\<lambda>h. h_id h = h_id signaler) (round_handlers r), [])
      | Wait_Sockets report \<Rightarrow> (False, concat (map (socket_calls report) (round_handlers r)))
      | _ \<Rightarrow> (False, []))"

text \<open>\<open>Wait\<close>: whether it has returned within the rounds, the time outs it used and the calls it made.\<close>

fun wait_rounds ::
  "u64 \<Rightarrow> u64 \<Rightarrow> u64 \<Rightarrow> wait_round list \<Rightarrow> bool \<times> u32 list \<times> (nat \<times> u32 \<times> int) list" where
  "wait_rounds time_wait_begin wait_total elapsed [] = (False, [], [])"
| "wait_rounds time_wait_begin wait_total elapsed (r # rs) =
     (let w = milis_wait wait_total elapsed in
      if round_result r = Wait_Failed \<or> round_result r = Wait_Timeout then (True, [w], [])
      else case handle_round r of (wait_break, calls) \<Rightarrow>
        let elapsed = round_clock r - time_wait_begin in
        if wait_break \<or> (elapsed \<ge> wait_total \<and> wait_total \<noteq> kForever) then (True, [w], calls)
        else case wait_rounds time_wait_begin wait_total elapsed rs of (returned, ws, cs) \<Rightarrow>
          (returned, w # ws, calls @ cs))"

definition Wait :: "u64 \<Rightarrow> u64 \<Rightarrow> wait_round list \<Rightarrow> bool \<times> u32 list \<times> (nat \<times> u32 \<times> int) list" where
  "Wait now max_wait_duration_ms rs = wait_rounds now max_wait_duration_ms 0 rs"

section \<open>Properties\<close>

text \<open>No two handlers are the same or have the same socket.\<close>

definition handlers_ok :: "handler list \<Rightarrow> bool" where
  "handlers_ok hs \<longleftrightarrow> distinct (map h_id hs) \<and> distinct (map h_socket hs)"

lemma AddHandler_ok: "handlers_ok hs \<Longrightarrow> handlers_ok (AddHandler h hs)"
  by (auto simp: handlers_ok_def AddHandler_def list_ex_iff split: option.split)

lemma erase_handler_subset: "set (erase_handler i hs) \<subseteq> set hs"
  by (induction i hs rule: erase_handler.induct) auto

lemma RemoveHandler_ok:
  assumes "handlers_ok hs"
  shows "handlers_ok (RemoveHandler h hs)"
proof -
  have "handlers_ok hs \<Longrightarrow> handlers_ok (erase_handler i hs)" for i
  proof (induction i hs rule: erase_handler.induct)
    case (2 i h hs)
    then show ?case using erase_handler_subset [of i hs] by (auto simp: handlers_ok_def image_def)
  qed simp
  then show ?thesis using assms by (simp add: RemoveHandler_def split: option.split)
qed

lemma erase_handler_set:
  "distinct (map h_id hs) \<Longrightarrow> set (erase_handler i hs) = {h \<in> set hs. h_id h \<noteq> i}"
  by (induction i hs rule: erase_handler.induct) (auto simp: image_iff)

text \<open>A handler is called at most once in a round, with the events of its own socket.\<close>

lemma round_calls_once:
  assumes "handlers_ok (round_handlers r)" and "h \<in> set (round_handlers r)"
    and "round_result r = Wait_Sockets report"
  shows "filter (\<lambda>c. fst c = h_id h) (snd (handle_round r)) = socket_calls report h"
proof -
  have own: "filter (\<lambda>c. fst c = i) (socket_calls report g) = (if h_id g = i then socket_calls report g else [])" for g i
    by (auto simp: socket_calls_def split: option.splits)
  have "distinct (map h_id hs) \<Longrightarrow> h \<in> set hs \<Longrightarrow>
      filter (\<lambda>c. fst c = h_id h) (concat (map (socket_calls report) hs)) = socket_calls report h" for hs
  proof (induction hs)
    case (Cons g hs)
    have none: "h_id h \<notin> h_id ` set hs \<Longrightarrow> filter (\<lambda>c. fst c = h_id h) (concat (map (socket_calls report) hs)) = []"
      by (force simp: filter_empty_conv socket_calls_def image_iff split: option.splits if_splits)
    show ?case
    proof (cases "g = h")
      case True
      then show ?thesis using Cons.prems none own [of "h_id h" h] by (simp add: filter_concat)
    next
      case False
      then have "h \<in> set hs" and "h_id g \<noteq> h_id h" using Cons.prems by (auto simp: image_iff)
      then show ?thesis using Cons own [of "h_id h" g] by simp
    qed
  qed simp
  then show ?thesis using assms by (simp add: handle_round_def handlers_ok_def)
qed

text \<open>The time outs: the time left, as long as that fits 32 bits, and in general only its low 32 bits.\<close>

lemma milis_wait_remaining:
  assumes "wait_total \<noteq> kForever" and "elapsed \<le> wait_total" and "unat (wait_total - elapsed) < 2 ^ 63"
  shows "milis_wait wait_total elapsed = of_nat (unat (wait_total - elapsed))"
proof -
  have "sint (wait_total - elapsed) = int (unat (wait_total - elapsed))"
    using assms(3) by (intro sint_small) simp
  then show ?thesis using assms(1) by (simp add: milis_wait_def)
qed

end
