(* ===== verification/Rtp_Transport.thy ===== *)
theory Rtp_Transport
  imports Rtcp_Exchange Rtp_Codec
begin

text \<open>
  The way of a packet between the media sessions and the socket: \<open>RtpRtcpTranceiverImpl::SendRtp\<close>
  (\<open>src/rtp_rtcp/rtp_rtcp_tranceiver_impl.cc\<close>; \<open>SendRtcp\<close> is in theory \<open>Rtcp_Packets\<close>), the
  classification of received datagrams (\<open>rtp_rtcp_demuxer.cc\<close>) and the routing to the media sessions
  (\<open>rtp_rtcp_router.cc\<close>). Each operation is modelled as it runs on its own thread; the switch of
  threads is in theory \<open>Worker_Thread\<close>. A datagram is a list of bytes.
\<close>

section \<open>Sending RTP\<close>

text \<open>A packet that cannot be written gives a null buffer, which the network transceiver uses.\<close>

definition tranceiver_SendRtp :: "u8 \<Rightarrow> rtp_packet option \<Rightarrow> (rtp_error, bytes option) outcome" where
  "tranceiver_SendRtp fill packet =
     (case packet of None \<Rightarrow> Ok None
      | Some p \<Rightarrow> (case LoadPacket fill p of
          Ok b \<Rightarrow> Ok (Some (db_contents b)) | Failed _ \<Rightarrow> Crash Null_Dereference | Crash c \<Rightarrow> Crash c))"

section \<open>The demuxer\<close>

definition HasCorrectRtpVersion :: "bytes \<Rightarrow> ('e, bool) outcome" where
  "HasCorrectRtpVersion d = omap (\<lambda>b. drop_bit 6 b = 2) (get_byte d 0)"

definition PayloadTypeIsReservedForRtcp :: "u8 \<Rightarrow> bool" where
  "PayloadTypeIsReservedForRtcp pt \<longleftrightarrow> 64 \<le> pt \<and> pt < 96"

definition IsRtp :: "bytes \<Rightarrow> ('e, bool) outcome" where
  "IsRtp d =
     (if length d < 12 then Ok False
      else obind (HasCorrectRtpVersion d) (\<lambda>version.
        if \<not> version then Ok False
        else omap (\<lambda>b. \<not> PayloadTypeIsReservedForRtcp (b AND 0x7f)) (get_byte d 1)))"

definition IsRtcp :: "bytes \<Rightarrow> ('e, bool) outcome" where
  "IsRtcp d =
     (if length d < 4 then Ok False
      else obind (HasCorrectRtpVersion d) (\<lambda>version.
        if \<not> version then Ok False
        else omap (\<lambda>b. PayloadTypeIsReservedForRtcp (b AND 0x7f)) (get_byte d 1)))"

text \<open>One round of the loop of \<open>OnData\<close>, and the two calls after it, which use \<open>callback_\<close> without the
  test the loop makes.\<close>

definition demux_one ::
  "bool \<Rightarrow> bytes option \<Rightarrow> rtp_packet list \<times> bytes list \<Rightarrow> (rtp_error, rtp_packet list \<times> bytes list) outcome" where
  "demux_one has_callback data_buffer = (\<lambda>(rtps, rtcps).
     case data_buffer of None \<Rightarrow> Ok (rtps, rtcps)
     | Some d \<Rightarrow>
       if \<not> has_callback then Ok (rtps, rtcps)
       else obind (IsRtp d) (\<lambda>rtp.
         if rtp then
           (case StorePacket rtp_empty d of Ok p \<Rightarrow> Ok (rtps @ [p], rtcps)
            | Failed _ \<Rightarrow> Ok (rtps, rtcps) | Crash c \<Rightarrow> Crash c)
         else omap (\<lambda>rtcp. if rtcp then (rtps, rtcps @ [d]) else (rtps, rtcps)) (IsRtcp d)))"

definition OnData ::
  "bool \<Rightarrow> bytes option list \<Rightarrow> (rtp_error, rtp_packet list \<times> bytes list) outcome" where
  "OnData has_callback data_buffers =
     obind (ofold (demux_one has_callback) data_buffers ([], [])) (\<lambda>r.
       if has_callback then Ok r else Crash Null_Dereference)"

section \<open>The router\<close>

text \<open>Destinations are identified by numbers; \<open>expects d s\<close> is \<open>d->IsExpectedRemoteSsrc(s)\<close>, which
  depends on the configuration of the destination only.\<close>

record router =
  rtp_destinations :: "nat list"
  rtcp_destinations :: "nat list"

definition router_new :: router where
  "router_new = \<lparr>rtp_destinations = [], rtcp_destinations = []\<rparr>"

definition add_dst :: "nat \<Rightarrow> nat list \<Rightarrow> nat list" where
  "add_dst d dsts = (if d \<in> set dsts then dsts else dsts @ [d])"

definition AddRtpDst :: "nat \<Rightarrow> router \<Rightarrow> router" where
  "AddRtpDst d r = r\<lparr>rtp_destinations := add_dst d (rtp_destinations r)\<rparr>"

definition RemoveRtpDst :: "nat \<Rightarrow> router \<Rightarrow> router" where
  "RemoveRtpDst d r = r\<lparr>rtp_destinations := remove1 d (rtp_destinations r)\<rparr>"

definition AddRtcpDst :: "nat \<Rightarrow> router \<Rightarrow> router" where
  "AddRtcpDst d r = r\<lparr>rtcp_destinations := add_dst d (rtcp_destinations r)\<rparr>"

definition RemoveRtcpDst :: "nat \<Rightarrow> router \<Rightarrow> router" where
  "RemoveRtcpDst d r = r\<lparr>rtcp_destinations := remove1 d (rtcp_destinations r)\<rparr>"

text \<open>The calls of \<open>OnRtpPacket\<close> and \<open>OnRtcpPacket\<close> that \<open>OnRtp\<close> and \<open>OnRtcp\<close> make, in order: a packet goes
  to the first destination that expects its SSRC, a datagram to every destination.\<close>

fun route_rtp :: "(nat \<Rightarrow> u32 \<Rightarrow> bool) \<Rightarrow> nat list \<Rightarrow> rtp_packet list \<Rightarrow> (nat \<times> rtp_packet) list" where
  "route_rtp expects dsts [] = []"
| "route_rtp expects dsts (p # packets) =
     (case find (\<lambda>d. expects d (ssrc p)) dsts of
        None \<Rightarrow> route_rtp expects dsts packets
      | Some d \<Rightarrow> (d, p) # route_rtp expects dsts packets)"

definition OnRtp :: "(nat \<Rightarrow> u32 \<Rightarrow> bool) \<Rightarrow> router \<Rightarrow> rtp_packet list \<Rightarrow> (nat \<times> rtp_packet) list" where
  "OnRtp expects r packets = route_rtp expects (rtp_destinations r) packets"

definition OnRtcp :: "router \<Rightarrow> bytes list \<Rightarrow> (nat \<times> bytes) list" where
  "OnRtcp r data_buffers = concat (map (\<lambda>d. map (\<lambda>dst. (dst, d)) (rtcp_destinations r)) data_buffers)"

section \<open>Classification\<close>

text \<open>The two classes of datagrams, in numbers.\<close>

definition is_rtp :: "bytes \<Rightarrow> bool" where
  "is_rtp d \<longleftrightarrow> 12 \<le> length d \<and> unat (d ! 0) div 64 = 2 \<and> unat (d ! 1) mod 128 \<notin> {64..<96}"

definition is_rtcp :: "bytes \<Rightarrow> bool" where
  "is_rtcp d \<longleftrightarrow> 4 \<le> length d \<and> unat (d ! 0) div 64 = 2 \<and> unat (d ! 1) mod 128 \<in> {64..<96}"

lemma is_rtp_eq: "is_rtp = (\<lambda>d. 12 \<le> length d \<and> unat (d ! 0) div 64 = 2 \<and> unat (d ! 1) mod 128 \<notin> {64..<96})"
  and is_rtcp_eq: "is_rtcp = (\<lambda>d. 4 \<le> length d \<and> unat (d ! 0) div 64 = 2 \<and> unat (d ! 1) mod 128 \<in> {64..<96})"
  by (rule ext, simp only: is_rtp_def is_rtcp_def)+

lemma version_value: "drop_bit 6 (b :: u8) = 2 \<longleftrightarrow> unat b div 64 = 2"
  by (simp add: word_unat_eq_iff unat_drop_bit_eq) (simp add: drop_bit_eq_div)

lemma reserved_value: "PayloadTypeIsReservedForRtcp (b AND 0x7f) \<longleftrightarrow> unat b mod 128 \<in> {64..<96}"
proof -
  have "b AND 0x7f = take_bit 7 b" by (simp add: take_bit_eq_mask mask_eq_exp_minus_1)
  then have "unat (b AND 0x7f) = unat b mod 128" by (simp add: take_bit_eq_mod unat_mod)
  then show ?thesis by (simp add: PayloadTypeIsReservedForRtcp_def word_le_nat_alt word_less_nat_alt)
qed

lemma classified: "IsRtp d = Ok (is_rtp d)" "IsRtcp d = Ok (is_rtcp d)"
  by (auto simp: IsRtp_def IsRtcp_def is_rtp_def is_rtcp_def HasCorrectRtpVersion_def get_byte_def version_value reserved_value)

fun parsed_rtp :: "bytes \<Rightarrow> rtp_packet list" where
  "parsed_rtp d = (case StorePacket rtp_empty d of Ok p \<Rightarrow> [p] | _ \<Rightarrow> [])"

lemma parsed_rtp_def: "parsed_rtp = (\<lambda>d. case StorePacket rtp_empty d of Ok p \<Rightarrow> [p] | _ \<Rightarrow> [])"
  by (rule ext) simp

lemma demux_fold:
  "ofold (demux_one True) bufs (rtps, rtcps)
    = Ok (rtps @ concat (map parsed_rtp (filter is_rtp (List.map_filter id bufs))),
          rtcps @ filter (\<lambda>d. \<not> is_rtp d \<and> is_rtcp d) (List.map_filter id bufs))"
proof (induction bufs arbitrary: rtps rtcps)
  case (Cons b bufs)
  show ?case
  proof (cases b)
    case (Some d)
    then show ?thesis using Cons.IH StorePacket_no_crash [of rtp_empty d]
      by (cases "StorePacket rtp_empty d") (auto simp: demux_one_def map_filter_simps classified)
  qed (use Cons.IH in \<open>simp add: demux_one_def map_filter_simps\<close>)
qed (simp add: map_filter_simps)

text \<open>C32: With a callback, no datagram takes \<open>OnData\<close> out of defined behaviour: the callback gets, in the
  order of arrival, the packets parsed from the datagrams of at least 12 bytes with version 2 and a payload type outside
  64 to 95, where they parse, and apart from them, unchanged, the datagrams of at least 4 bytes with version 2 and a type
  within; nothing else. Without a callback, \<open>OnData\<close> always dereferences the null pointer.\<close>

theorem demux_exact:
  "OnData True bufs =
     (let ds = List.map_filter id bufs;
          rtp = filter (\<lambda>d. 12 \<le> length d \<and> unat (d ! 0) div 64 = 2 \<and> unat (d ! 1) mod 128 \<notin> {64..<96}) ds;
          rtcp = filter (\<lambda>d. 4 \<le> length d \<and> unat (d ! 0) div 64 = 2 \<and> unat (d ! 1) mod 128 \<in> {64..<96}) ds
      in Ok (concat (map (\<lambda>d. case StorePacket rtp_empty d of Ok p \<Rightarrow> [p] | _ \<Rightarrow> []) rtp), rtcp))
   \<and> OnData False bufs = Crash Null_Dereference"
proof
  have "(\<not> is_rtp d \<and> is_rtcp d) = is_rtcp d" for d by (auto simp: is_rtp_def is_rtcp_def)
  then show "OnData True bufs =
     (let ds = List.map_filter id bufs;
          rtp = filter (\<lambda>d. 12 \<le> length d \<and> unat (d ! 0) div 64 = 2 \<and> unat (d ! 1) mod 128 \<notin> {64..<96}) ds;
          rtcp = filter (\<lambda>d. 4 \<le> length d \<and> unat (d ! 0) div 64 = 2 \<and> unat (d ! 1) mod 128 \<in> {64..<96}) ds
      in Ok (concat (map (\<lambda>d. case StorePacket rtp_empty d of Ok p \<Rightarrow> [p] | _ \<Rightarrow> []) rtp), rtcp))"
    unfolding OnData_def demux_fold Let_def is_rtp_eq [symmetric] is_rtcp_eq [symmetric] parsed_rtp_def [symmetric] by simp
  have "demux_one False b st = Ok st" for b st
    by (cases st; cases b) (simp_all add: demux_one_def)
  then have "ofold (demux_one False) bufs st = Ok st" for st
    by (induction bufs) simp_all
  then show "OnData False bufs = Crash Null_Dereference" by (simp add: OnData_def)
qed

text \<open>A packet as the applications of this program build it: no CSRC, no extension, no padding, and a
  payload.\<close>

definition plain :: "rtp_packet \<Rightarrow> bool" where
  "plain p \<longleftrightarrow> csrcs p = [] \<and> extension p = None \<and> pad_size p = 0 \<and> payload_bytes p \<noteq> []
     \<and> rtp_buffer_length p < 2 ^ 32"

lemma plain_sent:
  assumes "plain p"
  shows "tranceiver_SendRtp fill (Some p) = Ok (Some (rtp_image p))"
    and "StorePacket rtp_empty (rtp_image p) = Ok p"
proof -
  have "rtp_wf p" using assms by (simp add: plain_def rtp_wf_def extension_wf_def)
  then show "tranceiver_SendRtp fill (Some p) = Ok (Some (rtp_image p))"
    using LoadPacket_image [of p fill] by (auto simp: tranceiver_SendRtp_def)
  have "reparsed rtp_empty p = p" using assms
    by (cases "payload_buffer p") (auto simp: reparsed_def plain_def rtp_empty_def payload_bytes_def)
  then show "StorePacket rtp_empty (rtp_image p) = Ok p"
    using StorePacket_image [of p rtp_empty] assms by (simp add: plain_def)
qed

lemma octet_payload_type: "octet_m_pt p AND 0x7f = payload_type p"
  by (simp add: payload_type_def drop_bit_eq_div and.commute)

lemma rtp_image_class:
  assumes "plain p"
  shows "is_rtp (rtp_image p) = (\<not> PayloadTypeIsReservedForRtcp (payload_type p))"
    and "is_rtcp (rtp_image p) = PayloadTypeIsReservedForRtcp (payload_type p)"
proof -
  have "drop_bit 6 (rtp_head p) = 2"
    using head_bits [of 0] assms by (simp add: rtp_head_def plain_def)
  then have "unat (rtp_image p ! 0) div 64 = 2"
    by (simp add: rtp_image_parts version_value)
  moreover have "unat (rtp_image p ! 1) mod 128 \<in> {64..<96} \<longleftrightarrow> PayloadTypeIsReservedForRtcp (payload_type p)"
    by (simp only: rtp_image_parts reserved_value [symmetric] octet_payload_type)
  moreover note rtp_image_ge_12 [of p]
  ultimately show "is_rtp (rtp_image p) = (\<not> PayloadTypeIsReservedForRtcp (payload_type p))"
    and "is_rtcp (rtp_image p) = PayloadTypeIsReservedForRtcp (payload_type p)"
    unfolding is_rtp_def is_rtcp_def by simp_all
qed

text \<open>A datagram that starts with an RTCP packet of this program is RTCP.\<close>

lemma compound_class:
  assumes "packet_wf p"
  shows "is_rtcp (packet_image p @ rest) \<and> \<not> is_rtp (packet_image p @ rest)"
proof -
  obtain body where img: "packet_image p = header_image (of_nat (packet_count p)) (packet_code p)
      (of_nat ((rtcp_BlockLength p - 4) div 4)) @ body"
    using packet_image_layout [of p] by blast
  have "packet_count p \<le> 31" using packet_lengths [OF assms] by simp
  then have "drop_bit 6 (0x80 OR of_nat (packet_count p) :: u8) = 2"
    using count_bits [OF count_le_31] by blast
  moreover have "PayloadTypeIsReservedForRtcp (packet_code p AND 0x7f)"
    by (cases p) (simp_all add: PayloadTypeIsReservedForRtcp_def)
  then have "unat (packet_code p) mod 128 \<in> {64..<96}" by (simp only: reserved_value)
  ultimately show ?thesis
    by (simp add: is_rtcp_def is_rtp_def version_value [symmetric] img header_image_def)
qed

text \<open>C22: What one side sends reaches the other side's router: a plain RTP packet comes out of the
  peer's demuxer as the same packet, unless its payload type is one of 64 to 95 (which the
  configuration allows), when it comes out as an RTCP datagram; a compound of well-formed RTCP
  packets comes out as that datagram.\<close>

theorem transport_delivers:
  assumes "plain p" and "\<forall>q \<in> set (c # compound). packet_wf q"
    and "(\<Sum>q\<leftarrow>c # compound. rtcp_BlockLength q) < 2 ^ 32"
  shows "\<exists>rtp rtcp. tranceiver_SendRtp fill (Some p) = Ok (Some rtp)
    \<and> SendRtcp fill (map Some (c # compound)) = Ok (Some rtcp)
    \<and> OnData True [Some rtp, Some rtcp] = Ok
        (if PayloadTypeIsReservedForRtcp (payload_type p) then ([], [rtp, rtcp]) else ([p], [rtcp]))"
proof -
  let ?rtcp = "concat (map packet_image (c # compound))"
  have "SendRtcp fill (map Some (c # compound)) = Ok (Some ?rtcp)"
    using compound_is_concatenation [of "map Some (c # compound)" fill] assms(2,3) live_packets_Some [of "c # compound"]
    by simp
  moreover have "is_rtcp ?rtcp \<and> \<not> is_rtp ?rtcp" using compound_class [of c] assms(2) by simp
  ultimately show ?thesis
    using plain_sent [OF assms(1)] rtp_image_class [OF assms(1)]
    by (auto simp: OnData_def demux_one_def classified)
qed

theorem transport_delivers_witness:
  "\<exists>rtp rtcp. tranceiver_SendRtp 0 (Some (rtp_empty\<lparr>payload_buffer := Some [1, 2]\<rparr>)) = Ok (Some rtp)
    \<and> SendRtcp 0 (map Some [Bye_Packet bye_new]) = Ok (Some rtcp)
    \<and> OnData True [Some rtp, Some rtcp] = Ok ([rtp_empty\<lparr>payload_buffer := Some [1, 2]\<rparr>], [rtcp])"
  using transport_delivers [of "rtp_empty\<lparr>payload_buffer := Some [1, 2]\<rparr>" "Bye_Packet bye_new" "[]" 0]
  by (simp add: plain_def rtp_empty_def payload_bytes_def rtp_buffer_length_def extension_size_def bye_wf_def bye_new_def
      bye_BlockLength_def PayloadTypeIsReservedForRtcp_def payload_type_def)

section \<open>Routing\<close>

datatype router_op = Add_Rtp nat | Remove_Rtp nat | Add_Rtcp nat | Remove_Rtcp nat

fun router_step :: "router_op \<Rightarrow> router \<Rightarrow> router" where
  "router_step (Add_Rtp d) r = AddRtpDst d r"
| "router_step (Remove_Rtp d) r = RemoveRtpDst d r"
| "router_step (Add_Rtcp d) r = AddRtcpDst d r"
| "router_step (Remove_Rtcp d) r = RemoveRtcpDst d r"

text \<open>The abstract router: two sets.\<close>

fun set_step :: "router_op \<Rightarrow> nat set \<times> nat set \<Rightarrow> nat set \<times> nat set" where
  "set_step (Add_Rtp d) (A, B) = (insert d A, B)"
| "set_step (Remove_Rtp d) (A, B) = (A - {d}, B)"
| "set_step (Add_Rtcp d) (A, B) = (A, insert d B)"
| "set_step (Remove_Rtcp d) (A, B) = (A, B - {d})"

definition router_ok :: "router \<Rightarrow> bool" where
  "router_ok r \<longleftrightarrow> distinct (rtp_destinations r) \<and> distinct (rtcp_destinations r)"

definition router_sets :: "router \<Rightarrow> nat set \<times> nat set" where
  "router_sets r = (set (rtp_destinations r), set (rtcp_destinations r))"

lemma router_step_refines:
  "router_ok r \<Longrightarrow> router_ok (router_step op r) \<and> router_sets (router_step op r) = set_step op (router_sets r)"
  by (cases op) (auto simp: router_ok_def router_sets_def AddRtpDst_def RemoveRtpDst_def AddRtcpDst_def
      RemoveRtcpDst_def add_dst_def)

lemma router_run_refines:
  "router_ok r \<Longrightarrow> router_ok (fold router_step ops r)
     \<and> router_sets (fold router_step ops r) = fold set_step ops (router_sets r)"
  by (induction ops arbitrary: r) (auto simp: router_step_refines)

lemma route_rtp_exclusive:
  assumes "d \<in> set dsts" and "\<And>d' s. d' \<in> set dsts \<Longrightarrow> expects d s \<Longrightarrow> expects d' s \<Longrightarrow> d' = d"
  shows "map snd (filter (\<lambda>x. fst x = d) (route_rtp expects dsts ps)) = filter (\<lambda>p. expects d (ssrc p)) ps"
proof (induction ps)
  case (Cons p ps)
  show ?case
  proof (cases "find (\<lambda>d. expects d (ssrc p)) dsts")
    case None
    then have "\<not> expects d (ssrc p)" using assms(1) by (auto simp: find_None_iff)
    then show ?thesis using Cons.IH None by simp
  next
    case (Some d')
    then have "d' \<in> set dsts" "expects d' (ssrc p)" by (auto simp: find_Some_iff)
    then show ?thesis using Cons.IH Some assms(2) [of d' "ssrc p"] by auto
  qed
qed simp

lemma OnRtcp_each:
  assumes "distinct (rtcp_destinations r)" and "e \<in> set (rtcp_destinations r)"
  shows "map snd (filter (\<lambda>x. fst x = e) (OnRtcp r datagrams)) = datagrams"
proof -
  have "distinct dsts \<Longrightarrow> e \<in> set dsts \<Longrightarrow>
      map snd (filter (\<lambda>x. fst x = e) (map (\<lambda>dst. (dst, x)) dsts)) = [x]" for dsts and x :: bytes
    by (induction dsts) (auto simp: filter_empty_conv)
  then show ?thesis using assms by (induction datagrams) (auto simp: OnRtcp_def)
qed



end
