(* ===== verification/Network_Transport.thy ===== *)
theory Network_Transport
  imports Transport_Address Io_Scheduler Rtp_Transport
begin

text \<open>
  The socket: \<open>UdpNetworkTranceiver\<close> (\<open>src/network/network_tranceiver.h/.cc\<close>), the creation of the
  transceiver (\<open>rtp_rtcp/rtp_rtcp_tranceiver_impl.cc\<close>, \<open>rtp_rtcp_tranceiver.cc\<close>) and \<open>SessionStates\<close>
  (\<open>session/session_states.cc\<close>). What Winsock returns is a parameter: the record \<open>socket_os\<close> for the
  calls that set up the socket, and the datagrams that \<open>recvfrom\<close> delivers.
\<close>

section \<open>UdpNetworkTranceiver\<close>

text \<open>The answers of the system: \<open>socket\<close>, \<open>ioctlsocket\<close> and \<open>bind\<close>.\<close>

record socket_os =
  os_family :: "ip_family \<Rightarrow> u16"
  os_socket :: "ip_family \<Rightarrow> nat option"
  os_nonblocking :: "nat \<Rightarrow> bool"
  os_bind :: "nat \<Rightarrow> bytes \<Rightarrow> bool"

record network =
  open_sockets :: "nat list"
  net_handlers :: "handler list"

record udp_tranceiver =
  ut_id :: nat
  ut_scheduler :: bool
  ut_demuxer :: bool
  ut_events :: u32
  ut_sockfd :: "nat option"
  ut_local_address :: bytes
  ut_remote_address :: bytes

datatype network_error =
    Null_Parameter
  | Not_Udp
  | Families_Differ
  | Unknown_Family
  | Socket_Failed
  | Nonblocking_Failed
  | Bind_Failed
  | Tranceiver_Unavailable
  | Network_Tranceiver_Failed

definition udp_tranceiver_new :: "nat \<Rightarrow> udp_tranceiver" where
  "udp_tranceiver_new i = \<lparr>ut_id = i, ut_scheduler = False, ut_demuxer = False, ut_events = 0,
     ut_sockfd = None, ut_local_address = replicate 16 0, ut_remote_address = replicate 16 0\<rparr>"

definition network_Create :: "nat \<Rightarrow> transport_type \<Rightarrow> udp_tranceiver option" where
  "network_Create i t = (if t = kUdp then Some (udp_tranceiver_new i) else None)"

text \<open>The checks of \<open>BuildSocketAndConnect\<close> before the socket: with \<open>||\<close> the type of the remote address is
  only read when the local one is UDP. A failure also holds the network as it is then.\<close>

definition check_addresses ::
  "transport_address option \<Rightarrow> transport_address option \<Rightarrow> network \<Rightarrow>
   (network_error \<times> network, transport_address \<times> transport_address) outcome" where
  "check_addresses local_address remote_address net =
     deref local_address (\<lambda>l.
     if ta_type l \<noteq> kUdp then Failed (Not_Udp, net)
     else deref remote_address (\<lambda>r.
     if ta_type r \<noteq> kUdp then Failed (Not_Udp, net)
     else if ta_family l \<noteq> ta_family r then Failed (Families_Differ, net)
     else if ta_family l \<noteq> AF_INET \<and> ta_family l \<noteq> AF_INET6 then Failed (Unknown_Family, net)
     else Ok (l, r)))"

definition open_socket ::
  "socket_os \<Rightarrow> ip_family \<Rightarrow> network \<Rightarrow> (network_error \<times> network, nat \<times> network) outcome" where
  "open_socket os family net =
     (case os_socket os family of None \<Rightarrow> Failed (Socket_Failed, net)
      | Some s \<Rightarrow>
        let net' = net\<lparr>open_sockets := s # open_sockets net\<rparr> in
        if \<not> os_nonblocking os s then Failed (Nonblocking_Failed, net'\<lparr>open_sockets := remove1 s (open_sockets net')\<rparr>)
        else Ok (s, net'))"

definition BuildSocketAndConnect ::
  "socket_os \<Rightarrow> transport_address option \<Rightarrow> transport_address option \<Rightarrow> bool \<Rightarrow> bool \<Rightarrow> udp_tranceiver \<Rightarrow> network \<Rightarrow>
   (network_error \<times> network, udp_tranceiver \<times> network) outcome" where
  "BuildSocketAndConnect os local_address remote_address scheduler demuxer t net =
     (if \<not> scheduler \<or> \<not> demuxer then Failed (Null_Parameter, net)
      else obind (check_addresses local_address remote_address net) (\<lambda>(l, r).
        obind (open_socket os (ta_family l) net) (\<lambda>(s, net).
        obind (SaveToSockAddr (os_family os) l (ut_local_address t)) (\<lambda>local_mem.
        obind (SaveToSockAddr (os_family os) r (ut_remote_address t)) (\<lambda>remote_mem.
          if \<not> os_bind os s local_mem then Failed (Bind_Failed, net\<lparr>open_sockets := remove1 s (open_sockets net)\<rparr>)
          else
            let t' = t\<lparr>ut_sockfd := Some s, ut_local_address := local_mem, ut_remote_address := remote_mem,
                      ut_events := kRead, ut_scheduler := True, ut_demuxer := True\<rparr>
            in Ok (t', net\<lparr>net_handlers := AddHandler (Some \<lparr>h_id = ut_id t', h_socket = ut_sockfd t'\<rparr>) (net_handlers net)\<rparr>))))))"

text \<open>\<open>InitTranceiver\<close>, with the threads not null.\<close>

definition InitTranceiver ::
  "socket_os \<Rightarrow> nat \<Rightarrow> transport_address option \<Rightarrow> transport_address option \<Rightarrow> network \<Rightarrow>
   (network_error \<times> network, udp_tranceiver \<times> network) outcome" where
  "InitTranceiver os i local_address remote_address net =
     deref local_address (\<lambda>l.
     case network_Create i (ta_type l) of
       None \<Rightarrow> Failed (Tranceiver_Unavailable, net)
     | Some t \<Rightarrow>
       (case BuildSocketAndConnect os local_address remote_address True True t net of
          Ok r \<Rightarrow> Ok r
        | Failed (_, net') \<Rightarrow> Failed (Network_Tranceiver_Failed, net')
        | Crash c \<Rightarrow> Crash c))"

text \<open>\<open>RtpRtcpTranceiver::Create\<close>: a null pointer when \<open>InitTranceiver\<close> fails.\<close>

definition tranceiver_Create ::
  "socket_os \<Rightarrow> nat \<Rightarrow> transport_address option \<Rightarrow> transport_address option \<Rightarrow> network \<Rightarrow>
   (network_error, udp_tranceiver option \<times> network) outcome" where
  "tranceiver_Create os i local_address remote_address net =
     (case InitTranceiver os i local_address remote_address net of
        Ok (t, net') \<Rightarrow> Ok (Some t, net')
      | Failed (_, net') \<Rightarrow> Ok (None, net')
      | Crash c \<Rightarrow> Crash c)"

section \<open>SessionStates and sending\<close>

record session_states =
  has_sent_bye_state :: bool

definition session_states_new :: session_states where
  "session_states_new = \<lparr>has_sent_bye_state = False\<rparr>"

text \<open>\<open>GetInstance\<close> makes the one object at the first call.\<close>

definition states_GetInstance :: "session_states option \<Rightarrow> session_states" where
  "states_GetInstance inst = (case inst of None \<Rightarrow> session_states_new | Some s \<Rightarrow> s)"

definition NotifyByeSent :: "session_states \<Rightarrow> session_states" where
  "NotifyByeSent s = s\<lparr>has_sent_bye_state := True\<rparr>"

definition HasSentBye :: "session_states \<Rightarrow> bool" where
  "HasSentBye s = has_sent_bye_state s"

text \<open>\<open>Send\<close>: the datagram with its destination; the result of \<open>sendto\<close> is only logged.\<close>

definition udp_Send ::
  "bytes option \<Rightarrow> bool \<Rightarrow> udp_tranceiver \<Rightarrow> session_states option \<Rightarrow>
   ('e, (bytes \<times> bytes) \<times> session_states option) outcome" where
  "udp_Send data_buffer is_bye t states = deref data_buffer (\<lambda>d.
     Ok ((ut_remote_address t, d), if is_bye then Some (NotifyByeSent (states_GetInstance states)) else states))"

section \<open>Receiving\<close>

text \<open>One datagram: a buffer of its size, filled from \<open>recv_buffer_\<close>. \<open>recvfrom\<close> also stores the sender's
  address in \<open>remote_address_\<close>.\<close>

definition receive_buffer :: "u8 \<Rightarrow> bytes \<Rightarrow> (rtp_error, bytes) outcome" where
  "receive_buffer fill d =
     (let n = of_nat (length d) in
      omap (\<lambda>(_, b). db_contents b) (db_modify_at 0 d (db_set_size n (db_create fill n))))"

text \<open>\<open>received\<close>: what \<open>recvfrom\<close> delivers before it first fails, sender and datagram.\<close>

definition OnEvent ::
  "u8 \<Rightarrow> bool \<Rightarrow> u32 \<Rightarrow> (bytes \<times> bytes) list \<Rightarrow> udp_tranceiver \<Rightarrow>
   (rtp_error, (rtp_packet list \<times> bytes list) option \<times> udp_tranceiver) outcome" where
  "OnEvent fill has_callback ff received t =
     (if ff AND kRead = 0 then Ok (None, t)
      else obind (omapM (receive_buffer fill) (map snd received)) (\<lambda>buffers.
        let t = (if received = [] then t else t\<lparr>ut_remote_address := fst (last received)\<rparr>) in
        if \<not> ut_demuxer t then Ok (None, t)
        else omap (\<lambda>r. (Some r, t)) (OnData has_callback (map Some buffers))))"

section \<open>Setting up the socket\<close>

lemma check_addresses_Ok:
  "check_addresses local_address remote_address net = Ok (l, r) \<longleftrightarrow>
     local_address = Some l \<and> remote_address = Some r \<and> ta_type l = kUdp \<and> ta_type r = kUdp
     \<and> ta_family l = ta_family r \<and> ta_family l \<noteq> AF_UNSPEC"
  by (cases "ta_family l") (auto simp: check_addresses_def deref_def split: option.splits)

lemma check_addresses_Failed:
  "check_addresses local_address remote_address net = Failed (e, net') \<Longrightarrow> net' = net"
  by (auto simp: check_addresses_def deref_def split: option.splits if_splits)

lemma open_socket_cases:
  "open_socket os family net = Ok (s, net') \<Longrightarrow>
     os_socket os family = Some s \<and> os_nonblocking os s \<and> net' = net\<lparr>open_sockets := s # open_sockets net\<rparr>"
  "open_socket os family net = Failed (e, net'') \<Longrightarrow> net'' = net"
  by (auto simp: open_socket_def Let_def split: option.splits if_splits)

lemma SaveToSockAddr_not_failed: "SaveToSockAddr code a m \<noteq> Failed e"
  by (auto simp: SaveToSockAddr_def put_bytes_def split: if_splits)

text \<open>A failure leaves the network as it was: the socket is closed and nothing is registered.\<close>

lemma build_failure_closes:
  assumes "BuildSocketAndConnect os local_address remote_address sched dem t net = Failed (e, net')"
  shows "net' = net"
  using assms
  by (auto simp: BuildSocketAndConnect_def Let_def obind_eq_Failed_conv SaveToSockAddr_not_failed
      dest!: check_addresses_Failed open_socket_cases split: if_splits prod.splits)

text \<open>The 16 bytes of a \<open>sockaddr_in\<close>.\<close>

definition sockaddr_image :: "socket_os \<Rightarrow> transport_address \<Rightarrow> bytes" where
  "sockaddr_image os a = WriteLittleEndian 2 (os_family os AF_INET) @ WriteBigEndian 2 (ta_port a) @ ta_ipv4 a @ replicate 8 0"

lemma build_udp:
  assumes "address_ok l" and "address_ok r" and "ta_type l = kUdp" and "ta_type r = kUdp"
    and "ta_family l = ta_family r" and "os_socket os (ta_family l) = Some s" and "os_nonblocking os s"
  shows "ta_family l = AF_INET6 \<Longrightarrow>
      BuildSocketAndConnect os (Some l) (Some r) True True (udp_tranceiver_new i) net = Crash Out_Of_Bounds"
    and "ta_family l = AF_INET \<Longrightarrow> os_bind os s (sockaddr_image os l) \<Longrightarrow>
      BuildSocketAndConnect os (Some l) (Some r) True True (udp_tranceiver_new i) net
        = Ok (\<lparr>ut_id = i, ut_scheduler = True, ut_demuxer = True, ut_events = kRead, ut_sockfd = Some s,
               ut_local_address = sockaddr_image os l, ut_remote_address = sockaddr_image os r\<rparr>,
              \<lparr>open_sockets = s # open_sockets net,
               net_handlers = AddHandler (Some \<lparr>h_id = i, h_socket = Some s\<rparr>) (net_handlers net)\<rparr>)"
proof -
  have "check_addresses (Some l) (Some r) net = Ok (l, r)" if "ta_family l \<noteq> AF_UNSPEC"
    using assms that by (simp add: check_addresses_Ok)
  moreover have "open_socket os (ta_family l) net = Ok (s, net\<lparr>open_sockets := s # open_sockets net\<rparr>)"
    using assms by (simp add: open_socket_def)
  moreover have n: "length (replicate 16 (0 :: u8)) = 16" by simp
  ultimately show "ta_family l = AF_INET6 \<Longrightarrow>
      BuildSocketAndConnect os (Some l) (Some r) True True (udp_tranceiver_new i) net = Crash Out_Of_Bounds"
    and "ta_family l = AF_INET \<Longrightarrow> os_bind os s (sockaddr_image os l) \<Longrightarrow>
      BuildSocketAndConnect os (Some l) (Some r) True True (udp_tranceiver_new i) net
        = Ok (\<lparr>ut_id = i, ut_scheduler = True, ut_demuxer = True, ut_events = kRead, ut_sockfd = Some s,
               ut_local_address = sockaddr_image os l, ut_remote_address = sockaddr_image os r\<rparr>,
              \<lparr>open_sockets = s # open_sockets net,
               net_handlers = AddHandler (Some \<lparr>h_id = i, h_socket = Some s\<rparr>) (net_handlers net)\<rparr>)"
    using assms(1,2,5)
    by (simp_all add: BuildSocketAndConnect_def udp_tranceiver_new_def SaveToSockAddr_ipv6 SaveToSockAddr_ipv4
        sockaddr_image_def Let_def)
qed


definition sample_pton :: "ip_family \<Rightarrow> string \<Rightarrow> bytes option" where
  "sample_pton f ip = (if f = AF_INET \<and> ip = ''127.0.0.1'' then Some [127, 0, 0, 1]
     else if f = AF_INET6 \<and> ip = ''::1'' then Some (replicate 15 0 @ [1]) else None)"

definition sample_os :: socket_os where
  "sample_os = \<lparr>os_family = (\<lambda>f. if f = AF_INET then 2 else 23), os_socket = (\<lambda>_. Some 5),
     os_nonblocking = (\<lambda>_. True), os_bind = (\<lambda>_ _. True)\<rparr>"

definition sample_address :: "string \<Rightarrow> u16 \<Rightarrow> transport_address option" where
  "sample_address ip port = address_Create sample_pton ip port kUdp"

lemma sample_pton_sizes: "pton_sizes sample_pton"
  by (auto simp: pton_sizes_def sample_pton_def split: if_splits)

lemma sample_ipv4: "sample_address ''127.0.0.1'' port = Some \<lparr>ta_ip = ''127.0.0.1'', ta_port = port, ta_type = kUdp,
    ta_family = AF_INET, ta_ipv4 = [127, 0, 0, 1], ta_ipv6 = replicate 16 0\<rparr>"
  by (simp add: sample_address_def address_Create_def AssignIp_def ParseIpAddress_def sample_pton_def address_new_def
      AssignPort_def SetTransportProtocolType_def)

lemma sample_ipv6: "sample_address ''::1'' port = Some \<lparr>ta_ip = ''::1'', ta_port = port, ta_type = kUdp,
    ta_family = AF_INET6, ta_ipv4 = replicate 4 0, ta_ipv6 = replicate 15 0 @ [1]\<rparr>"
  by (simp add: sample_address_def address_Create_def AssignIp_def ParseIpAddress_def sample_pton_def address_new_def
      AssignPort_def SetTransportProtocolType_def)

lemma sample_created:
  "\<exists>t net. tranceiver_Create sample_os 1 (sample_address ''127.0.0.1'' 5000) (sample_address ''127.0.0.1'' 5002)
     \<lparr>open_sockets = [], net_handlers = scheduler_new True\<rparr> = Ok (Some t, net)"
proof -
  let ?a = "\<lambda>port. \<lparr>ta_ip = ''127.0.0.1'', ta_port = port, ta_type = kUdp, ta_family = AF_INET,
    ta_ipv4 = [127, 0, 0, 1], ta_ipv6 = replicate 16 0\<rparr>"
  have "address_ok (?a port)" for port by (simp add: address_ok_def)
  from build_udp(2) [OF this this, of 5000 5002 sample_os 5] show ?thesis
    by (simp add: sample_ipv4 sample_os_def tranceiver_Create_def InitTranceiver_def deref_def network_Create_def)
qed


section \<open>Receiving\<close>

lemma receive_buffer_Ok:
  assumes "length d < 2 ^ 32"
  shows "receive_buffer fill d = Ok d"
  using assms
  by (simp add: receive_buffer_def db_modify_at_def db_set_size_def db_create_def put_bytes_def db_contents_def
      Let_def unat_of_nat)

text \<open>C27: The datagrams waiting at the socket reach the demuxer, each with the bytes it was sent with and in
  the order of arrival. From then on everything the session sends goes to the sender of the last of
  them, whoever that is: \<open>recvfrom\<close> overwrites the remote address.\<close>

theorem received_datagrams:
  assumes "ut_demuxer t" and "ff AND kRead \<noteq> 0" and "\<forall>(from, d) \<in> set received. length d \<le> 64 * 1024"
    and "received \<noteq> []"
  shows "\<exists>r t'. OnEvent fill True ff received t = Ok (Some r, t')
    \<and> OnData True (map (\<lambda>(from, d). Some d) received) = Ok r
    \<and> (\<forall>d. udp_Send (Some d) False t' states = Ok ((fst (last received), d), states))"
proof -
  have "omapM (receive_buffer fill) (map snd received) = Ok (map id (map snd received))"
    using assms(3) by (intro omapM_all_Ok) (auto intro!: receive_buffer_Ok)
  moreover obtain r where "OnData True (map Some (map snd received)) = Ok r"
    by (simp add: OnData_def demux_fold)
  ultimately show ?thesis
    using assms by (auto simp: OnEvent_def udp_Send_def deref_def comp_def case_prod_unfold)
qed

theorem received_datagrams_witness:
  "\<exists>r t'. OnEvent 0 True kRead [(replicate 16 7, [0, 1])] ((udp_tranceiver_new 1)\<lparr>ut_demuxer := True\<rparr>) = Ok (Some r, t')
    \<and> udp_Send (Some [9]) False t' None = Ok ((replicate 16 7, [9]), None)"
  using received_datagrams [of "(udp_tranceiver_new 1)\<lparr>ut_demuxer := True\<rparr>" kRead "[(replicate 16 7, [0, 1])]" 0 None]
  by (auto simp: kRead_def)

end
