(* ===== verification/Qos_Session.thy ===== *)
theory Qos_Session
  imports Media_Session Network_Transport
begin

text \<open>
  The class \<open>QosrtpSessionImpl\<close> of \<open>src/session/qosrtp_session_impl.cc\<close>: it opens the socket, creates
  one media session per configuration, registers their receivers with the router and hands RTP packets
  to the session with their SSRC. Destinations of the router are the positions of the media sessions.
\<close>

section \<open>State and operations\<close>

record qos_session =
  has_started :: bool
  media_sessions :: "media_session list"
  session_router :: router
  session_tranceiver :: "udp_tranceiver option"
  session_network :: network

definition qos_session_new :: qos_session where
  "qos_session_new = \<lparr>has_started = False, media_sessions = [], session_router = router_new,
     session_tranceiver = None, session_network = \<lparr>open_sockets = [], net_handlers = []\<rparr>\<rparr>"

text \<open>\<open>MediaSession::Initialize\<close> ends with the registration: the RTP receiver, if there is one, and the
  RTCP receiver.\<close>

definition register_session :: "nat \<Rightarrow> media_session \<Rightarrow> router \<Rightarrow> router" where
  "register_session i ms r =
     AddRtcpDst i (if mc_direction (ms_config ms) \<noteq> SendOnly then AddRtpDst i r else r)"

definition start_one ::
  "u64 \<Rightarrow> bytes \<Rightarrow> string \<times> media_config option \<Rightarrow> qos_session \<Rightarrow> (session_error, qos_session) outcome" where
  "start_one now name entry q =
     (case snd entry of None \<Rightarrow> Failed Media_Session_Failed
      | Some c \<Rightarrow>
        (case session_Initialize now name c of
           Crash x \<Rightarrow> Crash x
         | Failed _ \<Rightarrow> Failed Media_Session_Failed
         | Ok (ms, eff) \<Rightarrow> Ok (q\<lparr>media_sessions := media_sessions q @ [ms],
             session_router := register_session (length (media_sessions q)) ms (session_router q)\<rparr>)))"

text \<open>What is left after a failure: the threads are stopped, the media sessions, the router and the
  scheduler destroyed; the transceiver is not.\<close>

definition failed_session :: "udp_tranceiver option \<Rightarrow> network \<Rightarrow> qos_session" where
  "failed_session t net = qos_session_new\<lparr>session_tranceiver := t, session_network := net\<lparr>net_handlers := []\<rparr>\<rparr>"

text \<open>The result holds the state in every case; \<open>wsa_event\<close> is whether the scheduler's event could be
  created.\<close>

definition StartSession ::
  "socket_os \<Rightarrow> bool \<Rightarrow> u64 \<Rightarrow> session_config option \<Rightarrow> qos_session \<Rightarrow>
   (session_error, unit) outcome \<times> qos_session" where
  "StartSession os wsa_event now config q =
     (if has_started q then (Failed Repeated_Start, q)
      else case config of None \<Rightarrow> (Failed Null_Config, q)
      | Some c \<Rightarrow>
        (case tranceiver_Create os 1 (sc_address_local c) (sc_address_remote c)
                ((session_network q)\<lparr>net_handlers := scheduler_new wsa_event\<rparr>) of
           Crash x \<Rightarrow> (Crash x, q)
         | Failed _ \<Rightarrow> (Failed Tranceiver_Failed, q)
         | Ok (None, net) \<Rightarrow> (Failed Tranceiver_Failed, failed_session None net)
         | Ok (Some t, net) \<Rightarrow>
           (case ofold (start_one now (sc_cname c)) (sc_media c)
                   (q\<lparr>session_router := router_new, session_tranceiver := Some t, session_network := net\<rparr>) of
              Ok q' \<Rightarrow> (Ok (), q'\<lparr>has_started := True\<rparr>)
            | Failed e \<Rightarrow> (Failed e, failed_session (Some t) net)
            | Crash x \<Rightarrow> (Crash x, q))))"

text \<open>\<open>SendRtpPacket\<close>: the first media session with the SSRC of the packet. The result holds the position
  of that session and the packets it hands to the transceiver.\<close>

definition qos_SendRtpPacket ::
  "u64 \<Rightarrow> rtp_packet option \<Rightarrow> qos_session \<Rightarrow> (rtp_error, (nat \<times> rtp_packet list) option \<times> qos_session) outcome" where
  "qos_SendRtpPacket now packet q =
     (if \<not> has_started q \<or> media_sessions q = [] then Ok (None, q)
      else deref packet (\<lambda>p.
        case find (\<lambda>i. mc_ssrc_media_local (ms_config (media_sessions q ! i)) = ssrc p) [0..<length (media_sessions q)] of
          None \<Rightarrow> Ok (None, q)
        | Some i \<Rightarrow> omap (\<lambda>(ps, ms). (Some (i, ps), q\<lparr>media_sessions := (media_sessions q)[i := ms]\<rparr>))
            (session_SendRtpPacket now (Some p) (media_sessions q ! i))))"

text \<open>The destination's \<open>IsExpectedRemoteSsrc\<close>.\<close>

definition session_expects :: "qos_session \<Rightarrow> nat \<Rightarrow> u32 \<Rightarrow> bool" where
  "session_expects q i s = (case ms_rtp_receiver (media_sessions q ! i) of None \<Rightarrow> False
     | Some r \<Rightarrow> IsExpectedRemoteSsrc s r)"

section \<open>A started session\<close>

definition started_with :: "media_config list \<Rightarrow> qos_session \<Rightarrow> bool" where
  "started_with cs q \<longleftrightarrow> map ms_config (media_sessions q) = cs
     \<and> (\<forall>ms \<in> set (media_sessions q). session_reachable ms)
     \<and> (\<forall>i < length cs. mc_direction (cs ! i) \<noteq> SendOnly \<longrightarrow>
          (\<exists>r. ms_rtp_receiver (media_sessions q ! i) = Some r \<and> r_config r = rtp_receiver_config_of (cs ! i)))
     \<and> (\<forall>i < length cs. mc_direction (cs ! i) = SendOnly \<longrightarrow> ms_rtp_receiver (media_sessions q ! i) = None)
     \<and> router_ok (session_router q)
     \<and> set (rtp_destinations (session_router q)) = {i. i < length cs \<and> mc_direction (cs ! i) \<noteq> SendOnly}
     \<and> set (rtcp_destinations (session_router q)) = {i. i < length cs}"

lemma session_Initialize_parts:
  assumes "session_Initialize now name c = Ok (ms, eff)"
  shows "ms_config ms = c
    \<and> (mc_direction c \<noteq> SendOnly \<longrightarrow> (\<exists>r. ms_rtp_receiver ms = Some r \<and> r_config r = rtp_receiver_config_of c))
    \<and> (mc_direction c = SendOnly \<longrightarrow> ms_rtp_receiver ms = None)"
  using assms
  by (auto simp: session_Initialize_def obind_eq_Ok_conv receiver_Initialize_def receiver_new_def
      split: if_splits option.splits outcome.splits)

lemma start_one_extends:
  assumes "start_one now name (n, Some c) q = Ok q'" and "started_with cs q"
  shows "started_with (cs @ [c]) q'"
proof -
  obtain ms eff where i: "session_Initialize now name c = Ok (ms, eff)"
    and q': "q' = q\<lparr>media_sessions := media_sessions q @ [ms],
          session_router := register_session (length (media_sessions q)) ms (session_router q)\<rparr>"
    using assms(1) by (auto simp: start_one_def split: outcome.splits)
  note parts = session_Initialize_parts [OF i]
  have len: "length (media_sessions q) = length cs"
    using assms(2) by (auto simp: started_with_def)
  have "session_reachable ms" by (rule session_reachable.initialize [OF i])
  then show ?thesis
    using assms(2) parts len unfolding started_with_def q'
    by (auto simp: nth_append less_Suc_eq register_session_def router_ok_def AddRtpDst_def AddRtcpDst_def add_dst_def)
qed

lemma start_all_extends:
  "ofold (start_one now name) entries q = Ok q' \<Longrightarrow> map snd entries = map Some new \<Longrightarrow> started_with cs q \<Longrightarrow>
   started_with (cs @ new) q' \<and> session_tranceiver q' = session_tranceiver q"
proof (induction entries arbitrary: q cs new)
  case (Cons e entries)
  obtain n c new' where e: "e = (n, Some c)" and new: "new = c # new'" "map snd entries = map Some new'"
    using Cons.prems(2) by (cases e; cases new) auto
  obtain q1 where q1: "start_one now name e q = Ok q1" "ofold (start_one now name) entries q1 = Ok q'"
    using Cons.prems(1) by (auto simp: obind_eq_Ok_conv)
  have "session_tranceiver q1 = session_tranceiver q"
    using q1(1) e by (auto simp: start_one_def split: outcome.splits)
  then show ?case
    using Cons.IH [OF q1(2) new(2) start_one_extends [OF q1(1) [unfolded e] Cons.prems(3)]] new(1) by simp
qed simp

lemma StartSession_started:
  assumes "StartSession os wsa_event now (Some c) q = (Ok (), q')" and "media_sessions q = []"
    and "map snd (sc_media c) = map Some cs"
  shows "started_with cs q' \<and> has_started q' \<and> session_tranceiver q' \<noteq> None"
proof -
  obtain t net q1 where q1: "ofold (start_one now (sc_cname c)) (sc_media c)
      (q\<lparr>session_router := router_new, session_tranceiver := Some t, session_network := net\<rparr>) = Ok q1"
    and q': "q' = q1\<lparr>has_started := True\<rparr>"
    using assms(1) by (auto simp: StartSession_def split: if_splits outcome.splits option.splits)
  have "started_with [] (q\<lparr>session_router := router_new, session_tranceiver := Some t, session_network := net\<rparr>)"
    using assms(2) by (simp add: started_with_def router_ok_def router_new_def)
  from start_all_extends [OF q1 assms(3) this] show ?thesis by (simp add: q' started_with_def)
qed

text \<open>A start that fails once the socket is open leaves the socket open and the transceiver in place.\<close>

lemma failed_start_keeps_socket:
  assumes "StartSession os wsa_event now (Some c) q = (Failed Media_Session_Failed, q')"
  shows "\<exists>t net. tranceiver_Create os 1 (sc_address_local c) (sc_address_remote c)
      ((session_network q)\<lparr>net_handlers := scheduler_new wsa_event\<rparr>) = Ok (Some t, net)
    \<and> session_tranceiver q' = Some t \<and> open_sockets (session_network q') = open_sockets net"
  using assms by (auto simp: StartSession_def failed_session_def split: if_splits outcome.splits option.splits)

text \<open>The SSRCs a media session listens to.\<close>

definition expected_ssrcs :: "media_config \<Rightarrow> u32 set" where
  "expected_ssrcs c = insert (mc_ssrc_media_remote c)
     (case mc_rtx_config_remote c of None \<Rightarrow> {} | Some r \<Rightarrow> {rtx_config_ssrc r})"

lemma session_expects_iff:
  assumes "started_with cs q" and "i < length cs" and "mc_direction (cs ! i) \<noteq> SendOnly"
  shows "session_expects q i s \<longleftrightarrow> s \<in> expected_ssrcs (cs ! i)"
proof -
  obtain r where "ms_rtp_receiver (media_sessions q ! i) = Some r" "r_config r = rtp_receiver_config_of (cs ! i)"
    using assms by (auto simp: started_with_def)
  then show ?thesis
    by (auto simp: session_expects_def IsExpectedRemoteSsrc_def rtp_receiver_config_of_def expected_ssrcs_def Let_def
        split: option.splits)
qed

text \<open>C19: A session that has started has one media session per configuration, in the order of their names,
  each in a reachable state and registered with the router once; when the SSRCs of a receiving
  configuration are those of no other, its media session receives exactly the RTP packets with its
  remote SSRC or RTX SSRC, in order, and every media session receives every RTCP datagram, in order and once.\<close>

theorem started_session_routes:
  assumes "StartSession os wsa_event now (Some c) q = (Ok (), q')" and "media_sessions q = []"
    and "map snd (sc_media c) = map Some cs" and "i < length cs" and "mc_direction (cs ! i) \<noteq> SendOnly"
    and "\<forall>j < length cs. j \<noteq> i \<and> mc_direction (cs ! j) \<noteq> SendOnly \<longrightarrow> expected_ssrcs (cs ! i) \<inter> expected_ssrcs (cs ! j) = {}"
    and "k < length cs"
  shows "map ms_config (media_sessions q') = cs
    \<and> (\<forall>ms \<in> set (media_sessions q'). session_reachable ms)
    \<and> map snd (filter (\<lambda>x. fst x = i) (OnRtp (session_expects q') (session_router q') packets))
        = filter (\<lambda>p. ssrc p \<in> expected_ssrcs (cs ! i)) packets
    \<and> map snd (filter (\<lambda>x. fst x = k) (OnRtcp (session_router q') datagrams)) = datagrams
    \<and> set (rtcp_destinations (session_router q')) = {..<length cs} \<and> distinct (rtcp_destinations (session_router q'))
    \<and> session_tranceiver q' \<noteq> None"
proof -
  have st: "started_with cs q'" and tr: "session_tranceiver q' \<noteq> None" using StartSession_started [OF assms(1-3)] by auto
  then have dsts: "set (rtp_destinations (session_router q')) = {i. i < length cs \<and> mc_direction (cs ! i) \<noteq> SendOnly}"
    by (simp add: started_with_def)
  have "map snd (filter (\<lambda>x. fst x = i) (OnRtp (session_expects q') (session_router q') packets))
      = filter (\<lambda>p. session_expects q' i (ssrc p)) packets"
    unfolding OnRtp_def using assms(4-6) session_expects_iff [OF st]
    by (intro route_rtp_exclusive) (auto simp: dsts)
  moreover have "set (rtcp_destinations (session_router q')) = {..<length cs}"
    and "distinct (rtcp_destinations (session_router q'))" and "map ms_config (media_sessions q') = cs"
    and "\<forall>ms \<in> set (media_sessions q'). session_reachable ms"
    using st by (auto simp: started_with_def router_ok_def)
  moreover have "map snd (filter (\<lambda>x. fst x = k) (OnRtcp (session_router q') datagrams)) = datagrams"
    using st assms(7) by (intro OnRtcp_each) (auto simp: started_with_def router_ok_def)
  ultimately show ?thesis using session_expects_iff [OF st assms(4,5)] tr by simp
qed

definition sample_session :: session_config where
  "sample_session = AddMediaSessionConfig ''m'' (Some sample_media)
     (session_Configure (sample_address ''127.0.0.1'' 5000) (sample_address ''127.0.0.1'' 5002) [97] session_config_new)"

theorem started_session_routes_witness:
  "\<exists>q'. StartSession sample_os True 0 (Some sample_session) qos_session_new = (Ok (), q')
    \<and> map snd (filter (\<lambda>x. fst x = 0) (OnRtp (session_expects q') (session_router q')
        [rtp_empty\<lparr>ssrc := 2\<rparr>, rtp_empty\<lparr>ssrc := 3\<rparr>])) = [rtp_empty\<lparr>ssrc := 2\<rparr>]
    \<and> map snd (filter (\<lambda>x. fst x = 0) (OnRtcp (session_router q') [[1], [2]])) = [[1], [2]]"
proof -
  obtain ms eff where ms: "session_Initialize 0 [97] sample_media = Ok (ms, eff)"
    by (simp add: session_Initialize_def sample_media_def media_config_new_def sender_Initialize_def
        rtp_sender_config_of_def rtcp_sender_Initialize_def Let_def receiver_Initialize_def rtp_receiver_config_of_def)
  have media: "sc_media sample_session = [(''m'', Some sample_media)]" "sc_cname sample_session = [97]"
    by (simp_all add: sample_session_def AddMediaSessionConfig_def session_Configure_def session_config_new_def)
  obtain t net where "tranceiver_Create sample_os 1 (sc_address_local sample_session) (sc_address_remote sample_session)
      ((session_network qos_session_new)\<lparr>net_handlers := scheduler_new True\<rparr>) = Ok (Some t, net)"
    using sample_created by (auto simp: sample_session_def AddMediaSessionConfig_def session_Configure_def qos_session_new_def)
  then obtain q' where q': "StartSession sample_os True 0 (Some sample_session) qos_session_new = (Ok (), q')"
    using ms media by (auto simp: StartSession_def qos_session_new_def start_one_def)
  have "expected_ssrcs sample_media = {2}" and "mc_direction sample_media \<noteq> SendOnly"
    by (simp_all add: expected_ssrcs_def sample_media_def media_config_new_def)
  then show ?thesis
    using started_session_routes [OF q', of "[sample_media]" 0 0 "[rtp_empty\<lparr>ssrc := 2\<rparr>, rtp_empty\<lparr>ssrc := 3\<rparr>]" "[[1], [2]]"] q' media
    by (auto simp: qos_session_new_def rtp_empty_def)
qed

end
