(* ===== verification/Rtx_Roundtrip.thy ===== *)
theory Rtx_Roundtrip
  imports Rtp_Sender Rtp_Receiver
begin

text \<open>
  Retransmission end to end: the RTX packet that the sender builds from a cached packet
  (\<open>RtpSender::ConstructRtx\<close>) is turned back by the receiver (\<open>ReconstructRtpFromRtx\<close>) into that
  packet, directly and over the wire.
\<close>

lemma map_ok_find:
  assumes "map_ok m" and "rtx_type_of m pt = Some e"
  shows "map_of m (fst e) = Some pt"
proof -
  have "e \<in> set m" "snd e = pt" using assms(2) by (auto simp: rtx_type_of_def find_Some_iff in_set_conv_nth)
  moreover have "distinct (map fst m)" using assms(1) by (simp add: map_ok_def strict_sorted_iff)
  ultimately show ?thesis by (metis map_of_is_SomeI prod.collapse)
qed

text \<open>An octet of a payload type below 128 and the marker bit.\<close>

lemma octet_parts:
  assumes "rt < (128 :: u8)"
  shows "drop_bit 1 0xff AND (rt OR (if b then 0x80 else 0)) = rt
    \<and> (drop_bit 7 (rt OR (if b then 0x80 else 0)) \<noteq> 0 \<longleftrightarrow> b)"
proof -
  have "unat rt < 2 ^ 7" using assms by (simp add: word_less_nat_alt)
  then have t: "take_bit 7 rt = rt"
    by (simp add: word_unat_eq_iff unsigned_take_bit_eq take_bit_nat_eq_self)
  have m: "drop_bit 1 0xff = (mask 7 :: u8)" by (simp add: mask_eq_exp_minus_1)
  have "drop_bit 7 rt = drop_bit 7 (take_bit 7 rt)" by (simp only: t)
  then have d: "drop_bit 7 rt = 0" by (simp add: drop_bit_take_bit)
  have "mask 7 AND (rt OR (if b then 0x80 else 0)) = take_bit 7 (rt OR (if b then 0x80 else 0))"
    by (simp add: take_bit_eq_mask and.commute)
  also have "\<dots> = rt" by (simp add: take_bit_or t)
  finally have "drop_bit 1 0xff AND (rt OR (if b then 0x80 else 0)) = rt" unfolding m .
  moreover have "drop_bit 7 (rt OR (if b then 0x80 else 0)) \<noteq> 0 \<longleftrightarrow> b" using d by simp
  ultimately show ?thesis by (rule conjI)
qed

lemma m_payload_type_octet_parts:
  assumes "rt < 128" and "octet_m_pt q = m_payload_type_octet p rt"
  shows "payload_type q = rt" and "m_payload_type_octet q pt = m_payload_type_octet p pt"
  using octet_parts [OF assms(1), of "rtp_m p \<noteq> 0"] assms(2)
  by (auto simp: payload_type_def m_payload_type_octet_def rtp_m_def split: if_splits)

lemma copy_csrcs_twice:
  "length (csrcs p) \<le> 255 \<Longrightarrow> csrcs q = csrcs (copy_of p) \<Longrightarrow> copy_csrcs q = Ok (csrcs (copy_of p))"
proof -
  assume a: "length (csrcs p) \<le> 255" "csrcs q = csrcs (copy_of p)"
  have "ucast (ucast (ucast (ucast x :: u8) :: u32) :: u8) = (ucast (ucast x :: u8) :: u32)" for x :: u32
    by (rule bit_word_eqI) (auto simp: bit_ucast_iff)
  then show ?thesis using a by (simp add: copy_csrcs_Ok copy_of_def)
qed

lemma ConstructRtx_Ok:
  assumes "packet_ok p" and "payload_buffer p = Some body" and "rtp_buffer_length p + 2 < 2 ^ 32"
    and "rtx_type_of (s_map_rtx (s_config s)) (payload_type p) = Some e"
  obtains q s' n where "ConstructRtx random_seq p s = Ok (Some q, s')"
    and "q = (copy_of p)\<lparr>octet_m_pt := m_payload_type_octet p (fst e), ssrc := s_rtx_ssrc (s_config s),
      sequence_number := n, payload_buffer := Some (WriteBigEndian 2 (sequence_number p) @ body)\<rparr>"
proof -
  have p: "extension_wf (extension p)" "length (csrcs p) \<le> 255"
    using assms(1) by (auto simp: packet_ok_def rtp_wf_def)
  define s1 where "s1 = (if rtx_has_sent s then s else s\<lparr>rtx_last_seq := random_seq\<rparr>)"
  define n where "n = next_rtx_seq (rtx_last_seq s1)"
  have conf: "s_config s1 = s_config s" by (simp add: s1_def)
  let ?q = "(copy_of p)\<lparr>octet_m_pt := m_payload_type_octet p (fst e), ssrc := s_rtx_ssrc (s_config s),
      sequence_number := n, payload_buffer := Some (WriteBigEndian 2 (sequence_number p) @ body)\<rparr>"
  have "rtp_buffer_length ?q < 2 ^ 32"
    using assms(2,3) by (simp add: rtp_buffer_length_def payload_bytes_def copy_of_def)
  from StoreFields_Ok [OF this]
  have "ConstructRtx random_seq p s = Ok (Some ?q, s1\<lparr>rtx_has_sent := True, rtx_last_seq := n\<rparr>)"
    using assms(2,4) p conf
    by (simp add: ConstructRtx_def copy_csrcs_Ok copy_extension_Ok Let_def copy_of_def flip: s1_def n_def)
  then show ?thesis using that by simp
qed

lemma rtx_restores:
  assumes "packet_ok p" and "payload_buffer p = Some body" and "body \<noteq> []" and "rtp_buffer_length p + 2 < 2 ^ 32"
    and "rtx_type_of (s_map_rtx (s_config s)) (payload_type p) = Some e" and "fst e < 128"
    and "map_ok (s_map_rtx (s_config s))" and "r_map_rtx (r_config r) = s_map_rtx (s_config s)"
    and "ssrc p = remote_ssrc (r_config r)"
  shows "\<exists>q s'. ConstructRtx random_seq p s = Ok (Some q, s') \<and> ssrc q = s_rtx_ssrc (s_config s)
    \<and> payload_type q = fst e
    \<and> ReconstructRtpFromRtx q r = Ok (Some ((copy_of p)\<lparr>pad_size := 0\<rparr>))"
proof -
  obtain q s' n where q: "ConstructRtx random_seq p s = Ok (Some q, s')"
    and q': "q = (copy_of p)\<lparr>octet_m_pt := m_payload_type_octet p (fst e), ssrc := s_rtx_ssrc (s_config s),
      sequence_number := n, payload_buffer := Some (WriteBigEndian 2 (sequence_number p) @ body)\<rparr>"
    by (rule ConstructRtx_Ok [OF assms(1,2,4,5)])
  have octet: "octet_m_pt q = m_payload_type_octet p (fst e)" by (simp add: q')
  note parts = m_payload_type_octet_parts [OF assms(6) octet]
  have map: "map_of (r_map_rtx (r_config r)) (payload_type q) = Some (payload_type p)"
    using map_ok_find [OF assms(7,5)] parts(1) assms(8) by simp
  have p: "extension_wf (extension p)" "length (csrcs p) \<le> 255"
    using assms(1) by (auto simp: packet_ok_def rtp_wf_def)
  have cs: "copy_csrcs q = Ok (csrcs (copy_of p))" and ext: "copy_extension q = Ok (extension p)"
    using copy_csrcs_twice [OF p(2), of q] p(1) by (simp_all add: q' copy_extension_Ok copy_of_def)
  have body: "payload_buffer q = Some (WriteBigEndian 2 (sequence_number p) @ body)" "timestamp q = timestamp p"
    by (simp_all add: q' copy_of_def)
  have len: "rtp_buffer_length ((copy_of p)\<lparr>pad_size := 0\<rparr>) < 2 ^ 32"
    using assms(1) by (simp add: packet_ok_def rtp_wf_def rtp_buffer_length_def payload_bytes_def copy_of_def)
  have fields: "StoreFields (octet_m_pt p) (sequence_number p) (timestamp p) (remote_ssrc (r_config r))
      (csrcs (copy_of p)) (extension p) (Some body) 0 = Ok ((copy_of p)\<lparr>pad_size := 0\<rparr>)"
    using StoreFields_Ok [OF len] assms(2,9) by (simp add: copy_of_def)
  have "ReconstructRtpFromRtx q r = Ok (Some ((copy_of p)\<lparr>pad_size := 0\<rparr>))"
    using assms(3) fields parts(2) [of "payload_type p"] body
    by (simp add: ReconstructRtpFromRtx_def map cs ext m_payload_type_octet_eq Let_def)
  then show ?thesis using q parts(1) by (auto simp: q')
qed

text \<open>C11: Retransmission restores the packet: the RTX packet the sender builds for a packet with a
  payload carries the RTX SSRC and payload type, and a receiver with the same payload type map
  rebuilds from it the original packet, sequence number, marker, timestamp, extension and payload
  included; only its padding is gone and its CSRCs are cut to one byte each.\<close>

theorem rtx_restores_packet:
  assumes "packet_ok p" and "payload_buffer p = Some body" and "body \<noteq> []" and "rtp_buffer_length p + 2 < 2 ^ 32"
    and "rtx_type_of (s_map_rtx (s_config s)) (payload_type p) = Some e" and "fst e < 128"
    and "map_ok (s_map_rtx (s_config s))" and "r_map_rtx (r_config r) = s_map_rtx (s_config s)"
    and "ssrc p = remote_ssrc (r_config r)"
  shows "\<exists>q s'. ConstructRtx random_seq p s = Ok (Some q, s') \<and> ssrc q = s_rtx_ssrc (s_config s)
    \<and> payload_type q = fst e
    \<and> ReconstructRtpFromRtx q r = Ok (Some ((copy_of p)\<lparr>pad_size := 0\<rparr>))"
  using assms by (rule rtx_restores)

text \<open>The same over the wire: when the packet has no extension, CSRCs and padding, the RTX packet is
  serialised, parsed by the receiver's new packet object, and rebuilt into exactly the original.\<close>

lemma rtx_over_the_wire:
  assumes "packet_ok p" and "payload_buffer p = Some body" and "body \<noteq> []" and "rtp_buffer_length p + 2 < 2 ^ 32"
    and "extension p = None" and "csrcs p = []" and "pad_size p = 0"
    and "rtx_type_of (s_map_rtx (s_config s)) (payload_type p) = Some e" and "fst e < 128"
    and "map_ok (s_map_rtx (s_config s))" and "r_map_rtx (r_config r) = s_map_rtx (s_config s)"
    and "ssrc p = remote_ssrc (r_config r)" and "r_rtx_enabled (r_config r)" and "r_rtx_ssrc (r_config r) = s_rtx_ssrc (s_config s)"
  shows "\<exists>q s' q'. ConstructRtx random_seq p s = Ok (Some q, s') \<and> StorePacket rtp_empty (rtp_image q) = Ok q'
    \<and> IsExpectedRemoteSsrc (ssrc q') r \<and> resolve_rtx q' r = Ok (Some p)"
proof -
  obtain q s' where q: "ConstructRtx random_seq p s = Ok (Some q, s')" "ssrc q = s_rtx_ssrc (s_config s)"
    "ReconstructRtpFromRtx q r = Ok (Some ((copy_of p)\<lparr>pad_size := 0\<rparr>))"
    using rtx_restores [OF assms(1-4,8-12)] by blast
  obtain q1 s1 n where "ConstructRtx random_seq p s = Ok (Some q1, s1)"
    "q1 = (copy_of p)\<lparr>octet_m_pt := m_payload_type_octet p (fst e), ssrc := s_rtx_ssrc (s_config s),
      sequence_number := n, payload_buffer := Some (WriteBigEndian 2 (sequence_number p) @ body)\<rparr>"
    by (rule ConstructRtx_Ok [OF assms(1,2,4,8)])
  then have f: "extension q = None" "csrcs q = []" "pad_size q = 0"
    "payload_buffer q = Some (WriteBigEndian 2 (sequence_number p) @ body)"
    using q(1) assms(5-7) by (auto simp: copy_of_def)
  then have "q\<lparr>csrcs := map byte_swap (csrcs q)\<rparr> = q" by (cases q) simp
  then have "StorePacket rtp_empty (rtp_image q) = Ok q"
    using rtp_roundtrip [of q] f assms(3) by simp
  then show ?thesis using q assms(5-7,13,14)
    by (auto simp: IsExpectedRemoteSsrc_def resolve_rtx_def copy_of_def)
qed

definition rtx_receiver :: rtp_receiver where
  "rtx_receiver = receiver_new \<lparr>remote_ssrc = 7, r_rtp_clock_rate_hz = 90000, r_rtp_payload_types = [96],
     r_max_cache_duration_ms = 0, r_rtx_enabled = True, rtx_max_cache_seq_difference = 1, r_rtx_ssrc = 8,
     r_map_rtx = [(97, 96)]\<rparr>"

lemma sample_packet_rtx:
  "packet_ok (sample_packet 65535)" "payload_buffer (sample_packet 65535) = Some [1, 2]"
  "rtp_buffer_length (sample_packet 65535) + 2 < 2 ^ 32" "extension (sample_packet 65535) = None"
  "csrcs (sample_packet 65535) = []" "pad_size (sample_packet 65535) = 0" "ssrc (sample_packet 65535) = 7"
  "rtx_type_of [(97, 96)] (payload_type (sample_packet 65535)) = Some (97, 96)"
  by (simp_all add: packet_ok_def sample_packet_def rtp_empty_def rtp_wf_def extension_wf_def rtp_buffer_length_def
      extension_size_def payload_bytes_def rtx_type_of_def payload_type_def)

theorem rtx_restores_packet_witness:
  "\<exists>q s'. ConstructRtx 9 (sample_packet 65535) (sender_new sample_sender) = Ok (Some q, s')
    \<and> ReconstructRtpFromRtx q rtx_receiver = Ok (Some ((copy_of (sample_packet 65535))\<lparr>pad_size := 0\<rparr>))"
  using rtx_restores_packet [OF sample_packet_rtx(1,2) _ sample_packet_rtx(3), of "sender_new sample_sender" "(97, 96)" rtx_receiver 9]
    sample_packet_rtx
  by (auto simp: sender_new_def sample_sender_def rtx_receiver_def receiver_new_def map_ok_def)

lemma rtx_over_the_wire_witness:
  "\<exists>q s' q'. ConstructRtx 9 (sample_packet 65535) (sender_new sample_sender) = Ok (Some q, s')
    \<and> StorePacket rtp_empty (rtp_image q) = Ok q' \<and> resolve_rtx q' rtx_receiver = Ok (Some (sample_packet 65535))"
  using rtx_over_the_wire [OF sample_packet_rtx(1,2) _ sample_packet_rtx(3,4,5,6), of "sender_new sample_sender" "(97, 96)" rtx_receiver 9]
    sample_packet_rtx
  by (auto simp: sender_new_def sample_sender_def rtx_receiver_def receiver_new_def map_ok_def)

end
