(* ===== verification/Rtp_Receiver_Order.thy ===== *)
theory Rtp_Receiver_Order
  imports Rtp_Receiver
begin

text \<open>
  The receiver's jitter buffer releases packets in order, each at most once. The invariant is that
  the cached packets are in strictly descending circular order inside the window of 32767 numbers
  that follows a base; once a packet has been released the base is the last number released. It
  rests on the order contract of theory \<open>Seq_Comparison\<close>.
\<close>

abbreviation descending :: "u16 list \<Rightarrow> bool" where
  "descending \<equiv> sorted_wrt (\<lambda>x y. IsSeqAfter y x)"

definition ahead :: "u16 \<Rightarrow> u16 \<Rightarrow> bool" where
  "ahead base s \<longleftrightarrow> 0 < seq_dist base s \<and> seq_dist base s < 32768"

definition cache_inv :: "u16 \<Rightarrow> receiver_cache \<Rightarrow> bool" where
  "cache_inv base c \<longleftrightarrow> (has_callback_packet c \<longrightarrow> latest_callback_seq c = base)
     \<and> descending (map cp_seq (cached_packets c)) \<and> (\<forall>x \<in> set (cached_packets c). ahead base (cp_seq x))"

lemma ahead_iff: "ahead base s \<longleftrightarrow> IsSeqAfter base s"
  by (simp add: ahead_def IsSeqAfter_dist)

lemma ahead_window: "(\<And>s. s \<in> S \<Longrightarrow> ahead base s) \<Longrightarrow> seq.in_window base S"
  by (auto simp: seq.in_window_def ahead_def)

lemma after_dist: "ahead base a \<Longrightarrow> ahead base b \<Longrightarrow> IsSeqAfter a b \<longleftrightarrow> seq_dist base a < seq_dist base b"
  by (simp add: ahead_def IsSeqAfter_window)

section \<open>Insertion\<close>

lemma insert_scan_cases:
  obtains "insert_scan new cs = cs"
  | xs ys where "cs = xs @ ys" and "ys \<noteq> []" and "insert_scan new cs = xs @ new # ys"
      and "\<And>x. x \<in> set xs \<Longrightarrow> \<not> IsSeqAfter (cp_seq x) (cp_seq new) \<and> cp_seq x \<noteq> cp_seq new"
      and "IsSeqAfter (cp_seq (hd ys)) (cp_seq new)"
proof (induction cs arbitrary: thesis)
  case Nil
  then show ?case by simp
next
  case (Cons c cs)
  show ?case
  proof (cases "cp_seq c = cp_seq new \<or> IsSeqAfter (cp_seq c) (cp_seq new)")
    case True
    then show ?thesis
    proof (cases "cp_seq c = cp_seq new")
      case True
      then show ?thesis using Cons.prems(1) by simp
    next
      case False
      with True show ?thesis using Cons.prems(2) [of "[]" "c # cs"] by simp
    qed
  next
    case c: False
    show ?thesis
    proof (rule Cons.IH)
      assume "insert_scan new cs = cs"
      then show ?thesis using c Cons.prems(1) by simp
    next
      fix xs ys
      assume "cs = xs @ ys" "ys \<noteq> []" "insert_scan new cs = xs @ new # ys"
        "\<And>x. x \<in> set xs \<Longrightarrow> \<not> IsSeqAfter (cp_seq x) (cp_seq new) \<and> cp_seq x \<noteq> cp_seq new"
        "IsSeqAfter (cp_seq (hd ys)) (cp_seq new)"
      then show ?thesis using c Cons.prems(2) [of "c # xs" ys] by auto
    qed
  qed
qed

lemma descending_last:
  assumes "descending (map cp_seq cs)" and "x \<in> set cs" and "x \<noteq> last cs"
  shows "IsSeqAfter (cp_seq (last cs)) (cp_seq x)"
proof -
  have "cs = butlast cs @ [last cs]" using assms(2) by (cases cs) auto
  then have d: "descending (map cp_seq (butlast cs) @ [cp_seq (last cs)])" and "x \<in> set (butlast cs)"
    using assms by (metis list.simps(8,9) map_append, metis Un_iff empty_iff insert_iff list.set set_append)
  then show ?thesis by (auto simp: sorted_wrt_append)
qed

lemma insert_cached_inv:
  assumes "descending (map cp_seq cs)" and "\<forall>x \<in> set cs. ahead base (cp_seq x)" and "ahead base (cp_seq new)"
  shows "descending (map cp_seq (insert_cached new cs)) \<and> insert_cached new cs \<noteq> []
    \<and> set cs \<subseteq> set (insert_cached new cs) \<and> set (insert_cached new cs) \<subseteq> insert new (set cs)"
proof -
  have w: "seq.in_window base (insert (cp_seq new) (set (map cp_seq cs)))"
    by (rule ahead_window) (use assms in auto)
  show ?thesis
  proof (cases "cs = [] \<or> IsSeqAfter (cp_seq new) (cp_seq (last cs))")
    case True
    have "\<not> IsSeqAfter (cp_seq x) (cp_seq new) \<and> cp_seq x \<noteq> cp_seq new" if x: "x \<in> set cs" for x
    proof -
      have ne: "cs \<noteq> []" using x by auto
      then have a: "ahead base (cp_seq x)" "ahead base (cp_seq (last cs))" using x assms(2) last_in_set by blast+
      have "seq_dist base (cp_seq (last cs)) \<le> seq_dist base (cp_seq x)"
        using descending_last [OF assms(1) x] after_dist [OF a(2,1)] by (cases "x = last cs") auto
      moreover have "seq_dist base (cp_seq new) < seq_dist base (cp_seq (last cs))"
        using True ne after_dist [OF assms(3) a(2)] by simp
      ultimately show ?thesis using after_dist [OF a(1) assms(3)] by auto
    qed
    then have "descending (map cp_seq cs @ cp_seq new # [])"
      using assms(1) w by (intro seq.sorted_descending_insert) auto
    then show ?thesis using True by (auto simp: insert_cached_def)
  next
    case False
    then have i: "insert_cached new cs = insert_scan new cs" by (simp add: insert_cached_def)
    show ?thesis
    proof (rule insert_scan_cases [of new cs])
      assume "insert_scan new cs = cs"
      then show ?thesis using assms(1) i False by auto
    next
      fix xs ys
      assume c: "cs = xs @ ys" "ys \<noteq> []" "insert_scan new cs = xs @ new # ys"
        "\<And>x. x \<in> set xs \<Longrightarrow> \<not> IsSeqAfter (cp_seq x) (cp_seq new) \<and> cp_seq x \<noteq> cp_seq new"
        "IsSeqAfter (cp_seq (hd ys)) (cp_seq new)"
      then have "descending (map cp_seq xs @ cp_seq new # map cp_seq ys)"
        using assms(1) w by (intro seq.sorted_descending_insert) (auto simp: hd_map)
      then show ?thesis using c i by auto
    qed
  qed
qed

section \<open>The operations keep the invariant\<close>

lemma SupplementLossSeqs_frame:
  assumes "cached_packets c \<noteq> []"
  obtains ls n where "SupplementLossSeqs c = Ok (c\<lparr>loss_seqs := ls, cumulative_packets_loss := n\<rparr>)"
proof -
  obtain x xs where x: "cached_packets c = x # xs" using assms by (cases "cached_packets c") auto
  obtain passed rest n where "fold note_loss (all_gaps (cp_seq x) (map cp_seq xs @
      (if has_callback_packet c then [latest_callback_seq c] else []))) ([], loss_seqs c, cumulative_packets_loss c)
      = (passed, rest, n)" by (metis prod_cases3)
  with that show ?thesis by (auto simp: SupplementLossSeqs_def x Let_def)
qed

lemma update_extended_frame [simp]:
  "cached_packets (update_extended s c) = cached_packets c"
  "loss_seqs (update_extended s c) = loss_seqs c"
  "has_callback_packet (update_extended s c) = has_callback_packet c"
  "latest_callback_seq (update_extended s c) = latest_callback_seq c"
  "max_cache_duration_ms (update_extended s c) = max_cache_duration_ms c"
  by (simp_all add: update_extended_def Let_def)

lemma PutPacket_inv:
  assumes inv: "cache_inv base c" and start: "\<not> has_callback_packet c \<Longrightarrow> ahead base (sequence_number p)"
  obtains c' where "PutPacket now p c = (Ok c' :: ('e, receiver_cache) outcome)" and "cache_inv base c'"
    and "has_callback_packet c' = has_callback_packet c"
proof (cases "has_callback_packet c \<and> \<not> IsSeqAfter (latest_callback_seq c) (sequence_number p)")
  case True
  then show ?thesis using that inv by (simp add: PutPacket_def)
next
  case False
  let ?new = "\<lparr>cp_packet = p, cp_timeout = ucast (max_cache_duration_ms c) + now\<rparr>"
  define c1 where "c1 = (update_extended (sequence_number p) c)\<lparr>cached_packets := insert_cached ?new (cached_packets c),
      loss_seqs := erase_first_loss (sequence_number p) (loss_seqs c)\<rparr>"
  have a: "ahead base (cp_seq ?new)"
    using False start inv by (auto simp: cp_seq_def ahead_iff cache_inv_def)
  note ins = insert_cached_inv [OF _ _ a, of "cached_packets c"]
  have d: "descending (map cp_seq (cached_packets c))" "\<forall>x \<in> set (cached_packets c). ahead base (cp_seq x)"
    using inv by (auto simp: cache_inv_def)
  have "cached_packets c1 \<noteq> []" using ins [OF d] by (simp add: c1_def)
  then obtain ls n where ls: "SupplementLossSeqs c1 =
      (Ok (c1\<lparr>loss_seqs := ls, cumulative_packets_loss := n\<rparr>) :: ('e, receiver_cache) outcome)"
    by (rule SupplementLossSeqs_frame)
  let ?c2 = "c1\<lparr>loss_seqs := ls, cumulative_packets_loss := n, has_cached_packet := True\<rparr>"
  have "PutPacket now p c = (Ok ?c2 :: ('e, receiver_cache) outcome)"
  proof -
    have "(PutPacket now p c :: ('e, receiver_cache) outcome) = omap (\<lambda>c. c\<lparr>has_cached_packet := True\<rparr>) (SupplementLossSeqs c1)"
      using False by (auto simp: PutPacket_def Let_def c1_def)
    then show ?thesis by (simp add: ls)
  qed
  moreover have "cache_inv base ?c2"
    using ins [OF d] inv a by (auto simp: cache_inv_def c1_def)
  ultimately show ?thesis using that [of ?c2] by (simp add: c1_def)
qed

lemma split_due_append: "split_due now nb cs = (keep, go) \<Longrightarrow> cs = keep @ go"
  by (induction now nb cs arbitrary: keep go rule: split_due.induct) (auto split: if_splits prod.splits)

lemma descending_rev: "descending (map cp_seq cs) \<Longrightarrow> sorted_wrt IsSeqAfter (map cp_seq (rev cs))"
  by (simp add: sorted_wrt_rev rev_map [symmetric])

text \<open>Moving the base to a released number keeps what lies beyond it in the window.\<close>

lemma ahead_rebase:
  assumes "ahead base a" and "ahead base b" and "IsSeqAfter a b"
  shows "ahead a b"
  using assms(3) by (simp add: ahead_iff)

lemma GetPackets_inv:
  assumes inv: "cache_inv base c" and get: "GetPackets now c = (out, c')"
  shows "(out = [] \<and> c' = c) \<or>
    (out \<noteq> [] \<and> cache_inv (sequence_number (last out)) c' \<and> has_callback_packet c'
      \<and> sorted_wrt IsSeqAfter (map sequence_number out) \<and> (\<forall>p \<in> set out. ahead base (sequence_number p)))"
proof -
  define nb where "nb = (if has_callback_packet c then ready_count (latest_callback_seq c) (rev (cached_packets c)) else 0)"
  obtain keep go where kg: "split_due now nb (cached_packets c) = (keep, go)" by fastforce
  then have cs: "cached_packets c = keep @ go" by (rule split_due_append)
  show ?thesis
  proof (cases "go = []")
    case True
    then show ?thesis using get kg by (simp add: GetPackets_def nb_def [symmetric] Let_def)
  next
    case False
    then obtain g gs where g: "go = g # gs" by (cases go) auto
    have out: "out = rev (map cp_packet go)" and c': "c' = c\<lparr>cached_packets := keep,
        latest_callback_seq := cp_seq g, has_callback_packet := True\<rparr>"
      using get kg g by (simp_all add: GetPackets_def nb_def [symmetric] Let_def)
    have d: "descending (map cp_seq keep)" "descending (map cp_seq go)"
      "\<forall>x \<in> set keep. IsSeqAfter (cp_seq g) (cp_seq x)" "\<forall>x \<in> set (keep @ go). ahead base (cp_seq x)"
      using inv cs g by (auto simp: cache_inv_def sorted_wrt_append)
    have "last out = cp_packet g" using out g by simp
    then have "cache_inv (sequence_number (last out)) c'"
      using d by (auto simp: cache_inv_def c' ahead_iff cp_seq_def)
    moreover have "map sequence_number out = map cp_seq (rev go)" by (simp add: out cp_seq_def rev_map)
    ultimately show ?thesis
      using descending_rev [OF d(2)] d(4) out g c' by (auto simp: cp_seq_def)
  qed
qed

lemma GetLossPacketSeqsForNack_inv:
  "cache_inv base (snd (GetLossPacketSeqsForNack now c)) \<longleftrightarrow> cache_inv base c"
  "has_callback_packet (snd (GetLossPacketSeqsForNack now c)) = has_callback_packet c"
  by (simp_all add: GetLossPacketSeqsForNack_def cache_inv_def)

section \<open>In-order delivery\<close>

text \<open>A run of the receiver: the calls of \<open>OnRtpPacket\<close> in order; the results are collected.\<close>

fun receive_all ::
  "(int \<Rightarrow> s32 \<Rightarrow> u32 \<Rightarrow> s32) \<Rightarrow> ((nat \<Rightarrow> u64) \<times> rtp_packet) list \<Rightarrow> rtp_receiver \<Rightarrow>
   (rtp_error, receiver_output list \<times> rtp_receiver) outcome" where
  "receive_all td [] r = Ok ([], r)"
| "receive_all td ((clock, p) # calls) r =
     obind (OnRtpPacket td clock p r) (\<lambda>(out, r). omap (\<lambda>(outs, r). (out # outs, r)) (receive_all td calls r))"

text \<open>The packets that arrive before the first one is released are within one window; nothing is
  asked of the later ones.\<close>

fun start_in_window ::
  "(int \<Rightarrow> s32 \<Rightarrow> u32 \<Rightarrow> s32) \<Rightarrow> u16 \<Rightarrow> ((nat \<Rightarrow> u64) \<times> rtp_packet) list \<Rightarrow> rtp_receiver \<Rightarrow> bool" where
  "start_in_window td base [] r = True"
| "start_in_window td base ((clock, p) # calls) r =
     (has_callback_packet (r_cache r) \<or>
      (case resolve_rtx p r of Ok (Some q) \<Rightarrow> ahead base (sequence_number q) | _ \<Rightarrow> True) \<and>
      (case OnRtpPacket td clock p r of Ok (_, r') \<Rightarrow> start_in_window td base calls r' | _ \<Rightarrow> True))"

definition received_ok :: "rtp_packet \<Rightarrow> bool" where
  "received_ok p \<longleftrightarrow> extension_wf (extension p) \<and> length (csrcs p) \<le> 255"

lemma resolve_rtx_Ok: "received_ok p \<Longrightarrow> \<exists>q. resolve_rtx p r = Ok q"
  by (auto simp: resolve_rtx_def ReconstructRtpFromRtx_def received_ok_def copy_csrcs_Ok copy_extension_Ok
      Let_def split: option.split)

lemma OnRtpPacket_inv:
  assumes ok: "received_ok p" and inv: "cache_inv base (r_cache r)"
    and start: "has_callback_packet (r_cache r) \<or>
      (case resolve_rtx p r of Ok (Some q) \<Rightarrow> ahead base (sequence_number q) | _ \<Rightarrow> True)"
  obtains out r' where "OnRtpPacket td clock p r = Ok (out, r')"
    and "released out = [] \<and> cache_inv base (r_cache r') \<and> has_callback_packet (r_cache r') = has_callback_packet (r_cache r)
      \<or> released out \<noteq> [] \<and> cache_inv (sequence_number (last (released out))) (r_cache r')
        \<and> has_callback_packet (r_cache r')
        \<and> sorted_wrt IsSeqAfter (map sequence_number (released out))
        \<and> (\<forall>p \<in> set (released out). ahead base (sequence_number p))"
proof -
  obtain oq where oq: "resolve_rtx p r = Ok oq" using resolve_rtx_Ok [OF ok] by blast
  show ?thesis
  proof (cases "oq = None \<or> ssrc (the oq) \<noteq> remote_ssrc (r_config r)
      \<or> payload_type (the oq) \<notin> set (r_rtp_payload_types (r_config r))")
    case True
    then have "OnRtpPacket td clock p r = Ok (silent, r)"
      by (auto simp: OnRtpPacket_def oq split: option.split)
    with that inv show ?thesis by (auto simp: silent_def)
  next
    case False
    then obtain q where q: "oq = Some q" by auto
    let ?r1 = "update_jitter td (clock 0) q r"
    have r1: "r_cache ?r1 = r_cache r" by (simp add: update_jitter_def Let_def)
    obtain c where c: "PutPacket (clock 1) q (r_cache r) = (Ok c :: (rtp_error, receiver_cache) outcome)" "cache_inv base c"
      "has_callback_packet c = has_callback_packet (r_cache r)"
      using PutPacket_inv [OF inv, of q] start oq q by auto
    let ?r2 = "update_statistics (?r1\<lparr>r_cache := c\<rparr>)"
    have r2: "r_cache ?r2 = c" by (simp add: update_statistics_def Let_def)
    obtain lost c2 where l: "GetLossPacketSeqsForNack (clock 2) c = (lost, c2)" by fastforce
    obtain out c3 where g: "GetPackets (clock 3) c2 = (out, c3)" by fastforce
    have "OnRtpPacket td clock p r = Ok (\<lparr>nack_seqs = Some lost, released = out\<rparr>,
        ?r2\<lparr>r_has_received := True, r_cache := c3\<rparr>)"
      using False by (simp add: OnRtpPacket_def oq q Let_def r1 c(1) r2 l g del: One_nat_def)
    moreover have "cache_inv base c2" "has_callback_packet c2 = has_callback_packet (r_cache r)"
      using GetLossPacketSeqsForNack_inv(1) [of base "clock 2" c] GetLossPacketSeqsForNack_inv(2) [of "clock 2" c] l c by auto
    ultimately show ?thesis using that GetPackets_inv [OF _ g, of base] by auto
  qed
qed

definition in_order :: "rtp_packet list \<Rightarrow> bool" where
  "in_order ps \<longleftrightarrow> successively IsSeqAfter (map sequence_number ps)"

lemma sorted_wrt_successively: "sorted_wrt R xs \<Longrightarrow> successively R xs"
  by (induction xs rule: induct_list012) auto

lemma in_order_append:
  assumes "in_order ps" and "in_order qs" and "ps \<noteq> [] \<Longrightarrow> qs \<noteq> [] \<Longrightarrow> IsSeqAfter (sequence_number (last ps)) (sequence_number (hd qs))"
  shows "in_order (ps @ qs)"
  using assms by (cases "qs = []"; cases "ps = []") (auto simp: in_order_def successively_append_iff last_map hd_map)

lemma receive_all_in_order:
  assumes "cache_inv base (r_cache r)" and "\<forall>(clock, p) \<in> set calls. received_ok p"
    and "has_callback_packet (r_cache r) \<or> start_in_window td base calls r"
  obtains outs r' where "receive_all td calls r = Ok (outs, r')" and "in_order (concat (map released outs))"
    and "concat (map released outs) = [] \<or> ahead base (sequence_number (hd (concat (map released outs))))"
  using assms
proof (induction calls arbitrary: base r thesis)
  case Nil
  then show ?case by (simp add: in_order_def)
next
  case (Cons call calls)
  obtain clock p where call: "call = (clock, p)" by fastforce
  have ok: "received_ok p" and oks: "\<forall>(clock, p) \<in> set calls. received_ok p" using Cons.prems(3) call by auto
  have start: "has_callback_packet (r_cache r) \<or>
      (case resolve_rtx p r of Ok (Some q) \<Rightarrow> ahead base (sequence_number q) | _ \<Rightarrow> True)"
    using Cons.prems(4) call by auto
  obtain out r1 where 1: "OnRtpPacket td clock p r = Ok (out, r1)"
    and inv: "released out = [] \<and> cache_inv base (r_cache r1) \<and> has_callback_packet (r_cache r1) = has_callback_packet (r_cache r)
      \<or> released out \<noteq> [] \<and> cache_inv (sequence_number (last (released out))) (r_cache r1)
        \<and> has_callback_packet (r_cache r1)
        \<and> sorted_wrt IsSeqAfter (map sequence_number (released out))
        \<and> (\<forall>p \<in> set (released out). ahead base (sequence_number p))"
    by (rule OnRtpPacket_inv [OF ok Cons.prems(2) start])
  have next_start: "has_callback_packet (r_cache r1) \<or> start_in_window td base calls r1" if "released out = []"
    using that inv Cons.prems(4) 1 call by auto
  show ?case
  proof (cases "released out = []")
    case True
    with inv have ci: "cache_inv base (r_cache r1)" by auto
    obtain outs r2 where "receive_all td calls r1 = Ok (outs, r2)" "in_order (concat (map released outs))"
      "concat (map released outs) = [] \<or> ahead base (sequence_number (hd (concat (map released outs))))"
      by (rule Cons.IH [OF _ ci oks]) (use next_start [OF True] in auto)
    then show ?thesis using 1 call True Cons.prems(1) [of "out # outs" r2] by simp
  next
    case False
    let ?b = "sequence_number (last (released out))"
    have i: "cache_inv ?b (r_cache r1)" "has_callback_packet (r_cache r1)"
      "sorted_wrt IsSeqAfter (map sequence_number (released out))" "\<forall>p \<in> set (released out). ahead base (sequence_number p)"
      using False inv by auto
    obtain outs r2 where 2: "receive_all td calls r1 = Ok (outs, r2)" "in_order (concat (map released outs))"
      "concat (map released outs) = [] \<or> ahead ?b (sequence_number (hd (concat (map released outs))))"
      by (rule Cons.IH [OF _ i(1) oks]) (use i(2) in auto)
    have "in_order (released out)" using i(3) by (simp add: in_order_def sorted_wrt_successively)
    then have "in_order (released out @ concat (map released outs))"
      by (rule in_order_append [OF _ 2(2)]) (use 2(3) in \<open>auto simp: ahead_iff\<close>)
    moreover have "ahead base (sequence_number (hd (released out)))" using i(4) False by simp
    ultimately show ?thesis using 1 2(1) call False Cons.prems(1) [of "out # outs" r2] by simp
  qed
qed

text \<open>C9: The receiver hands packets on in order and never twice: over any run of a new receiver,
  each released sequence number lies after the one released before it, whatever arrives, in
  whatever order, from the RTP stream or as retransmission. Only the packets arriving before the
  first release have to lie within one window of 32767 numbers.\<close>

theorem receiver_delivers_in_order:
  assumes "receiver_Initialize (Some c) = Ok r" and "\<forall>(clock, p) \<in> set calls. received_ok p"
    and "start_in_window td base calls r"
  shows "\<exists>outs r'. receive_all td calls r = Ok (outs, r')
    \<and> successively IsSeqAfter (map sequence_number (concat (map released outs)))"
proof -
  have "cache_inv base (r_cache r)"
    using assms(1) by (auto simp: receiver_Initialize_def receiver_new_def receiver_cache_new_def cache_inv_def
        split: if_splits)
  then show ?thesis using receive_all_in_order [of base r calls td] assms(2,3) unfolding in_order_def by blast
qed

definition sample_receiver :: rtp_receiver_config where
  "sample_receiver = \<lparr>remote_ssrc = 7, r_rtp_clock_rate_hz = 90000, r_rtp_payload_types = [96],
     r_max_cache_duration_ms = 0, r_rtx_enabled = False, rtx_max_cache_seq_difference = 0, r_rtx_ssrc = 0,
     r_map_rtx = []\<rparr>"

definition sample_arrival :: "u16 \<Rightarrow> rtp_packet" where
  "sample_arrival n = rtp_empty\<lparr>octet_m_pt := 96, ssrc := 7, sequence_number := n\<rparr>"

theorem receiver_delivers_in_order_witness:
  "\<exists>outs r'. receive_all (\<lambda>_ _ _. 0) (map (\<lambda>n. (\<lambda>_. 1000, sample_arrival n)) [65534, 3, 65535, 65534])
      (receiver_new sample_receiver) = Ok (outs, r')
    \<and> successively IsSeqAfter (map sequence_number (concat (map released outs)))"
proof (rule receiver_delivers_in_order)
  show "receiver_Initialize (Some sample_receiver) = Ok (receiver_new sample_receiver)"
    by (simp add: receiver_Initialize_def sample_receiver_def)
  show "\<forall>(clock, p) \<in> set (map (\<lambda>n. (\<lambda>_. 1000, sample_arrival n)) [65534, 3, 65535, 65534]). received_ok p"
    by (simp add: received_ok_def sample_arrival_def rtp_empty_def extension_wf_def)
  show "start_in_window (\<lambda>_ _ _. 0) 65533 (map (\<lambda>n. (\<lambda>_. 1000, sample_arrival n)) [65534, 3, 65535, 65534])
      (receiver_new sample_receiver)"
    by (simp add: resolve_rtx_def receiver_new_def sample_receiver_def receiver_cache_new_def sample_arrival_def
        rtp_empty_def ahead_def seq_dist_eq OnRtpPacket_def payload_type_def PutPacket_def update_extended_def
        insert_cached_def SupplementLossSeqs_def cp_seq_def Let_def update_jitter_def update_statistics_def
        GetLossPacketSeqsForNack_def GetPackets_def)
qed

section \<open>Release\<close>

lemma split_due_not_expired:
  "split_due now nb cs = (keep, go) \<Longrightarrow> x \<in> set keep \<Longrightarrow> now < cp_timeout x"
  by (induction now nb cs arbitrary: keep go rule: split_due.induct) (auto split: if_splits prod.splits simp: not_le)

lemma split_due_run:
  "\<forall>x \<in> set cs. now < cp_timeout x \<Longrightarrow> nb \<le> length cs \<Longrightarrow>
   split_due now nb cs = (take (length cs - nb) cs, drop (length cs - nb) cs)"
proof (induction now nb cs rule: split_due.induct)
  case (2 now nb c cs)
  show ?case
  proof (cases "length (c # cs) = nb")
    case False
    then have "nb \<le> length cs" using "2.prems"(2) by simp
    then show ?thesis using 2 False by (auto simp: Suc_diff_le not_le)
  qed simp
qed simp

lemma ready_count_le: "ready_count latest cs \<le> length cs"
  by (induction latest cs rule: ready_count.induct) auto

lemma ready_count_run:
  "i < ready_count latest cs \<Longrightarrow> cp_seq (cs ! i) = latest + 1 + of_nat i"
proof (induction latest cs arbitrary: i rule: ready_count.induct)
  case (2 latest c cs)
  then have n: "cp_seq c = latest + 1" by (auto simp: IsNextSeq_iff split: if_splits)
  show ?case
  proof (cases i)
    case (Suc k)
    then have "cp_seq (cs ! k) = cp_seq c + 1 + of_nat k" using 2 by (auto split: if_splits)
    then show ?thesis using Suc n by simp
  qed (use n in simp)
qed simp

lemma ready_count_maximal:
  "ready_count latest cs < length cs \<Longrightarrow> cp_seq (cs ! ready_count latest cs) \<noteq> latest + 1 + of_nat (ready_count latest cs)"
proof (induction latest cs rule: ready_count.induct)
  case (2 latest c cs)
  show ?case
  proof (cases "IsNextSeq latest (cp_seq c)")
    case True
    then show ?thesis using 2 by (simp add: IsNextSeq_iff add.assoc)
  next
    case False
    then show ?thesis by (simp add: IsNextSeq_iff)
  qed
qed simp

text \<open>No packet outlives its time in the cache: after \<open>GetPackets\<close> every packet still cached has
  its timeout in the future, and the packets released are the ones that left the cache.\<close>

lemma get_packets_no_expired:
  assumes "GetPackets now c = (out, c')"
  shows "(\<forall>x \<in> set (cached_packets c'). now < cp_timeout x)
    \<and> map cp_packet (cached_packets c) = map cp_packet (cached_packets c') @ rev out"
proof -
  define nb where "nb = (if has_callback_packet c then ready_count (latest_callback_seq c) (rev (cached_packets c)) else 0)"
  obtain keep go where kg: "split_due now nb (cached_packets c) = (keep, go)" by fastforce
  have "cached_packets c' = keep" and "out = rev (map cp_packet go)"
    using assms kg split_due_append [OF kg] by (auto simp: GetPackets_def nb_def [symmetric] Let_def split: if_splits)
  then show ?thesis using split_due_not_expired [OF kg] split_due_append [OF kg] by auto
qed

lemma get_packets_no_expired_witness:
  "list_all (\<lambda>x. 5 < cp_timeout x) (cached_packets (snd (GetPackets 5 ((receiver_cache_new 0)\<lparr>cached_packets :=
     [\<lparr>cp_packet = sample_arrival 2, cp_timeout = 9\<rparr>, \<lparr>cp_packet = sample_arrival 1, cp_timeout = 5\<rparr>]\<rparr>))))"
  unfolding list_all_iff using get_packets_no_expired [OF prod.collapse [symmetric]] by blast

text \<open>C25: While nothing has timed out, \<open>GetPackets\<close> takes from the back of the cache exactly the longest run of
  packets that continues the last number released without a gap, and hands them over in that order; what is
  before them stays, and the last number released is brought up to date, and nothing else.\<close>

theorem get_packets_releases_run:
  assumes "has_callback_packet c" and "\<forall>x \<in> set (cached_packets c). now < cp_timeout x"
    and "GetPackets now c = (out, c')"
  shows "\<exists>keep run. cached_packets c = keep @ rev run \<and> out = map cp_packet run
    \<and> map cp_seq run = map (\<lambda>i. latest_callback_seq c + 1 + of_nat i) [0..<length run]
    \<and> (keep = [] \<or> cp_seq (last keep) \<noteq> latest_callback_seq c + 1 + of_nat (length run))
    \<and> c' = c\<lparr>cached_packets := keep, latest_callback_seq := latest_callback_seq c + of_nat (length run)\<rparr>"
proof -
  let ?cs = "cached_packets c" and ?l = "latest_callback_seq c"
  define nb where "nb = ready_count ?l (rev ?cs)"
  define run where "run = take nb (rev ?cs)"
  define keep where "keep = take (length ?cs - nb) ?cs"
  have le: "nb \<le> length ?cs" unfolding nb_def using ready_count_le [of ?l "rev ?cs"] by simp
  have go: "drop (length ?cs - nb) ?cs = rev run" by (simp add: run_def take_rev)
  have kg: "split_due now nb ?cs = (keep, rev run)"
    using split_due_run [OF assms(2) le] by (simp only: keep_def go)
  have cs: "?cs = keep @ rev run" unfolding keep_def go [symmetric] by simp
  have len: "length run = nb" using le by (simp add: run_def)
  have seqs: "map cp_seq run = map (\<lambda>i. ?l + 1 + of_nat i) [0..<length run]"
    unfolding len by (rule nth_equalityI) (use le in \<open>auto simp: run_def nb_def intro!: ready_count_run\<close>)
  have stop: "cp_seq (last keep) \<noteq> ?l + 1 + of_nat (length run)" if "keep \<noteq> []"
  proof -
    have lt: "nb < length (rev ?cs)" using that by (cases "nb = length ?cs") (use le in \<open>auto simp: keep_def\<close>)
    have "last keep = rev ?cs ! nb"
      using that lt by (auto simp: keep_def last_conv_nth rev_nth intro!: nth_take)
    then show ?thesis using ready_count_maximal [of ?l "rev ?cs"] lt by (simp add: len nb_def)
  qed
  have last: "cp_seq (last run) = ?l + of_nat (length run)" if "run \<noteq> []"
    using arg_cong [OF seqs, of last] that by (cases run rule: rev_cases) simp_all
  have "(out, c') = (map cp_packet run, if run = [] then c
      else c\<lparr>cached_packets := keep, latest_callback_seq := cp_seq (last run), has_callback_packet := True\<rparr>)"
    unfolding assms(3) [symmetric] using assms(1) kg by (simp add: GetPackets_def nb_def [symmetric] rev_map hd_rev)
  moreover have "c\<lparr>cached_packets := keep, latest_callback_seq := ?l + of_nat (length run)\<rparr> = c" if "run = []"
    using that cs by simp
  ultimately have "out = map cp_packet run" and "c' = c\<lparr>cached_packets := keep, latest_callback_seq := ?l + of_nat (length run)\<rparr>"
    using last assms(1) by (cases "run = []"; simp)+
  then show ?thesis using cs seqs stop by blast
qed

definition sample_cache :: receiver_cache where
  "sample_cache = (receiver_cache_new 0)\<lparr>has_callback_packet := True, latest_callback_seq := 65535,
     cached_packets := map (\<lambda>n. \<lparr>cp_packet = sample_arrival n, cp_timeout = 9\<rparr>) [3, 1, 0]\<rparr>"

theorem get_packets_releases_run_witness:
  "\<exists>keep run. cached_packets sample_cache = keep @ rev run \<and> map cp_seq run = [0, 1] \<and> map cp_seq keep = [3]
    \<and> fst (GetPackets 5 sample_cache) = map cp_packet run"
proof -
  have out: "map sequence_number (fst (GetPackets 5 sample_cache)) = [0, 1]"
    by (simp add: sample_cache_def GetPackets_def cp_seq_def sample_arrival_def IsNextSeq_iff Let_def)
  have c: "has_callback_packet sample_cache" "\<forall>x \<in> set (cached_packets sample_cache). 5 < cp_timeout x"
    by (simp_all add: sample_cache_def)
  obtain keep run where k: "cached_packets sample_cache = keep @ rev run" "fst (GetPackets 5 sample_cache) = map cp_packet run"
    using get_packets_releases_run [OF c prod.collapse [symmetric]] by blast
  then have "map cp_seq run = [0, 1]" using out by (simp add: cp_seq_def [abs_def] comp_def)
  moreover from this have "map cp_seq (rev run) = [1, 0]" unfolding rev_map [symmetric] by simp
  moreover have "map cp_seq (cached_packets sample_cache) = [3, 1, 0]"
    by (simp add: sample_cache_def cp_seq_def sample_arrival_def)
  ultimately have seqs: "map cp_seq run = [0, 1]" "map cp_seq keep @ [1, 0] = [3] @ [1, 0]" unfolding k(1) map_append by simp_all
  from seqs(2) have "map cp_seq keep = [3]" by (simp only: append_same_eq)
  with k seqs(1) show ?thesis by (intro exI [of _ keep] exI [of _ run] conjI)
qed

end
