(* ===== verification/Lossy_Network.thy ===== *)
theory Lossy_Network
  imports Qos_Session Rtx_Roundtrip Rtp_Transport Rtp_Receiver_Order
begin

text \<open>
  Two media sessions joined by a network: \<open>near\<close> sends RTP, \<open>far\<close> receives it. A datagram that has been
  sent may be delivered any number of times, in any order, together with any others, or never; so
  the network loses, duplicates, delays and reorders. The components are those of the other
  theories, composed the way the session composes them (media session, transceiver, demuxer, router).
  The result is the promise the library makes its applications: what the far application is handed
  was sent by the near one, unchanged, and in the order in which it was sent.
\<close>

section \<open>One side: sending and receiving datagrams\<close>

text \<open>What the transceiver makes of the packets of a media session.\<close>

definition write_rtp :: "u8 \<Rightarrow> rtp_packet list \<Rightarrow> (rtp_error, bytes list) outcome" where
  "write_rtp fill ps = omap (List.map_filter id) (omapM (\<lambda>p. tranceiver_SendRtp fill (Some p)) ps)"

definition write_rtcp :: "u8 \<Rightarrow> sender_effect \<Rightarrow> (rtp_error, bytes list) outcome" where
  "write_rtcp fill eff =
     (case sent eff of None \<Rightarrow> Ok []
      | Some (ps, is_bye) \<Rightarrow>
        (case SendRtcp fill (map Some ps) of
           Ok (Some d) \<Rightarrow> Ok [d] | Ok None \<Rightarrow> Ok [] | Failed _ \<Rightarrow> Ok [] | Crash x \<Rightarrow> Crash x))"

text \<open>The router of a side with one media session, its destination 0.\<close>

definition media_expects :: "media_session \<Rightarrow> nat \<Rightarrow> u32 \<Rightarrow> bool" where
  "media_expects ms i s = (case ms_rtp_receiver ms of None \<Rightarrow> False | Some r \<Rightarrow> IsExpectedRemoteSsrc s r)"

definition media_router :: "media_session \<Rightarrow> router" where
  "media_router ms = register_session 0 ms router_new"

text \<open>What the handlers take from outside: the floating-point expressions, the clocks (of the \<open>i\<close>-th
  packet of a call), the bytes of new buffers and the first RTX sequence number.\<close>

record surroundings =
  transit :: "int \<Rightarrow> s32 \<Rightarrow> u32 \<Rightarrow> s32"
  extrapolate :: "u32 \<Rightarrow> u64 \<Rightarrow> u32 \<Rightarrow> u32"
  clocks :: "nat \<Rightarrow> nat \<Rightarrow> u64"
  parsing :: "nat \<Rightarrow> parse_env"
  filler :: u8
  first_rtx :: u16

text \<open>The packets routed to the session, one after the other: what its application is handed, the
  NACKs it sends.\<close>

fun deliver_rtp ::
  "surroundings \<Rightarrow> nat \<Rightarrow> rtp_packet list \<Rightarrow> media_session \<Rightarrow>
   (rtp_error, rtp_packet list \<times> bytes list \<times> media_session) outcome" where
  "deliver_rtp e i [] ms = Ok ([], [], ms)"
| "deliver_rtp e i (p # ps) ms =
     obind (session_OnRtp (transit e) (extrapolate e) (clocks e i) p ms) (\<lambda>(out, eff, ms).
     obind (write_rtcp (filler e) eff) (\<lambda>ds.
     omap (\<lambda>(out', ds', ms). (out @ out', ds @ ds', ms)) (deliver_rtp e (Suc i) ps ms)))"

text \<open>The RTCP datagrams: what is retransmitted.\<close>

fun deliver_rtcp ::
  "surroundings \<Rightarrow> nat \<Rightarrow> bytes list \<Rightarrow> media_session \<Rightarrow> (rtp_error, bytes list \<times> media_session) outcome" where
  "deliver_rtcp e i [] ms = Ok ([], ms)"
| "deliver_rtcp e i (d # ds) ms =
     obind (session_OnRtcp (parsing e i) (first_rtx e) d ms) (\<lambda>(ps, ms).
     obind (write_rtp (filler e) ps) (\<lambda>out.
     omap (\<lambda>(out', ms). (out @ out', ms)) (deliver_rtcp e (Suc i) ds ms)))"

text \<open>Datagrams read together from the socket: the packets for the application, the datagrams sent in
  answer, and the session.\<close>

definition receive ::
  "surroundings \<Rightarrow> bytes list \<Rightarrow> media_session \<Rightarrow> (rtp_error, rtp_packet list \<times> bytes list \<times> media_session) outcome" where
  "receive e ds ms =
     obind (OnData True (map Some ds)) (\<lambda>(rtps, rtcps).
     obind (deliver_rtp e 0 (map snd (OnRtp (media_expects ms) (media_router ms) rtps)) ms) (\<lambda>(out, replies, ms').
     omap (\<lambda>(rtx, ms'). (out, replies @ rtx, ms'))
       (deliver_rtcp e 0 (map snd (OnRtcp (media_router ms) rtcps)) ms')))"

section \<open>The system\<close>

text \<open>\<open>accepted\<close> and \<open>handed\<close> are the history: what the near session has transmitted for its application,
  retransmissions apart, and what the far application has been handed.\<close>

record system =
  near :: media_session
  far :: media_session
  to_far :: "bytes list"
  to_near :: "bytes list"
  accepted :: "rtp_packet list"
  handed :: "rtp_packet list"

text \<open>A packet that applications send: plain, and short enough for the two bytes of a retransmission.\<close>

definition sendable :: "rtp_packet \<Rightarrow> bool" where
  "sendable p \<longleftrightarrow> plain p \<and> rtp_buffer_length p + 2 < 2 ^ 32"

inductive net_step :: "system \<Rightarrow> system \<Rightarrow> bool" where
  send: "net_step w (w\<lparr>near := ms, to_far := to_far w @ ds, accepted := accepted w @ ps\<rparr>)"
    if "sendable p" and "session_SendRtpPacket now (Some p) (near w) = Ok (ps, ms)" and "write_rtp fill ps = Ok ds"
| far_receives: "net_step w (w\<lparr>far := ms, to_near := to_near w @ out, handed := handed w @ ps\<rparr>)"
    if "set ds \<subseteq> set (to_far w)" and "receive e ds (far w) = Ok (ps, out, ms)"
| near_receives: "net_step w (w\<lparr>near := ms, to_far := to_far w @ out\<rparr>)"
    if "set ds \<subseteq> set (to_near w)" and "receive e ds (near w) = Ok (ps, out, ms)"
| near_reports: "net_step w (w\<lparr>near := ms, to_far := to_far w @ ds\<rparr>)"
    if "session_Schedule rtp_time now (near w) = Ok (ms, eff)" and "write_rtcp fill eff = Ok ds"
| far_reports: "net_step w (w\<lparr>far := ms, to_near := to_near w @ ds\<rparr>)"
    if "session_Schedule rtp_time now (far w) = Ok (ms, eff)" and "write_rtcp fill eff = Ok ds"
| near_leaves: "net_step w (w\<lparr>near := ms, to_far := to_far w @ ds\<rparr>)"
    if "session_SendBye rtp_time now (near w) = Ok (ms, eff)" and "write_rtcp fill eff = Ok ds"
| far_leaves: "net_step w (w\<lparr>far := ms, to_near := to_near w @ ds\<rparr>)"
    if "session_SendBye rtp_time now (far w) = Ok (ms, eff)" and "write_rtcp fill eff = Ok ds"

text \<open>Configurations of the two ends of one stream.\<close>

definition paired :: "media_config \<Rightarrow> media_config \<Rightarrow> bool" where
  "paired a b \<longleftrightarrow> mc_direction a = SendOnly \<and> mc_direction b = RecvOnly
     \<and> mc_ssrc_media_remote b = mc_ssrc_media_local a \<and> mc_ssrc_media_local b = mc_ssrc_media_remote a
     \<and> mc_rtx_config_remote b = mc_rtx_config_local a
     \<and> (\<forall>c. mc_rtx_config_local a = Some c \<longrightarrow> rtx_ok c \<and> rtx_config_ssrc c \<noteq> mc_ssrc_media_local a)"

definition link :: "media_session \<Rightarrow> media_session \<Rightarrow> system" where
  "link a b = \<lparr>near = a, far = b, to_far = [], to_near = [], accepted = [], handed = []\<rparr>"

text \<open>CNAMEs longer than 255 bytes do not fit into an SDES item, and no configuration checks them.\<close>

inductive net_reachable :: "media_config \<Rightarrow> media_config \<Rightarrow> system \<Rightarrow> bool" for a b where
  start: "net_reachable a b (link ms_a ms_b)"
    if "session_Initialize now name a = Ok (ms_a, eff)" and "session_Initialize now' name' b = Ok (ms_b, eff')"
      and "length name \<le> 255" and "length name' \<le> 255"
| step: "net_reachable a b w'" if "net_reachable a b w" and "net_step w w'"

section \<open>The receiver invents nothing\<close>

abbreviation held :: "receiver_cache \<Rightarrow> rtp_packet set" where
  "held c \<equiv> cp_packet ` set (cached_packets c)"

lemma insert_scan_set: "set (insert_scan new cs) \<subseteq> insert new (set cs)"
  by (induction new cs rule: insert_scan.induct) auto

lemma insert_cached_set: "set (insert_cached new cs) \<subseteq> insert new (set cs)"
  using insert_scan_set by (auto simp: insert_cached_def)

lemma SupplementLossSeqs_packets:
  "SupplementLossSeqs c = Ok c' \<Longrightarrow> cached_packets c' = cached_packets c"
  by (auto simp: SupplementLossSeqs_def Let_def split: list.splits prod.splits)

lemma PutPacket_from:
  assumes "PutPacket now p c = Ok c'"
  shows "held c' \<subseteq> insert p (held c)"
proof -
  have "held (c\<lparr>cached_packets := insert_cached \<lparr>cp_packet = p, cp_timeout = t\<rparr> (cached_packets c), loss_seqs := ls\<rparr>)
      \<subseteq> insert p (held c)" for t ls c
    using insert_cached_set [of "\<lparr>cp_packet = p, cp_timeout = t\<rparr>" "cached_packets c"] by fastforce
  with assms show ?thesis
    by (fastforce simp: PutPacket_def Let_def omap_eq_Ok_conv split: if_splits dest!: SupplementLossSeqs_packets)
qed

lemma GetPackets_from:
  assumes "GetPackets now c = (out, c')"
  shows "held c = held c' \<union> set out"
proof -
  define nb where "nb = (if has_callback_packet c then ready_count (latest_callback_seq c) (rev (cached_packets c)) else 0)"
  obtain keep go where kg: "split_due now nb (cached_packets c) = (keep, go)" by fastforce
  then show ?thesis using assms split_due_append [OF kg]
    by (auto simp: GetPackets_def nb_def [symmetric] Let_def image_Un split: if_splits)
qed

lemma update_jitter_frame [simp]: "r_cache (update_jitter td now p r) = r_cache r" "r_config (update_jitter td now p r) = r_config r"
  by (simp_all add: update_jitter_def Let_def)

lemma update_statistics_frame [simp]: "r_cache (update_statistics r) = r_cache r" "r_config (update_statistics r) = r_config r"
  by (simp_all add: update_statistics_def Let_def)

lemma OnRtpPacket_cases:
  assumes "OnRtpPacket td clk p r = Ok (out, r')"
  obtains (ignored) "out = silent" and "r' = r"
      and "\<And>q. resolve_rtx p r = Ok (Some q) \<Longrightarrow> ssrc q \<noteq> remote_ssrc (r_config r)
        \<or> payload_type q \<notin> set (r_rtp_payload_types (r_config r))"
  | (taken) q c where "resolve_rtx p r = Ok (Some q)" and "PutPacket (clk 1) q (r_cache r) = (Ok c :: (rtp_error, receiver_cache) outcome)"
      and "nack_seqs out = Some (fst (GetLossPacketSeqsForNack (clk 2) c))"
      and "(released out, r_cache r') = GetPackets (clk 3) (snd (GetLossPacketSeqsForNack (clk 2) c))"
      and "r_config r' = r_config r" and "r_has_received r'"
proof -
  obtain oq where oq: "resolve_rtx p r = Ok oq" using assms by (auto simp: OnRtpPacket_def obind_eq_Ok_conv)
  show ?thesis
  proof (cases "oq = None \<or> ssrc (the oq) \<noteq> remote_ssrc (r_config r)
      \<or> payload_type (the oq) \<notin> set (r_rtp_payload_types (r_config r))")
    case True
    then have "OnRtpPacket td clk p r = Ok (silent, r)"
      by (auto simp: OnRtpPacket_def oq split: option.split)
    with assms True oq show ?thesis by (intro ignored) auto
  next
    case False
    then obtain q where q: "oq = Some q" by auto
    let ?r1 = "update_jitter td (clk 0) q r"
    let ?lost = "\<lambda>c. GetLossPacketSeqsForNack (clk 2) c" and ?go = "\<lambda>c. GetPackets (clk 3) (snd (GetLossPacketSeqsForNack (clk 2) c))"
    have "OnRtpPacket td clk p r = omap (\<lambda>c. (\<lparr>nack_seqs = Some (fst (?lost c)), released = fst (?go c)\<rparr>,
        (update_statistics (?r1\<lparr>r_cache := c\<rparr>))\<lparr>r_has_received := True, r_cache := snd (?go c)\<rparr>))
        (PutPacket (clk 1) q (r_cache r))"
      using False by (simp add: OnRtpPacket_def oq q Let_def case_prod_beta del: One_nat_def)
    then obtain c where c: "PutPacket (clk 1) q (r_cache r) = (Ok c :: (rtp_error, receiver_cache) outcome)"
      and "out = \<lparr>nack_seqs = Some (fst (?lost c)), released = fst (?go c)\<rparr>"
      and "r' = (update_statistics (?r1\<lparr>r_cache := c\<rparr>))\<lparr>r_has_received := True, r_cache := snd (?go c)\<rparr>"
      using assms by (cases "PutPacket (clk 1) q (r_cache r) :: (rtp_error, receiver_cache) outcome") (simp_all del: One_nat_def)
    then show ?thesis using oq q by (intro taken [OF _ c]) simp_all
  qed
qed

lemma OnRtpPacket_from:
  assumes "OnRtpPacket td clk p r = Ok (out, r')"
  shows "r_config r' = r_config r"
    and "held (r_cache r') \<union> set (released out) \<subseteq> held (r_cache r) \<union> {q. resolve_rtx p r = Ok (Some q)}"
  using assms
proof (atomize (full), cases rule: OnRtpPacket_cases)
  case (taken q c)
  have "held (snd (GetLossPacketSeqsForNack (clk 2) c)) = held c" by (simp add: GetLossPacketSeqsForNack_def)
  then show "r_config r' = r_config r \<and>
      held (r_cache r') \<union> set (released out) \<subseteq> held (r_cache r) \<union> {q. resolve_rtx p r = Ok (Some q)}"
    using GetPackets_from [OF taken(4) [symmetric]] PutPacket_from [OF taken(2)] taken(1,5) by auto
qed (simp add: silent_def)

text \<open>
  The order: every base from which all that was sent lies ahead sees the packets handed on at
  growing distances.
\<close>

abbreviation nearer :: "u16 \<Rightarrow> rtp_packet \<Rightarrow> rtp_packet \<Rightarrow> bool" where
  "nearer base \<equiv> \<lambda>p q. seq_dist base (sequence_number p) < seq_dist base (sequence_number q)"

definition order_ok :: "u16 \<Rightarrow> rtp_packet list \<Rightarrow> receiver_cache \<Rightarrow> bool" where
  "order_ok base out c \<longleftrightarrow> sorted_wrt (nearer base) out \<and> (has_callback_packet c \<longleftrightarrow> out \<noteq> [])
     \<and> cache_inv (if out = [] then base else sequence_number (last out)) c"

definition receiver_from :: "rtp_packet list \<Rightarrow> rtp_packet list \<Rightarrow> rtp_receiver \<Rightarrow> bool" where
  "receiver_from tx out r \<longleftrightarrow> set out \<union> held (r_cache r) \<subseteq> set tx
     \<and> (\<forall>base. (\<forall>p \<in> set tx. ahead base (sequence_number p)) \<longrightarrow> order_ok base out (r_cache r))"

lemma receiver_from_more: "receiver_from tx out r \<Longrightarrow> receiver_from (tx @ ps) out r"
  by (auto simp: receiver_from_def)

lemma sorted_wrt_nearer_append:
  assumes "sorted_wrt (nearer base) out" and "sorted_wrt (nearer base) new"
    and "out \<noteq> [] \<Longrightarrow> \<forall>q \<in> set new. nearer base (last out) q"
  shows "sorted_wrt (nearer base) (out @ new)"
proof -
  have "nearer base p q" if "p \<in> set out" "q \<in> set new" for p q
  proof -
    have ne: "out \<noteq> []" using that(1) by auto
    then obtain xs where xs: "out = xs @ [last out]" by (metis append_butlast_last_id)
    then have "p = last out \<or> nearer base p (last out)"
      using assms(1) that(1) by (metis Un_iff empty_iff insert_iff list.set set_append sorted_wrt_append)
    then show ?thesis using assms(3) [OF ne] that(2) by auto
  qed
  then show ?thesis using assms(1,2) by (auto simp: sorted_wrt_append)
qed

lemma order_ok_step:
  assumes "order_ok base out (r_cache r)" and "received_ok p" and "OnRtpPacket td clk p r = Ok (o1, r')"
    and resolved: "\<And>q. resolve_rtx p r = Ok (Some q) \<Longrightarrow> ahead base (sequence_number q)"
    and ahead: "\<And>q. q \<in> set out \<union> set (released o1) \<Longrightarrow> ahead base (sequence_number q)"
  shows "order_ok base (out @ released o1) (r_cache r')"
proof -
  let ?base = "if out = [] then base else sequence_number (last out)"
  have inv: "cache_inv ?base (r_cache r)" and sorted: "sorted_wrt (nearer base) out"
    and cb: "has_callback_packet (r_cache r) \<longleftrightarrow> out \<noteq> []"
    using assms(1) by (auto simp: order_ok_def)
  have start: "has_callback_packet (r_cache r) \<or>
      (case resolve_rtx p r of Ok (Some q) \<Rightarrow> ahead ?base (sequence_number q) | _ \<Rightarrow> True)"
    using cb resolved by (auto split: outcome.split option.split)
  obtain o2 r2 where 2: "OnRtpPacket td clk p r = Ok (o2, r2)"
    and step: "released o2 = [] \<and> cache_inv ?base (r_cache r2) \<and> has_callback_packet (r_cache r2) = has_callback_packet (r_cache r)
      \<or> released o2 \<noteq> [] \<and> cache_inv (sequence_number (last (released o2))) (r_cache r2)
        \<and> has_callback_packet (r_cache r2)
        \<and> sorted_wrt IsSeqAfter (map sequence_number (released o2))
        \<and> (\<forall>p \<in> set (released o2). ahead ?base (sequence_number p))"
    by (rule OnRtpPacket_inv [OF assms(2) inv start])
  have eq: "o2 = o1" "r2 = r'" using 2 assms(3) by auto
  show ?thesis
  proof (cases "released o1 = []")
    case True
    then show ?thesis using step sorted cb by (simp add: order_ok_def eq)
  next
    case False
    then have new: "sorted_wrt (\<lambda>x y. IsSeqAfter (sequence_number x) (sequence_number y)) (released o1)"
      and rel: "\<forall>q \<in> set (released o1). ahead ?base (sequence_number q)"
      and rest: "cache_inv (sequence_number (last (released o1))) (r_cache r')" "has_callback_packet (r_cache r')"
      using step by (auto simp: eq sorted_wrt_map)
    have "sorted_wrt (nearer base) (released o1)"
      using ahead after_dist [of base] by (intro sorted_wrt_mono_rel [OF _ new]) auto
    moreover have "\<forall>q \<in> set (released o1). nearer base (last out) q" if "out \<noteq> []"
      using rel that ahead after_dist [of base] by (auto simp: ahead_iff)
    ultimately have "sorted_wrt (nearer base) (out @ released o1)"
      by (intro sorted_wrt_nearer_append [OF sorted])
    then show ?thesis using False rest by (simp add: order_ok_def)
  qed
qed

lemma receiver_from_step:
  assumes "receiver_from tx out r" and "received_ok p" and "OnRtpPacket td clk p r = Ok (o1, r')"
    and "\<And>q. resolve_rtx p r = Ok (Some q) \<Longrightarrow> q \<in> set tx"
  shows "receiver_from tx (out @ released o1) r'"
proof -
  have "held (r_cache r') \<union> set (released o1) \<subseteq> set tx"
    by (rule order_trans [OF OnRtpPacket_from(2) [OF assms(3)]]) (use assms(1,4) in \<open>auto simp: receiver_from_def\<close>)
  then have sub: "set (out @ released o1) \<union> held (r_cache r') \<subseteq> set tx"
    using assms(1) by (simp add: receiver_from_def)
  have "order_ok base (out @ released o1) (r_cache r')"
    if "\<forall>p \<in> set tx. ahead base (sequence_number p)" for base
    using that sub assms(1,4) by (intro order_ok_step [OF _ assms(2,3)]) (auto simp: receiver_from_def)
  with sub show ?thesis by (simp add: receiver_from_def)
qed


section \<open>What the media sessions leave alone\<close>

text \<open>The parts of a session that the RTCP sender does not touch.\<close>

definition same_rtp :: "media_session \<Rightarrow> media_session \<Rightarrow> bool" where
  "same_rtp ms ms' \<longleftrightarrow> ms_rtp_sender ms' = ms_rtp_sender ms \<and> ms_rtp_receiver ms' = ms_rtp_receiver ms
     \<and> ms_rtcp_receiver ms' = ms_rtcp_receiver ms \<and> ms_config ms' = ms_config ms"

lemma session_answers_frame:
  "session_answers rtp_time now s ms = Ok (cb, ms') \<Longrightarrow> same_rtp ms ms'"
  by (auto simp: session_answers_def Let_def obind_eq_Ok_conv same_rtp_def session_HasSentRtp_def
      session_HasReceivedRtp_def deref_def split: if_splits option.splits)

lemma run_rtcp_frame:
  assumes "run_rtcp rtp_time now call ms = Ok (ms', eff)"
  shows "same_rtp ms ms'"
    and "\<exists>s cb s'. ms_rtcp_sender ms = Some s \<and> call cb s = Ok (s', eff) \<and> ms_rtcp_sender ms' = Some s'"
  using assms session_answers_frame
  by (fastforce simp: run_rtcp_def deref_def obind_eq_Ok_conv omap_eq_Ok_conv same_rtp_def split: option.splits)+

lemma session_OnRtp_parts:
  assumes "session_OnRtp td rtp_time clk p ms = Ok (ps, eff, ms')"
  obtains r out r' where "ms_rtp_receiver ms = Some r" and "OnRtpPacket td clk p r = Ok (out, r')"
    and "ps = released out" and "ms_rtp_receiver ms' = Some r'" and "ms_rtp_sender ms' = ms_rtp_sender ms"
proof -
  obtain r out r' where r: "ms_rtp_receiver ms = Some r" and o: "OnRtpPacket td clk p r = Ok (out, r')"
    using assms by (auto simp: session_OnRtp_def deref_def obind_eq_Ok_conv split: option.splits)
  let ?ms = "ms\<lparr>ms_rtp_receiver := Some r'\<rparr>"
  have frame: "same_rtp ?ms ms1" if "session_NotifyLoss rtp_time now seqs ?ms = Ok (ms1, eff1)" for now seqs ms1 eff1
    using that run_rtcp_frame(1) by (auto simp: session_NotifyLoss_def same_rtp_def split: if_splits)
  have "ps = released out \<and> same_rtp ?ms ms'"
    using assms r o frame
    by (auto simp: session_OnRtp_def deref_def same_rtp_def Let_def split: option.splits outcome.splits prod.splits)
  then show ?thesis using that [OF r o] by (simp add: same_rtp_def)
qed

section \<open>The far side\<close>

text \<open>A datagram carries only what was transmitted: if it is taken for RTP, what the receiver makes of it
  is one of the packets, or nothing.\<close>

definition carries :: "rtp_receiver_config \<Rightarrow> rtp_packet set \<Rightarrow> bytes \<Rightarrow> bool" where
  "carries c tx d \<longleftrightarrow> (\<forall>p. is_rtp d \<and> StorePacket rtp_empty d = Ok p \<longrightarrow> received_ok p
     \<and> (\<forall>r q. r_config r = c \<and> resolve_rtx p r = Ok (Some q) \<longrightarrow> q \<in> tx))"

definition far_side ::
  "rtp_receiver_config \<Rightarrow> rtp_packet list \<Rightarrow> (rtp_packet list \<Rightarrow> rtp_receiver \<Rightarrow> bool) \<Rightarrow> rtp_packet list \<Rightarrow> media_session \<Rightarrow> bool" where
  "far_side c tx good out ms \<longleftrightarrow>
     (\<exists>r. ms_rtp_receiver ms = Some r \<and> r_config r = c \<and> receiver_from tx out r \<and> good out r)"

abbreviation far_ok :: "rtp_receiver_config \<Rightarrow> rtp_packet list \<Rightarrow> rtp_packet list \<Rightarrow> media_session \<Rightarrow> bool" where
  "far_ok c tx \<equiv> far_side c tx (\<lambda>_ _. True)"

lemma far_side_frame: "far_side c tx good out ms \<Longrightarrow> same_rtp ms ms' \<Longrightarrow> far_side c tx good out ms'"
  by (simp add: far_side_def same_rtp_def)

text \<open>A packet that the receiver may be given.\<close>

definition genuine :: "rtp_receiver_config \<Rightarrow> rtp_packet set \<Rightarrow> rtp_packet \<Rightarrow> bool" where
  "genuine c tx p \<longleftrightarrow> received_ok p \<and> (\<forall>r q. r_config r = c \<and> resolve_rtx p r = Ok (Some q) \<longrightarrow> q \<in> tx)"

text \<open>What an invariant of the RTP receiver must satisfy to be one of the far side, whatever is delivered.\<close>

locale receiver_invariant =
  fixes c :: rtp_receiver_config and tx :: "rtp_packet list" and good :: "rtp_packet list \<Rightarrow> rtp_receiver \<Rightarrow> bool"
  assumes good_step: "r_config r = c \<Longrightarrow> receiver_from tx out r \<Longrightarrow> good out r \<Longrightarrow> genuine c (set tx) p \<Longrightarrow>
      OnRtpPacket td clk p r = Ok (o1, r') \<Longrightarrow> good (out @ released o1) r'"
begin

lemma on_rtp_keeps:
  assumes "session_OnRtp td rtp_time clk p ms = Ok (new, eff, ms')" and "far_side c tx good out ms" and "genuine c (set tx) p"
  shows "far_side c tx good (out @ new) ms'"
proof -
  obtain r o1 r' where o: "ms_rtp_receiver ms = Some r" "OnRtpPacket td clk p r = Ok (o1, r')"
    "new = released o1" "ms_rtp_receiver ms' = Some r'"
    using session_OnRtp_parts [OF assms(1)] by metis
  then have r: "r_config r = c" "receiver_from tx out r" "good out r" using assms(2) by (auto simp: far_side_def)
  have "receiver_from tx (out @ new) r'"
    unfolding o(3) using r(1) assms(3) by (intro receiver_from_step [OF r(2) _ o(2)]) (auto simp: genuine_def)
  moreover have "good (out @ new) r'" unfolding o(3) by (rule good_step [OF r assms(3) o(2)])
  moreover have "r_config r' = c" using OnRtpPacket_from(1) [OF o(2)] r(1) by simp
  ultimately show ?thesis using o(4) by (simp add: far_side_def)
qed

lemma deliver_keeps:
  assumes "deliver_rtp e i ps ms = Ok (new, ds, ms')" and "far_side c tx good out ms" and "\<forall>p \<in> set ps. genuine c (set tx) p"
  shows "far_side c tx good (out @ new) ms'"
  using assms
proof (induction e i ps ms arbitrary: new ds ms' out rule: deliver_rtp.induct)
  case (2 e i p ps ms)
  obtain o1 eff ms1 ds1 o2 ds2 where one: "session_OnRtp (transit e) (extrapolate e) (clocks e i) p ms = Ok (o1, eff, ms1)"
    and w: "write_rtcp (filler e) eff = Ok ds1" and rest: "deliver_rtp e (Suc i) ps ms1 = Ok (o2, ds2, ms')"
    and new: "new = o1 @ o2"
    using "2.prems"(1) by (auto simp: obind_eq_Ok_conv omap_eq_Ok_conv)
  have "far_side c tx good (out @ o1) ms1" using on_rtp_keeps [OF one "2.prems"(2)] "2.prems"(3) by simp
  then show ?case using "2.IH" [OF one refl refl w rest, of "out @ o1"] "2.prems"(3) by (simp add: new)
qed simp

end

lemma session_notified_frame:
  assumes "session_notified random_seq ns ms = Ok (ps, ms')"
  shows "ms_rtp_receiver ms' = ms_rtp_receiver ms"
  using assms
proof (induction random_seq ns ms arbitrary: ps ms' rule: session_notified.induct)
  case (3 random_seq seqs ns ms)
  obtain qs ms1 rs where one: "session_NotifyNackReceived random_seq seqs ms = Ok (qs, ms1)"
    and rest: "session_notified random_seq ns ms1 = Ok (rs, ms')"
    using "3.prems" by (auto simp: obind_eq_Ok_conv omap_eq_Ok_conv)
  have "ms_rtp_receiver ms1 = ms_rtp_receiver ms" using one
    by (auto simp: session_NotifyNackReceived_def deref_def omap_eq_Ok_conv split: option.splits if_splits)
  then show ?case using "3.IH" [OF one _ rest] by simp
qed (auto simp: session_NotifyByeReceived_def)

lemma deliver_rtcp_receiver:
  "deliver_rtcp e i ds ms = Ok (out, ms') \<Longrightarrow> ms_rtp_receiver ms' = ms_rtp_receiver ms"
proof (induction e i ds ms arbitrary: out ms' rule: deliver_rtcp.induct)
  case (2 e i d ds ms)
  obtain ps ms1 out1 out2 where one: "session_OnRtcp (parsing e i) (first_rtx e) d ms = Ok (ps, ms1)"
    and w: "write_rtp (filler e) ps = Ok out1" and rest: "deliver_rtcp e (Suc i) ds ms1 = Ok (out2, ms')"
    using "2.prems" by (auto simp: obind_eq_Ok_conv omap_eq_Ok_conv)
  have "ms_rtp_receiver ms1 = ms_rtp_receiver ms"
    using one by (auto simp: session_OnRtcp_def deref_def split: option.splits outcome.splits dest!: session_notified_frame)
  then show ?case using "2.IH" [OF one _ w rest] by simp
qed simp

lemma routed_rtp_set: "snd ` set (OnRtp expects r ps) \<subseteq> set ps"
proof -
  have "snd ` set (route_rtp expects dsts ps) \<subseteq> set ps" for dsts
    by (induction ps) (auto split: option.splits)
  then show ?thesis by (simp add: OnRtp_def)
qed

lemma map_filter_Some: "List.map_filter id (map Some xs) = xs"
  by (induction xs) (simp_all add: map_filter_simps)

lemma demux_datagrams:
  "OnData True (map Some ds) = Ok (concat (map parsed_rtp (filter is_rtp ds)), filter is_rtcp ds)"
proof -
  note map_filter_Some [of ds]
  moreover have "(\<lambda>d. \<not> is_rtp d \<and> is_rtcp d) = is_rtcp" by (auto simp: fun_eq_iff is_rtp_def is_rtcp_def)
  ultimately show ?thesis by (simp only: OnData_def demux_fold) simp
qed

text \<open>The packets routed to a session come from datagrams.\<close>

lemma receive_parts:
  assumes "receive e ds ms = Ok (new, out, ms')"
  obtains ps ds1 ms1 rtx where "deliver_rtp e 0 ps ms = Ok (new, ds1, ms1)"
    and "deliver_rtcp e 0 (map snd (OnRtcp (media_router ms) (filter is_rtcp ds))) ms1 = Ok (rtx, ms')"
    and "out = ds1 @ rtx" and "ps = map snd (OnRtp (media_expects ms) (media_router ms) (concat (map parsed_rtp (filter is_rtp ds))))"
  using assms by (auto simp: receive_def demux_datagrams obind_eq_Ok_conv omap_eq_Ok_conv)

lemma routed_genuine:
  assumes "\<forall>d \<in> set ds. carries c tx d"
  shows "\<forall>p \<in> set (map snd (OnRtp expects router (concat (map parsed_rtp (filter is_rtp ds))))). genuine c tx p"
proof
  let ?rtps = "concat (map parsed_rtp (filter is_rtp ds))"
  fix p assume "p \<in> set (map snd (OnRtp expects router ?rtps))"
  then have "p \<in> set ?rtps" using routed_rtp_set by fastforce
  then obtain d where "d \<in> set ds" "is_rtp d" "StorePacket rtp_empty d = Ok p" by (fastforce split: outcome.splits)
  then show "genuine c tx p" using assms unfolding carries_def genuine_def by blast
qed

context receiver_invariant
begin

lemma receive_keeps:
  assumes "receive e ds ms = Ok (new, out', ms')" and "far_side c tx good out ms" and "\<forall>d \<in> set ds. carries c (set tx) d"
  shows "far_side c tx good (out @ new) ms'"
  using assms(1)
proof (rule receive_parts)
  fix ps ds1 ms1 rtx
  assume d: "deliver_rtp e 0 ps ms = Ok (new, ds1, ms1)"
    "deliver_rtcp e 0 (map snd (OnRtcp (media_router ms) (filter is_rtcp ds))) ms1 = Ok (rtx, ms')"
    and ps: "ps = map snd (OnRtp (media_expects ms) (media_router ms) (concat (map parsed_rtp (filter is_rtp ds))))"
  have "far_side c tx good (out @ new) ms1"
    by (rule deliver_keeps [OF d(1) assms(2)]) (unfold ps, rule routed_genuine [OF assms(3)])
  then show ?thesis using deliver_rtcp_receiver [OF d(2)] by (simp add: far_side_def)
qed

end

text \<open>The order of delivery needs no more than what \<open>far_side\<close> says of itself.\<close>

interpretation delivery: receiver_invariant c tx "\<lambda>_ _. True" for c tx
  by unfold_locales simp

section \<open>The near side\<close>

lemma copy_of_plain: "plain p \<Longrightarrow> copy_of p = p"
  by (cases p) (simp add: plain_def copy_of_def)

lemma sendable_ok: "sendable p \<Longrightarrow> packet_ok p"
  by (simp add: sendable_def plain_def packet_ok_def rtp_wf_def extension_wf_def)

lemma write_rtp_plain:
  assumes "\<forall>p \<in> set ps. plain p"
  shows "write_rtp fill ps = Ok (map rtp_image ps)"
proof -
  have "omapM (\<lambda>p. tranceiver_SendRtp fill (Some p)) ps = Ok (map (\<lambda>p. Some (rtp_image p)) ps)"
    using assms plain_sent(1) by (intro omapM_all_Ok) blast
  then show ?thesis using map_filter_Some [of "map rtp_image ps"] by (simp add: write_rtp_def comp_def)
qed

text \<open>What the RTP sender of \<open>near\<close> keeps, besides its invariant: the cache holds transmitted packets.\<close>

definition sender_from :: "rtp_sender_config \<Rightarrow> rtp_packet list \<Rightarrow> rtp_sender \<Rightarrow> bool" where
  "sender_from c tx s \<longleftrightarrow> sender_inv c tx s \<and> (\<forall>p \<in> set tx. sendable p)
     \<and> (\<forall>cached. s_cache s = Some cached \<longrightarrow> set cached \<subseteq> set tx)"

lemma cache_put_set: "set (cache_put d p cached) \<subseteq> insert p (set cached)"
  by (auto simp: cache_put_def dest: set_dropWhileD)

lemma SendRtp_result:
  assumes "SendRtp now (Some p) s = Ok (ps, s')"
  obtains (ignored) "ps = []" and "s' = s" | (taken) s1 where "ps = [p]" and "cache_sent p s = Ok s1" and "s_cache s' = s_cache s1"
  using assms by (auto simp: SendRtp_def Let_def omap_eq_Ok_conv split: if_splits)

lemma SendRtp_from:
  assumes "sender_from c tx s" and "sendable p" and "SendRtp now (Some p) s = Ok (ps, s')"
  shows "sender_from c (tx @ ps) s'" and "set ps \<subseteq> {p}"
proof -
  have inv: "sender_inv c tx s" and ok: "packet_ok p" using assms(1,2) sendable_ok by (auto simp: sender_from_def)
  then have inv': "sender_inv c (tx @ ps) s'"
    using SendRtp_inv [OF inv, of "Some p" now] assms(3) by auto
  show "set ps \<subseteq> {p}" using assms(3) by (cases rule: SendRtp_result) auto
  from assms(3) show "sender_from c (tx @ ps) s'"
  proof (cases rule: SendRtp_result)
    case ignored
    then show ?thesis using assms(1) by simp
  next
    case (taken s1)
    have cache: "s_rtx_enabled (s_config s) \<longrightarrow> s_cache s \<noteq> None" using inv by (auto simp: sender_inv_def)
    have "set cached \<subseteq> set (tx @ [p])" if "s_cache s1 = Some cached" for cached
      using that taken(2) assms(1,2) cache
      by (auto simp: cache_sent_Ok [OF ok cache] sender_from_def sendable_def copy_of_plain
          dest!: subsetD [OF cache_put_set] split: if_splits)
    then show ?thesis using inv' assms(1,2) taken by (auto simp: sender_from_def)
  qed
qed

text \<open>The packets of a retransmission.\<close>

definition rtx_of :: "rtp_sender_config \<Rightarrow> rtp_packet \<Rightarrow> rtp_packet \<Rightarrow> bool" where
  "rtx_of c p q \<longleftrightarrow> (\<exists>n s s'. s_config s = c \<and> ConstructRtx n p s = Ok (Some q, s'))"

definition rtx_only :: "rtp_sender \<Rightarrow> rtp_sender \<Rightarrow> bool" where
  "rtx_only s s' \<longleftrightarrow> s' = s\<lparr>rtx_has_sent := rtx_has_sent s', rtx_last_seq := rtx_last_seq s'\<rparr>"

lemma rtx_only_frame:
  assumes "rtx_only s s'"
  shows "s_config s' = s_config s" and "s_cache s' = s_cache s" and "sender_inv c tx s' = sender_inv c tx s"
  by (subst assms [unfolded rtx_only_def], simp add: sender_inv_def)+

lemma ConstructRtx_frame:
  assumes "ConstructRtx n p s = Ok (q, s')"
  shows "rtx_only s s'"
proof (cases "rtx_type_of (s_map_rtx (s_config s)) (payload_type p) = None \<or> (\<exists>x. copy_csrcs p = Failed x)")
  case True
  then have "s' = s" using assms by (auto simp: ConstructRtx_def split: option.splits outcome.splits)
  then show ?thesis by (simp add: rtx_only_def)
next
  case False
  then obtain e cs where e: "rtx_type_of (s_map_rtx (s_config s)) (payload_type p) = Some e" and cs: "copy_csrcs p = Ok cs"
    using assms by (cases "copy_csrcs p") (auto simp: ConstructRtx_def)
  obtain ext body where x: "copy_extension p = Ok ext" "payload_buffer p = Some body"
    using assms e cs by (auto simp: ConstructRtx_def obind_eq_Ok_conv split: option.splits)
  define s1 where "s1 = (if rtx_has_sent s then s else s\<lparr>rtx_last_seq := n\<rparr>)"
  have "rtx_only s (s1\<lparr>rtx_has_sent := True, rtx_last_seq := m\<rparr>)" "rtx_only s s1" for m
    by (simp_all add: s1_def rtx_only_def)
  then show ?thesis using assms e cs x by (auto simp: ConstructRtx_def Let_def simp flip: s1_def split: outcome.splits)
qed

lemma rtx_only_trans: "rtx_only s s1 \<Longrightarrow> rtx_only s1 s2 \<Longrightarrow> rtx_only s s2"
  by (cases s; cases s1; cases s2) (simp add: rtx_only_def)

lemma send_rtx_all_from:
  assumes "send_rtx_all n ps s = Ok (out, s')"
  shows "rtx_only s s' \<and> (\<forall>q \<in> set out. \<exists>p. Some p \<in> set ps \<and> rtx_of (s_config s) p q)"
  using assms
proof (induction n ps s arbitrary: out s' rule: send_rtx_all.induct)
  case (1 n s)
  then show ?case by (simp add: rtx_only_def)
next
  case (3 n p ps s)
  obtain oq s1 out1 where one: "ConstructRtx n p s = Ok (oq, s1)" and rest: "send_rtx_all n ps s1 = Ok (out1, s')"
    and out: "out = (case oq of None \<Rightarrow> out1 | Some q \<Rightarrow> q # out1)"
    using "3.prems" by (auto simp: obind_eq_Ok_conv omap_eq_Ok_conv)
  note frame = ConstructRtx_frame [OF one] and ih = "3.IH" [OF one refl rest]
  have "rtx_of (s_config s) p q" if "oq = Some q" for q using one that by (auto simp: rtx_of_def)
  then show ?case using ih rtx_only_trans [OF frame] rtx_only_frame(1) [OF frame] out
    by (auto split: option.splits)
qed simp

lemma cache_get_from:
  assumes "cache_get seqs cached = Ok ps" and "\<forall>p \<in> set cached. sendable p" and "Some q \<in> set ps"
  shows "q \<in> set cached"
proof -
  have one: "set xs \<subseteq> Some ` set cached" if "cache_get_one cached x = Ok xs" for x xs
  proof (cases "find (\<lambda>c. sequence_number c = x) cached")
    case (Some p)
    then have p: "p \<in> set cached" by (auto simp: find_Some_iff)
    then have "CreateCopy p = Ok (copy_of p)" using assms(2) sendable_ok [of p]
      by (simp add: CreateCopy_Ok packet_ok_def copy_of_def)
    then show ?thesis using that Some p assms(2) by (auto simp: cache_get_one_def copy_of_plain sendable_def)
  qed (use that in \<open>simp add: cache_get_one_def\<close>)
  have "set (concat yss) \<subseteq> Some ` set cached" if "omapM (cache_get_one cached) xs = Ok yss" for xs yss
    using that
  proof (induction xs arbitrary: yss)
    case (Cons x xs)
    then obtain ys zss where "cache_get_one cached x = Ok ys" "omapM (cache_get_one cached) xs = Ok zss" "yss = ys # zss"
      by (auto simp: obind_eq_Ok_conv omap_eq_Ok_conv)
    then show ?case using one Cons.IH by simp
  qed simp
  then show ?thesis using assms(1,3) by (fastforce simp: cache_get_def omap_eq_Ok_conv)
qed

lemma SendRtx_from:
  assumes "SendRtx n seqs s = Ok (out, s')" and "sender_from c tx s"
  shows "sender_from c tx s'" and "\<forall>q \<in> set out. \<exists>p \<in> set tx. rtx_of c p q"
proof -
  have conf: "s_config s = c" using assms(2) by (simp add: sender_from_def sender_inv_def)
  have "sender_from c tx s' \<and> (\<forall>q \<in> set out. \<exists>p \<in> set tx. rtx_of c p q)"
  proof (cases "out = [] \<and> s' = s")
    case False
    then obtain cached ps where cached: "s_cache s = Some cached" "cache_get seqs cached = Ok ps"
      and all: "send_rtx_all n ps s = Ok (out, s')"
      using assms(1) by (auto simp: SendRtx_def obind_eq_Ok_conv split: if_splits option.splits)
    have sub: "set cached \<subseteq> set tx" "\<forall>p \<in> set cached. sendable p" using assms(2) cached(1) by (auto simp: sender_from_def)
    have frame: "rtx_only s s'" and made: "\<forall>q \<in> set out. \<exists>p. Some p \<in> set ps \<and> rtx_of (s_config s) p q"
      using send_rtx_all_from [OF all] by auto
    have "sender_from c tx s'" using assms(2) rtx_only_frame [OF frame] by (simp add: sender_from_def)
    moreover have "\<exists>p \<in> set tx. rtx_of c p q" if "q \<in> set out" for q
      using made that cache_get_from [OF cached(2) sub(2)] sub(1) conf by blast
    ultimately show ?thesis by blast
  qed (use assms(2) in simp)
  then show "sender_from c tx s'" and "\<forall>q \<in> set out. \<exists>p \<in> set tx. rtx_of c p q" by auto
qed


section \<open>What the datagrams of the near side carry\<close>

lemma paired_configs:
  assumes "paired a b"
  shows "local_ssrc (rtp_sender_config_of a) = remote_ssrc (rtp_receiver_config_of b)"
    and "s_rtx_enabled (rtp_sender_config_of a) = r_rtx_enabled (rtp_receiver_config_of b)"
    and "s_map_rtx (rtp_sender_config_of a) = r_map_rtx (rtp_receiver_config_of b)"
    and "s_rtx_ssrc (rtp_sender_config_of a) = r_rtx_ssrc (rtp_receiver_config_of b)"
    and "s_rtx_enabled (rtp_sender_config_of a) \<Longrightarrow> s_rtx_ssrc (rtp_sender_config_of a) \<noteq> local_ssrc (rtp_sender_config_of a)"
    and "map_ok (s_map_rtx (rtp_sender_config_of a))"
    and "e \<in> set (s_map_rtx (rtp_sender_config_of a)) \<Longrightarrow> s_rtx_enabled (rtp_sender_config_of a) \<and> fst e < 128"
  using assms
  by (auto simp: paired_def rtp_sender_config_of_def rtp_receiver_config_of_def Let_def map_ok_def rtx_ok_def
      word_le_nat_alt word_less_nat_alt split: option.splits)

text \<open>What the far receiver makes of a packet.\<close>

definition resolves :: "rtp_receiver_config \<Rightarrow> rtp_packet \<Rightarrow> rtp_packet \<Rightarrow> bool" where
  "resolves c q p \<longleftrightarrow> (\<forall>r. r_config r = c \<longrightarrow> IsExpectedRemoteSsrc (ssrc q) r \<and> resolve_rtx q r = Ok (Some p))"

lemma original_resolves:
  assumes "paired a b" and "ssrc p = local_ssrc (rtp_sender_config_of a)"
  shows "resolves (rtp_receiver_config_of b) p p"
  using assms(2) paired_configs [OF assms(1)] by (auto simp: resolves_def resolve_rtx_def IsExpectedRemoteSsrc_def)

lemma rtx_resolves:
  assumes "paired a b" and "sendable p" and "ssrc p = local_ssrc (rtp_sender_config_of a)"
    and "rtx_of (rtp_sender_config_of a) p q"
  shows "plain q" and "resolves (rtp_receiver_config_of b) q p"
proof -
  let ?c = "rtp_sender_config_of a"
  obtain n s s1 where s: "s_config s = ?c" and con: "ConstructRtx n p s = Ok (Some q, s1)"
    using assms(4) by (auto simp: rtx_of_def)
  obtain e where e: "rtx_type_of (s_map_rtx ?c) (payload_type p) = Some e"
    using con s by (cases "rtx_type_of (s_map_rtx ?c) (payload_type p)") (auto simp: ConstructRtx_def)
  then have "e \<in> set (s_map_rtx ?c)" by (auto simp: rtx_type_of_def find_Some_iff)
  note conf = paired_configs(1-6) [OF assms(1)] paired_configs(7) [OF assms(1) this]
  have plain: "plain p" using assms(2) by (simp add: sendable_def)
  obtain body where body: "payload_buffer p = Some body" "body \<noteq> []"
    using plain by (cases "payload_buffer p") (auto simp: plain_def payload_bytes_def)
  have pp: "packet_ok p" "rtp_buffer_length p + 2 < 2 ^ 32" "extension p = None" "csrcs p = []" "pad_size p = 0"
    using assms(2) sendable_ok plain by (auto simp: sendable_def plain_def)
  obtain q1 s2 m where con1: "ConstructRtx n p s = Ok (Some q1, s2)"
    and q1: "q1 = (copy_of p)\<lparr>octet_m_pt := m_payload_type_octet p (fst e), ssrc := s_rtx_ssrc (s_config s),
      sequence_number := m, payload_buffer := Some (WriteBigEndian 2 (sequence_number p) @ body)\<rparr>"
    by (rule ConstructRtx_Ok [OF pp(1) body(1) pp(2) e [folded s]])
  with con show plain_q: "plain q"
    using pp body by (auto simp: copy_of_def plain_def payload_bytes_def rtp_buffer_length_def)
  have "IsExpectedRemoteSsrc (ssrc q) r \<and> resolve_rtx q r = Ok (Some p)" if "r_config r = rtp_receiver_config_of b" for r
  proof -
    have "\<exists>q s' q'. ConstructRtx n p s = Ok (Some q, s') \<and> StorePacket rtp_empty (rtp_image q) = Ok q'
        \<and> IsExpectedRemoteSsrc (ssrc q') r \<and> resolve_rtx q' r = Ok (Some p)"
      using conf s that assms(3) by (intro rtx_over_the_wire [OF pp(1) body pp(2-5) e [folded s]]) auto
    then show ?thesis using con plain_sent(2) [OF plain_q] by auto
  qed
  then show "resolves (rtp_receiver_config_of b) q p" by (simp add: resolves_def)
qed

lemma resolves_carries:
  assumes "plain q" and "resolves c q p" and "p \<in> tx"
  shows "carries c tx (rtp_image q)"
proof -
  have "received_ok q" using assms(1) by (simp add: received_ok_def plain_def extension_wf_def)
  then show ?thesis using assms plain_sent(2) [OF assms(1)] by (auto simp: carries_def resolves_def)
qed

lemmas carries_original = resolves_carries [OF _ original_resolves]

lemma carries_rtx:
  assumes "paired a b" and "sendable p" and "ssrc p = local_ssrc (rtp_sender_config_of a)" and "p \<in> tx"
    and "rtx_of (rtp_sender_config_of a) p q"
  shows "plain q" and "carries (rtp_receiver_config_of b) tx (rtp_image q)"
  using rtx_resolves [OF assms(1-3,5)] resolves_carries assms(4) by auto

lemma carries_mono: "carries c tx d \<Longrightarrow> tx \<subseteq> tx' \<Longrightarrow> carries c tx' d"
  unfolding carries_def by blast

lemma compound_not_rtp:
  assumes "build_rtcp info cb s = Ok ((ps, is_bye), s')" and "length (local_cname (rs_config s)) \<le> 255" and "info_ok info"
    and "SendRtcp fill (map Some ps) = Ok (Some d)"
  shows "\<not> is_rtp d"
proof -
  have "SendRtcp fill (map Some ps) = Ok (Some (concat (map packet_image ps)))"
    using build_rtcp_wf [OF assms(1-3)] compound_is_concatenation [of "map Some ps" fill] by simp
  then have "d = concat (map packet_image ps)" using assms(4) by simp
  then show ?thesis using build_rtcp_wf [OF assms(1-3)] compound_class by (cases ps) auto
qed

text \<open>A method of the RTCP sender that keeps the configuration and sends, if anything, a compound of its own.\<close>

definition sends_compound :: "(sender_callback \<Rightarrow> rtcp_sender \<Rightarrow> (rtcp_error, rtcp_sender \<times> sender_effect) outcome) \<Rightarrow> bool" where
  "sends_compound call \<longleftrightarrow> (\<forall>cb s s' eff. call cb s = Ok (s', eff) \<longrightarrow> rs_config s' = rs_config s
     \<and> (\<forall>x. sent eff = Some x \<longrightarrow> (\<exists>info s1. info_ok info \<and> build_rtcp info cb s = Ok (x, s1)
          \<and> has_sent_rtp s' = has_sent_rtp s1 \<and> has_received_rtp s' = has_received_rtp s1)))"

lemma sends_compoundI:
  assumes "\<And>cb s s' eff. call cb s = Ok (s', eff) \<Longrightarrow> rs_config s' = rs_config s"
    and "\<And>cb s s' eff x. call cb s = Ok (s', eff) \<Longrightarrow> sent eff = Some x \<Longrightarrow> info_ok info
      \<and> (\<exists>s1. build_rtcp info cb s = Ok (x, s1) \<and> has_sent_rtp s' = has_sent_rtp s1 \<and> has_received_rtp s' = has_received_rtp s1)"
  shows "sends_compound call"
  using assms unfolding sends_compound_def by blast

lemma sends_compound_Schedule: "sends_compound (ScheduleSendRtcp now)"
proof (rule sends_compoundI [where info = No_Info])
  show "rs_config s' = rs_config s" if "ScheduleSendRtcp now cb s = Ok (s', eff)" for cb s s' eff
    using that by (cases rule: schedule_cases) auto
qed (auto simp: ScheduleSendRtcp_def omap_eq_Ok_conv Let_def no_effect_def info_ok_def split: if_splits)

lemma sends_compound_Bye: "sends_compound SendBye"
proof (rule sends_compoundI [where info = Bye_Info])
  show "rs_config s' = rs_config s" if "SendBye cb s = Ok (s', eff)" for cb s s' eff
    using bye_result [OF that] by simp
qed (auto simp: SendBye_def omap_eq_Ok_conv info_ok_def)

lemma sends_compound_Nack:
  assumes "length seqs \<le> 65533"
  shows "sends_compound (SendNack now seqs)"
proof (rule sends_compoundI [where info = "Nack_Info seqs"])
  show "rs_config s' = rs_config s" if "SendNack now seqs cb s = Ok (s', eff)" for cb s s' eff
    using that by (cases rule: nack_cases) auto
qed (use assms in \<open>auto simp: SendNack_def omap_eq_Ok_conv no_effect_def info_ok_def split: if_splits\<close>)

definition short_cname :: "media_session \<Rightarrow> bool" where
  "short_cname ms \<longleftrightarrow> (\<exists>s. ms_rtcp_sender ms = Some s \<and> length (local_cname (rs_config s)) \<le> 255)"

lemma run_rtcp_sends:
  assumes "run_rtcp rtp_time now call ms = Ok (ms', eff)" and "sends_compound call" and "short_cname ms"
    and "write_rtcp fill eff = Ok ds"
  shows "short_cname ms'" and "\<forall>d \<in> set ds. \<not> is_rtp d"
proof -
  obtain s cb s' where s: "ms_rtcp_sender ms = Some s" "call cb s = Ok (s', eff)" "ms_rtcp_sender ms' = Some s'"
    using run_rtcp_frame(2) [OF assms(1)] by blast
  have conf: "rs_config s' = rs_config s"
    and built: "\<And>x. sent eff = Some x \<Longrightarrow> \<exists>info s1. info_ok info \<and> build_rtcp info cb s = Ok (x, s1)"
    using assms(2) s(2) unfolding sends_compound_def by blast+
  have name: "length (local_cname (rs_config s)) \<le> 255" using assms(3) s(1) by (simp add: short_cname_def)
  then show "short_cname ms'" using s(3) conf by (simp add: short_cname_def)
  show "\<forall>d \<in> set ds. \<not> is_rtp d"
    using assms(4) built compound_not_rtp [OF _ name]
    by (auto simp: write_rtcp_def split: option.splits outcome.splits)
qed


definition near_ok :: "rtp_sender_config \<Rightarrow> rtp_packet list \<Rightarrow> media_session \<Rightarrow> bool" where
  "near_ok c tx ms \<longleftrightarrow> ms_rtp_receiver ms = None \<and> short_cname ms
     \<and> (\<exists>s. ms_rtp_sender ms = Some s \<and> sender_from c tx s)"

lemma sender_from_packets:
  "sender_from c tx s \<Longrightarrow> p \<in> set tx \<Longrightarrow> sendable p \<and> ssrc p = local_ssrc c"
  by (auto simp: sender_from_def sender_inv_def)

lemma session_notified_near:
  assumes "session_notified n ns ms = Ok (ps, ms')" and "near_ok c tx ms"
  shows "near_ok c tx ms' \<and> (\<forall>q \<in> set ps. \<exists>p \<in> set tx. rtx_of c p q)"
  using assms
proof (induction n ns ms arbitrary: ps ms' rule: session_notified.induct)
  case (2 n ns ms)
  then show ?case by (auto simp: session_NotifyByeReceived_def near_ok_def short_cname_def)
next
  case (3 n seqs ns ms)
  obtain qs ms1 rs where one: "session_NotifyNackReceived n seqs ms = Ok (qs, ms1)"
    and rest: "session_notified n ns ms1 = Ok (rs, ms')" and ps: "ps = qs @ rs"
    using "3.prems"(1) by (auto simp: obind_eq_Ok_conv omap_eq_Ok_conv)
  have "near_ok c tx ms1 \<and> (\<forall>q \<in> set qs. \<exists>p \<in> set tx. rtx_of c p q)"
    using one "3.prems"(2) SendRtx_from
    by (auto simp: session_NotifyNackReceived_def deref_def omap_eq_Ok_conv near_ok_def short_cname_def split: if_splits)
  then show ?case using "3.IH" [OF one refl rest] by (auto simp: ps)
qed simp

lemma rtx_datagrams:
  assumes "paired a b" and "near_ok (rtp_sender_config_of a) tx ms"
    and "\<forall>q \<in> set ps. \<exists>p \<in> set tx. rtx_of (rtp_sender_config_of a) p q" and "write_rtp fill ps = Ok ds"
  shows "\<forall>d \<in> set ds. carries (rtp_receiver_config_of b) (set tx) d"
proof -
  have q: "plain q \<and> carries (rtp_receiver_config_of b) (set tx) (rtp_image q)" if q: "q \<in> set ps" for q
  proof -
    obtain p where p: "p \<in> set tx" "rtx_of (rtp_sender_config_of a) p q"
      using bspec [OF assms(3) q] by (elim bexE) (rule that)
    obtain s where "sender_from (rtp_sender_config_of a) tx s" using assms(2) by (auto simp: near_ok_def)
    from sender_from_packets [OF this p(1)] have "sendable p" "ssrc p = local_ssrc (rtp_sender_config_of a)" by simp_all
    from carries_rtx [OF assms(1) this p] show ?thesis by blast
  qed
  then have "ds = map rtp_image ps" using assms(4) write_rtp_plain [of ps fill] by simp
  with q show ?thesis by auto
qed

lemma deliver_rtcp_near:
  assumes "deliver_rtcp e i ds ms = Ok (out, ms')" and "paired a b" and "near_ok (rtp_sender_config_of a) tx ms"
  shows "near_ok (rtp_sender_config_of a) tx ms' \<and> (\<forall>d \<in> set out. carries (rtp_receiver_config_of b) (set tx) d)"
  using assms(1,3)
proof (induction e i ds ms arbitrary: out ms' rule: deliver_rtcp.induct)
  case (2 e i d ds ms)
  obtain ps ms1 out1 out2 where one: "session_OnRtcp (parsing e i) (first_rtx e) d ms = Ok (ps, ms1)"
    and w: "write_rtp (filler e) ps = Ok out1" and rest: "deliver_rtcp e (Suc i) ds ms1 = Ok (out2, ms')"
    and out: "out = out1 @ out2"
    using "2.prems"(1) by (auto simp: obind_eq_Ok_conv omap_eq_Ok_conv)
  have new_receiver: "near_ok c tx (ms\<lparr>ms_rtcp_receiver := r\<rparr>)" if "near_ok c tx ms" for c r
    using that by (simp add: near_ok_def short_cname_def)
  have n: "near_ok (rtp_sender_config_of a) tx ms1 \<and> (\<forall>q \<in> set ps. \<exists>p \<in> set tx. rtx_of (rtp_sender_config_of a) p q)"
    using one "2.prems"(2) session_notified_near [OF _ new_receiver [OF "2.prems"(2)]]
    by (auto simp: session_OnRtcp_def deref_def split: option.splits outcome.splits)
  then have "\<forall>d \<in> set out1. carries (rtp_receiver_config_of b) (set tx) d"
    using rtx_datagrams [OF assms(2) _ _ w] by blast
  then show ?case using "2.IH" [OF one refl w rest] n by (auto simp: out)
qed simp

lemma route_rtp_none:
  assumes "\<And>d s. \<not> expects d s"
  shows "OnRtp expects r ps = []"
proof -
  have "find (\<lambda>d. expects d s) dsts = None" for s dsts using assms by (simp add: find_None_iff)
  then have "route_rtp expects dsts ps = []" for dsts by (induction ps) simp_all
  then show ?thesis by (simp add: OnRtp_def)
qed

lemma receive_near:
  assumes "receive e ds ms = Ok (ps, out, ms')" and "paired a b" and "near_ok (rtp_sender_config_of a) tx ms"
  shows "near_ok (rtp_sender_config_of a) tx ms' \<and> (\<forall>d \<in> set out. carries (rtp_receiver_config_of b) (set tx) d)"
proof -
  have "\<not> media_expects ms d s" for d s using assms(3) by (simp add: media_expects_def near_ok_def)
  then have "OnRtp (media_expects ms) (media_router ms) rtps = []" for rtps by (rule route_rtp_none)
  then have "deliver_rtcp e 0 (map snd (OnRtcp (media_router ms) (filter is_rtcp ds))) ms = Ok (out, ms')"
    using assms(1) by (auto simp: receive_def demux_datagrams omap_eq_Ok_conv)
  then show ?thesis using deliver_rtcp_near [OF _ assms(2,3)] by blast
qed

section \<open>The invariant of the system\<close>

definition system_ok :: "media_config \<Rightarrow> media_config \<Rightarrow> system \<Rightarrow> bool" where
  "system_ok a b w \<longleftrightarrow> near_ok (rtp_sender_config_of a) (accepted w) (near w)
     \<and> far_ok (rtp_receiver_config_of b) (accepted w) (handed w) (far w)
     \<and> (\<forall>d \<in> set (to_far w). carries (rtp_receiver_config_of b) (set (accepted w)) d)"

lemma near_ok_frame: "near_ok c tx ms \<Longrightarrow> same_rtp ms ms' \<Longrightarrow> short_cname ms' \<Longrightarrow> near_ok c tx ms'"
  by (simp add: near_ok_def same_rtp_def)

lemma near_rtcp:
  assumes "run_rtcp rtp_time now call ms = Ok (ms', eff)" and "sends_compound call" and "near_ok c tx ms"
    and "write_rtcp fill eff = Ok ds"
  shows "near_ok c tx ms' \<and> (\<forall>d \<in> set ds. carries k S d)"
  using run_rtcp_sends [OF assms(1,2) _ assms(4)] near_ok_frame [OF assms(3) run_rtcp_frame(1) [OF assms(1)]] assms(3)
  by (auto simp: near_ok_def carries_def)

lemma write_rtcp_nothing: "write_rtcp fill no_effect = Ok ds \<Longrightarrow> ds = []"
  by (simp add: write_rtcp_def no_effect_def)

lemma system_ok_send:
  assumes "paired a b" and "system_ok a b w" and "sendable p"
    and "session_SendRtpPacket now (Some p) (near w) = Ok (ps, ms)" and "write_rtp fill ps = Ok ds"
  shows "system_ok a b (w\<lparr>near := ms, to_far := to_far w @ ds, accepted := accepted w @ ps\<rparr>)"
proof -
  let ?c = "rtp_sender_config_of a" and ?r = "rtp_receiver_config_of b"
  have near: "near_ok ?c (accepted w) (near w)" using assms(2) by (simp add: system_ok_def)
  then obtain s where s: "ms_rtp_sender (near w) = Some s" "sender_from ?c (accepted w) s" by (auto simp: near_ok_def)
  have p: "set ps \<subseteq> {p}"
    using assms(4) s(1) by (auto simp: session_SendRtpPacket_def deref_def omap_eq_Ok_conv split: if_splits
        dest!: SendRtp_from(2) [OF s(2) assms(3)])
  have n: "near_ok ?c (accepted w @ ps) ms"
    using assms(4) near s SendRtp_from(1) [OF s(2) assms(3)]
    by (auto simp: session_SendRtpPacket_def deref_def omap_eq_Ok_conv near_ok_def short_cname_def split: if_splits)
  have plain: "plain p" using assms(3) by (simp add: sendable_def)
  then have ds: "ds = map rtp_image ps" using assms(5) write_rtp_plain [of ps fill] p by auto
  have "carries ?r (set (accepted w @ ps)) (rtp_image q)" if "q \<in> set ps" for q
  proof -
    have "ssrc q = local_ssrc ?c" using n that sender_from_packets by (auto simp: near_ok_def)
    then show ?thesis using carries_original [OF _ assms(1), of q "set (accepted w @ ps)"] plain p that by auto
  qed
  moreover have "carries ?r (set (accepted w @ ps)) d" if "d \<in> set (to_far w)" for d
    using carries_mono assms(2) that by (auto simp: system_ok_def)
  ultimately show ?thesis
    using n assms(2) receiver_from_more by (auto simp: system_ok_def far_side_def ds)
qed

lemma system_ok_step:
  assumes "net_step w w'" and "paired a b" and ok: "system_ok a b w"
  shows "system_ok a b w'"
  using assms(1)
proof cases
  case (send p now ps ms fill ds)
  then show ?thesis using system_ok_send [OF assms(2) ok] by simp
next
  case (far_receives ds e ps out ms)
  have "far_ok (rtp_receiver_config_of b) (accepted w) (handed w @ ps) ms"
    using ok far_receives(2) by (intro delivery.receive_keeps [OF far_receives(3)]) (auto simp: system_ok_def)
  then show ?thesis using ok far_receives by (simp add: system_ok_def)
next
  case (near_receives ds e ps out ms)
  then show ?thesis using ok receive_near [OF near_receives(3) assms(2), of "accepted w"] by (auto simp: system_ok_def)
next
  case (near_reports rtp_time now ms eff fill ds)
  then show ?thesis using ok near_rtcp [OF _ sends_compound_Schedule] by (fastforce simp: system_ok_def session_Schedule_def)
next
  case (far_reports rtp_time now ms eff fill ds)
  then show ?thesis using ok far_side_frame run_rtcp_frame(1) by (auto simp: system_ok_def session_Schedule_def)
next
  case (near_leaves rtp_time now ms eff fill ds)
  then show ?thesis using ok near_rtcp [OF _ sends_compound_Bye] write_rtcp_nothing
    by (fastforce simp: system_ok_def session_SendBye_def split: if_splits)
next
  case (far_leaves rtp_time now ms eff fill ds)
  then show ?thesis using ok far_side_frame run_rtcp_frame(1)
    by (auto simp: system_ok_def session_SendBye_def split: if_splits)
qed

lemma system_ok_start:
  assumes "paired a b" and "length name \<le> 255"
    and "session_Initialize now name a = Ok (ms_a, eff)" and "session_Initialize now' name' b = Ok (ms_b, eff')"
  shows "system_ok a b (link ms_a ms_b)"
proof -
  have dir: "mc_direction a = SendOnly" "mc_direction b = RecvOnly" using assms(1) by (simp_all add: paired_def)
  obtain s where s: "sender_Initialize (Some (rtp_sender_config_of a)) = Ok s"
    and a: "ms_rtp_sender ms_a = Some s" "ms_rtp_receiver ms_a = None" "short_cname ms_a"
    using assms(2,3) dir
    by (auto simp: session_Initialize_def obind_eq_Ok_conv rtcp_sender_Initialize_def Let_def short_cname_def
        rtcp_sender_new_def rtcp_sender_config_of_def split: outcome.splits)
  obtain r where r: "receiver_Initialize (Some (rtp_receiver_config_of b)) = Ok r" and b: "ms_rtp_receiver ms_b = Some r"
    using assms(4) dir
    by (auto simp: session_Initialize_def obind_eq_Ok_conv rtcp_sender_Initialize_def Let_def split: outcome.splits)
  have "sender_from (rtp_sender_config_of a) [] s"
    using s by (auto simp: sender_Initialize_def sender_new_def sender_from_def sender_inv_def consecutive_def
        rtx_for_all_types_def split: if_splits)
  moreover have "receiver_from [] [] r" and "r_config r = rtp_receiver_config_of b"
    using r by (auto simp: receiver_Initialize_def receiver_new_def receiver_cache_new_def receiver_from_def
        order_ok_def cache_inv_def split: if_splits)
  ultimately show ?thesis using a b by (simp add: system_ok_def link_def near_ok_def far_side_def)
qed

lemma net_reachable_ok:
  assumes "net_reachable a b w" and "paired a b"
  shows "system_ok a b w"
  using assms(1)
proof induction
  case (start now ms_a eff now' name' ms_b eff')
  then show ?case using system_ok_start [OF assms(2)] by blast
next
  case (step w w')
  then show ?case using system_ok_step assms(2) by blast
qed

text \<open>A stream of fewer than 32768 packets lies in one window.\<close>

lemma consecutive_ahead:
  assumes "consecutive ps" and "length ps < 32768"
  defines "base \<equiv> sequence_number (hd ps) - 1"
  shows "\<forall>p \<in> set ps. ahead base (sequence_number p)" and "sorted_wrt (nearer base) ps"
proof -
  have d: "seq_dist base (sequence_number (ps ! i)) = Suc i" if "i < length ps" for i
  proof -
    have "sequence_number (ps ! i) - base = of_nat (Suc i)"
      using consecutive_seq [OF assms(1) that] by (simp add: base_def)
    moreover have "Suc i < 65536" using that assms(2) by simp
    ultimately show ?thesis by (simp add: seq_dist_def unat_of_nat del: of_nat_Suc)
  qed
  then show "\<forall>p \<in> set ps. ahead base (sequence_number p)"
    using assms(2) by (auto simp: ahead_def in_set_conv_nth)
  show "sorted_wrt (nearer base) ps" using d by (simp add: sorted_wrt_iff_nth_less)
qed

end
