(* ===== verification/Lossy_Delivery.thy ===== *)
theory Lossy_Delivery
  imports Lossy_Network "HOL-Library.Sublist"
begin

text \<open>
  The promise of the library to its applications, over the network of theory \<open>Lossy_Network\<close>: the far
  application is handed what the near one sent, unchanged and in order. The section at the end is a
  run in which one datagram arrives twice while others are under way.
\<close>

section \<open>Delivery\<close>

lemma subseq_sorted:
  assumes "sorted_wrt (\<lambda>x y. f x < (f y :: nat)) xs" and "sorted_wrt (\<lambda>x y. f x < f y) ys" and "set xs \<subseteq> set ys"
  shows "subseq xs ys"
  using assms
proof (induction ys arbitrary: xs)
  case (Cons y ys)
  show ?case
  proof (cases xs)
    case xs: (Cons x xs')
    show ?thesis
    proof (cases "x = y")
      case True
      have "set xs' \<subseteq> set ys" using Cons.prems xs True by fastforce
      then show ?thesis using Cons.IH [of xs'] Cons.prems xs True by simp
    next
      case False
      then have "f y < f x" using Cons.prems xs by auto
      then have "y \<notin> set xs" using Cons.prems(1) xs by fastforce
      then have "set xs \<subseteq> set ys" using Cons.prems(3) by auto
      then show ?thesis using Cons.IH [of xs] Cons.prems by (simp add: list_emb_Cons)
    qed
  qed simp
qed simp

text \<open>What the invariant of the system says of the packets handed over.\<close>

lemma handed_in_order:
  assumes "system_ok a b w"
  shows "set (handed w) \<subseteq> set (accepted w)"
    and "length (accepted w) < 32768 \<Longrightarrow> subseq (handed w) (accepted w)"
proof -
  obtain s r where s: "sender_from (rtp_sender_config_of a) (accepted w) s"
    and r: "receiver_from (accepted w) (handed w) r" using assms by (auto simp: system_ok_def near_ok_def far_side_def)
  show sub: "set (handed w) \<subseteq> set (accepted w)" using r by (simp add: receiver_from_def)
  show "subseq (handed w) (accepted w)" if "length (accepted w) < 32768"
  proof -
    have "consecutive (accepted w)" using s by (simp add: sender_from_def sender_inv_def)
    note base = consecutive_ahead [OF this that]
    have "sorted_wrt (nearer (sequence_number (hd (accepted w)) - 1)) (handed w)"
      using r base(1) by (simp add: receiver_from_def order_ok_def)
    then show ?thesis using subseq_sorted [OF _ base(2) sub] by simp
  qed
qed

text \<open>C1: Whatever the network loses, repeats, delays and reorders, and whatever is retransmitted: every packet
  the far application is handed is one that the near session transmitted for its application,
  unchanged; and in a run of at most 32767 of them it is handed each at most once and in the order in
  which they were sent.\<close>

theorem lossy_delivery:
  assumes "net_reachable a b w" and "paired a b"
  shows "set (handed w) \<subseteq> set (accepted w)
    \<and> (length (accepted w) < 32768 \<longrightarrow> subseq (handed w) (accepted w))"
  using handed_in_order [OF net_reachable_ok [OF assms]] by blast

section \<open>A run\<close>

definition near_media :: media_config where
  "near_media = media_config_new\<lparr>mc_direction := SendOnly, mc_rtcp_report_interval_ms := 1000,
     mc_ssrc_media_local := 7, mc_ssrc_media_remote := 9, mc_rtp_clock_rate_hz_local := 90000,
     mc_rtp_payload_types_local := [96], mc_has_callback := True,
     mc_rtx_config_local := Some \<lparr>rtx_max_diff = 10, rtx_config_ssrc = 8, rtx_types = [(97, 96)]\<rparr>\<rparr>"

definition far_media :: media_config where
  "far_media = media_config_new\<lparr>mc_direction := RecvOnly, mc_rtcp_report_interval_ms := 1000,
     mc_ssrc_media_local := 9, mc_ssrc_media_remote := 7, mc_rtp_clock_rate_hz_remote := 90000,
     mc_rtp_payload_types_remote := [96], mc_max_cache_duration_ms := 100, mc_has_callback := True,
     mc_rtx_config_remote := Some \<lparr>rtx_max_diff = 10, rtx_config_ssrc = 8, rtx_types = [(97, 96)]\<rparr>\<rparr>"

lemma sample_paired: "paired near_media far_media"
  by (simp add: paired_def near_media_def far_media_def media_config_new_def rtx_ok_def)

lemma sample_sendable: "sendable (sample_packet n)"
  by (simp add: sendable_def plain_def sample_packet_def rtp_empty_def payload_bytes_def rtp_buffer_length_def extension_size_def)

definition near_start :: media_session where
  "near_start = (case session_Initialize 0 [97] near_media of Ok (ms, eff) \<Rightarrow> ms)"

definition far_start :: media_session where
  "far_start = (case session_Initialize 0 [98] far_media of Ok (ms, eff) \<Rightarrow> ms)"

lemma sample_start:
  "\<exists>eff. session_Initialize 0 [97] near_media = Ok (near_start, eff)"
  "\<exists>eff. session_Initialize 0 [98] far_media = Ok (far_start, eff)"
  by (simp_all add: near_start_def far_start_def session_Initialize_def near_media_def far_media_def media_config_new_def
      rtp_sender_config_of_def rtp_receiver_config_of_def sender_Initialize_def receiver_Initialize_def
      rtcp_sender_Initialize_def Let_def)

lemma SendRtp_sends:
  assumes "packet_ok p" and "ssrc p = local_ssrc (s_config s)" and "payload_type p \<in> set (s_rtp_payload_types (s_config s))"
    and "has_sent s \<longrightarrow> sequence_number p = last_seq s + 1" and "s_rtx_enabled (s_config s) \<longrightarrow> s_cache s \<noteq> None"
  obtains s' where "SendRtp now (Some p) s = Ok ([p], s')" and "has_sent s'" and "last_seq s' = sequence_number p"
    and "s_config s' = s_config s" and "s_rtx_enabled (s_config s) \<longrightarrow> s_cache s' \<noteq> None"
  using assms(2-5) cache_sent_Ok [OF assms(1,5)] by (auto simp: SendRtp_def Let_def is_next_sent_iff)

lemma sample_packet_parts:
  "packet_ok (sample_packet n)" "plain (sample_packet n)" "ssrc (sample_packet n) = 7"
  "payload_type (sample_packet n) = 96" "sequence_number (sample_packet n) = n"
  using sendable_ok [OF sample_sendable] sample_sendable
  by (simp_all add: sendable_def) (simp_all add: sample_packet_def payload_type_def)

lemma sample_send:
  obtains s1 s2 s3 where
    "session_SendRtpPacket 5 (Some (sample_packet 5)) near_start = Ok ([sample_packet 5], near_start\<lparr>ms_rtp_sender := Some s1\<rparr>)"
    and "session_SendRtpPacket 6 (Some (sample_packet 6)) (near_start\<lparr>ms_rtp_sender := Some s1\<rparr>)
      = Ok ([sample_packet 6], near_start\<lparr>ms_rtp_sender := Some s2\<rparr>)"
    and "session_SendRtpPacket 7 (Some (sample_packet 7)) (near_start\<lparr>ms_rtp_sender := Some s2\<rparr>)
      = Ok ([sample_packet 7], near_start\<lparr>ms_rtp_sender := Some s3\<rparr>)"
proof -
  note p = sample_packet_parts
  let ?c = "rtp_sender_config_of near_media" and ?s = "sender_new (rtp_sender_config_of near_media)\<lparr>s_cache := Some []\<rparr>"
  have conf: "s_config ?s = ?c" "local_ssrc ?c = 7" "s_rtp_payload_types ?c = [96]"
    by (simp_all add: sender_new_def rtp_sender_config_of_def near_media_def media_config_new_def)
  have near: "ms_initialized near_start" "ms_config near_start = near_media" "mc_direction near_media = SendOnly"
    "ms_rtp_sender near_start = Some ?s"
    by (simp_all add: near_start_def session_Initialize_def near_media_def media_config_new_def Let_def
        rtp_sender_config_of_def sender_Initialize_def rtcp_sender_Initialize_def)
  have next_sent: "\<exists>s'. SendRtp now (Some (sample_packet n)) s = Ok ([sample_packet n], s') \<and> has_sent s' \<and> last_seq s' = n
      \<and> s_config s' = ?c \<and> (s_rtx_enabled ?c \<longrightarrow> s_cache s' \<noteq> None)"
    if s: "s_config s = ?c" "has_sent s \<longrightarrow> n = last_seq s + 1" "s_rtx_enabled ?c \<longrightarrow> s_cache s \<noteq> None" for n now s
    using SendRtp_sends [of "sample_packet n" s now] p conf s by (metis list.set_intros(1))
  obtain s1 where s1: "SendRtp 5 (Some (sample_packet 5)) ?s = Ok ([sample_packet 5], s1)" "has_sent s1" "last_seq s1 = 5"
    "s_config s1 = ?c" "s_rtx_enabled ?c \<longrightarrow> s_cache s1 \<noteq> None"
    using next_sent [of ?s 5 5] by (auto simp: sender_new_def)
  obtain s2 where s2: "SendRtp 6 (Some (sample_packet 6)) s1 = Ok ([sample_packet 6], s2)" "has_sent s2" "last_seq s2 = 6"
    "s_config s2 = ?c" "s_rtx_enabled ?c \<longrightarrow> s_cache s2 \<noteq> None"
    using next_sent [of s1 6 6] s1 by auto
  obtain s3 where s3: "SendRtp 7 (Some (sample_packet 7)) s2 = Ok ([sample_packet 7], s3)"
    using next_sent [of s2 7 7] s2 by auto
  show ?thesis
    by (rule that [of s1 s2 s3]) (simp_all add: session_SendRtpPacket_def deref_def near s1(1) s2(1) s3)
qed

definition still :: surroundings where
  "still = \<lparr>transit = \<lambda>_ _ _. 0, extrapolate = \<lambda>_ _ _. 0, clocks = \<lambda>i _. if i = 0 then 7 else 200,
     parsing = \<lambda>_. \<lparr>stale_byte = \<lambda>_. 0, utc_millis = \<lambda>_. 7\<rparr>, filler = 0, first_rtx = 3\<rparr>"

lemma no_nack:
  assumes "session_ok ms"
  shows "session_NotifyLoss rtp_time now [] ms = Ok (ms, no_effect)"
proof -
  obtain s where s: "ms_rtcp_sender ms = Some s" and "ms_initialized ms" using assms by (auto simp: session_ok_def)
  moreover obtain cb ms1 where "session_answers rtp_time now s ms = Ok (cb, ms1)"
    using session_answers_ok [OF assms s] by blast
  ultimately show ?thesis by (simp add: session_NotifyLoss_def run_rtcp_def deref_def SendNack_def no_effect_def)
qed

text \<open>The datagram of packet 5 arrives twice, the second time after the first one has timed out.\<close>

lemma sample_OnRtp:
  obtains r1 r2 where
    "OnRtpPacket (transit still) (clocks still 0) (sample_packet 5) (receiver_new (rtp_receiver_config_of far_media))
      = Ok (\<lparr>nack_seqs = Some [], released = []\<rparr>, r1)"
    and "OnRtpPacket (transit still) (clocks still 1) (sample_packet 5) r1
      = Ok (\<lparr>nack_seqs = Some [], released = [sample_packet 5]\<rparr>, r2)"
    and "has_callback_packet (r_cache r2)" and "latest_callback_seq (r_cache r2) = 5" and "cached_packets (r_cache r2) = []"
    and "loss_seqs (r_cache r2) = []" and "max_cache_duration_ms (r_cache r2) = 100"
proof -
  let ?p = "sample_packet 5" and ?c = "rtp_receiver_config_of far_media"
  note p = sample_packet_parts(3-5)
  have conf: "remote_ssrc ?c = 7" "r_rtp_payload_types ?c = [96]" "r_rtx_ssrc ?c = 8" "r_max_cache_duration_ms ?c = 100"
    by (simp_all add: rtp_receiver_config_of_def far_media_def media_config_new_def)
  note steps = OnRtpPacket_def resolve_rtx_def PutPacket_def insert_cached_def SupplementLossSeqs_def
    cp_seq_def Let_def GetLossPacketSeqsForNack_def GetPackets_def still_def
  obtain r1 where r1: "OnRtpPacket (transit still) (clocks still 0) ?p (receiver_new ?c) = Ok (\<lparr>nack_seqs = Some [], released = []\<rparr>, r1)"
    "r_config r1 = ?c" "\<not> has_callback_packet (r_cache r1)" "max_cache_duration_ms (r_cache r1) = 100"
    "cached_packets (r_cache r1) = [\<lparr>cp_packet = ?p, cp_timeout = 107\<rparr>]" "loss_seqs (r_cache r1) = []"
    using p conf by (simp add: steps receiver_new_def receiver_cache_new_def)
  obtain r2 where r2: "OnRtpPacket (transit still) (clocks still 1) ?p r1 = Ok (\<lparr>nack_seqs = Some [], released = [?p]\<rparr>, r2)"
    "has_callback_packet (r_cache r2)" "latest_callback_seq (r_cache r2) = 5" "cached_packets (r_cache r2) = []"
    "loss_seqs (r_cache r2) = []" "max_cache_duration_ms (r_cache r2) = 100"
    using p conf r1(2-6) by (simp add: steps IsSeqAfter_dist)
  show ?thesis using that [OF r1(1) r2] .
qed

definition sample_far :: "media_session \<Rightarrow> bool" where
  "sample_far ms \<longleftrightarrow> (\<exists>r. ms_rtp_receiver ms = Some r \<and> has_callback_packet (r_cache r) \<and> latest_callback_seq (r_cache r) = 5
       \<and> cached_packets (r_cache r) = [] \<and> loss_seqs (r_cache r) = [] \<and> max_cache_duration_ms (r_cache r) = 100)
     \<and> \<not> ms_has_received_bye ms \<and> (\<forall>s. ms_rtcp_sender ms = Some s \<longrightarrow> \<not> has_sent_bye s)"

lemma sample_deliver:
  obtains ms1 ms2 where
    "(OnData True (map Some [rtp_image (sample_packet 5), rtp_image (sample_packet 5)]) :: (rtp_error, rtp_packet list \<times> bytes list) outcome)
      = Ok ([sample_packet 5, sample_packet 5], [])"
    and "OnRtp (media_expects far_start) (media_router far_start) [sample_packet 5, sample_packet 5]
      = [(0, sample_packet 5), (0, sample_packet 5)]"
    and "session_OnRtp (transit still) (extrapolate still) (clocks still 0) (sample_packet 5) far_start = Ok ([], no_effect, ms1)"
    and "session_OnRtp (transit still) (extrapolate still) (clocks still 1) (sample_packet 5) ms1 = Ok ([sample_packet 5], no_effect, ms2)"
    and "sample_far ms2" and "ms_initialized ms2" and "ms_config ms2 = far_media"
proof -
  let ?p = "sample_packet 5" and ?r = "receiver_new (rtp_receiver_config_of far_media)"
  note p = sample_packet_parts
  have conf: "remote_ssrc (rtp_receiver_config_of far_media) = 7"
    by (simp add: rtp_receiver_config_of_def far_media_def media_config_new_def)
  have far: "ms_initialized far_start" "ms_config far_start = far_media" "mc_direction far_media = RecvOnly"
    "ms_rtp_receiver far_start = Some ?r" "ms_has_received_rtp far_start = False" "\<not> ms_has_received_bye far_start"
    "\<forall>s. ms_rtcp_sender far_start = Some s \<longrightarrow> \<not> has_sent_bye s"
    by (simp_all add: far_start_def session_Initialize_def far_media_def media_config_new_def Let_def
        rtp_receiver_config_of_def receiver_Initialize_def rtcp_sender_Initialize_def rtcp_sender_new_def)
  have img: "is_rtp (rtp_image ?p)" "\<not> is_rtcp (rtp_image ?p)" "parsed_rtp (rtp_image ?p) = [?p]"
    using rtp_image_class [OF p(2)] plain_sent(2) [OF p(2)] p(4) by (simp_all add: PayloadTypeIsReservedForRtcp_def)
  obtain r1 r2 where r1: "OnRtpPacket (transit still) (clocks still 0) ?p ?r = Ok (\<lparr>nack_seqs = Some [], released = []\<rparr>, r1)"
    and r2: "OnRtpPacket (transit still) (clocks still 1) ?p r1 = Ok (\<lparr>nack_seqs = Some [], released = [?p]\<rparr>, r2)"
    and cache: "has_callback_packet (r_cache r2)" "latest_callback_seq (r_cache r2) = 5" "cached_packets (r_cache r2) = []"
      "loss_seqs (r_cache r2) = []" "max_cache_duration_ms (r_cache r2) = 100" by (rule sample_OnRtp)
  have "session_ok far_start" using session_Initialize_ok sample_start(2) by blast
  then have ok: "session_ok (far_start\<lparr>ms_rtp_receiver := Some r\<rparr>)" for r
    using far(5) by (auto simp: session_ok_def)
  have "OnData True [Some (rtp_image ?p), Some (rtp_image ?p)] = (Ok ([?p, ?p], []) :: (rtp_error, rtp_packet list \<times> bytes list) outcome)"
    using demux_datagrams [of "[rtp_image ?p, rtp_image ?p]"] img by simp
  moreover have "OnRtp (media_expects far_start) (media_router far_start) [?p, ?p] = [(0, ?p), (0, ?p)]"
    using p conf far by (simp add: OnRtp_def media_router_def register_session_def router_new_def AddRtpDst_def AddRtcpDst_def
        add_dst_def media_expects_def IsExpectedRemoteSsrc_def receiver_new_def)
  moreover have "session_OnRtp (transit still) (extrapolate still) (clocks still 0) ?p far_start
      = Ok ([], no_effect, far_start\<lparr>ms_rtp_receiver := Some r1\<rparr>)"
    using far(4) r1 no_nack [OF ok] by (simp add: session_OnRtp_def deref_def)
  moreover have "session_OnRtp (transit still) (extrapolate still) (clocks still 1) ?p (far_start\<lparr>ms_rtp_receiver := Some r1\<rparr>)
      = Ok ([?p], no_effect, far_start\<lparr>ms_rtp_receiver := Some r2\<rparr>)"
    using r2 no_nack [OF ok] by (simp add: session_OnRtp_def deref_def)
  moreover have "sample_far (far_start\<lparr>ms_rtp_receiver := Some r2\<rparr>)" using far cache by (simp add: sample_far_def)
  ultimately show ?thesis using that [of "far_start\<lparr>ms_rtp_receiver := Some r1\<rparr>" "far_start\<lparr>ms_rtp_receiver := Some r2\<rparr>"] far(1,2)
    by simp
qed

lemma write_nothing: "write_rtcp fill no_effect = Ok []"
  by (simp add: write_rtcp_def no_effect_def)

lemma sample_receive:
  "\<exists>ms. receive still [rtp_image (sample_packet 5), rtp_image (sample_packet 5)] far_start = Ok ([sample_packet 5], [], ms) \<and> sample_far ms"
  by (rule sample_deliver) (auto simp: receive_def OnRtcp_def write_nothing)

text \<open>Three packets are sent; the datagram of the first arrives twice, the others have not arrived yet.\<close>

lemma sample_world:
  obtains w where "net_reachable near_media far_media w" and "accepted w = map sample_packet [5, 6, 7]"
    and "handed w = [sample_packet 5]" and "to_far w = map (\<lambda>n. rtp_image (sample_packet n)) [5, 6, 7]"
    and "sample_far (far w)" and "ms_rtcp_receiver (near w) = ms_rtcp_receiver near_start"
proof -
  let ?p = "sample_packet" and ?ds = "[rtp_image (sample_packet 5), rtp_image (sample_packet 5)]"
  have w: "write_rtp 0 [?p n] = Ok [rtp_image (?p n)]" for n
    using write_rtp_plain [of "[?p n]" 0] sample_packet_parts by simp
  obtain s1 s2 s3 where send: "session_SendRtpPacket 5 (Some (?p 5)) near_start = Ok ([?p 5], near_start\<lparr>ms_rtp_sender := Some s1\<rparr>)"
    "session_SendRtpPacket 6 (Some (?p 6)) (near_start\<lparr>ms_rtp_sender := Some s1\<rparr>) = Ok ([?p 6], near_start\<lparr>ms_rtp_sender := Some s2\<rparr>)"
    "session_SendRtpPacket 7 (Some (?p 7)) (near_start\<lparr>ms_rtp_sender := Some s2\<rparr>) = Ok ([?p 7], near_start\<lparr>ms_rtp_sender := Some s3\<rparr>)"
    by (rule sample_send)
  obtain ms where rcv: "receive still ?ds far_start = Ok ([?p 5], [], ms)" "sample_far ms" using sample_receive by blast
  have r0: "net_reachable near_media far_media (link near_start far_start)"
    using sample_start by (auto intro: net_reachable.start)
  note r1 = net_reachable.step [OF r0 net_step.send [OF sample_sendable _ w, of 5 5], simplified link_def system.simps, OF send(1)]
  note r2 = net_reachable.step [OF r1 net_step.send [OF sample_sendable _ w, of 6 6], simplified system.simps, OF send(2)]
  note r3 = net_reachable.step [OF r2 net_step.send [OF sample_sendable _ w, of 7 7], simplified system.simps, OF send(3)]
  note r4 = net_reachable.step [OF r3 net_step.far_receives [of ?ds _ still], simplified system.simps, OF _ rcv(1)]
  let ?w = "\<lparr>near = near_start\<lparr>ms_rtp_sender := Some s3\<rparr>, far = ms, to_far = map (\<lambda>n. rtp_image (?p n)) [5, 6, 7], to_near = [],
      accepted = map ?p [5, 6, 7], handed = [?p 5]\<rparr>"
  have "net_reachable near_media far_media ?w" using r4 by simp
  then show ?thesis by (rule that) (simp_all add: rcv(2))
qed

text \<open>Of the three packets the first has been handed to the far application, once.\<close>

theorem lossy_delivery_witness:
  "\<exists>w. net_reachable near_media far_media w \<and> accepted w = map sample_packet [5, 6, 7]
    \<and> handed w = [sample_packet 5] \<and> set (handed w) \<subseteq> set (accepted w) \<and> subseq (handed w) (accepted w)"
proof -
  obtain w where w: "net_reachable near_media far_media w" "accepted w = map sample_packet [5, 6, 7]" "handed w = [sample_packet 5]"
    by (rule sample_world)
  show ?thesis using lossy_delivery [OF w(1) sample_paired] w by (intro exI [of _ w]) simp
qed

end
