(* ===== verification/Fec_Stream.thy ===== *)
theory Fec_Stream
  imports Fec_Coverage Fec_Decode_Order Lossy_Delivery
begin

text \<open>
  The FEC decoder over a whole stream: an invariant that ties every entry of its cache, the maps of
  protected numbers and the pointers to media packets included, to the packets that were sent. From it
  follow what the decoder puts out and what it recovers, over any sequence of calls.
\<close>

section \<open>A protected stream\<close>

definition stream_media :: "fec_decoder_config \<Rightarrow> rtp_packet \<Rightarrow> bool" where
  "stream_media c p \<longleftrightarrow> fec_media_ok p \<and> csrcs p = [] \<and> payload_bytes p \<noteq> []
     \<and> ssrc p = dec_ssrc c \<and> payload_type p \<noteq> dec_payload_type c"

text \<open>A FEC packet as the sender numbers it, with the group it protects.\<close>

definition protects_group :: "fec_decoder_config \<Rightarrow> rtp_packet \<Rightarrow> rtp_packet list \<Rightarrow> bool" where
  "protects_group c q grp \<longleftrightarrow>
     (\<exists>e m ts. q = sent_fec e m ts (sequence_number q) \<and> enc_ssrc e = dec_ssrc c
        \<and> enc_payload_type e = dec_payload_type c \<and> enc_payload_type e < 128
        \<and> fec_group (map media_data grp) \<and> fec_image (map media_data grp) (max_media_length (map media_data grp)) m)
     \<and> distinct grp \<and> (\<forall>x \<in> set grp. stream_media c x)
     \<and> (\<forall>x \<in> set grp. seq_dist (sequence_number (hd grp)) (sequence_number x) < 256)"

text \<open>The packets \<open>S\<close> of the stream lie ahead of \<open>b\<close> by less than half the circle; \<open>G\<close> gives the
  group of a FEC packet.\<close>

definition fec_world :: "u16 \<Rightarrow> fec_decoder_config \<Rightarrow> (rtp_packet \<Rightarrow> rtp_packet list) \<Rightarrow> rtp_packet set \<Rightarrow> bool" where
  "fec_world b c G S \<longleftrightarrow> inj_on sequence_number S \<and> (\<forall>p \<in> S. ahead b (sequence_number p)
     \<and> (stream_media c p \<or> set (G p) \<subseteq> S \<and> protects_group c p (G p)))"

lemma sent_fec_fields:
  "csrcs (sent_fec e m ts s) = []" "ssrc (sent_fec e m ts s) = enc_ssrc e" "sequence_number (sent_fec e m ts s) = s"
  "payload_buffer (sent_fec e m ts s) = Some m" "extension (sent_fec e m ts s) = None" "pad_size (sent_fec e m ts s) = 0"
  by (simp_all add: sent_fec_def SetSequenceNumber_def SetTimestamp_def rtp_empty_def)

lemma protects_group_wf:
  assumes "protects_group c q grp"
  shows "rtp_wf q" and "csrcs q = []" and "ssrc q = dec_ssrc c" and "payload_type q = dec_payload_type c"
proof -
  obtain e m ts where q: "q = sent_fec e m ts (sequence_number q)" "enc_ssrc e = dec_ssrc c"
    "enc_payload_type e = dec_payload_type c" "enc_payload_type e < 128"
    "fec_image (map media_data grp) (max_media_length (map media_data grp)) m"
    using assms unfolding protects_group_def by blast
  have "length m \<le> 18 + 65535"
    using q(5) u16_bound [of "max_media_length (map media_data grp)"] by (auto simp: fec_image_def Let_def fec_mask_bytes_def)
  then show "rtp_wf q"
    by (subst q(1)) (simp add: rtp_wf_def rtp_buffer_length_def extension_wf_def extension_size_def payload_bytes_def sent_fec_fields)
  show "csrcs q = []" "ssrc q = dec_ssrc c" by (subst q(1), simp add: sent_fec_fields q(2))+
  show "payload_type q = dec_payload_type c" by (subst q(1)) (simp only: sent_fec_type [OF q(4)] q(3))
qed

lemma world_packet:
  assumes "fec_world b c G S" and "p \<in> S"
  shows "rtp_wf p" and "csrcs p = []" and "ssrc p = dec_ssrc c" and "CreateCopy p = Ok p"
    and "seq_dist b (sequence_number p) < 32768"
    and "payload_type p \<noteq> dec_payload_type c \<longleftrightarrow> stream_media c p"
    and "payload_type p = dec_payload_type c \<Longrightarrow> set (G p) \<subseteq> S \<and> protects_group c p (G p)"
proof -
  have p: "stream_media c p \<or> set (G p) \<subseteq> S \<and> protects_group c p (G p)" using assms by (simp add: fec_world_def)
  then show wf: "rtp_wf p" "csrcs p = []" "ssrc p = dec_ssrc c"
    using protects_group_wf fec_media_wf by (auto simp: stream_media_def)
  show "CreateCopy p = Ok p" using CreateCopy_Ok [OF wf(1)] wf(2) by simp
  show "seq_dist b (sequence_number p) < 32768" using assms by (auto simp: fec_world_def ahead_def)
  show "payload_type p \<noteq> dec_payload_type c \<longleftrightarrow> stream_media c p"
    "payload_type p = dec_payload_type c \<Longrightarrow> set (G p) \<subseteq> S \<and> protects_group c p (G p)"
    using p protects_group_wf by (auto simp: stream_media_def)
qed

lemma world_after:
  assumes "fec_world b c G S" and "p \<in> S" and "q \<in> S"
  shows "IsSeqAfter (sequence_number p) (sequence_number q) \<longleftrightarrow> nearer b p q"
  using assms by (intro IsSeqAfter_window world_packet(5))

section \<open>The invariant of the decoder\<close>

text \<open>A number is stale once it can no longer be put out. A pointer to a media packet leads to a cached
  packet of its number, unless that number is stale.\<close>

definition stale :: "fec_decoder \<Rightarrow> u16 \<Rightarrow> bool" where
  "stale d s \<longleftrightarrow> fd_has_output d \<and> \<not> IsSeqAfter (fd_seq_last_output d) s"

definition refers :: "fec_cached list \<Rightarrow> u16 \<Rightarrow> nat \<Rightarrow> bool" where
  "refers cs s i \<longleftrightarrow> (\<exists>x \<in> set cs. fc_id x = i \<and> fc_seq x = s)"

definition points :: "fec_decoder \<Rightarrow> u16 \<Rightarrow> nat \<Rightarrow> bool" where
  "points d s i \<longleftrightarrow> stale d s \<or> refers (fd_cached_packets d) s i"

definition seen :: "(u16 \<times> bool) list \<Rightarrow> u16 set" where "seen es = {s. (s, True) \<in> set es}"

definition entry_ok :: "fec_decoder \<Rightarrow> rtp_packet list \<Rightarrow> (u16 \<times> bool) list \<Rightarrow> nat list \<Rightarrow> bool" where
  "entry_ok d grp es media \<longleftrightarrow> distinct (map fst es) \<and> fst ` set es = sequence_number ` set grp
     \<and> (\<exists>ks. distinct ks \<and> set ks = seen es \<and> list_all2 (points d) ks media)"

definition cached_ok :: "fec_decoder_config \<Rightarrow> (rtp_packet \<Rightarrow> rtp_packet list) \<Rightarrow> rtp_packet set \<Rightarrow> fec_decoder \<Rightarrow> fec_cached \<Rightarrow> bool" where
  "cached_ok c G S d x \<longleftrightarrow> fc_rtp_struct x \<in> S \<and> fc_rtp_buffer x = rtp_image (fc_rtp_struct x)
     \<and> (fc_is_fec x \<longleftrightarrow> payload_type (fc_rtp_struct x) = dec_payload_type c)
     \<and> (fc_is_fec x \<longrightarrow> entry_ok d (G (fc_rtp_struct x)) (fc_protected x) (fc_media_packets x))"

definition fec_inv :: "fec_decoder_config \<Rightarrow> (rtp_packet \<Rightarrow> rtp_packet list) \<Rightarrow> rtp_packet set \<Rightarrow> fec_decoder \<Rightarrow> bool" where
  "fec_inv c G S d \<longleftrightarrow> fd_config d = Some c \<and> sorted_wrt IsSeqAfter (map fc_seq (fd_cached_packets d))
     \<and> distinct (map fc_id (fd_cached_packets d)) \<and> (\<forall>x \<in> set (fd_cached_packets d). fc_id x < fd_next_id d \<and> cached_ok c G S d x)
     \<and> (fd_has_output d \<longrightarrow> fd_seq_last_output d \<in> sequence_number ` S)"

definition structs :: "fec_decoder \<Rightarrow> rtp_packet set" where
  "structs d = fc_rtp_struct ` set (fd_cached_packets d)"

lemma fec_inv_structs: "fec_inv c G S d \<Longrightarrow> structs d \<subseteq> S"
  by (auto simp: fec_inv_def structs_def cached_ok_def)

text \<open>Entries stay good when pointers and stale numbers do.\<close>

lemma cached_ok_mono:
  assumes "fec_world b c G S" and "cached_ok c G S d x"
    and "\<And>s i. s \<in> sequence_number ` S \<Longrightarrow> points d s i \<Longrightarrow> points d' s i"
  shows "cached_ok c G S d' x"
proof -
  have "entry_ok d' (G (fc_rtp_struct x)) (fc_protected x) (fc_media_packets x)" if fec: "fc_is_fec x"
  proof -
    have in_S: "set (G (fc_rtp_struct x)) \<subseteq> S" using world_packet(7) [OF assms(1)] assms(2) fec by (auto simp: cached_ok_def)
    obtain ks where ks: "distinct ks" "set ks = seen (fc_protected x)" "list_all2 (points d) ks (fc_media_packets x)"
      and e: "distinct (map fst (fc_protected x))" "fst ` set (fc_protected x) = sequence_number ` set (G (fc_rtp_struct x))"
      using assms(2) fec by (auto simp: cached_ok_def entry_ok_def)
    have "seen (fc_protected x) \<subseteq> fst ` set (fc_protected x)" by (force simp: seen_def)
    then have "set ks \<subseteq> sequence_number ` S" unfolding ks(2) e(2) using in_S by blast
    then have "list_all2 (points d') ks (fc_media_packets x)"
      by (intro list.rel_mono_strong [OF ks(3)] assms(3)) auto
    then show ?thesis using ks e by (auto simp: entry_ok_def)
  qed
  then show ?thesis using assms(2) by (simp add: cached_ok_def)
qed

section \<open>Caching a packet\<close>

text \<open>The decoder reads the numbers of the group out of a FEC packet.\<close>

lemma fec_packet_decoded:
  assumes prot: "protects_group c p grp"
  obtains es where "DecodeFecInfo (dec_payload_type c) (new_cached j p (rtp_image p))
      = (Ok ((new_cached j p (rtp_image p))\<lparr>fc_is_fec := True, fc_protected := es\<rparr>) :: ('e, fec_cached) outcome)"
    and "fst ` set es = sequence_number ` set grp" and "seen es = {}" and "distinct (map fst es)"
proof -
  obtain e m ts where q: "p = sent_fec e m ts (sequence_number p)"
    and g: "fec_group (map media_data grp)" "fec_image (map media_data grp) (max_media_length (map media_data grp)) m"
    and near: "\<forall>x \<in> set grp. seq_dist (sequence_number (hd grp)) (sequence_number x) < 256"
    using prot unfolding protects_group_def by blast
  obtain hdr where hdr: "rtp_image p = hdr @ m" "length hdr = 12" using sent_fec_image [of e m ts "sequence_number p"] q by auto
  have hd: "sequence_number (fst (hd (map media_data grp))) = sequence_number (hd grp)"
    using g(1) by (auto simp: fec_group_def hd_map)
  have near': "\<forall>x \<in> set (map media_data grp).
      seq_dist (sequence_number (fst (hd (map media_data grp)))) (sequence_number (fst x)) < 256"
    using near unfolding hd by simp
  obtain es where es: "DecodeFecInfo (dec_payload_type c) (new_cached j p (hdr @ m))
      = (Ok ((new_cached j p (hdr @ m))\<lparr>fc_is_fec := True, fc_protected := es\<rparr>) :: ('e, fec_cached) outcome)"
    "fst ` set es = (\<lambda>x. sequence_number (fst x)) ` set (map media_data grp)" "\<forall>e \<in> set es. \<not> snd e" "distinct (map fst es)"
    using decode_fec_info [OF g(2,1) protects_group_wf(4) [OF prot] hdr(2) near', of j, where 'e = 'e] by blast
  have "fst ` set es = sequence_number ` set grp" using es(2) by (simp add: image_image)
  then show ?thesis using es(1,3,4) hdr(1) by (intro that [of es]) (auto simp: seen_def)
qed

text \<open>What is cached for a packet of the stream, received or recovered.\<close>

lemma decoded_entry:
  assumes "fec_world b c G S" and "p \<in> S"
  obtains x where "DecodeFecInfo (dec_payload_type c) (new_cached j p (rtp_image p)) = (Ok x :: ('e, fec_cached) outcome)"
    and "fc_id x = j" and "fc_rtp_struct x = p" and "\<not> fc_invalid_fec x" and "\<And>d. cached_ok c G S d x"
proof (cases "payload_type p = dec_payload_type c")
  case False
  let ?x = "(new_cached j p (rtp_image p))\<lparr>fc_is_fec := False\<rparr>"
  have "DecodeFecInfo (dec_payload_type c) (new_cached j p (rtp_image p)) = (Ok ?x :: ('e, fec_cached) outcome)"
    using False by (simp add: DecodeFecInfo_def new_cached_def)
  moreover have "cached_ok c G S d ?x" for d using False assms(2) by (simp add: cached_ok_def new_cached_def)
  ultimately show ?thesis by (intro that [of ?x]) (simp_all add: new_cached_def)
next
  case True
  have "protects_group c p (G p)" using world_packet(7) [OF assms True] by simp
  then obtain es where es: "DecodeFecInfo (dec_payload_type c) (new_cached j p (rtp_image p))
      = (Ok ((new_cached j p (rtp_image p))\<lparr>fc_is_fec := True, fc_protected := es\<rparr>) :: ('e, fec_cached) outcome)"
    "fst ` set es = sequence_number ` set (G p)" "seen es = {}" "distinct (map fst es)"
    by (rule fec_packet_decoded [where j = j and 'e = 'e])
  let ?x = "(new_cached j p (rtp_image p))\<lparr>fc_is_fec := True, fc_protected := es\<rparr>"
  have "cached_ok c G S d ?x" for d
    using True assms(2) es(2-4) by (simp add: cached_ok_def entry_ok_def new_cached_def)
  then show ?thesis using es(1) by (intro that [of ?x]) (simp_all add: new_cached_def)
qed

lemma find_position_Some:
  "find_position s cs = Some i \<Longrightarrow> i \<le> length cs \<and> (\<forall>x \<in> set (take i cs). fc_seq x \<noteq> s \<and> \<not> IsSeqAfter s (fc_seq x))
     \<and> (drop i cs \<noteq> [] \<longrightarrow> IsSeqAfter s (fc_seq (hd (drop i cs))))"
  by (induction cs arbitrary: i) (auto simp: IsSeqBefore_def split: if_splits)

lemma find_position_None: "find_position s cs = None \<Longrightarrow> s \<in> fc_seq ` set cs"
  by (induction cs) (auto split: if_splits)

lemma set_insert_at: "i \<le> length xs \<Longrightarrow> set (insert_at i x xs) = insert x (set xs)"
  unfolding insert_at_def by (metis Un_insert_right append_take_drop_id list.simps(15) set_append)

text \<open>Inserting an entry at the place the search found keeps the invariant.\<close>

lemma insert_entry_inv:
  assumes w: "fec_world b c G S" and inv: "fec_inv c G S d" and x: "\<And>d. cached_ok c G S d x" "fc_id x = fd_next_id d"
    and i: "find_position (fc_seq x) (fd_cached_packets d) = Some i"
  defines "d' \<equiv> d\<lparr>fd_cached_packets := insert_at i x (fd_cached_packets d), fd_next_id := fd_next_id d + 1\<rparr>"
  shows "fec_inv c G S d'" and "set (fd_cached_packets d') = insert x (set (fd_cached_packets d))"
proof -
  let ?cs = "fd_cached_packets d"
  note pos = find_position_Some [OF i]
  show set: "set (fd_cached_packets d') = insert x (set ?cs)" unfolding d'_def using pos by (simp add: set_insert_at)
  have in_S: "fc_rtp_struct y \<in> S" if "y \<in> insert x (set ?cs)" for y
    using that inv x(1) [of d] by (auto simp: fec_inv_def cached_ok_def)
  have split: "map fc_seq (take i ?cs) @ map fc_seq (drop i ?cs) = map fc_seq ?cs" by (simp flip: map_append)
  have win: "seq.in_window b (insert (fc_seq x) (set (map fc_seq ?cs)))"
    using in_S world_packet(5) [OF w] by (auto simp: seq.in_window_def fc_seq_def)
  have "sorted_wrt IsSeqAfter (map fc_seq (take i ?cs) @ fc_seq x # map fc_seq (drop i ?cs))"
  proof (rule seq.sorted_ascending_insert [where base = b])
    show "sorted_wrt IsSeqAfter (map fc_seq (take i ?cs) @ map fc_seq (drop i ?cs))"
      unfolding split using inv by (simp add: fec_inv_def)
  qed (use pos win split in \<open>auto simp: hd_map\<close>)
  then have sorted: "sorted_wrt IsSeqAfter (map fc_seq (fd_cached_packets d'))"
    by (simp add: d'_def insert_at_def)
  have fresh: "fc_id x \<notin> fc_id ` set ?cs" using inv x(2) by (auto simp: fec_inv_def)
  have "mset (insert_at i x ?cs) = add_mset x (mset ?cs)"
    unfolding insert_at_def by (metis append_take_drop_id mset.simps(2) mset_append union_mset_add_mset_right)
  then have "mset (map fc_id (insert_at i x ?cs)) = mset (fc_id x # map fc_id ?cs)" by simp
  then have "distinct (map fc_id (insert_at i x ?cs)) = distinct (fc_id x # map fc_id ?cs)"
    by (rule mset_eq_imp_distinct_iff)
  then have ids: "distinct (map fc_id (fd_cached_packets d'))" using inv fresh by (simp add: fec_inv_def d'_def)
  have keep: "points d' s j" if "points d s j" for s j
    using that unfolding points_def refers_def stale_def set by (auto simp: d'_def)
  have "cached_ok c G S d' y" if "y \<in> set ?cs" for y
    by (rule cached_ok_mono [OF w _ keep]) (use that inv in \<open>auto simp: fec_inv_def\<close>)
  then have "\<forall>y \<in> set (fd_cached_packets d'). fc_id y < fd_next_id d' \<and> cached_ok c G S d' y"
    unfolding set using x inv by (auto simp: d'_def fec_inv_def less_Suc_eq)
  then show "fec_inv c G S d'" using inv sorted ids by (simp add: fec_inv_def d'_def)
qed

lemma find_position_None_iff:
  assumes "fec_world b c G S" and "fec_inv c G S d" and "p \<in> S"
  shows "find_position (sequence_number p) (fd_cached_packets d) = None \<longleftrightarrow> p \<in> structs d"
proof
  assume "find_position (sequence_number p) (fd_cached_packets d) = None"
  from find_position_None [OF this]
  obtain x where "x \<in> set (fd_cached_packets d)" "fc_seq x = sequence_number p" by auto
  moreover from this have "fc_rtp_struct x \<in> S" using assms(2) by (auto simp: fec_inv_def cached_ok_def)
  ultimately show "p \<in> structs d"
    using assms(1,3) by (metis (no_types, lifting) fc_seq_def fec_world_def image_eqI inj_onD structs_def)
next
  assume p: "p \<in> structs d"
  show "find_position (sequence_number p) (fd_cached_packets d) = None"
  proof (rule ccontr)
    assume "find_position (sequence_number p) (fd_cached_packets d) \<noteq> None"
    then obtain i where i: "find_position (sequence_number p) (fd_cached_packets d) = Some i" by blast
    obtain x where "DecodeFecInfo (dec_payload_type c) (new_cached (fd_next_id d) p (rtp_image p)) = (Ok x :: (unit, fec_cached) outcome)"
      and x: "fc_id x = fd_next_id d" "fc_rtp_struct x = p" "\<And>d. cached_ok c G S d x"
      by (rule decoded_entry [OF assms(1,3), where j = "fd_next_id d"]) (rule that)
    have s: "fc_seq x = sequence_number p" using x(2) by (simp add: fc_seq_def)
    then have "sorted_wrt IsSeqAfter (map fc_seq (insert_at i x (fd_cached_packets d)))"
      using insert_entry_inv(1) [OF assms(1,2) x(3,1)] i by (simp add: fec_inv_def)
    then have "\<forall>y \<in> set (take i (fd_cached_packets d)) \<union> set (drop i (fd_cached_packets d)). fc_seq y \<noteq> fc_seq x"
      by (fastforce simp: insert_at_def sorted_wrt_append IsSeqAfter_dist)
    then have "\<forall>y \<in> set (fd_cached_packets d). fc_seq y \<noteq> sequence_number p"
      unfolding s set_append [symmetric] append_take_drop_id .
    then show False using p by (auto simp: structs_def fc_seq_def)
  qed
qed

text \<open>Steps that leave what has been put out alone and drop nothing from the cache.\<close>

definition grows :: "fec_decoder \<Rightarrow> fec_decoder \<Rightarrow> bool" where
  "grows d d' \<longleftrightarrow> fd_has_output d' = fd_has_output d \<and> fd_seq_last_output d' = fd_seq_last_output d
     \<and> structs d \<subseteq> structs d'"

lemma grows_refl [simp]: "grows d d"
  by (simp add: grows_def)

lemma grows_trans: "grows d d' \<Longrightarrow> grows d' d'' \<Longrightarrow> grows d d''"
  by (auto simp: grows_def)

text \<open>Steps that add nothing behind the last cached number.\<close>

definition bounded :: "u16 \<Rightarrow> fec_decoder \<Rightarrow> fec_decoder \<Rightarrow> bool" where
  "bounded b d d' \<longleftrightarrow> (\<forall>q \<in> structs d'. \<exists>y \<in> structs d. \<not> nearer b y q)"

lemma bounded_refl [simp]: "bounded b d d"
  by (auto simp: bounded_def)

lemma bounded_trans: "bounded b d d' \<Longrightarrow> bounded b d' d'' \<Longrightarrow> bounded b d d''"
  unfolding bounded_def by (meson leD leI le_trans)

lemma grows_stale: "grows d d' \<Longrightarrow> stale d' s = stale d s"
  by (simp add: grows_def stale_def)

lemma cache_packet_step:
  assumes w: "fec_world b c G S" and inv: "fec_inv c G S d" and p: "p \<in> S"
  obtains d' where "cache_packet fill p d = Ok d'" and "fec_inv c G S d'" and "grows d d'"
    and "set (fd_cached_packets d) \<subseteq> set (fd_cached_packets d')"
    and "\<And>x. x \<in> set (fd_cached_packets d') \<Longrightarrow> x \<notin> set (fd_cached_packets d) \<Longrightarrow> fc_rtp_struct x = p \<and> \<not> fc_invalid_fec x"
    and "\<not> (fd_has_output d \<and> IsSeqBefore (sequence_number p) (fd_seq_last_output d)) \<Longrightarrow> p \<in> structs d'"
proof (cases "fd_has_output d \<and> IsSeqBefore (sequence_number p) (fd_seq_last_output d) \<or> p \<in> structs d")
  case True
  have "cache_packet fill p d = Ok d"
    using True inv find_position_None_iff [OF w inv p] by (auto simp: cache_packet_def fec_inv_def)
  then show ?thesis using True inv by (intro that [of d]) auto
next
  case False
  obtain i where i: "find_position (sequence_number p) (fd_cached_packets d) = Some i"
    using False find_position_None_iff [OF w inv p] by blast
  obtain b' where load: "LoadPacket fill p = Ok b'" "db_contents b' = rtp_image p"
    using LoadPacket_image [OF world_packet(1) [OF w p]] by blast
  obtain x where x: "DecodeFecInfo (dec_payload_type c) (new_cached (fd_next_id d) p (rtp_image p)) = (Ok x :: (fec_error, fec_cached) outcome)"
    "fc_id x = fd_next_id d" "fc_rtp_struct x = p" "\<not> fc_invalid_fec x" "\<And>d. cached_ok c G S d x"
    by (rule decoded_entry [OF w p, where j = "fd_next_id d"]) (rule that)
  let ?d = "d\<lparr>fd_cached_packets := insert_at i x (fd_cached_packets d), fd_next_id := fd_next_id d + 1\<rparr>"
  have "fc_seq x = sequence_number p" using x(3) by (simp add: fc_seq_def)
  then have d: "fec_inv c G S ?d" "set (fd_cached_packets ?d) = insert x (set (fd_cached_packets d))"
    using insert_entry_inv [OF w inv x(5,2)] i by simp_all
  have "cache_packet fill p d = Ok ?d"
    using False i load x(1) inv world_packet(3) [OF w p] by (auto simp: cache_packet_def fec_inv_def)
  then show ?thesis using d x(3,4) by (intro that [of ?d]) (auto simp: grows_def structs_def)
qed

text \<open>A number that comes after the last output is accepted.\<close>

lemma not_stale_accepted:
  assumes "fec_world b c G S" and "fec_inv c G S d" and "p \<in> S" and "\<not> stale d (sequence_number p)"
  shows "\<not> (fd_has_output d \<and> IsSeqBefore (sequence_number p) (fd_seq_last_output d))"
proof
  assume h: "fd_has_output d \<and> IsSeqBefore (sequence_number p) (fd_seq_last_output d)"
  then obtain q where q: "q \<in> S" "fd_seq_last_output d = sequence_number q" using assms(2) by (auto simp: fec_inv_def)
  then show False using h assms(4) world_after [OF assms(1,3) q(1)] world_after [OF assms(1) q(1) assms(3)]
    by (auto simp: stale_def IsSeqBefore_def)
qed

lemma CachePackets_step:
  assumes w: "fec_world b c G S" and inv: "fec_inv c G S d" and ps: "set ps \<subseteq> S"
  obtains d' where "CachePackets fill ps d = Ok d'" and "fec_inv c G S d'" and "grows d d'"
    and "set (fd_cached_packets d) \<subseteq> set (fd_cached_packets d')"
    and "\<And>x. x \<in> set (fd_cached_packets d') \<Longrightarrow> x \<notin> set (fd_cached_packets d) \<Longrightarrow> fc_rtp_struct x \<in> set ps \<and> \<not> fc_invalid_fec x"
    and "\<And>p. p \<in> set ps \<Longrightarrow> \<not> stale d (sequence_number p) \<Longrightarrow> p \<in> structs d'"
  using inv ps
proof (induction ps arbitrary: d thesis)
  case Nil
  then show ?case by (auto simp: CachePackets_def)
next
  case (Cons p ps)
  obtain d1 where d1: "cache_packet fill p d = Ok d1" "fec_inv c G S d1" "grows d d1"
    "set (fd_cached_packets d) \<subseteq> set (fd_cached_packets d1)"
    "\<And>x. x \<in> set (fd_cached_packets d1) \<Longrightarrow> x \<notin> set (fd_cached_packets d) \<Longrightarrow> fc_rtp_struct x = p \<and> \<not> fc_invalid_fec x"
    "\<not> stale d (sequence_number p) \<Longrightarrow> p \<in> structs d1"
    using cache_packet_step [OF w Cons.prems(2), of p fill] not_stale_accepted [OF w Cons.prems(2)] Cons.prems(3)
    by (metis insert_subset list.simps(15))
  obtain d2 where d2: "CachePackets fill ps d1 = Ok d2" "fec_inv c G S d2" "grows d1 d2"
    "set (fd_cached_packets d1) \<subseteq> set (fd_cached_packets d2)"
    "\<And>x. x \<in> set (fd_cached_packets d2) \<Longrightarrow> x \<notin> set (fd_cached_packets d1) \<Longrightarrow> fc_rtp_struct x \<in> set ps \<and> \<not> fc_invalid_fec x"
    "\<And>p. p \<in> set ps \<Longrightarrow> \<not> stale d1 (sequence_number p) \<Longrightarrow> p \<in> structs d2"
    using Cons.IH [of d1] d1(2) Cons.prems(3) by auto
  have "CachePackets fill (p # ps) d = Ok d2" using d1(1) d2(1) by (simp add: CachePackets_def)
  moreover have "q \<in> structs d2" if "q \<in> set (p # ps)" "\<not> stale d (sequence_number q)" for q
    using that d1(6) d2(3,6) grows_stale [OF d1(3)] by (auto simp: grows_def)
  moreover have "fc_rtp_struct x \<in> set (p # ps) \<and> \<not> fc_invalid_fec x"
    if "x \<in> set (fd_cached_packets d2)" "x \<notin> set (fd_cached_packets d)" for x
    using that d1(5) [of x] d2(5) [of x] by (cases "x \<in> set (fd_cached_packets d1)") simp_all
  ultimately show ?case using d1(4) d2(2,4) grows_trans [OF d1(3) d2(3)]
    by (intro Cons.prems(1) [of d2]) (assumption | blast)+
qed

section \<open>The scan of the protected numbers\<close>

lemma seen_simps [simp]:
  "seen [] = {}" "seen ((s, r) # es) = (if r then insert s (seen es) else seen es)"
  by (auto simp: seen_def)

lemma seen_subset: "seen es \<subseteq> fst ` set es"
  by (force simp: seen_def)

lemma find_refers: "find (\<lambda>c. fc_seq c = s) cs = Some x \<Longrightarrow> refers cs s (fc_id x)"
  by (auto simp: refers_def find_Some_iff)

lemma scan_pointers:
  assumes "distinct (map fst es)"
  shows "\<exists>new ids. let r = scan_protected ho sl lst cs es media in
    sr_media r = media @ ids \<and> list_all2 (refers cs) new ids \<and> map fst (sr_protected r) = map fst es
    \<and> seen (sr_protected r) = seen es \<union> set new \<and> distinct new \<and> set new \<inter> seen es = {} \<and> set new \<subseteq> fst ` set es"
  using assms
proof (induction es arbitrary: media)
  case Nil
  then show ?case by (intro exI [of _ "[]"]) simp
next
  case (Cons e es)
  obtain s r where e: "e = (s, r)" by (cases e)
  let ?hit = "if r then None else find (\<lambda>c. fc_seq c = s) cs"
  show ?case
  proof (cases "ho \<and> \<not> IsSeqAfter sl s \<or> IsSeqAfter lst s")
    case True
    then show ?thesis by (intro exI [of _ "[]"]) (auto simp: e scan_stop_def Let_def)
  next
    case False
    note go = False
    show ?thesis
    proof (cases ?hit)
      case None
      obtain new ids where "let t = scan_protected ho sl lst cs es media in
        sr_media t = media @ ids \<and> list_all2 (refers cs) new ids \<and> map fst (sr_protected t) = map fst es
        \<and> seen (sr_protected t) = seen es \<union> set new \<and> distinct new \<and> set new \<inter> seen es = {} \<and> set new \<subseteq> fst ` set es"
        using Cons by fastforce
      then show ?thesis using go None Cons.prems e
        by (intro exI [of _ new] exI [of _ ids]) (auto simp: Let_def)
    next
      case (Some x)
      obtain new ids where "let t = scan_protected ho sl lst cs es (media @ [fc_id x]) in
        sr_media t = (media @ [fc_id x]) @ ids \<and> list_all2 (refers cs) new ids \<and> map fst (sr_protected t) = map fst es
        \<and> seen (sr_protected t) = seen es \<union> set new \<and> distinct new \<and> set new \<inter> seen es = {} \<and> set new \<subseteq> fst ` set es"
        using Cons by fastforce
      moreover have "refers cs s (fc_id x)" "\<not> r" using Some find_refers by (auto split: if_splits)
      moreover have "s \<notin> seen es" using Cons.prems e seen_subset [of es] by auto
      ultimately show ?thesis using go Some Cons.prems e
        by (intro exI [of _ "s # new"] exI [of _ "fc_id x # ids"]) (auto simp: Let_def)
    qed
  qed
qed

lemma scan_valid:
  assumes "distinct (map fst es)" and "sr_valid (scan_protected ho sl lst cs es media)"
  shows "(\<forall>s \<in> fst ` set es. \<not> (ho \<and> \<not> IsSeqAfter sl s))
    \<and> sr_missing (scan_protected ho sl lst cs es media)
      = filter (\<lambda>s. s \<notin> seen (sr_protected (scan_protected ho sl lst cs es media))) (map fst es)"
  using assms
proof (induction es arbitrary: media)
  case Nil
  then show ?case by simp
next
  case (Cons e es)
  obtain s r where e: "e = (s, r)" by (cases e)
  have go: "\<not> (ho \<and> \<not> IsSeqAfter sl s)" "\<not> IsSeqAfter lst s"
    using Cons.prems(2) e by (auto simp: scan_stop_def split: if_splits)
  have out: "s \<notin> fst ` set es" "distinct (map fst es)" using Cons.prems(1) e by auto
  have keys: "map fst (sr_protected (scan_protected ho sl lst cs es m)) = map fst es" for m
    using scan_pointers [OF out(2), of ho sl lst cs m] by (auto simp: Let_def)
  have no: "s \<notin> seen (sr_protected (scan_protected ho sl lst cs es m))" for m
    using seen_subset [of "sr_protected (scan_protected ho sl lst cs es m)"] out(1) arg_cong [OF keys [of m], of set] by auto
  have other: "filter (\<lambda>t. t \<noteq> s \<and> P t) (map fst es) = filter P (map fst es)" for P
    using out(1) by (intro filter_cong) auto
  show ?case
  proof (cases "if r then None else find (\<lambda>c. fc_seq c = s) cs")
    case None
    then show ?thesis using Cons.IH [of media] Cons.prems(2) go out(2) e no [of media] other
      by (auto simp: Let_def)
  next
    case (Some x)
    then show ?thesis using Cons.IH [of "media @ [fc_id x]"] Cons.prems(2) go out(2) e no [of "media @ [fc_id x]"] other
      by (auto simp: Let_def split: if_splits)
  qed
qed

text \<open>When no number stops it, the scan finds everything that is cached.\<close>

lemma scan_all:
  assumes "\<forall>s \<in> fst ` set es. \<not> (ho \<and> \<not> IsSeqAfter sl s) \<and> \<not> IsSeqAfter lst s"
  shows "sr_valid (scan_protected ho sl lst cs es media) \<and> \<not> sr_invalid_fec (scan_protected ho sl lst cs es media)
    \<and> seen (sr_protected (scan_protected ho sl lst cs es media)) = seen es \<union> (fst ` set es \<inter> fc_seq ` set cs)"
  using assms
proof (induction es arbitrary: media)
  case Nil
  then show ?case by simp
next
  case (Cons e es)
  obtain s r where e: "e = (s, r)" by (cases e)
  have hit: "find (\<lambda>c. fc_seq c = s) cs = None \<longleftrightarrow> s \<notin> fc_seq ` set cs" by (auto simp: find_None_iff)
  show ?case
  proof (cases "if r then None else find (\<lambda>c. fc_seq c = s) cs")
    case None
    then show ?thesis using Cons.IH [of media] Cons.prems e hit by (auto simp: Let_def split: if_splits)
  next
    case (Some x)
    then show ?thesis using Cons.IH [of "media @ [fc_id x]"] Cons.prems e hit by (auto simp: Let_def split: if_splits)
  qed
qed

section \<open>Recovering\<close>

lemma cached_unique:
  "fec_inv c G S d \<Longrightarrow> x \<in> set (fd_cached_packets d) \<Longrightarrow> y \<in> set (fd_cached_packets d) \<Longrightarrow> fc_id x = fc_id y \<Longrightarrow> x = y"
  by (auto simp: fec_inv_def distinct_map inj_on_def)

lemma fc_deref_cached:
  assumes "fec_inv c G S d" and "x \<in> set (fd_cached_packets d)"
  shows "fc_deref d (fc_id x) = Ok x"
proof -
  obtain y where y: "find (\<lambda>z. fc_id z = fc_id x) (fd_cached_packets d) = Some y"
    using assms(2) by (cases "find (\<lambda>z. fc_id z = fc_id x) (fd_cached_packets d)") (auto simp: find_None_iff)
  then have "y \<in> set (fd_cached_packets d)" "fc_id y = fc_id x" by (auto simp: find_Some_iff)
  then show ?thesis using y cached_unique [OF assms(1) _ assms(2)] by (simp add: fc_deref_def)
qed

text \<open>Updates of the bookkeeping of an entry.\<close>

definition keeps_packet :: "(fec_cached \<Rightarrow> fec_cached) \<Rightarrow> bool" where
  "keeps_packet f \<longleftrightarrow> (\<forall>y. fc_id (f y) = fc_id y \<and> fc_rtp_struct (f y) = fc_rtp_struct y
     \<and> fc_rtp_buffer (f y) = fc_rtp_buffer y \<and> fc_is_fec (f y) = fc_is_fec y)"

lemma update_entry_inv:
  assumes w: "fec_world b c G S" and inv: "fec_inv c G S d" and x: "x \<in> set (fd_cached_packets d)" and f: "keeps_packet f"
    and entry: "fc_is_fec x \<Longrightarrow> entry_ok d (G (fc_rtp_struct x)) (fc_protected (f x)) (fc_media_packets (f x))"
  defines "d' \<equiv> fc_update (fc_id x) f d"
  shows "fec_inv c G S d'" and "grows d d'" and "structs d' = structs d" and "f x \<in> set (fd_cached_packets d')"
    and "\<And>y. y \<in> set (fd_cached_packets d) \<Longrightarrow> y \<noteq> x \<Longrightarrow> y \<in> set (fd_cached_packets d')"
    and "map fc_seq (fd_cached_packets d') = map fc_seq (fd_cached_packets d)"
    and "map fc_id (fd_cached_packets d') = map fc_id (fd_cached_packets d)"
    and "points d' = points d" and "fd_next_id d' = fd_next_id d"
proof -
  let ?g = "\<lambda>y. if fc_id y = fc_id x then f y else y"
  have cs: "fd_cached_packets d' = map ?g (fd_cached_packets d)" by (simp add: d'_def fc_update_def)
  have g: "fc_id (?g y) = fc_id y" "fc_rtp_struct (?g y) = fc_rtp_struct y" "fc_seq (?g y) = fc_seq y" for y
    using f by (simp_all add: keeps_packet_def fc_seq_def)
  have rest: "fd_config d' = fd_config d" "fd_has_output d' = fd_has_output d" "fd_seq_last_output d' = fd_seq_last_output d"
    "fd_next_id d' = fd_next_id d" by (simp_all add: d'_def fc_update_def)
  show seqs: "map fc_seq (fd_cached_packets d') = map fc_seq (fd_cached_packets d)"
    and ids: "map fc_id (fd_cached_packets d') = map fc_id (fd_cached_packets d)" unfolding cs map_map comp_def g by simp_all
  show next_id: "fd_next_id d' = fd_next_id d" by (rule rest(4))
  show st: "structs d' = structs d" unfolding structs_def cs set_map image_image g ..
  then show "grows d d'" by (simp add: grows_def rest)
  have "refers (fd_cached_packets d') s i = refers (fd_cached_packets d) s i" for s i
    unfolding refers_def cs set_map bex_simps g ..
  then show pts: "points d' = points d" by (intro ext) (simp add: points_def stale_def rest)
  show "f x \<in> set (fd_cached_packets d')" unfolding cs using x by force
  show others: "y \<in> set (fd_cached_packets d')" if "y \<in> set (fd_cached_packets d)" "y \<noteq> x" for y
    unfolding cs using that cached_unique [OF inv that(1) x] by (auto intro: rev_image_eqI)
  have "cached_ok c G S d' (?g y)" if y: "y \<in> set (fd_cached_packets d)" for y
  proof (cases "y = x")
    case True
    then show ?thesis using inv x entry f pts by (auto simp: fec_inv_def cached_ok_def keeps_packet_def entry_ok_def)
  next
    case False
    then have "?g y = y" using cached_unique [OF inv y x] by auto
    then show ?thesis using inv y pts by (auto simp: fec_inv_def cached_ok_def entry_ok_def)
  qed
  moreover have "fc_id (?g y) < fd_next_id d'" if "y \<in> set (fd_cached_packets d)" for y
    using that inv g(1) [of y] rest(4) by (simp add: fec_inv_def)
  ultimately have "\<forall>z \<in> set (fd_cached_packets d'). fc_id z < fd_next_id d' \<and> cached_ok c G S d' z"
    unfolding cs set_map ball_simps by blast
  then show "fec_inv c G S d'" using inv seqs ids rest by (simp add: fec_inv_def)
qed

text \<open>The pointers of an entry of which no number is stale can all be followed.\<close>

lemma refers_list:
  assumes "list_all2 (refers cs) ks ids"
  obtains xs where "map fc_id xs = ids" and "map fc_seq xs = ks" and "set xs \<subseteq> set cs"
  using assms
proof (induction ks ids arbitrary: thesis rule: list_all2_induct)
  case Nil
  then show ?case by auto
next
  case (Cons s ks i ids)
  obtain xs where xs: "map fc_id xs = ids" "map fc_seq xs = ks" "set xs \<subseteq> set cs" using Cons.IH by blast
  obtain x where "x \<in> set cs" "fc_id x = i" "fc_seq x = s" using Cons.hyps(1) by (auto simp: refers_def)
  then show ?case using xs by (intro Cons.prems [of "x # xs"]) auto
qed

lemma omapM_map: "omapM f (map g xs) = omapM (\<lambda>x. f (g x)) xs"
  by (induction xs) simp_all

lemma distinct_mset: "distinct xs \<Longrightarrow> distinct ys \<Longrightarrow> set xs = set ys \<Longrightarrow> mset xs = mset ys"
  using set_eq_iff_mset_eq_distinct by blast

text \<open>Packets of the stream are told apart by their numbers.\<close>

lemma world_same_numbers:
  assumes "fec_world b c G S" and "A \<subseteq> S" and "B \<subseteq> S" and "sequence_number ` A = sequence_number ` B"
  shows "A = B"
  using assms inj_on_image_eq_iff [of sequence_number S A B] by (simp add: fec_world_def)

lemma recover_group:
  assumes grp: "protects_group c f g" and perm: "mset g = mset (p # others)"
  shows "FecRecoverPacket (Some c) j (rtp_image f) (sequence_number p) (map rtp_image others)
    = (Ok (Some (new_cached j p (rtp_image p))) :: ('e, fec_cached option) outcome)"
proof -
  obtain e m ts where sent: "f = sent_fec e m ts (sequence_number f)"
    and g: "fec_group (map media_data g)" "fec_image (map media_data g) (max_media_length (map media_data g)) m"
    and ok: "\<forall>y \<in> set g. stream_media c y"
    using grp unfolding protects_group_def by blast
  have "p \<in> set g" using arg_cong [OF perm, of set_mset] by auto
  then have pm: "stream_media c p" using ok by blast
  have "FecRecoverPacket (Some c) j (rtp_image (sent_fec e m ts (sequence_number f))) (sequence_number p) (map rtp_image others)
      = (Ok (Some (new_cached j (p\<lparr>csrcs := map byte_swap (csrcs p)\<rparr>) (rtp_image p))) :: ('e, fec_cached option) outcome)"
    using ok pm by (intro recover_lost [OF g perm]) (auto simp: stream_media_def)
  moreover have "p\<lparr>csrcs := map byte_swap (csrcs p)\<rparr> = p" using pm by (simp add: stream_media_def)
  ultimately show ?thesis using sent by simp
qed

text \<open>A group of which a single packet is missing gives that packet.\<close>

lemma missing_recovered:
  assumes w: "fec_world b c G S" and inv: "fec_inv c G S d" and x: "x \<in> set (fd_cached_packets d)" "fc_is_fec x"
    and ks: "distinct ks" "set ks = seen es" "list_all2 (points d) ks media"
    and es: "distinct (map fst es)" "fst ` set es = sequence_number ` set (G (fc_rtp_struct x))"
    and live: "\<forall>s \<in> fst ` set es. \<not> stale d s" and one: "filter (\<lambda>s. s \<notin> seen es) (map fst es) = [s]"
  obtains xs p where "omapM (fc_deref d) media = (Ok xs :: ('e, fec_cached list) outcome)"
    and "FecRecoverPacket (Some c) j (fc_rtp_buffer x) s (map fc_rtp_buffer xs) = (Ok (Some (new_cached j p (rtp_image p))) :: ('e, fec_cached option) outcome)"
    and "p \<in> S" and "stream_media c p" and "sequence_number p = s"
proof -
  let ?cs = "fd_cached_packets d" and ?q = "fc_rtp_struct x"
  have q: "?q \<in> S" "fc_rtp_buffer x = rtp_image ?q" "payload_type ?q = dec_payload_type c"
    using inv x by (auto simp: fec_inv_def cached_ok_def)
  have grp: "set (G ?q) \<subseteq> S" "protects_group c ?q (G ?q)" using world_packet(7) [OF w q(1,3)] by simp_all
  have "list_all2 (refers ?cs) ks media"
  proof (rule list.rel_mono_strong [OF ks(3)])
    show "refers ?cs t i" if "t \<in> set ks" "points d t i" for t i
      using that live ks(2) seen_subset [of es] by (auto simp: points_def)
  qed
  then obtain xs where xs: "map fc_id xs = media" "map fc_seq xs = ks" "set xs \<subseteq> set ?cs" by (rule refers_list)
  have "omapM (\<lambda>y. fc_deref d (fc_id y)) xs = (Ok (map (\<lambda>y. y) xs) :: ('e, fec_cached list) outcome)"
    using xs(3) fc_deref_cached [OF inv] by (intro omapM_all_Ok) auto
  then have media: "omapM (fc_deref d) media = (Ok xs :: ('e, fec_cached list) outcome)"
    unfolding xs(1) [symmetric] omapM_map by simp
  have only: "t = s" if "t \<in> fst ` set es" "t \<notin> seen es" for t
    using arg_cong [OF one, of set] that by auto
  have s: "s \<in> fst ` set es" "s \<notin> seen es" using arg_cong [OF one, of set] by auto
  obtain p where p: "p \<in> set (G ?q)" "sequence_number p = s" using s(1) es(2) by auto
  define others where "others = map fc_rtp_struct xs"
  have seqs: "map sequence_number others = ks" unfolding xs(2) [symmetric] others_def by (simp add: fc_seq_def)
  have others_S: "set others \<subseteq> S" using xs(3) inv by (auto simp: others_def fec_inv_def cached_ok_def)
  have "seen es = fst ` set es - {s}" using s only seen_subset [of es] by blast
  then have seqs': "sequence_number ` set others = sequence_number ` set (G ?q) - {s}"
    using arg_cong [OF seqs, of set] ks(2) es(2) by simp
  then have "sequence_number ` set (p # others) = sequence_number ` set (G ?q)" using p by auto
  moreover have "set (p # others) \<subseteq> S" using others_S p(1) grp(1) by auto
  ultimately have "set (p # others) = set (G ?q)" using world_same_numbers [OF w _ grp(1)] by blast
  moreover have "distinct (p # others)" using ks(1) seqs seqs' p(2) by (auto simp: distinct_map)
  moreover have "distinct (G ?q)" using grp(2) by (simp add: protects_group_def)
  ultimately have perm: "mset (G ?q) = mset (p # others)" by (metis distinct_mset)
  have "map fc_rtp_buffer xs = map rtp_image others"
    using xs(3) inv by (auto simp: others_def fec_inv_def cached_ok_def)
  then have "FecRecoverPacket (Some c) j (fc_rtp_buffer x) s (map fc_rtp_buffer xs)
      = (Ok (Some (new_cached j p (rtp_image p))) :: ('e, fec_cached option) outcome)"
    using recover_group [OF grp(2) perm] q(2) p(2) by simp
  moreover have "stream_media c p" using grp(2) p(1) by (auto simp: protects_group_def)
  ultimately show ?thesis using media p grp(1) by (intro that [of xs p]) auto
qed

lemma insert_recovered_step:
  assumes w: "fec_world b c G S" and inv: "fec_inv c G S d" and x: "x \<in> set (fd_cached_packets d)"
    and p: "p \<in> S" "stream_media c p"
  defines "d' \<equiv> insert_recovered (fc_id x) (new_cached (fd_next_id d) p (rtp_image p)) d"
  shows "fec_inv c G S d'" and "grows d d'" and "p \<in> structs d'"
    and "y \<in> set (fd_cached_packets d) \<Longrightarrow> y \<noteq> x \<Longrightarrow> y \<in> set (fd_cached_packets d')"
    and "\<exists>x' \<in> set (fd_cached_packets d'). fc_id x' = fc_id x \<and> fc_is_fec x' = fc_is_fec x"
    and "structs d' \<subseteq> insert p (structs d)"
proof -
  let ?new = "new_cached (fd_next_id d) p (rtp_image p)"
  have new: "cached_ok c G S e ?new" "fc_id ?new = fd_next_id d" "fc_seq ?new = sequence_number p" for e
    using p by (simp_all add: cached_ok_def new_cached_def stream_media_def fc_seq_def)
  have "fec_inv c G S d' \<and> grows d d' \<and> p \<in> structs d' \<and> structs d' \<subseteq> insert p (structs d)
    \<and> (\<forall>y \<in> set (fd_cached_packets d). y \<noteq> x \<longrightarrow> y \<in> set (fd_cached_packets d'))
    \<and> (\<exists>x' \<in> set (fd_cached_packets d'). fc_id x' = fc_id x \<and> fc_is_fec x' = fc_is_fec x)"
  proof (cases "find_position (sequence_number p) (fd_cached_packets d)")
    case None
    then have "d' = d" by (simp add: d'_def insert_recovered_def new)
    then show ?thesis using inv x None find_position_None_iff [OF w inv p(1)] by auto
  next
    case (Some i)
    define d1 where "d1 = d\<lparr>fd_cached_packets := insert_at i ?new (fd_cached_packets d), fd_next_id := fd_next_id d + 1\<rparr>"
    let ?f = "\<lambda>y :: fec_cached. y\<lparr>fc_invalid_fec := True\<rparr>"
    have d1: "fec_inv c G S d1" "set (fd_cached_packets d1) = insert ?new (set (fd_cached_packets d))"
      using insert_entry_inv [OF w inv new(1,2)] Some unfolding d1_def new(3) by simp_all
    have d': "d' = fc_update (fc_id x) ?f d1" using Some by (simp add: d'_def insert_recovered_def new d1_def)
    have x1: "x \<in> set (fd_cached_packets d1)" using x d1(2) by simp
    have f: "keeps_packet ?f" by (simp add: keeps_packet_def)
    have "entry_ok d1 (G (fc_rtp_struct x)) (fc_protected (?f x)) (fc_media_packets (?f x))" if "fc_is_fec x"
      using that d1(1) x1 by (auto simp: fec_inv_def cached_ok_def)
    note u = update_entry_inv [OF w d1(1) x1 f this, folded d']
    have "grows d d1" "p \<in> structs d1" "structs d1 \<subseteq> insert p (structs d)"
      unfolding grows_def structs_def d1(2) by (auto simp: d1_def new_cached_def)
    then show ?thesis using u(1,2,3,5) grows_trans d1(2) u(4) by (auto intro!: bexI [of _ "?f x"])
  qed
  then show "fec_inv c G S d'" "grows d d'" "p \<in> structs d'"
    "y \<in> set (fd_cached_packets d) \<Longrightarrow> y \<noteq> x \<Longrightarrow> y \<in> set (fd_cached_packets d')"
    "\<exists>x' \<in> set (fd_cached_packets d'). fc_id x' = fc_id x \<and> fc_is_fec x' = fc_is_fec x"
    "structs d' \<subseteq> insert p (structs d)"
    by blast+
qed

text \<open>The scan of an entry, written back into it.\<close>

definition scanned :: "u16 \<Rightarrow> fec_decoder \<Rightarrow> fec_cached \<Rightarrow> scan_result" where
  "scanned lst d x = scan_protected (fd_has_output d) (fd_seq_last_output d) lst (fd_cached_packets d)
     (fc_protected x) (fc_media_packets x)"

definition note_scan :: "scan_result \<Rightarrow> fec_cached \<Rightarrow> fec_cached" where
  "note_scan r x = x\<lparr>fc_protected := sr_protected r, fc_media_packets := sr_media r,
     fc_invalid_fec := fc_invalid_fec x \<or> sr_invalid_fec r\<rparr>"

lemma scanned_entry:
  assumes "entry_ok d grp (fc_protected x) (fc_media_packets x)"
  shows "entry_ok d grp (sr_protected (scanned lst d x)) (sr_media (scanned lst d x))"
proof -
  obtain ks where e: "distinct (map fst (fc_protected x))" "fst ` set (fc_protected x) = sequence_number ` set grp"
    and ks: "distinct ks" "set ks = seen (fc_protected x)" "list_all2 (points d) ks (fc_media_packets x)"
    using assms by (auto simp: entry_ok_def)
  obtain new ids where n: "sr_media (scanned lst d x) = fc_media_packets x @ ids" "list_all2 (refers (fd_cached_packets d)) new ids"
    "map fst (sr_protected (scanned lst d x)) = map fst (fc_protected x)"
    "seen (sr_protected (scanned lst d x)) = seen (fc_protected x) \<union> set new" "distinct new" "set new \<inter> seen (fc_protected x) = {}"
    using scan_pointers [OF e(1), of "fd_has_output d" "fd_seq_last_output d" lst "fd_cached_packets d" "fc_media_packets x"]
    by (auto simp: scanned_def Let_def)
  have "list_all2 (points d) new ids" by (rule list_all2_mono [OF n(2)]) (simp add: points_def)
  then have "list_all2 (points d) (ks @ new) (sr_media (scanned lst d x))" unfolding n(1) by (rule list_all2_appendI [OF ks(3)])
  moreover have "distinct (ks @ new)" "set (ks @ new) = seen (sr_protected (scanned lst d x))" using ks n(4-6) by auto
  moreover have "fst ` set (sr_protected (scanned lst d x)) = sequence_number ` set grp"
    using arg_cong [OF n(3), of set] e(2) by simp
  ultimately show ?thesis unfolding entry_ok_def n(3) using e(1) by blast
qed

text \<open>One round over a FEC packet keeps the invariant, and when of its group only \<open>p\<close> is missing, and
  nothing keeps the code from it, \<open>p\<close> is in the cache afterwards.\<close>

definition about_to_recover ::
  "u16 \<Rightarrow> (rtp_packet \<Rightarrow> rtp_packet list) \<Rightarrow> rtp_packet \<Rightarrow> fec_cached \<Rightarrow> fec_decoder \<Rightarrow> bool" where
  "about_to_recover lst G p x d \<longleftrightarrow> \<not> fc_invalid_fec x \<and> p \<in> set (G (fc_rtp_struct x))
     \<and> (\<forall>q \<in> set (G (fc_rtp_struct x)). \<not> stale d (sequence_number q) \<and> \<not> IsSeqAfter lst (sequence_number q))
     \<and> (\<forall>q \<in> set (G (fc_rtp_struct x)). q \<noteq> p \<longrightarrow> q \<in> structs d)
     \<and> \<not> IsSeqBefore (sequence_number p) (fd_seq_last_output d)
     \<and> (\<exists>y \<in> structs d. IsSeqAfter (sequence_number p) (sequence_number y))"

lemma latest_cached:
  assumes w: "fec_world b c G S" and inv: "fec_inv c G S d" and y: "y \<in> structs d"
  shows "latest_cached_seq d = (Ok (fc_seq (last (fd_cached_packets d))) :: ('e, u16) outcome)"
    and "p \<in> S \<Longrightarrow> \<not> nearer b y p \<Longrightarrow> \<not> IsSeqAfter (fc_seq (last (fd_cached_packets d))) (sequence_number p)"
proof -
  have ne: "fd_cached_packets d \<noteq> []" using y by (auto simp: structs_def)
  then show "latest_cached_seq d = (Ok (fc_seq (last (fd_cached_packets d))) :: ('e, u16) outcome)"
    by (simp add: latest_cached_seq_def)
  assume p: "p \<in> S" "\<not> nearer b y p"
  obtain cs l where cs: "fd_cached_packets d = cs @ [l]" using ne by (cases "fd_cached_packets d" rule: rev_cases) auto
  let ?l = "fc_rtp_struct l"
  have "?l \<in> structs d" using cs by (simp add: structs_def)
  then have in_S: "y \<in> S" "?l \<in> S" using y fec_inv_structs [OF inv] by auto
  have "sorted_wrt IsSeqAfter (map fc_seq (cs @ [l]))" using inv cs by (simp add: fec_inv_def)
  moreover have "y = ?l \<or> y \<in> fc_rtp_struct ` set cs" using y by (auto simp: structs_def cs)
  ultimately have "y = ?l \<or> IsSeqAfter (sequence_number y) (sequence_number ?l)"
    by (auto simp: sorted_wrt_append fc_seq_def)
  then show "\<not> IsSeqAfter (fc_seq (last (fd_cached_packets d))) (sequence_number p)"
    using p world_after [OF w] in_S by (auto simp: fc_seq_def cs)
qed

text \<open>The scan finds that only \<open>p\<close> is missing.\<close>

lemma filter_only:
  assumes "distinct xs" and "s \<in> set xs" and "P s" and "\<And>t. t \<in> set xs \<Longrightarrow> P t \<Longrightarrow> t = s"
  shows "filter P xs = [s]"
  using assms
proof (induction xs)
  case (Cons y ys)
  show ?case
  proof (cases "y = s")
    case True
    have "\<not> P t" if "t \<in> set ys" for t
    proof
      assume "P t"
      then have "t = y" using Cons.prems(4) [of t] that True by simp
      then show False using Cons.prems(1) that by simp
    qed
    then have "filter P ys = []" by (simp add: filter_empty_conv)
    then show ?thesis using True Cons.prems(3) by simp
  next
    case False
    then have "filter P ys = [s]" using Cons.prems by (intro Cons.IH) auto
    moreover have "\<not> P y" using False Cons.prems(4) [of y] by auto
    ultimately show ?thesis by simp
  qed
qed simp

lemma scan_misses_one:
  assumes w: "fec_world b c G S" and inv: "fec_inv c G S d" and x: "x \<in> set (fd_cached_packets d)" "fc_is_fec x"
    and about: "about_to_recover lst G p x d" and new: "p \<notin> structs d"
  shows "sr_valid (scanned lst d x)" and "sr_missing (scanned lst d x) = [sequence_number p]"
proof -
  let ?q = "fc_rtp_struct x" and ?es = "fc_protected x"
  have q: "set (G ?q) \<subseteq> S" using inv x world_packet(7) [OF w] by (auto simp: fec_inv_def cached_ok_def)
  have p: "p \<in> set (G ?q)" using about by (simp add: about_to_recover_def)
  have "entry_ok d (G ?q) ?es (fc_media_packets x)" using inv x by (auto simp: fec_inv_def cached_ok_def)
  then obtain ks where es: "distinct (map fst ?es)" "fst ` set ?es = sequence_number ` set (G ?q)"
    and ks: "set ks = seen ?es" "list_all2 (points d) ks (fc_media_packets x)" by (auto simp: entry_ok_def)
  have cached: "fc_seq ` set (fd_cached_packets d) = sequence_number ` structs d" by (auto simp: structs_def fc_seq_def)
  have inj: "y = z" if "y \<in> S" "z \<in> S" "sequence_number y = sequence_number z" for y z
    using w that by (auto simp: fec_world_def inj_on_def)
  have p_new: "sequence_number p \<notin> sequence_number ` structs d"
    using inj new p q fec_inv_structs [OF inv] by blast
  have go: "\<forall>s \<in> fst ` set ?es. \<not> stale d s \<and> \<not> IsSeqAfter lst s"
    using about unfolding es(2) by (auto simp: about_to_recover_def)
  then have all: "sr_valid (scanned lst d x)"
    "seen (sr_protected (scanned lst d x)) = seen ?es \<union> (fst ` set ?es \<inter> sequence_number ` structs d)"
    using scan_all [of ?es "fd_has_output d" "fd_seq_last_output d" lst "fd_cached_packets d" "fc_media_packets x"]
    unfolding scanned_def [symmetric] cached by (auto simp: stale_def)
  show "sr_valid (scanned lst d x)" by (rule all(1))
  have missing: "sr_missing (scanned lst d x) = filter (\<lambda>s. s \<notin> seen (sr_protected (scanned lst d x))) (map fst ?es)"
    using scan_valid [OF es(1)] all(1) unfolding scanned_def by blast
  have "sequence_number p \<notin> seen ?es"
  proof
    assume s: "sequence_number p \<in> seen ?es"
    then obtain n where "n < length ks" "ks ! n = sequence_number p" using ks(1) by (metis in_set_conv_nth)
    then have "points d (sequence_number p) (fc_media_packets x ! n)" using list_all2_nthD [OF ks(2)] by metis
    then have "refers (fd_cached_packets d) (sequence_number p) (fc_media_packets x ! n)" using about p by (auto simp: points_def about_to_recover_def)
    then show False using p_new unfolding cached [symmetric] refers_def by force
  qed
  then have p_missing: "sequence_number p \<notin> seen (sr_protected (scanned lst d x))" unfolding all(2) using p_new by blast
  have only: "t = sequence_number p" if t: "t \<in> fst ` set ?es" "t \<notin> seen (sr_protected (scanned lst d x))" for t
  proof -
    obtain y where y: "y \<in> set (G ?q)" "t = sequence_number y" using t(1) es(2) by auto
    then have "y \<notin> structs d" using t all(2) by auto
    then show ?thesis using about y by (auto simp: about_to_recover_def)
  qed
  have "sequence_number p \<in> fst ` set ?es" using p es(2) by simp
  then show "sr_missing (scanned lst d x) = [sequence_number p]"
    unfolding missing by (intro filter_only [OF es(1)] only) (use p_missing in simp_all)
qed

text \<open>The decoder after the scan of an entry, and the round over that entry from there on.\<close>

definition scan_noted :: "u16 \<Rightarrow> fec_cached \<Rightarrow> fec_decoder \<Rightarrow> fec_decoder" where
  "scan_noted lst x d = fc_update (fc_id x) (note_scan (scanned lst d x)) d"

lemma recover_from_scanned:
  assumes "fc_deref d (fc_id x) = (Ok x :: ('e, fec_cached) outcome)" and "\<not> fc_invalid_fec x"
  shows "recover_from lst (fc_id x) d = (let r = scanned lst d x; d1 = scan_noted lst x d; s = hd (sr_missing r) in
      if \<not> sr_valid r \<or> length (sr_missing r) \<noteq> 1 then Ok d1 else
       obind (latest_cached_seq d1) (\<lambda>latest.
       if IsSeqBefore s (fd_seq_last_output d1) \<or> IsSeqAfter latest s then Ok d1 else
       obind (omapM (fc_deref d1) (sr_media r)) (\<lambda>media.
       obind (FecRecoverPacket (fd_config d1) (fd_next_id d1) (fc_rtp_buffer x) s (map fc_rtp_buffer media)) (\<lambda>recovered.
         case recovered of None \<Rightarrow> Ok d1 | Some new \<Rightarrow>
           if fc_seq new \<noteq> s then Ok d1 else Ok (insert_recovered (fc_id x) new d1)))) :: ('e, fec_decoder) outcome)"
proof -
  define r where "r = scanned lst d x"
  have ns: "note_scan r = (\<lambda>c. c\<lparr>fc_protected := sr_protected r, fc_media_packets := sr_media r,
    fc_invalid_fec := fc_invalid_fec c \<or> sr_invalid_fec r\<rparr>)" by (rule ext) (simp add: note_scan_def)
  show ?thesis
    unfolding recover_from_def assms(1) obind.simps Let_def scan_noted_def scanned_def [symmetric] r_def [symmetric] ns
      if_not_P [OF assms(2)] ..
qed

lemma scan_noted_step:
  fixes lst :: u16
  assumes w: "fec_world b c G S" and inv: "fec_inv c G S d" and x: "x \<in> set (fd_cached_packets d)" "fc_is_fec x"
  defines "d1 \<equiv> scan_noted lst x d" and "r \<equiv> scanned lst d x"
  shows "fec_inv c G S d1" and "grows d d1" and "structs d1 = structs d" and "note_scan r x \<in> set (fd_cached_packets d1)"
    and "\<And>y. y \<in> set (fd_cached_packets d) \<Longrightarrow> y \<noteq> x \<Longrightarrow> y \<in> set (fd_cached_packets d1)"
    and "entry_ok d1 (G (fc_rtp_struct x)) (sr_protected r) (sr_media r)"
proof -
  have entry: "entry_ok d (G (fc_rtp_struct x)) (fc_protected x) (fc_media_packets x)"
    using inv x by (auto simp: fec_inv_def cached_ok_def)
  have f: "keeps_packet (note_scan r)" by (simp add: keeps_packet_def note_scan_def)
  have entry1: "entry_ok d (G (fc_rtp_struct x)) (sr_protected r) (sr_media r)" unfolding r_def by (rule scanned_entry [OF entry])
  then have noted: "entry_ok d (G (fc_rtp_struct x)) (fc_protected (note_scan r x)) (fc_media_packets (note_scan r x))"
    by (simp add: note_scan_def)
  have d1: "fc_update (fc_id x) (note_scan r) d = d1" by (simp add: d1_def scan_noted_def r_def)
  note u = update_entry_inv [OF w inv x(1) f noted, unfolded d1]
  show "fec_inv c G S d1" "grows d d1" "structs d1 = structs d" "note_scan r x \<in> set (fd_cached_packets d1)"
    by (rule u(1) u(2) u(3) u(4))+
  show "y \<in> set (fd_cached_packets d1)" if "y \<in> set (fd_cached_packets d)" "y \<noteq> x" for y by (rule u(5) [OF that])
  show "entry_ok d1 (G (fc_rtp_struct x)) (sr_protected r) (sr_media r)" using entry1 by (simp add: entry_ok_def u(8))
qed

text \<open>When the scan misses one number, the round recovers its packet unless one of the two tests stops it.\<close>

definition recovery_stopped :: "u16 \<Rightarrow> fec_decoder \<Rightarrow> bool" where
  "recovery_stopped s d \<longleftrightarrow> IsSeqBefore s (fd_seq_last_output d) \<or> IsSeqAfter (fc_seq (last (fd_cached_packets d))) s"

lemma one_missing_run:
  assumes w: "fec_world b c G S" and inv: "fec_inv c G S d" and x: "x \<in> set (fd_cached_packets d)" "fc_is_fec x" "\<not> fc_invalid_fec x"
    and r: "sr_valid (scanned lst d x)" "sr_missing (scanned lst d x) = [s]"
  obtains q where "q \<in> S" and "stream_media c q" and "sequence_number q = s"
    and "recover_from lst (fc_id x) d = (let d1 = scan_noted lst x d in
      Ok (if recovery_stopped s d1 then d1 else insert_recovered (fc_id x) (new_cached (fd_next_id d1) q (rtp_image q)) d1) :: ('e, fec_decoder) outcome)"
proof -
  define r where "r = scanned lst d x"
  define d1 where "d1 = scan_noted lst x d"
  note u = scan_noted_step [OF w inv x(1,2), where lst = lst, folded r_def, folded d1_def]
  let ?x = "note_scan r x" and ?es = "sr_protected r"
  have x1: "fc_is_fec ?x" "fc_rtp_struct ?x = fc_rtp_struct x" "fc_rtp_buffer ?x = fc_rtp_buffer x"
    using x(2) by (simp_all add: note_scan_def)
  have old: "distinct (map fst (fc_protected x))" using inv x by (auto simp: fec_inv_def cached_ok_def entry_ok_def)
  have keys: "map fst ?es = map fst (fc_protected x)"
    using scan_pointers [OF old, of "fd_has_output d" "fd_seq_last_output d" lst "fd_cached_packets d" "fc_media_packets x"]
    by (auto simp: r_def scanned_def Let_def)
  have valid: "\<forall>t \<in> fst ` set (fc_protected x). \<not> stale d t" "filter (\<lambda>t. t \<notin> seen ?es) (map fst ?es) = [s]"
    using scan_valid [OF old, of "fd_has_output d" "fd_seq_last_output d" lst "fd_cached_packets d" "fc_media_packets x"] r
    unfolding keys by (auto simp: r_def scanned_def stale_def)
  have live: "\<forall>t \<in> fst ` set ?es. \<not> stale d1 t" using valid(1) grows_stale [OF u(2)] arg_cong [OF keys, of set] by auto
  obtain ks where es: "distinct (map fst ?es)" "fst ` set ?es = sequence_number ` set (G (fc_rtp_struct ?x))"
    and ks: "distinct ks" "set ks = seen ?es" "list_all2 (points d1) ks (sr_media r)"
    using u(6) unfolding entry_ok_def x1(2) by blast
  obtain xs q where rec: "omapM (fc_deref d1) (sr_media r) = (Ok xs :: ('e, fec_cached list) outcome)"
    "FecRecoverPacket (Some c) (fd_next_id d1) (fc_rtp_buffer ?x) s (map fc_rtp_buffer xs)
      = (Ok (Some (new_cached (fd_next_id d1) q (rtp_image q))) :: ('e, fec_cached option) outcome)"
    and q: "q \<in> S" "stream_media c q" "sequence_number q = s"
    using missing_recovered [OF w u(1,4) x1(1) ks es live valid(2), of "fd_next_id d1"] by metis
  have cfg: "fd_config d1 = Some c" using u(1) by (simp add: fec_inv_def)
  have seq: "fc_seq (new_cached (fd_next_id d1) q (rtp_image q)) = s" using q(3) by (simp add: fc_seq_def new_cached_def)
  have "fc_rtp_struct ?x \<in> structs d1" using u(4) by (simp add: structs_def)
  note latest = latest_cached(1) [OF w u(1) this, where 'e = 'e]
  have "recover_from lst (fc_id x) d = (Ok (if recovery_stopped s d1 then d1
      else insert_recovered (fc_id x) (new_cached (fd_next_id d1) q (rtp_image q)) d1) :: ('e, fec_decoder) outcome)"
    using r latest rec(1) rec(2) [unfolded x1(3)] cfg seq
    unfolding recover_from_scanned [OF fc_deref_cached [OF inv x(1)] x(3)] r_def [symmetric] d1_def [symmetric] Let_def
    by (simp add: recovery_stopped_def)
  then show ?thesis using q unfolding d1_def by (intro that [of q]) (simp_all add: Let_def)
qed

lemma recovery_step:
  assumes w: "fec_world b c G S" and inv: "fec_inv c G S d" and x: "x \<in> set (fd_cached_packets d)" "fc_is_fec x"
    and s: "sr_missing (scanned lst d x) = [s]" and q: "q \<in> S" "stream_media c q" "sequence_number q = s"
  defines "d1 \<equiv> scan_noted lst x d"
  defines "d' \<equiv> if recovery_stopped s d1 then d1 else insert_recovered (fc_id x) (new_cached (fd_next_id d1) q (rtp_image q)) d1"
  shows "fec_inv c G S d'" and "grows d d'" and "bounded b d d'"
    and "\<And>y. y \<in> set (fd_cached_packets d) \<Longrightarrow> y \<noteq> x \<Longrightarrow> y \<in> set (fd_cached_packets d')"
    and "\<exists>x' \<in> set (fd_cached_packets d'). fc_id x' = fc_id x \<and> fc_is_fec x'"
    and "\<And>p. about_to_recover lst G p x d \<Longrightarrow> p \<in> structs d'"
proof -
  let ?x = "note_scan (scanned lst d x) x"
  note u = scan_noted_step [OF w inv x, where lst = lst, folded d1_def]
  have x1: "fc_id ?x = fc_id x" "fc_is_fec ?x" using x(2) by (simp_all add: note_scan_def)
  define d2 where "d2 = insert_recovered (fc_id x) (new_cached (fd_next_id d1) q (rtp_image q)) d1"
  have d': "d' = (if recovery_stopped s d1 then d1 else d2)" by (simp add: d'_def d2_def)
  note ins = insert_recovered_step [OF w u(1,4) q(1,2), unfolded x1(1), folded d2_def]
  show "fec_inv c G S d'" "grows d d'" using u(1,2) ins(1,2) grows_trans by (simp_all add: d')
  have "\<exists>y \<in> structs d. \<not> nearer b y q" if "\<not> recovery_stopped s d1"
  proof -
    let ?l = "fc_rtp_struct (last (fd_cached_packets d1))"
    have "?l \<in> structs d1" using u(4) unfolding structs_def by (metis empty_iff empty_set image_eqI last_in_set)
    moreover have "\<not> IsSeqAfter (sequence_number ?l) (sequence_number q)" using that q(3) by (simp add: recovery_stopped_def fc_seq_def)
    ultimately show ?thesis using world_after [OF w _ q(1)] fec_inv_structs [OF u(1)] u(3) by blast
  qed
  then show "bounded b d d'" using ins(6) u(3) by (auto simp: bounded_def d')
  show "y \<in> set (fd_cached_packets d')" if "y \<in> set (fd_cached_packets d)" "y \<noteq> x" for y
  proof -
    have "y \<noteq> ?x" using cached_unique [OF inv that(1) x(1)] that(2) x1(1) by metis
    then show ?thesis using u(5) [OF that] ins(4) by (simp add: d')
  qed
  show "\<exists>x' \<in> set (fd_cached_packets d'). fc_id x' = fc_id x \<and> fc_is_fec x'" using u(4) x1 ins(5) by (auto simp: d')
  show "p \<in> structs d'" if a: "about_to_recover lst G p x d" for p
  proof (cases "p \<in> structs d")
    case True
    then show ?thesis using u(3) ins(2) by (auto simp: d' grows_def)
  next
    case False
    have p: "sequence_number p = s" using scan_misses_one(2) [OF w inv x a False] s by simp
    have "p \<in> S" using a inv x world_packet(7) [OF w] by (auto simp: about_to_recover_def fec_inv_def cached_ok_def)
    then have "p = q" using w p q by (auto simp: fec_world_def inj_on_def)
    moreover obtain y where y: "y \<in> structs d1" "IsSeqAfter s (sequence_number y)" "\<not> IsSeqBefore s (fd_seq_last_output d1)"
      using a p u(2,3) by (auto simp: about_to_recover_def grows_def)
    then have "\<not> nearer b y q" using world_after [OF w q(1), of y] fec_inv_structs [OF u(1)] q(3) by auto
    then have "\<not> recovery_stopped s d1" using latest_cached(2) [OF w u(1) y(1) q(1)] q(3) y(3) by (simp add: recovery_stopped_def)
    ultimately show ?thesis using ins(3) by (simp add: d')
  qed
qed

lemma recover_from_step:
  assumes w: "fec_world b c G S" and inv: "fec_inv c G S d" and x: "x \<in> set (fd_cached_packets d)" "fc_is_fec x"
  obtains d' where "recover_from lst (fc_id x) d = (Ok d' :: ('e, fec_decoder) outcome)" and "fec_inv c G S d'"
    and "grows d d'" and "bounded b d d'"
    and "\<And>y. y \<in> set (fd_cached_packets d) \<Longrightarrow> y \<noteq> x \<Longrightarrow> y \<in> set (fd_cached_packets d')"
    and "\<exists>x' \<in> set (fd_cached_packets d'). fc_id x' = fc_id x \<and> fc_is_fec x'"
    and "\<And>p. about_to_recover lst G p x d \<Longrightarrow> p \<in> structs d'"
proof (cases "fc_invalid_fec x")
  case True
  then have "recover_from lst (fc_id x) d = (Ok d :: ('e, fec_decoder) outcome)"
    using fc_deref_cached [OF inv x(1), where 'a = 'e] by (simp add: recover_from_def)
  then show ?thesis using True inv x by (intro that [of d]) (auto simp: about_to_recover_def)
next
  case live: False
  define r where "r = scanned lst d x"
  define d1 where "d1 = scan_noted lst x d"
  note u = scan_noted_step [OF w inv x, where lst = lst, folded r_def, folded d1_def]
  have x1: "fc_id (note_scan r x) = fc_id x" "fc_is_fec (note_scan r x)" using x(2) by (simp_all add: note_scan_def)
  show ?thesis
  proof (cases "sr_valid r \<and> length (sr_missing r) = 1")
    case False
    then have "recover_from lst (fc_id x) d = (Ok d1 :: ('e, fec_decoder) outcome)"
      unfolding recover_from_scanned [OF fc_deref_cached [OF inv x(1)] live] Let_def r_def [symmetric] d1_def [symmetric]
      by (intro if_P) blast
    moreover have "p \<in> structs d1" if "about_to_recover lst G p x d" for p
    proof (rule ccontr)
      assume "p \<notin> structs d1"
      then show False using scan_misses_one [OF w inv x that, folded r_def] False u(3) by simp
    qed
    moreover have "bounded b d d1" by (auto simp: bounded_def u(3))
    ultimately show ?thesis by (intro that [of d1] u(1,2,5) bexI [OF _ u(4)] conjI x1) assumption+
  next
    case True
    then obtain s where s: "sr_valid (scanned lst d x)" "sr_missing (scanned lst d x) = [s]"
      by (cases "sr_missing r") (auto simp: r_def)
    obtain q where q: "q \<in> S" "stream_media c q" "sequence_number q = s"
      and run: "recover_from lst (fc_id x) d = (Ok (if recovery_stopped s d1 then d1
        else insert_recovered (fc_id x) (new_cached (fd_next_id d1) q (rtp_image q)) d1) :: ('e, fec_decoder) outcome)"
      by (rule one_missing_run [OF w inv x live s, where 'e = 'e, folded d1_def, unfolded Let_def]) (rule that)
    note step = recovery_step [OF w inv x s(2) q, folded d1_def]
    show ?thesis by (rule that [OF run step(1-3) step(4) step(5) step(6)])
  qed
qed

lemma about_to_recover_grows: "grows d d' \<Longrightarrow> about_to_recover lst G p x d \<Longrightarrow> about_to_recover lst G p x d'"
  unfolding about_to_recover_def by (auto simp: grows_def stale_def)

lemma recover_all:
  assumes w: "fec_world b c G S" and inv: "fec_inv c G S d" and ids: "distinct ids"
    and fec: "\<forall>i \<in> set ids. \<exists>x \<in> set (fd_cached_packets d). fc_id x = i \<and> fc_is_fec x"
  obtains d' where "ofold (recover_from lst) ids d = (Ok d' :: ('e, fec_decoder) outcome)" and "fec_inv c G S d'"
    and "grows d d'" and "bounded b d d'"
    and "\<And>x p. x \<in> set (fd_cached_packets d) \<Longrightarrow> fc_id x \<in> set ids \<Longrightarrow> about_to_recover lst G p x d \<Longrightarrow> p \<in> structs d'"
  using inv ids fec
proof (induction ids arbitrary: d thesis)
  case Nil
  then show ?case by auto
next
  case (Cons i ids)
  obtain x where x: "x \<in> set (fd_cached_packets d)" "fc_id x = i" "fc_is_fec x" using Cons.prems(4) by auto
  obtain d1 where bound1: "bounded b d d1" and d1: "recover_from lst (fc_id x) d = (Ok d1 :: ('e, fec_decoder) outcome)" "fec_inv c G S d1" "grows d d1"
    "\<And>y. y \<in> set (fd_cached_packets d) \<Longrightarrow> y \<noteq> x \<Longrightarrow> y \<in> set (fd_cached_packets d1)"
    "\<And>p. about_to_recover lst G p x d \<Longrightarrow> p \<in> structs d1"
    using recover_from_step [OF w Cons.prems(2) x(1,3), of lst, where 'e = 'e] by metis
  have kept: "y \<in> set (fd_cached_packets d1)" if "y \<in> set (fd_cached_packets d)" "fc_id y \<in> set ids" for y
    using d1(4) [OF that(1)] that(2) x(2) Cons.prems(3) by auto
  then have "\<forall>j \<in> set ids. \<exists>y \<in> set (fd_cached_packets d1). fc_id y = j \<and> fc_is_fec y"
    using Cons.prems(4) by (metis list.set_intros(2))
  then obtain d2 where d2: "ofold (recover_from lst) ids d1 = (Ok d2 :: ('e, fec_decoder) outcome)" "fec_inv c G S d2"
    "grows d1 d2" and bound2: "bounded b d1 d2"
    and found: "\<And>x p. x \<in> set (fd_cached_packets d1) \<Longrightarrow> fc_id x \<in> set ids \<Longrightarrow> about_to_recover lst G p x d1 \<Longrightarrow> p \<in> structs d2"
    using Cons.IH [OF _ d1(2)] Cons.prems(3) by auto
  have "p \<in> structs d2" if y: "y \<in> set (fd_cached_packets d)" "fc_id y \<in> set (i # ids)" "about_to_recover lst G p y d" for y p
  proof (cases "fc_id y = i")
    case True
    then have "y = x" using cached_unique [OF Cons.prems(2) y(1) x(1)] x(2) by simp
    then show ?thesis using d1(5) y(3) d2(3) by (auto simp: grows_def)
  next
    case False
    then show ?thesis using found [OF kept] about_to_recover_grows [OF d1(3)] y by auto
  qed
  moreover have "ofold (recover_from lst) (i # ids) d = (Ok d2 :: ('e, fec_decoder) outcome)" using d1(1) d2(1) x(2) by simp
  ultimately show ?case using d2(2) grows_trans [OF d1(3) d2(3)] bounded_trans [OF bound1 bound2] Cons.prems(1) by blast
qed

lemma RcoverPackets_step:
  assumes w: "fec_world b c G S" and inv: "fec_inv c G S d" and ne: "fd_cached_packets d \<noteq> []"
  obtains d' where "RcoverPackets d = (Ok d' :: ('e, fec_decoder) outcome)" and "fec_inv c G S d'"
    and "grows d d'" and "bounded b d d'"
    and "\<And>x p. x \<in> set (fd_cached_packets d) \<Longrightarrow> fc_is_fec x \<Longrightarrow>
      about_to_recover (fc_seq (last (fd_cached_packets d))) G p x d \<Longrightarrow> p \<in> structs d'"
proof -
  let ?ids = "map fc_id (filter fc_is_fec (fd_cached_packets d))"
  have "distinct ?ids" using inv unfolding fec_inv_def by (metis distinct_map_filter)
  moreover have "\<forall>i \<in> set ?ids. \<exists>x \<in> set (fd_cached_packets d). fc_id x = i \<and> fc_is_fec x" by auto
  ultimately obtain d' where d': "ofold (recover_from (fc_seq (last (fd_cached_packets d)))) ?ids d = (Ok d' :: ('e, fec_decoder) outcome)"
    "fec_inv c G S d'" "grows d d'" "bounded b d d'"
    "\<And>x p. x \<in> set (fd_cached_packets d) \<Longrightarrow> fc_id x \<in> set ?ids \<Longrightarrow>
      about_to_recover (fc_seq (last (fd_cached_packets d))) G p x d \<Longrightarrow> p \<in> structs d'"
    by (rule recover_all [OF w inv, where 'e = 'e]) (rule that)
  have "RcoverPackets d = (Ok d' :: ('e, fec_decoder) outcome)"
    using d'(1) ne by (simp add: RcoverPackets_def latest_cached_seq_def)
  then show ?thesis using d'(2-5) by (intro that [of d']) auto
qed

section \<open>Putting out\<close>

lemma continue_output_copies:
  assumes "\<forall>x \<in> set cs. CreateCopy (fc_rtp_struct x) = Ok (fc_rtp_struct x)"
  obtains k where "continue_output ho sl cs rec = (Ok (rec @ map fc_rtp_struct (take k cs)) :: ('e, rtp_packet list) outcome)"
    and "k > 0 \<longrightarrow> rec = [] \<longrightarrow> ho \<longrightarrow> IsSeqAfter sl (fc_seq (hd cs))"
  using assms
proof (induction cs arbitrary: rec thesis)
  case Nil
  then show ?case by (metis append_Nil2 continue_output.simps(1) less_irrefl list.simps(8) take_Nil)
next
  case (Cons x cs)
  define stop where "stop = (if rec = [] then ho \<and> \<not> IsSeqAfter sl (fc_seq x)
      else \<not> IsNextSeq (sequence_number (last rec)) (fc_seq x))"
  have copy: "CreateCopy (fc_rtp_struct x) = Ok (fc_rtp_struct x)" using Cons.prems(2) by simp
  have step: "continue_output ho sl (x # cs) rec
      = (if stop then Ok rec else continue_output ho sl cs (rec @ [fc_rtp_struct x]) :: ('e, rtp_packet list) outcome)"
    by (simp only: continue_output.simps stop_def copy outcome.case)
  show ?case
  proof (cases stop)
    case True
    then show ?thesis using step by (intro Cons.prems(1) [of 0]) simp_all
  next
    case False
    obtain k where "continue_output ho sl cs (rec @ [fc_rtp_struct x])
        = (Ok ((rec @ [fc_rtp_struct x]) @ map fc_rtp_struct (take k cs)) :: ('e, rtp_packet list) outcome)"
      using Cons.IH [of "rec @ [fc_rtp_struct x]"] Cons.prems(2) by auto
    then show ?thesis using False step by (intro Cons.prems(1) [of "Suc k"]) (auto simp: stop_def)
  qed
qed

text \<open>What an output takes out of the cache: from the part that left the range what is not stale, and a
  run of the rest.\<close>

lemma output_exact:
  assumes "fd_config d = Some c" and "fd_cached_packets d \<noteq> []"
    and "\<forall>x \<in> set (fd_cached_packets d). CreateCopy (fc_rtp_struct x) = Ok (fc_rtp_struct x)"
  obtains gone rest k fresh where "fd_cached_packets d = gone @ rest" and "fresh = filter (\<lambda>x. \<not> stale d (fc_seq x)) gone"
    and "output_packets d [] = (Ok (map fc_rtp_struct (fresh @ take k rest),
        note_output (map fc_rtp_struct (fresh @ take k rest)) (d\<lparr>fd_cached_packets := rest\<rparr>)) :: ('e, rtp_packet list \<times> fec_decoder) outcome)"
    and "k > 0 \<longrightarrow> fresh = [] \<longrightarrow> \<not> stale d (fc_seq (hd rest))"
proof -
  let ?ho = "fd_has_output d" and ?sl = "fd_seq_last_output d" and ?lst = "fc_seq (last (fd_cached_packets d))"
  obtain out rest where drain: "drain ?lst (dec_max_cache_seq_difference c) ?ho ?sl (fd_cached_packets d) = (out, rest)" by fastforce
  obtain gone where gone: "fd_cached_packets d = gone @ rest"
    "out = map fc_rtp_struct (filter (\<lambda>x. \<not> ?ho \<or> IsSeqAfter ?sl (fc_seq x)) gone)"
    using drain_split [OF drain] by blast
  define fresh where "fresh = filter (\<lambda>x. \<not> stale d (fc_seq x)) gone"
  have out: "out = map fc_rtp_struct fresh" unfolding gone(2) fresh_def by (rule arg_cong [where f = "map _"]) (simp add: stale_def)
  have "\<forall>x \<in> set rest. CreateCopy (fc_rtp_struct x) = Ok (fc_rtp_struct x)" using assms(3) gone(1) by simp
  then obtain k where k: "continue_output ?ho ?sl rest out = (Ok (out @ map fc_rtp_struct (take k rest)) :: ('e, rtp_packet list) outcome)"
    "k > 0 \<longrightarrow> out = [] \<longrightarrow> ?ho \<longrightarrow> IsSeqAfter ?sl (fc_seq (hd rest))"
    by (rule continue_output_copies)
  have "output_packets d [] = (Ok (map fc_rtp_struct (fresh @ take k rest),
        note_output (map fc_rtp_struct (fresh @ take k rest)) (d\<lparr>fd_cached_packets := rest\<rparr>)) :: ('e, rtp_packet list \<times> fec_decoder) outcome)"
    using assms(1,2) drain k(1) out by (simp add: output_packets_def latest_cached_seq_def)
  moreover have "k > 0 \<longrightarrow> fresh = [] \<longrightarrow> \<not> stale d (fc_seq (hd rest))" using k(2) out by (simp add: stale_def)
  ultimately show ?thesis by (intro that [OF gone(1) fresh_def])
qed

definition after_output :: "rtp_packet list \<Rightarrow> fec_decoder \<Rightarrow> fec_decoder \<Rightarrow> bool" where
  "after_output out d d' \<longleftrightarrow> (if out = [] then fd_has_output d' = fd_has_output d \<and> fd_seq_last_output d' = fd_seq_last_output d
     else fd_has_output d' \<and> fd_seq_last_output d' = sequence_number (last out))"

lemma fresh_not_stale:
  assumes w: "fec_world b c G S" and inv: "fec_inv c G S d" and cs: "fd_cached_packets d = gone @ rest"
    and fresh: "fresh = filter (\<lambda>x. \<not> stale d (fc_seq x)) gone" and hd: "k > 0 \<longrightarrow> fresh = [] \<longrightarrow> \<not> stale d (fc_seq (hd rest))"
    and x: "x \<in> set (fresh @ take k rest)"
  shows "\<not> stale d (fc_seq x)"
proof
  assume st: "stale d (fc_seq x)"
  then obtain q0 where q0: "q0 \<in> S" "fd_seq_last_output d = sequence_number q0" using inv by (auto simp: stale_def fec_inv_def)
  have in_S: "fc_rtp_struct y \<in> S" if "y \<in> set (gone @ rest)" for y
    using that inv unfolding cs [symmetric] by (auto simp: fec_inv_def cached_ok_def)
  have "IsSeqAfter (fd_seq_last_output d) (fc_seq x)"
  proof (rule fresh_then_rest_after [OF _ _ _ refl _ x])
    show "sorted_wrt (\<lambda>x y. IsSeqAfter (fc_seq x) (fc_seq y)) (gone @ rest)"
      using inv by (simp add: fec_inv_def cs sorted_wrt_map flip: map_append)
    show "\<forall>y \<in> set fresh. y \<in> set gone \<and> IsSeqAfter (fd_seq_last_output d) (fc_seq y)"
      using st by (auto simp: fresh stale_def)
    show "k > 0 \<longrightarrow> fresh = [] \<longrightarrow> IsSeqAfter (fd_seq_last_output d) (fc_seq (hd rest))"
      using hd st by (auto simp: stale_def)
    show "IsSeqAfter (fd_seq_last_output d) (fc_seq z)"
      if "IsSeqAfter (fd_seq_last_output d) (fc_seq y)" "IsSeqAfter (fc_seq y) (fc_seq z)" "y \<in> set (gone @ rest)" "z \<in> set (gone @ rest)" for y z
      using that(1,2) world_after [OF w] q0 in_S [OF that(3)] in_S [OF that(4)] by (auto simp: fc_seq_def)
  qed
  then show False using st by (simp add: stale_def)
qed

lemma output_cut:
  assumes w: "fec_world b c G S" and inv: "fec_inv c G S d" and cs: "fd_cached_packets d = gone @ rest"
    and fresh: "fresh = filter (\<lambda>x. \<not> stale d (fc_seq x)) gone"
  shows "sorted_wrt (\<lambda>x y. nearer b (fc_rtp_struct x) (fc_rtp_struct y)) ((fresh @ take k rest) @ drop k rest)"
proof -
  have in_S: "fc_rtp_struct x \<in> S" if "x \<in> set (gone @ rest)" for x
    using that inv cs by (auto simp: fec_inv_def cached_ok_def)
  have "sorted_wrt (\<lambda>x y. IsSeqAfter (fc_seq x) (fc_seq y)) (gone @ rest)"
    using inv by (simp add: fec_inv_def cs sorted_wrt_map flip: map_append)
  then have "sorted_wrt (\<lambda>x y. nearer b (fc_rtp_struct x) (fc_rtp_struct y)) (gone @ rest)"
    by (rule sorted_wrt_mono_rel [rotated]) (use world_after [OF w] in_S in \<open>auto simp: fc_seq_def\<close>)
  then have "sorted_wrt (\<lambda>x y. nearer b (fc_rtp_struct x) (fc_rtp_struct y)) (gone @ take k rest @ drop k rest)" by simp
  then show ?thesis
    unfolding fresh sorted_wrt_append by (auto intro: sorted_wrt_filter dest: in_set_takeD in_set_dropD)
qed

text \<open>After the output, what was put out and what was stale before is stale; what lies behind it is not.\<close>

lemma after_output_stale:
  assumes w: "fec_world b c G S" and inv: "fec_inv c G S d" and after: "after_output out d d'"
    and order: "sorted_wrt (nearer b) out" and out: "set out \<subseteq> S" "\<forall>q \<in> set out. \<not> stale d (sequence_number q)"
  shows "q \<in> set out \<Longrightarrow> stale d' (sequence_number q)"
    and "q \<in> S \<Longrightarrow> stale d (sequence_number q) \<Longrightarrow> stale d' (sequence_number q)"
    and "q \<in> S \<Longrightarrow> \<not> stale d (sequence_number q) \<Longrightarrow> (out \<noteq> [] \<Longrightarrow> nearer b (last out) q) \<Longrightarrow> \<not> stale d' (sequence_number q)"
    and "fd_has_output d' \<Longrightarrow> fd_seq_last_output d' \<in> sequence_number ` S"
proof -
  have last_S: "last out \<in> S" if "out \<noteq> []" using out(1) that by auto
  have stale': "stale d' (sequence_number q) \<longleftrightarrow> \<not> nearer b (last out) q" if "out \<noteq> []" "q \<in> S" for q
    using after that world_after [OF w last_S [OF that(1)] that(2)] by (simp add: stale_def after_output_def)
  have same: "stale d' s = stale d s" if "out = []" for s using after that by (simp add: stale_def after_output_def)
  show "stale d' (sequence_number q)" if q: "q \<in> set out" for q
  proof -
    have ne: "out \<noteq> []" using q by auto
    have "q = last out \<or> nearer b q (last out)"
      using order q by (cases out rule: rev_cases) (auto simp: sorted_wrt_append)
    then show ?thesis using stale' [OF ne, of q] q out(1) by auto
  qed
  show "stale d' (sequence_number q)" if q: "q \<in> S" "stale d (sequence_number q)" for q
  proof (cases "out = []")
    case False
    obtain q0 where q0: "q0 \<in> S" "fd_seq_last_output d = sequence_number q0" using inv q(2) by (auto simp: stale_def fec_inv_def)
    have "nearer b q0 (last out)"
      using out(2) False q(2) world_after [OF w q0(1) last_S [OF False]] q0(2) by (auto simp: stale_def)
    moreover have "\<not> nearer b q0 q" using q q0 world_after [OF w q0(1) q(1)] by (simp add: stale_def)
    ultimately show ?thesis using stale' [OF False q(1)] by simp
  qed (use same q(2) in simp)
  show "\<not> stale d' (sequence_number q)" if "q \<in> S" "\<not> stale d (sequence_number q)" "out \<noteq> [] \<Longrightarrow> nearer b (last out) q" for q
    using that same stale' by (cases "out = []") simp_all
  show "fd_has_output d' \<Longrightarrow> fd_seq_last_output d' \<in> sequence_number ` S"
    using after last_S inv by (auto simp: after_output_def fec_inv_def split: if_splits)
qed

text \<open>Erasing entries from the front whose numbers are stale afterwards keeps the invariant.\<close>

lemma cut_cache_inv:
  assumes w: "fec_world b c G S" and inv: "fec_inv c G S d" and cs: "fd_cached_packets d = gone @ rest"
    and d': "fd_cached_packets d' = rest" "fd_config d' = Some c" "fd_next_id d' = fd_next_id d"
    and gone: "\<And>x. x \<in> set gone \<Longrightarrow> stale d' (fc_seq x)"
    and st: "\<And>q. q \<in> S \<Longrightarrow> stale d (sequence_number q) \<Longrightarrow> stale d' (sequence_number q)"
    and last: "fd_has_output d' \<Longrightarrow> fd_seq_last_output d' \<in> sequence_number ` S"
  shows "fec_inv c G S d'"
proof -
  have keeps: "points d' s i" if s: "s \<in> sequence_number ` S" "points d s i" for s i
    using s gone st unfolding points_def refers_def d' cs by (metis Un_iff imageE set_append)
  have "cached_ok c G S d' x" if "x \<in> set rest" for x
    by (rule cached_ok_mono [OF w _ keeps, of d]) (use inv that cs in \<open>auto simp: fec_inv_def\<close>)
  then show ?thesis using inv cs d' last by (auto simp: fec_inv_def sorted_wrt_append)
qed

lemma output_step:
  assumes w: "fec_world b c G S" and inv: "fec_inv c G S d" and ne: "fd_cached_packets d \<noteq> []"
  obtains out d' where "output_packets d [] = (Ok (out, d') :: ('e, rtp_packet list \<times> fec_decoder) outcome)"
    and "fec_inv c G S d'" and "after_output out d d'" and "sorted_wrt (nearer b) out" and "set out \<subseteq> structs d"
    and "\<forall>q \<in> set out. \<not> stale d (sequence_number q)"
    and "\<forall>q \<in> structs d. \<not> stale d (sequence_number q) \<longrightarrow> q \<in> set out \<or> q \<in> structs d' \<and> \<not> stale d' (sequence_number q)"
    and "structs d' \<subseteq> structs d"
proof -
  have in_S: "fc_rtp_struct x \<in> S" if "x \<in> set (fd_cached_packets d)" for x
    using that inv by (auto simp: fec_inv_def cached_ok_def)
  have cfg: "fd_config d = Some c" using inv by (simp add: fec_inv_def)
  have copies: "\<forall>x \<in> set (fd_cached_packets d). CreateCopy (fc_rtp_struct x) = Ok (fc_rtp_struct x)"
    using in_S world_packet(4) [OF w] by blast
  obtain gone rest k fresh where cs: "fd_cached_packets d = gone @ rest" and fresh: "fresh = filter (\<lambda>x. \<not> stale d (fc_seq x)) gone"
    and run: "output_packets d [] = (Ok (map fc_rtp_struct (fresh @ take k rest),
        note_output (map fc_rtp_struct (fresh @ take k rest)) (d\<lparr>fd_cached_packets := rest\<rparr>)) :: ('e, rtp_packet list \<times> fec_decoder) outcome)"
    and hd: "k > 0 \<longrightarrow> fresh = [] \<longrightarrow> \<not> stale d (fc_seq (hd rest))"
    by (rule output_exact [OF cfg ne copies, where 'e = 'e]) (rule that)
  define xs where "xs = fresh @ take k rest"
  define out where "out = map fc_rtp_struct xs"
  define d' where "d' = note_output out (d\<lparr>fd_cached_packets := rest\<rparr>)"
  have run': "output_packets d [] = (Ok (out, d') :: ('e, rtp_packet list \<times> fec_decoder) outcome)"
    using run by (simp only: out_def xs_def d'_def)
  have d': "fd_cached_packets d' = rest" "fd_config d' = Some c" "fd_next_id d' = fd_next_id d" "after_output out d d'"
    using cfg by (simp_all add: d'_def note_output_def after_output_def)
  have "set xs \<subseteq> set (gone @ rest)" by (auto simp: xs_def fresh dest: in_set_takeD)
  then have out_facts: "set out \<subseteq> structs d" "\<forall>q \<in> set out. \<not> stale d (sequence_number q)" "set out \<subseteq> S"
    using cs in_S fresh_not_stale [OF w inv cs fresh hd] by (auto simp: out_def xs_def structs_def fc_seq_def)
  have order: "sorted_wrt (nearer b) out" "\<And>y. y \<in> set (drop k rest) \<Longrightarrow> out \<noteq> [] \<Longrightarrow> nearer b (last out) (fc_rtp_struct y)"
    using output_cut [OF w inv cs fresh, of k] unfolding xs_def [symmetric]
    by (auto simp: out_def sorted_wrt_map sorted_wrt_append last_map)
  note st = after_output_stale [OF w inv d'(4) order(1) out_facts(3,2)]
  have gone_stale: "stale d' (fc_seq x)" if x: "x \<in> set gone" for x
    using x cs in_S st(1,2) [of "fc_rtp_struct x"] by (cases "stale d (fc_seq x)") (auto simp: fc_seq_def out_def xs_def fresh)
  have inv': "fec_inv c G S d'" by (rule cut_cache_inv [OF w inv cs d'(1-3) gone_stale st(2,4)])
  have "q \<in> set out \<or> q \<in> structs d' \<and> \<not> stale d' (sequence_number q)"
    if q: "q \<in> structs d" "\<not> stale d (sequence_number q)" for q
  proof -
    have "set rest = set (take k rest) \<union> set (drop k rest)" by (metis append_take_drop_id set_append)
    then obtain x where x: "x \<in> set gone \<or> x \<in> set (take k rest) \<or> x \<in> set (drop k rest)" "q = fc_rtp_struct x"
      using q(1) cs unfolding structs_def by auto
    then consider "q \<in> set out" | "x \<in> set (drop k rest)" using q(2) by (auto simp: out_def xs_def fresh fc_seq_def)
    then show ?thesis
    proof cases
      case 2
      have "\<not> stale d' (sequence_number q)"
        using st(3) [OF _ q(2)] q(1) fec_inv_structs [OF inv] order(2) [OF 2] x(2) by auto
      then show ?thesis using 2 x(2) d'(1) by (auto simp: structs_def dest: in_set_dropD)
    qed simp
  qed
  moreover have "structs d' \<subseteq> structs d" by (auto simp: structs_def d'(1) cs)
  ultimately show ?thesis by (intro that [OF run' inv' d'(4) order(1) out_facts(1,2)]) blast+
qed

end
