(* ===== verification/Fec_Application.thy ===== *)
theory Fec_Application
  imports Fec_Stream
begin

text \<open>
  FEC as an application uses it: \<open>test/test_sender_with_fec/main.cc\<close>, which sends each frame with its FEC packets, and
  \<open>test/test_receiver_with_fec/main.cc\<close>, which decodes what its session hands over. The two programs against each other,
  alone and over the network of \<open>Lossy_Network\<close>.
\<close>

section \<open>One call of Decode\<close>

lemma CachePackets_structs:
  assumes "\<And>x. x \<in> set (fd_cached_packets d') \<Longrightarrow> x \<notin> set (fd_cached_packets d) \<Longrightarrow> fc_rtp_struct x \<in> set ps \<and> \<not> fc_invalid_fec x"
  shows "structs d' \<subseteq> structs d \<union> set ps"
  using assms by (force simp: structs_def)

text \<open>A batch repairs \<open>p\<close> when it brings a FEC packet of whose group \<open>p\<close> alone is missing. The code also
  asks that \<open>p\<close> is not before the last output, even when there has been none, and that the cache ends
  behind \<open>p\<close>.\<close>

definition repairs ::
  "fec_decoder_config \<Rightarrow> (rtp_packet \<Rightarrow> rtp_packet list) \<Rightarrow> rtp_packet list \<Rightarrow> fec_decoder \<Rightarrow> rtp_packet \<Rightarrow> bool" where
  "repairs c G ps d p \<longleftrightarrow> (\<exists>f \<in> set ps. f \<notin> structs d \<and> payload_type f = dec_payload_type c \<and> \<not> stale d (sequence_number f)
     \<and> p \<in> set (G f) \<and> (\<forall>q \<in> set (G f). \<not> stale d (sequence_number q) \<and> (q \<noteq> p \<longrightarrow> q \<in> set ps \<union> structs d)))
     \<and> \<not> IsSeqBefore (sequence_number p) (fd_seq_last_output d)
     \<and> (\<exists>y \<in> set ps \<union> structs d. \<not> stale d (sequence_number y) \<and> IsSeqAfter (sequence_number p) (sequence_number y))"

lemma repairs_about:
  assumes w: "fec_world b c G S" and inv: "fec_inv c G S d1" and g: "grows d d1"
    and old: "set (fd_cached_packets d) \<subseteq> set (fd_cached_packets d1)"
    and new: "\<And>x. x \<in> set (fd_cached_packets d1) \<Longrightarrow> x \<notin> set (fd_cached_packets d) \<Longrightarrow> fc_rtp_struct x \<in> set ps \<and> \<not> fc_invalid_fec x"
    and got: "\<And>p. p \<in> set ps \<union> structs d \<Longrightarrow> \<not> stale d (sequence_number p) \<Longrightarrow> p \<in> structs d1"
    and rep: "repairs c G ps d p"
  obtains x where "x \<in> set (fd_cached_packets d1)" and "fc_is_fec x"
    and "about_to_recover (fc_seq (last (fd_cached_packets d1))) G p x d1" and "p \<in> S" and "\<not> stale d (sequence_number p)"
proof -
  obtain f where f: "f \<in> set ps" "f \<notin> structs d" "payload_type f = dec_payload_type c" "\<not> stale d (sequence_number f)" "p \<in> set (G f)"
    "\<And>q. q \<in> set (G f) \<Longrightarrow> \<not> stale d (sequence_number q) \<and> (q \<noteq> p \<longrightarrow> q \<in> structs d1)"
    using rep got unfolding repairs_def by blast
  obtain y where y: "y \<in> structs d1" "IsSeqAfter (sequence_number p) (sequence_number y)"
    using rep got unfolding repairs_def by blast
  obtain x where x: "x \<in> set (fd_cached_packets d1)" "fc_rtp_struct x = f" using got [of f] f(1,4) by (auto simp: structs_def)
  have "x \<notin> set (fd_cached_packets d)" using f(2) x(2) by (auto simp: structs_def)
  then have live: "\<not> fc_invalid_fec x" using new x(1) by blast
  have fec: "fc_is_fec x" using inv x f(3) by (auto simp: fec_inv_def cached_ok_def)
  have "f \<in> S" using x fec_inv_structs [OF inv] by (auto simp: structs_def)
  then have grp: "set (G f) \<subseteq> S" using world_packet(7) [OF w _ f(3)] by blast
  have "\<not> IsSeqAfter (fc_seq (last (fd_cached_packets d1))) (sequence_number q)" if q: "q \<in> set (G f)" for q
  proof (cases "q = p")
    case True
    have "p \<in> S" "y \<in> S" using y(1) fec_inv_structs [OF inv] grp f(5) by blast+
    then have "\<not> nearer b y p" using world_after [OF w, of p y] y(2) by simp
    then show ?thesis using latest_cached(2) [OF w inv y(1)] True grp q by blast
  next
    case False
    then show ?thesis using latest_cached(2) [OF w inv, of q q] f(6) [OF q] grp q by auto
  qed
  then have "about_to_recover (fc_seq (last (fd_cached_packets d1))) G p x d1"
    using live x(2) f(5,6) y rep g unfolding about_to_recover_def by (auto simp: grows_def stale_def repairs_def)
  then show ?thesis using that x(1) fec grp f(5,6) by blast
qed

text \<open>A call either meets an empty cache, when every packet it got was stale, or succeeds. Then it puts out
  packets of the stream in order, and what it got or had cached and did not put out stays in the cache.\<close>

lemma FecDecode_step:
  assumes w: "fec_world b c G S" and inv: "fec_inv c G S d" and ps: "set ps \<subseteq> S"
  obtains (empty) "FecDecode fill ps [] d = Crash Empty_Container" and "structs d = {}"
      and "\<forall>p \<in> set ps. stale d (sequence_number p)"
    | (ok) out d' where "FecDecode fill ps [] d = Ok (out, d')" and "fec_inv c G S d'" and "after_output out d d'"
      and "sorted_wrt (nearer b) out" and "set out \<subseteq> S" and "\<forall>q \<in> set out. \<not> stale d (sequence_number q)"
      and "\<forall>q \<in> set ps \<union> structs d. \<not> stale d (sequence_number q) \<longrightarrow> q \<in> set out \<or> q \<in> structs d' \<and> \<not> stale d' (sequence_number q)"
      and "\<forall>q \<in> set out \<union> structs d'. \<exists>y \<in> set ps \<union> structs d. \<not> nearer b y q"
      and "\<forall>q. repairs c G ps d q \<longrightarrow> q \<in> set out \<or> q \<in> structs d' \<and> \<not> stale d' (sequence_number q)"
proof -
  obtain d1 where d1: "CachePackets fill ps d = Ok d1" "fec_inv c G S d1" "grows d d1"
    "set (fd_cached_packets d) \<subseteq> set (fd_cached_packets d1)"
    "\<And>x. x \<in> set (fd_cached_packets d1) \<Longrightarrow> x \<notin> set (fd_cached_packets d) \<Longrightarrow> fc_rtp_struct x \<in> set ps \<and> \<not> fc_invalid_fec x"
    "\<And>p. p \<in> set ps \<Longrightarrow> \<not> stale d (sequence_number p) \<Longrightarrow> p \<in> structs d1"
    by (rule CachePackets_step [OF w inv ps, of fill]) (rule that)
  have new: "structs d1 \<subseteq> structs d \<union> set ps" by (rule CachePackets_structs [OF d1(5)])
  show ?thesis
  proof (cases "fd_cached_packets d1 = []")
    case True
    then have "FecDecode fill ps [] d = Crash Empty_Container"
      using d1(1) by (simp add: FecDecode_def RcoverPackets_def latest_cached_seq_def)
    moreover have "structs d1 = {}" using True by (simp add: structs_def)
    ultimately show ?thesis using empty d1(3,6) by (auto simp: grows_def)
  next
    case False
    obtain d2 where d2: "RcoverPackets d1 = (Ok d2 :: (fec_error, fec_decoder) outcome)" "fec_inv c G S d2" "grows d1 d2" "bounded b d1 d2"
      "\<And>x p. x \<in> set (fd_cached_packets d1) \<Longrightarrow> fc_is_fec x \<Longrightarrow>
        about_to_recover (fc_seq (last (fd_cached_packets d1))) G p x d1 \<Longrightarrow> p \<in> structs d2"
      by (rule RcoverPackets_step [OF w d1(2) False, where 'e = fec_error]) (rule that)
    have "fd_cached_packets d2 \<noteq> []" using d2(3) False by (auto simp: grows_def structs_def)
    then obtain out d3 where d3: "output_packets d2 [] = (Ok (out, d3) :: (fec_error, rtp_packet list \<times> fec_decoder) outcome)"
      "fec_inv c G S d3" "after_output out d2 d3" "sorted_wrt (nearer b) out" "set out \<subseteq> structs d2"
      "\<forall>q \<in> set out. \<not> stale d2 (sequence_number q)"
      "\<forall>q \<in> structs d2. \<not> stale d2 (sequence_number q) \<longrightarrow> q \<in> set out \<or> q \<in> structs d3 \<and> \<not> stale d3 (sequence_number q)"
      "structs d3 \<subseteq> structs d2"
      by (rule output_step [OF w d2(2), where 'e = fec_error]) (rule that)
    have g: "grows d d2" by (rule grows_trans [OF d1(3) d2(3)])
    have "FecDecode fill ps [] d = Ok (out, d3)" using d1(1) d2(1) d3(1) by (simp add: FecDecode_def)
    moreover have "after_output out d d3" using d3(3) g by (simp add: after_output_def grows_def)
    moreover have "\<forall>q \<in> set ps \<union> structs d. \<not> stale d (sequence_number q) \<longrightarrow> q \<in> structs d2"
      using d1(3,6) d2(3) by (auto simp: grows_def)
    moreover have "\<forall>q \<in> set out \<union> structs d3. \<exists>y \<in> set ps \<union> structs d. \<not> nearer b y q"
      using d2(4) d3(5,8) new unfolding bounded_def by blast
    moreover have "q \<in> structs d2 \<and> \<not> stale d (sequence_number q)" if rep: "repairs c G ps d q" for q
    proof -
      have "p \<in> structs d1" if "p \<in> set ps \<union> structs d" "\<not> stale d (sequence_number p)" for p
        using that d1(3,6) by (auto simp: grows_def)
      then show ?thesis using repairs_about [OF w d1(2,3,4,5) _ rep] d2(5) by blast
    qed
    ultimately show ?thesis using ok [of out d3] d3 fec_inv_structs [OF d2(2)] grows_stale [OF g] by auto
  qed
qed

section \<open>The sender\<close>

text \<open>
  \<open>SenderThreadMain\<close> of \<open>test/test_sender_with_fec/main.cc\<close>: the packets of a frame, each group of up to 48
  media packets followed by its FEC packets, with one counter for the numbers of both. The results of
  \<open>StorePacket\<close> and \<open>Encode\<close> are not looked at. The bodies are a parameter.
\<close>

definition media_packet :: "u8 \<Rightarrow> u16 \<Rightarrow> u32 \<Rightarrow> u32 \<Rightarrow> bytes \<Rightarrow> rtp_packet" where
  "media_packet octet seq ts own_ssrc body =
     (case StoreFields octet seq ts own_ssrc [] None (Some body) 0 of Ok p \<Rightarrow> p | _ \<Rightarrow> rtp_empty)"

fun number_fec :: "u32 \<Rightarrow> u16 \<Rightarrow> rtp_packet list \<Rightarrow> rtp_packet list" where
  "number_fec ts seq [] = []"
| "number_fec ts seq (f # fs) = SetSequenceNumber seq (SetTimestamp ts f) # number_fec ts (seq + 1) fs"

definition protect_media ::
  "u8 \<Rightarrow> rtp_packet list \<Rightarrow> rtp_packet list \<Rightarrow> u16 \<Rightarrow> fec_encoder \<Rightarrow> (fec_error, rtp_packet list \<times> u16 \<times> fec_encoder) outcome" where
  "protect_media fill media_packets send_packets seq_packet e =
     (case FecEncode fill media_packets (of_nat (length media_packets div 4)) kModeOverlap 255 kFecMaskRandom e of
        Ok (fec_packets, e') \<Rightarrow> Ok (send_packets @ number_fec (timestamp (last media_packets)) seq_packet fec_packets,
          seq_packet + of_nat (length fec_packets), e')
      | Failed _ \<Rightarrow> Ok (send_packets, seq_packet, e)
      | Crash x \<Rightarrow> Crash x)"

fun frame_packets ::
  "u8 \<Rightarrow> u8 \<Rightarrow> u32 \<Rightarrow> u32 \<Rightarrow> bytes list \<Rightarrow> rtp_packet list \<Rightarrow> rtp_packet list \<Rightarrow> u16 \<Rightarrow> fec_encoder
    \<Rightarrow> (fec_error, rtp_packet list \<times> u16 \<times> fec_encoder) outcome" where
  "frame_packets fill octet own_ssrc ts [] media_packets send_packets seq_packet e =
     (if media_packets = [] then Ok (send_packets, seq_packet, e)
      else protect_media fill media_packets send_packets seq_packet e)"
| "frame_packets fill octet own_ssrc ts (body # bodies) media_packets send_packets seq_packet e =
     (let p = media_packet octet seq_packet ts own_ssrc body;
          media_packets = media_packets @ [p]; send_packets = send_packets @ [p]; seq_packet = seq_packet + 1 in
      if length media_packets = 48
      then obind (protect_media fill media_packets send_packets seq_packet e) (\<lambda>(send_packets, seq_packet, e).
             frame_packets fill octet own_ssrc ts bodies [] send_packets seq_packet e)
      else frame_packets fill octet own_ssrc ts bodies media_packets send_packets seq_packet e)"

text \<open>The packets of a sequence of frames, each a time stamp with its bodies.\<close>

fun sender_frames ::
  "u8 \<Rightarrow> u8 \<Rightarrow> u32 \<Rightarrow> (u32 \<times> bytes list) list \<Rightarrow> u16 \<Rightarrow> fec_encoder
    \<Rightarrow> (fec_error, rtp_packet list \<times> u16 \<times> fec_encoder) outcome" where
  "sender_frames fill octet own_ssrc [] seq_packet e = Ok ([], seq_packet, e)"
| "sender_frames fill octet own_ssrc ((ts, bodies) # frames) seq_packet e =
     obind (frame_packets fill octet own_ssrc ts bodies [] [] seq_packet e) (\<lambda>(send_packets, seq_packet, e).
     omap (\<lambda>(more, seq_packet, e). (send_packets @ more, seq_packet, e))
       (sender_frames fill octet own_ssrc frames seq_packet e))"

section \<open>What the sender sends is a protected stream\<close>

text \<open>Media packets with the FEC packets that protect each of them.\<close>

definition fec_block :: "fec_decoder_config \<Rightarrow> rtp_packet list \<Rightarrow> rtp_packet list \<Rightarrow> bool" where
  "fec_block c ps fs \<longleftrightarrow> (\<forall>p \<in> set ps. stream_media c p)
     \<and> (\<forall>f \<in> set fs. \<exists>grp. set grp \<subseteq> set ps \<and> protects_group c f grp)
     \<and> (\<forall>p \<in> set ps. \<exists>f \<in> set fs. \<exists>grp. p \<in> set grp \<and> set grp \<subseteq> set ps \<and> protects_group c f grp)"

definition numbered :: "u16 \<Rightarrow> rtp_packet list \<Rightarrow> bool" where
  "numbered s ps \<longleftrightarrow> (\<forall>i < length ps. sequence_number (ps ! i) = s + of_nat i)"

lemma numbered_append: "numbered s (xs @ ys) \<longleftrightarrow> numbered s xs \<and> numbered (s + of_nat (length xs)) ys"
proof
  assume n: "numbered s (xs @ ys)"
  have "sequence_number (xs ! i) = s + of_nat i" if "i < length xs" for i
    using n that unfolding numbered_def by (metis length_append nth_append trans_less_add1)
  moreover have "sequence_number (ys ! i) = s + of_nat (length xs) + of_nat i" if "i < length ys" for i
    using n that unfolding numbered_def
    by (metis add.assoc length_append nat_add_left_cancel_less nth_append_length_plus of_nat_add)
  ultimately show "numbered s xs \<and> numbered (s + of_nat (length xs)) ys" by (simp add: numbered_def)
next
  assume "numbered s xs \<and> numbered (s + of_nat (length xs)) ys"
  then show "numbered s (xs @ ys)" by (auto simp: numbered_def nth_append add.assoc of_nat_diff)
qed

lemma numbered_frame: "numbered s ps \<Longrightarrow> frame ps"
  by (cases ps) (auto simp: numbered_def frame_def)

lemma numbered_consecutive: "numbered s ps \<Longrightarrow> consecutive ps"
  by (auto simp: numbered_def consecutive_def successively_conv_nth add.assoc)

lemma number_fec_length [simp]: "length (number_fec ts s fs) = length fs"
  by (induction fs arbitrary: s) auto

lemma number_fec_nth: "i < length fs \<Longrightarrow> number_fec ts s fs ! i = SetSequenceNumber (s + of_nat i) (SetTimestamp ts (fs ! i))"
  by (induction fs arbitrary: s i) (auto simp: nth_Cons add.assoc split: nat.split)

lemma numbered_number_fec: "numbered s (number_fec ts s fs)"
  by (simp add: numbered_def number_fec_nth SetSequenceNumber_def)

text \<open>Encoding a run of media packets gives a block.\<close>

definition encoder_ok :: "fec_decoder_config \<Rightarrow> fec_encoder \<Rightarrow> bool" where
  "encoder_ok c e \<longleftrightarrow> (\<exists>ec. enc_config e = Some ec \<and> enc_ssrc ec = dec_ssrc c \<and> enc_payload_type ec = dec_payload_type c
     \<and> enc_payload_type ec < 128) \<and> length (fec_packet_mask e) = kFECPacketMaskMaxSize"

lemma row_protects:
  assumes ec: "enc_ssrc ec = dec_ssrc c" "enc_payload_type ec = dec_payload_type c" "enc_payload_type ec < 128"
    and ps: "length ps \<le> 48" "numbered s0 ps" "\<forall>p \<in> set ps. stream_media c p"
    and f: "generate_row ec (map media_data ps) arr w r = (Ok f :: (fec_error, rtp_packet) outcome)"
    and rows: "row_ok (length ps) arr w r" "r * w + w \<le> length arr" and w: "length ps \<le> 8 * w"
  shows "\<exists>grp. protects_group c (SetSequenceNumber s (SetTimestamp ts f)) grp \<and> set grp \<subseteq> set ps
    \<and> set grp = (!) ps ` set (row_indices (length ps) arr w r)"
proof -
  let ?grp = "map ((!) ps) (row_indices (length ps) arr w r)"
  have media: "\<forall>p \<in> set ps. fec_media_ok p \<and> ssrc p = enc_ssrc ec \<and> payload_type p \<noteq> enc_payload_type ec"
    using ps(3) ec by (auto simp: stream_media_def)
  have fr: "frame ps" by (rule numbered_frame [OF ps(2)])
  obtain m where m: "f = sent_fec ec m 0 0" "fec_group (map media_data ?grp)"
    "fec_image (map media_data ?grp) (max_media_length (map media_data ?grp)) m"
    using generate_row_ok [OF rows w ps(1) fr, of ec, where 'e = fec_error] media f by auto
  have fec: "SetSequenceNumber s (SetTimestamp ts f) = sent_fec ec m ts s" using m(1) by (simp add: sent_fec_set)
  note grp = row_group [OF rows(1) ps(1) fr]
  have "protects_group c (sent_fec ec m ts s) ?grp"
    unfolding protects_group_def
  proof (intro conjI)
    show "\<exists>e m' ts'. sent_fec ec m ts s = sent_fec e m' ts' (sequence_number (sent_fec ec m ts s)) \<and> enc_ssrc e = dec_ssrc c
        \<and> enc_payload_type e = dec_payload_type c \<and> enc_payload_type e < 128 \<and> fec_group (map media_data ?grp)
        \<and> fec_image (map media_data ?grp) (max_media_length (map media_data ?grp)) m'"
      using m(2,3) ec sent_fec_fields(3) [of ec m ts s] by metis
    show "\<forall>x \<in> set ?grp. stream_media c x" using grp(2) ps(3) by blast
  qed (use grp in blast)+
  then show ?thesis unfolding fec using grp(2) by (intro exI [of _ ?grp]) simp
qed

lemma rows_block:
  assumes ps: "\<forall>p \<in> set ps. stream_media c p" and arr: "protects (length ps) arr w f" and fs: "length fs = f"
    and group: "\<And>r. r < f \<Longrightarrow>
      \<exists>grp. protects_group c (fs ! r) grp \<and> set grp \<subseteq> set ps \<and> set grp = (!) ps ` set (row_indices (length ps) arr w r)"
  shows "fec_block c ps fs"
  unfolding fec_block_def
proof (intro conjI ballI)
  show "stream_media c p" if "p \<in> set ps" for p using that ps by blast
  show "\<exists>grp. set grp \<subseteq> set ps \<and> protects_group c x grp" if "x \<in> set fs" for x
    using that group fs by (metis in_set_conv_nth)
  fix p assume "p \<in> set ps"
  then obtain i where i: "i < length ps" "p = ps ! i" by (auto simp: in_set_conv_nth)
  obtain r where r: "r < f" "mask_bit arr w r i" using arr i(1) by (auto simp: protects_iff)
  then have "p \<in> (!) ps ` set (row_indices (length ps) arr w r)" using i by (auto simp: row_indices_def)
  then show "\<exists>x \<in> set fs. \<exists>grp. p \<in> set grp \<and> set grp \<subseteq> set ps \<and> protects_group c x grp"
    using group [OF r(1)] r(1) fs by (metis nth_mem)
qed

lemma protect_media_block:
  assumes e: "encoder_ok c e" and ps: "ps \<noteq> []" "length ps \<le> 48" "numbered s0 ps" "\<forall>p \<in> set ps. stream_media c p"
  obtains fs e' where "\<And>sent. protect_media fill ps sent s e = Ok (sent @ fs, s + of_nat (length fs), e')"
    and "fec_block c ps fs" and "numbered s fs" and "fs \<noteq> []" and "length fs \<le> length ps" and "encoder_ok c e'"
proof -
  obtain ec where ec: "enc_config e = Some ec" "enc_ssrc ec = dec_ssrc c" "enc_payload_type ec = dec_payload_type c"
    "enc_payload_type ec < 128" and mask: "length (fec_packet_mask e) = kFECPacketMaskMaxSize"
    using e by (auto simp: encoder_ok_def)
  let ?w = "PacketMaskSize (length ps)" and ?f = "unat (NumFecPackets (of_nat (length ps)) 255)"
  have media: "\<forall>p \<in> set ps. fec_media_ok p \<and> ssrc p = enc_ssrc ec \<and> payload_type p \<noteq> enc_payload_type ec"
    using ps(4) ec by (auto simp: stream_media_def)
  have fr: "frame ps" by (rule numbered_frame [OF ps(3)])
  have len: "length ps \<le> kUlpfecMaxMediaPackets" using ps(2) by (simp add: ulpfec_constants)
  have k: "length ps div 4 \<le> length ps" by simp
  obtain arr fecs e' where enc: "FecEncode fill ps (of_nat (length ps div 4)) kModeOverlap 255 kFecMaskRandom e = Ok (fecs, e')"
    "length fecs = ?f"
    and row: "\<And>r. r < ?f \<Longrightarrow> generate_row ec (map media_data ps) arr ?w r = (Ok (fecs ! r) :: (fec_error, rtp_packet) outcome)"
    and arr: "protects (length ps) arr ?w ?f" "?f * ?w \<le> length arr" "length ps \<le> 8 * ?w"
    and e': "enc_config e' = Some ec" "length (fec_packet_mask e') = kFECPacketMaskMaxSize"
    by (rule encode_rows [OF ec(1) mask ps(1) len fr media k, where fill = fill and meth = kModeOverlap and factor = 255 and t = kFecMaskRandom])
      (simp, simp, rule that)
  define fs where "fs = number_fec (timestamp (last ps)) s fecs"
  have group: "\<exists>grp. protects_group c (fs ! r) grp \<and> set grp \<subseteq> set ps \<and> set grp = (!) ps ` set (row_indices (length ps) arr ?w r)"
    if r: "r < ?f" for r
  proof -
    have "fs ! r = SetSequenceNumber (s + of_nat r) (SetTimestamp (timestamp (last ps)) (fecs ! r))"
      using r enc(2) by (simp add: fs_def number_fec_nth)
    then show ?thesis using row_protects [OF ec(2-4) ps(2-4) row [OF r] protected_rows [OF arr(1,2) r] arr(3)] by simp
  qed
  have block: "fec_block c ps fs"
    by (rule rows_block [OF ps(4) arr(1) _ group]) (simp_all add: fs_def enc(2))
  have "1 \<le> ?f" "?f \<le> length ps" using NumFecPackets_bounds [of "length ps" 255] ps(1,2) by (simp_all add: Suc_le_eq)
  moreover have "length fs = ?f" by (simp add: fs_def enc(2))
  ultimately have "fs \<noteq> []" "length fs \<le> length ps" by auto
  moreover have "numbered s fs" unfolding fs_def by (rule numbered_number_fec)
  moreover have "protect_media fill ps sent s e = Ok (sent @ fs, s + of_nat (length fs), e')" for sent
    unfolding protect_media_def enc(1) by (simp add: fs_def)
  moreover have "encoder_ok c e'" using e' ec by (auto simp: encoder_ok_def)
  ultimately show ?thesis using block by (intro that [of fs e'])
qed

inductive fec_blocks :: "fec_decoder_config \<Rightarrow> rtp_packet list \<Rightarrow> bool" for c where
  no_blocks: "fec_blocks c []"
| more_blocks: "fec_block c ps fs \<Longrightarrow> fec_blocks c xs \<Longrightarrow> fec_blocks c (ps @ fs @ xs)"

lemma fec_blocks_append: "fec_blocks c xs \<Longrightarrow> fec_blocks c ys \<Longrightarrow> fec_blocks c (xs @ ys)"
  by (induction rule: fec_blocks.induct) (use more_blocks in auto)

text \<open>The media packets of the sender: payloads of 1 to 32767 bytes, of another type than the FEC packets.\<close>

definition body_ok :: "bytes \<Rightarrow> bool" where "body_ok body \<longleftrightarrow> body \<noteq> [] \<and> length body \<le> 32767"

lemma media_packet_fields:
  assumes "body_ok body"
  shows "media_packet octet seq ts own_ssrc body = rtp_empty\<lparr>octet_m_pt := octet, sequence_number := seq, timestamp := ts,
    ssrc := own_ssrc, payload_buffer := Some body\<rparr>"
  using assms by (simp add: media_packet_def StoreFields_def body_ok_def extension_size_def rtp_empty_def)

lemma media_packet_stream:
  assumes "body_ok body" and "dec_ssrc c = own_ssrc" and "octet AND 0x7f \<noteq> dec_payload_type c"
  shows "stream_media c (media_packet octet seq ts own_ssrc body)"
  using assms unfolding media_packet_fields [OF assms(1)]
  by (simp add: stream_media_def fec_media_ok_def rtp_empty_def fec_size_ok_def rtp_image_plain payload_bytes_def
      payload_type_def body_ok_def and.commute)

lemma media_packet_number: "body_ok body \<Longrightarrow> sequence_number (media_packet octet seq ts own_ssrc body) = seq"
  by (simp add: media_packet_fields)

lemma media_run_extended:
  fixes ts :: u32
  assumes "numbered s media" and "\<forall>p \<in> set media. stream_media c p" and "body_ok body"
    and "dec_ssrc c = own_ssrc" and "octet AND 0x7f \<noteq> dec_payload_type c"
  defines "p \<equiv> media_packet octet (s + of_nat (length media)) ts own_ssrc body"
  shows "numbered s (media @ [p])" and "\<forall>q \<in> set (media @ [p]). stream_media c q"
  using media_packet_stream [OF assms(3-5)] media_packet_number [OF assms(3)] assms(1,2)
  unfolding numbered_append by (auto simp: p_def numbered_def)

lemma protect_run:
  assumes "encoder_ok c e" and "media \<noteq> []" and "length media \<le> 48" and "numbered s media" and "\<forall>p \<in> set media. stream_media c p"
  obtains fs e' where "\<And>sent. protect_media fill media sent (s + of_nat (length media)) e
      = Ok (sent @ fs, s + of_nat (length (media @ fs)), e')"
    and "fec_block c media fs" and "numbered s (media @ fs)" and "length fs \<le> length media" and "encoder_ok c e'"
proof -
  let ?s = "s + of_nat (length media)"
  obtain fs e' where b: "\<And>sent. protect_media fill media sent ?s e = Ok (sent @ fs, ?s + of_nat (length fs), e')"
    "fec_block c media fs" "numbered ?s fs" "length fs \<le> length media" "encoder_ok c e'"
    by (rule protect_media_block [OF assms, of fill ?s]) (rule that)
  show ?thesis by (rule that [of fs e', OF _ b(2) _ b(4,5)]) (simp_all add: b(1,3) assms(4) numbered_append add.assoc)
qed

lemma frame_packets_blocks:
  assumes "encoder_ok c e" and "length media < 48" and "numbered s media" and "\<forall>p \<in> set media. stream_media c p"
    and "\<forall>body \<in> set bodies. body_ok body" and "dec_ssrc c = own_ssrc" and "octet AND 0x7f \<noteq> dec_payload_type c"
  obtains blk e' where "\<And>sent. frame_packets fill octet own_ssrc ts bodies media (sent @ media) (s + of_nat (length media)) e
      = Ok (sent @ blk, s + of_nat (length blk), e')"
    and "fec_blocks c blk" and "numbered s blk" and "encoder_ok c e'" and "length blk \<le> 2 * (length media + length bodies)"
  using assms
proof (induction bodies arbitrary: media s e thesis)
  case Nil
  show ?case
  proof (cases "media = []")
    case True
    then show ?thesis using Nil.prems no_blocks by (intro Nil.prems(1) [of "[]" e]) (simp_all add: numbered_def)
  next
    case False
    obtain fs e' where b: "\<And>sent. protect_media fill media sent (s + of_nat (length media)) e
        = Ok (sent @ fs, s + of_nat (length (media @ fs)), e')"
      "fec_block c media fs" "numbered s (media @ fs)" "length fs \<le> length media" "encoder_ok c e'"
      using protect_run [OF Nil.prems(2) False _ Nil.prems(4,5)] Nil.prems(3) less_imp_le by metis
    have "fec_blocks c (media @ fs)" using more_blocks [OF b(2) no_blocks] by simp
    then show ?thesis using b False by (intro Nil.prems(1) [of "media @ fs" e']) simp_all
  qed
next
  case (Cons body bodies)
  let ?media = "media @ [media_packet octet (s + of_nat (length media)) ts own_ssrc body]"
  have body: "body_ok body" "\<forall>b \<in> set bodies. body_ok b" using Cons.prems(6) by auto
  note media = media_run_extended [OF Cons.prems(4,5) body(1) Cons.prems(7,8), where ts = ts]
  show ?case
  proof (cases "length ?media = 48")
    case True
    obtain fs e1 where b: "\<And>sent. protect_media fill ?media sent (s + of_nat (length ?media)) e
        = Ok (sent @ fs, s + of_nat (length (?media @ fs)), e1)"
      "fec_block c ?media fs" "numbered s (?media @ fs)" "length fs \<le> length ?media" "encoder_ok c e1"
      by (rule protect_run [OF Cons.prems(2) _ _ media, of fill]) (simp, use True in simp, rule that)
    let ?s = "s + of_nat (length (?media @ fs))"
    obtain blk e' where r: "\<And>sent. frame_packets fill octet own_ssrc ts bodies [] (sent @ []) (?s + of_nat (length ([] :: rtp_packet list))) e1
        = Ok (sent @ blk, ?s + of_nat (length blk), e')"
      "fec_blocks c blk" "numbered ?s blk" "encoder_ok c e'" "length blk \<le> 2 * (length ([] :: rtp_packet list) + length bodies)"
      by (rule Cons.IH [of "[]" ?s e1]) (use b(5) body(2) Cons.prems(7,8) in \<open>simp_all add: numbered_def\<close>)
    have "frame_packets fill octet own_ssrc ts (body # bodies) media (sent @ media) (s + of_nat (length media)) e
        = Ok (sent @ (?media @ fs @ blk), s + of_nat (length (?media @ fs @ blk)), e')" for sent
      using True b(1) [of "sent @ ?media"] r(1) [of "sent @ ?media @ fs"] by (simp add: Let_def add_ac)
    moreover have "numbered s (?media @ fs @ blk)" using b(3) r(3) numbered_append [of s "?media @ fs" blk] by simp
    ultimately show ?thesis using r(4,5) b(4) more_blocks [OF b(2) r(2)] by (intro Cons.prems(1) [of "?media @ fs @ blk" e']) simp_all
  next
    case False
    obtain blk e' where r: "\<And>sent. frame_packets fill octet own_ssrc ts bodies ?media (sent @ ?media) (s + of_nat (length ?media)) e
        = Ok (sent @ blk, s + of_nat (length blk), e')"
      "fec_blocks c blk" "numbered s blk" "encoder_ok c e'" "length blk \<le> 2 * (length ?media + length bodies)"
      by (rule Cons.IH [of ?media s e]) (use False media body(2) Cons.prems(2,3,7,8) in \<open>simp_all\<close>)
    have "frame_packets fill octet own_ssrc ts (body # bodies) media (sent @ media) (s + of_nat (length media)) e
        = Ok (sent @ blk, s + of_nat (length blk), e')" for sent
      using False r(1) [of sent] by (simp add: Let_def add_ac)
    then show ?thesis using r(2-5) by (intro Cons.prems(1) [of blk e']) simp_all
  qed
qed

definition frames_ok :: "(u32 \<times> bytes list) list \<Rightarrow> bool" where
  "frames_ok frames \<longleftrightarrow> (\<forall>(ts, bodies) \<in> set frames. \<forall>body \<in> set bodies. body_ok body)"

lemma sender_frames_blocks:
  assumes "encoder_ok c e" and "frames_ok frames" and "dec_ssrc c = own_ssrc" and "octet AND 0x7f \<noteq> dec_payload_type c"
  obtains xs e' where "sender_frames fill octet own_ssrc frames s e = Ok (xs, s + of_nat (length xs), e')"
    and "fec_blocks c xs" and "numbered s xs" and "encoder_ok c e'" and "length xs \<le> 2 * (\<Sum>(ts, bodies) \<leftarrow> frames. length bodies)"
  using assms
proof (induction frames arbitrary: s e thesis)
  case Nil
  then show ?case using no_blocks by (intro Nil.prems(1) [of "[]" e]) (simp_all add: numbered_def)
next
  case (Cons frame frames)
  obtain ts bodies where f: "frame = (ts, bodies)" by (cases frame)
  have ok: "\<forall>body \<in> set bodies. body_ok body" "frames_ok frames" using Cons.prems(3) f by (auto simp: frames_ok_def)
  obtain blk e1 where b: "\<And>sent. frame_packets fill octet own_ssrc ts bodies [] (sent @ []) (s + of_nat (length ([] :: rtp_packet list))) e
      = Ok (sent @ blk, s + of_nat (length blk), e1)"
    "fec_blocks c blk" "numbered s blk" "encoder_ok c e1" "length blk \<le> 2 * (length ([] :: rtp_packet list) + length bodies)"
    by (rule frame_packets_blocks [OF Cons.prems(2) _ _ _ ok(1) Cons.prems(4,5), of "[]" s fill ts])
      (simp, simp add: numbered_def, simp, rule that)
  obtain xs e' where r: "sender_frames fill octet own_ssrc frames (s + of_nat (length blk)) e1
      = Ok (xs, (s + of_nat (length blk)) + of_nat (length xs), e')"
    "fec_blocks c xs" "numbered (s + of_nat (length blk)) xs" "encoder_ok c e'"
    "length xs \<le> 2 * (\<Sum>(ts, bodies) \<leftarrow> frames. length bodies)"
    by (rule Cons.IH [OF _ b(4) ok(2) Cons.prems(4,5)]) (rule that)
  have "sender_frames fill octet own_ssrc (frame # frames) s e = Ok (blk @ xs, s + of_nat (length (blk @ xs)), e')"
    using b(1) [of "[]"] r(1) by (simp add: f add_ac)
  then show ?case using b(2,3,5) r(2-5) by (intro Cons.prems(1) [of "blk @ xs" e'])
      (simp_all add: fec_blocks_append numbered_append f)
qed

section \<open>The world of a stream\<close>

definition protected_stream :: "fec_decoder_config \<Rightarrow> rtp_packet list \<Rightarrow> bool" where
  "protected_stream c tx \<longleftrightarrow> consecutive tx \<and> length tx < 32768
     \<and> (\<forall>p \<in> set tx. stream_media c p \<or> (\<exists>grp. set grp \<subseteq> set tx \<and> protects_group c p grp))"

text \<open>A group of each FEC packet; all its groups have the same numbers, those in its mask.\<close>

definition group_of :: "fec_decoder_config \<Rightarrow> rtp_packet set \<Rightarrow> rtp_packet \<Rightarrow> rtp_packet list" where
  "group_of c S f = (SOME grp. set grp \<subseteq> S \<and> protects_group c f grp)"

lemma group_numbers:
  assumes "protects_group c f g" and "protects_group c f h"
  shows "sequence_number ` set g = sequence_number ` set h"
proof -
  let ?x = "\<lambda>es. (new_cached 0 f (rtp_image f))\<lparr>fc_is_fec := True, fc_protected := es\<rparr>"
  obtain es where es: "DecodeFecInfo (dec_payload_type c) (new_cached 0 f (rtp_image f)) = (Ok (?x es) :: (unit, fec_cached) outcome)"
    "fst ` set es = sequence_number ` set g"
    by (rule fec_packet_decoded [OF assms(1), where 'e = unit and j = 0])
  obtain es' where es': "DecodeFecInfo (dec_payload_type c) (new_cached 0 f (rtp_image f)) = (Ok (?x es') :: (unit, fec_cached) outcome)"
    "fst ` set es' = sequence_number ` set h"
    by (rule fec_packet_decoded [OF assms(2), where 'e = unit and j = 0])
  have "?x es = ?x es'" using es(1) es'(1) by simp
  then have "fc_protected (?x es) = fc_protected (?x es')" by (rule arg_cong)
  then show ?thesis using es(2) es'(2) by simp
qed

lemma stream_world:
  assumes "protected_stream c tx"
  defines "b \<equiv> sequence_number (hd tx) - 1"
  shows "fec_world b c (group_of c (set tx)) (set tx)" and "sorted_wrt (nearer b) tx"
proof -
  have "consecutive tx" "length tx < 32768" using assms(1) by (simp_all add: protected_stream_def)
  note ahead = consecutive_ahead [OF this, folded b_def]
  show sorted: "sorted_wrt (nearer b) tx" by (rule ahead(2))
  have "\<not> nearer b p q \<and> \<not> nearer b q p \<Longrightarrow> p = q" if "p \<in> set tx" "q \<in> set tx" for p q
    using sorted that by (metis in_set_conv_nth linorder_neqE_nat sorted_wrt_iff_nth_less)
  then have "inj_on sequence_number (set tx)" by (auto simp: inj_on_def)
  moreover have "stream_media c p \<or> set (group_of c (set tx) p) \<subseteq> set tx \<and> protects_group c p (group_of c (set tx) p)"
    if p: "p \<in> set tx" for p
  proof (cases "stream_media c p")
    case False
    then have "\<exists>grp. set grp \<subseteq> set tx \<and> protects_group c p grp" using assms(1) p by (auto simp: protected_stream_def)
    from someI_ex [OF this] show ?thesis unfolding group_of_def by blast
  qed simp
  ultimately show "fec_world b c (group_of c (set tx)) (set tx)" using ahead(1) by (auto simp: fec_world_def)
qed

section \<open>The receiver\<close>

text \<open>
  \<open>ReceiverWithFec\<close> of \<open>test/test_receiver_with_fec/main.cc\<close> decodes each list of packets it is handed;
  the packets it logs are collected here.
\<close>

fun receive_batches ::
  "u8 \<Rightarrow> rtp_packet list list \<Rightarrow> fec_decoder \<Rightarrow> (fec_error, rtp_packet list \<times> fec_decoder) outcome" where
  "receive_batches fill [] d = Ok ([], d)"
| "receive_batches fill (packets # batches) d =
     obind (FecDecode fill packets [] d) (\<lambda>(recovered_packets, d).
     omap (\<lambda>(more, d). (recovered_packets @ more, d)) (receive_batches fill batches d))"

text \<open>What has been put out so far, and the decoder: in order, of the stream, and the decoder knows the last.\<close>

definition decode_ok ::
  "u16 \<Rightarrow> fec_decoder_config \<Rightarrow> (rtp_packet \<Rightarrow> rtp_packet list) \<Rightarrow> rtp_packet set \<Rightarrow> rtp_packet list \<Rightarrow> fec_decoder \<Rightarrow> bool" where
  "decode_ok b c G S out d \<longleftrightarrow> fec_inv c G S d \<and> sorted_wrt (nearer b) out \<and> set out \<subseteq> S
     \<and> (fd_has_output d \<longleftrightarrow> out \<noteq> []) \<and> fd_seq_last_output d = (if out = [] then 0 else sequence_number (last out))"

text \<open>Nothing received is missing, and nothing lies behind what was received.\<close>

definition kept :: "u16 \<Rightarrow> rtp_packet set \<Rightarrow> rtp_packet list \<Rightarrow> fec_decoder \<Rightarrow> bool" where
  "kept b K out d \<longleftrightarrow> (\<forall>q \<in> K. q \<in> set out \<or> q \<in> structs d \<and> \<not> stale d (sequence_number q))
     \<and> (\<forall>q \<in> set out \<union> structs d. \<exists>y \<in> K. \<not> nearer b y q)"

lemma decode_ok_append:
  assumes w: "fec_world b c G S" and ok: "decode_ok b c G S acc d" and inv: "fec_inv c G S d'" and after: "after_output out d d'"
    and out: "sorted_wrt (nearer b) out" "set out \<subseteq> S" "\<forall>q \<in> set out. \<not> stale d (sequence_number q)"
  shows "decode_ok b c G S (acc @ out) d'"
proof -
  have "nearer b q p" if q: "q \<in> set acc" and p: "p \<in> set out" for q p
  proof -
    have ne: "acc \<noteq> []" using q by auto
    have l: "last acc \<in> S" using ok ne by (auto simp: decode_ok_def)
    have "\<not> stale d (sequence_number p)" using out(3) p by blast
    then have "nearer b (last acc) p" using ok ne p out(2) world_after [OF w l, of p] by (auto simp: stale_def decode_ok_def)
    moreover have "q = last acc \<or> nearer b q (last acc)"
      using ok q by (cases acc rule: rev_cases) (auto simp: sorted_wrt_append decode_ok_def)
    ultimately show ?thesis by auto
  qed
  then show ?thesis using ok inv after out unfolding decode_ok_def after_output_def
    by (auto simp: sorted_wrt_append split: if_splits)
qed

lemma receive_batches_sound:
  assumes w: "fec_world b c G S" and "decode_ok b c G S acc d" and "set (concat batches) \<subseteq> S"
  shows "case receive_batches fill batches d of Ok (out, d') \<Rightarrow> decode_ok b c G S (acc @ out) d'
    | Failed _ \<Rightarrow> False | Crash x \<Rightarrow> x = Empty_Container"
  using assms(2,3)
proof (induction batches arbitrary: acc d)
  case Nil
  then show ?case by simp
next
  case (Cons ps batches)
  have inv: "fec_inv c G S d" using Cons.prems(1) by (simp add: decode_ok_def)
  have ps: "set ps \<subseteq> S" using Cons.prems(2) by simp
  show ?case
  proof (rule FecDecode_step [OF w inv ps, of fill])
    fix out d1
    assume run: "FecDecode fill ps [] d = Ok (out, d1)" and step: "fec_inv c G S d1" "after_output out d d1"
      "sorted_wrt (nearer b) out" "set out \<subseteq> S" "\<forall>q \<in> set out. \<not> stale d (sequence_number q)"
    have "decode_ok b c G S (acc @ out) d1" by (rule decode_ok_append [OF w Cons.prems(1) step])
    then show ?thesis using Cons.IH [of "acc @ out" d1] Cons.prems(2) run
      by (cases "receive_batches fill batches d1") auto
  qed simp
qed

text \<open>A call with packets behind everything received so far succeeds.\<close>

lemma decode_next:
  assumes w: "fec_world b c G S" and ok: "decode_ok b c G S acc d" and kept: "kept b K acc d"
    and ps: "set ps \<subseteq> S" "ps \<noteq> []" "\<forall>q \<in> K. \<forall>p \<in> set ps. nearer b q p"
  obtains out d' where "FecDecode fill ps [] d = Ok (out, d')" and "decode_ok b c G S (acc @ out) d'"
    and "kept b (K \<union> set ps) (acc @ out) d'" and "\<And>q. repairs c G ps d q \<Longrightarrow> q \<in> set out \<or> q \<in> structs d'"
    and "\<forall>p \<in> set ps. \<not> stale d (sequence_number p)"
proof -
  have inv: "fec_inv c G S d" using ok by (simp add: decode_ok_def)
  have new: "\<not> stale d (sequence_number p)" if p: "p \<in> set ps" for p
  proof
    assume st: "stale d (sequence_number p)"
    then have acc: "acc \<noteq> []" "fd_seq_last_output d = sequence_number (last acc)" "last acc \<in> S"
      using ok by (auto simp: stale_def decode_ok_def)
    have "last acc \<in> set acc" using acc(1) by simp
    then obtain y where "y \<in> K" "\<not> nearer b y (last acc)" using kept unfolding kept_def by blast
    then have "nearer b (last acc) p" using ps(3) p by fastforce
    then show False using st acc world_after [OF w acc(3), of p] p ps(1) by (auto simp: stale_def)
  qed
  show ?thesis
  proof (rule FecDecode_step [OF w inv ps(1), of fill])
    assume "\<forall>p \<in> set ps. stale d (sequence_number p)"
    then show ?thesis using new ps(2) by (metis last_in_set)
  next
    fix out d'
    assume run: "FecDecode fill ps [] d = Ok (out, d')" and step: "fec_inv c G S d'" "after_output out d d'"
      "sorted_wrt (nearer b) out" "set out \<subseteq> S" "\<forall>q \<in> set out. \<not> stale d (sequence_number q)"
      and complete: "\<forall>q \<in> set ps \<union> structs d. \<not> stale d (sequence_number q) \<longrightarrow> q \<in> set out \<or> q \<in> structs d' \<and> \<not> stale d' (sequence_number q)"
      and bound: "\<forall>q \<in> set out \<union> structs d'. \<exists>y \<in> set ps \<union> structs d. \<not> nearer b y q"
      and rep: "\<forall>q. repairs c G ps d q \<longrightarrow> q \<in> set out \<or> q \<in> structs d' \<and> \<not> stale d' (sequence_number q)"
    have "\<exists>y \<in> K \<union> set ps. \<not> nearer b y q" if q: "q \<in> set (acc @ out) \<union> structs d'" for q
    proof -
      have old: "\<exists>y \<in> K. \<not> nearer b y z" if "z \<in> set acc \<union> structs d" for z using kept that by (auto simp: kept_def)
      show ?thesis
      proof (cases "q \<in> set acc")
        case False
        then obtain y where "y \<in> set ps \<union> structs d" "\<not> nearer b y q" using bound q by auto
        then show ?thesis using old [of y] by (meson UnCI UnE leD leI le_trans)
      qed (use old in blast)
    qed
    moreover have "q \<in> set (acc @ out) \<or> q \<in> structs d' \<and> \<not> stale d' (sequence_number q)" if "q \<in> K \<union> set ps" for q
      using that kept complete new unfolding kept_def by auto
    ultimately have "kept b (K \<union> set ps) (acc @ out) d'" unfolding kept_def by blast
    then show ?thesis using rep new by (intro that [OF run decode_ok_append [OF w ok step]]) auto
  qed
qed

lemma receive_batches_in_order:
  assumes w: "fec_world b c G S" and "decode_ok b c G S acc d" and "kept b K acc d" and "set (concat batches) \<subseteq> S"
    and "[] \<notin> set batches" and "sorted_wrt (nearer b) (concat batches)" and "\<forall>q \<in> K. \<forall>p \<in> set (concat batches). nearer b q p"
  obtains out d' where "receive_batches fill batches d = Ok (out, d')" and "decode_ok b c G S (acc @ out) d'"
    and "kept b (K \<union> set (concat batches)) (acc @ out) d'"
  using assms(2-)
proof (induction batches arbitrary: acc d K thesis)
  case Nil
  then show ?case by simp
next
  case (Cons ps batches)
  have ps: "set ps \<subseteq> S" "ps \<noteq> []" "\<forall>q \<in> K. \<forall>p \<in> set ps. nearer b q p" using Cons.prems by auto
  obtain out d1 where 1: "FecDecode fill ps [] d = Ok (out, d1)" "decode_ok b c G S (acc @ out) d1"
    "kept b (K \<union> set ps) (acc @ out) d1"
    by (rule decode_next [OF w Cons.prems(2,3) ps, of fill]) (rule that)
  obtain more d2 where 2: "receive_batches fill batches d1 = Ok (more, d2)" "decode_ok b c G S ((acc @ out) @ more) d2"
    "kept b ((K \<union> set ps) \<union> set (concat batches)) ((acc @ out) @ more) d2"
  proof (rule Cons.IH [OF _ 1(2,3)])
    show "\<forall>q \<in> K \<union> set ps. \<forall>p \<in> set (concat batches). nearer b q p"
      using Cons.prems(6,7) unfolding concat.simps sorted_wrt_append set_append by blast
  qed (use Cons.prems(4-6) in \<open>auto simp: sorted_wrt_append\<close>)
  then show ?case using 1(1) by (intro Cons.prems(1) [of "out @ more" d2]) (simp_all add: Un_assoc)
qed

section \<open>Sender and receiver together\<close>

lemma fec_blocks_stream:
  "fec_blocks c xs \<Longrightarrow> \<forall>p \<in> set xs. stream_media c p \<or> (\<exists>grp. set grp \<subseteq> set xs \<and> protects_group c p grp)"
proof (induction rule: fec_blocks.induct)
  case (more_blocks ps fs xs)
  show ?case
  proof
    fix p assume "p \<in> set (ps @ fs @ xs)"
    then consider "p \<in> set ps" | "p \<in> set fs" | "p \<in> set xs" by auto
    then show "stream_media c p \<or> (\<exists>grp. set grp \<subseteq> set (ps @ fs @ xs) \<and> protects_group c p grp)"
    proof cases
      case 2
      then obtain grp where "set grp \<subseteq> set ps" "protects_group c p grp" using more_blocks.hyps(1) by (auto simp: fec_block_def)
      then show ?thesis by (intro disjI2 exI [of _ grp]) auto
    next
      case 3
      then consider "stream_media c p" | grp where "set grp \<subseteq> set xs" "protects_group c p grp" using more_blocks.IH by blast
      then show ?thesis
      proof cases
        case (2 grp)
        then show ?thesis by (intro disjI2 exI [of _ grp]) auto
      qed simp
    qed (use more_blocks.hyps(1) in \<open>auto simp: fec_block_def\<close>)
  qed
qed simp

text \<open>Behind every media packet there is a FEC packet that protects it.\<close>

lemma fec_blocks_cover:
  assumes "fec_blocks c xs" and "p \<in> set xs" and "payload_type p \<noteq> dec_payload_type c"
  obtains us f vs grp where "xs = us @ f # vs" and "p \<in> set us" and "p \<in> set grp" and "set grp \<subseteq> set xs" and "protects_group c f grp"
  using assms
proof (induction arbitrary: thesis rule: fec_blocks.induct)
  case no_blocks
  then show ?case by simp
next
  case (more_blocks ps fs xs)
  have block: "fec_block c ps fs" by (rule more_blocks.hyps(1))
  have "p \<notin> set fs" using block more_blocks.prems(3) protects_group_wf(4) by (auto simp: fec_block_def)
  then consider "p \<in> set ps" | "p \<in> set xs" using more_blocks.prems(2) by auto
  then show ?case
  proof cases
    case 1
    then obtain f grp where f: "f \<in> set fs" "p \<in> set grp" "set grp \<subseteq> set ps" "protects_group c f grp"
      using block unfolding fec_block_def by blast
    obtain us vs where "fs = us @ f # vs" using split_list [OF f(1)] by blast
    then show ?thesis using f 1 by (intro more_blocks.prems(1) [of "ps @ us" f "vs @ xs" grp]) auto
  next
    case 2
    obtain us f vs grp where "xs = us @ f # vs" "p \<in> set us" "p \<in> set grp" "set grp \<subseteq> set xs" "protects_group c f grp"
      using more_blocks.IH [OF _ 2 more_blocks.prems(3)] by blast
    then show ?thesis by (intro more_blocks.prems(1) [of "ps @ fs @ us" f vs grp]) auto
  qed
qed

lemma blocks_protected:
  assumes "fec_blocks c xs" and "numbered s xs" and "length xs < 32768"
  shows "protected_stream c xs"
  using fec_blocks_stream [OF assms(1)] numbered_consecutive [OF assms(2)] assms(3) by (simp add: protected_stream_def)

text \<open>The two ends of a stream: the same source and FEC payload type, and another type for the media.\<close>

definition fec_ends :: "u32 \<Rightarrow> u8 \<Rightarrow> fec_encoder_config \<Rightarrow> fec_decoder_config \<Rightarrow> bool" where
  "fec_ends own_ssrc octet ec c \<longleftrightarrow> enc_ssrc ec = own_ssrc \<and> dec_ssrc c = own_ssrc
     \<and> enc_payload_type ec = dec_payload_type c \<and> octet AND 0x7f \<noteq> dec_payload_type c"

lemma configured_encoder:
  assumes "fec_ends own_ssrc octet ec c" and "FecEncoder_Configure (Some ec) fec_encoder_new = Ok e"
  shows "encoder_ok c e"
  using assms by (auto simp: encoder_ok_def fec_ends_def FecEncoder_Configure_def fec_encoder_new_def payload_type_invalid_def kBitsizePayloadType_def
      word_less_nat_alt word_le_nat_alt split: if_splits)

lemma configured_decoder:
  assumes "FecDecoder_Configure (Some c) fec_decoder_new = Ok d"
  shows "decode_ok b c G S [] d" and "kept b {} [] d"
  using assms by (auto simp: FecDecoder_Configure_def fec_decoder_new_def decode_ok_def fec_inv_def kept_def structs_def split: if_splits)

lemma flush_all: "set (fst (FecFlush out d)) = set out \<union> structs d"
  by (auto simp: FecFlush_def Let_def structs_def)

lemma subseq_subset: "subseq xs ys \<Longrightarrow> set xs \<subseteq> set ys"
  by (induction rule: list_emb.induct) auto

lemma subseq_sorted_wrt: "subseq xs ys \<Longrightarrow> sorted_wrt P ys \<Longrightarrow> sorted_wrt P xs"
proof (induction rule: list_emb.induct)
  case (list_emb_Cons2 x y xs ys)
  then show ?case using subseq_subset [of xs ys] by auto
qed auto

lemma frames_delivered:
  assumes "fec_ends own_ssrc octet ec c" and "FecEncoder_Configure (Some ec) fec_encoder_new = Ok e"
    and "FecDecoder_Configure (Some c) fec_decoder_new = Ok d"
    and "frames_ok frames" and "2 * (\<Sum>(ts, bodies) \<leftarrow> frames. length bodies) < 32768"
  shows "\<exists>tx seq' e'. sender_frames fill octet own_ssrc frames seq_packet e = Ok (tx, seq', e') \<and> length tx < 32768
    \<and> (\<forall>batches. set (concat batches) \<subseteq> set tx \<longrightarrow>
         (case receive_batches fill batches d of Ok (out, d') \<Rightarrow> subseq out tx | Failed _ \<Rightarrow> False | Crash x \<Rightarrow> x = Empty_Container))
    \<and> (\<forall>batches. subseq (concat batches) tx \<and> [] \<notin> set batches \<longrightarrow>
         (\<exists>out d'. receive_batches fill batches d = Ok (out, d') \<and> set (concat batches) \<subseteq> set (fst (FecFlush out d'))))"
proof -
  have ends: "dec_ssrc c = own_ssrc" "octet AND 0x7f \<noteq> dec_payload_type c" using assms(1) by (simp_all add: fec_ends_def)
  obtain tx e' where tx: "sender_frames fill octet own_ssrc frames seq_packet e = Ok (tx, seq_packet + of_nat (length tx), e')"
    "fec_blocks c tx" "numbered seq_packet tx" "length tx \<le> 2 * (\<Sum>(ts, bodies) \<leftarrow> frames. length bodies)"
    by (rule sender_frames_blocks [OF configured_encoder [OF assms(1,2)] assms(4) ends, of fill seq_packet]) (rule that)
  have len: "length tx < 32768" using tx(4) assms(5) by simp
  then have "protected_stream c tx" by (rule blocks_protected [OF tx(2,3)])
  note world = stream_world [OF this]
  note start = configured_decoder [OF assms(3)]
  have "case receive_batches fill batches d of Ok (out, d') \<Rightarrow> subseq out tx | Failed _ \<Rightarrow> False | Crash x \<Rightarrow> x = Empty_Container"
    if "set (concat batches) \<subseteq> set tx" for batches
    using receive_batches_sound [OF world(1) start(1) that, of fill] subseq_sorted [OF _ world(2)]
    by (cases "receive_batches fill batches d") (auto simp: decode_ok_def)
  moreover have "\<exists>out d'. receive_batches fill batches d = Ok (out, d') \<and> set (concat batches) \<subseteq> set (fst (FecFlush out d'))"
    if b: "subseq (concat batches) tx" "[] \<notin> set batches" for batches
  proof -
    have "set (concat batches) \<subseteq> set tx" using subseq_subset [OF b(1)] .
    from receive_batches_in_order [OF world(1) start this b(2) subseq_sorted_wrt [OF b(1) world(2)], of fill]
    obtain out d' where "receive_batches fill batches d = Ok (out, d')" "kept (sequence_number (hd tx) - 1) ({} \<union> set (concat batches)) ([] @ out) d'"
      by (metis empty_iff)
    then show ?thesis unfolding flush_all kept_def by fastforce
  qed
  ultimately show ?thesis using tx(1) len by blast
qed

text \<open>C7: (safety) whatever packets of a stream of frames reach the receiver, in whatever order, its decoder puts out packets
  of the stream, unchanged, each at most once and in order; only a call that meets an empty cache fails. When they arrive
  in order, as the session hands them over, no call fails, and every packet that arrives is put out or is in the cache, from
  which \<open>Flush\<close> puts it out.\<close>

theorem fec_stream_delivered:
  assumes "fec_ends own_ssrc octet ec c" and "FecEncoder_Configure (Some ec) fec_encoder_new = Ok e"
    and "FecDecoder_Configure (Some c) fec_decoder_new = Ok d"
    and "frames_ok frames" and "2 * (\<Sum>(ts, bodies) \<leftarrow> frames. length bodies) < 32768"
  shows "\<exists>tx seq' e'. sender_frames fill octet own_ssrc frames seq_packet e = Ok (tx, seq', e')
    \<and> (\<forall>batches. set (concat batches) \<subseteq> set tx \<longrightarrow>
         (case receive_batches fill batches d of Ok (out, d') \<Rightarrow> subseq out tx | Failed _ \<Rightarrow> False | Crash x \<Rightarrow> x = Empty_Container))
    \<and> (\<forall>batches. subseq (concat batches) tx \<and> [] \<notin> set batches \<longrightarrow>
         (\<exists>out d'. receive_batches fill batches d = Ok (out, d') \<and> set (concat batches) \<subseteq> set (fst (FecFlush out d'))))"
  using frames_delivered [OF assms, of fill seq_packet] by blast

text \<open>A frame of three packets, as they leave the sender.\<close>

definition sample_frame :: "u32 \<times> bytes list" where "sample_frame = (0, [[1, 2], [1, 2], [1, 2]])"

definition sample_fec_decoder :: fec_decoder where
  "sample_fec_decoder = fec_decoder_new\<lparr>fd_config := Some fec_sample_decoder\<rparr>"

lemma sample_ends:
  "fec_ends 7 96 \<lparr>enc_ssrc = 7, enc_payload_type = 100\<rparr> fec_sample_decoder"
  "FecEncoder_Configure (Some \<lparr>enc_ssrc = 7, enc_payload_type = 100\<rparr>) fec_encoder_new = Ok fec_sample"
  "FecDecoder_Configure (Some fec_sample_decoder) fec_decoder_new = Ok sample_fec_decoder"
  by (simp_all add: fec_ends_def fec_sample_decoder_def FecEncoder_Configure_def FecDecoder_Configure_def payload_type_invalid_def
      kBitsizePayloadType_def fec_sample_def sample_fec_decoder_def)

lemma sample_frames: "frames_ok [sample_frame]" "2 * (\<Sum>(ts, bodies) \<leftarrow> [sample_frame]. length bodies) < 32768"
  by (simp_all add: frames_ok_def sample_frame_def body_ok_def)

lemma sample_media: "media_packet 96 n 0 7 [1, 2] = sample_packet n"
  by (subst media_packet_fields) (simp_all add: body_ok_def sample_packet_def rtp_empty_def)

lemma protect_media_extends:
  "protect_media fill ps xs s e = Ok (ys, s', e') \<Longrightarrow> prefix xs ys"
  by (auto simp: protect_media_def split: outcome.splits)

lemma sample_frame_sent:
  "sender_frames fill 96 7 [sample_frame] 5 e = Ok (tx, s, e') \<Longrightarrow> prefix (map sample_packet [5, 6, 7]) tx"
  by (auto simp: sample_frame_def sample_media Let_def omap_eq_Ok_conv obind_eq_Ok_conv split: prod.splits dest!: protect_media_extends)

text \<open>The packets of the frame arrive one by one.\<close>

theorem fec_stream_delivered_witness:
  "\<exists>tx s e' out d'. sender_frames 0 96 7 [sample_frame] 5 fec_sample = Ok (tx, s, e') \<and> prefix (map sample_packet [5, 6, 7]) tx
    \<and> receive_batches 0 (map (\<lambda>p. [p]) tx) sample_fec_decoder = Ok (out, d') \<and> subseq out tx
    \<and> set tx \<subseteq> set (fst (FecFlush out d'))"
proof -
  obtain tx s e' where tx: "sender_frames 0 96 7 [sample_frame] 5 fec_sample = Ok (tx, s, e')"
    and sound: "\<forall>batches. set (concat batches) \<subseteq> set tx \<longrightarrow>
         (case receive_batches 0 batches sample_fec_decoder of Ok (out, d') \<Rightarrow> subseq out tx | Failed _ \<Rightarrow> False | Crash x \<Rightarrow> x = Empty_Container)"
    and ok: "\<forall>batches. subseq (concat batches) tx \<and> [] \<notin> set batches \<longrightarrow>
         (\<exists>out d'. receive_batches 0 batches sample_fec_decoder = Ok (out, d') \<and> set (concat batches) \<subseteq> set (fst (FecFlush out d')))"
    using fec_stream_delivered [OF sample_ends sample_frames, of 0 5] by blast
  have all: "concat (map (\<lambda>p. [p]) tx) = tx" by (induction tx) simp_all
  have "[] \<notin> set (map (\<lambda>p. [p]) tx)" by auto
  then obtain out d' where run: "receive_batches 0 (map (\<lambda>p. [p]) tx) sample_fec_decoder = Ok (out, d')"
    "set tx \<subseteq> set (fst (FecFlush out d'))"
    using spec [OF ok, of "map (\<lambda>p. [p]) tx"] unfolding all by auto
  have "subseq out tx" using spec [OF sound, of "map (\<lambda>p. [p]) tx"] unfolding all run(1) by simp
  then show ?thesis using tx run sample_frame_sent [OF tx] by blast
qed

section \<open>One loss per frame\<close>

lemma sorted_split_nearer:
  "sorted_wrt (nearer b) (xs @ ys) \<Longrightarrow> q \<in> set xs \<Longrightarrow> p \<in> set ys \<Longrightarrow> nearer b q p"
  by (simp add: sorted_wrt_append)

text \<open>A frame of which one media packet is missing brings all that is needed to repair it.\<close>

lemma frame_repairs:
  assumes w: "fec_world b c (group_of c S) S" and sorted: "sorted_wrt (nearer b) (pre @ new)" and S: "S = set (pre @ new)"
    and blocks: "fec_blocks c new" and p: "p \<in> set new" "payload_type p \<noteq> dec_payload_type c"
    and ok: "decode_ok b c (group_of c S) S acc d" and kept: "kept b K acc d" and K: "K \<subseteq> set pre"
    and fresh: "\<forall>q \<in> set new. \<not> stale d (sequence_number q)" and first: "acc \<noteq> [] \<or> sequence_number p \<le> 32768"
  shows "repairs c (group_of c S) (remove1 p new) d p" and "remove1 p new \<noteq> []" and "set new = insert p (set (remove1 p new))"
proof -
  obtain us f vs grp where f: "new = us @ f # vs" "p \<in> set us" "p \<in> set grp" "set grp \<subseteq> set new" "protects_group c f grp"
    by (rule fec_blocks_cover [OF blocks p])
  have pt: "payload_type f = dec_payload_type c" by (rule protects_group_wf(4) [OF f(5)])
  have "sorted_wrt (nearer b) new" using sorted by (simp add: sorted_wrt_append)
  then have "distinct new" by (induction new) auto
  then have batch: "set (remove1 p new) = set new - {p}" by (rule set_remove1_eq)
  then show "set new = insert p (set (remove1 p new))" using p(1) by blast
  have f_in: "f \<in> set (remove1 p new)" unfolding batch using f(1) p(2) pt by auto
  then show "remove1 p new \<noteq> []" by auto
  have new_S: "set new \<subseteq> S" using S by simp
  have f_S: "f \<in> S" using f_in batch new_S by blast
  have G: "set (group_of c S f) \<subseteq> S" "protects_group c f (group_of c S f)" using world_packet(7) [OF w f_S pt] by simp_all
  have "set grp \<subseteq> S" using f(4) new_S by blast
  then have "set (group_of c S f) = set grp" by (rule world_same_numbers [OF w G(1) _ group_numbers [OF G(2) f(5)]])
  then have G_new: "set (group_of c S f) \<subseteq> set new" "p \<in> set (group_of c S f)" using f(3,4) by simp_all
  have "f \<notin> structs d"
  proof
    assume "f \<in> structs d"
    then obtain y where "y \<in> K" "\<not> nearer b y f" using kept unfolding kept_def by blast
    then show False using sorted_split_nearer [OF sorted, of y f] K f_in batch by blast
  qed
  moreover have "\<not> IsSeqBefore (sequence_number p) (fd_seq_last_output d)"
  proof (cases "acc = []")
    case True
    then have "fd_seq_last_output d = 0" "sequence_number p \<le> 32768" using ok first by (simp_all add: decode_ok_def)
    then show ?thesis by (auto simp: IsSeqBefore_def IsSeqAfter_dist seq_dist_eq word_le_nat_alt split: if_splits)
  next
    case False
    have "p \<in> S" "fec_inv c (group_of c S) S d" using p(1) new_S ok by (auto simp: decode_ok_def)
    from not_stale_accepted [OF w this(2,1)] show ?thesis using fresh p(1) False ok by (auto simp: decode_ok_def)
  qed
  moreover have "IsSeqAfter (sequence_number p) (sequence_number f)"
  proof -
    have "nearer b p f" using sorted f(1,2) by (auto simp: sorted_wrt_append)
    then show ?thesis using world_after [OF w _ f_S, of p] p(1) new_S by blast
  qed
  moreover have "\<forall>q \<in> set (group_of c S f). \<not> stale d (sequence_number q) \<and> (q \<noteq> p \<longrightarrow> q \<in> set (remove1 p new) \<union> structs d)"
    using G_new(1) fresh batch by blast
  moreover have "\<not> stale d (sequence_number f)" using fresh f_in batch by blast
  ultimately show "repairs c (group_of c S) (remove1 p new) d p" unfolding repairs_def using f_in pt G_new(2) by blast
qed

lemma frame_recovered:
  assumes w: "fec_world b c (group_of c S) S" and sorted: "sorted_wrt (nearer b) (pre @ new)" and S: "S = set (pre @ new)"
    and blocks: "fec_blocks c new" and d: "decode_ok b c (group_of c S) S [] d" "kept b {} [] d"
    and batches: "subseq (concat batches) pre" "[] \<notin> set batches" and run: "receive_batches fill batches d = Ok (acc, d1)"
    and p: "p \<in> set new" "payload_type p \<noteq> dec_payload_type c" and first: "acc \<noteq> [] \<or> sequence_number p \<le> 32768"
  shows "\<exists>out d2. FecDecode fill (remove1 p new) [] d1 = Ok (out, d2) \<and> set new \<subseteq> set (fst (FecFlush out d2))"
proof -
  let ?G = "group_of c S" and ?K = "set (concat batches)"
  have K: "?K \<subseteq> set pre" by (rule subseq_subset [OF batches(1)])
  have pre: "sorted_wrt (nearer b) pre" using sorted by (simp add: sorted_wrt_append)
  have K_S: "?K \<subseteq> S" using K unfolding S set_append by blast
  obtain acc' d' where "receive_batches fill batches d = Ok (acc', d')" "decode_ok b c ?G S ([] @ acc') d'" "kept b ({} \<union> ?K) ([] @ acc') d'"
    by (rule receive_batches_in_order [OF w d K_S batches(2) subseq_sorted_wrt [OF batches(1) pre], of fill]) (simp, rule that)
  then have ok: "decode_ok b c ?G S acc d1" "kept b ?K acc d1" using run by simp_all
  have later: "\<forall>q \<in> ?K. \<forall>y \<in> set new. nearer b q y" using K sorted_split_nearer [OF sorted] by blast
  have new_S: "set new \<subseteq> S" using S by simp
  have "new \<noteq> []" using p(1) by auto
  then have fresh: "\<forall>q \<in> set new. \<not> stale d1 (sequence_number q)"
    by (rule decode_next [OF w ok new_S _ later, of fill])
  note rep = frame_repairs [OF w sorted S blocks p ok K fresh first]
  have sub: "set (remove1 p new) \<subseteq> S" and later': "\<forall>q \<in> ?K. \<forall>y \<in> set (remove1 p new). nearer b q y"
    using rep(3) new_S later by blast+
  obtain out d2 where run2: "FecDecode fill (remove1 p new) [] d1 = Ok (out, d2)" "kept b (?K \<union> set (remove1 p new)) (acc @ out) d2"
    and got: "\<And>q. repairs c ?G (remove1 p new) d1 q \<Longrightarrow> q \<in> set out \<or> q \<in> structs d2" and "decode_ok b c ?G S (acc @ out) d2"
    by (rule decode_next [OF w ok sub rep(2) later', of fill]) (rule that)
  have "q \<in> set out \<union> structs d2" if q: "q \<in> set new" for q
  proof (cases "q = p")
    case True
    then show ?thesis using got [OF rep(1)] by blast
  next
    case False
    then have "q \<in> set (remove1 p new)" using rep(3) q by blast
    then have "q \<in> set (acc @ out) \<union> structs d2" using run2(2) unfolding kept_def by blast
    moreover have "q \<notin> set acc"
    proof
      assume "q \<in> set acc"
      then obtain y where "y \<in> ?K" "\<not> nearer b y q" using ok(2) unfolding kept_def by blast
      then show False using later q by blast
    qed
    ultimately show ?thesis by auto
  qed
  then show ?thesis using run2(1) unfolding flush_all by blast
qed

text \<open>C4: (liveness) when all packets of a frame but one media packet reach the receiver together, its decoder has the
  frame complete after that call: every packet of it, the lost one restored, is put out or is in the cache, from which
  \<open>Flush\<close> puts it out. Before the first output the code recovers no numbers above 32768, so the first frames are excluded then.\<close>

theorem fec_loss_repaired:
  assumes "fec_ends own_ssrc octet ec c" and "FecEncoder_Configure (Some ec) fec_encoder_new = Ok e"
    and "FecDecoder_Configure (Some c) fec_decoder_new = Ok d"
    and "frames_ok (frames @ [fr])" and "2 * (\<Sum>(ts, bodies) \<leftarrow> frames @ [fr]. length bodies) < 32768"
  shows "\<exists>pre seq1 e1 new seq2 e2. sender_frames fill octet own_ssrc frames seq_packet e = Ok (pre, seq1, e1)
    \<and> sender_frames fill octet own_ssrc [fr] seq1 e1 = Ok (new, seq2, e2)
    \<and> (\<forall>batches acc d1 p. subseq (concat batches) pre \<and> [] \<notin> set batches \<and> receive_batches fill batches d = Ok (acc, d1)
         \<and> p \<in> set new \<and> payload_type p \<noteq> dec_payload_type c \<and> (acc \<noteq> [] \<or> sequence_number p \<le> 32768) \<longrightarrow>
         (\<exists>out d2. FecDecode fill (remove1 p new) [] d1 = Ok (out, d2) \<and> set new \<subseteq> set (fst (FecFlush out d2))))"
proof -
  have ends: "dec_ssrc c = own_ssrc" "octet AND 0x7f \<noteq> dec_payload_type c" using assms(1) by (simp_all add: fec_ends_def)
  have frames: "frames_ok frames" "frames_ok [fr]" using assms(4) by (auto simp: frames_ok_def)
  obtain pre e1 where pre: "sender_frames fill octet own_ssrc frames seq_packet e = Ok (pre, seq_packet + of_nat (length pre), e1)"
    "fec_blocks c pre" "numbered seq_packet pre" "encoder_ok c e1" "length pre \<le> 2 * (\<Sum>(ts, bodies) \<leftarrow> frames. length bodies)"
    by (rule sender_frames_blocks [OF configured_encoder [OF assms(1,2)] frames(1) ends, of fill seq_packet]) (rule that)
  let ?s = "seq_packet + of_nat (length pre)"
  obtain new e2 where new: "sender_frames fill octet own_ssrc [fr] ?s e1 = Ok (new, ?s + of_nat (length new), e2)"
    "fec_blocks c new" "numbered ?s new" "length new \<le> 2 * (\<Sum>(ts, bodies) \<leftarrow> [fr]. length bodies)"
    by (rule sender_frames_blocks [OF pre(4) frames(2) ends, of fill ?s]) (rule that)
  have "length (pre @ new) < 32768" using pre(5) new(4) assms(5) by simp
  then have "protected_stream c (pre @ new)"
    using blocks_protected [OF fec_blocks_append [OF pre(2) new(2)]] pre(3) new(3) by (simp add: numbered_append)
  note world = stream_world [OF this]
  note start = configured_decoder [OF assms(3)]
  have "\<forall>batches acc d1 p. subseq (concat batches) pre \<and> [] \<notin> set batches \<and> receive_batches fill batches d = Ok (acc, d1)
      \<and> p \<in> set new \<and> payload_type p \<noteq> dec_payload_type c \<and> (acc \<noteq> [] \<or> sequence_number p \<le> 32768) \<longrightarrow>
      (\<exists>out d2. FecDecode fill (remove1 p new) [] d1 = Ok (out, d2) \<and> set new \<subseteq> set (fst (FecFlush out d2)))"
    using frame_recovered [OF world refl new(2) start] by blast
  then show ?thesis using pre(1) new(1) by blast
qed

text \<open>The second packet of the frame is lost.\<close>

theorem fec_loss_repaired_witness:
  "\<exists>new s e2 out d2. sender_frames 0 96 7 [sample_frame] 5 fec_sample = Ok (new, s, e2)
    \<and> FecDecode 0 (remove1 (sample_packet 6) new) [] sample_fec_decoder = Ok (out, d2)
    \<and> sample_packet 6 \<in> set (fst (FecFlush out d2))"
proof -
  have frames: "frames_ok ([] @ [sample_frame])" "2 * (\<Sum>(ts, bodies) \<leftarrow> [] @ [sample_frame]. length bodies) < 32768"
    using sample_frames by simp_all
  obtain pre seq1 e1 new seq2 e2 where pre: "sender_frames 0 96 7 [] 5 fec_sample = Ok (pre, seq1, e1)"
    and new: "sender_frames 0 96 7 [sample_frame] seq1 e1 = Ok (new, seq2, e2)"
    and rep: "\<forall>batches acc d1 p. subseq (concat batches) pre \<and> [] \<notin> set batches \<and> receive_batches 0 batches sample_fec_decoder = Ok (acc, d1)
         \<and> p \<in> set new \<and> payload_type p \<noteq> dec_payload_type fec_sample_decoder \<and> (acc \<noteq> [] \<or> sequence_number p \<le> 32768) \<longrightarrow>
         (\<exists>out d2. FecDecode 0 (remove1 p new) [] d1 = Ok (out, d2) \<and> set new \<subseteq> set (fst (FecFlush out d2)))"
    using fec_loss_repaired [OF sample_ends frames, of 0 5] by blast
  have new': "sender_frames 0 96 7 [sample_frame] 5 fec_sample = Ok (new, seq2, e2)" using pre new by simp
  from sample_frame_sent [OF this] have lost: "sample_packet 6 \<in> set new" by (auto simp: prefix_def)
  have "payload_type (sample_packet 6) \<noteq> dec_payload_type fec_sample_decoder" "sequence_number (sample_packet 6) \<le> 32768"
    by (simp_all add: sample_packet_def payload_type_def fec_sample_decoder_def)
  then obtain out d2 where "FecDecode 0 (remove1 (sample_packet 6) new) [] sample_fec_decoder = Ok (out, d2)"
    "set new \<subseteq> set (fst (FecFlush out d2))"
    using spec [OF spec [OF spec [OF spec [OF rep, of "[]"], of "[]"], of sample_fec_decoder], of "sample_packet 6"] lost by auto
  then show ?thesis using new' lost by blast
qed

section \<open>Over the network\<close>

text \<open>C5: (safety) application to application, over the lossy network of \<open>Lossy_Network\<close>: the near application sends the packets
  of a stream of frames, in the order in which they come out of the encoder, and the far one decodes what its session
  hands over. Then no call of the decoder fails, the far application gets packets of the stream, unchanged, each at most
  once and in order, and nothing that its session handed over is lost.\<close>

theorem fec_over_network:
  assumes "net_reachable a b w" and "paired a b"
    and "fec_ends own_ssrc octet ec c" and "FecEncoder_Configure (Some ec) fec_encoder_new = Ok e"
    and "FecDecoder_Configure (Some c) fec_decoder_new = Ok d"
    and "frames_ok frames" and "2 * (\<Sum>(ts, bodies) \<leftarrow> frames. length bodies) < 32768"
    and "sender_frames fill octet own_ssrc frames seq_packet e = Ok (tx, seq', e')" and "prefix (accepted w) tx"
    and "concat batches = handed w" and "[] \<notin> set batches"
  shows "\<exists>out d'. receive_batches fill batches d = Ok (out, d') \<and> subseq out tx
    \<and> set (handed w) \<subseteq> set (fst (FecFlush out d'))"
proof -
  obtain seq1 e1 where run: "sender_frames fill octet own_ssrc frames seq_packet e = Ok (tx, seq1, e1)"
    and sound: "\<forall>batches. set (concat batches) \<subseteq> set tx \<longrightarrow>
         (case receive_batches fill batches d of Ok (out, d') \<Rightarrow> subseq out tx | Failed _ \<Rightarrow> False | Crash x \<Rightarrow> x = Empty_Container)"
    and ok: "\<forall>batches. subseq (concat batches) tx \<and> [] \<notin> set batches \<longrightarrow>
         (\<exists>out d'. receive_batches fill batches d = Ok (out, d') \<and> set (concat batches) \<subseteq> set (fst (FecFlush out d')))"
    and "length tx < 32768"
    using frames_delivered [OF assms(3-7), of fill seq_packet] assms(8) by auto
  have "length (accepted w) < 32768"
    using \<open>length tx < 32768\<close> prefix_length_le [OF assms(9)] by simp
  then have "subseq (handed w) (accepted w)" by (rule handed_in_order(2) [OF net_reachable_ok [OF assms(1,2)]])
  then have sub: "subseq (concat batches) tx"
    unfolding assms(10) using assms(9) subseq_order.order_trans by (blast intro: prefix_imp_subseq)
  then obtain out d' where run_ok: "receive_batches fill batches d = Ok (out, d')" "set (handed w) \<subseteq> set (fst (FecFlush out d'))"
    using ok assms(10,11) by metis
  have "case receive_batches fill batches d of Ok (out, d') \<Rightarrow> subseq out tx | Failed _ \<Rightarrow> False | Crash x \<Rightarrow> x = Empty_Container"
    using sound subseq_subset [OF sub] by blast
  then have "subseq out tx" using run_ok(1) by simp
  then show ?thesis using run_ok by blast
qed

text \<open>In the run of \<open>Lossy_Delivery\<close> the three packets of the frame have been sent and the first has arrived, twice.\<close>

theorem fec_over_network_witness:
  "\<exists>w tx s e' out d'. net_reachable near_media far_media w \<and> sender_frames 0 96 7 [sample_frame] 5 fec_sample = Ok (tx, s, e')
    \<and> prefix (accepted w) tx \<and> handed w = [sample_packet 5]
    \<and> receive_batches 0 [handed w] sample_fec_decoder = Ok (out, d') \<and> subseq out tx
    \<and> sample_packet 5 \<in> set (fst (FecFlush out d'))"
proof -
  obtain w where w: "net_reachable near_media far_media w" "accepted w = map sample_packet [5, 6, 7]" "handed w = [sample_packet 5]"
    by (rule sample_world)
  obtain tx s e' where tx: "sender_frames 0 96 7 [sample_frame] 5 fec_sample = Ok (tx, s, e')"
    using frames_delivered [OF sample_ends sample_frames, of 0 5] by blast
  have "prefix (accepted w) tx" using sample_frame_sent [OF tx] w(2) by simp
  moreover have "concat [handed w] = handed w" "[] \<notin> set [handed w]" by (simp_all add: w(3))
  ultimately show ?thesis
    using fec_over_network [OF w(1) sample_paired sample_ends sample_frames tx] w tx by fastforce
qed

section \<open>Two limits of the code\<close>

text \<open>\<open>Flush\<close> does not look at the last output: the packets that were put out as copies and are still in the cache are put
  out a second time.\<close>

lemma flush_repeats: "x \<in> set (fd_cached_packets d) \<Longrightarrow> fc_rtp_struct x \<in> set (fst (FecFlush [] d))"
  by (simp add: FecFlush_def Let_def)

lemma flush_repeats_sample:
  "\<exists>out d. output_packets (decoder_with [5, 6, 8] True 4) [] = (Ok (out, d) :: (unit, rtp_packet list \<times> fec_decoder) outcome)
    \<and> out \<noteq> [] \<and> set out \<subseteq> set (fst (FecFlush [] d))"
  by (intro exI conjI, rule decoder_with_outputs) (auto simp: FecFlush_def Let_def decoder_with_def)

text \<open>Before the first output the member \<open>seq_last_output_\<close> is 0, and the test before recovering does not ask
  whether there has been one: numbers above 32768 count as before it and are not recovered.\<close>

lemma high_number_not_recovered:
  assumes "fc_deref d (fc_id x) = (Ok x :: ('e, fec_cached) outcome)" and "\<not> fc_invalid_fec x" and "sr_missing (scanned lst d x) = [s]"
    and "fd_seq_last_output d = 0" and "32768 < s" and "fd_cached_packets d \<noteq> []"
  shows "recover_from lst (fc_id x) d = (Ok (scan_noted lst x d) :: ('e, fec_decoder) outcome)"
proof -
  have "unat s > 32768" using assms(5) by (simp add: word_less_nat_alt)
  then have "seq_dist s 0 = 65536 - unat s" by (auto simp: seq_dist_eq word_le_nat_alt)
  then have before: "IsSeqBefore s 0" using \<open>unat s > 32768\<close> u16_bound [of s] by (simp add: IsSeqBefore_def IsSeqAfter_dist)
  have frame: "fd_seq_last_output (scan_noted lst x d) = 0" "fd_cached_packets (scan_noted lst x d) \<noteq> []"
    using assms(4,6) by (simp_all add: scan_noted_def fc_update_def)
  show ?thesis
    unfolding recover_from_scanned [OF assms(1,2)] Let_def using assms(3) before frame by (simp add: latest_cached_seq_def)
qed

end
