(* ===== verification/Rtp_Receiver_Loss.thy ===== *)
theory Rtp_Receiver_Loss
  imports Rtp_Receiver_Order
begin

text \<open>
  The list of lost sequence numbers: which numbers \<open>SupplementLossSeqs\<close> enters, that it keeps the
  list in descending order, and hence that the numbers handed to the NACK are in the ascending
  order the NACK packet needs. The loops over a gap that wraps around leave out number 0, and run
  over all numbers when the gap lies directly below number 0; both are stated.
\<close>

section \<open>The numbers of a gap\<close>

lemma seq_dist_add:
  assumes "seq_dist b a + seq_dist a s < 65536"
  shows "seq_dist b s = seq_dist b a + seq_dist a s"
proof -
  have "unat ((a - b) + (s - a)) = unat (a - b) + unat (s - a)"
    using assms by (subst unat_word_ariths(1)) (simp add: seq_dist_def)
  then show ?thesis by (simp add: seq_dist_def)
qed

lemma seq_dist_between:
  assumes "seq_dist b lo < seq_dist b hi" and "seq_dist b hi < 32768"
  shows "seq_dist b lo < seq_dist b s \<and> seq_dist b s < seq_dist b hi \<longleftrightarrow>
    0 < seq_dist lo s \<and> seq_dist lo s < seq_dist lo hi"
proof -
  have hi: "seq_dist lo hi = seq_dist b hi - seq_dist b lo" using assms by (intro seq_dist_trans) simp
  show ?thesis
  proof
    assume "seq_dist b lo < seq_dist b s \<and> seq_dist b s < seq_dist b hi"
    then show "0 < seq_dist lo s \<and> seq_dist lo s < seq_dist lo hi"
      using seq_dist_trans [of b lo s] hi by auto
  next
    assume *: "0 < seq_dist lo s \<and> seq_dist lo s < seq_dist lo hi"
    then have "seq_dist b s = seq_dist b lo + seq_dist lo s"
      using assms hi by (intro seq_dist_add) linarith
    then show "seq_dist b lo < seq_dist b s \<and> seq_dist b s < seq_dist b hi" using * hi assms by linarith
  qed
qed

lemma set_down_from: "s \<in> set (down_from hi lo) \<longleftrightarrow> lo < s \<and> s \<le> hi"
proof
  assume "s \<in> set (down_from hi lo)"
  then obtain n where n: "s = of_nat n" "unat lo < n" "n \<le> unat hi" by (auto simp: down_from_def simp del: upt_Suc)
  then have "unat s = n" using u16_bound [of hi] by (simp add: unat_of_nat)
  then show "lo < s \<and> s \<le> hi" using n by (simp add: word_less_nat_alt word_le_nat_alt)
next
  assume "lo < s \<and> s \<le> hi"
  then have "unat s \<in> {unat lo + 1..<unat hi + 1}" and "s = of_nat (unat s)"
    by (auto simp: word_less_nat_alt word_le_nat_alt)
  then show "s \<in> set (down_from hi lo)" unfolding down_from_def by (metis image_eqI set_map set_rev set_upt)
qed

lemma sorted_down_from: "sorted_wrt (\<lambda>x y. y < x) (down_from hi lo)"
proof -
  have "sorted_wrt (<) (map (of_nat :: nat \<Rightarrow> u16) [m..<n])" if "n \<le> 65536" for m n
  proof -
    have "(of_nat i :: u16) < of_nat j" if "i < j" "j < n" for i j
      using that \<open>n \<le> 65536\<close> by (simp add: word_less_nat_alt unat_of_nat)
    then show ?thesis by (auto simp: sorted_wrt_map intro!: sorted_wrt_mono_rel [OF _ sorted_wrt_upt])
  qed
  then show ?thesis using u16_bound [of hi] by (auto simp: down_from_def sorted_wrt_rev simp del: upt_Suc)
qed

lemma unat_pred: "prev \<noteq> 0 \<Longrightarrow> unat (prev - 1 :: u16) = unat prev - 1 \<and> 0 < unat prev"
proof -
  assume nz: "prev \<noteq> 0"
  then have "1 \<le> prev" by (metis word_le_0_iff le_less_linear word_less_1)
  moreover have "0 < unat prev" using nz by (metis neq0_conv unsigned_eq_0_iff)
  ultimately show ?thesis by (simp add: unat_sub)
qed

lemma set_gap_seqs:
  assumes "seq_dist b this < seq_dist b prev" and "seq_dist b prev < 32768" and "prev \<noteq> 0"
  shows "s \<in> set (gap_seqs prev this) \<longleftrightarrow>
    seq_dist b this < seq_dist b s \<and> seq_dist b s < seq_dist b prev \<and> s \<noteq> 0"
proof -
  have p: "unat s \<le> unat (prev - 1) \<longleftrightarrow> unat s < unat prev"
    using unat_pred [OF assms(3)] by auto
  have ne: "this \<noteq> prev" using assms(1) by auto
  have b: "0 < seq_dist this s \<and> seq_dist this s < seq_dist this prev \<and> s \<noteq> 0 \<longleftrightarrow> s \<in> set (gap_seqs prev this)"
  proof (cases "this < prev")
    case True
    have "unat (0 :: u16) = 0" by simp
    then show ?thesis using True u16_bound [of s] u16_bound [of prev]
      by (auto simp: gap_seqs_def set_down_from p seq_dist_eq word_le_nat_alt word_less_nat_alt simp flip: word_unat_eq_iff)
  next
    case False
    then have "prev < this" using ne by simp
    moreover have "s \<le> 0xffff" and "0 < s \<longleftrightarrow> s \<noteq> 0"
      using u16_bound [of s] by (simp_all add: word_le_nat_alt word_greater_zero_iff)
    ultimately show ?thesis using False u16_bound [of s] u16_bound [of this] u16_bound [of prev]
      by (auto simp: gap_seqs_def set_down_from p seq_dist_eq word_le_nat_alt word_less_nat_alt simp flip: word_unat_eq_iff)
  qed
  show ?thesis using seq_dist_between [OF assms(1,2), of s] b by blast
qed

text \<open>In ranks relative to the base every stream of losses runs strictly downwards.\<close>

abbreviation falling :: "u16 \<Rightarrow> u16 list \<Rightarrow> bool" where
  "falling b \<equiv> sorted_wrt (\<lambda>x y. seq_dist b y < seq_dist b x)"

lemma falling_gap_seqs:
  assumes "seq_dist b this < seq_dist b prev" and "seq_dist b prev < 32768" and "prev \<noteq> 0"
  shows "falling b (gap_seqs prev this)"
proof -
  have dist: "seq_dist b y < seq_dist b x \<longleftrightarrow> seq_dist this y < seq_dist this x"
    if "x \<in> set (gap_seqs prev this)" "y \<in> set (gap_seqs prev this)" for x y
  proof -
    have r: "seq_dist b this < seq_dist b z \<and> seq_dist this z = seq_dist b z - seq_dist b this"
      if "z \<in> set (gap_seqs prev this)" for z
      using that set_gap_seqs [OF assms, of z] seq_dist_trans [of b this z] by simp
    show ?thesis using r [OF that(1)] r [OF that(2)] by linarith
  qed
  have up: "seq_dist this y < seq_dist this x" if "y < x" "this < y \<or> x < this" for x y
    using that u16_bound [of this] u16_bound [of x]
    by (auto simp: seq_dist_eq word_le_nat_alt word_less_nat_alt)
  have down: "sorted_wrt (\<lambda>x y. seq_dist this y < seq_dist this x) (down_from hi lo)"
    if "this \<le> lo \<or> hi < this" for hi lo
    by (rule sorted_wrt_mono_rel [OF _ sorted_down_from]) (use that in \<open>auto simp: set_down_from intro!: up\<close>)
  have "sorted_wrt (\<lambda>x y. seq_dist this y < seq_dist this x) (gap_seqs prev this)"
  proof (cases "this < prev")
    case True
    then show ?thesis using down [of this "prev - 1"] by (simp add: gap_seqs_def)
  next
    case False
    have "this \<noteq> prev" using assms(1) by auto
    then have lt: "prev < this" using False by simp
    have "prev - 1 < this" using lt unat_pred [OF assms(3)] by (simp add: word_less_nat_alt)
    moreover have "seq_dist this y < seq_dist this x" if "x \<le> prev - 1" "this < y" for x y
      using that calculation u16_bound [of y] u16_bound [of this]
      by (auto simp: seq_dist_eq word_le_nat_alt word_less_nat_alt)
    ultimately show ?thesis using False down [of 0 "prev - 1"] down [of this "0xffff"]
      by (auto simp: gap_seqs_def sorted_wrt_append set_down_from)
  qed
  then show ?thesis by (rule sorted_wrt_mono_rel [rotated]) (use dist in blast)
qed

text \<open>The whole stream of losses for a descending list: the numbers strictly between its ends that
  are not in it, number 0 excepted.\<close>

lemma all_gaps_props:
  assumes "falling b (prev # seqs)" and "seq_dist b prev < 32768" and "0 \<notin> set (butlast (prev # seqs))"
  shows "falling b (all_gaps prev seqs)
    \<and> (\<forall>s. s \<in> set (all_gaps prev seqs) \<longleftrightarrow> seq_dist b (last (prev # seqs)) < seq_dist b s
         \<and> seq_dist b s < seq_dist b prev \<and> s \<notin> set seqs \<and> s \<noteq> 0)"
  using assms
proof (induction prev seqs rule: all_gaps.induct)
  case (1 prev)
  then show ?case by simp
next
  case (2 prev this seqs)
  have lt: "seq_dist b this < seq_dist b prev" and below: "\<forall>s \<in> set seqs. seq_dist b s < seq_dist b this"
    using "2.prems"(1) by auto
  have nz: "prev \<noteq> 0" using "2.prems"(3) by auto
  have IH: "falling b (all_gaps this seqs)"
    "s \<in> set (all_gaps this seqs) \<longleftrightarrow> seq_dist b (last (this # seqs)) < seq_dist b s
       \<and> seq_dist b s < seq_dist b this \<and> s \<notin> set seqs \<and> s \<noteq> 0" for s
    using 2 lt by (auto split: if_splits)
  have last: "seq_dist b (last (this # seqs)) \<le> seq_dist b this"
    using below by (cases "seqs = []") (auto intro: less_imp_le)
  define gap where "gap = (if IsNextSeq this prev then [] else gap_seqs prev this)"
  have gap: "s \<in> set gap \<longleftrightarrow> seq_dist b this < seq_dist b s \<and> seq_dist b s < seq_dist b prev \<and> s \<noteq> 0" for s
  proof (cases "IsNextSeq this prev")
    case True
    then have "seq_dist this prev = 1" by (simp add: IsNextSeq_iff seq_dist_def)
    then have "seq_dist b prev = seq_dist b this + 1" using lt seq_dist_trans [of b this prev] by simp
    then show ?thesis using True by (auto simp: gap_def)
  next
    case False
    then show ?thesis using set_gap_seqs [OF lt "2.prems"(2) nz] by (simp add: gap_def)
  qed
  have "falling b gap" using falling_gap_seqs [OF lt "2.prems"(2) nz] by (simp add: gap_def)
  then have "falling b (gap @ all_gaps this seqs)"
    using IH gap by (fastforce simp: sorted_wrt_append)
  moreover have "s \<in> set (gap @ all_gaps this seqs) \<longleftrightarrow> seq_dist b (last (prev # this # seqs)) < seq_dist b s
      \<and> seq_dist b s < seq_dist b prev \<and> s \<notin> set (this # seqs) \<and> s \<noteq> 0" for s
    using IH(2) [of s] gap [of s] last below lt seq_dist_inj [of b s this]
    by (cases "seq_dist b s" "seq_dist b this" rule: linorder_cases) auto
  ultimately show ?case by (simp add: gap_def)
qed

section \<open>Entering them into the list\<close>

lemma skip_later_eq:
  "skip_later s passed rest =
    (rev (takeWhile (\<lambda>l. s \<noteq> loss_seq l \<and> IsSeqBefore s (loss_seq l)) rest) @ passed,
     dropWhile (\<lambda>l. s \<noteq> loss_seq l \<and> IsSeqBefore s (loss_seq l)) rest)"
  by (induction s passed rest rule: skip_later.induct) auto

definition cursor_list :: "loss_cursor \<Rightarrow> u16 list" where
  "cursor_list = (\<lambda>(passed, rest, n). map loss_seq (rev passed @ rest))"

definition cursor_inv :: "u16 \<Rightarrow> u16 set \<Rightarrow> loss_cursor \<Rightarrow> bool" where
  "cursor_inv b todo = (\<lambda>(passed, rest, n). falling b (map loss_seq (rev passed @ rest))
     \<and> (\<forall>l \<in> set passed \<union> set rest. seq_dist b (loss_seq l) < 32768)
     \<and> (\<forall>l \<in> set passed. \<forall>s \<in> todo. seq_dist b s < seq_dist b (loss_seq l)))"

text \<open>The cursor stops between the entries after the lost number and the others.\<close>

lemma skip_later_splits:
  assumes s: "seq_dist b s < 32768"
    and win: "\<forall>l \<in> set rest. seq_dist b (loss_seq l) < 32768"
    and srt: "falling b (map loss_seq rest)"
  obtains skipped left where "rest = skipped @ left" and "skip_later s passed rest = (rev skipped @ passed, left)"
    and "\<forall>l \<in> set skipped. seq_dist b s < seq_dist b (loss_seq l)"
    and "\<forall>l \<in> set left. seq_dist b (loss_seq l) \<le> seq_dist b s"
    and "left \<noteq> [] \<Longrightarrow> s \<noteq> loss_seq (hd left) \<Longrightarrow> \<forall>l \<in> set left. seq_dist b (loss_seq l) < seq_dist b s"
proof -
  define P where "P = (\<lambda>l :: loss_entry. s \<noteq> loss_seq l \<and> IsSeqBefore s (loss_seq l))"
  define skipped where "skipped = takeWhile P rest"
  define left where "left = dropWhile P rest"
  have rest: "rest = skipped @ left" by (simp add: skipped_def left_def)
  have P: "P l \<longleftrightarrow> seq_dist b s < seq_dist b (loss_seq l)" if "l \<in> set rest" for l
    using that win IsSeqAfter_window [OF s, of "loss_seq l"] by (auto simp: P_def IsSeqBefore_def)
  have skip: "\<forall>l \<in> set skipped. seq_dist b s < seq_dist b (loss_seq l)"
    using P set_takeWhileD [of _ P rest] by (fastforce simp: skipped_def)
  have head: "seq_dist b (loss_seq (hd left)) \<le> seq_dist b s" if "left \<noteq> []"
  proof -
    have "\<not> P (hd left)" using hd_dropWhile [of P rest] that by (simp add: left_def)
    moreover have "hd left \<in> set rest" using rest that by simp
    ultimately show ?thesis using P by (meson not_less)
  qed
  have tail: "x = hd left \<or> seq_dist b (loss_seq x) < seq_dist b (loss_seq (hd left))" if "x \<in> set left" for x
    using srt rest that by (cases left) (auto simp: sorted_wrt_append)
  have le: "\<forall>l \<in> set left. seq_dist b (loss_seq l) \<le> seq_dist b s"
  proof
    fix l assume l: "l \<in> set left"
    then have "left \<noteq> []" by auto
    then show "seq_dist b (loss_seq l) \<le> seq_dist b s" using head tail [OF l] by (meson le_trans less_imp_le)
  qed
  have lt: "\<forall>l \<in> set left. seq_dist b (loss_seq l) < seq_dist b s" if "left \<noteq> []" "s \<noteq> loss_seq (hd left)"
    using head [OF that(1)] tail seq_dist_inj [of b "loss_seq (hd left)" s] that(2) by fastforce
  have "skip_later s passed rest = (rev skipped @ passed, left)"
    by (simp add: skip_later_eq skipped_def left_def P_def)
  then show thesis using that rest skip le lt by blast
qed

lemma note_loss_inv:
  assumes inv: "cursor_inv b (insert s todo) st" and s: "seq_dist b s < 32768"
    and below: "\<forall>t \<in> todo. seq_dist b t < seq_dist b s"
  shows "cursor_inv b todo (note_loss s st) \<and> set (cursor_list (note_loss s st)) = insert s (set (cursor_list st))"
proof -
  obtain passed rest n where st: "st = (passed, rest, n)" by (metis prod_cases3)
  have win: "\<forall>l \<in> set passed \<union> set rest. seq_dist b (loss_seq l) < 32768"
    and sorted: "falling b (map loss_seq (rev passed @ rest))"
    and above: "\<forall>l \<in> set passed. seq_dist b s < seq_dist b (loss_seq l)"
    using inv st by (auto simp: cursor_inv_def)
  have "\<forall>l \<in> set rest. seq_dist b (loss_seq l) < 32768" "falling b (map loss_seq rest)"
    using win sorted by (auto simp: sorted_wrt_append)
  from skip_later_splits [OF s this, of passed]
  obtain skipped left where rest: "rest = skipped @ left"
    and sk: "skip_later s passed rest = (rev skipped @ passed, left)"
    and skip: "\<forall>l \<in> set skipped. seq_dist b s < seq_dist b (loss_seq l)"
    and lower: "left \<noteq> [] \<Longrightarrow> s \<noteq> loss_seq (hd left) \<Longrightarrow> \<forall>l \<in> set left. seq_dist b (loss_seq l) < seq_dist b s"
    by metis
  note srt = sorted [unfolded rest]
  have todo: "\<forall>l \<in> set passed \<union> set skipped. \<forall>t \<in> todo. seq_dist b t < seq_dist b (loss_seq l)"
    using above skip below by (meson UnE less_trans)
  show ?thesis
  proof (cases "left \<noteq> [] \<and> s = loss_seq (hd left)")
    case True
    then have st': "note_loss s st = (rev skipped @ passed, left, n)"
      unfolding st note_loss_def prod.case sk by simp
    have "s \<in> loss_seq ` set left" using True by (metis hd_in_set imageI)
    then show ?thesis unfolding st' using srt win todo rest
      by (auto simp: cursor_inv_def cursor_list_def st)
  next
    case False
    then have st': "note_loss s st = (loss_new s # rev skipped @ passed, left, n + 1)"
      by (auto simp: st note_loss_def sk)
    have "\<forall>l \<in> set left. seq_dist b (loss_seq l) < seq_dist b s" using False lower by (cases left) auto
    then show ?thesis unfolding st' using srt win above skip todo below rest s
      by (auto simp: cursor_inv_def cursor_list_def st sorted_wrt_append loss_new_def)
  qed
qed

lemma fold_note_loss_inv:
  assumes "falling b ss" and "\<forall>s \<in> set ss. seq_dist b s < 32768" and "cursor_inv b (set ss) st"
  shows "cursor_inv b {} (fold note_loss ss st) \<and> set (cursor_list (fold note_loss ss st)) = set ss \<union> set (cursor_list st)"
  using assms
proof (induction ss arbitrary: st)
  case Nil
  then show ?case by simp
next
  case (Cons s ss)
  have "cursor_inv b (set ss) (note_loss s st) \<and> set (cursor_list (note_loss s st)) = insert s (set (cursor_list st))"
    by (rule note_loss_inv) (use Cons.prems in auto)
  with Cons show ?case by auto
qed

section \<open>SupplementLossSeqs\<close>

text \<open>The number below the oldest cached packet that is known not to be lost.\<close>

definition lowest_known :: "receiver_cache \<Rightarrow> u16" where
  "lowest_known c = (if has_callback_packet c then latest_callback_seq c else cp_seq (last (cached_packets c)))"

definition all_in_window :: "u16 \<Rightarrow> receiver_cache \<Rightarrow> bool" where
  "all_in_window b c \<longleftrightarrow> seq.in_window b (set (map cp_seq (cached_packets c)) \<union> set (map loss_seq (loss_seqs c))
     \<union> (if has_callback_packet c then {latest_callback_seq c} else {}))"

lemma descending_falling:
  "seq.in_window b (set xs) \<Longrightarrow> descending xs \<longleftrightarrow> falling b xs"
  by (induction xs) (auto simp: seq.in_window_def IsSeqAfter_window [of b])

lemma between_dist:
  assumes "seq_dist b lo < 32768" and "seq_dist b hi < 32768" and "seq_dist b lo \<le> seq_dist b hi"
  shows "seq_dist b lo < seq_dist b s \<and> seq_dist b s < seq_dist b hi \<longleftrightarrow> IsSeqAfter lo s \<and> IsSeqAfter s hi"
proof
  assume "seq_dist b lo < seq_dist b s \<and> seq_dist b s < seq_dist b hi"
  then show "IsSeqAfter lo s \<and> IsSeqAfter s hi" using assms IsSeqAfter_window [of b] by auto
next
  assume "IsSeqAfter lo s \<and> IsSeqAfter s hi"
  then have *: "0 < seq_dist lo s" "0 < seq_dist s hi" "seq_dist lo s + seq_dist s hi < 65536"
    by (auto simp: IsSeqAfter_dist)
  then have "seq_dist lo hi = seq_dist lo s + seq_dist s hi" by (intro seq_dist_add)
  then have "0 < seq_dist lo s \<and> seq_dist lo s < seq_dist lo hi" using * by simp
  moreover from this have "seq_dist b lo < seq_dist b hi"
    using assms(3) seq_dist_trans [OF assms(3)] by linarith
  ultimately show "seq_dist b lo < seq_dist b s \<and> seq_dist b s < seq_dist b hi"
    using seq_dist_between assms(2) by blast
qed

text \<open>The numbers that \<open>SupplementLossSeqs\<close> goes through, from the highest cached one down to the lowest known.\<close>

definition searched :: "receiver_cache \<Rightarrow> u16 list" where
  "searched c = map cp_seq (cached_packets c) @ (if has_callback_packet c then [latest_callback_seq c] else [])"

definition cache_ordered :: "u16 \<Rightarrow> receiver_cache \<Rightarrow> bool" where
  "cache_ordered b c \<longleftrightarrow> cached_packets c \<noteq> [] \<and> descending (map cp_seq (cached_packets c)) \<and> all_in_window b c
     \<and> (has_callback_packet c \<longrightarrow> (\<forall>x \<in> set (cached_packets c). IsSeqAfter (latest_callback_seq c) (cp_seq x)))"

lemma searched_falling:
  assumes "cache_ordered b c"
  shows "falling b (searched c)" and "\<forall>s \<in> set (searched c). seq_dist b s < 32768" and "last (searched c) = lowest_known c"
proof -
  let ?cs = "map cp_seq (cached_packets c)"
  show win: "\<forall>s \<in> set (searched c). seq_dist b s < 32768"
    using assms by (auto simp: cache_ordered_def searched_def all_in_window_def seq.in_window_def split: if_splits)
  have "falling b ?cs"
    using assms descending_falling [of b ?cs] by (auto simp: cache_ordered_def all_in_window_def seq.in_window_def)
  moreover have "seq_dist b (latest_callback_seq c) < seq_dist b s" if "has_callback_packet c" "s \<in> set ?cs" for s
    using assms that win IsSeqAfter_window [of b "latest_callback_seq c" s]
    by (fastforce simp: cache_ordered_def searched_def)
  ultimately show "falling b (searched c)" by (auto simp: searched_def sorted_wrt_append)
  show "last (searched c) = lowest_known c"
    using assms by (auto simp: searched_def lowest_known_def cache_ordered_def last_map)
qed

lemma gaps_exact:
  assumes ord: "cache_ordered b c" and zero: "0 \<notin> cp_seq ` set (cached_packets c)"
  shows "falling b (all_gaps (hd (searched c)) (tl (searched c)))"
    and "s \<in> set (all_gaps (hd (searched c)) (tl (searched c))) \<longleftrightarrow>
      IsSeqAfter (lowest_known c) s \<and> IsSeqAfter s (cp_seq (hd (cached_packets c)))
      \<and> s \<notin> cp_seq ` set (cached_packets c) \<and> s \<noteq> 0"
proof -
  note fall = searched_falling [OF ord]
  have ne: "cached_packets c \<noteq> []" using ord by (simp add: cache_ordered_def)
  then have split: "searched c = hd (searched c) # tl (searched c)" by (simp add: searched_def)
  have hd: "hd (searched c) = cp_seq (hd (cached_packets c))" using ne by (simp add: searched_def hd_map)
  have last: "last (searched c) = lowest_known c" by (rule fall(3))
  have "set (butlast (searched c)) \<subseteq> cp_seq ` set (cached_packets c)"
    using ne by (auto simp: searched_def butlast_append dest: in_set_butlastD)
  then have "0 \<notin> set (butlast (searched c))" using zero by blast
  moreover have w: "seq_dist b (hd (searched c)) < 32768" "seq_dist b (last (searched c)) < 32768"
    using fall(2) split by (metis list.set_intros(1), metis last_in_set list.distinct(1))
  ultimately have gaps: "falling b (all_gaps (hd (searched c)) (tl (searched c)))"
    "\<And>s. s \<in> set (all_gaps (hd (searched c)) (tl (searched c))) \<longleftrightarrow> seq_dist b (last (searched c)) < seq_dist b s
         \<and> seq_dist b s < seq_dist b (hd (searched c)) \<and> s \<notin> set (tl (searched c)) \<and> s \<noteq> 0"
    using all_gaps_props [of b "hd (searched c)" "tl (searched c)"] fall(1) unfolding split [symmetric] by auto
  show "falling b (all_gaps (hd (searched c)) (tl (searched c)))" by (rule gaps(1))
  have "falling b (hd (searched c) # tl (searched c))" using fall(1) split by simp
  moreover have "last (searched c) = hd (searched c) \<or> last (searched c) \<in> set (tl (searched c))"
    using split by (metis last_ConsL last_ConsR last_in_set)
  ultimately have le: "seq_dist b (last (searched c)) \<le> seq_dist b (hd (searched c))" by (auto intro: less_imp_le)
  have "s \<notin> set (tl (searched c)) \<longleftrightarrow> s \<notin> cp_seq ` set (cached_packets c)"
    if "IsSeqAfter (lowest_known c) s" "IsSeqAfter s (hd (searched c))"
  proof -
    have "s \<noteq> hd (searched c)" "s \<noteq> lowest_known c" using that by (auto simp: IsSeqAfter_dist)
    moreover have "set (searched c) = insert (hd (searched c)) (set (tl (searched c)))" using split by (metis list.simps(15))
    moreover have "set (searched c) = cp_seq ` set (cached_packets c) \<union> (if has_callback_packet c then {latest_callback_seq c} else {})"
      by (auto simp: searched_def)
    moreover have "has_callback_packet c \<Longrightarrow> lowest_known c = latest_callback_seq c" by (simp add: lowest_known_def)
    ultimately show ?thesis by (cases "has_callback_packet c") auto
  qed
  then show "s \<in> set (all_gaps (hd (searched c)) (tl (searched c))) \<longleftrightarrow>
      IsSeqAfter (lowest_known c) s \<and> IsSeqAfter s (cp_seq (hd (cached_packets c)))
      \<and> s \<notin> cp_seq ` set (cached_packets c) \<and> s \<noteq> 0"
    using gaps(2) between_dist [OF w(2,1) le, of s] unfolding hd [symmetric] last by blast
qed

text \<open>Merging the numbers found into the list of those known.\<close>

lemma merge_exact:
  assumes "falling b gaps" and "\<forall>s \<in> set gaps. seq_dist b s < 32768"
    and "descending (map loss_seq ls)" and "\<forall>x \<in> set ls. seq_dist b (loss_seq x) < 32768"
    and "fold note_loss gaps ([], ls, n) = (passed, rest, n')"
  shows "descending (map loss_seq (rev passed @ rest))" and "\<forall>x \<in> set (rev passed @ rest). seq_dist b (loss_seq x) < 32768"
    and "loss_seq ` set (rev passed @ rest) = set gaps \<union> loss_seq ` set ls"
proof -
  have "falling b (map loss_seq ls)"
    using assms(3,4) descending_falling [of b "map loss_seq ls"] by (auto simp: seq.in_window_def)
  then have "cursor_inv b {} (passed, rest, n')"
    and set: "set (cursor_list (passed, rest, n')) = set gaps \<union> loss_seq ` set ls"
    using fold_note_loss_inv [OF assms(1,2), of "([], ls, n)"] assms(4,5) by (auto simp: cursor_inv_def cursor_list_def)
  then have fall: "falling b (map loss_seq (rev passed @ rest))"
    and win: "\<forall>x \<in> set (rev passed @ rest). seq_dist b (loss_seq x) < 32768"
    by (auto simp: cursor_inv_def cursor_list_def)
  show "\<forall>x \<in> set (rev passed @ rest). seq_dist b (loss_seq x) < 32768" by (rule win)
  show "descending (map loss_seq (rev passed @ rest))"
    using fall win descending_falling [of b "map loss_seq (rev passed @ rest)"] by (auto simp: seq.in_window_def)
  show "loss_seq ` set (rev passed @ rest) = set gaps \<union> loss_seq ` set ls"
    using set by (auto simp: cursor_list_def)
qed

lemma gaps_in_window:
  assumes ord: "cache_ordered b c" and zero: "0 \<notin> cp_seq ` set (cached_packets c)"
  shows "\<forall>s \<in> set (all_gaps (hd (searched c)) (tl (searched c))). seq_dist b s < 32768"
proof
  fix s assume s: "s \<in> set (all_gaps (hd (searched c)) (tl (searched c)))"
  let ?h = "cp_seq (hd (cached_packets c))"
  have ne: "cached_packets c \<noteq> []" using ord by (simp add: cache_ordered_def)
  have hw: "seq_dist b ?h < 32768" using ord ne by (auto simp: cache_ordered_def all_in_window_def seq.in_window_def)
  have "seq_dist b (lowest_known c) < 32768" "falling b (searched c)" using searched_falling [OF ord] ne
    by (metis last_in_set searched_def append_is_Nil_conv map_is_Nil_conv, blast)
  moreover have "seq_dist b (lowest_known c) \<le> seq_dist b ?h"
  proof -
    have "searched c = ?h # tl (searched c)" using ne by (cases "cached_packets c") (auto simp: searched_def)
    then show ?thesis using searched_falling(1,3) [OF ord]
      by (metis last_ConsL last_ConsR last_in_set less_imp_le order_refl sorted_wrt.simps(2))
  qed
  ultimately have "seq_dist b s < seq_dist b ?h"
    using gaps_exact(2) [OF ord zero, of s] s hw between_dist by blast
  then show "seq_dist b s < 32768" using hw by simp
qed

lemma supplement_loss_result:
  assumes ord: "cache_ordered b c" and desc: "descending (map loss_seq (loss_seqs c))"
    and zero: "0 \<notin> cp_seq ` set (cached_packets c)"
  obtains c' where "SupplementLossSeqs c = (Ok c' :: ('e, receiver_cache) outcome)"
    and "descending (map loss_seq (loss_seqs c'))" and "all_in_window b c'"
    and "\<And>s. s \<in> loss_seq ` set (loss_seqs c') \<longleftrightarrow>
         (s \<in> loss_seq ` set (loss_seqs c) \<or>
          (IsSeqAfter (lowest_known c) s \<and> IsSeqAfter s (cp_seq (hd (cached_packets c)))
           \<and> s \<notin> cp_seq ` set (cached_packets c) \<and> s \<noteq> 0))
         \<and> (has_callback_packet c \<longrightarrow> IsSeqAfter (latest_callback_seq c) s)"
proof -
  let ?l = "latest_callback_seq c"
  let ?gaps = "all_gaps (hd (searched c)) (tl (searched c))"
  have ne: "cached_packets c \<noteq> []" using ord by (simp add: cache_ordered_def)
  note gaps = gaps_exact [OF ord zero]
  have win: "\<forall>x \<in> set (loss_seqs c). seq_dist b (loss_seq x) < 32768"
    using ord ne by (auto simp: cache_ordered_def all_in_window_def seq.in_window_def)
  obtain passed rest n where st: "fold note_loss ?gaps ([], loss_seqs c, cumulative_packets_loss c) = (passed, rest, n)"
    by (metis prod_cases3)
  note gw = gaps_in_window [OF ord zero]
  note merged = merge_exact [OF gaps(1) gw desc win st]
  define ls' where "ls' = (if has_callback_packet c then filter (\<lambda>l. IsSeqBefore ?l (loss_seq l)) (rev passed @ rest) else rev passed @ rest)"
  let ?c = "c\<lparr>loss_seqs := ls', cumulative_packets_loss := n\<rparr>"
  have ok: "SupplementLossSeqs c = (Ok ?c :: ('e, receiver_cache) outcome)"
    using ne st by (cases "cached_packets c") (simp_all add: SupplementLossSeqs_def searched_def Let_def ls'_def)
  have kept: "s \<in> loss_seq ` set ls' \<longleftrightarrow> s \<in> loss_seq ` set (rev passed @ rest) \<and> (has_callback_packet c \<longrightarrow> IsSeqAfter ?l s)" for s
    by (auto simp: ls'_def IsSeqBefore_def)
  show ?thesis
  proof (rule that [OF ok])
    show "descending (map loss_seq (loss_seqs ?c))"
      using merged(1) by (simp add: ls'_def sorted_wrt_map sorted_wrt_filter del: rev_append map_append filter_append)
    have "set ls' \<subseteq> set (rev passed @ rest)" by (auto simp: ls'_def)
    then show "all_in_window b ?c"
      using ord merged(2) by (fastforce simp: cache_ordered_def all_in_window_def seq.in_window_def)
    show "s \<in> loss_seq ` set (loss_seqs ?c) \<longleftrightarrow>
         (s \<in> loss_seq ` set (loss_seqs c) \<or>
          (IsSeqAfter (lowest_known c) s \<and> IsSeqAfter s (cp_seq (hd (cached_packets c)))
           \<and> s \<notin> cp_seq ` set (cached_packets c) \<and> s \<noteq> 0))
         \<and> (has_callback_packet c \<longrightarrow> IsSeqAfter ?l s)" for s
      using kept [of s] gaps(2) [of s] merged(3) by auto
  qed
qed

text \<open>C15: Which numbers count as lost: when everything the cache knows lies in one window and number 0
  is not cached, \<open>SupplementLossSeqs\<close> leaves the list in descending order, and it holds exactly the
  numbers that were on it or lie strictly between the lowest known and the highest cached number
  without being cached, number 0 excepted, as far as they lie after the last number released.\<close>

theorem supplement_loss_exact:
  assumes "cached_packets c \<noteq> []" and "descending (map cp_seq (cached_packets c))"
    and "descending (map loss_seq (loss_seqs c))" and "all_in_window b c"
    and "has_callback_packet c \<Longrightarrow> \<forall>x \<in> set (cached_packets c). IsSeqAfter (latest_callback_seq c) (cp_seq x)"
    and "0 \<notin> cp_seq ` set (cached_packets c)"
  shows "\<exists>c'. SupplementLossSeqs c = Ok c' \<and> descending (map loss_seq (loss_seqs c'))
    \<and> (\<forall>s. s \<in> loss_seq ` set (loss_seqs c') \<longleftrightarrow>
         (s \<in> loss_seq ` set (loss_seqs c) \<or>
          (IsSeqAfter (lowest_known c) s \<and> IsSeqAfter s (cp_seq (hd (cached_packets c)))
           \<and> s \<notin> cp_seq ` set (cached_packets c) \<and> s \<noteq> 0))
         \<and> (has_callback_packet c \<longrightarrow> IsSeqAfter (latest_callback_seq c) s))"
proof -
  have ord: "cache_ordered b c" using assms by (simp add: cache_ordered_def)
  show ?thesis by (rule supplement_loss_result [OF ord assms(3,6)], intro exI conjI allI)
qed

theorem supplement_loss_exact_witness:
  "let c = (receiver_cache_new 0)\<lparr>has_callback_packet := True, latest_callback_seq := 65532,
     cached_packets := map (\<lambda>n. \<lparr>cp_packet = sample_arrival n, cp_timeout = 9\<rparr>) [2, 65534],
     loss_seqs := [loss_new 65533]\<rparr> in
   \<exists>c'. SupplementLossSeqs c = (Ok c' :: (rtp_error, receiver_cache) outcome) \<and> 65535 \<in> loss_seq ` set (loss_seqs c') \<and> 1 \<in> loss_seq ` set (loss_seqs c')
     \<and> 0 \<notin> loss_seq ` set (loss_seqs c')"
proof -
  define c where "c = (receiver_cache_new 0)\<lparr>has_callback_packet := True, latest_callback_seq := 65532,
     cached_packets := map (\<lambda>n. \<lparr>cp_packet = sample_arrival n, cp_timeout = 9\<rparr>) [2, 65534],
     loss_seqs := [loss_new 65533]\<rparr>"
  have c: "cached_packets c \<noteq> []" "map cp_seq (cached_packets c) = [2, 65534]" "map loss_seq (loss_seqs c) = [65533]"
    "has_callback_packet c" "latest_callback_seq c = 65532" "lowest_known c = 65532" "cp_seq (hd (cached_packets c)) = 2"
    "cp_seq ` set (cached_packets c) = {2, 65534}" "loss_seq ` set (loss_seqs c) = {65533}"
    by (simp_all add: c_def cp_seq_def sample_arrival_def loss_new_def lowest_known_def)
  have "all_in_window 65532 c" unfolding all_in_window_def c(2,3,4,5) by (simp add: seq.in_window_def seq_dist_eq)
  moreover have "\<forall>x \<in> set (cached_packets c). IsSeqAfter (latest_callback_seq c) (cp_seq x)"
  proof -
    have "\<forall>s \<in> {2, 65534}. IsSeqAfter 65532 s" by (simp add: IsSeqAfter_dist seq_dist_eq)
    then show ?thesis unfolding c(5) c(8) [symmetric] by blast
  qed
  moreover have "descending [2, 65534]" "descending [65533]" "0 \<notin> cp_seq ` set (cached_packets c)"
    unfolding c(8) by (simp_all add: IsSeqAfter_dist seq_dist_eq)
  ultimately obtain c' where c': "SupplementLossSeqs c = (Ok c' :: (rtp_error, receiver_cache) outcome)"
    "\<forall>s. s \<in> loss_seq ` set (loss_seqs c') \<longleftrightarrow> (s \<in> {65533} \<or>
      (IsSeqAfter 65532 s \<and> IsSeqAfter s 2 \<and> s \<notin> {2, 65534} \<and> s \<noteq> 0)) \<and> IsSeqAfter 65532 s"
    using supplement_loss_exact [of c 65532, where 'a=rtp_error] c by auto
  have "65535 \<in> loss_seq ` set (loss_seqs c')" "1 \<in> loss_seq ` set (loss_seqs c')" "0 \<notin> loss_seq ` set (loss_seqs c')"
    unfolding c'(2) [rule_format] by (simp_all add: IsSeqAfter_dist seq_dist_eq word_le_nat_alt)
  with c'(1) show ?thesis unfolding c_def Let_def by blast
qed

text \<open>The sequence numbers handed to the NACK are in circularly ascending order when the loss list
  is in descending order: the order that the NACK packet requires of its caller.\<close>

lemma nack_list_ascending:
  assumes "descending (map loss_seq (loss_seqs c))"
  shows "successively IsSeqAfter (fst (GetLossPacketSeqsForNack now c))
    \<and> (\<forall>x \<in> set (loss_seqs c). \<not> notified x \<longrightarrow> loss_seq x \<in> set (fst (GetLossPacketSeqsForNack now c)))"
proof -
  have "sorted_wrt IsSeqAfter (map loss_seq (filter (nack_due now) (rev (loss_seqs c))))"
    using assms by (simp add: sorted_wrt_map sorted_wrt_filter sorted_wrt_rev)
  then show ?thesis
    by (auto simp: GetLossPacketSeqsForNack_def nack_due_def intro: sorted_wrt_successively)
qed

lemma nack_list_ascending_witness:
  "fst (GetLossPacketSeqsForNack 100 ((receiver_cache_new 0)\<lparr>loss_seqs :=
      [loss_new 2, (loss_new 0)\<lparr>notified := True, last_notify := 90\<rparr>, loss_new 65535]\<rparr>)) = [65535, 2]
   \<and> successively IsSeqAfter [65535, 2]"
  using nack_list_ascending [of "(receiver_cache_new 0)\<lparr>loss_seqs :=
      [loss_new 2, (loss_new 0)\<lparr>notified := True, last_notify := 90\<rparr>, loss_new 65535]\<rparr>" 100]
  by (simp add: loss_new_def IsSeqAfter_dist seq_dist_eq GetLossPacketSeqsForNack_def nack_due_def)

lemma fold_note_loss_empty:
  "fold note_loss ss (passed, [], n) = (rev (map loss_new ss) @ passed, [], n + of_nat (length ss))"
  by (induction ss arbitrary: passed n) (simp_all add: note_loss_def)

text \<open>A gap directly below number 0: with number 0 and an older packet \<open>s\<close> (not 65535) cached and
  nothing released yet, every number but 0 is entered as lost, \<open>s\<close> itself included.\<close>

lemma gap_below_zero_loses_all:
  assumes "map cp_seq (cached_packets c) = [0, s]" and "s \<noteq> 0xffff" and "loss_seqs c = []"
    and "\<not> has_callback_packet c"
  shows "\<exists>c'. SupplementLossSeqs c = (Ok c' :: ('e, receiver_cache) outcome) \<and> (\<forall>t. t \<noteq> 0 \<longrightarrow> t \<in> loss_seq ` set (loss_seqs c'))"
proof -
  have "\<not> IsNextSeq s 0"
  proof
    assume "IsNextSeq s 0"
    then have "s + 1 = 0" by (simp add: IsNextSeq_iff)
    then have "s = - 1" by (simp add: eq_neg_iff_add_eq_0)
    then show False using assms(2) by simp
  qed
  then have gaps: "all_gaps 0 [s] = down_from 0xffff 0 @ down_from 0xffff s"
  proof -
    have "(0 :: u16) - 1 = 0xffff" by simp
    then show ?thesis using \<open>\<not> IsNextSeq s 0\<close> by (simp only: all_gaps.simps gap_seqs_def) simp
  qed
  obtain c' where c': "SupplementLossSeqs c = (Ok c' :: ('e, receiver_cache) outcome)" "loss_seqs c' = map loss_new (down_from 0xffff 0 @ down_from 0xffff s)"
    using assms gaps by (simp add: SupplementLossSeqs_def fold_note_loss_empty Let_def rev_map)
  have "t \<in> loss_seq ` set (loss_seqs c')" if "t \<noteq> 0" for t
  proof -
    have "t \<in> set (down_from 0xffff 0)"
      using that u16_bound [of t] by (simp add: set_down_from word_greater_zero_iff word_le_nat_alt)
    then have "loss_new t \<in> set (loss_seqs c')" using c'(2) by simp
    then show ?thesis by (metis image_eqI loss_entry.select_convs(1) loss_new_def)
  qed
  then show ?thesis using c'(1) by blast
qed

lemma gap_below_zero_loses_all_witness:
  "\<exists>c'. SupplementLossSeqs ((receiver_cache_new 0)\<lparr>cached_packets :=
      map (\<lambda>n. \<lparr>cp_packet = sample_arrival n, cp_timeout = 9\<rparr>) [0, 65534]\<rparr>) = Ok c'
    \<and> 65534 \<in> loss_seq ` set (loss_seqs c')"
  using gap_below_zero_loses_all [of "(receiver_cache_new 0)\<lparr>cached_packets :=
      map (\<lambda>n. \<lparr>cp_packet = sample_arrival n, cp_timeout = 9\<rparr>) [0, 65534]\<rparr>" 65534]
  by (fastforce simp: cp_seq_def sample_arrival_def receiver_cache_new_def)

end
