(* ===== verification/Lossy_Safety.thy ===== *)
theory Lossy_Safety
  imports Lossy_Delivery Rtp_Receiver_Loss
begin

text \<open>
  What the far side knows of its losses, and that nothing crashes. In a run of fewer than 32768
  packets that does not pass sequence number 0, the receiver's list of losses is in order, within
  one window, and holds every number that is missing between the last one released and the highest
  one cached. With that, no step of a one-way session over the lossy network leaves defined behaviour.
\<close>

section \<open>Every loss is noticed\<close>

definition noticed :: "receiver_cache \<Rightarrow> bool" where
  "noticed c \<longleftrightarrow> (cached_packets c \<noteq> [] \<longrightarrow> (\<forall>s. IsSeqAfter (lowest_known c) s \<and> IsSeqAfter s (cp_seq (hd (cached_packets c)))
     \<and> s \<noteq> 0 \<longrightarrow> s \<in> cp_seq ` set (cached_packets c) \<union> loss_seq ` set (loss_seqs c)))"

definition losses_ok :: "u16 \<Rightarrow> receiver_cache \<Rightarrow> bool" where
  "losses_ok b c \<longleftrightarrow> all_in_window b c \<and> descending (map loss_seq (loss_seqs c)) \<and> noticed c
     \<and> 0 \<notin> cp_seq ` set (cached_packets c)"

lemma erase_first_loss_subset: "set (erase_first_loss s ls) \<subseteq> set ls"
  by (induction ls) auto

lemma erase_first_loss_descending:
  "descending (map loss_seq ls) \<Longrightarrow> descending (map loss_seq (erase_first_loss s ls))"
proof (induction ls)
  case (Cons l ls)
  then show ?case using erase_first_loss_subset [of s ls] by auto
qed simp

lemma update_extended_window [simp]: "all_in_window b (update_extended s c) = all_in_window b c"
  by (simp add: all_in_window_def)

lemma PutPacket_losses:
  assumes put: "PutPacket now p c = (Ok c' :: ('e, receiver_cache) outcome)" and ok: "losses_ok b c"
    and inv: "cache_inv base c" and start: "\<not> has_callback_packet c \<Longrightarrow> ahead base (sequence_number p)"
    and p: "ahead b (sequence_number p)" "sequence_number p \<noteq> 0"
  shows "losses_ok b c'"
proof (cases "has_callback_packet c \<and> \<not> IsSeqAfter (latest_callback_seq c) (sequence_number p)")
  case True
  then show ?thesis using put ok by (simp add: PutPacket_def)
next
  case False
  let ?new = "\<lparr>cp_packet = p, cp_timeout = ucast (max_cache_duration_ms c) + now\<rparr>"
  define c1 where "c1 = (update_extended (sequence_number p) c)\<lparr>cached_packets := insert_cached ?new (cached_packets c),
      loss_seqs := erase_first_loss (sequence_number p) (loss_seqs c)\<rparr>"
  have a: "ahead base (cp_seq ?new)" using False start inv by (auto simp: cp_seq_def ahead_iff cache_inv_def)
  have d: "descending (map cp_seq (cached_packets c))" "\<forall>x \<in> set (cached_packets c). ahead base (cp_seq x)"
    using inv by (auto simp: cache_inv_def)
  note ins = insert_cached_inv [OF d a]
  have cb: "has_callback_packet c \<Longrightarrow> \<forall>x \<in> set (cached_packets c1). IsSeqAfter (latest_callback_seq c1) (cp_seq x)"
    using ins d(2) a inv by (auto simp: c1_def cache_inv_def ahead_iff)
  have win: "all_in_window b c1"
    using ok p(1) ins erase_first_loss_subset [of "sequence_number p" "loss_seqs c"]
    by (fastforce simp: losses_ok_def all_in_window_def c1_def seq.in_window_def cp_seq_def ahead_def)
  have ord: "cache_ordered b c1"
    using ins cb win by (auto simp: cache_ordered_def c1_def)
  have desc: "descending (map loss_seq (loss_seqs c1))"
    using ok erase_first_loss_descending by (simp add: c1_def losses_ok_def)
  have zero: "0 \<notin> cp_seq ` set (cached_packets c1)"
    using ins ok p(2) by (fastforce simp: c1_def losses_ok_def cp_seq_def)
  obtain c2 where c2: "SupplementLossSeqs c1 = (Ok c2 :: ('e, receiver_cache) outcome)" "descending (map loss_seq (loss_seqs c2))"
    "all_in_window b c2"
    and iff: "\<And>s. s \<in> loss_seq ` set (loss_seqs c2) \<longleftrightarrow>
         (s \<in> loss_seq ` set (loss_seqs c1) \<or>
          (IsSeqAfter (lowest_known c1) s \<and> IsSeqAfter s (cp_seq (hd (cached_packets c1)))
           \<and> s \<notin> cp_seq ` set (cached_packets c1) \<and> s \<noteq> 0))
         \<and> (has_callback_packet c1 \<longrightarrow> IsSeqAfter (latest_callback_seq c1) s)"
    by (rule supplement_loss_result [where 'e='e, OF ord desc zero]) (rule that)
  have "cached_packets c1 \<noteq> []" using ord by (simp add: cache_ordered_def)
  then obtain ls n where "SupplementLossSeqs c1 = (Ok (c1\<lparr>loss_seqs := ls, cumulative_packets_loss := n\<rparr>) :: ('e, receiver_cache) outcome)"
    by (rule SupplementLossSeqs_frame)
  with c2(1) have frame: "c2 = c1\<lparr>loss_seqs := ls, cumulative_packets_loss := n\<rparr>" by simp
  then have "noticed c2" using iff by (auto simp: noticed_def lowest_known_def)
  then have "losses_ok b (c2\<lparr>has_cached_packet := True\<rparr>)"
    using c2(2,3) zero frame by (auto simp: losses_ok_def noticed_def lowest_known_def all_in_window_def)
  moreover have "c' = c2\<lparr>has_cached_packet := True\<rparr>"
    using put False c2(1) by (auto simp: PutPacket_def Let_def c1_def [symmetric])
  ultimately show ?thesis by simp
qed

lemma GetLossPacketSeqsForNack_losses: "losses_ok b (snd (GetLossPacketSeqsForNack now c)) \<longleftrightarrow> losses_ok b c"
proof -
  let ?c = "snd (GetLossPacketSeqsForNack now c)"
  have m: "map loss_seq (loss_seqs ?c) = map loss_seq (loss_seqs c)" by (simp add: GetLossPacketSeqsForNack_def)
  then have "loss_seq ` set (loss_seqs ?c) = loss_seq ` set (loss_seqs c)" by (metis image_set)
  then show ?thesis using m
    by (simp add: losses_ok_def all_in_window_def noticed_def lowest_known_def) (simp add: GetLossPacketSeqsForNack_def)
qed

text \<open>Releasing the packets from \<open>g\<close> on moves the lowest known number up to the one of \<open>g\<close>.\<close>

lemma lowest_known_le:
  assumes "losses_ok b c" and "descending (map cp_seq (cached_packets c))" and "g \<in> set (cached_packets c)"
    and cb: "has_callback_packet c \<Longrightarrow> \<forall>x \<in> set (cached_packets c). IsSeqAfter (latest_callback_seq c) (cp_seq x)"
  shows "seq_dist b (lowest_known c) < 32768 \<and> seq_dist b (lowest_known c) \<le> seq_dist b (cp_seq g)"
proof (cases "lowest_known c = cp_seq g")
  case False
  have w: "\<forall>x \<in> set (cached_packets c). seq_dist b (cp_seq x) < 32768"
    and l: "has_callback_packet c \<Longrightarrow> seq_dist b (latest_callback_seq c) < 32768"
    using assms(1) by (auto simp: losses_ok_def all_in_window_def seq.in_window_def)
  have last: "last (cached_packets c) \<in> set (cached_packets c)" using assms(3) by (cases "cached_packets c") auto
  have "IsSeqAfter (lowest_known c) (cp_seq g)"
    using False cb assms(3) descending_last [OF assms(2,3)]
    by (cases "has_callback_packet c"; cases "g = last (cached_packets c)") (auto simp: lowest_known_def)
  moreover have "seq_dist b (lowest_known c) < 32768" using w l last by (simp add: lowest_known_def)
  ultimately show ?thesis using IsSeqAfter_window [of b "lowest_known c" "cp_seq g"] w assms(3) by simp
qed (use assms(1,3) in \<open>auto simp: losses_ok_def all_in_window_def seq.in_window_def\<close>)

lemma released_noticed:
  assumes ok: "losses_ok b c" and desc: "descending (map cp_seq (cached_packets c))"
    and cb: "has_callback_packet c \<Longrightarrow> \<forall>x \<in> set (cached_packets c). IsSeqAfter (latest_callback_seq c) (cp_seq x)"
    and cs: "cached_packets c = keep @ g # gs" and keep: "keep \<noteq> []"
    and s: "IsSeqAfter (cp_seq g) s" "IsSeqAfter s (cp_seq (hd keep))" "s \<noteq> 0"
  shows "s \<in> cp_seq ` set keep \<union> loss_seq ` set (loss_seqs c)"
proof -
  have w: "seq_dist b (cp_seq x) < 32768" if "x \<in> set keep \<union> set (g # gs)" for x
    using ok that cs by (auto simp: losses_ok_def all_in_window_def seq.in_window_def)
  have hd: "hd keep \<in> set keep" "hd (cached_packets c) = hd keep" using keep cs by simp_all
  have gw: "seq_dist b (cp_seq g) < 32768" and hw: "seq_dist b (cp_seq (hd keep)) < 32768" using w hd(1) by simp_all
  have "IsSeqAfter (cp_seq g) (cp_seq (hd keep))" using desc cs hd(1) by (auto simp: sorted_wrt_append)
  then have "seq_dist b (cp_seq g) < seq_dist b (cp_seq (hd keep))" using IsSeqAfter_window [OF gw hw] by simp
  then have btw: "seq_dist b (cp_seq g) < seq_dist b s" "seq_dist b s < seq_dist b (cp_seq (hd keep))"
    using between_dist [OF gw hw, of s] s by auto
  moreover have "seq_dist b (lowest_known c) < 32768 \<and> seq_dist b (lowest_known c) \<le> seq_dist b (cp_seq g)"
    using lowest_known_le [OF ok desc _ cb, of g] cs by simp
  ultimately have "IsSeqAfter (lowest_known c) s \<and> IsSeqAfter s (cp_seq (hd keep))"
    using between_dist [of b "lowest_known c" "cp_seq (hd keep)" s] hw by auto
  then have "s \<in> cp_seq ` set (keep @ g # gs) \<union> loss_seq ` set (loss_seqs c)"
    using ok s(3) cs hd(2) by (simp add: losses_ok_def noticed_def)
  moreover have "seq_dist b (cp_seq x) \<le> seq_dist b (cp_seq g)" if "x \<in> set (g # gs)" for x
    using that desc cs w IsSeqAfter_window [OF w [of x] gw] by (auto simp: sorted_wrt_append)
  ultimately show ?thesis using btw(1) by fastforce
qed

lemma GetPackets_losses:
  assumes get: "GetPackets now c = (out, c')" and ok: "losses_ok b c" and desc: "descending (map cp_seq (cached_packets c))"
    and cb: "has_callback_packet c \<Longrightarrow> \<forall>x \<in> set (cached_packets c). IsSeqAfter (latest_callback_seq c) (cp_seq x)"
  shows "losses_ok b c'"
proof -
  define nb where "nb = (if has_callback_packet c then ready_count (latest_callback_seq c) (rev (cached_packets c)) else 0)"
  obtain keep go where kg: "split_due now nb (cached_packets c) = (keep, go)" by fastforce
  then have cs: "cached_packets c = keep @ go" by (rule split_due_append)
  show ?thesis
  proof (cases go)
    case Nil
    then show ?thesis using get kg ok by (simp add: GetPackets_def nb_def [symmetric] Let_def)
  next
    case (Cons g gs)
    have c': "c' = c\<lparr>cached_packets := keep, latest_callback_seq := cp_seq g, has_callback_packet := True\<rparr>"
      using get kg Cons by (simp add: GetPackets_def nb_def [symmetric] Let_def)
    have "noticed c'"
      using released_noticed [OF ok desc cb] cs Cons by (auto simp: noticed_def c' lowest_known_def)
    moreover have "all_in_window b c'"
      using ok cs Cons by (auto simp: losses_ok_def all_in_window_def seq.in_window_def c')
    ultimately show ?thesis using ok cs by (auto simp: losses_ok_def c')
  qed
qed


text \<open>Seen from every base from which all that was sent lies ahead, in a run that does not pass number 0.\<close>

definition base_for :: "rtp_packet list \<Rightarrow> u16 \<Rightarrow> bool" where
  "base_for tx b \<longleftrightarrow> (\<forall>p \<in> set tx. ahead b (sequence_number p) \<and> sequence_number p \<noteq> 0)"

definition tracks :: "rtp_packet list \<Rightarrow> rtp_packet list \<Rightarrow> rtp_receiver \<Rightarrow> bool" where
  "tracks tx out r \<longleftrightarrow> (\<forall>b. base_for tx b \<longrightarrow> losses_ok b (r_cache r))"

lemma cache_inv_callback:
  "cache_inv base c \<Longrightarrow> has_callback_packet c \<Longrightarrow> \<forall>x \<in> set (cached_packets c). IsSeqAfter (latest_callback_seq c) (cp_seq x)"
  by (simp add: cache_inv_def ahead_iff)

text \<open>The cache between the insertion of a packet and the release.\<close>

lemma after_put:
  assumes r: "r_config r = c" "receiver_from tx out r" "tracks tx out r" and p: "genuine c (set tx) p" and b: "base_for tx b"
    and q: "resolve_rtx p r = Ok (Some q)" and put: "PutPacket now q (r_cache r) = (Ok k :: (rtp_error, receiver_cache) outcome)"
  shows "losses_ok b k" and "descending (map cp_seq (cached_packets k))"
    and "has_callback_packet k \<Longrightarrow> \<forall>x \<in> set (cached_packets k). IsSeqAfter (latest_callback_seq k) (cp_seq x)"
proof -
  let ?base = "if out = [] then b else sequence_number (last out)"
  have q': "ahead b (sequence_number q)" "sequence_number q \<noteq> 0"
    using p r(1) q b by (auto simp: genuine_def base_for_def)
  have "order_ok b out (r_cache r)" using r(2) b by (simp add: receiver_from_def base_for_def)
  then have inv: "cache_inv ?base (r_cache r)"
    and start: "\<not> has_callback_packet (r_cache r) \<Longrightarrow> ahead ?base (sequence_number q)"
    using q'(1) by (auto simp: order_ok_def)
  obtain k' where "PutPacket now q (r_cache r) = (Ok k' :: (rtp_error, receiver_cache) outcome)" "cache_inv ?base k'"
    by (rule PutPacket_inv [OF inv start])
  then have k: "cache_inv ?base k" using put by simp
  show "losses_ok b k" using r(3) b by (intro PutPacket_losses [OF put _ inv start q']) (simp add: tracks_def)
  show "descending (map cp_seq (cached_packets k))" using k by (simp add: cache_inv_def)
  show "\<forall>x \<in> set (cached_packets k). IsSeqAfter (latest_callback_seq k) (cp_seq x)" if "has_callback_packet k"
    by (rule cache_inv_callback [OF k that])
qed

lemma tracks_step:
  assumes r: "r_config r = c" "receiver_from tx out r" "tracks tx out r" and p: "genuine c (set tx) p"
    and on: "OnRtpPacket td clk p r = Ok (o1, r')"
  shows "tracks tx (out @ released o1) r'"
  unfolding tracks_def
proof (intro allI impI)
  fix b assume b: "base_for tx b"
  from on show "losses_ok b (r_cache r')"
  proof (cases rule: OnRtpPacket_cases)
    case (taken q k)
    note k = after_put [OF r p b taken(1,2)]
    let ?k = "snd (GetLossPacketSeqsForNack (clk 2) k)"
    have same: "cached_packets ?k = cached_packets k" "latest_callback_seq ?k = latest_callback_seq k"
      "has_callback_packet ?k = has_callback_packet k" by (simp_all add: GetLossPacketSeqsForNack_def)
    have "losses_ok b ?k" using k(1) by (simp add: GetLossPacketSeqsForNack_losses)
    then show ?thesis by (rule GetPackets_losses [OF taken(4) [symmetric]]) (use k(2,3) in \<open>simp_all add: same\<close>)
  qed (use r(3) b in \<open>simp add: tracks_def\<close>)
qed

interpretation tracking: receiver_invariant c tx "tracks tx" for c tx
  by unfold_locales (rule tracks_step)

text \<open>The list of losses is shorter than what a NACK can hold.\<close>

lemma window_length:
  assumes "distinct xs" and "\<forall>x \<in> set xs. seq_dist b x < 32768"
  shows "length xs \<le> 32768"
proof -
  have "length xs = card (seq_dist b ` set xs)"
    using assms(1) by (subst card_image) (auto simp: inj_on_def seq_dist_inj distinct_card)
  also have "\<dots> \<le> card {..<32768 :: nat}" by (rule card_mono) (use assms(2) in auto)
  finally show ?thesis by simp
qed

lemma descending_distinct: "descending xs \<Longrightarrow> distinct xs"
  by (induction xs) (auto simp: IsSeqAfter_dist)

lemma nack_length:
  assumes "losses_ok b c"
  shows "length (fst (GetLossPacketSeqsForNack now c)) \<le> 65533"
proof -
  have "length (map loss_seq (loss_seqs c)) \<le> 32768"
    using assms by (intro window_length [of _ b] descending_distinct) (auto simp: losses_ok_def all_in_window_def seq.in_window_def)
  moreover have "length (fst (GetLossPacketSeqsForNack now c)) \<le> length (loss_seqs c)"
    by (simp add: GetLossPacketSeqsForNack_def) (metis length_filter_le length_rev)
  ultimately show ?thesis by simp
qed

section \<open>The RTCP datagrams of a one-way session\<close>

definition one_way_compound :: "bytes \<Rightarrow> bool" where
  "one_way_compound d \<longleftrightarrow> (\<exists>ps. d = concat (map packet_image ps) \<and> (\<forall>p \<in> set ps. packet_wf p)
     \<and> (\<Sum>p\<leftarrow>ps. rtcp_BlockLength p) < 2 ^ 32 \<and> (\<forall>q. Sr_Packet q \<in> set ps \<longrightarrow> sr_blocks q = []))"

lemma receive_packet_Ok:
  assumes "receiver_config (receiver st) \<noteq> None" and "\<And>q. p = Sr_Packet q \<Longrightarrow> sr_blocks q = []"
  shows "\<exists>st'. receive_packet env off p st = Ok st' \<and> receiver_config (receiver st') = receiver_config (receiver st)"
  using assms
  by (cases p) (auto simp: accept_sr_def accept_rr_def accept_sdes_def accept_bye_def accept_nack_def with_remote_ssrc_def
      set_flag_def Let_def)

lemma receive_packets_Ok:
  assumes "receiver_config (receiver st) \<noteq> None" and "\<forall>q. Sr_Packet q \<in> set ps \<longrightarrow> sr_blocks q = []"
  shows "\<exists>st'. receive_packets env off ps st = Ok st' \<and> receiver_config (receiver st') = receiver_config (receiver st)"
  using assms
proof (induction ps arbitrary: off st)
  case (Cons p ps)
  obtain st1 where st1: "receive_packet env off p st = Ok st1" "receiver_config (receiver st1) = receiver_config (receiver st)"
    using receive_packet_Ok [OF Cons.prems(1), of p env off] Cons.prems(2) by auto
  have "\<forall>q. Sr_Packet q \<in> set ps \<longrightarrow> sr_blocks q = []" using Cons.prems(2) by simp
  then show ?case using Cons.IH [of st1] Cons.prems(1) st1 by simp
qed simp

lemma one_way_received:
  assumes "one_way_compound d" and "receiver_config r \<noteq> None"
  obtains r' ns where "OnRtcpPacket env (Some d) r = Ok (r', ns)" and "receiver_config r' = receiver_config r"
proof (cases "has_received_bye r")
  case True
  then show ?thesis using that [of r "[]"] assms(2) by (simp add: OnRtcpPacket_def)
next
  case False
  obtain ps where ps: "d = concat (map packet_image ps)" "\<forall>p \<in> set ps. packet_wf p"
    "(\<Sum>p\<leftarrow>ps. rtcp_BlockLength p) < 2 ^ 32" "\<forall>q. Sr_Packet q \<in> set ps \<longrightarrow> sr_blocks q = []"
    using assms(1) by (auto simp: one_way_compound_def)
  let ?st = "\<lparr>receiver = r, type_flags = 0, notifications = []\<rparr>"
  obtain st where st: "receive_packets env 0 ps ?st = Ok st" "receiver_config (receiver st) = receiver_config r"
    using receive_packets_Ok [of ?st ps env 0] assms(2) ps(4) by auto
  show ?thesis using on_rtcp_images [OF ps(2,3) False, of env] st that by (simp add: ps(1))
qed

lemma built_one_way:
  assumes "build_rtcp info cb s = Ok ((ps, is_bye), s1)" and "length (local_cname (rs_config s)) \<le> 255" and "info_ok info"
    and "\<not> (has_sent_rtp s1 \<and> has_received_rtp s1)"
  shows "\<exists>d. SendRtcp fill (map Some ps) = Ok (Some d) \<and> one_way_compound d"
proof -
  obtain report blocks where ps: "ps = report # sdes_packet (rs_config s) # info_packets info (rs_config s)"
    and rep: "report_of report (rtcp_local_ssrc (rs_config s)) (has_sent_rtp s1) blocks"
    and none: "blocks = [] \<longleftrightarrow> \<not> has_received_rtp s1"
    using build_rtcp_parts [OF assms(1)] .
  have "sr_blocks q = []" if "report = Sr_Packet q" for q
    using that rep none assms(4) by (auto simp: report_of_def)
  moreover have "Sr_Packet q \<notin> set (sdes_packet (rs_config s) # info_packets info (rs_config s))" for q
    by (cases info) (auto simp: sdes_packet_def)
  ultimately have "\<forall>q. Sr_Packet q \<in> set ps \<longrightarrow> sr_blocks q = []" by (auto simp: ps)
  moreover have "SendRtcp fill (map Some ps) = Ok (Some (concat (map packet_image ps)))"
    using build_rtcp_wf [OF assms(1-3)] compound_is_concatenation [of "map Some ps" fill] by simp
  ultimately show ?thesis using build_rtcp_wf [OF assms(1-3)] by (auto simp: one_way_compound_def)
qed


section \<open>Nothing crashes\<close>

definition side_ok :: "media_session \<Rightarrow> bool" where
  "side_ok ms \<longleftrightarrow> session_ok ms \<and> short_cname ms \<and> mc_direction (ms_config ms) \<noteq> SendRecv
     \<and> (\<exists>r. ms_rtcp_receiver ms = Some r \<and> receiver_config r = Some (rtcp_receiver_config_of (ms_config ms)))
     \<and> (\<exists>s. ms_rtcp_sender ms = Some s \<and> rtcp_local_ssrc (rs_config s) = mc_ssrc_media_local (ms_config ms))"

text \<open>A method of the RTCP sender, run in a session that only sends or only receives.\<close>

lemma run_rtcp_safe:
  assumes "side_ok ms" and "sends_built call" and "sends_compound call"
  obtains ms' eff ds where "run_rtcp rtp_time now call ms = Ok (ms', eff)" and "side_ok ms'" and "same_rtp ms ms'"
    and "write_rtcp fill eff = Ok ds" and "\<forall>d \<in> set ds. one_way_compound d"
proof -
  have "session_ok ms" using assms(1) by (simp add: side_ok_def)
  then obtain ms' eff where run: "run_rtcp rtp_time now call ms = Ok (ms', eff)" and ok: "session_ok ms'"
    using run_rtcp_ok [OF _ assms(2)] by blast
  note same = run_rtcp_frame(1) [OF run]
  obtain s cb s' where s: "ms_rtcp_sender ms = Some s" "call cb s = Ok (s', eff)" "ms_rtcp_sender ms' = Some s'"
    using run_rtcp_frame(2) [OF run] by blast
  have conf: "rs_config s' = rs_config s" using assms(3) s(2) unfolding sends_compound_def by blast
  have name: "length (local_cname (rs_config s)) \<le> 255" using assms(1) s(1) by (simp add: side_ok_def short_cname_def)
  have side: "side_ok ms'" using assms(1) ok same s conf by (simp add: side_ok_def same_rtp_def short_cname_def)
  have "\<exists>ds. write_rtcp fill eff = Ok ds \<and> (\<forall>d \<in> set ds. one_way_compound d)"
  proof (cases "sent eff")
    case None
    then show ?thesis by (simp add: write_rtcp_def)
  next
    case (Some x)
    then obtain info s1 where built: "info_ok info" "build_rtcp info cb s = Ok (x, s1)"
      and flags: "has_sent_rtp s' = has_sent_rtp s1" "has_received_rtp s' = has_received_rtp s1"
      using assms(3) s(2) unfolding sends_compound_def by blast
    have "\<not> (has_sent_rtp s' \<and> has_received_rtp s')" using ok s(3) side by (cases "mc_direction (ms_config ms')") (auto simp: session_ok_def side_ok_def)
    then show ?thesis
      using built_one_way [of info cb s "fst x" "snd x" s1 fill] built name flags Some
      by (auto simp: write_rtcp_def split: prod.split)
  qed
  then show ?thesis using that [OF run side same] by blast
qed

text \<open>What a side must promise so that no RTCP datagram of a one-way session brings it down.\<close>

locale rtcp_side =
  fixes safe :: "media_session \<Rightarrow> bool" and resends :: "rtp_packet \<Rightarrow> bool"
  assumes ready: "safe ms \<Longrightarrow> \<exists>r. ms_rtcp_receiver ms = Some r \<and> receiver_config r \<noteq> None"
    and notified_safe: "safe ms \<Longrightarrow> ms_rtcp_receiver ms = Some r0 \<Longrightarrow> receiver_config r = receiver_config r0 \<Longrightarrow>
      \<exists>ps ms'. session_notified n ns (ms\<lparr>ms_rtcp_receiver := Some r\<rparr>) = Ok (ps, ms')
        \<and> (\<forall>p \<in> set ps. plain p \<and> resends p) \<and> safe ms'"
begin

lemma deliver_safe:
  assumes "safe ms" and "\<forall>d \<in> set ds. one_way_compound d"
  shows "\<exists>out ms'. deliver_rtcp e i ds ms = Ok (out, ms') \<and> safe ms'
    \<and> (\<forall>d \<in> set out. \<exists>p. plain p \<and> resends p \<and> d = rtp_image p)"
  using assms
proof (induction ds arbitrary: i ms)
  case (Cons d ds)
  obtain r where r: "ms_rtcp_receiver ms = Some r" "receiver_config r \<noteq> None" using ready [OF Cons.prems(1)] by blast
  obtain r' ns where r': "OnRtcpPacket (parsing e i) (Some d) r = Ok (r', ns)" "receiver_config r' = receiver_config r"
    by (rule one_way_received [OF _ r(2), of d "parsing e i"]) (use Cons.prems(2) in auto)
  obtain ps ms1 where n: "session_notified (first_rtx e) ns (ms\<lparr>ms_rtcp_receiver := Some r'\<rparr>) = Ok (ps, ms1)"
    "\<forall>p \<in> set ps. plain p \<and> resends p" "safe ms1"
    using notified_safe [OF Cons.prems(1) r(1) r'(2)] by blast
  obtain out ms' where rest: "deliver_rtcp e (Suc i) ds ms1 = Ok (out, ms')" "safe ms'"
    "\<forall>d \<in> set out. \<exists>p. plain p \<and> resends p \<and> d = rtp_image p"
    using Cons.IH [OF n(3), of "Suc i"] Cons.prems(2) by auto
  have "write_rtp (filler e) ps = Ok (map rtp_image ps)" using n(2) by (simp add: write_rtp_plain)
  then have "deliver_rtcp e i (d # ds) ms = Ok (map rtp_image ps @ out, ms')"
    using r r' n(1) rest(1) by (simp add: session_OnRtcp_def deref_def)
  then show ?case using rest(2,3) n(2) by auto
qed simp

end

section \<open>The near side\<close>

definition near_safe :: "media_config \<Rightarrow> rtp_packet list \<Rightarrow> media_session \<Rightarrow> bool" where
  "near_safe a tx ms \<longleftrightarrow> near_ok (rtp_sender_config_of a) tx ms \<and> side_ok ms \<and> ms_config ms = a
     \<and> mc_direction a = SendOnly"

lemma ConstructRtx_safe:
  assumes "sendable p"
  shows "\<exists>q s'. ConstructRtx n p s = Ok (q, s')"
proof (cases "rtx_type_of (s_map_rtx (s_config s)) (payload_type p)")
  case None
  then show ?thesis by (simp add: ConstructRtx_def)
next
  case (Some e)
  obtain body where body: "payload_buffer p = Some body"
    using assms by (cases "payload_buffer p") (auto simp: sendable_def plain_def payload_bytes_def)
  show ?thesis
    by (rule ConstructRtx_Ok [OF sendable_ok [OF assms] body _ Some, of n]) (use assms in \<open>auto simp: sendable_def\<close>)
qed

definition live :: "rtp_packet option list \<Rightarrow> bool" where
  "live ps \<longleftrightarrow> (\<forall>p \<in> set ps. \<exists>q. p = Some q \<and> sendable q)"

lemma send_rtx_all_safe:
  "live ps \<Longrightarrow> \<exists>out s'. send_rtx_all n ps s = Ok (out, s')"
proof (induction ps arbitrary: s)
  case (Cons p ps)
  then obtain q where q: "p = Some q" "sendable q" and ps: "live ps" by (auto simp: live_def)
  obtain o1 s1 where one: "ConstructRtx n q s = Ok (o1, s1)" using ConstructRtx_safe [OF q(2)] by blast
  obtain out s2 where "send_rtx_all n ps s1 = Ok (out, s2)" using Cons.IH [OF ps] by blast
  then show ?case using one q by simp
qed simp

lemma cache_get_one_safe:
  assumes "\<forall>p \<in> set cached. sendable p"
  shows "\<exists>xs. cache_get_one cached x = Ok xs \<and> live xs"
proof (cases "find (\<lambda>c. sequence_number c = x) cached")
  case (Some p)
  then have p: "sendable p" using assms by (auto simp: find_Some_iff)
  then have "CreateCopy p = Ok (copy_of p)" using sendable_ok [OF p] by (simp add: CreateCopy_Ok packet_ok_def copy_of_def)
  then show ?thesis using Some p by (simp add: cache_get_one_def copy_of_plain sendable_def live_def)
qed (simp add: cache_get_one_def live_def)

lemma cache_get_safe:
  assumes "\<forall>p \<in> set cached. sendable p"
  shows "\<exists>ps. cache_get seqs cached = Ok ps \<and> live ps"
proof -
  have "\<exists>yss. omapM (cache_get_one cached) seqs = Ok yss \<and> live (concat yss)"
  proof (induction seqs)
    case (Cons x seqs)
    obtain xs yss where "cache_get_one cached x = Ok xs" "live xs" "omapM (cache_get_one cached) seqs = Ok yss" "live (concat yss)"
      using cache_get_one_safe [OF assms] Cons.IH by blast
    then show ?case by (simp add: live_def ball_Un)
  qed (simp add: live_def)
  then show ?thesis by (auto simp: cache_get_def)
qed

lemma SendRtx_safe:
  assumes "sender_from c tx s"
  shows "\<exists>out s'. SendRtx n seqs s = Ok (out, s')"
proof (cases "s_cache s")
  case (Some cached)
  then have "\<forall>p \<in> set cached. sendable p" using assms by (auto simp: sender_from_def)
  then obtain ps where "cache_get seqs cached = Ok ps" "live ps" using cache_get_safe by blast
  then show ?thesis using send_rtx_all_safe [of ps n s] Some by (auto simp: SendRtx_def)
qed (simp add: SendRtx_def)

lemma notify_frame:
  "session_NotifyNackReceived n seqs ms = Ok (ps, ms') \<Longrightarrow>
   ms_config ms' = ms_config ms \<and> ms_rtcp_sender ms' = ms_rtcp_sender ms \<and> ms_rtcp_receiver ms' = ms_rtcp_receiver ms"
  by (auto simp: session_NotifyNackReceived_def deref_def omap_eq_Ok_conv split: option.splits if_splits)

lemma notified_near:
  assumes "near_safe a tx ms"
  shows "\<exists>ps ms'. session_notified n ns ms = Ok (ps, ms') \<and> near_safe a tx ms'"
  using assms
proof (induction n ns ms rule: session_notified.induct)
  case (2 n ns ms)
  have "near_safe a tx (session_NotifyByeReceived ms)" using "2.prems" session_bye_ok
    by (auto simp: near_safe_def near_ok_def side_ok_def short_cname_def session_NotifyByeReceived_def)
  then show ?case using "2.IH" by simp
next
  case (3 n seqs ns ms)
  obtain s where s: "ms_rtp_sender ms = Some s" "sender_from (rtp_sender_config_of a) tx s" and init: "ms_initialized ms"
    using "3.prems" by (auto simp: near_safe_def near_ok_def side_ok_def session_ok_def)
  obtain out s' where x: "SendRtx n seqs s = Ok (out, s')" using SendRtx_safe [OF s(2)] by blast
  let ?ms = "ms\<lparr>ms_rtp_sender := Some s'\<rparr>"
  have one: "session_NotifyNackReceived n seqs ms = Ok (out, ?ms)"
    using s(1) x init "3.prems" by (simp add: session_NotifyNackReceived_def deref_def near_safe_def)
  have "near_safe a tx ?ms" using "3.prems" SendRtx_from(1) [OF x s(2)] session_new_sender_ok
    by (auto simp: near_safe_def near_ok_def side_ok_def short_cname_def)
  then obtain ps ms' where "session_notified n ns ?ms = Ok (ps, ms')" "near_safe a tx ms'"
    using "3.IH" [OF one refl] by blast
  then show ?case using one by simp
qed simp

text \<open>No payload type that the demuxer takes for RTCP.\<close>

definition rtp_types :: "media_config \<Rightarrow> bool" where
  "rtp_types a \<longleftrightarrow> (\<forall>pt \<in> set (s_rtp_payload_types (rtp_sender_config_of a)) \<union> fst ` set (s_map_rtx (rtp_sender_config_of a)).
     \<not> PayloadTypeIsReservedForRtcp pt)"

lemma rtx_of_type:
  assumes "paired a b" and "rtp_types a" and "sendable p" and "rtx_of (rtp_sender_config_of a) p q"
  shows "\<not> PayloadTypeIsReservedForRtcp (payload_type q)"
proof -
  let ?c = "rtp_sender_config_of a"
  obtain n s s' where s: "s_config s = ?c" and con: "ConstructRtx n p s = Ok (Some q, s')" using assms(4) by (auto simp: rtx_of_def)
  obtain e where e: "rtx_type_of (s_map_rtx ?c) (payload_type p) = Some e"
    using con s by (cases "rtx_type_of (s_map_rtx ?c) (payload_type p)") (auto simp: ConstructRtx_def)
  then have mem: "e \<in> set (s_map_rtx ?c)" by (auto simp: rtx_type_of_def find_Some_iff)
  obtain body where body: "payload_buffer p = Some body"
    using assms(3) by (cases "payload_buffer p") (auto simp: sendable_def plain_def payload_bytes_def)
  have "octet_m_pt q = m_payload_type_octet p (fst e)"
    by (rule ConstructRtx_Ok [OF sendable_ok [OF assms(3)] body _ e [folded s], of n]) (use assms(3) con in \<open>auto simp: sendable_def\<close>)
  then have "payload_type q = fst e" using m_payload_type_octet_parts(1) paired_configs(7) [OF assms(1) mem] by simp
  then show ?thesis using assms(2) mem by (auto simp: rtp_types_def)
qed

lemma notified_near_plain:
  assumes "paired a b" and "rtp_types a" and "near_safe a tx ms" and "session_notified n ns ms = Ok (ps, ms')"
  shows "\<forall>q \<in> set ps. plain q \<and> \<not> PayloadTypeIsReservedForRtcp (payload_type q)"
proof
  fix q assume q: "q \<in> set ps"
  obtain s where s: "sender_from (rtp_sender_config_of a) tx s" using assms(3) by (auto simp: near_safe_def near_ok_def)
  have "\<forall>q \<in> set ps. \<exists>p \<in> set tx. rtx_of (rtp_sender_config_of a) p q"
    using session_notified_near [OF assms(4), of "rtp_sender_config_of a" tx] assms(3) by (simp add: near_safe_def)
  from bspec [OF this q] obtain p where p: "p \<in> set tx" "rtx_of (rtp_sender_config_of a) p q" by (elim bexE) (rule that)
  from sender_from_packets [OF s p(1)] have "sendable p" "ssrc p = local_ssrc (rtp_sender_config_of a)" by simp_all
  then show "plain q \<and> \<not> PayloadTypeIsReservedForRtcp (payload_type q)"
    using carries_rtx(1) [OF assms(1) _ _ p] rtx_of_type [OF assms(1,2) _ p(2)] by blast
qed

lemma side_new_rtcp:
  "side_ok ms \<Longrightarrow> ms_rtcp_receiver ms = Some r0 \<Longrightarrow> receiver_config r = receiver_config r0 \<Longrightarrow>
   side_ok (ms\<lparr>ms_rtcp_receiver := Some r\<rparr>)"
  by (auto simp: side_ok_def session_ok_def short_cname_def)

interpretation near_side: rtcp_side "\<lambda>ms. paired a b \<and> rtp_types a \<and> near_safe a tx ms"
  "\<lambda>q. \<not> PayloadTypeIsReservedForRtcp (payload_type q)" for a b tx
proof unfold_locales
  fix ms
  assume "paired a b \<and> rtp_types a \<and> near_safe a tx ms"
  then show "\<exists>r. ms_rtcp_receiver ms = Some r \<and> receiver_config r \<noteq> None" by (auto simp: near_safe_def side_ok_def)
next
  fix ms :: media_session and r0 r :: rtcp_receiver and n ns
  assume ok: "paired a b \<and> rtp_types a \<and> near_safe a tx ms" and r: "ms_rtcp_receiver ms = Some r0" "receiver_config r = receiver_config r0"
  let ?ms = "ms\<lparr>ms_rtcp_receiver := Some r\<rparr>"
  have safe: "near_safe a tx ?ms"
    using ok side_new_rtcp [OF _ r] by (auto simp: near_safe_def near_ok_def short_cname_def)
  then obtain ps ms' where "session_notified n ns ?ms = Ok (ps, ms')" "near_safe a tx ms'" using notified_near by blast
  then show "\<exists>ps ms'. session_notified n ns ?ms = Ok (ps, ms')
      \<and> (\<forall>p \<in> set ps. plain p \<and> \<not> PayloadTypeIsReservedForRtcp (payload_type p))
      \<and> (paired a b \<and> rtp_types a \<and> near_safe a tx ms')"
    using notified_near_plain [OF _ _ safe] ok by blast
qed

section \<open>The far side\<close>

definition far_safe :: "media_config \<Rightarrow> rtp_packet list \<Rightarrow> rtp_packet list \<Rightarrow> media_session \<Rightarrow> bool" where
  "far_safe b tx out ms \<longleftrightarrow> far_side (rtp_receiver_config_of b) tx (tracks tx) out ms \<and> side_ok ms
     \<and> ms_config ms = b \<and> mc_direction b = RecvOnly"

lemma notified_far:
  assumes "far_safe b tx out ms"
  shows "\<exists>ms'. session_notified n ns ms = Ok ([], ms') \<and> far_safe b tx out ms'"
  using assms
proof (induction n ns ms rule: session_notified.induct)
  case (2 n ns ms)
  have "far_safe b tx out (session_NotifyByeReceived ms)" using "2.prems" session_bye_ok
    by (auto simp: far_safe_def far_side_def side_ok_def short_cname_def session_NotifyByeReceived_def)
  then show ?case using "2.IH" by simp
next
  case (3 n seqs ns ms)
  have "session_NotifyNackReceived n seqs ms = Ok ([], ms)"
    using "3.prems" by (simp add: session_NotifyNackReceived_def far_safe_def)
  moreover obtain ms' where "session_notified n ns ms = Ok ([], ms')" "far_safe b tx out ms'"
    using "3.IH" [OF calculation refl "3.prems"] by blast
  ultimately show ?case by simp
qed simp

interpretation far_rtcp: rtcp_side "far_safe b tx out" "\<lambda>_. False" for b tx out
proof unfold_locales
  fix ms
  assume "far_safe b tx out ms"
  then show "\<exists>r. ms_rtcp_receiver ms = Some r \<and> receiver_config r \<noteq> None" by (auto simp: far_safe_def side_ok_def)
next
  fix ms :: media_session and r0 r :: rtcp_receiver and n ns
  assume ok: "far_safe b tx out ms" and r: "ms_rtcp_receiver ms = Some r0" "receiver_config r = receiver_config r0"
  have "far_safe b tx out (ms\<lparr>ms_rtcp_receiver := Some r\<rparr>)"
    using ok side_new_rtcp [OF _ r] by (auto simp: far_safe_def far_side_def)
  then obtain ms' where "session_notified n ns (ms\<lparr>ms_rtcp_receiver := Some r\<rparr>) = Ok ([], ms')" "far_safe b tx out ms'"
    using notified_far by blast
  then show "\<exists>ps ms'. session_notified n ns (ms\<lparr>ms_rtcp_receiver := Some r\<rparr>) = Ok (ps, ms')
      \<and> (\<forall>p \<in> set ps. plain p \<and> False) \<and> far_safe b tx out ms'" by simp
qed


lemma nack_short:
  assumes "far_safe b tx out ms" and "ms_rtp_receiver ms = Some r" and "genuine (rtp_receiver_config_of b) (set tx) p"
    and "base_for tx base" and "OnRtpPacket td clk p r = Ok (o1, r')" and "nack_seqs o1 = Some seqs"
  shows "length seqs \<le> 65533"
  using assms(5)
proof (cases rule: OnRtpPacket_cases)
  case (taken q k)
  have "r_config r = rtp_receiver_config_of b" "receiver_from tx out r" "tracks tx out r"
    using assms(1,2) by (auto simp: far_safe_def far_side_def)
  from nack_length [OF after_put(1) [OF this assms(3,4) taken(1,2)], of "clk 2"] show ?thesis
    using assms(6) taken(3) by auto
qed (use assms(6) in \<open>simp add: silent_def\<close>)

text \<open>The receiver takes every packet that a datagram of the near side brings.\<close>

lemma far_takes:
  assumes safe: "far_safe b tx out ms" and r: "ms_rtp_receiver ms = Some r"
    and p: "genuine (rtp_receiver_config_of b) (set tx) p" and base: "base_for tx base"
  obtains o1 r' where "OnRtpPacket td clk p r = Ok (o1, r')" and "side_ok (ms\<lparr>ms_rtp_receiver := Some r'\<rparr>)"
proof -
  have conf: "r_config r = rtp_receiver_config_of b" and from_tx: "receiver_from tx out r"
    using safe r by (auto simp: far_safe_def far_side_def)
  have "order_ok base out (r_cache r)" using from_tx base by (simp add: receiver_from_def base_for_def)
  then have inv: "cache_inv (if out = [] then base else sequence_number (last out)) (r_cache r)"
    and start: "has_callback_packet (r_cache r) \<or>
      (case resolve_rtx p r of Ok (Some q) \<Rightarrow> ahead (if out = [] then base else sequence_number (last out)) (sequence_number q) | _ \<Rightarrow> True)"
    using p conf base by (auto simp: order_ok_def genuine_def base_for_def split: outcome.split option.split)
  have "received_ok p" using p by (simp add: genuine_def)
  then obtain o1 r' where on: "OnRtpPacket td clk p r = Ok (o1, r')" by (rule OnRtpPacket_inv [OF _ inv start])
  moreover have "side_ok (ms\<lparr>ms_rtp_receiver := Some r'\<rparr>)" using safe r OnRtpPacket_has_received [OF on]
    by (auto simp: far_safe_def side_ok_def session_ok_def short_cname_def)
  ultimately show ?thesis by (rule that)
qed

lemma on_rtp_safe:
  assumes safe: "far_safe b tx out ms" and p: "genuine (rtp_receiver_config_of b) (set tx) p" and base: "base_for tx base"
  obtains o1 eff ms' ds where "session_OnRtp td rtp_time clk p ms = Ok (o1, eff, ms')" and "far_safe b tx (out @ o1) ms'"
    and "write_rtcp fill eff = Ok ds" and "\<forall>d \<in> set ds. one_way_compound d"
proof -
  obtain r where r: "ms_rtp_receiver ms = Some r" using safe by (auto simp: far_safe_def far_side_def)
  obtain o1 r' where on: "OnRtpPacket td clk p r = Ok (o1, r')" and side: "side_ok (ms\<lparr>ms_rtp_receiver := Some r'\<rparr>)"
    by (rule far_takes [OF safe r p base])
  let ?ms = "ms\<lparr>ms_rtp_receiver := Some r'\<rparr>"
  have "\<exists>eff ms' ds. session_OnRtp td rtp_time clk p ms = Ok (released o1, eff, ms') \<and> side_ok ms' \<and> ms_config ms' = ms_config ms
      \<and> write_rtcp fill eff = Ok ds \<and> (\<forall>d \<in> set ds. one_way_compound d)"
  proof (cases "nack_seqs o1")
    case None
    then show ?thesis using r on side by (simp add: session_OnRtp_def deref_def write_rtcp_def no_effect_def)
  next
    case (Some seqs)
    have "sends_compound (SendNack (clk 4) seqs)"
      by (rule sends_compound_Nack [OF nack_short [OF safe r p base on Some]])
    from run_rtcp_safe [OF side sends_built_SendNack this] obtain ms' eff ds where
      run: "run_rtcp rtp_time (clk 4) (SendNack (clk 4) seqs) ?ms = Ok (ms', eff)" "side_ok ms'" "same_rtp ?ms ms'"
      "write_rtcp fill eff = Ok ds" "\<forall>d \<in> set ds. one_way_compound d" .
    have "ms_initialized ?ms" using side by (simp add: side_ok_def session_ok_def)
    then have "session_OnRtp td rtp_time clk p ms = Ok (released o1, eff, ms')"
      using r on Some run(1) by (simp add: session_OnRtp_def deref_def session_NotifyLoss_def)
    then show ?thesis using run by (simp add: same_rtp_def)
  qed
  then obtain eff ms' ds where s: "session_OnRtp td rtp_time clk p ms = Ok (released o1, eff, ms')" "side_ok ms'"
    "ms_config ms' = ms_config ms" "write_rtcp fill eff = Ok ds" "\<forall>d \<in> set ds. one_way_compound d" by blast
  have "far_side (rtp_receiver_config_of b) tx (tracks tx) (out @ released o1) ms'"
    by (rule tracking.on_rtp_keeps [OF s(1) _ p]) (use safe in \<open>simp add: far_safe_def\<close>)
  then have "far_safe b tx (out @ released o1) ms'" using safe s(2,3) by (simp add: far_safe_def)
  then show ?thesis using that s by blast
qed

lemma deliver_rtp_safe:
  assumes "far_safe b tx out ms" and "\<forall>p \<in> set ps. genuine (rtp_receiver_config_of b) (set tx) p" and base: "base_for tx base"
  shows "\<exists>new ds ms'. deliver_rtp e i ps ms = Ok (new, ds, ms') \<and> far_safe b tx (out @ new) ms'
    \<and> (\<forall>d \<in> set ds. one_way_compound d)"
  using assms(1,2)
proof (induction ps arbitrary: i ms out)
  case (Cons p ps)
  have p: "genuine (rtp_receiver_config_of b) (set tx) p" using Cons.prems(2) by simp
  obtain o1 eff ms1 ds1 where one: "session_OnRtp (transit e) (extrapolate e) (clocks e i) p ms = Ok (o1, eff, ms1)"
    "far_safe b tx (out @ o1) ms1" "write_rtcp (filler e) eff = Ok ds1" "\<forall>d \<in> set ds1. one_way_compound d"
    by (rule on_rtp_safe [OF Cons.prems(1) p base])
  obtain o2 ds2 ms' where "deliver_rtp e (Suc i) ps ms1 = Ok (o2, ds2, ms')" "far_safe b tx ((out @ o1) @ o2) ms'"
    "\<forall>d \<in> set ds2. one_way_compound d"
    using Cons.IH [OF one(2), of "Suc i"] Cons.prems(2) by auto
  then show ?case using one by auto
qed simp

lemma OnRtcp_snd: "set (map snd (OnRtcp router ds)) \<subseteq> set ds"
  by (auto simp: OnRtcp_def)

lemma receive_far_safe:
  assumes "far_safe b tx out ms" and "base_for tx base"
    and ds: "\<forall>d \<in> set ds. carries (rtp_receiver_config_of b) (set tx) d \<and> (one_way_compound d \<or> \<not> is_rtcp d)"
  shows "\<exists>new ds' ms'. receive e ds ms = Ok (new, ds', ms') \<and> far_safe b tx (out @ new) ms'
    \<and> (\<forall>d \<in> set ds'. one_way_compound d)"
proof -
  let ?ps = "map snd (OnRtp (media_expects ms) (media_router ms) (concat (map parsed_rtp (filter is_rtp ds))))"
  have "\<forall>p \<in> set ?ps. genuine (rtp_receiver_config_of b) (set tx) p" using ds by (intro routed_genuine) blast
  then obtain new ds1 ms1 where 1: "deliver_rtp e 0 ?ps ms = Ok (new, ds1, ms1)" "far_safe b tx (out @ new) ms1"
    "\<forall>d \<in> set ds1. one_way_compound d"
    using deliver_rtp_safe [OF assms(1) _ assms(2), of ?ps e 0] by blast
  have "\<forall>d \<in> set (map snd (OnRtcp (media_router ms) (filter is_rtcp ds))). one_way_compound d"
    using OnRtcp_snd [of "media_router ms" "filter is_rtcp ds"] ds by fastforce
  from far_rtcp.deliver_safe [OF 1(2) this] obtain out2 ms' where
    2: "deliver_rtcp e 0 (map snd (OnRtcp (media_router ms) (filter is_rtcp ds))) ms1 = Ok (out2, ms')"
    "far_safe b tx (out @ new) ms'" "\<forall>d \<in> set out2. \<exists>p. plain p \<and> False \<and> d = rtp_image p" by blast
  then show ?thesis using 1 by (simp add: receive_def demux_datagrams)
qed

lemma receive_near_safe:
  assumes "paired a b" and "rtp_types a" and "near_safe a tx ms" and ds: "\<forall>d \<in> set ds. one_way_compound d"
  shows "\<exists>ps out ms'. receive e ds ms = Ok (ps, out, ms') \<and> near_safe a tx ms' \<and> (\<forall>d \<in> set out. \<not> is_rtcp d)"
proof -
  have "\<not> media_expects ms d s" for d s using assms(3) by (simp add: media_expects_def near_safe_def near_ok_def)
  then have none: "OnRtp (media_expects ms) (media_router ms) rtps = []" for rtps by (rule route_rtp_none)
  have "\<forall>d \<in> set (map snd (OnRtcp (media_router ms) (filter is_rtcp ds))). one_way_compound d"
    using OnRtcp_snd [of "media_router ms" "filter is_rtcp ds"] ds by fastforce
  from near_side.deliver_safe [OF _ this, where a = a and b = b and tx = tx] obtain out ms' where
    "deliver_rtcp e 0 (map snd (OnRtcp (media_router ms) (filter is_rtcp ds))) ms = Ok (out, ms')" "near_safe a tx ms'"
    and "\<forall>d \<in> set out. \<exists>p. plain p \<and> \<not> PayloadTypeIsReservedForRtcp (payload_type p) \<and> d = rtp_image p"
    using assms by blast
  then show ?thesis using none rtp_image_class(2) by (fastforce simp: receive_def demux_datagrams)
qed


section \<open>The system\<close>

definition system_safe :: "media_config \<Rightarrow> media_config \<Rightarrow> system \<Rightarrow> bool" where
  "system_safe a b w \<longleftrightarrow> near_safe a (accepted w) (near w) \<and> far_safe b (accepted w) (handed w) (far w)
     \<and> (\<forall>d \<in> set (to_near w). one_way_compound d)
     \<and> (\<forall>d \<in> set (to_far w). carries (rtp_receiver_config_of b) (set (accepted w)) d \<and> (one_way_compound d \<or> \<not> is_rtcp d))"

lemma base_for_prefix: "base_for (tx @ ps) b \<Longrightarrow> base_for tx b"
  by (simp add: base_for_def)

lemma far_safe_more: "far_safe b tx out ms \<Longrightarrow> far_safe b (tx @ ps) out ms"
  using receiver_from_more base_for_prefix by (fastforce simp: far_safe_def far_side_def tracks_def)

lemma near_sends:
  assumes "near_safe a tx ms" and "sendable p"
  shows "\<exists>ps ms'. session_SendRtpPacket now (Some p) ms = Ok (ps, ms') \<and> near_safe a (tx @ ps) ms' \<and> set ps \<subseteq> {p}
    \<and> write_rtp fill ps = Ok (map rtp_image ps)"
proof -
  obtain s where s: "ms_rtp_sender ms = Some s" "sender_from (rtp_sender_config_of a) tx s" and init: "ms_initialized ms"
    using assms(1) by (auto simp: near_safe_def near_ok_def side_ok_def session_ok_def)
  have "sender_inv (rtp_sender_config_of a) tx s" using s(2) by (simp add: sender_from_def)
  then obtain ps s' where send: "SendRtp now (Some p) s = Ok (ps, s')"
    by (rule SendRtp_inv [of _ _ _ "Some p" now]) (use sendable_ok [OF assms(2)] in auto)
  note from_s = SendRtp_from [OF s(2) assms(2) send]
  have "write_rtp fill ps = Ok (map rtp_image ps)"
    by (rule write_rtp_plain) (use from_s(2) assms(2) in \<open>auto simp: sendable_def\<close>)
  moreover have "near_safe a (tx @ ps) (ms\<lparr>ms_rtp_sender := Some s'\<rparr>)"
    using assms(1) from_s(1) session_new_sender_ok by (auto simp: near_safe_def near_ok_def side_ok_def short_cname_def)
  ultimately show ?thesis
    using s(1) send init from_s(2) assms(1) by (simp add: session_SendRtpPacket_def deref_def near_safe_def)
qed

text \<open>What the near side sends for a packet is never taken for RTCP by the demuxer of the far side.\<close>

lemma sent_images_rtp:
  assumes safe: "near_safe a (acc @ ps) ms" and types: "rtp_types a" and plain: "\<forall>q \<in> set ps. plain q"
  shows "\<forall>d \<in> set (map rtp_image ps). \<not> is_rtcp d"
proof -
  obtain k where k: "sender_from (rtp_sender_config_of a) (acc @ ps) k"
    using safe by (auto simp: near_safe_def near_ok_def)
  have "\<not> is_rtcp (rtp_image q)" if q: "q \<in> set ps" for q
  proof -
    have "payload_type q \<in> set (s_rtp_payload_types (rtp_sender_config_of a))"
      using k q by (auto simp: sender_from_def sender_inv_def)
    then show ?thesis using rtp_image_class(2) [of q] types q plain by (auto simp: rtp_types_def)
  qed
  then show ?thesis by simp
qed

text \<open>Reports and BYEs, of either side.\<close>

lemma schedule_safe:
  assumes "side_ok ms"
  obtains ms' eff ds where "session_Schedule rtp_time now ms = Ok (ms', eff)" and "side_ok ms'" and "same_rtp ms ms'"
    and "write_rtcp fill eff = Ok ds" and "\<forall>d \<in> set ds. one_way_compound d"
  using run_rtcp_safe [OF assms sends_built_Schedule sends_compound_Schedule, of rtp_time now now fill]
  unfolding session_Schedule_def by blast

lemma bye_safe:
  assumes "side_ok ms"
  obtains ms' eff ds where "session_SendBye rtp_time now ms = Ok (ms', eff)" and "side_ok ms'" and "same_rtp ms ms'"
    and "write_rtcp fill eff = Ok ds" and "\<forall>d \<in> set ds. one_way_compound d"
proof -
  have "ms_initialized ms" using assms by (simp add: side_ok_def session_ok_def)
  then have run: "session_SendBye rtp_time now ms = run_rtcp rtp_time now SendBye ms" by (simp add: session_SendBye_def)
  show ?thesis
    by (rule run_rtcp_safe [OF assms sends_built_SendBye sends_compound_Bye, of rtp_time now fill]) (rule that, simp_all add: run)
qed

lemma near_safe_frame: "near_safe a tx ms \<Longrightarrow> side_ok ms' \<Longrightarrow> same_rtp ms ms' \<Longrightarrow> near_safe a tx ms'"
  by (auto simp: near_safe_def same_rtp_def side_ok_def intro: near_ok_frame)

lemma far_safe_frame: "far_safe b tx out ms \<Longrightarrow> side_ok ms' \<Longrightarrow> same_rtp ms ms' \<Longrightarrow> far_safe b tx out ms'"
  by (auto simp: far_safe_def same_rtp_def intro: far_side_frame)

lemma compound_carries:
  assumes "one_way_compound d"
  shows "carries c tx d"
proof -
  obtain ps where ps: "d = concat (map packet_image ps)" "\<forall>p \<in> set ps. packet_wf p"
    using assms by (auto simp: one_way_compound_def)
  then have "\<not> is_rtp d" using compound_class by (cases ps) (auto simp: is_rtp_def)
  then show ?thesis by (simp add: carries_def)
qed

lemma system_safe_step:
  assumes "net_step w w'" and pair: "paired a b" and types: "rtp_types a" and ok: "system_safe a b w"
    and base: "base_for (accepted w) base"
  shows "system_safe a b w'"
proof -
  have near: "near_safe a (accepted w) (near w)" and far: "far_safe b (accepted w) (handed w) (far w)"
    and replies: "\<forall>d \<in> set (to_near w). one_way_compound d"
    and air: "\<forall>d \<in> set (to_far w). carries (rtp_receiver_config_of b) (set (accepted w)) d \<and> (one_way_compound d \<or> \<not> is_rtcp d)"
    using ok by (auto simp: system_safe_def)
  have sides: "side_ok (near w)" "side_ok (far w)" using near far by (simp_all add: near_safe_def far_safe_def)
  have sys: "system_ok a b w"
    using near far air by (auto simp: system_ok_def near_safe_def far_safe_def far_side_def)
  from assms(1) show ?thesis
  proof cases
    case (send p now ps ms fill ds)
    obtain ps' ms' where s: "session_SendRtpPacket now (Some p) (near w) = Ok (ps', ms')"
      "near_safe a (accepted w @ ps') ms'" "set ps' \<subseteq> {p}" "write_rtp fill ps' = Ok (map rtp_image ps')"
      using near_sends [OF near send(2)] by blast
    then have eq: "ps' = ps" "ms' = ms" "ds = map rtp_image ps" using send by auto
    have "system_ok a b w'" using system_ok_send [OF pair sys send(2-4)] send(1) by simp
    moreover have "\<forall>d \<in> set ds. \<not> is_rtcp d"
      using sent_images_rtp [OF s(2) types] s(3) send(2) eq by (auto simp: sendable_def)
    ultimately show ?thesis using send s(2) eq air far_safe_more [OF far] replies
      by (auto simp: system_safe_def system_ok_def)
  next
    case (far_receives ds e ps out ms)
    obtain new ds' ms' where r: "receive e ds (far w) = Ok (new, ds', ms')" "far_safe b (accepted w) (handed w @ new) ms'"
      "\<forall>d \<in> set ds'. one_way_compound d"
      using receive_far_safe [OF far base, of ds e] air far_receives(2) by blast
    then show ?thesis using far_receives near air replies by (auto simp: system_safe_def)
  next
    case (near_receives ds e ps out ms)
    obtain ps' out' ms' where r: "receive e ds (near w) = Ok (ps', out', ms')" "near_safe a (accepted w) ms'"
      "\<forall>d \<in> set out'. \<not> is_rtcp d"
      using receive_near_safe [OF pair types near, of ds e] replies near_receives(2) by blast
    moreover have "\<forall>d \<in> set out. carries (rtp_receiver_config_of b) (set (accepted w)) d"
      using receive_near [OF near_receives(3) pair] near by (simp add: near_safe_def)
    ultimately show ?thesis using near_receives far air replies by (auto simp: system_safe_def)
  next
    case (near_reports rtp_time now ms eff fill ds)
    obtain ms' eff' ds' where "session_Schedule rtp_time now (near w) = Ok (ms', eff')" "side_ok ms'" "same_rtp (near w) ms'"
      "write_rtcp fill eff' = Ok ds'" "\<forall>d \<in> set ds'. one_way_compound d" by (rule schedule_safe [OF sides(1)])
    then show ?thesis using near_reports near_safe_frame [OF near] far air replies compound_carries
      by (auto simp: system_safe_def)
  next
    case (far_reports rtp_time now ms eff fill ds)
    obtain ms' eff' ds' where "session_Schedule rtp_time now (far w) = Ok (ms', eff')" "side_ok ms'" "same_rtp (far w) ms'"
      "write_rtcp fill eff' = Ok ds'" "\<forall>d \<in> set ds'. one_way_compound d" by (rule schedule_safe [OF sides(2)])
    then show ?thesis using far_reports far_safe_frame [OF far] near air replies by (auto simp: system_safe_def)
  next
    case (near_leaves rtp_time now ms eff fill ds)
    obtain ms' eff' ds' where "session_SendBye rtp_time now (near w) = Ok (ms', eff')" "side_ok ms'" "same_rtp (near w) ms'"
      "write_rtcp fill eff' = Ok ds'" "\<forall>d \<in> set ds'. one_way_compound d" by (rule bye_safe [OF sides(1)])
    then show ?thesis using near_leaves near_safe_frame [OF near] far air replies compound_carries
      by (auto simp: system_safe_def)
  next
    case (far_leaves rtp_time now ms eff fill ds)
    obtain ms' eff' ds' where "session_SendBye rtp_time now (far w) = Ok (ms', eff')" "side_ok ms'" "same_rtp (far w) ms'"
      "write_rtcp fill eff' = Ok ds'" "\<forall>d \<in> set ds'. one_way_compound d" by (rule bye_safe [OF sides(2)])
    then show ?thesis using far_leaves far_safe_frame [OF far] near air replies by (auto simp: system_safe_def)
  qed
qed


lemma system_safe_start:
  assumes "paired a b" and "length name \<le> 255" and "length name' \<le> 255"
    and "session_Initialize now name a = Ok (ms_a, eff)" and "session_Initialize now' name' b = Ok (ms_b, eff')"
  shows "system_safe a b (link ms_a ms_b)"
proof -
  have dir: "mc_direction a = SendOnly" "mc_direction b = RecvOnly" using assms(1) by (simp_all add: paired_def)
  have sys: "system_ok a b (link ms_a ms_b)" by (rule system_ok_start [OF assms(1,2,4,5)])
  have conf: "ms_config ms_a = a" "ms_config ms_b = b"
    and rcv: "\<exists>r. ms_rtcp_receiver ms_a = Some r \<and> receiver_config r = Some (rtcp_receiver_config_of a)"
      "\<exists>r. ms_rtcp_receiver ms_b = Some r \<and> receiver_config r = Some (rtcp_receiver_config_of b)"
    and snd: "\<exists>s. ms_rtcp_sender ms_a = Some s \<and> rtcp_local_ssrc (rs_config s) = mc_ssrc_media_local a"
      "\<exists>s. ms_rtcp_sender ms_b = Some s \<and> rtcp_local_ssrc (rs_config s) = mc_ssrc_media_local b"
    and names: "short_cname ms_a" "short_cname ms_b"
    using assms dir
    by (auto simp: session_Initialize_def obind_eq_Ok_conv rtcp_sender_Initialize_def Let_def short_cname_def
        rtcp_sender_new_def rtcp_sender_config_of_def rtcp_receiver_Initialize_def split: outcome.splits)
  have sides: "side_ok ms_a" "side_ok ms_b"
    using session_Initialize_ok assms(4,5) conf rcv snd names dir by (auto simp: side_ok_def)
  obtain r where r: "ms_rtp_receiver ms_b = Some r" "r_config r = rtp_receiver_config_of b" "receiver_from [] [] r"
    using sys by (auto simp: system_ok_def link_def far_side_def)
  have "receiver_Initialize (Some (rtp_receiver_config_of b)) = Ok r"
    using assms(5) dir r(1)
    by (auto simp: session_Initialize_def obind_eq_Ok_conv rtcp_sender_Initialize_def Let_def split: outcome.splits)
  then have "r_cache r = receiver_cache_new (r_max_cache_duration_ms (rtp_receiver_config_of b))"
    by (auto simp: receiver_Initialize_def receiver_new_def split: if_splits)
  then have "tracks [] [] r"
    by (simp add: tracks_def losses_ok_def all_in_window_def noticed_def receiver_cache_new_def)
  then show ?thesis using sys sides r conf dir
    by (auto simp: system_safe_def system_ok_def link_def near_safe_def far_safe_def far_side_def)
qed

lemma accepted_grows: "net_step w w' \<Longrightarrow> \<exists>ps. accepted w' = accepted w @ ps"
  by (cases rule: net_step.cases) auto

lemma net_reachable_safe:
  assumes "net_reachable a b w" and "paired a b" and "rtp_types a" and "base_for (accepted w) base"
  shows "system_safe a b w"
  using assms(1,4)
proof induction
  case (start now name ms_a eff now' name' ms_b eff')
  then show ?case using system_safe_start [OF assms(2)] by blast
next
  case (step w w')
  then obtain ps where "accepted w' = accepted w @ ps" using accepted_grows by blast
  then have base: "base_for (accepted w) base" using step.prems base_for_prefix by simp
  show ?case by (rule system_safe_step [OF step.hyps(2) assms(2,3) step.IH [OF base] base])
qed

lemma sent_base:
  assumes "net_reachable a b w" and "paired a b" and "length (accepted w) < 32768"
    and "0 \<notin> sequence_number ` set (accepted w)"
  shows "base_for (accepted w) (sequence_number (hd (accepted w)) - 1)"
proof -
  have "consecutive (accepted w)"
    using net_reachable_ok [OF assms(1,2)] by (auto simp: system_ok_def near_ok_def sender_from_def sender_inv_def)
  then show ?thesis using consecutive_ahead(1) [of "accepted w"] assms(3,4) by (fastforce simp: base_for_def)
qed

text \<open>C3: A one-way session over the network never leaves defined behaviour: in every state it can reach
  (with fewer than 32768 packets sent, none of them number 0, and payload types that are not taken for
  RTCP), the near side can send any plain packet, each side can be delivered any of the datagrams sent to
  it, in any order and number, and can send its report and its BYE; none of these calls crashes.\<close>

theorem one_way_never_crashes:
  assumes "net_reachable a b w" and "paired a b" and "rtp_types a" and "length (accepted w) < 32768"
    and "0 \<notin> sequence_number ` set (accepted w)"
  shows "(sendable p \<longrightarrow> (\<exists>ps ms ds. session_SendRtpPacket now (Some p) (near w) = Ok (ps, ms) \<and> write_rtp fill ps = Ok ds))
    \<and> (set ds \<subseteq> set (to_far w) \<longrightarrow> (\<exists>x. receive e ds (far w) = Ok x))
    \<and> (set ds' \<subseteq> set (to_near w) \<longrightarrow> (\<exists>x. receive e ds' (near w) = Ok x))
    \<and> (\<forall>side \<in> {near w, far w}.
        (\<exists>ms eff ds. session_Schedule rtp_time now side = Ok (ms, eff) \<and> write_rtcp fill eff = Ok ds)
      \<and> (\<exists>ms eff ds. session_SendBye rtp_time now side = Ok (ms, eff) \<and> write_rtcp fill eff = Ok ds))"
proof -
  let ?b = "sequence_number (hd (accepted w)) - 1"
  have base: "base_for (accepted w) ?b" by (rule sent_base [OF assms(1,2,4,5)])
  have ok: "system_safe a b w" by (rule net_reachable_safe [OF assms(1-3) base])
  then have near: "near_safe a (accepted w) (near w)" and far: "far_safe b (accepted w) (handed w) (far w)"
    by (simp_all add: system_safe_def)
  then have "side_ok ms" if "ms \<in> {near w, far w}" for ms using that by (auto simp: near_safe_def far_safe_def)
  then have reports: "\<exists>ms' eff ds. session_Schedule rtp_time now ms = Ok (ms', eff) \<and> write_rtcp fill eff = Ok ds"
    "\<exists>ms' eff ds. session_SendBye rtp_time now ms = Ok (ms', eff) \<and> write_rtcp fill eff = Ok ds" if "ms \<in> {near w, far w}" for ms
    using that by (metis schedule_safe, metis bye_safe)
  have "\<exists>x. receive e ds (far w) = Ok x" if "set ds \<subseteq> set (to_far w)"
  proof -
    have "\<forall>d \<in> set ds. carries (rtp_receiver_config_of b) (set (accepted w)) d \<and> (one_way_compound d \<or> \<not> is_rtcp d)"
      using ok that by (auto simp: system_safe_def)
    from receive_far_safe [OF far base this] show ?thesis by blast
  qed
  moreover have "\<exists>x. receive e ds' (near w) = Ok x" if "set ds' \<subseteq> set (to_near w)"
  proof -
    have "\<forall>d \<in> set ds'. one_way_compound d" using ok that by (auto simp: system_safe_def)
    from receive_near_safe [OF assms(2,3) near this] show ?thesis by blast
  qed
  moreover have "\<exists>ps ms ds. session_SendRtpPacket now (Some p) (near w) = Ok (ps, ms) \<and> write_rtp fill ps = Ok ds" if "sendable p"
    using near_sends [OF near that] by blast
  ultimately show ?thesis using reports by blast
qed

lemma sample_types: "rtp_types near_media"
  by (simp add: rtp_types_def rtp_sender_config_of_def near_media_def media_config_new_def PayloadTypeIsReservedForRtcp_def)

text \<open>All that is under way is delivered at once, and a packet more is sent.\<close>

theorem one_way_never_crashes_witness:
  "\<exists>w. net_reachable near_media far_media w \<and> to_far w = map (\<lambda>n. rtp_image (sample_packet n)) [5, 6, 7]
    \<and> (\<exists>x. receive still (to_far w) (far w) = Ok x)
    \<and> (\<exists>ps ms ds. session_SendRtpPacket 8 (Some (sample_packet 8)) (near w) = Ok (ps, ms) \<and> write_rtp 0 ps = Ok ds)"
proof -
  obtain w where w: "net_reachable near_media far_media w" "accepted w = map sample_packet [5, 6, 7]"
    "to_far w = map (\<lambda>n. rtp_image (sample_packet n)) [5, 6, 7]" by (rule sample_world)
  have "length (accepted w) < 32768" "0 \<notin> sequence_number ` set (accepted w)" by (simp_all add: w(2) sample_packet_parts)
  from one_way_never_crashes [OF w(1) sample_paired sample_types this, of "sample_packet 8" 8 0 "to_far w" still]
  show ?thesis using w(1,3) sample_sendable [of 8] by blast
qed

end
