(* ===== verification/Lossy_Recovery.thy ===== *)
theory Lossy_Recovery
  imports Lossy_Safety
begin

text \<open>
  The recovery of a lost packet in one round trip: the arrival of a later packet makes the receiver ask
  for the missing one, the request reaches the sender's cache through RTCP, and the retransmission
  becomes the packet again in the receiver. Each part follows one leg of the way.
\<close>

section \<open>The gap is found and asked for\<close>

lemma skip_later_set: "skip_later s passed rest = (p1, r1) \<Longrightarrow> set p1 \<union> set r1 = set passed \<union> set rest"
  by (induction s passed rest rule: skip_later.induct) (auto split: if_splits)

lemma note_loss_entries:
  assumes "note_loss s (passed, rest, n) = (passed', rest', n')"
  shows "set passed' \<union> set rest' \<subseteq> insert (loss_new s) (set passed \<union> set rest)"
proof -
  obtain p1 r1 where s: "skip_later s passed rest = (p1, r1)" by fastforce
  then have "set passed' \<union> set rest' \<subseteq> insert (loss_new s) (set p1 \<union> set r1)"
    using assms by (auto simp: note_loss_def split: if_splits)
  then show ?thesis unfolding skip_later_set [OF s] .
qed

lemma fold_note_loss_entries:
  "fold note_loss lost (passed, rest, n) = (passed', rest', n') \<Longrightarrow>
   set passed' \<union> set rest' \<subseteq> range loss_new \<union> (set passed \<union> set rest)"
proof (induction lost arbitrary: passed rest n)
  case (Cons s lost)
  obtain p1 r1 n1 where one: "note_loss s (passed, rest, n) = (p1, r1, n1)" by (metis prod_cases3)
  then have "set passed' \<union> set rest' \<subseteq> range loss_new \<union> (set p1 \<union> set r1)"
    using Cons.IH [of p1 r1 n1] Cons.prems by simp
  also have "\<dots> \<subseteq> range loss_new \<union> (set passed \<union> set rest)" using note_loss_entries [OF one] by blast
  finally show ?case .
qed simp

lemma SupplementLossSeqs_entries:
  assumes "SupplementLossSeqs c = Ok c'"
  shows "set (loss_seqs c') \<subseteq> range loss_new \<union> set (loss_seqs c)"
proof -
  obtain s seqs where s: "map cp_seq (cached_packets c) = s # seqs"
    using assms by (cases "map cp_seq (cached_packets c)") (auto simp: SupplementLossSeqs_def)
  let ?lost = "all_gaps s (seqs @ (if has_callback_packet c then [latest_callback_seq c] else []))"
  obtain passed rest n where f: "fold note_loss ?lost ([], loss_seqs c, cumulative_packets_loss c) = (passed, rest, n)"
    by (metis prod_cases3)
  have "set (loss_seqs c') \<subseteq> set passed \<union> set rest"
    using assms s f by (auto simp: SupplementLossSeqs_def Let_def split: if_splits)
  then show ?thesis using fold_note_loss_entries [OF f] by auto
qed

lemma PutPacket_parts:
  assumes "PutPacket now p c = (Ok c' :: ('e, receiver_cache) outcome)" and "has_callback_packet c \<Longrightarrow> IsSeqAfter (latest_callback_seq c) (sequence_number p)"
  shows "cached_packets c' = insert_cached \<lparr>cp_packet = p, cp_timeout = ucast (max_cache_duration_ms c) + now\<rparr> (cached_packets c)"
    and "set (loss_seqs c') \<subseteq> range loss_new \<union> set (loss_seqs c)"
    and "has_callback_packet c' = has_callback_packet c" and "latest_callback_seq c' = latest_callback_seq c"
proof -
  let ?new = "\<lparr>cp_packet = p, cp_timeout = ucast (max_cache_duration_ms c) + now\<rparr>"
  define c1 where "c1 = (update_extended (sequence_number p) c)\<lparr>cached_packets := insert_cached ?new (cached_packets c),
      loss_seqs := erase_first_loss (sequence_number p) (loss_seqs c)\<rparr>"
  have "omap (\<lambda>c. c\<lparr>has_cached_packet := True\<rparr>) (SupplementLossSeqs c1) = (Ok c' :: ('e, receiver_cache) outcome)"
    using assms by (auto simp: PutPacket_def Let_def c1_def [symmetric] split: if_splits)
  then obtain c2 where c2: "SupplementLossSeqs c1 = (Ok c2 :: ('e, receiver_cache) outcome)" "c' = c2\<lparr>has_cached_packet := True\<rparr>"
    unfolding omap_eq_Ok_conv by blast
  have "cached_packets c1 \<noteq> []" using c2(1) by (auto simp: SupplementLossSeqs_def)
  then obtain ls n where "SupplementLossSeqs c1 = (Ok (c1\<lparr>loss_seqs := ls, cumulative_packets_loss := n\<rparr>) :: ('e, receiver_cache) outcome)"
    by (rule SupplementLossSeqs_frame)
  with c2(1) have frame: "c2 = c1\<lparr>loss_seqs := ls, cumulative_packets_loss := n\<rparr>" by simp
  show "cached_packets c' = insert_cached ?new (cached_packets c)" "has_callback_packet c' = has_callback_packet c"
    "latest_callback_seq c' = latest_callback_seq c" by (simp_all add: c2(2) frame c1_def)
  have "set (loss_seqs c2) \<subseteq> range loss_new \<union> set (erase_first_loss (sequence_number p) (loss_seqs c))"
    using SupplementLossSeqs_entries [OF c2(1)] by (simp add: c1_def)
  then show "set (loss_seqs c') \<subseteq> range loss_new \<union> set (loss_seqs c)"
    using erase_first_loss_subset [of "sequence_number p" "loss_seqs c"] by (auto simp: c2(2))
qed

lemma insert_scan_member:
  "x \<in> set cs \<Longrightarrow> cp_seq x = cp_seq new \<or> IsSeqAfter (cp_seq x) (cp_seq new) \<Longrightarrow> cp_seq new \<in> cp_seq ` set (insert_scan new cs)"
  by (induction new cs rule: insert_scan.induct) auto

lemma insert_cached_member:
  assumes "\<forall>x \<in> set cs. ahead base (cp_seq x)" and "ahead base (cp_seq new)"
  shows "cp_seq new \<in> cp_seq ` set (insert_cached new cs)"
proof (cases "cs = [] \<or> IsSeqAfter (cp_seq new) (cp_seq (last cs))")
  case False
  then have l: "last cs \<in> set cs" by simp
  then have "cp_seq (last cs) = cp_seq new \<or> IsSeqAfter (cp_seq (last cs)) (cp_seq new)"
    using False assms after_dist [of base] seq_dist_inj by (metis linorder_neqE_nat)
  then show ?thesis using insert_scan_member [OF l] False by (simp add: insert_cached_def)
qed (auto simp: insert_cached_def)

text \<open>A packet that is not late is cached; its number is in the window of the cache.\<close>

lemma put_cached:
  assumes "PutPacket now p c = Ok c'" and "cache_inv base c" and "ahead base (sequence_number p)"
    and "has_callback_packet c \<Longrightarrow> IsSeqAfter (latest_callback_seq c) (sequence_number p)"
  shows "sequence_number p \<in> cp_seq ` set (cached_packets c')"
  using PutPacket_parts(1) [OF assms(1,4)] assms(2,3)
    insert_cached_member [of "cached_packets c" base "\<lparr>cp_packet = p, cp_timeout = ucast (max_cache_duration_ms c) + now\<rparr>"]
  by (simp add: cache_inv_def cp_seq_def)


text \<open>The arrival of a packet (or its retransmission) that is not late, at a receiver that is as in a run.\<close>

definition arrival ::
  "rtp_receiver_config \<Rightarrow> rtp_packet list \<Rightarrow> rtp_packet list \<Rightarrow> u16 \<Rightarrow> rtp_receiver \<Rightarrow> rtp_packet \<Rightarrow> rtp_packet \<Rightarrow> bool" where
  "arrival c tx out b r pk q \<longleftrightarrow> r_config r = c \<and> receiver_from tx out r \<and> tracks tx out r \<and> genuine c (set tx) pk
     \<and> base_for tx b \<and> resolve_rtx pk r = Ok (Some q) \<and> ssrc q = remote_ssrc c
     \<and> payload_type q \<in> set (r_rtp_payload_types c)
     \<and> (has_callback_packet (r_cache r) \<longrightarrow> IsSeqAfter (latest_callback_seq (r_cache r)) (sequence_number q))"

lemma arrival_taken:
  assumes a: "arrival c tx out b r pk q" and on: "OnRtpPacket td clk pk r = Ok (o1, r')"
  obtains k where "PutPacket (clk 1) q (r_cache r) = (Ok k :: (rtp_error, receiver_cache) outcome)"
    and "nack_seqs o1 = Some (fst (GetLossPacketSeqsForNack (clk 2) k))"
    and "(released o1, r_cache r') = GetPackets (clk 3) (snd (GetLossPacketSeqsForNack (clk 2) k))"
    and "losses_ok b k" and "descending (map cp_seq (cached_packets k))"
    and "has_callback_packet k \<Longrightarrow> \<forall>x \<in> set (cached_packets k). IsSeqAfter (latest_callback_seq k) (cp_seq x)"
    and "sequence_number q \<in> cp_seq ` set (cached_packets k)"
  using on
proof (cases rule: OnRtpPacket_cases)
  case ignored
  then show ?thesis using a by (auto simp: arrival_def)
next
  case (taken q' k)
  have r: "r_config r = c" "receiver_from tx out r" "tracks tx out r" "genuine c (set tx) pk" "base_for tx b"
    and q: "q' = q" using a taken(1) by (auto simp: arrival_def)
  note k = after_put [OF r(1-5) taken(1,2)]
  let ?base = "if out = [] then b else sequence_number (last out)"
  have "q \<in> set tx" using r(1,4) taken(1) q by (auto simp: genuine_def)
  then have ahead: "ahead b (sequence_number q)" using r(5) by (simp add: base_for_def)
  have "order_ok b out (r_cache r)" using r(2,5) by (simp add: receiver_from_def base_for_def)
  then have inv: "cache_inv ?base (r_cache r)" and cb: "has_callback_packet (r_cache r) \<longleftrightarrow> out \<noteq> []"
    by (auto simp: order_ok_def)
  have late: "has_callback_packet (r_cache r) \<Longrightarrow> IsSeqAfter (latest_callback_seq (r_cache r)) (sequence_number q)"
    using a by (simp add: arrival_def)
  then have "ahead ?base (sequence_number q)" using ahead inv cb by (auto simp: cache_inv_def ahead_iff)
  then have "sequence_number q \<in> cp_seq ` set (cached_packets k)"
    using put_cached [OF taken(2) [unfolded q] inv _ late] by simp
  then show ?thesis using that taken k by (simp add: q)
qed

lemma gap_nacked:
  assumes a: "arrival c tx out b r pk q" and on: "OnRtpPacket td clk pk r = Ok (o1, r')"
    and cb: "has_callback_packet (r_cache r)" and s: "IsSeqAfter (latest_callback_seq (r_cache r)) s"
    "IsSeqAfter s (sequence_number q)" "s \<noteq> 0" "ahead b s" "s \<notin> cp_seq ` set (cached_packets (r_cache r))"
    and due: "\<forall>l \<in> set (loss_seqs (r_cache r)). loss_seq l = s \<longrightarrow> nack_due (clk 2) l"
  shows "\<exists>seqs. nack_seqs o1 = Some seqs \<and> s \<in> set seqs"
proof -
  obtain k where put: "PutPacket (clk 1) q (r_cache r) = (Ok k :: (rtp_error, receiver_cache) outcome)"
    and nack: "nack_seqs o1 = Some (fst (GetLossPacketSeqsForNack (clk 2) k))"
    and k: "losses_ok b k" "descending (map cp_seq (cached_packets k))" "sequence_number q \<in> cp_seq ` set (cached_packets k)"
    by (rule arrival_taken [OF a on])
  have late: "IsSeqAfter (latest_callback_seq (r_cache r)) (sequence_number q)"
    using a cb by (simp add: arrival_def)
  note parts = PutPacket_parts [OF put late]
  obtain x where x: "x \<in> set (cached_packets k)" "cp_seq x = sequence_number q" using k(3) by auto
  have ne: "cached_packets k \<noteq> []" using x(1) by auto
  have w: "\<forall>x \<in> set (cached_packets k). seq_dist b (cp_seq x) < 32768"
    using k(1) by (auto simp: losses_ok_def all_in_window_def seq.in_window_def)
  have sw: "seq_dist b s < 32768" using s(4) by (simp add: ahead_def)
  have "seq_dist b (sequence_number q) \<le> seq_dist b (cp_seq (hd (cached_packets k)))"
  proof (cases "cached_packets k")
    case (Cons y ys)
    then have "x = y \<or> IsSeqAfter (cp_seq x) (cp_seq y)" using k(2) x(1) by auto
    then show ?thesis using Cons x w IsSeqAfter_window [of b "cp_seq x" "cp_seq y"] by auto
  qed (use ne in simp)
  moreover have "seq_dist b s < seq_dist b (sequence_number q)"
    using s(2) sw w x IsSeqAfter_window [of b s "sequence_number q"] by auto
  ultimately have "IsSeqAfter s (cp_seq (hd (cached_packets k)))"
    using IsSeqAfter_window [of b s "cp_seq (hd (cached_packets k))"] sw w ne by auto
  moreover have "lowest_known k = latest_callback_seq (r_cache r)"
    using parts(3,4) cb by (simp add: lowest_known_def)
  moreover have "s \<notin> cp_seq ` set (cached_packets k)"
  proof -
    have "s \<noteq> sequence_number q" using s(2) by (auto simp: IsSeqAfter_dist)
    moreover have "cp_seq ` set (cached_packets k) \<subseteq> insert (sequence_number q) (cp_seq ` set (cached_packets (r_cache r)))"
      unfolding parts(1) using insert_cached_set by (fastforce simp: cp_seq_def)
    ultimately show ?thesis using s(5) by blast
  qed
  ultimately have "s \<in> loss_seq ` set (loss_seqs k)"
    using k(1) ne s(1,3) by (auto simp: losses_ok_def noticed_def)
  then obtain l where l: "l \<in> set (loss_seqs k)" "loss_seq l = s" by auto
  have "nack_due (clk 2) l" using l parts(2) due by (auto simp: nack_due_def loss_new_def)
  then have "s \<in> set (fst (GetLossPacketSeqsForNack (clk 2) k))" using l by (auto simp: GetLossPacketSeqsForNack_def)
  then show ?thesis using nack by simp
qed

text \<open>While nothing times out, the packets released are the run that follows the last one, and the run
  stops at a gap.\<close>

lemma GetPackets_run:
  assumes get: "GetPackets now c = (out, c')" and cb: "has_callback_packet c"
    and time: "\<forall>x \<in> set (cached_packets c). now < cp_timeout x"
  shows "has_callback_packet c'"
    and "latest_callback_seq c' = latest_callback_seq c + of_nat (ready_count (latest_callback_seq c) (rev (cached_packets c)))"
proof -
  let ?l = "latest_callback_seq c" and ?cs = "cached_packets c"
  define nb where "nb = ready_count ?l (rev ?cs)"
  let ?go = "drop (length ?cs - nb) ?cs"
  have le: "nb \<le> length ?cs" unfolding nb_def using ready_count_le [of ?l "rev ?cs"] by simp
  have kg: "split_due now nb ?cs = (take (length ?cs - nb) ?cs, ?go)" by (rule split_due_run [OF time le])
  have nb_eq: "nb = (if has_callback_packet c then ready_count ?l (rev ?cs) else 0)" by (simp add: nb_def cb)
  have c': "c' = (if ?go = [] then c else c\<lparr>cached_packets := take (length ?cs - nb) ?cs,
      latest_callback_seq := cp_seq (hd ?go), has_callback_packet := True\<rparr>)"
    using arg_cong [OF get, of snd] by (simp only: GetPackets_def nb_eq [symmetric] kg Let_def prod.case snd_conv)
  have "has_callback_packet c' \<and> latest_callback_seq c' = ?l + of_nat nb"
  proof (cases "nb = 0")
    case False
    have "?go \<noteq> []" and "hd ?go = rev ?cs ! (nb - 1)" using False le by (auto simp: hd_drop_conv_nth rev_nth)
    moreover have "cp_seq (rev ?cs ! (nb - 1)) = ?l + of_nat nb"
      using ready_count_run [of "nb - 1" ?l "rev ?cs"] False by (simp add: nb_def)
    ultimately show ?thesis using c' by simp
  qed (use c' cb in simp)
  then show "has_callback_packet c'" and "latest_callback_seq c' = ?l + of_nat (ready_count ?l (rev ?cs))"
    by (simp_all add: nb_def)
qed

lemma run_stops_at_gap:
  assumes "IsSeqAfter l s" and "s \<notin> cp_seq ` set cs"
  shows "IsSeqAfter (l + of_nat (ready_count l (rev cs))) s"
proof -
  let ?nb = "ready_count l (rev cs)" and ?j = "seq_dist l s"
  have j: "0 < ?j" "?j < 32768" using assms(1) by (auto simp: IsSeqAfter_dist)
  have sj: "s = l + of_nat ?j" by (simp add: seq_dist_def)
  have less: "?nb < ?j"
  proof (rule ccontr)
    assume "\<not> ?nb < ?j"
    then have i: "?j - 1 < ?nb" using j(1) by simp
    then have "cp_seq (rev cs ! (?j - 1)) = s" using ready_count_run [of "?j - 1" l "rev cs"] j(1) sj by simp
    moreover have "?j - 1 < length (rev cs)" using i ready_count_le [of l "rev cs"] by simp
    then have "rev cs ! (?j - 1) \<in> set cs" using nth_mem [of "?j - 1" "rev cs"] by simp
    ultimately show False using assms(2) by (metis imageI)
  qed
  then have "of_nat ?j = (of_nat ?nb + of_nat (?j - ?nb) :: u16)" by (simp flip: of_nat_add)
  then have "s - (l + of_nat ?nb) = of_nat (?j - ?nb)" using sj by (metis add.assoc add_diff_cancel_left')
  then have "seq_dist (l + of_nat ?nb) s = ?j - ?nb" using j(2) by (simp add: seq_dist_def unat_of_nat)
  then show ?thesis using j(2) less by (simp add: IsSeqAfter_dist)
qed

lemma gap_stays:
  assumes a: "arrival c tx out b r pk q" and on: "OnRtpPacket td clk pk r = Ok (o1, r')"
    and cb: "has_callback_packet (r_cache r)" and s: "IsSeqAfter (latest_callback_seq (r_cache r)) s"
    "s \<noteq> sequence_number q" "s \<notin> cp_seq ` set (cached_packets (r_cache r))"
    and time: "\<forall>x \<in> set (cached_packets (r_cache r)). clk 3 < cp_timeout x"
    "clk 3 < ucast (max_cache_duration_ms (r_cache r)) + clk 1"
  shows "has_callback_packet (r_cache r') \<and> IsSeqAfter (latest_callback_seq (r_cache r')) s"
proof -
  obtain k where put: "PutPacket (clk 1) q (r_cache r) = (Ok k :: (rtp_error, receiver_cache) outcome)"
    and rel: "(released o1, r_cache r') = GetPackets (clk 3) (snd (GetLossPacketSeqsForNack (clk 2) k))"
    by (rule arrival_taken [OF a on])
  have late: "IsSeqAfter (latest_callback_seq (r_cache r)) (sequence_number q)"
    using a cb by (simp add: arrival_def)
  note parts = PutPacket_parts [OF put late]
  let ?k = "snd (GetLossPacketSeqsForNack (clk 2) k)" and ?l = "latest_callback_seq (r_cache r)"
  have same: "cached_packets ?k = cached_packets k" "latest_callback_seq ?k = ?l" "has_callback_packet ?k"
    using parts(3,4) cb by (simp_all add: GetLossPacketSeqsForNack_def)
  have sub: "set (cached_packets k) \<subseteq> insert \<lparr>cp_packet = q, cp_timeout = ucast (max_cache_duration_ms (r_cache r)) + clk 1\<rparr> (set (cached_packets (r_cache r)))"
    unfolding parts(1) by (rule insert_cached_set)
  then have times: "\<forall>x \<in> set (cached_packets ?k). clk 3 < cp_timeout x" using time by (auto simp: same(1))
  have "s \<notin> cp_seq ` set (cached_packets k)" using sub s(2,3) by (fastforce simp: cp_seq_def)
  then have "IsSeqAfter (?l + of_nat (ready_count ?l (rev (cached_packets k)))) s" by (rule run_stops_at_gap [OF s(1)])
  then show ?thesis using GetPackets_run [OF rel [symmetric] same(3) times] by (simp add: same(1,2))
qed

section \<open>The retransmission arrives\<close>

lemma same_number:
  assumes "consecutive tx" and "length tx < 32768" and "p \<in> set tx" and "q \<in> set tx" and "sequence_number p = sequence_number q"
  shows "p = q"
proof -
  obtain i j where ij: "i < length tx" "p = tx ! i" "j < length tx" "q = tx ! j" using assms(3,4) by (metis in_set_conv_nth)
  then have "of_nat i = (of_nat j :: u16)"
    using consecutive_seq [OF assms(1) ij(1)] consecutive_seq [OF assms(1) ij(3)] assms(5) by simp
  then have "unat (of_nat i :: u16) = unat (of_nat j :: u16)" by simp
  then have "i = j" using ij(1,3) assms(2) by (simp add: unat_of_nat)
  then show ?thesis using ij by simp
qed

lemma arrival_recovers:
  assumes a: "arrival c tx out b r pk p" and on: "OnRtpPacket td clk pk r = Ok (o1, r')"
    and tx: "consecutive tx" "length tx < 32768"
  shows "p \<in> set (released o1) \<union> held (r_cache r')"
proof -
  obtain k where put: "PutPacket (clk 1) p (r_cache r) = (Ok k :: (rtp_error, receiver_cache) outcome)"
    and rel: "(released o1, r_cache r') = GetPackets (clk 3) (snd (GetLossPacketSeqsForNack (clk 2) k))"
    and in_k: "sequence_number p \<in> cp_seq ` set (cached_packets k)"
    by (rule arrival_taken [OF a on])
  have p: "p \<in> set tx" using a by (auto simp: arrival_def genuine_def)
  have "held k \<subseteq> insert p (held (r_cache r))" by (rule PutPacket_from [OF put])
  then have sub: "held k \<subseteq> set tx" using a p by (auto simp: arrival_def receiver_from_def)
  obtain x where x: "x \<in> set (cached_packets k)" "sequence_number (cp_packet x) = sequence_number p"
    using in_k by (auto simp: cp_seq_def)
  then have "cp_packet x = p" using same_number [OF tx _ p] sub by auto
  then have "p \<in> held k" using x(1) by auto
  moreover have "held (snd (GetLossPacketSeqsForNack (clk 2) k)) = held k" by (simp add: GetLossPacketSeqsForNack_def)
  ultimately show ?thesis using GetPackets_from [OF rel [symmetric]] by auto
qed


section \<open>The NACK reaches the near session\<close>

text \<open>Packing and unpacking keep the set of numbers, whatever their order.\<close>

lemma set_unpack_bits: "set (unpack_bits pid m) = (\<lambda>i. pid + of_nat i) ` {i. i < 16 \<and> bit m i}"
  by (auto simp: unpack_bits_16)

lemma set_unpack_new_bit:
  assumes "j < 16"
  shows "set (unpack_bits pid (m OR push_bit j 1)) = insert (pid + of_nat j) (set (unpack_bits pid m))"
proof -
  have "{i. i < 16 \<and> bit (m OR push_bit j 1) i} = insert j {i. i < 16 \<and> bit m i}"
    using assms by (auto simp: bit_or_iff bit_exp_iff)
  then show ?thesis by (simp only: set_unpack_bits image_insert)
qed

lemma pack_item_set:
  "pack_item first m xs = (m', rest) \<Longrightarrow>
   \<exists>taken. xs = taken @ rest \<and> set (unpack_bits (first + 1) m') = set (unpack_bits (first + 1) m) \<union> set taken"
proof (induction first m xs rule: pack_item.induct)
  case (2 first m x xs)
  let ?shift = "x - first - 1"
  show ?case
  proof (cases "x < first \<or> \<not> ?shift \<le> 15")
    case True
    then show ?thesis using "2.prems" by (auto simp: Let_def split: if_splits)
  next
    case False
    then have s16: "unat ?shift < 16" by (simp add: word_le_nat_alt)
    have x: "first + 1 + of_nat (unat ?shift) = x" by simp
    have "set (unpack_bits (first + 1) (m OR push_bit (unat ?shift) 1)) = insert x (set (unpack_bits (first + 1) m))"
      unfolding set_unpack_new_bit [OF s16] x ..
    moreover obtain taken where "xs = taken @ rest"
      "set (unpack_bits (first + 1) m') = set (unpack_bits (first + 1) (m OR push_bit (unat ?shift) 1)) \<union> set taken"
      using "2.IH" [OF _ refl] False "2.prems" by (auto simp: Let_def)
    ultimately show ?thesis by (intro exI [of _ "x # taken"]) auto
  qed
qed simp

lemma unpack_pack_set: "set (unpack_ids (pack_ids xs)) = set xs"
proof (induction xs rule: pack_ids.induct)
  case (2 x xs)
  obtain m rest where m: "pack_item x 0 xs = (m, rest)" by fastforce
  obtain taken where "xs = taken @ rest" "set (unpack_bits (x + 1) m) = set (unpack_bits (x + 1) 0) \<union> set taken"
    using pack_item_set [OF m] by blast
  then show ?case using "2.IH" [OF m [symmetric]] m by (auto simp: unpack_ids_def unpack_bits.simps [of _ 0])
qed (simp add: unpack_ids_def)

lemma session_answers_bye:
  "session_answers rtp_time now s ms = Ok (cb, ms') \<Longrightarrow> HasReceivedBye cb = session_HasReceivedBye ms"
  by (auto simp: session_answers_def Let_def obind_eq_Ok_conv session_HasReceivedBye_def session_HasSentRtp_def
      session_HasReceivedRtp_def deref_def split: if_splits option.splits)

text \<open>Nobody has said goodbye, seen from the far side.\<close>

definition far_open :: "media_session \<Rightarrow> bool" where
  "far_open ms \<longleftrightarrow> \<not> ms_has_received_bye ms \<and> (\<forall>s. ms_rtcp_sender ms = Some s \<longrightarrow> \<not> has_sent_bye s)"

lemma nack_sent:
  assumes side: "side_ok ms" and dir: "mc_direction (ms_config ms) = RecvOnly" and nobody: "far_open ms"
    and seqs: "seqs \<noteq> []" "length seqs \<le> 65533"
  obtains ms' eff d where "run_rtcp rtp_time now (SendNack now seqs) ms = Ok (ms', eff)" and "write_rtcp fill eff = Ok [d]" and "is_rtcp d"
    and "\<And>env r. expects_ssrc (mc_ssrc_media_local (ms_config ms)) r \<Longrightarrow> \<not> has_received_bye r \<Longrightarrow>
      \<exists>r'. OnRtcpPacket env (Some d) r = Ok (r', [NotifyNackReceived (unpack_ids (pack_ids seqs))])"
proof -
  obtain s where s: "ms_rtcp_sender ms = Some s" "length (local_cname (rs_config s)) \<le> 255"
    "rtcp_local_ssrc (rs_config s) = mc_ssrc_media_local (ms_config ms)"
    using side by (auto simp: side_ok_def short_cname_def)
  have ok: "session_ok ms" using side by (simp add: side_ok_def)
  obtain cb ms1 where a: "session_answers rtp_time now s ms = Ok (cb, ms1)" "answers_for s cb" "session_ok ms1"
    "ms_config ms1 = ms_config ms" "HasSentRtp cb \<longrightarrow> ms_has_sent_rtp ms1"
    using session_answers_ok [OF ok s(1)] by blast
  have nobye: "\<not> has_sent_bye s" "\<not> HasReceivedBye cb"
    using nobody s(1) session_answers_bye [OF a(1)] by (auto simp: far_open_def session_HasReceivedBye_def)
  obtain ps is_bye s1 where b: "build_rtcp (Nack_Info seqs) cb s = Ok ((ps, is_bye), s1)" "has_sent_rtp s1 \<longrightarrow> HasSentRtp cb"
    using build_rtcp_answered [OF a(2), of "Nack_Info seqs"] by auto
  have flags: "\<not> (has_sent_rtp s1 \<and> has_received_rtp s1)" using b(2) a(3-5) dir by (auto simp: session_ok_def)
  have info: "info_ok (Nack_Info seqs)" using seqs by (simp add: info_ok_def)
  let ?d = "concat (map packet_image ps)"
  let ?eff = "\<lparr>sent = Some (ps, is_bye), posted = None\<rparr>"
  have "\<exists>ms'. run_rtcp rtp_time now (SendNack now seqs) ms = Ok (ms', ?eff)"
    using s(1) a(1) b(1) nobye seqs(1) by (simp add: run_rtcp_def deref_def SendNack_def)
  moreover have "write_rtcp fill ?eff = Ok [?d]"
    using build_rtcp_wf [OF b(1) s(2) info] compound_is_concatenation [of "map Some ps" fill] by (simp add: write_rtcp_def)
  moreover have "is_rtcp ?d"
    using build_rtcp_wf [OF b(1) s(2) info] compound_class by (cases ps) auto
  moreover have "\<exists>r'. OnRtcpPacket env (Some ?d) r = Ok (r', [NotifyNackReceived (unpack_ids (pack_ids seqs))])"
    if "expects_ssrc (mc_ssrc_media_local (ms_config ms)) r" "\<not> has_received_bye r" for env r
    using exchange_result [OF b(1) s(2) info flags _ that(2), of env] that(1) s(3) by auto
  ultimately show ?thesis using that by blast
qed

section \<open>The near session retransmits\<close>

lemma send_rtx_all_makes:
  assumes "live ps" and "Some p \<in> set ps" and "rtx_type_of (s_map_rtx (s_config s)) (payload_type p) \<noteq> None"
    and "send_rtx_all n ps s = Ok (out, s')"
  shows "\<exists>q \<in> set out. rtx_of (s_config s) p q"
  using assms
proof (induction n ps s arbitrary: out s' rule: send_rtx_all.induct)
  case (3 n p' ps s)
  obtain oq s1 out1 where one: "ConstructRtx n p' s = Ok (oq, s1)" and rest: "send_rtx_all n ps s1 = Ok (out1, s')"
    and out: "out = (case oq of None \<Rightarrow> out1 | Some q \<Rightarrow> q # out1)"
    using "3.prems"(4) by (auto simp: obind_eq_Ok_conv omap_eq_Ok_conv)
  have conf: "s_config s1 = s_config s" by (rule rtx_only_frame(1) [OF ConstructRtx_frame [OF one]])
  show ?case
  proof (cases "p' = p")
    case True
    then have "sendable p" using "3.prems"(1) by (simp add: live_def)
    then obtain body where body: "payload_buffer p = Some body" and len: "rtp_buffer_length p + 2 < 2 ^ 32"
      by (cases "payload_buffer p") (auto simp: sendable_def plain_def payload_bytes_def)
    obtain e where e: "rtx_type_of (s_map_rtx (s_config s)) (payload_type p) = Some e" using "3.prems"(3) by auto
    obtain q s2 where "ConstructRtx n p s = Ok (Some q, s2)"
      by (rule ConstructRtx_Ok [OF sendable_ok [OF \<open>sendable p\<close>] body len e])
    then have "oq = Some q" "rtx_of (s_config s) p q" using one True by (auto simp: rtx_of_def)
    then show ?thesis using out by auto
  next
    case False
    then have "Some p \<in> set ps" "live ps" using "3.prems"(1,2) by (auto simp: live_def)
    then have "\<exists>q \<in> set out1. rtx_of (s_config s1) p q" using "3.IH" [OF one refl _ _ _ rest] "3.prems"(3) conf by simp
    then show ?thesis using out conf by (auto split: option.split)
  qed
qed auto

lemma cache_get_finds:
  assumes "cache_get seqs cached = Ok ps" and "sequence_number p \<in> set seqs" and "p \<in> set cached"
    and "\<forall>q \<in> set cached. sendable q" and distinct: "\<forall>q \<in> set cached. sequence_number q = sequence_number p \<longrightarrow> q = p"
  shows "Some p \<in> set ps"
proof -
  obtain yss where yss: "omapM (cache_get_one cached) seqs = Ok yss" "ps = concat yss"
    using assms(1) by (auto simp: cache_get_def omap_eq_Ok_conv)
  have "find (\<lambda>c. sequence_number c = sequence_number p) cached = Some p"
  proof (cases "find (\<lambda>c. sequence_number c = sequence_number p) cached")
    case None
    then show ?thesis using assms(3) by (auto simp: find_None_iff)
  next
    case (Some q)
    then have "q \<in> set cached" "sequence_number q = sequence_number p" by (auto simp: find_Some_iff)
    then show ?thesis using Some distinct by simp
  qed
  moreover have "CreateCopy p = Ok p" using assms(3,4) sendable_ok [of p] copy_of_plain [of p]
    by (simp add: CreateCopy_Ok packet_ok_def copy_of_def sendable_def)
  ultimately have one: "cache_get_one cached (sequence_number p) = Ok [Some p]" by (simp add: cache_get_one_def)
  have "[Some p] \<in> set yss" using yss(1) assms(2)
    by (induction seqs arbitrary: yss) (use one in \<open>auto simp: obind_eq_Ok_conv omap_eq_Ok_conv\<close>)
  then show ?thesis using yss(2) by (auto intro: bexI [of _ "[Some p]"])
qed

text \<open>The packets that are still in the cache of the near session.\<close>

definition recent :: "rtp_sender_config \<Rightarrow> rtp_packet list \<Rightarrow> rtp_packet list" where
  "recent c tx = drop (length tx - (unat (max_cache_seq_difference c) + 1)) tx"

lemma sender_cache_recent:
  assumes "sender_from c tx s" and "rtx_for_all_types c"
  shows "s_cache s = Some (recent c tx)"
proof -
  have "s_cache s = Some (foldl (\<lambda>cached p. cache_put (max_cache_seq_difference c) p cached) [] (map copy_of tx))"
    and cons: "consecutive tx" and plain: "\<forall>p \<in> set tx. plain p"
    using assms by (auto simp: sender_from_def sender_inv_def sendable_def)
  moreover have "map copy_of tx = tx" using plain copy_of_plain by (simp add: map_idI)
  ultimately show ?thesis using cache_holds_last [OF cons, of "max_cache_seq_difference c"] by (simp add: recent_def)
qed

lemma SendRtx_makes:
  assumes s: "sender_from c tx s" and rtx: "rtx_for_all_types c" and p: "p \<in> set (recent c tx)"
    and len: "length tx < 32768" and seq: "sequence_number p \<in> set seqs"
  obtains out s' q where "SendRtx n seqs s = Ok (out, s')" and "q \<in> set out" and "rtx_of c p q"
proof -
  have conf: "s_config s = c" and cons: "consecutive tx" and all: "\<forall>p \<in> set tx. sendable p"
    and types: "\<forall>p \<in> set tx. payload_type p \<in> set (s_rtp_payload_types c)"
    using s by (auto simp: sender_from_def sender_inv_def)
  have sub: "set (recent c tx) \<subseteq> set tx" by (simp add: recent_def set_drop_subset)
  have safe: "\<forall>p \<in> set (recent c tx). sendable p" using sub all by blast
  obtain ps where get: "cache_get seqs (recent c tx) = Ok ps" "live ps" using cache_get_safe [OF safe] by blast
  have "Some p \<in> set ps"
    by (rule cache_get_finds [OF get(1) seq p safe]) (use same_number [OF cons len] sub p in blast)
  moreover obtain out s' where all_rtx: "send_rtx_all n ps s = Ok (out, s')" using send_rtx_all_safe [OF get(2)] by blast
  moreover have "rtx_type_of (s_map_rtx (s_config s)) (payload_type p) \<noteq> None"
    using rtx types sub p conf by (auto simp: rtx_for_all_types_def)
  ultimately obtain q where q: "q \<in> set out" "rtx_of c p q" using send_rtx_all_makes [OF get(2)] conf by blast
  have "SendRtx n seqs s = Ok (out, s')"
    using sender_cache_recent [OF s rtx] get(1) all_rtx rtx seq conf by (auto simp: SendRtx_def rtx_for_all_types_def)
  then show ?thesis using q by (rule that)
qed


section \<open>One round trip\<close>

text \<open>A datagram that is read alone.\<close>

lemma receive_rtp_single:
  assumes "plain q" and "\<not> PayloadTypeIsReservedForRtcp (payload_type q)" and "media_expects ms 0 (ssrc q)"
    and "mc_direction (ms_config ms) = RecvOnly"
    and "session_OnRtp (transit e) (extrapolate e) (clocks e 0) q ms = Ok (new, eff, ms')" and "write_rtcp (filler e) eff = Ok ds"
  shows "receive e [rtp_image q] ms = Ok (new, ds, ms')"
proof -
  have "OnRtp (media_expects ms) (media_router ms) [q] = [(0, q)]"
    using assms(3,4) by (simp add: OnRtp_def media_router_def register_session_def router_new_def AddRtpDst_def AddRtcpDst_def add_dst_def)
  then show ?thesis
    using assms rtp_image_class [OF assms(1)] plain_sent(2) [OF assms(1)] by (simp add: receive_def demux_datagrams [of "[rtp_image q]", unfolded list.map] OnRtcp_def)
qed

lemma receive_rtcp_single:
  assumes "is_rtcp d" and "session_OnRtcp (parsing e 0) (first_rtx e) d ms = Ok (ps, ms')" and "write_rtp (filler e) ps = Ok out"
  shows "receive e [d] ms = Ok ([], out, ms')"
proof -
  have "\<not> is_rtp d" using assms(1) by (simp add: is_rtp_def is_rtcp_def)
  moreover have "OnRtcp (media_router ms) [d] = [(0, d)]"
    by (simp add: OnRtcp_def media_router_def register_session_def router_new_def AddRtpDst_def AddRtcpDst_def add_dst_def)
  ultimately show ?thesis using assms by (simp add: receive_def demux_datagrams [of "[d]", unfolded list.map] OnRtp_def)
qed

text \<open>A packet of the near side, in the form in which it travels.\<close>

definition travels :: "media_config \<Rightarrow> rtp_packet set \<Rightarrow> rtp_packet \<Rightarrow> rtp_packet \<Rightarrow> bool" where
  "travels b tx q p \<longleftrightarrow> plain q \<and> \<not> PayloadTypeIsReservedForRtcp (payload_type q)
     \<and> resolves (rtp_receiver_config_of b) q p \<and> p \<in> tx"

lemma travels_genuine: "travels b tx q p \<Longrightarrow> genuine (rtp_receiver_config_of b) tx q"
  by (auto simp: travels_def genuine_def resolves_def received_ok_def plain_def extension_wf_def)

lemma far_receives_one:
  assumes safe: "far_safe b tx out ms" and q: "travels b (set tx) q p" and base: "base_for tx base"
  obtains r o1 r' ds ms' where "ms_rtp_receiver ms = Some r" and "OnRtpPacket (transit e) (clocks e 0) q r = Ok (o1, r')"
    and "receive e [rtp_image q] ms = Ok (released o1, ds, ms')" and "ms_rtp_receiver ms' = Some r'"
    and "far_safe b tx (out @ released o1) ms'"
proof -
  obtain o1 eff ms' ds where on: "session_OnRtp (transit e) (extrapolate e) (clocks e 0) q ms = Ok (o1, eff, ms')"
    "far_safe b tx (out @ o1) ms'" "write_rtcp (filler e) eff = Ok ds"
    by (rule on_rtp_safe [OF safe travels_genuine [OF q] base])
  obtain r o2 r' where parts: "ms_rtp_receiver ms = Some r" "OnRtpPacket (transit e) (clocks e 0) q r = Ok (o2, r')"
    "o1 = released o2" "ms_rtp_receiver ms' = Some r'" by (rule session_OnRtp_parts [OF on(1)])
  have "media_expects ms 0 (ssrc q)" "mc_direction (ms_config ms) = RecvOnly"
    using safe q parts(1) by (auto simp: media_expects_def travels_def resolves_def far_safe_def far_side_def)
  then have "receive e [rtp_image q] ms = Ok (o1, ds, ms')"
    using q on by (intro receive_rtp_single) (auto simp: travels_def)
  then show ?thesis using that parts on(2) by blast
qed

lemma far_nacks:
  assumes safe: "far_safe b tx out ms" and q: "travels b (set tx) q p" and base: "base_for tx base"
    and r: "ms_rtp_receiver ms = Some r" and on: "OnRtpPacket (transit e) (clocks e 0) q r = Ok (o1, r')"
    and nack: "nack_seqs o1 = Some seqs" "seqs \<noteq> []" and nobody: "far_open ms"
  obtains d ms' where "receive e [rtp_image q] ms = Ok (released o1, [d], ms')" and "is_rtcp d"
    and "\<And>env (x :: rtcp_receiver). expects_ssrc (mc_ssrc_media_local b) x \<Longrightarrow> \<not> has_received_bye x \<Longrightarrow>
      \<exists>x'. OnRtcpPacket env (Some d) x = Ok (x', [NotifyNackReceived (unpack_ids (pack_ids seqs))])"
proof -
  let ?ms = "ms\<lparr>ms_rtp_receiver := Some r'\<rparr>"
  note g = travels_genuine [OF q]
  have side: "side_ok ?ms" using far_takes [OF safe r g base, of "transit e" "clocks e 0"] on by auto
  have conf: "ms_config ?ms = b" "mc_direction b = RecvOnly" using safe by (simp_all add: far_safe_def)
  have len: "length seqs \<le> 65533" by (rule nack_short [OF safe r g base on nack(1)])
  have open': "far_open ?ms" using nobody by (simp add: far_open_def)
  obtain ms' eff d where sent: "run_rtcp (extrapolate e) (clocks e 0 4) (SendNack (clocks e 0 4) seqs) ?ms = Ok (ms', eff)"
    "write_rtcp (filler e) eff = Ok [d]" "is_rtcp d"
    and d: "\<And>env (x :: rtcp_receiver). expects_ssrc (mc_ssrc_media_local (ms_config ?ms)) x \<Longrightarrow> \<not> has_received_bye x \<Longrightarrow>
      \<exists>x'. OnRtcpPacket env (Some d) x = Ok (x', [NotifyNackReceived (unpack_ids (pack_ids seqs))])"
    by (rule nack_sent [OF side _ open' nack(2) len]) (use conf in auto)
  have "ms_initialized ?ms" using side by (simp add: side_ok_def session_ok_def)
  then have "session_OnRtp (transit e) (extrapolate e) (clocks e 0) q ms = Ok (released o1, eff, ms')"
    using r on nack(1) sent(1) by (simp add: session_OnRtp_def deref_def session_NotifyLoss_def)
  moreover have "media_expects ms 0 (ssrc q)"
    using safe q r by (auto simp: media_expects_def travels_def resolves_def far_safe_def far_side_def)
  ultimately have "receive e [rtp_image q] ms = Ok (released o1, [d], ms')"
    using q conf sent(2) by (intro receive_rtp_single) (auto simp: travels_def)
  then show ?thesis using that sent(3) d conf(1) by simp
qed

lemma near_resends:
  assumes safe: "near_safe a tx ms" and pair: "paired a b" and types: "rtp_types a"
    and rtx: "rtx_for_all_types (rtp_sender_config_of a)" and p: "p \<in> set (recent (rtp_sender_config_of a) tx)"
    and len: "length tx < 32768" and x: "ms_rtcp_receiver ms = Some x" and d: "is_rtcp d"
    and ids: "OnRtcpPacket (parsing e 0) (Some d) x = Ok (x', [NotifyNackReceived ids])" "sequence_number p \<in> set ids"
  obtains q out ms' where "receive e [d] ms = Ok ([], map rtp_image out, ms')" and "q \<in> set out" and "travels b (set tx) q p"
proof -
  let ?c = "rtp_sender_config_of a" and ?ms = "ms\<lparr>ms_rtcp_receiver := Some x'\<rparr>"
  obtain s where s: "ms_rtp_sender ms = Some s" "sender_from ?c tx s"
    and init: "ms_initialized ms" "mc_direction (ms_config ms) = SendOnly"
    using safe by (auto simp: near_safe_def near_ok_def side_ok_def session_ok_def)
  obtain out s' q where made: "SendRtx (first_rtx e) ids s = Ok (out, s')" "q \<in> set out" "rtx_of ?c p q"
    by (rule SendRtx_makes [OF s(2) rtx p len ids(2)])
  have "p \<in> set tx" using p by (auto simp: recent_def dest: in_set_dropD)
  then have pt: "p \<in> set tx" "sendable p" "ssrc p = local_ssrc ?c" using sender_from_packets [OF s(2)] by auto
  have plain: "plain y" if "y \<in> set out" for y
  proof -
    have "\<exists>p \<in> set tx. rtx_of ?c p y" using SendRtx_from(2) [OF made(1) s(2)] that by blast
    then obtain p' where p': "p' \<in> set tx" "rtx_of ?c p' y" by (elim bexE) (rule that)
    from sender_from_packets [OF s(2) p'(1)] have "sendable p'" "ssrc p' = local_ssrc ?c" by simp_all
    then show ?thesis using rtx_resolves(1) [OF pair _ _ p'(2)] by blast
  qed
  have "session_OnRtcp (parsing e 0) (first_rtx e) d ms = Ok (out, ?ms\<lparr>ms_rtp_sender := Some s'\<rparr>)"
    using x ids(1) s(1) init made(1) by (simp add: session_OnRtcp_def deref_def session_NotifyNackReceived_def)
  then have "receive e [d] ms = Ok ([], map rtp_image out, ?ms\<lparr>ms_rtp_sender := Some s'\<rparr>)"
    by (rule receive_rtcp_single [OF d]) (rule write_rtp_plain, use plain in blast)
  moreover have "travels b (set tx) q p"
    using rtx_resolves [OF pair pt(2,3) made(3)] rtx_of_type [OF pair types pt(2) made(3)] pt(1) by (simp add: travels_def)
  ultimately show ?thesis using made(2) that by blast
qed

text \<open>\<open>p\<close> is missing when \<open>q\<close> arrives: it is after the last packet released and before \<open>q\<close>, and not cached.\<close>

definition missing :: "rtp_packet \<Rightarrow> rtp_packet \<Rightarrow> receiver_cache \<Rightarrow> bool" where
  "missing p q c \<longleftrightarrow> has_callback_packet c \<and> IsSeqAfter (latest_callback_seq c) (sequence_number p)
     \<and> IsSeqAfter (sequence_number p) (sequence_number q) \<and> sequence_number p \<notin> cp_seq ` set (cached_packets c)"

text \<open>No cached packet times out when \<open>q\<close> arrives, and \<open>p\<close> was not asked for in the last 50 ms.\<close>

definition in_time :: "surroundings \<Rightarrow> rtp_packet \<Rightarrow> receiver_cache \<Rightarrow> bool" where
  "in_time e p c \<longleftrightarrow> (\<forall>l \<in> set (loss_seqs c). loss_seq l = sequence_number p \<longrightarrow> nack_due (clocks e 0 2) l)
     \<and> (\<forall>x \<in> set (cached_packets c). clocks e 0 3 < cp_timeout x)
     \<and> clocks e 0 3 < ucast (max_cache_duration_ms c) + clocks e 0 1"

definition accepts_types :: "media_config \<Rightarrow> media_config \<Rightarrow> bool" where
  "accepts_types b a \<longleftrightarrow> set (s_rtp_payload_types (rtp_sender_config_of a)) \<subseteq> set (r_rtp_payload_types (rtp_receiver_config_of b))"

lemma accepted_travels:
  assumes "near_safe a tx ms" and "paired a b" and "rtp_types a" and "q \<in> set tx"
  shows "travels b (set tx) q q" and "ssrc q = remote_ssrc (rtp_receiver_config_of b)"
    and "accepts_types b a \<Longrightarrow> payload_type q \<in> set (r_rtp_payload_types (rtp_receiver_config_of b))"
proof -
  let ?c = "rtp_sender_config_of a"
  obtain s where s: "sender_from ?c tx s" using assms(1) by (auto simp: near_safe_def near_ok_def)
  then have pt: "payload_type q \<in> set (s_rtp_payload_types ?c)" "plain q" "ssrc q = local_ssrc ?c"
    using assms(4) by (auto simp: sender_from_def sender_inv_def sendable_def)
  then show "travels b (set tx) q q"
    using assms(3,4) original_resolves [OF assms(2) pt(3)] by (auto simp: travels_def rtp_types_def)
  show "ssrc q = remote_ssrc (rtp_receiver_config_of b)" using pt(3) paired_configs(1) [OF assms(2)] by simp
  show "payload_type q \<in> set (r_rtp_payload_types (rtp_receiver_config_of b))" if "accepts_types b a"
    using that pt(1) by (auto simp: accepts_types_def)
qed

lemma arrivalI:
  assumes "far_safe b tx out ms" and "ms_rtp_receiver ms = Some r" and "travels b (set tx) q p" and "base_for tx base"
    and "ssrc p = remote_ssrc (rtp_receiver_config_of b)" and "payload_type p \<in> set (r_rtp_payload_types (rtp_receiver_config_of b))"
    and "has_callback_packet (r_cache r) \<Longrightarrow> IsSeqAfter (latest_callback_seq (r_cache r)) (sequence_number p)"
  shows "arrival (rtp_receiver_config_of b) tx out base r q p"
  using assms travels_genuine [OF assms(3)]
  by (auto simp: arrival_def far_safe_def far_side_def travels_def resolves_def)

lemma missing_before:
  assumes "losses_ok b c" and "missing p q c" and "ahead b (sequence_number p)" and "ahead b (sequence_number q)"
  shows "IsSeqAfter (latest_callback_seq c) (sequence_number q)"
proof -
  have l: "seq_dist b (latest_callback_seq c) < 32768"
    using assms(1,2) by (auto simp: losses_ok_def all_in_window_def seq.in_window_def missing_def)
  have "seq_dist b (sequence_number p) < 32768" "seq_dist b (sequence_number q) < 32768"
    using assms(3,4) by (simp_all add: ahead_def)
  then show ?thesis
    using assms(2) IsSeqAfter_window [OF l] IsSeqAfter_window [of b "sequence_number p" "sequence_number q"]
    by (fastforce simp: missing_def)
qed

text \<open>The two arrivals at the far side: \<open>q\<close>, which reveals the gap, and later the retransmission of \<open>p\<close>.\<close>

lemma gap_revealed:
  assumes safe: "far_safe b tx out ms" and r: "ms_rtp_receiver ms = Some r" and base: "base_for tx base"
    and q: "travels b (set tx) q q" "ssrc q = remote_ssrc (rtp_receiver_config_of b)"
    "payload_type q \<in> set (r_rtp_payload_types (rtp_receiver_config_of b))"
    and p: "p \<in> set tx" and gap: "missing p q (r_cache r)" "in_time e p (r_cache r)" and nobody: "far_open ms"
  obtains new d ms' r' seqs where "receive e [rtp_image q] ms = Ok (new, [d], ms')" and "far_safe b tx (out @ new) ms'"
    and "ms_rtp_receiver ms' = Some r'" and "IsSeqAfter (latest_callback_seq (r_cache r')) (sequence_number p)"
    and "is_rtcp d" and "sequence_number p \<in> set seqs"
    and "\<And>env (x :: rtcp_receiver). expects_ssrc (mc_ssrc_media_local b) x \<Longrightarrow> \<not> has_received_bye x \<Longrightarrow>
      \<exists>x'. OnRtcpPacket env (Some d) x = Ok (x', [NotifyNackReceived seqs])"
proof -
  let ?s = "sequence_number p"
  obtain r0 o1 r' ds ms' where one: "ms_rtp_receiver ms = Some r0" "OnRtpPacket (transit e) (clocks e 0) q r0 = Ok (o1, r')"
    "receive e [rtp_image q] ms = Ok (released o1, ds, ms')" "ms_rtp_receiver ms' = Some r'"
    "far_safe b tx (out @ released o1) ms'" by (rule far_receives_one [OF safe q(1) base])
  have on: "OnRtpPacket (transit e) (clocks e 0) q r = Ok (o1, r')" using one(1,2) r by simp
  have ahead: "ahead base ?s" "?s \<noteq> 0" "ahead base (sequence_number q)"
    using base p q(1) by (auto simp: base_for_def travels_def)
  have "losses_ok base (r_cache r)" using safe r base by (auto simp: far_safe_def far_side_def tracks_def)
  then have late: "IsSeqAfter (latest_callback_seq (r_cache r)) (sequence_number q)"
    using missing_before gap(1) ahead(1,3) by blast
  have a: "arrival (rtp_receiver_config_of b) tx out base r q q"
    by (rule arrivalI [OF safe r q(1) base q(2,3) late])
  have gap': "has_callback_packet (r_cache r)" "IsSeqAfter (latest_callback_seq (r_cache r)) ?s"
    "IsSeqAfter ?s (sequence_number q)" "?s \<notin> cp_seq ` set (cached_packets (r_cache r))"
    "?s \<noteq> sequence_number q" using gap(1) by (auto simp: missing_def IsSeqAfter_dist)
  obtain seqs where seqs: "nack_seqs o1 = Some seqs" "?s \<in> set seqs"
    using gap_nacked [OF a on gap'(1-3) ahead(2,1) gap'(4)] gap(2) by (auto simp: in_time_def)
  have stays: "IsSeqAfter (latest_callback_seq (r_cache r')) ?s"
    using gap_stays [OF a on gap'(1,2,5,4)] gap(2) by (simp add: in_time_def)
  obtain d ms2 where nack: "receive e [rtp_image q] ms = Ok (released o1, [d], ms2)" "is_rtcp d"
    "\<And>env (x :: rtcp_receiver). expects_ssrc (mc_ssrc_media_local b) x \<Longrightarrow> \<not> has_received_bye x \<Longrightarrow>
      \<exists>x'. OnRtcpPacket env (Some d) x = Ok (x', [NotifyNackReceived (unpack_ids (pack_ids seqs))])"
    by (rule far_nacks [OF safe q(1) base r on seqs(1) _ nobody]) (use seqs(2) in auto)
  then show ?thesis using that [of "released o1" d ms' r' "unpack_ids (pack_ids seqs)"] one(3-5) stays seqs(2) by (simp add: unpack_pack_set)
qed

lemma rtx_arrives:
  assumes safe: "far_safe b tx out ms" and r: "ms_rtp_receiver ms = Some r" and base: "base_for tx base"
    and q: "travels b (set tx) q p" and p: "ssrc p = remote_ssrc (rtp_receiver_config_of b)"
    "payload_type p \<in> set (r_rtp_payload_types (rtp_receiver_config_of b))"
    and late: "IsSeqAfter (latest_callback_seq (r_cache r)) (sequence_number p)"
    and tx: "consecutive tx" "length tx < 32768"
  obtains new ds ms' r' where "receive e [rtp_image q] ms = Ok (new, ds, ms')" and "ms_rtp_receiver ms' = Some r'"
    and "p \<in> set new \<union> held (r_cache r')"
proof -
  obtain r0 o1 r' ds ms' where one: "ms_rtp_receiver ms = Some r0" "OnRtpPacket (transit e) (clocks e 0) q r0 = Ok (o1, r')"
    "receive e [rtp_image q] ms = Ok (released o1, ds, ms')" "ms_rtp_receiver ms' = Some r'"
    by (rule far_receives_one [OF safe q base])
  have a: "arrival (rtp_receiver_config_of b) tx out base r q p" by (rule arrivalI [OF safe r q base p late])
  have "p \<in> set (released o1) \<union> held (r_cache r')" using arrival_recovers [OF a _ tx] one(1,2) r by simp
  then show ?thesis using that one(3,4) by blast
qed

text \<open>C2: A lost packet is recovered in one round trip. When a packet \<open>q\<close> arrives behind a gap in which \<open>p\<close>
  is missing, the far session answers with one datagram; the near session answers that datagram with
  retransmissions, as long as \<open>p\<close> is among the last \<open>max_cache_seq_difference + 1\<close> packets; and when the
  retransmission of \<open>p\<close> arrives, \<open>p\<close> itself is released to the application or cached for it.\<close>

theorem lost_packet_recovered:
  assumes "net_reachable a b w" and "paired a b" and "rtp_types a" and "length (accepted w) < 32768"
    and "0 \<notin> sequence_number ` set (accepted w)" and "rtx_for_all_types (rtp_sender_config_of a)" and "accepts_types b a"
    and p: "p \<in> set (recent (rtp_sender_config_of a) (accepted w))" and q: "q \<in> set (accepted w)"
    and r: "ms_rtp_receiver (far w) = Some r" and gap: "missing p q (r_cache r)" "in_time e p (r_cache r)"
    and nobody: "far_open (far w)" and x: "ms_rtcp_receiver (near w) = Some x" "\<not> has_received_bye x"
  shows "\<exists>new1 nack far1 rtxs rtx near2 new3 out3 far3 r3.
      receive e [rtp_image q] (far w) = Ok (new1, [nack], far1)
    \<and> receive e' [nack] (near w) = Ok ([], rtxs, near2) \<and> rtx \<in> set rtxs
    \<and> receive e'' [rtx] far1 = Ok (new3, out3, far3)
    \<and> ms_rtp_receiver far3 = Some r3 \<and> p \<in> set new3 \<union> held (r_cache r3)"
proof -
  let ?tx = "accepted w" and ?b = "sequence_number (hd (accepted w)) - 1"
  have base: "base_for ?tx ?b" by (rule sent_base [OF assms(1,2,4,5)])
  have "system_safe a b w" by (rule net_reachable_safe [OF assms(1-3) base])
  then have near: "near_safe a ?tx (near w)" and far: "far_safe b ?tx (handed w) (far w)" by (simp_all add: system_safe_def)
  have cons: "consecutive ?tx" using near by (auto simp: near_safe_def near_ok_def sender_from_def sender_inv_def)
  have pt: "p \<in> set ?tx" using p by (auto simp: recent_def dest: in_set_dropD)
  note tq = accepted_travels [OF near assms(2,3) q] and tp = accepted_travels [OF near assms(2,3) pt]
  obtain new1 nack far1 r1 seqs where one: "receive e [rtp_image q] (far w) = Ok (new1, [nack], far1)"
    "far_safe b ?tx (handed w @ new1) far1" "ms_rtp_receiver far1 = Some r1"
    "IsSeqAfter (latest_callback_seq (r_cache r1)) (sequence_number p)" "is_rtcp nack" "sequence_number p \<in> set seqs"
    "\<And>env (x :: rtcp_receiver). expects_ssrc (mc_ssrc_media_local b) x \<Longrightarrow> \<not> has_received_bye x \<Longrightarrow>
      \<exists>x'. OnRtcpPacket env (Some nack) x = Ok (x', [NotifyNackReceived seqs])"
    by (rule gap_revealed [OF far r base tq(1,2) tq(3) [OF assms(7)] pt gap nobody]) (rule that)
  have "expects_ssrc (mc_ssrc_media_local b) x"
    using near x(1) assms(2) by (auto simp: near_safe_def side_ok_def expects_ssrc_def rtcp_receiver_config_of_def paired_def)
  then obtain x' where "OnRtcpPacket (parsing e' 0) (Some nack) x = Ok (x', [NotifyNackReceived seqs])"
    using one(7) x(2) by blast
  then obtain y ys near2 where two: "receive e' [nack] (near w) = Ok ([], map rtp_image ys, near2)" "y \<in> set ys" "travels b (set ?tx) y p"
    by (rule near_resends [OF near assms(2,3,6) p assms(4) x(1) one(5) _ one(6)])
  obtain new3 ds far3 r3 where three: "receive e'' [rtp_image y] far1 = Ok (new3, ds, far3)" "ms_rtp_receiver far3 = Some r3"
    "p \<in> set new3 \<union> held (r_cache r3)"
    by (rule rtx_arrives [OF one(2,3) base two(3) tp(2) tp(3) [OF assms(7)] one(4) cons assms(4)])
  have "rtp_image y \<in> set (map rtp_image ys)" using two(2) by simp
  with one(1) two(1) three show ?thesis by (intro exI conjI)
qed

text \<open>Packet 5 has been released, packet 6 is late: packet 7 brings it back.\<close>

definition later :: surroundings where
  "later = still\<lparr>clocks := \<lambda>_ _. 200\<rparr>"

theorem lost_packet_recovered_witness:
  "\<exists>w new1 nack far1 rtxs rtx near2 new3 out3 far3 r3.
      net_reachable near_media far_media w \<and> handed w = [sample_packet 5]
    \<and> receive later [rtp_image (sample_packet 7)] (far w) = Ok (new1, [nack], far1)
    \<and> receive later [nack] (near w) = Ok ([], rtxs, near2) \<and> rtx \<in> set rtxs
    \<and> receive later [rtx] far1 = Ok (new3, out3, far3)
    \<and> ms_rtp_receiver far3 = Some r3 \<and> sample_packet 6 \<in> set new3 \<union> held (r_cache r3)"
proof -
  obtain w where w: "net_reachable near_media far_media w" "accepted w = map sample_packet [5, 6, 7]"
    "handed w = [sample_packet 5]" "sample_far (far w)" "ms_rtcp_receiver (near w) = ms_rtcp_receiver near_start"
    by (rule sample_world)
  have len: "length (accepted w) < 32768" "0 \<notin> sequence_number ` set (accepted w)" by (simp_all add: w(2) sample_packet_parts)
  have conf: "rtx_for_all_types (rtp_sender_config_of near_media)" "accepts_types far_media near_media"
    "max_cache_seq_difference (rtp_sender_config_of near_media) = 10"
    by (simp_all add: rtx_for_all_types_def accepts_types_def rtp_sender_config_of_def rtp_receiver_config_of_def near_media_def
        far_media_def media_config_new_def rtx_type_of_def)
  then have p: "sample_packet 6 \<in> set (recent (rtp_sender_config_of near_media) (accepted w))" "sample_packet 7 \<in> set (accepted w)"
    by (simp_all add: recent_def w(2))
  obtain r where r: "ms_rtp_receiver (far w) = Some r" "has_callback_packet (r_cache r)" "latest_callback_seq (r_cache r) = 5"
    "cached_packets (r_cache r) = []" "loss_seqs (r_cache r) = []" "max_cache_duration_ms (r_cache r) = 100"
    and nobody: "far_open (far w)"
    using w(4) by (auto simp: sample_far_def far_open_def)
  have gap: "missing (sample_packet 6) (sample_packet 7) (r_cache r)" "in_time later (sample_packet 6) (r_cache r)"
    using r by (simp_all add: missing_def in_time_def later_def sample_packet_parts IsSeqAfter_dist seq_dist_def)
  obtain x where x: "ms_rtcp_receiver (near w) = Some x" "\<not> has_received_bye x"
    by (simp add: w(5) near_start_def session_Initialize_def near_media_def media_config_new_def Let_def
        rtp_sender_config_of_def sender_Initialize_def rtcp_sender_Initialize_def rtcp_receiver_Initialize_def rtcp_receiver_new_def)
  from lost_packet_recovered [OF w(1) sample_paired sample_types len conf(1,2) p r(1) gap nobody x, of later later]
  show ?thesis using w(1,3) by blast
qed

end
