(* ===== verification/Session_Threads.thy ===== *)
theory Session_Threads
  imports Lossy_Delivery Worker_Thread
begin

text \<open>
  The three threads of the receiving session. In \<open>Lossy_Network\<close> reading datagrams, processing them and
  handing packets to the application is one step; in the code the network thread reads and leaves a
  task to the worker thread (\<open>RtpRtcpRouter::OnRtp\<close>, \<open>OnRtcp\<close>), the worker leaves the packets for the
  application to the signal thread (\<open>MediaSession::OnRtpPacket\<close>) and what is to be sent to the network
  thread (\<open>RtpRtcpTranceiverImpl\<close>), each through the queue of a \<open>Thread\<close>. Every run of the threads,
  in whatever order they take their turns and even when they are stopped, is simulated by a run of
  the system of \<open>Lossy_Network\<close>, so what is proved of that holds with threads.
\<close>

section \<open>Simulations\<close>

locale simulation =
  fixes concrete :: "'c \<Rightarrow> 'c \<Rightarrow> bool" and abstract :: "'a \<Rightarrow> 'a \<Rightarrow> bool" and match :: "'c \<Rightarrow> 'a \<Rightarrow> bool"
  assumes matched_step: "match c a \<Longrightarrow> concrete c c' \<Longrightarrow> \<exists>a'. abstract\<^sup>*\<^sup>* a a' \<and> match c' a'"
begin

lemma matched_run:
  assumes "concrete\<^sup>*\<^sup>* c c'" and "match c a"
  shows "\<exists>a'. abstract\<^sup>*\<^sup>* a a' \<and> match c' a'"
  using assms(1)
proof induction
  case base
  then show ?case using assms(2) by blast
next
  case (step c1 c2)
  then obtain a1 a2 where "abstract\<^sup>*\<^sup>* a a1" "abstract\<^sup>*\<^sup>* a1 a2" "match c2 a2" using matched_step by blast
  then show ?case using rtranclp_trans by metis
qed

end

section \<open>Tasks\<close>

text \<open>The tasks of the worker thread: the two handlers of the router and the timer of the RTCP sender. The
  tasks of the signal thread hold packets for the application, those of the network thread datagrams
  to send.\<close>

datatype worker_task = Rtp_Task "rtp_packet list" | Rtcp_Task "bytes list" | Report_Task

record threads =
  work :: "worker_task worker"
  hand :: "rtp_packet list worker"
  net :: "bytes worker"

definition push_all :: "'f list \<Rightarrow> 'f worker \<Rightarrow> 'f worker" where
  "push_all fs w = fold PushTask fs w"

text \<open>The handlers return at once when the list is empty.\<close>

definition push_some :: "'a list \<Rightarrow> 'f \<Rightarrow> 'f worker \<Rightarrow> 'f worker" where
  "push_some xs f w = (if xs = [] then w else PushTask f w)"

text \<open>\<open>OnRtpPacket\<close> of the media session, called on the worker thread.\<close>

definition hand_over :: "rtp_packet list \<Rightarrow> media_session \<Rightarrow> threads \<Rightarrow> threads" where
  "hand_over packets ms th =
     (if packets = [] then th
      else case session_OnRtpPacket False packets ms of
        Ok (To_Signal_Thread ps) \<Rightarrow> th\<lparr>hand := PushTask ps (hand th)\<rparr>
      | _ \<Rightarrow> th)"

definition send_out :: "bytes list \<Rightarrow> threads \<Rightarrow> threads" where
  "send_out ds th = th\<lparr>net := push_all ds (net th)\<rparr>"

fun run_rtp ::
  "surroundings \<Rightarrow> nat \<Rightarrow> rtp_packet list \<Rightarrow> media_session \<Rightarrow> threads \<Rightarrow> (rtp_error, media_session \<times> threads) outcome" where
  "run_rtp e i [] ms th = Ok (ms, th)"
| "run_rtp e i (p # ps) ms th =
     obind (session_OnRtp (transit e) (extrapolate e) (clocks e i) p ms) (\<lambda>(out, eff, ms).
     obind (write_rtcp (filler e) eff) (\<lambda>ds.
     run_rtp e (Suc i) ps ms (hand_over out ms (send_out ds th))))"

fun run_rtcps ::
  "surroundings \<Rightarrow> nat \<Rightarrow> bytes list \<Rightarrow> media_session \<Rightarrow> threads \<Rightarrow> (rtp_error, media_session \<times> threads) outcome" where
  "run_rtcps e i [] ms th = Ok (ms, th)"
| "run_rtcps e i (d # ds) ms th =
     obind (session_OnRtcp (parsing e i) (first_rtx e) d ms) (\<lambda>(ps, ms).
     obind (write_rtp (filler e) ps) (\<lambda>out.
     run_rtcps e (Suc i) ds ms (send_out out th)))"

text \<open>The timer posts itself again.\<close>

definition run_report :: "surroundings \<Rightarrow> media_session \<Rightarrow> threads \<Rightarrow> (rtp_error, media_session \<times> threads) outcome" where
  "run_report e ms th =
     (case session_Schedule (extrapolate e) (clocks e 0 0) ms of
        Crash x \<Rightarrow> Crash x
      | Failed _ \<Rightarrow> Ok (ms, th)
      | Ok (ms, eff) \<Rightarrow> omap (\<lambda>ds.
          let th = send_out ds th
          in (ms, case posted eff of None \<Rightarrow> th
                  | Some delay \<Rightarrow> th\<lparr>work := PushDelayedTask (clocks e 0 1) Report_Task delay (work th)\<rparr>))
          (write_rtcp (filler e) eff))"

fun run_task :: "surroundings \<Rightarrow> worker_task \<Rightarrow> media_session \<Rightarrow> threads \<Rightarrow> (rtp_error, media_session \<times> threads) outcome" where
  "run_task e (Rtp_Task ps) ms th = run_rtp e 0 (map snd (OnRtp (media_expects ms) (media_router ms) ps)) ms th"
| "run_task e (Rtcp_Task ds) ms th = run_rtcps e 0 (map snd (OnRtcp (media_router ms) ds)) ms th"
| "run_task e Report_Task ms th = run_report e ms th"

text \<open>The tasks of one round, each with its surroundings.\<close>

fun run_tasks ::
  "(surroundings \<times> worker_task) list \<Rightarrow> media_session \<Rightarrow> threads \<Rightarrow> (rtp_error, media_session \<times> threads) outcome" where
  "run_tasks [] ms th = Ok (ms, th)"
| "run_tasks ((e, t) # ts) ms th = obind (run_task e t ms th) (\<lambda>(ms, th). run_tasks ts ms th)"

section \<open>The system with threads\<close>

text \<open>Of \<open>sys\<close>, \<open>far\<close> is the media session that the threads work on, \<open>to_near\<close> what the network thread has
  sent and \<open>handed\<close> what the signal thread has handed to the application. A stop is a step where it clears the
  queues; the request before it changes neither the queues nor what may be pushed or taken.\<close>

record threaded =
  sys :: system
  threads :: threads

inductive thread_step :: "threaded \<Rightarrow> threaded \<Rightarrow> bool" where
  near_side: "thread_step t (t\<lparr>sys := w\<rparr>)"
    if "net_step (sys t) w" and "far w = far (sys t)" and "handed w = handed (sys t)" and "to_near w = to_near (sys t)"
| reads: "thread_step t (t\<lparr>threads := (threads t)\<lparr>work :=
      push_some rtcps (Rtcp_Task rtcps) (push_some rtps (Rtp_Task rtps) (work (threads t)))\<rparr>\<rparr>)"
    if "set ds \<subseteq> set (to_far (sys t))"
      and "(OnData True (map Some ds) :: (rtp_error, rtp_packet list \<times> bytes list) outcome) = Ok (rtps, rtcps)"
| works: "thread_step t (t\<lparr>sys := (sys t)\<lparr>far := ms\<rparr>, threads := th\<rparr>)"
    if "runing (work (threads t))" and "take_tasks now (work (threads t)) = (f, x, wk)"
      and "map snd ts = opt_list f @ map snd (opt_list x)"
      and "run_tasks ts (far (sys t)) ((threads t)\<lparr>work := wk\<rparr>) = Ok (ms, th)"
| hands: "thread_step t (t\<lparr>sys := (sys t)\<lparr>handed := handed (sys t) @ ps\<rparr>, threads := (threads t)\<lparr>hand := h\<rparr>\<rparr>)"
    if "runing (hand (threads t))" and "take_tasks now (hand (threads t)) = (Some packets, x, h)"
      and "session_OnRtpPacket True packets (far (sys t)) = Ok (To_Application ps)"
| writes: "thread_step t (t\<lparr>sys := (sys t)\<lparr>to_near := to_near (sys t) @ [d]\<rparr>, threads := (threads t)\<lparr>net := n\<rparr>\<rparr>)"
    if "runing (net (threads t))" and "take_tasks now (net (threads t)) = (Some d, x, n)"
| leaves: "thread_step t (t\<lparr>sys := (sys t)\<lparr>far := ms\<rparr>, threads := send_out ds (threads t)\<rparr>)"
    if "session_SendBye rtp_time now (far (sys t)) = Ok (ms, eff)" and "write_rtcp fill eff = Ok ds"
| stops: "thread_step t (t\<lparr>threads := \<lparr>work = wk, hand = h, net = n\<rparr>\<rparr>)"
    if "wk \<in> {work (threads t), Stop (work (threads t))}" and "h \<in> {hand (threads t), Stop (hand (threads t))}"
      and "n \<in> {net (threads t), Stop (net (threads t))}"

text \<open>\<open>StartSession\<close> starts the threads; initialising the RTCP sender posts the first report.\<close>

definition started :: "u64 \<Rightarrow> sender_effect \<Rightarrow> threads" where
  "started now eff = \<lparr>work = (case posted eff of None \<Rightarrow> Start worker_new
       | Some delay \<Rightarrow> PushDelayedTask now Report_Task delay (Start worker_new)),
     hand = Start worker_new, net = Start worker_new\<rparr>"

definition thread_start :: "media_config \<Rightarrow> media_config \<Rightarrow> threaded \<Rightarrow> bool" where
  "thread_start a b t \<longleftrightarrow> (\<exists>now name ms_a eff now' name' ms_b eff'.
     session_Initialize now name a = Ok (ms_a, eff) \<and> session_Initialize now' name' b = Ok (ms_b, eff')
     \<and> length name \<le> 255 \<and> length name' \<le> 255
     \<and> t = \<lparr>sys = link ms_a ms_b, threads = started now' eff'\<rparr>)"

section \<open>Queues\<close>

lemma PushTask_queue: "task_queue (PushTask f w) = task_queue w @ (if runing w then [f] else [])"
  and PushTask_delayed [simp]: "delayed_task_list (PushTask f w) = delayed_task_list w"
  and PushTask_runing [simp]: "runing (PushTask f w) = runing w"
  by (simp_all add: PushTask_def)

lemma push_all_queue: "set (task_queue (push_all fs w)) \<subseteq> set (task_queue w) \<union> set fs"
proof (induction fs arbitrary: w)
  case (Cons f fs)
  have "set (task_queue (push_all (f # fs) w)) \<subseteq> set (task_queue (PushTask f w)) \<union> set fs"
    using Cons.IH [of "PushTask f w"] by (simp add: push_all_def)
  then show ?case by (auto simp: PushTask_queue split: if_splits)
qed (simp add: push_all_def)

lemma take_tasks_queue:
  "take_tasks now w = (f, x, w') \<Longrightarrow> task_queue w = opt_list f @ task_queue w'
     \<and> set (delayed_task_list w) = set (opt_list x) \<union> set (delayed_task_list w')"
  using take_tasks_split [of now w f x w'] by (metis set_mset_mset set_mset_union)

lemma Stop_queues: "task_queue (Stop w) = [] \<or> Stop w = w" "delayed_task_list (Stop w) = [] \<or> Stop w = w"
  by (simp_all add: Stop_def Stop_finish_def)

text \<open>What the signal thread still has to hand over.\<close>

definition waiting :: "threads \<Rightarrow> rtp_packet list" where
  "waiting th = concat (task_queue (hand th))"

lemma hand_over_frame:
  "work (hand_over ps ms th) = work th" "net (hand_over ps ms th) = net th"
  "subseq (waiting (hand_over ps ms th)) (waiting th @ ps)"
  by (auto simp: hand_over_def session_OnRtpPacket_def waiting_def PushTask_queue)

lemma send_out_frame:
  "work (send_out ds th) = work th" "hand (send_out ds th) = hand th" "waiting (send_out ds th) = waiting th"
  "set (task_queue (net (send_out ds th))) \<subseteq> set (task_queue (net th)) \<union> set ds"
  using push_all_queue by (simp_all add: send_out_def waiting_def)

section \<open>The tasks do what the atomic steps do\<close>

lemma run_rtp_delivers:
  "run_rtp e i ps ms th = Ok (ms', th') \<Longrightarrow>
   \<exists>new ds. deliver_rtp e i ps ms = Ok (new, ds, ms') \<and> work th' = work th \<and> subseq (waiting th') (waiting th @ new)
     \<and> set (task_queue (net th')) \<subseteq> set (task_queue (net th)) \<union> set ds"
proof (induction e i ps ms th rule: run_rtp.induct)
  case (2 e i p ps ms th)
  obtain out eff ms1 ds1 where one: "session_OnRtp (transit e) (extrapolate e) (clocks e i) p ms = Ok (out, eff, ms1)"
    and w: "write_rtcp (filler e) eff = Ok ds1"
    and rest: "run_rtp e (Suc i) ps ms1 (hand_over out ms1 (send_out ds1 th)) = Ok (ms', th')"
    using "2.prems" by (auto simp: obind_eq_Ok_conv)
  let ?th = "hand_over out ms1 (send_out ds1 th)"
  obtain new ds where d: "deliver_rtp e (Suc i) ps ms1 = Ok (new, ds, ms')" "work th' = work ?th"
    "subseq (waiting th') (waiting ?th @ new)" "set (task_queue (net th')) \<subseteq> set (task_queue (net ?th)) \<union> set ds"
    using "2.IH" [OF one refl refl w rest] by blast
  have "subseq (waiting ?th) (waiting th @ out)"
    using hand_over_frame(3) [of out ms1 "send_out ds1 th"] by (simp add: send_out_frame)
  then have "subseq (waiting ?th @ new) ((waiting th @ out) @ new)" by (intro list_emb_append_mono) auto
  then have "subseq (waiting th') (waiting th @ out @ new)" using d(3) subseq_order.order_trans by (metis append_assoc)
  moreover have "set (task_queue (net th')) \<subseteq> set (task_queue (net th)) \<union> set (ds1 @ ds)"
    using d(4) send_out_frame(4) [of ds1 th] by (auto simp: hand_over_frame)
  ultimately show ?case using one w d(1,2) by (simp add: hand_over_frame send_out_frame)
qed simp

lemma run_rtcps_delivers:
  "run_rtcps e i ds ms th = Ok (ms', th') \<Longrightarrow>
   \<exists>out. deliver_rtcp e i ds ms = Ok (out, ms') \<and> work th' = work th \<and> waiting th' = waiting th
     \<and> set (task_queue (net th')) \<subseteq> set (task_queue (net th)) \<union> set out"
proof (induction e i ds ms th rule: run_rtcps.induct)
  case (2 e i d ds ms th)
  obtain ps ms1 out1 where one: "session_OnRtcp (parsing e i) (first_rtx e) d ms = Ok (ps, ms1)"
    and w: "write_rtp (filler e) ps = Ok out1" and rest: "run_rtcps e (Suc i) ds ms1 (send_out out1 th) = Ok (ms', th')"
    using "2.prems" by (auto simp: obind_eq_Ok_conv)
  obtain out where "deliver_rtcp e (Suc i) ds ms1 = Ok (out, ms')" "work th' = work th" "waiting th' = waiting th"
    "set (task_queue (net th')) \<subseteq> set (task_queue (net (send_out out1 th))) \<union> set out"
    using "2.IH" [OF one refl w rest] by (auto simp: send_out_frame)
  then show ?case using one w send_out_frame(4) [of out1 th] by auto
qed simp

section \<open>The simulation\<close>

text \<open>A task of the worker comes from datagrams that were sent.\<close>

fun task_ok :: "bytes set \<Rightarrow> worker_task \<Rightarrow> bool" where
  "task_ok air (Rtp_Task ps) = (\<exists>ds. set ds \<subseteq> air \<and> ps = concat (map parsed_rtp (filter is_rtp ds)))"
| "task_ok air (Rtcp_Task ds) = (set ds \<subseteq> air \<and> list_all is_rtcp ds)"
| "task_ok air Report_Task = True"

definition tasks_of :: "worker_task worker \<Rightarrow> worker_task set" where
  "tasks_of w = set (task_queue w) \<union> snd ` set (delayed_task_list w)"

definition simulates :: "threaded \<Rightarrow> system \<Rightarrow> bool" where
  "simulates t w \<longleftrightarrow> near w = near (sys t) \<and> far w = far (sys t) \<and> accepted w = accepted (sys t) \<and> to_far w = to_far (sys t)
     \<and> set (to_near (sys t)) \<union> set (task_queue (net (threads t))) \<subseteq> set (to_near w)
     \<and> subseq (handed (sys t) @ waiting (threads t)) (handed w)
     \<and> (\<forall>task \<in> tasks_of (work (threads t)). task_ok (set (to_far w)) task)"

lemma task_ok_mono: "task_ok air task \<Longrightarrow> air \<subseteq> air' \<Longrightarrow> task_ok air' task"
  by (induction air task rule: task_ok.induct) auto

lemma IsRtp_not_IsRtcp: "is_rtp d \<Longrightarrow> \<not> is_rtcp d"
  by (auto simp: is_rtp_def is_rtcp_def)

lemma filter_IsRtp: "filter (\<lambda>d. is_rtp d \<and> is_rtcp d) ds = []"
  using IsRtp_not_IsRtcp by (auto simp: filter_empty_conv)

lemma receive_rtp_only:
  assumes "deliver_rtp e 0 (map snd (OnRtp (media_expects ms) (media_router ms) (concat (map parsed_rtp (filter is_rtp ds))))) ms
      = Ok (new, out, ms')"
  shows "receive e (filter is_rtp ds) ms = Ok (new, out, ms')"
  using assms by (simp add: receive_def demux_datagrams filter_IsRtp OnRtcp_def)

lemma receive_rtcp_only:
  assumes "deliver_rtcp e 0 (map snd (OnRtcp (media_router ms) ds)) ms = Ok (out, ms')" and "list_all is_rtcp ds"
  shows "receive e ds ms = Ok ([], out, ms')"
proof -
  have "filter is_rtp ds = []" "filter is_rtcp ds = ds"
    using assms(2) IsRtp_not_IsRtcp by (auto simp: filter_empty_conv filter_id_conv list_all_iff)
  then show ?thesis using assms(1) by (simp add: receive_def demux_datagrams OnRtp_def)
qed

definition with_far :: "media_session \<Rightarrow> threads \<Rightarrow> threaded \<Rightarrow> threaded" where
  "with_far ms th t = t\<lparr>sys := (sys t)\<lparr>far := ms\<rparr>, threads := th\<rparr>"

lemma rtp_task_simulated:
  assumes sim: "simulates t w" and ds: "set ds \<subseteq> set (to_far w)"
    and run: "run_task e (Rtp_Task (concat (map parsed_rtp (filter is_rtp ds)))) (far w) (threads t) = Ok (ms, th)"
  shows "\<exists>w'. net_step w w' \<and> simulates (with_far ms th t) w'"
proof -
  let ?ps = "map snd (OnRtp (media_expects (far w)) (media_router (far w)) (concat (map parsed_rtp (filter is_rtp ds))))"
  have "run_rtp e 0 ?ps (far w) (threads t) = Ok (ms, th)" using run by simp
  from run_rtp_delivers [OF this] obtain new out where d: "deliver_rtp e 0 ?ps (far w) = Ok (new, out, ms)"
    "work th = work (threads t)" "subseq (waiting th) (waiting (threads t) @ new)"
    "set (task_queue (net th)) \<subseteq> set (task_queue (net (threads t))) \<union> set out"
    by blast
  have "net_step w (w\<lparr>far := ms, to_near := to_near w @ out, handed := handed w @ new\<rparr>)"
    by (rule net_step.far_receives [OF _ receive_rtp_only [OF d(1)]]) (use ds in auto)
  moreover have "subseq (handed (sys t) @ waiting th) (handed (sys t) @ waiting (threads t) @ new)"
    using d(3) by (intro list_emb_append_mono) auto
  moreover have "subseq ((handed (sys t) @ waiting (threads t)) @ new) (handed w @ new)"
    using sim by (intro list_emb_append_mono) (auto simp: simulates_def)
  ultimately have "subseq (handed (sys t) @ waiting th) (handed w @ new)" by (metis append_assoc subseq_order.order_trans)
  then have "simulates (with_far ms th t) (w\<lparr>far := ms, to_near := to_near w @ out, handed := handed w @ new\<rparr>)"
    using sim d(2,4) by (auto simp: simulates_def with_far_def)
  then show ?thesis using \<open>net_step w _\<close> by blast
qed

lemma rtcp_task_simulated:
  assumes sim: "simulates t w" and ds: "set ds \<subseteq> set (to_far w)" "list_all is_rtcp ds"
    and run: "run_task e (Rtcp_Task ds) (far w) (threads t) = Ok (ms, th)"
  shows "\<exists>w'. net_step w w' \<and> simulates (with_far ms th t) w'"
proof -
  have "run_rtcps e 0 (map snd (OnRtcp (media_router (far w)) ds)) (far w) (threads t) = Ok (ms, th)" using run by simp
  from run_rtcps_delivers [OF this] obtain out where
    d: "deliver_rtcp e 0 (map snd (OnRtcp (media_router (far w)) ds)) (far w) = Ok (out, ms)"
      "work th = work (threads t)" "waiting th = waiting (threads t)"
      "set (task_queue (net th)) \<subseteq> set (task_queue (net (threads t))) \<union> set out" by blast
  have "net_step w (w\<lparr>far := ms, to_near := to_near w @ out, handed := handed w @ []\<rparr>)"
    by (rule net_step.far_receives [OF ds(1) receive_rtcp_only [OF d(1) ds(2)]])
  moreover have "simulates (with_far ms th t) (w\<lparr>far := ms, to_near := to_near w @ out, handed := handed w @ []\<rparr>)"
    using sim d(2-4) by (auto simp: simulates_def with_far_def)
  ultimately show ?thesis by blast
qed

lemma report_task_simulated:
  assumes sim: "simulates t w" and run: "run_report e (far w) (threads t) = Ok (ms, th)"
  shows "\<exists>w'. net_step\<^sup>*\<^sup>* w w' \<and> simulates (with_far ms th t) w'"
proof (cases "session_Schedule (extrapolate e) (clocks e 0 0) (far w)")
  case (Ok x)
  obtain ms1 eff where x: "x = (ms1, eff)" by (cases x)
  obtain ds where ds: "write_rtcp (filler e) eff = Ok ds" and ms: "ms = ms1"
    and th_eq: "th = (let th = send_out ds (threads t) in case posted eff of None \<Rightarrow> th
      | Some delay \<Rightarrow> th\<lparr>work := PushDelayedTask (clocks e 0 1) Report_Task delay (work th)\<rparr>)"
    using run Ok x by (auto simp: run_report_def omap_eq_Ok_conv Let_def simp del: One_nat_def)
  have th: "net th = net (send_out ds (threads t))" "hand th = hand (threads t)"
    by (simp_all add: th_eq Let_def send_out_def split: option.split)
  have "tasks_of (PushDelayedTask now Report_Task delay wk) \<subseteq> insert Report_Task (tasks_of wk)" for now delay wk
    by (auto simp: tasks_of_def PushDelayedTask_def)
  then have work: "tasks_of (work th) \<subseteq> insert Report_Task (tasks_of (work (threads t)))"
    by (auto simp: th_eq Let_def send_out_frame split: option.split)
  have "net_step w (w\<lparr>far := ms, to_near := to_near w @ ds\<rparr>)"
    using net_step.far_reports Ok x ds ms by blast
  moreover have "simulates (with_far ms th t) (w\<lparr>far := ms, to_near := to_near w @ ds\<rparr>)"
    using sim th work send_out_frame(4) [of ds "threads t"] by (fastforce simp: simulates_def waiting_def with_far_def)
  ultimately show ?thesis by blast
next
  case (Failed x)
  have "far w = far (sys t)" using sim by (simp add: simulates_def)
  then have "with_far ms th t = t" using run Failed by (simp add: run_report_def with_far_def)
  then show ?thesis using sim by auto
qed (use run in \<open>simp add: run_report_def\<close>)

lemma run_task_simulated:
  assumes sim: "simulates t w" and ok: "task_ok (set (to_far w)) task"
    and run: "run_task e task (far (sys t)) (threads t) = Ok (ms, th)"
  shows "\<exists>w'. net_step\<^sup>*\<^sup>* w w' \<and> simulates (with_far ms th t) w'"
proof -
  have run': "run_task e task (far w) (threads t) = Ok (ms, th)" using run sim by (simp add: simulates_def)
  show ?thesis
  proof (cases task)
    case (Rtp_Task ps)
    then obtain ds where "set ds \<subseteq> set (to_far w)" "ps = concat (map parsed_rtp (filter is_rtp ds))" using ok by auto
    then show ?thesis using rtp_task_simulated [OF sim] run' Rtp_Task by blast
  next
    case (Rtcp_Task ds)
    have "\<exists>w'. net_step w w' \<and> simulates (with_far ms th t) w'"
      by (rule rtcp_task_simulated [OF sim, of ds e]) (use ok run' Rtcp_Task in simp_all)
    then show ?thesis by blast
  next
    case Report_Task
    then show ?thesis using report_task_simulated [OF sim] run' by simp
  qed
qed

lemma run_tasks_simulated:
  "run_tasks ts (far (sys t)) (threads t) = Ok (ms, th) \<Longrightarrow> simulates t w \<Longrightarrow>
   (\<forall>task \<in> snd ` set ts. task_ok (set (to_far w)) task) \<Longrightarrow>
   \<exists>w'. net_step\<^sup>*\<^sup>* w w' \<and> simulates (with_far ms th t) w'"
proof (induction ts arbitrary: t w)
  case Nil
  then show ?case by (auto simp: with_far_def)
next
  case (Cons et ts)
  obtain e task where et: "et = (e, task)" by (cases et)
  obtain ms1 th1 where one: "run_task e task (far (sys t)) (threads t) = Ok (ms1, th1)"
    and rest: "run_tasks ts ms1 th1 = Ok (ms, th)" using Cons.prems(1) et by (auto simp: obind_eq_Ok_conv)
  let ?t = "with_far ms1 th1 t"
  obtain w1 where w1: "net_step\<^sup>*\<^sup>* w w1" "simulates ?t w1"
    using run_task_simulated [OF Cons.prems(2) _ one] Cons.prems(3) et by auto
  then have "to_far w1 = to_far w" using Cons.prems(2) by (simp add: simulates_def with_far_def)
  then obtain w2 where w2: "net_step\<^sup>*\<^sup>* w1 w2" "simulates (with_far ms th ?t) w2"
    using Cons.IH [of ?t w1] rest w1(2) Cons.prems(3) by (auto simp: with_far_def)
  moreover have "with_far ms th ?t = with_far ms th t" by (simp add: with_far_def)
  ultimately show ?case using rtranclp_trans [OF w1(1) w2(1)] by auto
qed

text \<open>The steps of the near side are steps of both systems.\<close>

lemma near_side_simulated:
  assumes "net_step (sys t) v" and "far v = far (sys t)" and "handed v = handed (sys t)" and "to_near v = to_near (sys t)"
    and sim: "simulates t w"
  shows "\<exists>w'. net_step\<^sup>*\<^sup>* w w' \<and> simulates (t\<lparr>sys := v\<rparr>) w'"
proof -
  have same: "near w = near (sys t)" "accepted w = accepted (sys t)" "to_far w = to_far (sys t)"
    "set (to_near (sys t)) \<subseteq> set (to_near w)" using sim by (auto simp: simulates_def)
  have moved: "simulates (t\<lparr>sys := v\<rparr>) w'"
    if "near w' = near v" "to_far w' = to_far v" "accepted w' = accepted v" "set (to_far w) \<subseteq> set (to_far v)"
      "far w' = far w" "handed w' = handed w" "to_near w' = to_near w" for w'
    using sim assms(2-4) that task_ok_mono by (fastforce simp: simulates_def)
  have still: "\<exists>w'. net_step\<^sup>*\<^sup>* w w' \<and> simulates t w'" using sim by blast
  from assms(1) show ?thesis
  proof cases
    case (send p now ps ms fill ds)
    have "net_step w (w\<lparr>near := ms, to_far := to_far w @ ds, accepted := accepted w @ ps\<rparr>)"
      by (rule net_step.send) (use send same in auto)
    moreover have "simulates (t\<lparr>sys := v\<rparr>) (w\<lparr>near := ms, to_far := to_far w @ ds, accepted := accepted w @ ps\<rparr>)" by (rule moved) (use send same in auto)
    ultimately show ?thesis by blast
  next
    case (near_receives ds e ps out ms)
    have "net_step w (w\<lparr>near := ms, to_far := to_far w @ out\<rparr>)"
      by (rule net_step.near_receives) (use near_receives same in auto)
    moreover have "simulates (t\<lparr>sys := v\<rparr>) (w\<lparr>near := ms, to_far := to_far w @ out\<rparr>)" by (rule moved) (use near_receives same in auto)
    ultimately show ?thesis by blast
  next
    case (near_reports rtp_time now ms eff fill ds)
    have "net_step w (w\<lparr>near := ms, to_far := to_far w @ ds\<rparr>)"
      by (rule net_step.near_reports) (use near_reports same in auto)
    moreover have "simulates (t\<lparr>sys := v\<rparr>) (w\<lparr>near := ms, to_far := to_far w @ ds\<rparr>)" by (rule moved) (use near_reports same in auto)
    ultimately show ?thesis by blast
  next
    case (near_leaves rtp_time now ms eff fill ds)
    have "net_step w (w\<lparr>near := ms, to_far := to_far w @ ds\<rparr>)"
      by (rule net_step.near_leaves) (use near_leaves same in auto)
    moreover have "simulates (t\<lparr>sys := v\<rparr>) (w\<lparr>near := ms, to_far := to_far w @ ds\<rparr>)" by (rule moved) (use near_leaves same in auto)
    ultimately show ?thesis by blast
  qed (use assms(2-4) still in auto)
qed

lemma demuxed_tasks:
  assumes "(OnData True (map Some ds) :: (rtp_error, rtp_packet list \<times> bytes list) outcome) = Ok (rtps, rtcps)"
    and "set ds \<subseteq> air"
  shows "task_ok air (Rtp_Task rtps)" and "task_ok air (Rtcp_Task rtcps)"
  using assms by (auto simp: demux_datagrams list_all_iff)

lemma push_some_tasks: "tasks_of (push_some xs f w) \<subseteq> insert f (tasks_of w)"
  by (auto simp: push_some_def tasks_of_def PushTask_queue)

lemma taken_tasks:
  assumes "take_tasks now w = (f, x, w')"
  shows "set (opt_list f @ map snd (opt_list x)) \<union> tasks_of w' \<subseteq> tasks_of w"
  using take_tasks_queue [OF assms] by (auto simp: tasks_of_def)

text \<open>Stopping a thread only forgets tasks.\<close>

lemma Stop_forgets:
  assumes "w' \<in> {w, Stop w}"
  shows "subseq (task_queue w') (task_queue w)" and "set (delayed_task_list w') \<subseteq> set (delayed_task_list w)"
  using assms Stop_queues [of w] by auto

lemma waiting_mono: "subseq qs qs' \<Longrightarrow> subseq (concat qs) (concat qs')"
proof (induction qs qs' rule: list_emb.induct)
  case (list_emb_Cons qs qs' q)
  then show ?case by (simp add: list_emb_append2)
next
  case (list_emb_Cons2 q q' qs qs')
  then show ?case using list_emb_append_mono [of "(=)" q q'] by simp
qed simp

lemma thread_step_simulated:
  assumes "simulates t w" and "thread_step t t'"
  shows "\<exists>w'. net_step\<^sup>*\<^sup>* w w' \<and> simulates t' w'"
  using assms(2)
proof cases
  case (near_side v)
  then show ?thesis using near_side_simulated assms(1) by blast
next
  case (reads ds rtps rtcps)
  have "task_ok (set (to_far w)) (Rtp_Task rtps)" "task_ok (set (to_far w)) (Rtcp_Task rtcps)"
    using demuxed_tasks [OF reads(3,2)] assms(1) by (simp_all add: simulates_def)
  moreover have "tasks_of (push_some rtcps (Rtcp_Task rtcps) (push_some rtps (Rtp_Task rtps) (work (threads t))))
      \<subseteq> insert (Rtcp_Task rtcps) (insert (Rtp_Task rtps) (tasks_of (work (threads t))))"
    using push_some_tasks [of rtcps "Rtcp_Task rtcps"] push_some_tasks [of rtps "Rtp_Task rtps"] by blast
  ultimately have "simulates t' w" using assms(1) reads(1) by (auto simp: simulates_def waiting_def simp del: task_ok.simps)
  then show ?thesis by blast
next
  case (works now f x wk ts ms th)
  let ?t = "t\<lparr>threads := (threads t)\<lparr>work := wk\<rparr>\<rparr>"
  have taken: "set (map snd ts) \<union> tasks_of wk \<subseteq> tasks_of (work (threads t))"
    using taken_tasks [OF works(3)] works(4) by simp
  then have sim: "simulates ?t w" using assms(1) by (auto simp: simulates_def waiting_def simp del: task_ok.simps)
  have ok: "\<forall>task \<in> snd ` set ts. task_ok (set (to_far w)) task"
    using taken assms(1) by (auto simp: simulates_def simp del: task_ok.simps)
  have "run_tasks ts (far (sys ?t)) (threads ?t) = Ok (ms, th)" using works(5) by simp
  from run_tasks_simulated [OF this sim ok] show ?thesis using works(1) by (simp add: with_far_def)
next
  case (hands now packets x h ps)
  have "ps = packets" using hands(4) by (auto simp: session_OnRtpPacket_def split: if_splits)
  moreover have "waiting (threads t) = packets @ concat (task_queue h)"
    using take_tasks_queue [OF hands(3)] by (simp add: waiting_def opt_list_def)
  ultimately have "simulates t' w" using assms(1) hands(1) by (auto simp: simulates_def waiting_def simp del: task_ok.simps)
  then show ?thesis by blast
next
  case (writes now d x n)
  have "task_queue (net (threads t)) = d # task_queue n"
    using take_tasks_queue [OF writes(3)] by (simp add: opt_list_def)
  then have "simulates t' w" using assms(1) writes(1) by (auto simp: simulates_def waiting_def simp del: task_ok.simps)
  then show ?thesis by blast
next
  case (leaves rtp_time now ms eff fill ds)
  have "far w = far (sys t)" using assms(1) by (simp add: simulates_def)
  then have "net_step w (w\<lparr>far := ms, to_near := to_near w @ ds\<rparr>)" using net_step.far_leaves leaves(2,3) by metis
  moreover have "simulates t' (w\<lparr>far := ms, to_near := to_near w @ ds\<rparr>)"
    using assms(1) leaves(1) send_out_frame [of ds "threads t"] by (auto simp: simulates_def simp del: task_ok.simps)
  ultimately show ?thesis by blast
next
  case (stops wk h n)
  have "subseq (concat (task_queue h)) (waiting (threads t))"
    unfolding waiting_def by (rule waiting_mono [OF Stop_forgets(1) [OF stops(3)]])
  then have "subseq (handed (sys t) @ concat (task_queue h)) (handed (sys t) @ waiting (threads t))"
    by (intro list_emb_append_mono) auto
  then have "subseq (handed (sys t) @ concat (task_queue h)) (handed w)"
    using assms(1) subseq_order.order_trans by (auto simp: simulates_def)
  moreover have "set (task_queue n) \<subseteq> set (task_queue (net (threads t)))" "tasks_of wk \<subseteq> tasks_of (work (threads t))"
    using stops(2,4) Stop_queues [of "net (threads t)"] Stop_queues [of "work (threads t)"] by (auto simp: tasks_of_def)
  ultimately have "simulates t' w" using assms(1) stops(1) by (auto simp: simulates_def waiting_def simp del: task_ok.simps)
  then show ?thesis by blast
qed

interpretation threading: simulation thread_step net_step simulates
  by unfold_locales (rule thread_step_simulated)

lemma started_simulated:
  assumes "thread_start a b t"
  shows "net_reachable a b (sys t)" and "simulates t (sys t)"
proof -
  obtain now name ms_a eff now' name' ms_b eff' where i: "session_Initialize now name a = Ok (ms_a, eff)"
    "session_Initialize now' name' b = Ok (ms_b, eff')" "length name \<le> 255" "length name' \<le> 255"
    and t: "t = \<lparr>sys = link ms_a ms_b, threads = started now' eff'\<rparr>" using assms by (auto simp: thread_start_def)
  show "net_reachable a b (sys t)" using i by (auto simp: t intro: net_reachable.start)
  show "simulates t (sys t)"
    by (auto simp: t simulates_def started_def waiting_def tasks_of_def link_def Start_def worker_new_def PushDelayedTask_def
        split: option.split)
qed

lemma net_reachable_run: "net_step\<^sup>*\<^sup>* w w' \<Longrightarrow> net_reachable a b w \<Longrightarrow> net_reachable a b w'"
  by (induction rule: rtranclp_induct) (auto intro: net_reachable.step)

text \<open>C6: Also with its three threads, in whatever order they take their turns and even if some are stopped, the
  receiving session behaves like the one that does everything in one step: what the application has
  been handed and what still waits for it is a subsequence of what a run of \<open>Lossy_Network\<close> hands over.
  So it was sent by the near side, unchanged, and (in a run of at most 32767 packets) in the order of
  sending, each packet at most once.\<close>

theorem threads_deliver_in_order:
  assumes "thread_start a b t0" and "thread_step\<^sup>*\<^sup>* t0 t" and "paired a b"
  shows "(\<exists>w. net_reachable a b w \<and> far w = far (sys t) \<and> subseq (handed (sys t) @ waiting (threads t)) (handed w))
    \<and> set (handed (sys t) @ waiting (threads t)) \<subseteq> set (accepted (sys t))
    \<and> (length (accepted (sys t)) < 32768 \<longrightarrow> subseq (handed (sys t) @ waiting (threads t)) (accepted (sys t)))"
proof -
  note start = started_simulated [OF assms(1)]
  obtain w where run: "net_step\<^sup>*\<^sup>* (sys t0) w" and sim: "simulates t w"
    using threading.matched_run [OF assms(2) start(2)] by blast
  have reach: "net_reachable a b w" by (rule net_reachable_run [OF run start(1)])
  note order = handed_in_order [OF net_reachable_ok [OF reach assms(3)]]
  have w: "far w = far (sys t)" "accepted w = accepted (sys t)" "subseq (handed (sys t) @ waiting (threads t)) (handed w)"
    using sim by (simp_all add: simulates_def)
  let ?out = "handed (sys t) @ waiting (threads t)"
  have "set ?out \<subseteq> set (handed w)" using list_emb_set [OF w(3)] by blast
  also have "\<dots> \<subseteq> set (accepted (sys t))" using order(1) w(2) by simp
  finally have sub: "set ?out \<subseteq> set (accepted (sys t))" .
  have "subseq ?out (accepted (sys t))" if "length (accepted (sys t)) < 32768"
    using subseq_order.order_trans [OF w(3) order(2)] that w(2) by simp
  then show ?thesis using reach w(1,3) sub by blast
qed

text \<open>A run: the near side sends, the network thread reads the datagram twice, the worker takes its task, the
  signal thread hands the packet over.\<close>

lemma sample_started: "session_Initialize 0 [98] far_media = Ok (far_start, \<lparr>sent = None, posted = Some 500\<rparr>)"
  by (simp add: far_start_def session_Initialize_def far_media_def media_config_new_def
      rtp_receiver_config_of_def receiver_Initialize_def rtcp_sender_Initialize_def rtcp_sender_config_of_def Let_def)

definition thread_sample :: threaded where
  "thread_sample = \<lparr>sys = link near_start far_start, threads = started 0 \<lparr>sent = None, posted = Some 500\<rparr>\<rparr>"

lemma thread_sample_start: "thread_start near_media far_media thread_sample"
  using sample_start(1) sample_started unfolding thread_start_def thread_sample_def by fastforce

lemma thread_sample_eq:
  "thread_sample = \<lparr>sys = link near_start far_start, threads =
     \<lparr>work = \<lparr>task_queue = [], delayed_task_list = [(500, Report_Task)], runing = True, should_stop = False,
        wait_duration = kForever\<rparr>, hand = Start worker_new, net = Start worker_new\<rparr>\<rparr>"
  by (simp add: thread_sample_def started_def PushDelayedTask_def Start_def worker_new_def)

theorem threads_deliver_in_order_witness:
  "\<exists>t. thread_step\<^sup>*\<^sup>* thread_sample t \<and> handed (sys t) = [sample_packet 5] \<and> accepted (sys t) = [sample_packet 5]
    \<and> subseq (handed (sys t) @ waiting (threads t)) (accepted (sys t))"
proof -
  let ?p = "sample_packet 5" and ?d = "rtp_image (sample_packet 5)"
  note step = rtranclp.rtrancl_into_rtrancl [where r = thread_step]
  have w: "write_rtp 0 [?p] = Ok [?d]" using write_rtp_plain [of "[?p]" 0] sample_packet_parts by simp
  obtain s1 where send: "session_SendRtpPacket 5 (Some ?p) near_start = Ok ([?p], near_start\<lparr>ms_rtp_sender := Some s1\<rparr>)"
    by (rule sample_send)
  define w1 where "w1 = (link near_start far_start)\<lparr>near := near_start\<lparr>ms_rtp_sender := Some s1\<rparr>, to_far := [?d], accepted := [?p]\<rparr>"
  have "net_step (sys thread_sample) w1"
    using net_step.send [OF sample_sendable _ w, of 5 5 "link near_start far_start"] send
    by (simp add: w1_def thread_sample_eq link_def)
  then have t1: "thread_step\<^sup>*\<^sup>* thread_sample (thread_sample\<lparr>sys := w1\<rparr>)"
    by (intro r_into_rtranclp thread_step.near_side) (simp_all add: w1_def thread_sample_eq)
  obtain ms1 ms2 where run: "(OnData True (map Some [?d, ?d]) :: (rtp_error, rtp_packet list \<times> bytes list) outcome) = Ok ([?p, ?p], [])"
    "OnRtp (media_expects far_start) (media_router far_start) [?p, ?p] = [(0, ?p), (0, ?p)]"
    "session_OnRtp (transit still) (extrapolate still) (clocks still 0) ?p far_start = Ok ([], no_effect, ms1)"
    "session_OnRtp (transit still) (extrapolate still) (clocks still 1) ?p ms1 = Ok ([?p], no_effect, ms2)"
    "ms_initialized ms2" "ms_config ms2 = far_media" by (rule sample_deliver)
  define wk where "wk = \<lparr>task_queue = [], delayed_task_list = [(500, Report_Task)], runing = True,
     should_stop = False, wait_duration = kForever\<rparr>"
  define th where "th = \<lparr>work = wk\<lparr>task_queue := [Rtp_Task [?p, ?p]]\<rparr>, hand = Start worker_new, net = Start worker_new\<rparr>"
  have t2: "thread_step\<^sup>*\<^sup>* thread_sample \<lparr>sys = w1, threads = th\<rparr>"
    using step [OF t1 thread_step.reads [OF _ run(1)]]
    by (simp add: w1_def th_def wk_def thread_sample_eq push_some_def PushTask_def)
  define wk' where "wk' = wk\<lparr>wait_duration := 500\<rparr>"
  define th' where "th' = \<lparr>work = wk', hand = PushTask [?p] (Start worker_new), net = Start worker_new\<rparr>"
  have take: "take_tasks 0 (work th) = (Some (Rtp_Task [?p, ?p]), None, wk')"
    by (simp add: th_def wk_def wk'_def take_tasks_def kForever_def Let_def)
  have "run_tasks [(still, Rtp_Task [?p, ?p])] far_start (th\<lparr>work := wk'\<rparr>) = Ok (ms2, th')"
    using run(2-5) by (simp add: th_def th'_def write_nothing hand_over_def send_out_def push_all_def session_OnRtpPacket_def)
  then have t3: "thread_step\<^sup>*\<^sup>* thread_sample \<lparr>sys = w1\<lparr>far := ms2\<rparr>, threads = th'\<rparr>"
    using step [OF t2 thread_step.works [OF _ _, of _ 0 "Some (Rtp_Task [?p, ?p])" None wk' "[(still, Rtp_Task [?p, ?p])]" ms2 th']] take
    by (simp add: w1_def link_def opt_list_def) (simp add: th_def wk_def)
  have "mc_has_callback far_media" by (simp add: far_media_def)
  then have "session_OnRtpPacket True [?p] ms2 = Ok (To_Application [?p])"
    using run(5,6) by (simp add: session_OnRtpPacket_def)
  then have "thread_step\<^sup>*\<^sup>* thread_sample \<lparr>sys = w1\<lparr>far := ms2, handed := [?p]\<rparr>, threads = th'\<lparr>hand := Start worker_new\<rparr>\<rparr>"
    using step [OF t3 thread_step.hands [of _ 0 "[?p]" None "Start worker_new" "[?p]"]]
    by (simp add: w1_def link_def th'_def PushTask_def take_tasks_def Start_def worker_new_def Let_def)
  then obtain t where t: "thread_step\<^sup>*\<^sup>* thread_sample t" "handed (sys t) = [?p]" "accepted (sys t) = [?p]"
    by (rule that) (simp_all add: w1_def)
  from threads_deliver_in_order [OF thread_sample_start t(1) sample_paired] show ?thesis using t by (intro exI [of _ t]) simp
qed

end
