(* ===== verification/Log_Default.thy ===== *)
theory Log_Default
  imports Qos_Prelude
begin

text \<open>
  \<open>src/utils/log_default.h/.cc\<close>, \<open>log.cc\<close> and \<open>qosrtp.cc\<close>: the default logger, which writes every item
  into a file and goes on to a new file when that is large, and the library's initialisation. The
  process number, the random draws, the clock and its text, the thread's text, what \<open>vsnprintf\<close> answers
  and the answers of the file system are parameters.
\<close>

section \<open>Strings\<close>

text \<open>\<open>std::string::find\<close> and \<open>replace\<close> at the position found; \<open>replace\<close> throws at \<open>npos\<close>, which is
  \<open>None\<close> here.\<close>

fun find_sub :: "string \<Rightarrow> string \<Rightarrow> nat option" where
  "find_sub pat [] = (if pat = [] then Some 0 else None)"
| "find_sub pat (c # s) = (if take (length pat) (c # s) = pat then Some 0 else map_option Suc (find_sub pat s))"

definition replace_sub :: "string \<Rightarrow> string \<Rightarrow> string \<Rightarrow> string option" where
  "replace_sub pat new s = map_option (\<lambda>i. take i s @ new @ drop (i + length pat) s) (find_sub pat s)"

text \<open>\<open>std::to_string\<close> of an unsigned number.\<close>

fun decimal :: "nat \<Rightarrow> string" where
  "decimal n = (if n < 10 then [char_of (48 + n)] else decimal (n div 10) @ [char_of (48 + n mod 10)])"

declare decimal.simps [simp del]

definition to_string :: "u32 \<Rightarrow> string" where
  "to_string n = decimal (unat n)"

section \<open>LogFile\<close>

text \<open>\<open>GetProcessId\<close>: \<open>std::to_string\<close> of the process number as a signed one.\<close>

definition GetProcessId :: "s32 \<Rightarrow> string" where
  "GetProcessId pid = (if sint pid < 0 then CHR ''-'' # decimal (nat (- sint pid)) else decimal (nat (sint pid)))"

text \<open>The characters of a random name; a draw, reduced to the size of the set, stands for the one that
  \<open>uniform_int_distribution\<close> makes.\<close>

definition charset :: string where
  "charset = ''0123456789ABCDEFGHIJKLMNOPQRSTUVWXYZabcdefghijklmnopqrstuvwxyz''"

definition kRnLength :: nat where
  "kRnLength = 8"

definition GenerateRandomID :: "nat \<Rightarrow> (nat \<Rightarrow> nat) \<Rightarrow> string" where
  "GenerateRandomID len draw = map (\<lambda>i. charset ! (draw i mod length charset)) [0..<len]"

text \<open>
  The state of a \<open>LogFile\<close> with the files of its directory: names, and the items written to each, in the
  order in which they were opened by it. \<open>others\<close> are the names of all other entries of the directory.
\<close>

record log_file =
  lf_index :: u32
  lf_pid :: string
  lf_open :: bool
  lf_files :: "(string \<times> string list) list"
  lf_others :: "string list"

definition kFileNameFormat :: string where
  "kFileNameFormat = ''qosrtp_%pid_%index(_%rn).log''"

definition kMaxFileSize :: nat where
  "kMaxFileSize = 50 * 1024 * 1024"

definition log_file_new :: "string \<Rightarrow> string list \<Rightarrow> log_file" where
  "log_file_new pid others = \<lparr>lf_index = 0, lf_pid = pid, lf_open = False, lf_files = [], lf_others = others\<rparr>"

text \<open>The bytes of an item in the file, with the line end of \<open>std::endl\<close>: a text file of Windows
  (\<open>crlf\<close>) holds two bytes for a line end.\<close>

definition item_bytes :: "bool \<Rightarrow> string \<Rightarrow> nat" where
  "item_bytes crlf s = (\<Sum>c\<leftarrow>s @ [CHR 0x0A]. if crlf \<and> c = CHR 0x0A then 2 else 1)"

definition file_size :: "bool \<Rightarrow> string list \<Rightarrow> nat" where
  "file_size crlf items = (\<Sum>s\<leftarrow>items. item_bytes crlf s)"

text \<open>The size is stored in a \<open>uint32_t\<close> before it is compared.\<close>

definition ShouldChangeLogFile :: "bool \<Rightarrow> log_file \<Rightarrow> bool" where
  "ShouldChangeLogFile crlf f \<longleftrightarrow>
     \<not> lf_open f \<or> unat (of_nat (file_size crlf (snd (last (lf_files f)))) :: u32) > kMaxFileSize"

definition IsFileNameDuplicate :: "log_file \<Rightarrow> string \<Rightarrow> bool" where
  "IsFileNameDuplicate f name \<longleftrightarrow> name \<in> set (map fst (lf_files f)) \<or> name \<in> set (lf_others f)"

text \<open>The loop over random names, given the names it draws; \<open>None\<close> when these are used up.\<close>

fun fresh_name :: "log_file \<Rightarrow> string \<Rightarrow> string list \<Rightarrow> string \<Rightarrow> string option" where
  "fresh_name f filename ids tmpt =
     (if \<not> IsFileNameDuplicate f tmpt then Some tmpt
      else case ids of [] \<Rightarrow> None
      | i # ids \<Rightarrow> (case replace_sub ''(_%rn)'' i filename of None \<Rightarrow> None | Some t \<Rightarrow> fresh_name f filename ids t))"

declare fresh_name.simps [simp del]

definition base_name :: "log_file \<Rightarrow> string option" where
  "base_name f = Option.bind (replace_sub ''%pid'' (lf_pid f) kFileNameFormat) (replace_sub ''%index'' (to_string (lf_index f)))"

text \<open>The answers of the file system: whether the directory is there or can be made, whether the file
  can be opened.\<close>

record file_os =
  dir_ready :: bool
  can_open :: bool
  draws :: "(nat \<Rightarrow> nat) list"

definition random_ids :: "file_os \<Rightarrow> string list" where
  "random_ids os = map (GenerateRandomID kRnLength) (draws os)"

definition next_name :: "file_os \<Rightarrow> log_file \<Rightarrow> string option" where
  "next_name os f =
     Option.bind (base_name f) (\<lambda>filename.
     Option.bind (replace_sub ''(_%rn)'' [] filename) (fresh_name f filename (random_ids os)))"

text \<open>The result: \<open>None\<close> while the search for a name goes on, or whether it succeeded, and the state.
  Opening a file of a name makes it empty.\<close>

definition ChangeLogFile :: "file_os \<Rightarrow> log_file \<Rightarrow> (bool \<times> log_file) option" where
  "ChangeLogFile os f =
     (if \<not> dir_ready os then Some (False, f)
      else case next_name os f of None \<Rightarrow> None
      | Some name \<Rightarrow>
        if \<not> can_open os then Some (False, f\<lparr>lf_open := False\<rparr>)
        else Some (True, f\<lparr>lf_open := True, lf_files := lf_files f @ [(name, [])], lf_index := lf_index f + 1\<rparr>))"

definition append_item :: "string \<Rightarrow> log_file \<Rightarrow> log_file" where
  "append_item s f = f\<lparr>lf_files := butlast (lf_files f)
     @ [(fst (last (lf_files f)), snd (last (lf_files f)) @ [s])]\<rparr>"

definition Write :: "bool \<Rightarrow> file_os \<Rightarrow> string \<Rightarrow> log_file \<Rightarrow> (bool \<times> log_file) option" where
  "Write crlf os log_string f =
     (if ShouldChangeLogFile crlf f then
        map_option (\<lambda>(ok, f'). if ok then (True, append_item log_string f') else (False, f')) (ChangeLogFile os f)
      else Some (True, append_item log_string f))"

section \<open>QosrtpLoggerDefault\<close>

datatype log_level = kTrace | kInfo | kWarning | kError | kFatal

fun level_number :: "log_level \<Rightarrow> nat" where
  "level_number kTrace = 0"
| "level_number kInfo = 1"
| "level_number kWarning = 2"
| "level_number kError = 3"
| "level_number kFatal = 4"

fun LevelString :: "log_level \<Rightarrow> string" where
  "LevelString kTrace = ''Trace''"
| "LevelString kInfo = ''Info''"
| "LevelString kWarning = ''Warning''"
| "LevelString kError = ''Error''"
| "LevelString kFatal = ''Fatal''"

definition kFormat :: string where
  "kFormat = ''[%date][%level][%thread] %message''"

definition kMaxItemLength :: nat where
  "kMaxItemLength = 64 * 1024"

definition BuildLogString :: "string \<Rightarrow> string \<Rightarrow> log_level \<Rightarrow> string \<Rightarrow> string option" where
  "BuildLogString date thread level message =
     Option.bind (replace_sub ''%date'' date kFormat) (\<lambda>s.
     Option.bind (replace_sub ''%level'' (LevelString level) s) (\<lambda>s.
     Option.bind (replace_sub ''%thread'' thread s)
       (replace_sub ''%message'' message)))"

definition limit_item :: "string \<Rightarrow> string" where
  "limit_item s = (if length s > kMaxItemLength then take kMaxItemLength s else s)"

record logger =
  min_log_level :: log_level
  log_to :: log_file

text \<open>\<open>FormatString\<close>: the results of the two calls of \<open>vsnprintf\<close> and the buffer that the second one fills
  (a text shorter than the largest \<open>int\<close>); the string ends at the first null character.\<close>

definition FormatString :: "int \<Rightarrow> int \<Rightarrow> string \<Rightarrow> string option" where
  "FormatString buffer_size result buffer =
     (if buffer_size < 0 then None else if result < 0 then None else Some (takeWhile (\<lambda>c. c \<noteq> CHR 0x00) buffer))"

text \<open>\<open>DateString\<close>: the text of \<open>put_time\<close>, and the milliseconds with leading zeros.\<close>

definition DateString :: "string \<Rightarrow> nat \<Rightarrow> string" where
  "DateString time_text ms =
     (let digits = decimal (ms mod 1000) in time_text @ replicate (3 - length digits) CHR ''0'' @ digits)"

text \<open>A call of \<open>Log\<close> with what the system answers.\<close>

record log_call =
  call_os :: file_os
  call_time :: string
  call_ms :: nat
  call_thread :: string
  call_level :: log_level
  measured :: int
  printed :: int
  print_buffer :: string

definition formatted :: "log_call \<Rightarrow> string option" where
  "formatted c = FormatString (measured c) (printed c) (print_buffer c)"

definition call_date :: "log_call \<Rightarrow> string" where
  "call_date c = DateString (call_time c) (call_ms c)"

text \<open>The item written, if one is, and the logger; \<open>None\<close> when the call does not return.\<close>

definition Log :: "bool \<Rightarrow> log_call \<Rightarrow> logger \<Rightarrow> (string option \<times> logger) option" where
  "Log crlf c lg =
     (if level_number (call_level c) < level_number (min_log_level lg) \<or> level_number (call_level c) > level_number kFatal
      then Some (None, lg)
      else case formatted c of None \<Rightarrow> Some (None, lg)
      | Some message \<Rightarrow>
        Option.bind (BuildLogString (call_date c) (call_thread c) (call_level c) message) (\<lambda>output_log.
          let item = limit_item output_log in
            map_option (\<lambda>(ok, f). (if ok then Some item else None, lg\<lparr>log_to := f\<rparr>))
               (Write crlf (call_os c) item (log_to lg))))"

text \<open>A run of calls: the items written, in order.\<close>

fun log_all :: "bool \<Rightarrow> log_call list \<Rightarrow> logger \<Rightarrow> (string list \<times> logger) option" where
  "log_all crlf [] lg = Some ([], lg)"
| "log_all crlf (c # cs) lg = Option.bind (Log crlf c lg) (\<lambda>(item, lg).
     map_option (\<lambda>(items, lg). ((case item of None \<Rightarrow> [] | Some s \<Rightarrow> [s]) @ items, lg)) (log_all crlf cs lg))"

section \<open>Initialising the library\<close>

record library =
  interface_set :: bool
  the_logger :: "log_level option"

datatype init_error = Already_Initialized | Wsa_Startup_Failed

text \<open>The logger that the macros of \<open>log.h\<close> use.\<close>

definition SetLogger :: "log_level option \<Rightarrow> library \<Rightarrow> library" where
  "SetLogger logger lib = lib\<lparr>the_logger := logger\<rparr>"

text \<open>\<open>logger\<close> is the application's logger, \<open>wsa\<close> whether \<open>WSAStartup\<close> succeeds; loggers are told apart
  by their level only.\<close>

definition Initialize :: "log_level option \<Rightarrow> log_level \<Rightarrow> bool \<Rightarrow> library \<Rightarrow> (init_error \<times> library, library) outcome" where
  "Initialize logger level wsa lib =
     (if interface_set lib then Failed (Already_Initialized, lib)
      else let lib = SetLogger (Some (case logger of Some l \<Rightarrow> l | None \<Rightarrow> level)) (lib\<lparr>interface_set := True\<rparr>)
        in if \<not> wsa then Failed (Wsa_Startup_Failed, lib) else Ok lib)"

definition UnInitialize :: "library \<Rightarrow> library" where
  "UnInitialize lib = SetLogger None (lib\<lparr>interface_set := False\<rparr>)"

text \<open>After \<open>WSAStartup\<close> has failed, the library counts as initialised.\<close>

lemma failed_startup_sticks:
  "Initialize logger level False lib = Failed (e, lib') \<Longrightarrow>
   Initialize logger' level' wsa lib' = Failed (Already_Initialized, lib')"
  by (auto simp: Initialize_def SetLogger_def Let_def split: if_splits)

section \<open>What the log keeps\<close>

definition max_log_file :: nat where
  "max_log_file = kMaxFileSize + 2 * (kMaxItemLength + 1)"

definition log_ok :: "bool \<Rightarrow> log_file \<Rightarrow> bool" where
  "log_ok crlf f \<longleftrightarrow> (lf_open f \<longrightarrow> lf_files f \<noteq> [])
     \<and> distinct (map fst (lf_files f)) \<and> set (map fst (lf_files f)) \<inter> set (lf_others f) = {}
     \<and> (\<forall>file \<in> set (lf_files f). file_size crlf (snd file) \<le> max_log_file)"

definition logged :: "log_file \<Rightarrow> string list" where
  "logged f = concat (map snd (lf_files f))"

lemma item_bytes_le: "item_bytes crlf s \<le> 2 * (length s + 1)"
proof -
  have "(\<Sum>c\<leftarrow>xs. if crlf \<and> c = CHR 0x0A then 2 else 1) \<le> 2 * length xs" for xs
    by (induction xs) auto
  from this [of "s @ [CHR 0x0A]"] show ?thesis by (simp add: item_bytes_def)
qed

lemma file_size_append [simp]: "file_size crlf (xs @ [s]) = file_size crlf xs + item_bytes crlf s"
  by (simp add: file_size_def)

lemma fresh_name_fresh: "fresh_name f filename ids tmpt = Some name \<Longrightarrow> \<not> IsFileNameDuplicate f name"
proof (induction f filename ids tmpt rule: fresh_name.induct)
  case (1 f filename ids tmpt)
  show ?case
  proof (cases "IsFileNameDuplicate f tmpt")
    case True
    then obtain i ids' t where "ids = i # ids'" "replace_sub ''(_%rn)'' i filename = Some t"
      "fresh_name f filename ids' t = Some name"
      using "1.prems" fresh_name.simps [of f filename ids tmpt] by (auto split: list.splits option.splits)
    then show ?thesis using "1.IH" True by blast
  next
    case False
    then show ?thesis using "1.prems" fresh_name.simps [of f filename ids tmpt] by simp
  qed
qed

lemma ChangeLogFile_ok:
  assumes "ChangeLogFile os f = Some (ok, f')" and "log_ok crlf f"
  shows "log_ok crlf f' \<and> logged f' = logged f \<and> lf_others f' = lf_others f
    \<and> (ok \<longrightarrow> lf_open f' \<and> (\<exists>name files. lf_files f' = files @ [(name, [])]))"
proof -
  consider "\<not> ok" "f' = f" | "\<not> ok" "f' = f\<lparr>lf_open := False\<rparr>"
    | name where "next_name os f = Some name" "ok"
        "f' = f\<lparr>lf_open := True, lf_files := lf_files f @ [(name, [])], lf_index := lf_index f + 1\<rparr>"
    using assms(1) unfolding ChangeLogFile_def
    by (cases "dir_ready os"; cases "next_name os f"; cases "can_open os") auto
  then show ?thesis
  proof cases
    case 3
    then obtain filename tmpt where "fresh_name f filename (random_ids os) tmpt = Some name"
      by (auto simp: next_name_def bind_eq_Some_conv)
    then have "name \<notin> set (map fst (lf_files f))" "name \<notin> set (lf_others f)"
      using fresh_name_fresh by (simp_all add: IsFileNameDuplicate_def)
    then show ?thesis using 3(2,3) assms(2) by (auto simp: log_ok_def logged_def file_size_def)
  qed (use assms(2) in \<open>auto simp: log_ok_def logged_def\<close>)
qed

lemma append_item_ok:
  assumes "log_ok crlf f" and "lf_open f" and "length s \<le> kMaxItemLength"
    and "file_size crlf (snd (last (lf_files f))) \<le> kMaxFileSize"
  shows "log_ok crlf (append_item s f) \<and> logged (append_item s f) = logged f @ [s] \<and> lf_others (append_item s f) = lf_others f"
proof -
  obtain files name items where f: "lf_files f = files @ [(name, items)]"
    using assms(1,2) by (metis log_ok_def surj_pair rev_exhaust)
  have "file_size crlf (items @ [s]) \<le> max_log_file"
    using item_bytes_le [of crlf s] assms(3,4) f by (simp add: max_log_file_def)
  then show ?thesis using assms(1) f by (simp add: append_item_def log_ok_def logged_def)
qed

lemma Write_ok:
  assumes "Write crlf os s f = Some (ok, f')" and "log_ok crlf f" and "length s \<le> kMaxItemLength"
  shows "log_ok crlf f' \<and> logged f' = logged f @ (if ok then [s] else []) \<and> lf_others f' = lf_others f"
proof (cases "ShouldChangeLogFile crlf f")
  case True
  then obtain ok' f1 where c: "ChangeLogFile os f = Some (ok', f1)"
    and w: "(ok, f') = (if ok' then (True, append_item s f1) else (False, f1))"
    using assms(1) by (auto simp: Write_def split: if_splits)
  note changed = ChangeLogFile_ok [OF c assms(2)]
  then show ?thesis
  proof (cases ok')
    case True
    with changed have "file_size crlf (snd (last (lf_files f1))) \<le> kMaxFileSize" and "lf_open f1"
      by (auto simp: file_size_def)
    then show ?thesis using append_item_ok [of crlf f1 s] changed w True assms(3) by simp
  qed (use w in simp)
next
  case False
  then have w: "ok" "f' = append_item s f" and o: "lf_open f"
    using assms(1) by (auto simp: Write_def ShouldChangeLogFile_def)
  have "last (lf_files f) \<in> set (lf_files f)" using o assms(2) by (auto simp: log_ok_def)
  then have "file_size crlf (snd (last (lf_files f))) \<le> max_log_file" using assms(2) by (auto simp: log_ok_def)
  then have "file_size crlf (snd (last (lf_files f))) < 2 ^ 32"
    by (simp add: max_log_file_def kMaxFileSize_def kMaxItemLength_def)
  then have "file_size crlf (snd (last (lf_files f))) \<le> kMaxFileSize"
    using False by (simp add: ShouldChangeLogFile_def unat_of_nat)
  from append_item_ok [OF assms(2) o assms(3) this] show ?thesis using w by simp
qed

lemma limit_item_length: "length (limit_item s) \<le> kMaxItemLength"
  by (simp add: limit_item_def)

lemma Log_cases:
  assumes "Log crlf c lg = Some (item, lg')"
  shows "item = None \<and> lg' = lg \<or> (\<exists>s ok f. Write crlf (call_os c) (limit_item s) (log_to lg) = Some (ok, f)
    \<and> item = (if ok then Some (limit_item s) else None) \<and> lg' = lg\<lparr>log_to := f\<rparr>)"
proof (cases "formatted c")
  case None
  then show ?thesis using assms by (simp add: Log_def split: if_splits)
next
  case (Some message)
  show ?thesis
  proof (cases "BuildLogString (call_date c) (call_thread c) (call_level c) message")
    case None
    then show ?thesis using assms Some by (simp add: Log_def split: if_splits)
  next
    case built: (Some s)
    show ?thesis
    proof (cases "Write crlf (call_os c) (limit_item s) (log_to lg)")
      case None
      then show ?thesis using assms Some built by (simp add: Log_def split: if_splits)
    next
      case some: (Some r)
      then obtain ok f where r: "Write crlf (call_os c) (limit_item s) (log_to lg) = Some (ok, f)"
        by (cases r) simp
      have "item = None \<and> lg' = lg \<or> item = (if ok then Some (limit_item s) else None) \<and> lg' = lg\<lparr>log_to := f\<rparr>"
        using assms Some built r by (auto simp: Log_def split: if_splits)
      then show ?thesis using r by blast
    qed
  qed
qed

lemma Log_ok:
  assumes "Log crlf c lg = Some (item, lg')" and "log_ok crlf (log_to lg)"
  shows "log_ok crlf (log_to lg') \<and> lf_others (log_to lg') = lf_others (log_to lg)
    \<and> logged (log_to lg') = logged (log_to lg) @ (case item of None \<Rightarrow> [] | Some s \<Rightarrow> [s])"
  using Log_cases [OF assms(1)]
proof (elim disjE exE conjE)
  fix s ok f
  assume "Write crlf (call_os c) (limit_item s) (log_to lg) = Some (ok, f)"
    and "item = (if ok then Some (limit_item s) else None)" and "lg' = lg\<lparr>log_to := f\<rparr>"
  then show ?thesis using Write_ok [OF _ assms(2) limit_item_length] by auto
qed (use assms(2) in simp)

lemma log_all_ok:
  "log_all crlf cs lg = Some (items, lg') \<Longrightarrow> log_ok crlf (log_to lg) \<Longrightarrow>
   log_ok crlf (log_to lg') \<and> lf_others (log_to lg') = lf_others (log_to lg) \<and> logged (log_to lg') = logged (log_to lg) @ items"
proof (induction cs arbitrary: lg items)
  case (Cons c cs)
  then obtain item lg1 items' where c: "Log crlf c lg = Some (item, lg1)"
    and cs: "log_all crlf cs lg1 = Some (items', lg')" and items: "items = (case item of None \<Rightarrow> [] | Some s \<Rightarrow> [s]) @ items'"
    by (auto simp: bind_eq_Some_conv)
  show ?case using Log_ok [OF c Cons.prems(2)] Cons.IH [OF cs] items by simp
qed simp

text \<open>C38: Over any run of calls of a new logger the files hold, one after the other, exactly the items that
  were written, in order; no file of another name than its own is touched and no name is used twice;
  and no file grows beyond 50 MiB and one more item, whose length is limited.\<close>

theorem log_keeps_items:
  assumes "log_all crlf calls \<lparr>min_log_level = l, log_to = log_file_new pid others\<rparr> = Some (items, lg)"
  shows "concat (map snd (lf_files (log_to lg))) = items
    \<and> distinct (map fst (lf_files (log_to lg))) \<and> set (map fst (lf_files (log_to lg))) \<inter> set others = {}
    \<and> list_all (\<lambda>file. file_size crlf (snd file) \<le> kMaxFileSize + 2 * (kMaxItemLength + 1)) (lf_files (log_to lg))"
proof -
  have "log_ok crlf (log_file_new pid others)" by (simp add: log_ok_def log_file_new_def)
  then show ?thesis
    using log_all_ok [OF assms]
    by (auto simp: logged_def log_file_new_def log_ok_def max_log_file_def list_all_iff)
qed

definition sample_call :: "string \<Rightarrow> log_call" where
  "sample_call s = \<lparr>call_os = \<lparr>dir_ready = True, can_open = True, draws = [\<lambda>i. i]\<rparr>,
     call_time = ''2024.'', call_ms = 1007, call_thread = ''7'', call_level = kError, measured = 2, printed = 2,
     print_buffer = s @ [CHR 0x00]\<rparr>"

lemma sample_call_simps:
  "call_date (sample_call s) = ''2024.007''" "call_thread (sample_call s) = ''7''"
  "call_level (sample_call s) = kError" "formatted (sample_call s) = Some (takeWhile (\<lambda>c. c \<noteq> CHR 0x00) (s @ [CHR 0x00]))"
  by (simp_all add: sample_call_def call_date_def formatted_def FormatString_def DateString_def decimal.simps) code_simp

lemma sample_name: "next_name (call_os (sample_call m)) (log_file_new ''12'' []) = Some ''qosrtp_12_0.log''"
proof -
  have "base_name (log_file_new ''12'' []) = Some ''qosrtp_12_0(_%rn).log''"
    by (simp add: base_name_def log_file_new_def replace_sub_def kFileNameFormat_def to_string_def decimal.simps) code_simp
  then show ?thesis
    by (simp add: next_name_def sample_call_def replace_sub_def fresh_name.simps IsFileNameDuplicate_def)
      (simp add: log_file_new_def)
qed

theorem log_keeps_items_witness:
  "\<exists>lg. log_all True [sample_call ''hi''] \<lparr>min_log_level = kInfo, log_to = log_file_new ''12'' []\<rparr>
      = Some ([''[2024.007][Error][7] hi''], lg)
    \<and> concat (map snd (lf_files (log_to lg))) = [''[2024.007][Error][7] hi'']"
proof -
  have b: "BuildLogString ''2024.007'' ''7'' kError ''hi'' = Some ''[2024.007][Error][7] hi''"
    by (simp add: BuildLogString_def replace_sub_def kFormat_def)
  have c: "ChangeLogFile (call_os (sample_call ''hi'')) (log_file_new ''12'' [])
      = Some (True, \<lparr>lf_index = 1, lf_pid = ''12'', lf_open = True, lf_files = [(''qosrtp_12_0.log'', [])], lf_others = []\<rparr>)"
    by (simp add: ChangeLogFile_def sample_name) (simp add: sample_call_def log_file_new_def)
  have w: "Write True (call_os (sample_call ''hi'')) s (log_file_new ''12'' [])
      = Some (True, \<lparr>lf_index = 1, lf_pid = ''12'', lf_open = True, lf_files = [(''qosrtp_12_0.log'', [s])], lf_others = []\<rparr>)" for s
    using c by (simp add: Write_def ShouldChangeLogFile_def append_item_def) (simp add: log_file_new_def)
  have "\<exists>lg. log_all True [sample_call ''hi''] \<lparr>min_log_level = kInfo, log_to = log_file_new ''12'' []\<rparr>
      = Some ([''[2024.007][Error][7] hi''], lg)"
    by (simp add: Log_def Let_def sample_call_simps b w limit_item_def kMaxItemLength_def)
  then show ?thesis using log_keeps_items [of True] by fastforce
qed

end
