(* ===== verification/Spec2Isabelle.thy ===== *)
theory Spec2Isabelle
  imports Fec_Application Fec_Decode_Order Lossy_Recovery Session_Threads Qos_Session Log_Default
begin

text \<open>
  QoSRTP is an RTP library in C++. An application creates a session (\<open>QosrtpSession\<close>) from a list of
  media configurations; the session owns one socket, three threads and one media session per
  configuration, and a media session owns an RTP sender, an RTP receiver, an RTCP sender and an RTCP
  receiver. RTP packets go from the application through the RTP sender to the socket; datagrams go
  from the socket through the demuxer and the router to the receivers; lost packets are asked for by
  NACK and sent again as RTX packets. Forward error correction is a separate part, which the
  application calls. The theories follow the code from the bytes upwards.

  \<^bold>\<open>Conventions.\<close> Integers have their width (\<open>u8\<close> to \<open>u64\<close>, words that wrap around); a pointer that
  may be null is an option; an operation that returns \<open>std::unique_ptr<Result>\<close> has a value of type
  \<open>outcome\<close>: \<open>Ok\<close>, \<open>Failed\<close> with the error of the code, or \<open>Crash\<close> with the undefined behaviour met
  (a read or write out of bounds, a null dereference). So a theorem that says \<open>Ok\<close> also says
  that memory is safe. A class is a record of its members, a method a function from the old to the
  new record. A mutex makes the method that holds it one step. The clock, random numbers, the content of
  fresh memory and floating-point results are parameters. Logging is left out of the other parts.

  \<^bold>\<open>Bytes and packets.\<close>
  \<^item> \<open>Qos_Prelude\<close>: the outcome type with its bind, access to memory, shared lemmas.
  \<^item> \<open>Byte_Io\<close> (\<open>utils/byte_io.h\<close>), \<open>Seq_Comparison\<close> (\<open>utils/seq_comparison.h\<close>, with the locale of the
    circular order that the caches rely on), \<open>Data_Buffer\<close> (\<open>utils/data_buffer_impl\<close>).
  \<^item> \<open>Rtp_Packet\<close> and \<open>Rtp_Codec\<close> (\<open>rtp_rtcp/rtp_packet_impl\<close>): parser and serialiser, refinement of the
    documented layout up to two bits that the code exchanges, memory safety, what survives a round trip and what
    the code loses.
  \<^item> \<open>Rtcp_Common\<close>, \<open>Rtcp_Reports\<close>, \<open>Rtcp_Nack\<close>, \<open>Rtcp_Sdes\<close>, \<open>Rtcp_Bye\<close>: the RTCP header and one
    theory per packet class, each an interpretation of the locale \<open>rtcp_packet_class\<close>; memory safety
    and round trips. \<open>Rtcp_Frame\<close> carries the results of a parser over to a packet inside a datagram.

  \<^bold>\<open>RTP.\<close>
  \<^item> \<open>Rtp_Sender\<close> (\<open>rtp_rtcp/rtp_sender\<close>): sending, the cache, RTX packets; the invariant of the
    transmitted stream.
  \<^item> \<open>Rtp_Receiver\<close>, \<open>Rtp_Receiver_Order\<close>, \<open>Rtp_Receiver_Loss\<close> (\<open>rtp_rtcp/rtp_receiver\<close>): the jitter
    buffer, the list of lost numbers, the statistics; order of the packets released, exact loss list.
  \<^item> \<open>Rtx_Roundtrip\<close>: the sender's RTX packet and the receiver's reconstruction together.

  \<^bold>\<open>RTCP.\<close>
  \<^item> \<open>Rtcp_Receiver\<close> (\<open>rtp_rtcp/rtcp_receiver\<close>): the walk over a compound packet, with its termination
    (the chain of rounds that a datagram determines) and the datagrams that crash it.
  \<^item> \<open>Rtcp_Packets\<close>: the virtual calls of \<open>RtcpPacket\<close> as a datatype, and \<open>SendRtcp\<close> of
    \<open>rtp_rtcp/rtp_rtcp_tranceiver_impl\<close>, which writes a compound.
  \<^item> \<open>Rtcp_Sender\<close> (\<open>rtp_rtcp/rtcp_sender\<close>), \<open>Rtcp_Exchange\<close> (sender and receiver against each other)
    and \<open>Rtcp_Schedule\<close> (fraction lost, BYE and the timer, over every run of the calls).

  \<^bold>\<open>Network, sessions and threads.\<close>
  \<^item> \<open>Worker_Thread\<close> (\<open>utils/thread\<close>): the task queue and the delayed tasks, over every interleaving.
  \<^item> \<open>Io_Scheduler\<close> (\<open>network/network_io_scheduler\<close>): the handlers of the network thread and its wait loop.
  \<^item> \<open>Rtp_Transport\<close> (\<open>rtp_rtcp/rtp_rtcp_demuxer\<close>, \<open>rtp_rtcp_router\<close>): from a datagram to the receivers.
  \<^item> \<open>Transport_Address\<close> and \<open>Network_Transport\<close> (\<open>session/qosrtp_session_impl\<close>,
    \<open>network/network_tranceiver\<close>): addresses, the setup of the socket, sending and receiving datagrams.
  \<^item> \<open>Session_Config\<close>, \<open>Media_Session\<close>, \<open>Qos_Session\<close> (\<open>session/\<close>): the configurations and their
    checks, a media session with the calls between its four parts, and the whole session.
  \<^item> \<open>Log_Default\<close> (\<open>utils/log_default\<close>, \<open>utils/qosrtp.cc\<close>): the log files and the initialisation.

  \<^bold>\<open>Two sessions over a network.\<close> A near media session that sends and a far one that receives, with the
  transceiver, demuxer and router of the code between them; a datagram that was sent may arrive any
  number of times, in any order, or never (step relation \<open>net_step\<close>).
  \<^item> \<open>Lossy_Network\<close>: the system and its invariant: every datagram under way resolves, in the far
    receiver, to a packet that was sent.
  \<^item> \<open>Lossy_Delivery\<close>: what the far application is handed is a subsequence of what was sent.
  \<^item> \<open>Lossy_Safety\<close>: the receiver notices every loss, and nothing crashes.
  \<^item> \<open>Lossy_Recovery\<close>: from the gap over NACK, cache and RTX back to the lost packet, in one round trip.
  \<^item> \<open>Session_Threads\<close>: the same with the network, worker and signal thread of the receiving session and
    the queues between them, a task being one step: every run is simulated by one of \<open>Lossy_Network\<close>.

  The bounds there: a run of at most 32767 packets, half of the circle of sequence numbers, because the
  code compares numbers by the shorter way round; and, for the losses, no packet with the number 0,
  which the code never enters as lost. Packets have neither extension, CSRCs nor padding (\<open>plain\<close>), which
  the code does not carry through unchanged (\<open>Rtp_Codec\<close>); payload types 64 to 95, which the demuxer
  takes for RTCP, are excluded where nothing may crash.

  \<^bold>\<open>Forward error correction\<close> (\<open>rtp_rtcp/ulp_fec.cc\<close>, \<open>forward_error_correction.cc\<close>).
  \<^item> \<open>Fec_Tables\<close>, \<open>Ulp_Fec_Mask\<close>, \<open>Ulp_Fec_Mask_Correct\<close>: the packet masks.
  \<^item> \<open>Ulp_Fec_Encode\<close>, \<open>Ulp_Fec_Decode\<close>: encoder and decoder. \<open>Fec_Parity\<close>, \<open>Fec_Recovery\<close>,
    \<open>Fec_Coverage\<close>: the decoder restores what the encoder protects. \<open>Fec_Decode_Order\<close>: the order of
    the decoder's output.
  \<^item> \<open>Fec_Stream\<close>: the invariant of the decoder when what it gets are packets of one stream, in any
    order: every entry of the cache is a packet of the stream, sent or restored, and every FEC packet
    points to what has been seen of its group. Each loop of \<open>Decode\<close> keeps it and cannot fail.
  \<^item> \<open>Fec_Application\<close> (\<open>test/test_sender_with_fec\<close>, \<open>test/test_receiver_with_fec\<close>): the sender that
    numbers and sends each frame with its FEC packets against the receiver that decodes what arrives, alone and over
    \<open>Lossy_Network\<close>: delivery in order, repair of one loss per frame, and two limits of the code.

  The bounds there: streams of at most 32767 packets, as above; bodies of 1 to 32767 bytes; packets
  without CSRCs and extension, as the program makes them. Until the decoder has put out a packet the code recovers
  no number above 32768 (\<open>high_number_not_recovered\<close>). \<open>Decode\<close> with nothing cached and nothing new crashes,
  which in-order delivery in non-empty batches excludes.

  \<^bold>\<open>Interfaces.\<close> The locales are \<open>seq_order\<close> (the circular order, interpreted on \<open>IsSeqAfter\<close>),
  \<open>rtcp_packet_class\<close> (length, writer and image of a packet class, interpreted on every class and on
  the sum of all, on which the compound packets rest), \<open>sequential_writer\<close> (the loops that write the
  elements of a packet), \<open>xor_group\<close> (parity, interpreted on bytes), \<open>receiver_invariant\<close> (what an
  invariant of the RTP receiver must keep to hold over the network, interpreted on delivery and on the
  tracking of losses), \<open>rtcp_side\<close> (what a session promises to the datagrams it gets, interpreted on
  both sides) and \<open>simulation\<close> (of one step relation by another, interpreted on the threads).

  \<^bold>\<open>Recursion.\<close> No definition uses fuel. Loops over containers are structural; the walks of the RTCP
  parsers, the loss gaps and the recovery loop end by a measure, given where they are defined. The
  wait loop of the network thread and the search for the name of a log file, which need not end, are
  given the finite list of what the system answers, and say when that list is used up.

  \<^bold>\<open>Assumptions on parameters.\<close> \<open>inet_pton\<close> writes 4 or 16 bytes (\<open>pton_sizes\<close>). \<open>recvfrom\<close> returns at
  most as many bytes as the buffer holds. Both are shown satisfiable by the witnesses.

  \<^bold>\<open>Not modelled.\<close> The \<open>Result\<close> objects (an outcome stands for them) and the texts of their
  errors; the trace output; the switch of a call to another thread outside \<open>Session_Threads\<close>, where it is a
  \<open>PushTask\<close>; the event objects of Winsock and the descriptions of threads; the floating-point
  conversions of \<open>ntp_time.h\<close>, which nothing calls; the template \<open>CallableWrapper\<close>; of the test
  programs, those without FEC, and in the two with FEC the configuration of the session, the pacing and
  the bytes of the bodies.

  \<^bold>\<open>Next.\<close> The interleaving of calls inside a task (two threads may call the RTCP sender between
  two methods of one task); more than one media session per side.
\<close>

end
